(* ===== verification/Prelude.thy ===== *)
theory Prelude
  imports Main "HOL-Library.Word"
begin

text \<open>
  Shared vocabulary of the FalastinOS development: the machine integer types of the C
  sources, the reading of \<^verbatim>\<open>char\<close> and of NUL-terminated strings, faults (what C leaves
  undefined) as values, the text console every component prints to, and the lemmas on lists,
  bytes and decimal digits that the component theories share.

  Conventions of the whole development.
  \<^item> The target is 32-bit x86 (\<^verbatim>\<open>-m32\<close> in \<^verbatim>\<open>src/Makefile\<close>): \<^verbatim>\<open>int\<close> and \<^verbatim>\<open>long\<close> are 32-bit
    two's complement, \<^verbatim>\<open>size_t\<close> and pointers are 32-bit unsigned, \<^verbatim>\<open>char\<close> is signed.
  \<^item> A C \<^verbatim>\<open>char\<close> is an Isabelle \<^typ>\<open>char\<close>, a \<^verbatim>\<open>uint8_t\<close> an \<open>8 word\<close>.
  \<^item> A \<^verbatim>\<open>const char*\<close> argument is the string of its characters before the terminating NUL;
    \<open>cstr_at s i\<close> is the C expression \<^verbatim>\<open>s[i]\<close> for an \<open>i\<close> up to and including the terminator.
  \<^item> A \<^verbatim>\<open>char\<close> array with a capacity is a list of exactly that length.
\<close>

type_synonym u8 = "8 word"
type_synonym u16 = "16 word"
type_synonym u32 = "32 word"

named_theorems byte_simps "reading and writing bytes, words and characters"
named_theorems console_simps "text sent to the console"

section \<open>Faults\<close>

text \<open>
  What the C standard leaves undefined and the sources can run into; \<open>NoEvent\<close> marks a wait for
  an interrupt or a key that the list of events to come does not contain.
\<close>

datatype fault = OutOfBounds | DivideByZero | BadArgument | NoEvent

type_synonym 'a result = "fault + 'a"

definition bind_result :: "'a result \<Rightarrow> ('a \<Rightarrow> 'b result) \<Rightarrow> 'b result" where
  "bind_result r f = (case r of Inl e \<Rightarrow> Inl e | Inr x \<Rightarrow> f x)"

lemma bind_result_simps [simp]:
  "bind_result (Inl e) f = Inl e"
  "bind_result (Inr x) f = f x"
  by (simp_all add: bind_result_def)

lemma bind_result_Inr_iff:
  "bind_result r f = Inr y \<longleftrightarrow> (\<exists>x. r = Inr x \<and> f x = Inr y)"
  by (cases r) simp_all

section \<open>Machine integers written out\<close>

text \<open>\<open>swrap\<close> reduces a mathematical integer to the range of a 32-bit \<^verbatim>\<open>int\<close>.\<close>

definition swrap :: "int \<Rightarrow> int" where
  "swrap x = (x + 2 ^ 31) mod 2 ^ 32 - 2 ^ 31"

definition is_int32 :: "int \<Rightarrow> bool" where
  "is_int32 x \<longleftrightarrow> - (2 ^ 31) \<le> x \<and> x < 2 ^ 31"

lemma swrap_id [simp]: "is_int32 x \<Longrightarrow> swrap x = x"
  by (simp add: swrap_def is_int32_def)

lemma is_int32_swrap [simp]: "is_int32 (swrap x)"
proof -
  have "0 \<le> (x + 2 ^ 31) mod 2 ^ 32" and "(x + 2 ^ 31) mod 2 ^ 32 < 2 ^ 32"
    by simp_all
  then show ?thesis by (simp add: swrap_def is_int32_def)
qed

section \<open>Characters and strings\<close>

definition NUL :: char where "NUL = CHR 0x00"
definition BS :: char where "BS = CHR 0x08"
definition TAB :: char where "TAB = CHR 0x09"
definition NL :: char where "NL = CHR 0x0A"
definition CR :: char where "CR = CHR 0x0D"

lemmas char_codes = NUL_def BS_def TAB_def NL_def CR_def

text \<open>A \<^verbatim>\<open>char\<close> as C reads it in an expression: signed, \<open>-128\<close> to \<open>127\<close>.\<close>

definition schar :: "char \<Rightarrow> int" where
  "schar c = (let n = of_char c in if n < 128 then n else n - 256)"

lemma schar_inj: "schar a = schar b \<Longrightarrow> a = b"
proof -
  assume a: "schar a = schar b"
  have "0 \<le> (of_char c :: int) \<and> (of_char c :: int) < 256" for c
    using pos_mod_bound [of 256 "of_char c :: int"] pos_mod_sign [of 256 "of_char c :: int"] by simp
  then have "0 \<le> (of_char a :: int)" "(of_char a :: int) < 256" "0 \<le> (of_char b :: int)" "(of_char b :: int) < 256" by blast+
  then have "(of_char a :: int) = of_char b" using a by (auto simp: schar_def Let_def split: if_splits)
  then show "a = b" by (simp add: of_char_eq_iff)
qed

definition byte_of_char :: "char \<Rightarrow> u8" where
  "byte_of_char c = of_nat (of_char c)"

definition char_of_byte :: "u8 \<Rightarrow> char" where
  "char_of_byte b = char_of (unat b)"

lemma unat_of_nat_u8: "unat (of_nat n :: u8) = n mod 256"
  by (simp add: unat_of_nat)

lemma char_of_byte_of_char [simp, byte_simps]: "char_of_byte (byte_of_char c) = c"
  by (simp add: char_of_byte_def byte_of_char_def unat_of_nat_u8)

lemma byte_of_char_of_byte [simp, byte_simps]: "byte_of_char (char_of_byte b) = b"
proof -
  have "unat b < 2 ^ LENGTH(8)" by (rule unsigned_less)
  then show ?thesis by (simp add: char_of_byte_def byte_of_char_def)
qed

text \<open>\<^verbatim>\<open>s[i]\<close> of a NUL-terminated string given by its characters.\<close>

definition cstr_at :: "string \<Rightarrow> nat \<Rightarrow> char" where
  "cstr_at s i = (if i < length s then s ! i else NUL)"

text \<open>The string a \<^verbatim>\<open>char\<close> array holds: the characters before the first NUL.\<close>

definition cstr :: "char list \<Rightarrow> string" where
  "cstr xs = takeWhile (\<lambda>c. c \<noteq> NUL) xs"

definition nul_free :: "string \<Rightarrow> bool" where
  "nul_free s \<longleftrightarrow> NUL \<notin> set s"

lemma cstr_nul_free [simp]: "nul_free (cstr xs)"
  by (auto simp: nul_free_def cstr_def dest: set_takeWhileD)

lemma cstr_append_NUL: "nul_free s \<Longrightarrow> cstr (s @ NUL # rest) = s"
  unfolding nul_free_def cstr_def by (induction s) auto

lemma cstr_id: "nul_free s \<Longrightarrow> cstr s = s"
  by (auto simp: nul_free_def cstr_def takeWhile_eq_all_conv)

lemma length_cstr_le: "length (cstr xs) \<le> length xs"
  by (simp add: cstr_def length_takeWhile_le)

lemma cstr_at_NUL_iff: "nul_free s \<Longrightarrow> cstr_at s i = NUL \<longleftrightarrow> length s \<le> i"
  by (auto simp: cstr_at_def nul_free_def in_set_conv_nth)

section \<open>Arrays written by index\<close>

text \<open>
  \<open>blit xs i ys\<close> is the array \<open>xs\<close> after \<^verbatim>\<open>xs[i] = ys[0]; xs[i+1] = ys[1]; ...\<close>, the
  effect of the copy loops of the sources. Only indices inside \<open>xs\<close> are written.
\<close>

fun blit :: "'a list \<Rightarrow> nat \<Rightarrow> 'a list \<Rightarrow> 'a list" where
  "blit xs i [] = xs"
| "blit xs i (y # ys) = blit (xs[i := y]) (Suc i) ys"

lemma length_blit [simp]: "length (blit xs i ys) = length xs"
  by (induction xs i ys rule: blit.induct) simp_all

lemma nth_blit:
  "k < length xs \<Longrightarrow>
   blit xs i ys ! k = (if i \<le> k \<and> k < i + length ys then ys ! (k - i) else xs ! k)"
  by (induction xs i ys rule: blit.induct) (auto simp: nth_Cons' nth_list_update)

lemma blit_append:
  assumes "i + length ys \<le> length xs"
  shows "blit xs i ys = take i xs @ ys @ drop (i + length ys) xs"
  by (rule nth_equalityI)
    (use assms in \<open>auto simp: nth_blit nth_append min_def\<close>)

lemma blit_0:
  "length ys \<le> length xs \<Longrightarrow> blit xs 0 ys = ys @ drop (length ys) xs"
  by (simp add: blit_append)

lemma set_blit: "set (blit xs i ys) \<subseteq> set xs \<union> set ys"
proof (induction xs i ys rule: blit.induct)
  case (2 xs i y ys)
  then show ?case using set_update_subset_insert [of xs i y] by auto
qed simp

section \<open>Decimal digits\<close>

definition digit_char :: "nat \<Rightarrow> char" where
  "digit_char d = char_of (48 + d)"

lemma digit_char_simps [simp]:
  "digit_char 0 = CHR ''0''" "digit_char 1 = CHR ''1''" "digit_char (Suc 0) = CHR ''1''"
  "digit_char 2 = CHR ''2''" "digit_char 3 = CHR ''3''" "digit_char 4 = CHR ''4''"
  "digit_char 5 = CHR ''5''" "digit_char 6 = CHR ''6''" "digit_char 7 = CHR ''7''"
  "digit_char 8 = CHR ''8''" "digit_char 9 = CHR ''9''"
  by (simp_all add: digit_char_def char_of_def bit_0)

text \<open>The decimal numeral of a natural number, the reference for every number the sources print.\<close>

fun dec :: "nat \<Rightarrow> string" where
  "dec n = (if n < 10 then [digit_char n] else dec (n div 10) @ [digit_char (n mod 10)])"

declare dec.simps [simp del]

definition dec_int :: "int \<Rightarrow> string" where
  "dec_int i = (if i < 0 then ''-'' @ dec (nat (- i)) else dec (nat i))"

lemma of_char_digit_char: "d < 10 \<Longrightarrow> of_char (digit_char d) = (48 + d :: nat)"
  by (simp add: digit_char_def)

lemma dec_nonempty [simp]: "dec n \<noteq> []"
  by (subst dec.simps) simp

lemma dec_small: "n < 10 \<Longrightarrow> dec n = [digit_char n]"
  by (subst dec.simps) simp

lemma dec_step: "10 \<le> n \<Longrightarrow> dec n = dec (n div 10) @ [digit_char (n mod 10)]"
  by (subst dec.simps) simp

lemma length_dec_le: "n < 10 ^ k \<Longrightarrow> 0 < k \<Longrightarrow> length (dec n) \<le> k"
proof (induction k arbitrary: n)
  case (Suc k)
  show ?case
  proof (cases "n < 10")
    case True
    then show ?thesis by (simp add: dec_small)
  next
    case False
    with Suc.prems have "n div 10 < 10 ^ k" and "0 < k"
      by (auto simp: less_mult_imp_div_less mult.commute intro: Nat.gr0I)
    with Suc.IH have "length (dec (n div 10)) \<le> k" by blast
    with False show ?thesis by (simp add: dec_step)
  qed
qed simp

text \<open>Reading a numeral back: the accumulation loop \<^verbatim>\<open>r = r * 10 + (*s++ - '0')\<close>.\<close>

definition undec :: "nat \<Rightarrow> string \<Rightarrow> nat" where
  "undec r s = foldl (\<lambda>r c. r * 10 + (of_char c - 48)) r s"

lemma undec_append: "undec r (s @ t) = undec (undec r s) t"
  by (simp add: undec_def)

lemma undec_dec: "undec 0 (dec n) = n"
proof (induction n rule: dec.induct)
  case (1 n)
  show ?case
  proof (cases "n < 10")
    case True
    then show ?thesis by (simp add: dec_small undec_def of_char_digit_char)
  next
    case False
    with 1 have "undec 0 (dec (n div 10)) = n div 10" by simp
    with False show ?thesis
      by (simp add: dec_step undec_append) (simp add: undec_def of_char_digit_char)
  qed
qed

definition is_digit :: "char \<Rightarrow> bool" where
  "is_digit c \<longleftrightarrow> (48::nat) \<le> of_char c \<and> of_char c \<le> (57::nat)"

lemma is_digit_digit_char [simp]: "d < 10 \<Longrightarrow> is_digit (digit_char d)"
  by (simp add: is_digit_def of_char_digit_char)

lemma dec_digits: "list_all is_digit (dec n)"
proof (induction n rule: dec.induct)
  case (1 n)
  then show ?case by (cases "n < 10") (simp_all add: dec_small dec_step)
qed

section \<open>The console\<close>

text \<open>
  Every component prints through \<^verbatim>\<open>print\<close> and \<^verbatim>\<open>put_char\<close> of \<^verbatim>\<open>src/screen.c\<close>. No component
  reads the screen back, so a component's state carries the text it sent, oldest first, and
  the screen component interprets that text. The states of the components extend \<open>console\<close>.
\<close>

record console =
  out :: string

definition emit :: "string \<Rightarrow> 'a console_scheme \<Rightarrow> 'a console_scheme" where
  "emit s st = st\<lparr>out := out st @ s\<rparr>"

lemma out_emit [simp, console_simps]: "out (emit s st) = out st @ s"
  by (simp add: emit_def)

lemma emit_emit [simp, console_simps]: "emit t (emit s st) = emit (s @ t) st"
  by (simp add: emit_def)

lemma emit_Nil [simp, console_simps]: "emit [] st = st"
  by (simp add: emit_def)

lemma more_emit [simp, console_simps]: "console.more (emit s st) = console.more st"
  by (simp add: emit_def)

text \<open>
  \<open>yn b\<close> is the C truth value of a comparison and \<open>tt\<close> the test \<^verbatim>\<open>if (x)\<close> of an \<^verbatim>\<open>int\<close>.
\<close>

definition yn :: "bool \<Rightarrow> int" where "yn b = (if b then 1 else 0)"

abbreviation tt :: "int \<Rightarrow> bool" where "tt x \<equiv> x \<noteq> 0"

lemma tt_yn [simp]: "tt (yn b) = b"
  by (simp add: yn_def)

end
