(* ===== verification/Memory.thy ===== *)
theory Memory
  imports Prelude
begin

text \<open>
  Byte-addressed memory, as the allocator (\<^verbatim>\<open>src/malloc.c\<close>) and the memory routines of
  \<^verbatim>\<open>src/libc.c\<close> (\<^verbatim>\<open>memcpy\<close>, \<^verbatim>\<open>memset\<close>, \<^verbatim>\<open>memmove\<close>, \<^verbatim>\<open>memcmp\<close>) see it: a function from addresses
  to bytes, so that overlapping regions alias. 32-bit fields are stored little endian.
  Shown here: what each routine leaves in memory, overlap included, and the read-over-write
  laws of 32-bit fields on which the allocator proofs rest.
\<close>

type_synonym mem = "nat \<Rightarrow> u8"

section \<open>The memory routines of libc.c\<close>

definition memcpy :: "nat \<Rightarrow> nat \<Rightarrow> nat \<Rightarrow> mem \<Rightarrow> mem" where
  "memcpy dest src n m = fold (\<lambda>i m. m(dest + i := m (src + i))) [0..<n] m"

definition memset :: "nat \<Rightarrow> int \<Rightarrow> nat \<Rightarrow> mem \<Rightarrow> mem" where
  "memset dest c n m = fold (\<lambda>i m. m(dest + i := of_int c)) [0..<n] m"

fun copy_back :: "nat \<Rightarrow> nat \<Rightarrow> nat \<Rightarrow> mem \<Rightarrow> mem" where
  "copy_back dest src 0 m = m"
| "copy_back dest src (Suc k) m = copy_back dest src k (m(dest + k := m (src + k)))"

definition memmove :: "nat \<Rightarrow> nat \<Rightarrow> nat \<Rightarrow> mem \<Rightarrow> mem" where
  "memmove dest src n m =
     (if dest < src
      then fold (\<lambda>i m. m(dest + i := m (src + i))) [0..<n] m
      else copy_back dest src n m)"

fun memcmp_from :: "mem \<Rightarrow> nat \<Rightarrow> nat \<Rightarrow> nat \<Rightarrow> nat \<Rightarrow> int" where
  "memcmp_from m a b i 0 = 0"
| "memcmp_from m a b i (Suc k) =
     (if m (a + i) \<noteq> m (b + i) then uint (m (a + i)) - uint (m (b + i))
      else memcmp_from m a b (Suc i) k)"

definition memcmp :: "nat \<Rightarrow> nat \<Rightarrow> nat \<Rightarrow> mem \<Rightarrow> int" where
  "memcmp a b n m = memcmp_from m a b 0 n"

section \<open>What they leave in memory\<close>

definition in_region :: "nat \<Rightarrow> nat \<Rightarrow> nat \<Rightarrow> bool" where
  "in_region a n x \<longleftrightarrow> a \<le> x \<and> x < a + n"

text \<open>The contents of memory after a copy that reads all of the source first.\<close>

definition copied :: "nat \<Rightarrow> nat \<Rightarrow> nat \<Rightarrow> mem \<Rightarrow> mem" where
  "copied dest src n m = (\<lambda>x. if in_region dest n x then m (src + (x - dest)) else m x)"

lemma copied_0 [simp]: "copied dest src 0 m = m"
  by (auto simp: copied_def in_region_def fun_eq_iff)

lemma copied_Suc:
  "copied dest src (Suc n) m = (copied dest src n m)(dest + n := m (src + n))"
  by (auto simp: copied_def in_region_def fun_eq_iff)

lemma memcpy_forward:
  assumes "dest \<le> src \<or> src + n \<le> dest"
  shows "memcpy dest src n m = copied dest src n m"
  using assms
proof (induction n)
  case (Suc n)
  then have "copied dest src n m (src + n) = m (src + n)"
    by (auto simp: copied_def in_region_def)
  moreover have "memcpy dest src n m = copied dest src n m"
    using Suc by auto
  ultimately show ?case by (simp add: memcpy_def copied_Suc)
qed (simp add: memcpy_def)

lemma backward_copy: "src \<le> dest \<Longrightarrow> copy_back dest src n m = copied dest src n m"
proof (induction n arbitrary: m)
  case (Suc n)
  have "copied dest src n (m(dest + n := m (src + n))) = copied dest src (Suc n) m"
    using Suc.prems by (auto simp: copied_def in_region_def fun_eq_iff)
  with Suc show ?case by simp
qed simp

lemma memmove_copied: "memmove dest src n m = copied dest src n m"
proof (cases "dest < src")
  case True
  then have "memmove dest src n m = memcpy dest src n m"
    by (simp add: memmove_def memcpy_def)
  with True show ?thesis by (simp add: memcpy_forward)
next
  case False
  then show ?thesis by (simp add: memmove_def backward_copy)
qed

lemma memset_fill:
  "memset dest c n m = (\<lambda>x. if in_region dest n x then of_int c else m x)"
  by (induction n) (auto simp: memset_def in_region_def fun_eq_iff)

lemma memcmp_from_0:
  "memcmp_from m a b i k = 0 \<longleftrightarrow> (\<forall>j<k. m (a + i + j) = m (b + i + j))"
proof (induction k arbitrary: i)
  case (Suc k)
  have "uint (m (a + i)) - uint (m (b + i)) = 0 \<longleftrightarrow> m (a + i) = m (b + i)"
    by (simp add: word_uint_eq_iff)
  then show ?case
    using Suc [of "Suc i"] by (auto simp: less_Suc_eq_0_disj)
qed simp

lemma memcmp_0_iff: "memcmp a b n m = 0 \<longleftrightarrow> (\<forall>j<n. m (a + j) = m (b + j))"
  by (simp add: memcmp_def memcmp_from_0)

section \<open>32-bit fields\<close>

definition rd32 :: "mem \<Rightarrow> nat \<Rightarrow> nat" where
  "rd32 m a = unat (m a) + 256 * unat (m (a + 1)) + 65536 * unat (m (a + 2))
              + 16777216 * unat (m (a + 3))"

definition wr32 :: "nat \<Rightarrow> nat \<Rightarrow> mem \<Rightarrow> mem" where
  "wr32 a v m = m(a := of_nat v, a + 1 := of_nat (v div 256),
                  a + 2 := of_nat (v div 65536), a + 3 := of_nat (v div 16777216))"

lemma rd32_wr32_same [simp]: "rd32 (wr32 a v m) a = v mod 2 ^ 32"
proof -
  have "v mod 2 ^ 32 = v mod (256 * (256 * (256 * 256)))" by simp
  also have "\<dots> = v mod 256 + 256 * (v div 256 mod 256) + 65536 * (v div 65536 mod 256)
        + 16777216 * (v div 16777216 mod 256)"
    by (simp only: mod_mult2_eq div_mult2_eq [symmetric]) simp
  finally have "v mod 256 + 256 * (v div 256 mod 256) + 65536 * (v div 65536 mod 256)
        + 16777216 * (v div 16777216 mod 256) = v mod 2 ^ 32" by simp
  then show ?thesis by (simp add: rd32_def wr32_def unat_of_nat_u8)
qed

lemma rd32_wr32_other [simp]:
  "b + 4 \<le> a \<or> a + 4 \<le> b \<Longrightarrow> rd32 (wr32 a v m) b = rd32 m b"
  by (auto simp: rd32_def wr32_def)

lemma wr32_outside [simp]: "\<not> in_region a 4 x \<Longrightarrow> wr32 a v m x = m x"
  by (auto simp: wr32_def in_region_def)

lemma rd32_less: "rd32 m a < 2 ^ 32"
proof -
  have "unat (b :: u8) \<le> 255" for b
  proof -
    have "unat b < 2 ^ LENGTH(8)" by (rule unsigned_less)
    then show ?thesis by simp
  qed
  from this [of "m a"] this [of "m (a + 1)"] this [of "m (a + 2)"] this [of "m (a + 3)"]
  show ?thesis by (simp add: rd32_def)
qed

lemma rd32_cong: "(\<And>i. i < 4 \<Longrightarrow> m' (a + i) = m (a + i)) \<Longrightarrow> rd32 m' a = rd32 m a"
proof -
  assume eq: "\<And>i. i < 4 \<Longrightarrow> m' (a + i) = m (a + i)"
  show ?thesis using eq [of 0] eq [of 1] eq [of 2] eq [of 3] by (simp add: rd32_def)
qed

end
