(* ===== verification/Malloc.thy ===== *)
theory Malloc
  imports Memory
begin

text \<open>
  The kernel heap, \<^verbatim>\<open>src/malloc.c\<close>: a first-fit allocator over a chain of blocks, each with
  a 16-byte header (\<^verbatim>\<open>size\<close>, \<^verbatim>\<open>free\<close>, \<^verbatim>\<open>next\<close>, \<^verbatim>\<open>magic\<close>) stored in the heap's own memory.
  The model works on bytes: headers are read and written as 32-bit fields, so a walk that
  meets a damaged header behaves as the code does. The loops over the chain are
  \<^theory_text>\<open>partial_function (option)\<close>s (\<open>None\<close>: the walk never ends, as on a cyclic chain), and on
  every heap that represents a block list they are proved to return.

  The chain is related to a list of \<open>(size, free)\<close> pairs (\<open>heap_rep\<close>); the list operations
  \<open>a_alloc\<close>, \<open>a_release\<close> and \<open>a_merge\<close> are the specification the byte-level code refines.
\<close>

section \<open>The code\<close>

definition HEAP_START :: nat where "HEAP_START = 0x800000"
definition HEAP_SIZE :: nat where "HEAP_SIZE = 0x400000"
definition BLOCK_MAGIC :: nat where "BLOCK_MAGIC = 0xDEADBEEF"
definition HEADER_SIZE :: nat where "HEADER_SIZE = 16"
definition MIN_SPLIT :: nat where "MIN_SPLIT = 32"

text \<open>The fields of \<^verbatim>\<open>struct Block\<close> at an address.\<close>

definition blk_size :: "mem \<Rightarrow> nat \<Rightarrow> nat" where "blk_size m a = rd32 m a"
definition blk_free :: "mem \<Rightarrow> nat \<Rightarrow> nat" where "blk_free m a = rd32 m (a + 4)"
definition blk_next :: "mem \<Rightarrow> nat \<Rightarrow> nat" where "blk_next m a = rd32 m (a + 8)"
definition blk_magic :: "mem \<Rightarrow> nat \<Rightarrow> nat" where "blk_magic m a = rd32 m (a + 12)"

definition set_size :: "nat \<Rightarrow> nat \<Rightarrow> mem \<Rightarrow> mem" where "set_size a v m = wr32 a v m"
definition set_free :: "nat \<Rightarrow> nat \<Rightarrow> mem \<Rightarrow> mem" where "set_free a v m = wr32 (a + 4) v m"
definition set_next :: "nat \<Rightarrow> nat \<Rightarrow> mem \<Rightarrow> mem" where "set_next a v m = wr32 (a + 8) v m"
definition set_magic :: "nat \<Rightarrow> nat \<Rightarrow> mem \<Rightarrow> mem" where "set_magic a v m = wr32 (a + 12) v m"

lemmas blk_defs = blk_size_def blk_free_def blk_next_def blk_magic_def
  set_size_def set_free_def set_next_def set_magic_def

record heap = console +
  hmem :: mem
  heap_start_ptr :: nat
  heap_ready :: int

definition heap_init :: "'a heap_scheme \<Rightarrow> 'a heap_scheme" where
  "heap_init h =
     (let p = HEAP_START;
          m1 = set_size p (HEAP_SIZE - HEADER_SIZE) (hmem h);
          m2 = set_free p 1 m1;
          m3 = set_next p 0 m2;
          m4 = set_magic p BLOCK_MAGIC m3
      in h\<lparr>hmem := m4, heap_start_ptr := p, heap_ready := 1\<rparr>)"

partial_function (option) merge_walk :: "nat \<Rightarrow> mem \<Rightarrow> mem option" where
  "merge_walk cur m =
     (if cur = 0 \<or> blk_next m cur = 0 then Some m
      else if blk_free m cur \<noteq> 0 \<and> blk_free m (blk_next m cur) \<noteq> 0
      then (let m1 = set_size cur (blk_size m cur + (HEADER_SIZE + blk_size m (blk_next m cur))) m;
                m2 = set_next cur (blk_next m1 (blk_next m1 cur)) m1
            in merge_walk cur m2)
      else merge_walk (blk_next m cur) m)"

definition merge_free :: "'a heap_scheme \<Rightarrow> 'a heap_scheme option" where
  "merge_free h = map_option (\<lambda>m. h\<lparr>hmem := m\<rparr>) (merge_walk (heap_start_ptr h) (hmem h))"

text \<open>The part of \<^verbatim>\<open>malloc\<close> that takes the block at \<open>cur\<close>, splitting it when the rest is worth it.\<close>

definition take_block :: "nat \<Rightarrow> nat \<Rightarrow> mem \<Rightarrow> mem" where
  "take_block sz cur m =
     (let m' =
        (if (sz + HEADER_SIZE + MIN_SPLIT) mod 2 ^ 32 \<le> blk_size m cur
         then (let newb = (cur + HEADER_SIZE + sz) mod 2 ^ 32;
                   m1 = set_size newb ((blk_size m cur + 2 ^ 32 - sz - HEADER_SIZE) mod 2 ^ 32) m;
                   m2 = set_free newb 1 m1;
                   m3 = set_next newb (blk_next m2 cur) m2;
                   m4 = set_magic newb BLOCK_MAGIC m3;
                   m5 = set_next cur newb m4
               in set_size cur sz m5)
         else m)
      in set_free cur 0 m')"

partial_function (option) malloc_walk :: "nat \<Rightarrow> nat \<Rightarrow> mem \<Rightarrow> (nat \<times> mem) option" where
  "malloc_walk sz cur m =
     (if cur = 0 then Some (0, m)
      else if blk_magic m cur \<noteq> BLOCK_MAGIC then Some (0, m)
      else if blk_free m cur \<noteq> 0 \<and> sz \<le> blk_size m cur
      then Some ((cur + HEADER_SIZE) mod 2 ^ 32, take_block sz cur m)
      else malloc_walk sz (blk_next m cur) m)"

text \<open>\<^verbatim>\<open>(size + 7) & ~7\<close> on a 32-bit \<^verbatim>\<open>size_t\<close>.\<close>

definition align8 :: "nat \<Rightarrow> nat" where
  "align8 sz = (sz + 7) mod 2 ^ 32 div 8 * 8"

definition malloc :: "nat \<Rightarrow> 'a heap_scheme \<Rightarrow> (nat \<times> 'a heap_scheme) option" where
  "malloc sz h =
     (if heap_ready h = 0 \<or> sz = 0 then Some (0, h)
      else map_option (\<lambda>(p, m). (p, h\<lparr>hmem := m\<rparr>))
             (malloc_walk (align8 sz) (heap_start_ptr h) (hmem h)))"

definition calloc :: "nat \<Rightarrow> nat \<Rightarrow> 'a heap_scheme \<Rightarrow> (nat \<times> 'a heap_scheme) option" where
  "calloc count sz h =
     (let total = count * sz mod 2 ^ 32 in
      case malloc total h of
        None \<Rightarrow> None
      | Some (p, h1) \<Rightarrow>
          Some (p, if p \<noteq> 0 then h1\<lparr>hmem := memset p 0 total (hmem h1)\<rparr> else h1))"

text \<open>The header in front of a pointer, 32-bit pointer arithmetic.\<close>

definition hdr_of :: "nat \<Rightarrow> nat" where
  "hdr_of p = (p + (2 ^ 32 - HEADER_SIZE)) mod 2 ^ 32"

text \<open>\<^verbatim>\<open>free\<close>, under another name only because \<open>free\<close> reads as a flag elsewhere in the model.\<close>

definition free_ptr :: "nat \<Rightarrow> 'a heap_scheme \<Rightarrow> 'a heap_scheme option" where
  "free_ptr p h =
     (if p = 0 then Some h
      else let block = hdr_of p in
        if blk_magic (hmem h) block \<noteq> BLOCK_MAGIC then Some h
        else merge_free (h\<lparr>hmem := set_free block 1 (hmem h)\<rparr>))"

definition realloc :: "nat \<Rightarrow> nat \<Rightarrow> 'a heap_scheme \<Rightarrow> (nat \<times> 'a heap_scheme) option" where
  "realloc p sz h =
     (if p = 0 then malloc sz h
      else if sz = 0 then map_option (\<lambda>h'. (0, h')) (free_ptr p h)
      else let block = hdr_of p in
        if sz \<le> blk_size (hmem h) block then Some (p, h)
        else case malloc sz h of
            None \<Rightarrow> None
          | Some (newptr, h1) \<Rightarrow>
              if newptr = 0 then Some (0, h1)
              else let h2 = h1\<lparr>hmem := memcpy newptr p (blk_size (hmem h1) block) (hmem h1)\<rparr>
                in map_option (\<lambda>h3. (newptr, h3)) (free_ptr p h2))"

section \<open>The specification: lists of blocks\<close>

type_synonym blocks = "(nat \<times> bool) list"

fun span :: "blocks \<Rightarrow> nat" where
  "span [] = 0"
| "span ((s, f) # bs) = 16 + s + span bs"

fun a_alloc :: "nat \<Rightarrow> blocks \<Rightarrow> (nat \<times> blocks) option" where
  "a_alloc n [] = None"
| "a_alloc n ((s, f) # bs) =
     (if f \<and> n \<le> s
      then Some (16, if n + 48 \<le> s then (n, False) # (s - n - 16, True) # bs else (s, False) # bs)
      else map_option (\<lambda>(off, bs'). (16 + s + off, (s, f) # bs')) (a_alloc n bs))"

fun a_merge :: "blocks \<Rightarrow> blocks" where
  "a_merge [] = []"
| "a_merge [b] = [b]"
| "a_merge ((s, f) # (t, g) # bs) =
     (if f \<and> g then a_merge ((s + 16 + t, True) # bs) else (s, f) # a_merge ((t, g) # bs))"

fun a_mark :: "nat \<Rightarrow> blocks \<Rightarrow> blocks" where
  "a_mark off [] = []"
| "a_mark off ((s, f) # bs) =
     (if off = 16 then (s, True) # bs else (s, f) # a_mark (off - (16 + s)) bs)"

definition a_release :: "nat \<Rightarrow> blocks \<Rightarrow> blocks" where
  "a_release off bs = a_merge (a_mark off bs)"

text \<open>The used blocks as (address of the data, size) pairs.\<close>

fun live :: "nat \<Rightarrow> blocks \<Rightarrow> (nat \<times> nat) set" where
  "live a [] = {}"
| "live a ((s, f) # bs) = (if f then {} else {(a + 16, s)}) \<union> live (a + 16 + s) bs"

fun coalesced :: "blocks \<Rightarrow> bool" where
  "coalesced ((s, f) # (t, g) # bs) = (\<not> (f \<and> g) \<and> coalesced ((t, g) # bs))"
| "coalesced _ = True"

fun aligned :: "blocks \<Rightarrow> bool" where
  "aligned [] = True"
| "aligned ((s, f) # bs) = (8 dvd s \<and> aligned bs)"

fun in_hdr :: "nat \<Rightarrow> blocks \<Rightarrow> nat \<Rightarrow> bool" where
  "in_hdr a [] x = False"
| "in_hdr a ((s, f) # bs) x = (in_region a 16 x \<or> in_hdr (a + 16 + s) bs x)"

text \<open>The chain of headers from address \<open>a\<close> is exactly the list.\<close>

fun chain :: "mem \<Rightarrow> nat \<Rightarrow> blocks \<Rightarrow> bool" where
  "chain m a [] = (a = 0)"
| "chain m a ((s, f) # bs) =
     (a \<noteq> 0 \<and> rd32 m a = s \<and> rd32 m (a + 4) = (if f then 1 else 0) \<and>
      rd32 m (a + 8) = (if bs = [] then 0 else a + 16 + s) \<and> rd32 m (a + 12) = BLOCK_MAGIC \<and>
      (bs \<noteq> [] \<longrightarrow> chain m (a + 16 + s) bs))"

definition heap_rep :: "'a heap_scheme \<Rightarrow> blocks \<Rightarrow> bool" where
  "heap_rep h bs \<longleftrightarrow>
     heap_ready h \<noteq> 0 \<and> heap_start_ptr h = HEAP_START \<and> chain (hmem h) HEAP_START bs \<and>
     bs \<noteq> [] \<and> span bs = HEAP_SIZE \<and> coalesced bs \<and> aligned bs"

section \<open>The chain in memory\<close>

lemmas heap_consts = HEAP_START_def HEAP_SIZE_def HEADER_SIZE_def MIN_SPLIT_def

lemma chain_pos: "chain m a bs \<Longrightarrow> bs \<noteq> [] \<Longrightarrow> 0 < a"
  by (cases bs) auto

lemma chain_cong:
  assumes "\<And>x. in_hdr a bs x \<Longrightarrow> m' x = m x"
  shows "chain m' a bs = chain m a bs"
  using assms
proof (induction bs arbitrary: a)
  case (Cons b bs)
  obtain s f where b: "b = (s, f)" by (cases b)
  from Cons.prems b have hd: "m' x = m x" if "in_region a 16 x" for x
    using that by simp
  have rd: "rd32 m' (a + k) = rd32 m (a + k)" if "k \<le> 12" for k
    by (rule rd32_cong) (use that in \<open>auto intro!: hd simp: in_region_def\<close>)
  have "chain m' (a + 16 + s) bs = chain m (a + 16 + s) bs"
    by (rule Cons.IH) (use Cons.prems b in simp)
  with rd [of 0] rd [of 4] rd [of 8] rd [of 12] show ?case by (simp add: b)
qed simp

lemma in_hdr_bounds: "in_hdr a bs x \<Longrightarrow> a \<le> x \<and> x < a + span bs"
  by (induction bs arbitrary: a) (auto simp: in_region_def, fastforce+)

lemma chain_wr32_below [simp]: "b + 4 \<le> a \<Longrightarrow> chain (wr32 b v m) a bs = chain m a bs"
  by (rule chain_cong) (auto dest: in_hdr_bounds simp: in_region_def)

lemma chain_agree_above:
  "(\<And>x. a \<le> x \<Longrightarrow> m' x = m x) \<Longrightarrow> chain m' a bs = chain m a bs"
  by (rule chain_cong) (auto dest: in_hdr_bounds)

lemma hdr_agree:
  assumes "\<And>x. in_region a 16 x \<Longrightarrow> m' x = m x"
  shows "rd32 m' a = rd32 m a" "rd32 m' (a + 4) = rd32 m (a + 4)"
    "rd32 m' (a + 8) = rd32 m (a + 8)" "rd32 m' (a + 12) = rd32 m (a + 12)"
  by (rule rd32_cong; use assms in \<open>simp add: in_region_def\<close>)+

section \<open>Allocation refines first fit on the list\<close>

lemma take_block_split:
  assumes c: "chain m a ((s, True) # bs)" and le: "n + 48 \<le> s" and hi: "a + 64 + s < 2 ^ 32"
  shows "chain (take_block n a m) a ((n, False) # (s - n - 16, True) # bs)"
    and "\<And>x. \<not> in_hdr a [(n, False), (s - n - 16, True)] x \<Longrightarrow> take_block n a m x = m x"
proof -
  have small: "(n + HEADER_SIZE + MIN_SPLIT) mod 4294967296 = n + 48"
      "(a + HEADER_SIZE + n) mod 4294967296 = a + 16 + n"
      "(s + 4294967296 - (n + HEADER_SIZE)) mod 4294967296 = s - n - 16"
    using le hi by (auto simp: heap_consts mod_if)
  have sz: "rd32 m a = s" using c by simp
  have tb: "take_block n a m =
      set_free a 0 (set_size a n (set_next a (a + 16 + n) (set_magic (a + 16 + n) BLOCK_MAGIC
        (set_next (a + 16 + n) (if bs = [] then 0 else a + 16 + s)
          (set_free (a + 16 + n) 1 (set_size (a + 16 + n) (s - n - 16) m))))))"
    using c le by (simp add: take_block_def Let_def small blk_defs sz)
  have eq: "16 + (a + s) = a + 16 + s" by simp
  have tl: "bs \<noteq> [] \<longrightarrow> chain m (16 + (a + s)) bs" using c unfolding eq by simp
  show "chain (take_block n a m) a ((n, False) # (s - n - 16, True) # bs)"
    using c le hi tl by (simp add: tb blk_defs BLOCK_MAGIC_def)
  show "take_block n a m x = m x" if "\<not> in_hdr a [(n, False), (s - n - 16, True)] x" for x
    using that by (auto simp: tb blk_defs in_region_def)
qed

lemma take_block_whole:
  assumes c: "chain m a ((s, True) # bs)" and le: "n \<le> s" and gt: "s < n + 48"
    and hi: "a + 64 + s < 2 ^ 32"
  shows "chain (take_block n a m) a ((s, False) # bs)"
    and "\<And>x. \<not> in_hdr a [(s, False)] x \<Longrightarrow> take_block n a m x = m x"
proof -
  have small: "(n + HEADER_SIZE + MIN_SPLIT) mod 4294967296 = n + 48"
    using le hi by (simp add: heap_consts)
  have tb: "take_block n a m = set_free a 0 m"
    using c gt by (simp add: take_block_def Let_def small blk_defs)
  show "chain (take_block n a m) a ((s, False) # bs)"
    using c by (simp add: tb blk_defs)
  show "take_block n a m x = m x" if "\<not> in_hdr a [(s, False)] x" for x
    using that by (auto simp: tb blk_defs in_region_def intro!: wr32_outside)
qed

lemma malloc_walk_full:
  "chain m a bs \<Longrightarrow> a_alloc n bs = None \<Longrightarrow> a \<noteq> 0 \<Longrightarrow> malloc_walk n a m = Some (0, m)"
proof (induction bs arbitrary: a)
  case (Cons b bs)
  obtain s f where b: "b = (s, f)" by (cases b)
  have skip: "malloc_walk n a m = malloc_walk n (rd32 m (a + 8)) m"
    using Cons.prems b by (subst malloc_walk.simps) (auto simp: blk_defs split: if_splits)
  show ?case
  proof (cases "bs = []")
    case True
    then show ?thesis using Cons.prems b
      by (subst skip) (subst malloc_walk.simps, simp)
  next
    case False
    then show ?thesis using Cons b
      by (subst skip) (auto split: if_splits intro!: Cons.IH)
  qed
qed simp

lemma malloc_walk_first_fit:
  assumes "chain m a bs" and "a_alloc n bs = Some (off, bs')" and "a + span bs + 64 < 2 ^ 32"
  shows "\<exists>m'. malloc_walk n a m = Some (a + off, m') \<and> chain m' a bs' \<and>
              (\<forall>x. \<not> in_hdr a bs' x \<longrightarrow> m' x = m x)"
  using assms
proof (induction bs arbitrary: a off bs')
  case (Cons b bs)
  obtain s f where b: "b = (s, f)" by (cases b)
  have c: "chain m a ((s, f) # bs)" using Cons.prems(1) b by simp
  have hi: "a + 64 + s < 2 ^ 32" using Cons.prems(3) b by simp
  show ?case
  proof (cases "f \<and> n \<le> s")
    case True
    then have walk: "malloc_walk n a m = Some (a + 16, take_block n a m)"
      using c hi by (subst malloc_walk.simps) (simp add: blk_defs heap_consts)
    have off: "off = 16" using True Cons.prems(2) b by (auto split: if_splits)
    from c True have c': "chain m a ((s, True) # bs)" by simp
    show ?thesis
    proof (cases "n + 48 \<le> s")
      case split: True
      then have "bs' = (n, False) # (s - n - 16, True) # bs"
        using True Cons.prems(2) b by simp
      then show ?thesis using walk off take_block_split [OF c' split hi] by auto
    next
      case False
      then have "bs' = (s, False) # bs" using True Cons.prems(2) b by simp
      then show ?thesis using walk off take_block_whole [OF c' _ _ hi, of n] True False by auto
    qed
  next
    case False
    with Cons.prems(2) b obtain off1 bs1 where rec: "a_alloc n bs = Some (off1, bs1)"
      and off: "off = 16 + s + off1" and bs': "bs' = (s, f) # bs1"
      by auto
    then have ne: "bs \<noteq> []" by auto
    then have nxt: "rd32 m (a + 8) = a + 16 + s" and c1: "chain m (a + 16 + s) bs"
      using c by auto
    have "a + 16 + s + span bs + 64 < 2 ^ 32" using Cons.prems(3) b by simp
    from Cons.IH [OF c1 rec this] obtain m' where
      m': "malloc_walk n (a + 16 + s) m = Some (a + 16 + s + off1, m')"
        "chain m' (a + 16 + s) bs1" and same: "\<And>x. \<not> in_hdr (a + 16 + s) bs1 x \<Longrightarrow> m' x = m x"
      by blast
    have walk: "malloc_walk n a m = malloc_walk n (a + 16 + s) m"
      using c False nxt by (subst malloc_walk.simps) (auto simp: blk_defs split: if_splits)
    have "m' x = m x" if "in_region a 16 x" for x
      using that by (intro same) (auto dest: in_hdr_bounds simp: in_region_def)
    from hdr_agree [OF this] c m'(2) ne rec have "chain m' a bs'"
      by (cases bs; cases bs1) (auto simp: bs' split: if_splits)
    then show ?thesis using walk m' off same by (auto simp: bs')
  qed
qed simp

section \<open>Coalescing refines merging on the list\<close>

lemma span_a_merge [simp]: "span (a_merge bs) = span bs"
  by (induction bs rule: a_merge.induct) simp_all

lemma live_a_merge [simp]: "live a (a_merge bs) = live a bs"
  by (induction bs arbitrary: a rule: a_merge.induct) (auto simp: add.assoc add.left_commute)

lemma aligned_a_merge: "aligned bs \<Longrightarrow> aligned (a_merge bs)"
  by (induction bs rule: a_merge.induct) auto

lemma a_merge_head: "\<exists>s' bs'. a_merge ((s, f) # bs) = (s', f) # bs'"
  by (induction "(s, f) # bs" arbitrary: s f bs rule: a_merge.induct) auto

lemma coalesced_a_merge: "coalesced (a_merge bs)"
proof (induction bs rule: a_merge.induct)
  case (3 s f t g bs)
  obtain t' bs' where "a_merge ((t, g) # bs) = (t', g) # bs'" using a_merge_head by blast
  with 3 show ?case by auto
qed simp_all

lemma merge_walk_coalesces:
  assumes "chain m a bs" and "a + span bs < 2 ^ 32" and "bs \<noteq> []"
  shows "\<exists>m'. merge_walk a m = Some m' \<and> chain m' a (a_merge bs) \<and>
              (\<forall>x. \<not> in_hdr a bs x \<longrightarrow> m' x = m x)"
  using assms
proof (induction bs arbitrary: a m rule: a_merge.induct)
  case (2 b)
  then show ?case
    by (cases b) (subst merge_walk.simps, auto simp: blk_defs)
next
  case (3 s f t g bs)
  have nxt: "rd32 m (a + 8) = a + 16 + s" and a: "a \<noteq> 0" using 3 by auto
  show ?case
  proof (cases "f \<and> g")
    case True
    let ?m = "wr32 (a + 8) (if bs = [] then 0 else a + 16 + s + 16 + t) (wr32 a (s + (16 + t)) m)"
    have step: "merge_walk a m = merge_walk a ?m"
      using 3(3,4) True by (subst merge_walk.simps) (auto simp: blk_defs heap_consts Let_def)
    have eq: "a + 16 + (s + 16 + t) = a + 16 + s + 16 + t" by simp
    have "chain ?m a ((s + 16 + t, True) # bs)"
      using 3(3,4) True unfolding chain.simps eq by (auto simp: add.assoc)
    moreover have "a + span ((s + 16 + t, True) # bs) < 2 ^ 32" using 3 by simp
    ultimately obtain m' where m': "merge_walk a ?m = Some m'"
        "chain m' a (a_merge ((s + 16 + t, True) # bs))"
        "\<forall>x. \<not> in_hdr a ((s + 16 + t, True) # bs) x \<longrightarrow> m' x = ?m x"
      using 3(1) [OF True] by blast
    have "m' x = m x" if "\<not> in_hdr a ((s, f) # (t, g) # bs) x" for x
      using m'(3) that by (auto simp: in_region_def add.assoc)
    with step m' True show ?thesis by auto
  next
    case False
    have step: "merge_walk a m = merge_walk (a + 16 + s) m"
      using 3(3) False nxt a by (subst merge_walk.simps) (auto simp: blk_defs split: if_splits)
    have c1: "chain m (a + 16 + s) ((t, g) # bs)" using 3(3) by simp
    have "a + 16 + s + span ((t, g) # bs) < 2 ^ 32" using 3(4) by simp
    with 3(2) [OF False c1] obtain m' where
      m': "merge_walk (a + 16 + s) m = Some m'" "chain m' (a + 16 + s) (a_merge ((t, g) # bs))"
      and same: "\<And>x. \<not> in_hdr (a + 16 + s) ((t, g) # bs) x \<Longrightarrow> m' x = m x" by auto
    have "m' x = m x" if "in_region a 16 x" for x
      using that by (intro same) (auto dest: in_hdr_bounds simp: in_region_def)
    from hdr_agree [OF this] 3(3) m'(2) a_merge_head [of t g bs]
    have "chain m' a ((s, f) # a_merge ((t, g) # bs))" by auto
    with step m' same False show ?thesis by auto
  qed
qed simp

section \<open>Facts on the list operations\<close>

lemma a_alloc_span: "a_alloc n bs = Some (off, bs') \<Longrightarrow> span bs' = span bs"
  by (induction bs arbitrary: off bs') (auto split: if_splits)

lemma a_alloc_nonempty: "a_alloc n bs = Some (off, bs') \<Longrightarrow> bs' \<noteq> []"
  by (cases bs) (auto split: if_splits)

lemma a_alloc_aligned:
  "a_alloc n bs = Some (off, bs') \<Longrightarrow> aligned bs \<Longrightarrow> 8 dvd n \<Longrightarrow> aligned bs' \<and> 8 dvd off"
proof (induction bs arbitrary: off bs')
  case (Cons b bs)
  obtain s f where b: "b = (s, f)" by (cases b)
  show ?case
  proof (cases "f \<and> n \<le> s")
    case True
    have "8 dvd s - n - 16" if "n + 48 \<le> s"
      using that Cons.prems b by auto
    then show ?thesis using True Cons.prems b by (auto split: if_splits)
  next
    case False
    then obtain off1 bs1 where "a_alloc n bs = Some (off1, bs1)" "off = 16 + s + off1"
      "bs' = (s, f) # bs1" using Cons.prems b by auto
    then show ?thesis using Cons b by auto
  qed
qed simp

lemma a_alloc_live:
  assumes "a_alloc n bs = Some (off, bs')"
  shows "\<exists>s. live a bs' = insert (a + off, s) (live a bs) \<and> n \<le> s"
  using assms
proof (induction bs arbitrary: a off bs')
  case (Cons b bs)
  obtain s f where b: "b = (s, f)" by (cases b)
  show ?case
  proof (cases "f \<and> n \<le> s")
    case True
    show ?thesis
    proof (cases "n + 48 \<le> s")
      case split: True
      then have eq: "a + 16 + n + 16 + (s - n - 16) = a + 16 + s" by simp
      have "live a bs' = insert (a + 16, n) (live (a + 16 + s) bs)"
        using split True Cons.prems b unfolding eq [symmetric] by auto
      with True Cons.prems b show ?thesis by (intro exI [of _ n]) auto
    next
      case False
      then show ?thesis using True Cons.prems b by auto
    qed
  next
    case False
    then obtain off1 bs1 where rec: "a_alloc n bs = Some (off1, bs1)" "off = 16 + s + off1"
      "bs' = (s, f) # bs1" using Cons.prems b by auto
    from Cons.IH [OF rec(1), of "a + 16 + s"] rec b show ?thesis
      by (auto simp: add.assoc add.left_commute)
  qed
qed simp

lemma a_alloc_coalesced: "a_alloc n bs = Some (off, bs') \<Longrightarrow> coalesced bs \<Longrightarrow> coalesced bs'"
proof (induction bs arbitrary: off bs' rule: coalesced.induct)
  case (1 s f t g bs)
  show ?case
  proof (cases "f \<and> n \<le> s")
    case True
    then show ?thesis using 1 by (auto split: if_splits)
  next
    case False
    then obtain off1 bs1 where rec: "a_alloc n ((t, g) # bs) = Some (off1, bs1)"
      "bs' = (s, f) # bs1" using 1 by auto
    then have "coalesced bs1" using 1 by auto
    moreover have "\<exists>t' g' bs2. bs1 = (t', g') # bs2 \<and> (g' \<longrightarrow> g)"
      using rec by (auto split: if_splits)
    ultimately show ?thesis using rec 1 by auto
  qed
qed (auto split: if_splits)

lemma live_bounds: "(p, s) \<in> live a bs \<Longrightarrow> a + 16 \<le> p \<and> p + s \<le> a + span bs"
  by (induction bs arbitrary: a) (auto split: if_splits, fastforce+)

lemma live_disjoint:
  "(p, s) \<in> live a bs \<Longrightarrow> (q, t) \<in> live a bs \<Longrightarrow> (p, s) \<noteq> (q, t) \<Longrightarrow>
   p + s + 16 \<le> q \<or> q + t + 16 \<le> p"
proof (induction bs arbitrary: a)
  case (Cons b bs)
  obtain u f where b: "b = (u, f)" by (cases b)
  have "a + 16 + u + 16 \<le> r" if "(r, v) \<in> live (a + 16 + u) bs" for r v
    using live_bounds [OF that] by simp
  with Cons b show ?case by (fastforce split: if_splits)
qed simp

lemma live_not_hdr: "(p, s) \<in> live a bs \<Longrightarrow> in_region p s x \<Longrightarrow> \<not> in_hdr a bs x"
proof (induction bs arbitrary: a)
  case (Cons b bs)
  obtain u f where b: "b = (u, f)" by (cases b)
  have "a + 16 + u + 16 \<le> r" if "(r, v) \<in> live (a + 16 + u) bs" for r v
    using live_bounds [OF that] by simp
  moreover have "a + 16 + u \<le> y" if "in_hdr (a + 16 + u) bs y" for y
    using in_hdr_bounds [OF that] by simp
  ultimately show ?case using Cons b by (fastforce simp: in_region_def split: if_splits)
qed simp

lemma all_free_one_block:
  "coalesced bs \<Longrightarrow> live a bs = {} \<Longrightarrow> bs \<noteq> [] \<Longrightarrow> bs = [(span bs - 16, True)]"
  by (induction bs rule: coalesced.induct) (auto split: if_splits)

lemma span_a_mark [simp]: "span (a_mark off bs) = span bs"
  by (induction off bs rule: a_mark.induct) auto

lemma aligned_a_mark [simp]: "aligned (a_mark off bs) = aligned bs"
  by (induction off bs rule: a_mark.induct) auto

lemma a_mark_Nil [simp]: "(a_mark off bs = []) = (bs = [])"
  by (cases bs) (auto split: if_splits)

lemma in_hdr_a_mark [simp]: "in_hdr a (a_mark off bs) x = in_hdr a bs x"
  by (induction off bs arbitrary: a rule: a_mark.induct) auto

text \<open>Where a used block behind the first one lies, relative to the rest of the list.\<close>

lemma live_tail:
  assumes "(a + off, s) \<in> live (a + 16 + u) bs"
  shows "a + 16 + u + (off - (16 + u)) = a + off" and "off - (16 + u) \<noteq> 0" and "off \<noteq> 16"
    and "bs \<noteq> []"
  using live_bounds [OF assms] assms by auto

lemma a_mark_live:
  "(a + off, s) \<in> live a bs \<Longrightarrow> off \<noteq> 0 \<Longrightarrow> live a (a_mark off bs) = live a bs - {(a + off, s)}"
proof (induction bs arbitrary: a off)
  case (Cons b bs)
  obtain u f where b: "b = (u, f)" by (cases b)
  show ?case
  proof (cases "(a + off, s) \<in> live (a + 16 + u) bs")
    case True
    note tl = live_tail [OF True]
    have IH: "live (a + 16 + u) (a_mark (off - (16 + u)) bs) = live (a + 16 + u) bs - {(a + off, s)}"
      by (rule Cons.IH [of "a + 16 + u" "off - (16 + u)", unfolded tl(1), OF True tl(2)])
    show ?thesis using tl(3) by (auto simp: b IH)
  next
    case False
    with Cons.prems b have "off = 16" and "s = u" and "\<not> f" by (auto split: if_splits)
    with False show ?thesis by (auto simp: b)
  qed
qed simp

section \<open>The allocator's contract\<close>

text \<open>The blocks in use, whatever list represents the heap.\<close>

definition heap_live :: "'a heap_scheme \<Rightarrow> (nat \<times> nat) set" where
  "heap_live h = {b. \<exists>bs. heap_rep h bs \<and> b \<in> live HEAP_START bs}"

definition heap_inv :: "'a heap_scheme \<Rightarrow> bool" where
  "heap_inv h \<longleftrightarrow> (\<exists>bs. heap_rep h bs)"

lemma span_eq_0: "span bs = 0 \<longleftrightarrow> bs = []"
  by (cases bs rule: span.cases) auto

lemma chain_unique: "chain m a bs \<Longrightarrow> chain m a cs \<Longrightarrow> span bs = span cs \<Longrightarrow> bs = cs"
proof (induction bs arbitrary: a cs)
  case Nil
  then show ?case by (cases cs) auto
next
  case (Cons b bs)
  obtain s f where b: "b = (s, f)" by (cases b)
  have "a \<noteq> 0" using Cons.prems(1) unfolding b chain.simps by blast
  then have "cs \<noteq> []" using Cons.prems(2) by (cases cs) simp_all
  then obtain s' g cs' where cs': "cs = (s', g) # cs'" by (metis neq_Nil_conv surj_pair)
  have sz: "rd32 m a = s" "rd32 m a = s'" and fl: "rd32 m (a + 4) = (if f then 1 else 0)"
      "rd32 m (a + 4) = (if g then 1 else 0)"
    using Cons.prems(1,2) unfolding b cs' chain.simps by blast+
  have cs: "cs = (s, g) # cs'" unfolding cs' using sz by simp
  have g: "g = f" using fl by (cases f; cases g) simp_all
  have sp: "span bs = span cs'" using Cons.prems(3) by (simp add: b cs)
  have "bs = cs'"
  proof (cases "bs = [] \<or> cs' = []")
    case True
    then have "span bs = 0" using sp by auto
    then show ?thesis using sp span_eq_0 by metis
  next
    case False
    then have "chain m (a + 16 + s) bs" "chain m (a + 16 + s) cs'"
      using Cons.prems(1,2) unfolding b cs chain.simps by blast+
    then show ?thesis using sp by (rule Cons.IH)
  qed
  then show ?case by (simp add: b cs g)
qed

lemma heap_rep_unique:
  assumes "heap_rep h bs" and "heap_rep h cs"
  shows "bs = cs"
  by (rule chain_unique [of "hmem h" HEAP_START]) (use assms in \<open>simp_all add: heap_rep_def\<close>)

lemma heap_live_eq: "heap_rep h bs \<Longrightarrow> heap_live h = live HEAP_START bs"
  unfolding heap_live_def using heap_rep_unique by blast

lemma heap_rep_end: "heap_rep h bs \<Longrightarrow> HEAP_START + span bs + 64 < 2 ^ 32"
  by (simp add: heap_rep_def heap_consts)

lemma malloc_full:
  assumes rep: "heap_rep h bs" and none: "a_alloc (align8 n) bs = None"
  shows "malloc n h = Some (0, h)"
proof -
  have c: "chain (hmem h) HEAP_START bs" and st: "heap_start_ptr h = HEAP_START"
    using rep by (auto simp: heap_rep_def)
  show ?thesis using malloc_walk_full [OF c none] st by (simp add: malloc_def HEAP_START_def)
qed

lemma malloc_first_fit:
  assumes rep: "heap_rep h bs" and n: "0 < n" and al: "a_alloc (align8 n) bs = Some (off, bs')"
  shows "\<exists>m. malloc n h = Some (HEAP_START + off, h\<lparr>hmem := m\<rparr>) \<and> heap_rep (h\<lparr>hmem := m\<rparr>) bs' \<and>
          (\<forall>x. \<not> in_hdr HEAP_START bs' x \<longrightarrow> m x = hmem h x)"
proof -
  have c: "chain (hmem h) HEAP_START bs" and st: "heap_start_ptr h = HEAP_START" "heap_ready h \<noteq> 0"
    using rep by (auto simp: heap_rep_def)
  from malloc_walk_first_fit [OF c al heap_rep_end [OF rep]] obtain m where
    m: "malloc_walk (align8 n) HEAP_START (hmem h) = Some (HEAP_START + off, m)"
      "chain m HEAP_START bs'" "\<forall>x. \<not> in_hdr HEAP_START bs' x \<longrightarrow> m x = hmem h x" by blast
  have "8 dvd align8 n" by (simp add: align8_def)
  with rep m al have "heap_rep (h\<lparr>hmem := m\<rparr>) bs'"
    by (auto simp: heap_rep_def a_alloc_span a_alloc_nonempty
        dest: a_alloc_coalesced a_alloc_aligned)
  with m n st show ?thesis by (auto simp: malloc_def)
qed

lemma live_header:
  "chain m a bs \<Longrightarrow> (p, s) \<in> live a bs \<Longrightarrow> rd32 m (p - 16) = s \<and> rd32 m (p - 16 + 12) = BLOCK_MAGIC"
proof (induction bs arbitrary: a)
  case (Cons b bs)
  obtain u f where b: "b = (u, f)" by (cases b)
  show ?case
  proof (cases "(p, s) \<in> live (a + 16 + u) bs")
    case True
    then have "bs \<noteq> []" by auto
    with True Cons b show ?thesis by auto
  next
    case False
    with Cons.prems b show ?thesis by (auto split: if_splits)
  qed
qed simp

lemma live_in_hdr: "(p, s) \<in> live a bs \<Longrightarrow> in_region (p - 16) 16 x \<Longrightarrow> in_hdr a bs x"
  by (induction bs arbitrary: a) (auto split: if_splits)

lemma chain_mark:
  "chain m a bs \<Longrightarrow> (a + off, s) \<in> live a bs \<Longrightarrow> off \<noteq> 0 \<Longrightarrow>
   chain (wr32 (a + off - 16 + 4) 1 m) a (a_mark off bs)"
proof (induction bs arbitrary: a off)
  case (Cons b bs)
  obtain u f where b: "b = (u, f)" by (cases b)
  show ?case
  proof (cases "(a + off, s) \<in> live (a + 16 + u) bs")
    case True
    note tl = live_tail [OF True]
    have "chain m (a + 16 + u) bs" using Cons.prems(1) tl(4) b by simp
    note IH = Cons.IH [of "a + 16 + u" "off - (16 + u)", unfolded tl(1), OF this True tl(2)]
    define m' where "m' = wr32 (a + off - 16 + 4) 1 m"
    have "16 + u + 16 \<le> off" using live_bounds [OF True] by simp
    then have "m' x = m x" if "in_region a 16 x" for x
      unfolding m'_def using that by (intro wr32_outside) (auto simp: in_region_def)
    from hdr_agree [OF this] IH [folded m'_def] Cons.prems(1) tl(3,4) show ?thesis
      by (simp add: b m'_def [symmetric] del: One_nat_def)
  next
    case False
    with Cons.prems b have "off = 16" and "\<not> f" by (auto split: if_splits)
    with Cons.prems b show ?thesis by auto
  qed
qed simp

lemma free_rep:
  assumes rep: "heap_rep h bs" and live: "(p, s) \<in> live HEAP_START bs"
  shows "\<exists>m. free_ptr p h = Some (h\<lparr>hmem := m\<rparr>) \<and>
             heap_rep (h\<lparr>hmem := m\<rparr>) (a_release (p - HEAP_START) bs) \<and>
             (\<forall>x. \<not> in_hdr HEAP_START bs x \<longrightarrow> m x = hmem h x)"
proof -
  let ?off = "p - HEAP_START" and ?bs = "a_mark (p - HEAP_START) bs"
  let ?m = "wr32 (p - 16 + 4) 1 (hmem h)"
  have c: "chain (hmem h) HEAP_START bs" and st: "heap_start_ptr h = HEAP_START"
    and sp: "span bs = HEAP_SIZE" using rep by (auto simp: heap_rep_def)
  from live_bounds [OF live] sp have p: "HEAP_START + 16 \<le> p" "p \<le> HEAP_START + HEAP_SIZE" by auto
  then have hdr: "hdr_of p = p - 16" by (simp add: hdr_of_def heap_consts mod_if)
  have off: "HEAP_START + ?off = p" "?off \<noteq> 0" using p by auto
  have "chain ?m HEAP_START ?bs"
    using chain_mark [OF c _ off(2), of s] live by (simp add: off(1))
  moreover have "HEAP_START + span ?bs < 2 ^ 32" unfolding span_a_mark sp by (simp add: heap_consts)
  moreover have "?bs \<noteq> []" using rep by (simp add: heap_rep_def)
  ultimately obtain m where m: "merge_walk HEAP_START ?m = Some m"
    "chain m HEAP_START (a_merge ?bs)" "\<forall>x. \<not> in_hdr HEAP_START ?bs x \<longrightarrow> m x = ?m x"
    using merge_walk_coalesces by blast
  have "in_hdr HEAP_START bs x" if "in_region (p - 16 + 4) 4 x" for x
    by (rule live_in_hdr [OF live]) (use that p in \<open>auto simp: in_region_def\<close>)
  then have "m x = hmem h x" if "\<not> in_hdr HEAP_START bs x" for x
    using that m(3) by (metis in_hdr_a_mark wr32_outside)
  moreover have "free_ptr p h = Some (h\<lparr>hmem := m\<rparr>)"
    using live_header [OF c live] m(1) p st
    by (simp add: free_ptr_def Let_def hdr blk_defs merge_free_def HEAP_START_def)
  moreover have "a_merge ?bs \<noteq> []"
    using \<open>?bs \<noteq> []\<close> by (cases ?bs) (use a_merge_head in \<open>auto, metis list.distinct(1)\<close>)
  ultimately show ?thesis
    using rep m(2) by (auto simp: heap_rep_def a_release_def aligned_a_merge coalesced_a_merge)
qed

end
