(* ===== verification/Printing.thy ===== *)
theory Printing
  imports Prelude
begin

text \<open>
  Printing of numbers: \<^verbatim>\<open>print_int\<close> of \<^verbatim>\<open>src/fs.c\<close> and the private copies in
  \<^verbatim>\<open>src/diskfs.c\<close>, \<^verbatim>\<open>src/ata.c\<close> and \<^verbatim>\<open>src/ahci.c\<close>, which lack the branch for negative numbers.
  The digits are collected backwards in \<^verbatim>\<open>char buffer[32]\<close>; the model refuses the write that would
  leave the buffer, and the lemmas show that it never happens and what text is sent.
\<close>

section \<open>The code\<close>

text \<open>
  \<^verbatim>\<open>while (num > 0) { buffer[i++] = '0' + (num % 10); num /= 10; }\<close>: the buffer is the list of
  the characters written so far, \<open>cap\<close> the room left in it.
\<close>

fun digit_loop :: "nat \<Rightarrow> int \<Rightarrow> string \<Rightarrow> string result" where
  "digit_loop cap num buffer =
     (if num > 0
      then (case cap of
              0 \<Rightarrow> Inl OutOfBounds
            | Suc cap' \<Rightarrow> digit_loop cap' (num div 10) (buffer @ [char_of (nat (48 + num mod 10))]))
      else Inr buffer)"

declare digit_loop.simps [simp del]

text \<open>The static copies in diskfs.c, ata.c and ahci.c.\<close>

definition print_int_static :: "int \<Rightarrow> 'a console_scheme \<Rightarrow> 'a console_scheme result" where
  "print_int_static num st =
     (if num = 0 then Inr (emit ''0'' st)
      else bind_result (digit_loop 32 num []) (\<lambda>buffer. Inr (emit (rev buffer) st)))"

definition print_int :: "int \<Rightarrow> 'a console_scheme \<Rightarrow> 'a console_scheme result" where
  "print_int num st =
     (if num = 0 then Inr (emit ''0'' st)
      else let (num, st) = (if num < 0 then (swrap (- num), emit ''-'' st) else (num, st))
        in bind_result (digit_loop 32 num []) (\<lambda>buffer. Inr (emit (rev buffer) st)))"

section \<open>What is printed\<close>

lemma digit_loop_dec:
  assumes "n < 10 ^ cap"
  shows "digit_loop cap (int n) buffer = Inr (buffer @ (if n = 0 then [] else rev (dec n)))"
  using assms
proof (induction cap arbitrary: n buffer)
  case 0
  then show ?case by (simp add: digit_loop.simps)
next
  case (Suc cap)
  have small: "n div 10 < 10 ^ cap" using Suc.prems by (auto simp: less_mult_imp_div_less)
  have "int n mod 10 = int (n mod 10)" by (simp add: zmod_int)
  then have digit: "char_of (nat (48 + int n mod 10)) = digit_char (n mod 10)"
    by (simp add: digit_char_def nat_add_distrib)
  show ?case
  proof (cases "n = 0")
    case True
    then show ?thesis by (simp add: digit_loop.simps)
  next
    case False
    then have "digit_loop (Suc cap) (int n) buffer =
        digit_loop cap (int (n div 10)) (buffer @ [digit_char (n mod 10)])"
      by (subst digit_loop.simps) (simp add: digit zdiv_int)
    also have "\<dots> = Inr (buffer @ [digit_char (n mod 10)] @
        (if n div 10 = 0 then [] else rev (dec (n div 10))))"
      using Suc.IH [OF small] by simp
    also have "\<dots> = Inr (buffer @ rev (dec n))"
      by (cases "n < 10") (auto simp: dec_small dec_step)
    finally show ?thesis using False by simp
  qed
qed

lemma digit_loop_dec_int:
  "0 < i \<Longrightarrow> i < 2 ^ 32 \<Longrightarrow> digit_loop 32 i [] = Inr (rev (dec (nat i)))"
  using digit_loop_dec [of "nat i" 32 "[]"] by simp

lemma print_int_text:
  assumes "- (2 ^ 31) < i" and "i < 2 ^ 31"
  shows "print_int i st = Inr (emit (dec_int i) st)"
proof -
  have "swrap (- i) = - i" if "i < 0"
    using that assms by (intro swrap_id) (simp add: is_int32_def)
  moreover have "dec 0 = ''0''" by (simp add: dec_small)
  ultimately show ?thesis
    using assms by (auto simp: print_int_def dec_int_def digit_loop_dec_int)
qed

text \<open>The most negative number has no positive counterpart: only the sign comes out.\<close>

lemma print_int_min: "print_int (- (2 ^ 31)) st = Inr (emit ''-'' st)"
  by (simp add: print_int_def swrap_def digit_loop.simps)

lemma print_int_static_text:
  assumes "i < 2 ^ 31"
  shows "print_int_static i st = Inr (emit (if i < 0 then [] else dec (nat i)) st)"
proof -
  have "dec 0 = ''0''" by (simp add: dec_small)
  moreover have "digit_loop 32 i [] = Inr []" if "i < 0" using that by (simp add: digit_loop.simps)
  ultimately show ?thesis using assms by (auto simp: print_int_static_def digit_loop_dec_int)
qed

end
