(* ===== verification/Heap_Contract.thy ===== *)
theory Heap_Contract
  imports Malloc Printing
begin

text \<open>
  What the kernel heap promises its callers. The interface is the locale \<open>allocator\<close>: blocks
  in use never overlap, allocating and releasing touch no byte of another block, releasing what
  was allocated restores the set of blocks in use. \<open>kheap\<close> interprets it on \<^verbatim>\<open>malloc\<close> and
  \<^verbatim>\<open>free\<close> of \<^verbatim>\<open>src/malloc.c\<close>; \<^verbatim>\<open>calloc\<close>, \<^verbatim>\<open>realloc\<close> and \<^verbatim>\<open>malloc_debug\<close> follow.
\<close>

section \<open>The debug listing\<close>

text \<open>The loop of \<^verbatim>\<open>malloc_debug\<close>: totals of used and free bytes and the number of blocks.\<close>

partial_function (option) debug_walk :: "nat \<Rightarrow> mem \<Rightarrow> int \<times> int \<times> int \<times> int \<Rightarrow> (int \<times> int \<times> int \<times> int) option"
  where
  "debug_walk cur m acc =
     (if cur = 0 then Some acc
      else (case acc of (tot, used, free_b, nblocks) \<Rightarrow>
        let sz = int (blk_size m cur) in
        debug_walk (blk_next m cur) m
          (swrap (tot + sz),
           if blk_free m cur \<noteq> 0 then used else swrap (used + sz),
           if blk_free m cur \<noteq> 0 then swrap (free_b + sz) else free_b,
           swrap (nblocks + 1))))"

definition malloc_debug :: "'a heap_scheme \<Rightarrow> 'a heap_scheme result option" where
  "malloc_debug h =
     (case debug_walk (heap_start_ptr h) (hmem h) (0, 0, 0, 0) of
        None \<Rightarrow> None
      | Some (tot, used, free_b, nblocks) \<Rightarrow> Some (
          bind_result (print_int nblocks (emit (''=== Heap ==='' @ [NL] @ ''Blocks: '') h)) (\<lambda>h1.
          bind_result (print_int used (emit ([NL] @ ''Used:   '') h1)) (\<lambda>h2.
          bind_result (print_int free_b (emit ('' bytes'' @ [NL] @ ''Free:   '') h2)) (\<lambda>h3.
          Inr (emit ('' bytes'' @ [NL]) h3))))))"

section \<open>The interface\<close>

locale allocator =
  fixes inv :: "'h \<Rightarrow> bool"
    and blocks :: "'h \<Rightarrow> (nat \<times> nat) set"
    and bytes :: "'h \<Rightarrow> mem"
    and alloc :: "nat \<Rightarrow> 'h \<Rightarrow> (nat \<times> 'h) option"
    and release :: "nat \<Rightarrow> 'h \<Rightarrow> 'h option"
  assumes alloc_returns: "inv h \<Longrightarrow> \<exists>p h'. alloc n h = Some (p, h') \<and> inv h'"
    and alloc_null: "inv h \<Longrightarrow> alloc n h = Some (0, h') \<Longrightarrow> h' = h"
    and alloc_block: "inv h \<Longrightarrow> n + 8 \<le> 2 ^ 32 \<Longrightarrow> alloc n h = Some (p, h') \<Longrightarrow> p \<noteq> 0 \<Longrightarrow>
      \<exists>s. n \<le> s \<and> (p, s) \<notin> blocks h \<and> blocks h' = insert (p, s) (blocks h)"
    and alloc_frame: "inv h \<Longrightarrow> alloc n h = Some (p, h') \<Longrightarrow> (q, t) \<in> blocks h \<Longrightarrow>
      in_region q t x \<Longrightarrow> bytes h' x = bytes h x"
    and release_block: "inv h \<Longrightarrow> (p, s) \<in> blocks h \<Longrightarrow>
      \<exists>h'. release p h = Some h' \<and> inv h' \<and> blocks h' = blocks h - {(p, s)}"
    and release_frame: "inv h \<Longrightarrow> (p, s) \<in> blocks h \<Longrightarrow> release p h = Some h' \<Longrightarrow>
      (q, t) \<in> blocks h \<Longrightarrow> (q, t) \<noteq> (p, s) \<Longrightarrow> in_region q t x \<Longrightarrow> bytes h' x = bytes h x"
    and blocks_apart: "inv h \<Longrightarrow> (p, s) \<in> blocks h \<Longrightarrow> (q, t) \<in> blocks h \<Longrightarrow> (p, s) \<noteq> (q, t) \<Longrightarrow>
      p + s \<le> q \<or> q + t \<le> p"
begin

text \<open>A temporary buffer leaves no trace: allocate, use, release.\<close>

lemma alloc_then_release:
  assumes "inv h" and "n + 8 \<le> 2 ^ 32" and "alloc n h = Some (p, h')" and "p \<noteq> 0"
  shows "\<exists>h''. release p h' = Some h'' \<and> inv h'' \<and> blocks h'' = blocks h \<and>
    (\<forall>q t x. (q, t) \<in> blocks h \<longrightarrow> in_region q t x \<longrightarrow> bytes h'' x = bytes h x)"
proof -
  obtain s where s: "(p, s) \<notin> blocks h" "blocks h' = insert (p, s) (blocks h)"
    using alloc_block [OF assms] by blast
  have inv': "inv h'" using alloc_returns [OF assms(1), of n] assms(3) by auto
  have mem: "(p, s) \<in> blocks h'" using s by simp
  obtain h'' where h'': "release p h' = Some h''" "inv h''" "blocks h'' = blocks h' - {(p, s)}"
    using release_block [OF inv' mem] by blast
  have "bytes h'' x = bytes h x" if "(q, t) \<in> blocks h" "in_region q t x" for q t x
    using release_frame [OF inv' mem h''(1), of q t x] alloc_frame [OF assms(1,3) that] that s
    by auto
  with h'' s show ?thesis by auto
qed

lemma alloc_new_apart:
  assumes "inv h" and "n + 8 \<le> 2 ^ 32" and "alloc n h = Some (p, h')" and "p \<noteq> 0"
    and "(q, t) \<in> blocks h"
  shows "p + n \<le> q \<or> q + t \<le> p"
proof -
  obtain s where s: "n \<le> s" "(p, s) \<notin> blocks h" "blocks h' = insert (p, s) (blocks h)"
    using alloc_block [OF assms(1-4)] by blast
  have inv': "inv h'" using alloc_returns [OF assms(1), of n] assms(3) by auto
  have "p + s \<le> q \<or> q + t \<le> p"
    by (rule blocks_apart [OF inv']) (use s assms(5) in auto)
  with s(1) show ?thesis by auto
qed

end

text \<open>
  An allocator whose clients also write: storing inside blocks in use changes no block. Zeroing
  a fresh block and moving a block's contents are the two client patterns of \<^verbatim>\<open>malloc.c\<close>.
\<close>

locale writable_allocator = allocator inv blocks bytes alloc release
  for inv :: "'h \<Rightarrow> bool" and blocks :: "'h \<Rightarrow> (nat \<times> nat) set" and bytes :: "'h \<Rightarrow> mem"
    and alloc :: "nat \<Rightarrow> 'h \<Rightarrow> (nat \<times> 'h) option" and release :: "nat \<Rightarrow> 'h \<Rightarrow> 'h option" +
  fixes store :: "mem \<Rightarrow> 'h \<Rightarrow> 'h"
  assumes bytes_store: "bytes (store m h) = m"
    and store_inv: "inv h \<Longrightarrow> (p, s) \<in> blocks h \<Longrightarrow>
      (\<And>x. \<not> in_region p s x \<Longrightarrow> m x = bytes h x) \<Longrightarrow>
      inv (store m h) \<and> blocks (store m h) = blocks h"
begin

lemma move_block:
  assumes inv: "inv h" and old: "(p, s) \<in> blocks h" and n: "s < n" "n + 8 \<le> 2 ^ 32"
    and al: "alloc n h = Some (q, h1)" and q: "q \<noteq> 0"
  shows "\<exists>t h2. release p (store (memcpy q p s (bytes h1)) h1) = Some h2 \<and> inv h2 \<and> n \<le> t \<and>
    blocks h2 = insert (q, t) (blocks h - {(p, s)}) \<and> (\<forall>i < s. bytes h2 (q + i) = bytes h (p + i))"
proof -
  obtain t where t: "n \<le> t" "(q, t) \<notin> blocks h" "blocks h1 = insert (q, t) (blocks h)"
    using alloc_block [OF inv n(2) al q] by blast
  have inv1: "inv h1" using alloc_returns [OF inv, of n] al by auto
  have ap: "q + t \<le> p \<or> p + s \<le> q"
    by (rule blocks_apart [OF inv1]) (use t old in auto)
  then have cp: "memcpy q p s (bytes h1) = copied q p s (bytes h1)"
    using n t(1) by (intro memcpy_forward) auto
  have new: "(q, t) \<in> blocks h1" using t by simp
  have "inv (store (memcpy q p s (bytes h1)) h1) \<and>
      blocks (store (memcpy q p s (bytes h1)) h1) = blocks h1"
    by (rule store_inv [OF inv1 new])
      (use n t(1) in \<open>auto simp: cp copied_def in_region_def\<close>)
  then have i2: "inv (store (memcpy q p s (bytes h1)) h1)"
    and b2: "blocks (store (memcpy q p s (bytes h1)) h1) = blocks h1" by auto
  have old2: "(p, s) \<in> blocks (store (memcpy q p s (bytes h1)) h1)" using b2 t old by simp
  obtain h2 where h2: "release p (store (memcpy q p s (bytes h1)) h1) = Some h2" "inv h2"
      "blocks h2 = blocks h1 - {(p, s)}"
    using release_block [OF i2 old2] b2 by auto
  have "bytes h2 (q + i) = bytes h (p + i)" if "i < s" for i
  proof -
    have "bytes h2 (q + i) = bytes (store (memcpy q p s (bytes h1)) h1) (q + i)"
      by (rule release_frame [OF i2 old2 h2(1), of q t])
        (use b2 t old that n in \<open>auto simp: in_region_def\<close>)
    also have "\<dots> = bytes h1 (p + i)"
      using that by (simp add: bytes_store cp copied_def in_region_def)
    also have "\<dots> = bytes h (p + i)"
      by (rule alloc_frame [OF inv al old]) (use that in \<open>simp add: in_region_def\<close>)
    finally show ?thesis .
  qed
  moreover have "blocks h2 = insert (q, t) (blocks h - {(p, s)})" using h2(3) t old by auto
  ultimately show ?thesis using h2 t(1) by blast
qed

text \<open>A temporary buffer that is filled before it is released leaves no trace either.\<close>

lemma fill_then_release:
  assumes inv: "inv h" and n: "n + 8 \<le> 2 ^ 32" and al: "alloc n h = Some (p, h')" and p: "p \<noteq> 0"
    and m: "\<And>x. \<not> in_region p n x \<Longrightarrow> m x = bytes h' x"
  shows "\<exists>h''. release p (store m h') = Some h'' \<and> inv h'' \<and> blocks h'' = blocks h \<and>
    (\<forall>q t x. (q, t) \<in> blocks h \<longrightarrow> in_region q t x \<longrightarrow> bytes h'' x = bytes h x)"
proof -
  obtain s where s: "n \<le> s" "(p, s) \<notin> blocks h" "blocks h' = insert (p, s) (blocks h)" using alloc_block [OF inv n al p] by blast
  have inv': "inv h'" using alloc_returns [OF inv, of n] al by auto
  have st: "inv (store m h') \<and> blocks (store m h') = blocks h'"
    by (rule store_inv [OF inv', of p s]) (use s m in \<open>auto simp: in_region_def\<close>)
  have live: "(p, s) \<in> blocks (store m h')" using st s(3) by simp
  obtain h'' where h'': "release p (store m h') = Some h''" "inv h''" "blocks h'' = blocks (store m h') - {(p, s)}"
    using release_block [OF _ live] st by blast
  have "bytes h'' x = bytes h x" if b: "(q, t) \<in> blocks h" "in_region q t x" for q t x
  proof -
    have "(q, t) \<in> blocks (store m h')" "(q, t) \<noteq> (p, s)" using b(1) st s(2,3) by auto
    then have "bytes h'' x = m x" using release_frame [OF _ live h''(1) _ _ b(2)] st bytes_store by simp
    moreover have "p + n \<le> q \<or> q + t \<le> p" by (rule alloc_new_apart [OF inv n al p b(1)])
    then have "m x = bytes h' x" using m b(2) by (auto simp: in_region_def)
    ultimately show ?thesis using alloc_frame [OF inv al b] by simp
  qed
  then show ?thesis using h'' st s(2,3) by auto
qed

lemma zero_block:
  assumes inv: "inv h" and n: "n + 8 \<le> 2 ^ 32" and al: "alloc n h = Some (p, h1)" and p: "p \<noteq> 0"
  shows "inv (store (memset p 0 n (bytes h1)) h1)"
    and "blocks (store (memset p 0 n (bytes h1)) h1) = blocks h1"
    and "\<forall>i<n. bytes (store (memset p 0 n (bytes h1)) h1) (p + i) = 0"
proof -
  obtain s where s: "n \<le> s" "blocks h1 = insert (p, s) (blocks h)"
    using alloc_block [OF inv n al p] by blast
  have inv1: "inv h1" using alloc_returns [OF inv, of n] al by auto
  have "inv (store (memset p 0 n (bytes h1)) h1) \<and>
      blocks (store (memset p 0 n (bytes h1)) h1) = blocks h1"
    by (rule store_inv [OF inv1, of p s]) (use s in \<open>auto simp: memset_fill in_region_def\<close>)
  then show "inv (store (memset p 0 n (bytes h1)) h1)"
    and "blocks (store (memset p 0 n (bytes h1)) h1) = blocks h1" by auto
  show "\<forall>i<n. bytes (store (memset p 0 n (bytes h1)) h1) (p + i) = 0"
    by (simp add: bytes_store memset_fill in_region_def)
qed

end

section \<open>malloc and free satisfy it\<close>

lemma align8_ge:
  assumes "n + 8 \<le> 2 ^ 32"
  shows "n \<le> align8 n"
proof -
  have "(n + 7) mod 2 ^ 32 = n + 7" using assms by (intro mod_less) simp
  then have "align8 n = (n + 7) div 8 * 8" by (simp add: align8_def)
  then show ?thesis by presburger
qed

lemma align8_wraps: "2 ^ 32 < n + 8 \<Longrightarrow> n < 2 ^ 32 \<Longrightarrow> align8 n = 0"
proof -
  assume n: "2 ^ 32 < n + 8" "n < 2 ^ 32"
  then have "(n + 7) mod 4294967296 = n + 7 - 4294967296" by (subst mod_if) (simp add: mod_if)
  then show ?thesis using n by (simp add: align8_def)
qed

lemma a_alloc_off: "a_alloc n bs = Some (off, bs') \<Longrightarrow> 16 \<le> off"
  by (induction bs arbitrary: off bs') (auto split: if_splits)

lemma a_alloc_new: "a_alloc n bs = Some (off, bs') \<Longrightarrow> (a + off, s) \<notin> live a bs"
proof (induction bs arbitrary: a off bs')
  case (Cons b bs)
  obtain u f where b: "b = (u, f)" by (cases b)
  show ?case
  proof (cases "f \<and> n \<le> u")
    case True
    then have off: "off = 16" using Cons.prems b by (auto split: if_splits)
    have "(a + 16, s) \<notin> live (a + 16 + u) bs"
      using live_bounds [of "a + 16" s "a + 16 + u" bs] by fastforce
    with True off show ?thesis by (simp add: b)
  next
    case False
    then obtain off1 bs1 where rec: "a_alloc n bs = Some (off1, bs1)" "off = 16 + u + off1"
      using Cons.prems b by auto
    have "(a + 16 + u + off1, s) \<notin> live (a + 16 + u) bs" by (rule Cons.IH [OF rec(1)])
    then show ?thesis using rec b a_alloc_off [OF rec(1)] by (simp add: add.assoc)
  qed
qed simp

lemma malloc_0: "malloc 0 h = Some (0, h)"
  by (simp add: malloc_def)

lemma malloc_cases:
  assumes rep: "heap_rep h bs" and ret: "malloc n h = Some (p, h')"
  obtains (null) "p = 0" and "h' = h"
  | (block) off bs' where "0 < n" and "a_alloc (align8 n) bs = Some (off, bs')"
      and "p = HEAP_START + off" and "heap_rep h' bs'"
      and "\<And>x. \<not> in_hdr HEAP_START bs' x \<Longrightarrow> hmem h' x = hmem h x"
proof (cases "n = 0 \<or> a_alloc (align8 n) bs = None")
  case True
  then have "malloc n h = Some (0, h)" using malloc_full [OF rep] malloc_0 by blast
  with ret null show ?thesis by simp
next
  case False
  then obtain off bs' where al: "a_alloc (align8 n) bs = Some (off, bs')" and n: "0 < n" by auto
  from malloc_first_fit [OF rep n al] ret block [OF n al] show ?thesis by auto
qed

lemma malloc_returns:
  assumes rep: "heap_rep h bs"
  shows "\<exists>p h'. malloc n h = Some (p, h')"
proof (cases "n = 0 \<or> a_alloc (align8 n) bs = None")
  case True
  then show ?thesis using malloc_full [OF rep] malloc_0 by blast
next
  case False
  then obtain off bs' where al: "a_alloc (align8 n) bs = Some (off, bs')" and n: "0 < n" by auto
  from malloc_first_fit [OF rep n al] show ?thesis by blast
qed

lemma heap_inv_malloc:
  assumes "heap_inv h" and "malloc n h = Some (p, h')"
  shows "heap_inv h'"
proof -
  obtain bs where rep: "heap_rep h bs" using assms(1) unfolding heap_inv_def by blast
  show ?thesis using rep assms(2)
  proof (cases rule: malloc_cases)
    case null
    with assms(1) show ?thesis by simp
  next
    case (block off bs')
    then show ?thesis unfolding heap_inv_def by blast
  qed
qed

interpretation kheap: allocator heap_inv heap_live hmem malloc free_ptr
proof (unfold_locales, goal_cases)
  case (1 h n)
  then show ?case using malloc_returns heap_inv_malloc unfolding heap_inv_def by blast
next
  case (2 h n h')
  then obtain bs where rep: "heap_rep h bs" unfolding heap_inv_def by blast
  from rep 2(2) show ?case by (cases rule: malloc_cases) (simp_all add: HEAP_START_def)
next
  case (3 h n p h')
  then obtain bs where rep: "heap_rep h bs" unfolding heap_inv_def by blast
  from rep 3(3) show ?case
  proof (cases rule: malloc_cases)
    case (block off bs')
    obtain s where s: "live HEAP_START bs' = insert (HEAP_START + off, s) (live HEAP_START bs)"
        "align8 n \<le> s"
      using a_alloc_live [OF block(2)] by blast
    have "n \<le> s" using align8_ge [OF 3(2)] s(2) by simp
    then show ?thesis
      using s block a_alloc_new [OF block(2)] heap_live_eq [OF rep] heap_live_eq [OF block(4)]
      by auto
  qed (use 3 in simp)
next
  case (4 h n p h' q t x)
  then obtain bs where rep: "heap_rep h bs" unfolding heap_inv_def by blast
  from rep 4(2) show ?case
  proof (cases rule: malloc_cases)
    case (block off bs')
    have "(q, t) \<in> live HEAP_START bs'"
      using a_alloc_live [OF block(2), of HEAP_START] 4(3) heap_live_eq [OF rep] by auto
    from live_not_hdr [OF this 4(4)] block show ?thesis by blast
  qed simp
next
  case (5 h p s)
  then obtain bs where rep: "heap_rep h bs" unfolding heap_inv_def by blast
  with 5 have live: "(p, s) \<in> live HEAP_START bs" by (simp add: heap_live_eq)
  obtain m where m: "free_ptr p h = Some (h\<lparr>hmem := m\<rparr>)"
      "heap_rep (h\<lparr>hmem := m\<rparr>) (a_release (p - HEAP_START) bs)"
    using free_rep [OF rep live] by blast
  have "HEAP_START + (p - HEAP_START) = p" "p - HEAP_START \<noteq> 0"
    using live_bounds [OF live] by auto
  then have "live HEAP_START (a_release (p - HEAP_START) bs) = live HEAP_START bs - {(p, s)}"
    using a_mark_live [of HEAP_START "p - HEAP_START" s bs] live by (simp add: a_release_def)
  with m rep show ?case by (auto simp: heap_inv_def heap_live_eq)
next
  case (6 h p s h' q t x)
  then obtain bs where rep: "heap_rep h bs" unfolding heap_inv_def by blast
  with 6 have live: "(p, s) \<in> live HEAP_START bs" "(q, t) \<in> live HEAP_START bs"
    by (simp_all add: heap_live_eq)
  from free_rep [OF rep live(1)] 6(3) live_not_hdr [OF live(2) 6(6)] show ?case by auto
next
  case (7 h p s q t)
  then obtain bs where rep: "heap_rep h bs" unfolding heap_inv_def by blast
  with 7 live_disjoint [of p s HEAP_START bs q t] show ?case by (auto simp: heap_live_eq)
qed

lemma heap_rep_store:
  assumes rep: "heap_rep h bs" and live: "(p, s) \<in> live HEAP_START bs"
    and out: "\<And>x. \<not> in_region p s x \<Longrightarrow> m x = hmem h x"
  shows "heap_rep (h\<lparr>hmem := m\<rparr>) bs"
proof -
  have "chain m HEAP_START bs = chain (hmem h) HEAP_START bs"
    by (rule chain_cong) (use live_not_hdr [OF live] out in blast)
  with rep show ?thesis by (simp add: heap_rep_def)
qed

interpretation kstore: writable_allocator heap_inv heap_live hmem malloc free_ptr
  "\<lambda>m h. h\<lparr>hmem := m\<rparr>"
proof (unfold_locales, goal_cases)
  case (2 h p s m)
  then obtain bs where rep: "heap_rep h bs" unfolding heap_inv_def by blast
  then have "heap_rep (h\<lparr>hmem := m\<rparr>) bs"
    by (rule heap_rep_store) (use 2 heap_live_eq [OF rep] in auto)
  with rep show ?case by (auto simp: heap_inv_def heap_live_eq)
qed simp


section \<open>Further facts for the properties\<close>

lemma heap_init_rep: "heap_rep (heap_init h) [(HEAP_SIZE - 16, True)]"
  by (simp add: heap_rep_def heap_init_def Let_def blk_defs heap_consts BLOCK_MAGIC_def)

lemma heap_inv_init: "heap_inv (heap_init h)"
  unfolding heap_inv_def using heap_init_rep by blast

lemma heap_live_init: "heap_live (heap_init h) = {}"
  by (simp add: heap_live_eq [OF heap_init_rep])

lemma a_alloc_bounds:
  assumes "a_alloc n bs = Some (off, bs')"
  shows "off + n \<le> span bs"
proof -
  obtain s where "live 0 bs' = insert (0 + off, s) (live 0 bs)" and s: "n \<le> s"
    using a_alloc_live [OF assms, of 0] by blast
  then have "(off, s) \<in> live 0 bs'" by simp
  from live_bounds [OF this] s a_alloc_span [OF assms] show ?thesis by simp
qed


lemma malloc_placement:
  assumes "heap_inv h" and "n + 8 \<le> 2 ^ 32" and "malloc n h = Some (p, h')" and "p \<noteq> 0"
  shows "8 dvd p" and "HEAP_START \<le> p" and "p + n \<le> HEAP_START + HEAP_SIZE"
proof -
  obtain bs where rep: "heap_rep h bs" using assms(1) unfolding heap_inv_def by blast
  from rep assms(3) have "8 dvd p \<and> HEAP_START \<le> p \<and> p + n \<le> HEAP_START + HEAP_SIZE"
  proof (cases rule: malloc_cases)
    case (block off bs')
    have "8 dvd align8 n" by (simp add: align8_def)
    moreover have "aligned bs" "span bs = HEAP_SIZE" using rep by (auto simp: heap_rep_def)
    ultimately have "8 dvd off" "off + align8 n \<le> HEAP_SIZE"
      using a_alloc_aligned [OF block(2)] a_alloc_bounds [OF block(2)] by auto
    then show ?thesis using align8_ge [OF assms(2)] block(3) by (auto simp: HEAP_START_def)
  qed (use assms(4) in simp)
  then show "8 dvd p" and "HEAP_START \<le> p" and "p + n \<le> HEAP_START + HEAP_SIZE" by auto
qed

text \<open>The same for every size: what is reserved is the rounded size, which wraps around for the seven largest.\<close>

lemma malloc_rounded:
  assumes "heap_inv h" and "malloc n h = Some (p, h')" and "p \<noteq> 0"
  obtains s where "8 dvd p" "HEAP_START \<le> p" "align8 n \<le> s" "p + s \<le> HEAP_START + HEAP_SIZE" "(p, s) \<notin> heap_live h"
    "heap_live h' = insert (p, s) (heap_live h)"
proof -
  obtain bs where rep: "heap_rep h bs" using assms(1) unfolding heap_inv_def by blast
  from rep assms(2) show thesis
  proof (cases rule: malloc_cases)
    case (block off bs')
    obtain s where s: "live HEAP_START bs' = insert (HEAP_START + off, s) (live HEAP_START bs)" "align8 n \<le> s" using a_alloc_live [OF block(2)] by blast
    have "8 dvd align8 n" by (simp add: align8_def)
    moreover have "aligned bs" using rep by (simp add: heap_rep_def)
    ultimately have "8 dvd off" using a_alloc_aligned [OF block(2)] by auto
    moreover have "span bs' = HEAP_SIZE" using block(4) by (simp add: heap_rep_def)
    then have "p + s \<le> HEAP_START + HEAP_SIZE" using live_bounds [of "HEAP_START + off" s HEAP_START bs'] s(1) block(3) by auto
    ultimately show thesis
      using that s block(3) a_alloc_new [OF block(2)] heap_live_eq [OF rep] heap_live_eq [OF block(4)] by (auto simp: HEAP_START_def)
  qed (use assms(3) in simp)
qed

lemma realloc_small: "heap_inv h \<Longrightarrow> (p, s) \<in> heap_live h \<Longrightarrow> hdr_of p = p - 16 \<and> rd32 (hmem h) (p - 16) = s \<and> p \<noteq> 0"
proof -
  assume "heap_inv h" and live: "(p, s) \<in> heap_live h"
  then obtain bs where rep: "heap_rep h bs" unfolding heap_inv_def by blast
  with live have l: "(p, s) \<in> live HEAP_START bs" by (simp add: heap_live_eq)
  have c: "chain (hmem h) HEAP_START bs" "span bs = HEAP_SIZE" using rep by (auto simp: heap_rep_def)
  from live_bounds [OF l] c(2) have p: "HEAP_START + 16 \<le> p" "p \<le> HEAP_START + HEAP_SIZE" by auto
  then have "hdr_of p = p - 16" by (simp add: hdr_of_def heap_consts mod_if)
  with live_header [OF c(1) l] p show ?thesis by (simp add: HEAP_START_def)
qed


section \<open>Heaps a running kernel can reach\<close>

text \<open>
  From \<^verbatim>\<open>heap_init\<close> on, the kernel allocates blocks of any size, releases blocks it holds, resizes them and
  writes inside them. The sizes given to \<^verbatim>\<open>calloc\<close> and \<^verbatim>\<open>realloc\<close> are at most $2^{32} - 8$: these two write into
  the block they get, and above that the block is smaller than what they write (\<open>calloc_wrap_breaks\<close> below).
\<close>

inductive reachable :: "heap \<Rightarrow> bool" where
  boot: "reachable (heap_init h)"
| alloc: "reachable h \<Longrightarrow> malloc n h = Some (p, h') \<Longrightarrow> reachable h'"
| zalloc: "reachable h \<Longrightarrow> count * n + 8 \<le> 2 ^ 32 \<Longrightarrow> calloc count n h = Some (p, h') \<Longrightarrow> reachable h'"
| resize: "reachable h \<Longrightarrow> (p, s) \<in> heap_live h \<Longrightarrow> n + 8 \<le> 2 ^ 32 \<Longrightarrow>
    realloc p n h = Some (q, h') \<Longrightarrow> reachable h'"
| release: "reachable h \<Longrightarrow> (p, s) \<in> heap_live h \<Longrightarrow> free_ptr p h = Some h' \<Longrightarrow> reachable h'"
| poke: "reachable h \<Longrightarrow> (p, s) \<in> heap_live h \<Longrightarrow> in_region p s x \<Longrightarrow>
    reachable (h\<lparr>hmem := (hmem h)(x := b)\<rparr>)"

lemma calloc_block:
  assumes "heap_inv h" and "count * n + 8 \<le> 2 ^ 32"
  shows "\<exists>p h1 h'. malloc (count * n) h = Some (p, h1) \<and> calloc count n h = Some (p, h') \<and>
    heap_inv h' \<and> heap_live h' = heap_live h1 \<and> (p \<noteq> 0 \<longrightarrow> (\<forall>i<count * n. hmem h' (p + i) = 0))"
proof -
  obtain p h1 where m: "malloc (count * n) h = Some (p, h1)" "heap_inv h1"
    using kheap.alloc_returns [OF assms(1)] by blast
  have tot: "count * n mod 4294967296 = count * n" using assms(2) by (intro mod_less) simp
  show ?thesis
  proof (cases "p = 0")
    case True
    with m show ?thesis by (simp add: calloc_def tot)
  next
    case False
    have "calloc count n h = Some (p, h1\<lparr>hmem := memset p 0 (count * n) (hmem h1)\<rparr>)"
      using m False by (simp add: calloc_def tot)
    with m(1) kstore.zero_block [OF assms m(1) False] show ?thesis by blast
  qed
qed

lemma realloc_block:
  assumes inv: "heap_inv h" and live: "(p, s) \<in> heap_live h" and n: "0 < n" "n + 8 \<le> 2 ^ 32"
  shows "\<exists>q h'. realloc p n h = Some (q, h') \<and> heap_inv h' \<and>
    (if q = 0 then h' = h
     else \<exists>t. n \<le> t \<and> heap_live h' = insert (q, t) (heap_live h - {(p, s)}) \<and>
          (\<forall>i < min s n. hmem h' (q + i) = hmem h (p + i)))"
proof (cases "n \<le> s")
  case True
  have "realloc p n h = Some (p, h)"
    using True realloc_small [OF inv live] n by (simp add: realloc_def blk_defs)
  moreover have "insert (p, s) (heap_live h - {(p, s)}) = heap_live h" using live by auto
  ultimately show ?thesis using True inv realloc_small [OF inv live] by auto
next
  case False
  obtain q h1 where m: "malloc n h = Some (q, h1)" "heap_inv h1"
    using kheap.alloc_returns [OF inv] by blast
  have hdr: "hdr_of p = p - 16" "rd32 (hmem h) (p - 16) = s" "p \<noteq> 0"
    using realloc_small [OF inv live] by auto
  show ?thesis
  proof (cases "q = 0")
    case True
    then have "h1 = h" using kheap.alloc_null [OF inv, of n] m by simp
    with True False m hdr n show ?thesis by (simp add: realloc_def blk_defs)
  next
    case q: False
    have "(p, s) \<in> heap_live h1" using kheap.alloc_block [OF inv n(2) m(1) q] live by auto
    then have sz: "rd32 (hmem h1) (p - 16) = s" using realloc_small [OF m(2)] by blast
    obtain t h2 where h2: "free_ptr p (h1\<lparr>hmem := memcpy q p s (hmem h1)\<rparr>) = Some h2" "heap_inv h2"
        "n \<le> t" "heap_live h2 = insert (q, t) (heap_live h - {(p, s)})"
        "\<forall>i < s. hmem h2 (q + i) = hmem h (p + i)"
      using kstore.move_block [OF inv live _ n(2) m(1) q] False by (auto simp: not_le)
    have "realloc p n h = Some (q, h2)"
      using False q m hdr sz n h2(1) by (simp add: realloc_def blk_defs)
    with h2 q show ?thesis by auto
  qed
qed

lemma realloc_0:
  assumes "heap_inv h" and "(p, s) \<in> heap_live h"
  shows "realloc p 0 h = map_option (Pair 0) (free_ptr p h)"
  using realloc_small [OF assms] by (simp add: realloc_def)

lemma reachable_inv: "reachable h \<Longrightarrow> heap_inv h"
proof (induction rule: reachable.induct)
  case (boot h)
  show ?case by (rule heap_inv_init)
next
  case (alloc h n p h')
  then show ?case by (metis heap_inv_malloc)
next
  case (zalloc h count n p h')
  from calloc_block [OF zalloc(4,2)] zalloc(3) show ?case by auto
next
  case (resize h p s n q h')
  show ?case
  proof (cases "n = 0")
    case True
    then have "free_ptr p h = Some h'" using realloc_0 [OF resize(5,2)] resize(4) by auto
    with kheap.release_block [OF resize(5,2)] show ?thesis by auto
  next
    case False
    with realloc_block [OF resize(5,2) _ resize(3)] resize(4) show ?thesis by auto
  qed
next
  case (release h p s h')
  from kheap.release_block [OF release(4,2)] release(3) show ?case by auto
next
  case (poke h p s x b)
  have "heap_inv (h\<lparr>hmem := (hmem h)(x := b)\<rparr>) \<and> heap_live (h\<lparr>hmem := (hmem h)(x := b)\<rparr>) = heap_live h"
    by (rule kstore.store_inv [OF poke(4,2)]) (use poke(3) in auto)
  then show ?case by blast
qed


section \<open>Properties\<close>

definition blank_heap :: heap where
  "blank_heap = \<lparr>out = [], hmem = (\<lambda>_. 0), heap_start_ptr = 0, heap_ready = 0\<rparr>"

lemma malloc_boot:
  assumes "0 < n" and "align8 n \<le> 4194240"
  shows "\<exists>h. malloc n (heap_init blank_heap) = Some (0x800010, h) \<and> heap_live h = {(0x800010, align8 n)}"
proof -
  have "a_alloc (align8 n) [(HEAP_SIZE - 16, True)] =
      Some (16, [(align8 n, False), (HEAP_SIZE - 16 - align8 n - 16, True)])"
    using assms(2) by (simp add: HEAP_SIZE_def)
  from malloc_first_fit [OF heap_init_rep assms(1) this, of blank_heap] obtain m where
    m: "malloc n (heap_init blank_heap) = Some (HEAP_START + 16, (heap_init blank_heap)\<lparr>hmem := m\<rparr>)"
      "heap_rep ((heap_init blank_heap)\<lparr>hmem := m\<rparr>)
         [(align8 n, False), (HEAP_SIZE - 16 - align8 n - 16, True)]" by blast
  from heap_live_eq [OF m(2)] m(1) show ?thesis by (simp add: HEAP_START_def)
qed

text \<open>
  C1. \<^verbatim>\<open>malloc\<close> hands out memory that is safe to use, for every size: in a well-formed heap the block it returns is
  8-byte aligned, lies inside the heap, overlaps no block in use, holds at least the size rounded up to a multiple of
  eight in 32-bit arithmetic, and taking it changes no byte of any block in use and keeps the heap well formed. Up to
  $2^{32} - 8$ the rounded size is at least the size asked for; for larger sizes the rounding wraps around to 0, and
  the block need not hold a single byte.
\<close>

theorem malloc_correct:
  assumes "heap_inv h" and "malloc n h = Some (p, h')" and "p \<noteq> 0"
  shows "8 dvd p \<and> HEAP_START \<le> p \<and> heap_inv h' \<and>
    (\<exists>s. align8 n \<le> s \<and> p + s \<le> HEAP_START + HEAP_SIZE \<and> (p, s) \<notin> heap_live h \<and> heap_live h' = insert (p, s) (heap_live h) \<and>
       (\<forall>q t. (q, t) \<in> heap_live h \<longrightarrow> (p + s \<le> q \<or> q + t \<le> p) \<and> (\<forall>x. in_region q t x \<longrightarrow> hmem h' x = hmem h x))) \<and>
    (if n + 8 \<le> 2 ^ 32 then n \<le> align8 n else n < 2 ^ 32 \<longrightarrow> align8 n = 0)"
proof -
  obtain s where s: "8 dvd p" "HEAP_START \<le> p" "align8 n \<le> s" "p + s \<le> HEAP_START + HEAP_SIZE" "(p, s) \<notin> heap_live h"
      "heap_live h' = insert (p, s) (heap_live h)"
    using malloc_rounded [OF assms] by blast
  have inv: "heap_inv h'" by (rule heap_inv_malloc [OF assms(1,2)])
  have "p + s \<le> q \<or> q + t \<le> p" if "(q, t) \<in> heap_live h" for q t
    by (rule kheap.blocks_apart [OF inv]) (use s(5,6) that in auto)
  moreover have "if n + 8 \<le> 2 ^ 32 then n \<le> align8 n else n < 2 ^ 32 \<longrightarrow> align8 n = 0" using align8_ge [of n] align8_wraps [of n] by simp
  ultimately show ?thesis using s inv kheap.alloc_frame [OF assms(1,2)] by blast
qed

theorem malloc_correct_witness:
  "\<exists>h. malloc 100 (heap_init blank_heap) = Some (0x800010, h) \<and> heap_inv h \<and>
       (8 :: nat) dvd 0x800010 \<and> (\<exists>s. 100 \<le> s \<and> heap_live h = {(0x800010, s)})"
proof -
  obtain h where h: "malloc 100 (heap_init blank_heap) = Some (0x800010, h)"
    using malloc_boot [of 100] by (auto simp: align8_def)
  from malloc_correct [OF heap_inv_init this] obtain s where "heap_inv h" "align8 100 \<le> s" "heap_live h = insert (0x800010, s) (heap_live (heap_init blank_heap))"
    by auto
  then show ?thesis using h heap_live_init [of blank_heap] by (auto simp: align8_def)
qed



text \<open>
  C2. \<^verbatim>\<open>free\<close> of a block in use returns, removes exactly that block from the blocks in use, changes
  no byte of the others, and leaves no two adjacent free blocks.
\<close>

theorem free_correct:
  assumes "heap_inv h" and "(p, s) \<in> heap_live h"
  shows "\<exists>h' bs. free_ptr p h = Some h' \<and> heap_rep h' bs \<and> coalesced bs \<and>
    heap_live h' = heap_live h - {(p, s)} \<and>
    (\<forall>q t x. (q, t) \<in> heap_live h \<longrightarrow> (q, t) \<noteq> (p, s) \<longrightarrow> in_region q t x \<longrightarrow> hmem h' x = hmem h x)"
proof -
  obtain h' where h': "free_ptr p h = Some h'" "heap_inv h'" "heap_live h' = heap_live h - {(p, s)}"
    using kheap.release_block [OF assms] by blast
  obtain bs where bs: "heap_rep h' bs" using h'(2) unfolding heap_inv_def by blast
  then have "coalesced bs" by (simp add: heap_rep_def)
  with h' bs kheap.release_frame [OF assms h'(1)] show ?thesis by blast
qed

theorem free_correct_witness:
  "\<exists>h h'. malloc 8 (heap_init blank_heap) = Some (0x800010, h) \<and> free_ptr 0x800010 h = Some h' \<and>
     heap_live h' = {}"
proof -
  obtain h where h: "malloc 8 (heap_init blank_heap) = Some (0x800010, h)"
    "heap_live h = {(0x800010, 8)}" using malloc_boot [of 8] by (auto simp: align8_def)
  have "heap_inv h" using heap_inv_malloc [OF heap_inv_init h(1)] .
  from free_correct [OF this, of "0x800010" 8] h show ?thesis by auto
qed

text \<open>
  C4. No sequence of allocations, releases, resizings and writes inside blocks in use breaks the heap, where
  \<^verbatim>\<open>malloc\<close> may be asked for any size and \<^verbatim>\<open>calloc\<close> and \<^verbatim>\<open>realloc\<close> for at most $2^{32} - 8$ bytes: every heap reached
  in this way is well formed, and once every block has been released it is again the single free block that
  \<^verbatim>\<open>heap_init\<close> made, however fragmented it had been.
\<close>

theorem reachable_heap_ok:
  assumes "reachable h"
  shows "heap_inv h \<and> (heap_live h = {} \<longrightarrow> heap_rep h [(HEAP_SIZE - 16, True)])"
proof -
  have inv: "heap_inv h" by (rule reachable_inv [OF assms])
  then obtain bs where rep: "heap_rep h bs" unfolding heap_inv_def by blast
  have "heap_rep h [(HEAP_SIZE - 16, True)]" if "heap_live h = {}"
  proof -
    have "bs = [(span bs - 16, True)]"
      by (rule all_free_one_block [of _ HEAP_START])
        (use rep that heap_live_eq [OF rep] in \<open>auto simp: heap_rep_def\<close>)
    moreover have "span bs = HEAP_SIZE" using rep by (simp add: heap_rep_def)
    ultimately show ?thesis using rep by metis
  qed
  with inv show ?thesis by blast
qed

theorem reachable_heap_ok_witness:
  "\<exists>h h'. malloc 8 (heap_init blank_heap) = Some (0x800010, h) \<and> free_ptr 0x800010 (h\<lparr>hmem := (hmem h)(0x800013 := 7)\<rparr>) = Some h' \<and>
     reachable h' \<and> heap_rep h' [(0x400000 - 16, True)]"
proof -
  obtain h where h: "malloc 8 (heap_init blank_heap) = Some (0x800010, h)" "heap_live h = {(0x800010, 8)}"
    using malloc_boot [of 8] by (auto simp: align8_def)
  let ?h = "h\<lparr>hmem := (hmem h)(0x800013 := 7)\<rparr>"
  have r: "reachable h" by (rule reachable.alloc [OF reachable.boot h(1)])
  have p: "reachable ?h" by (rule reachable.poke [OF r, of "0x800010" 8]) (use h(2) in \<open>simp_all add: in_region_def\<close>)
  have "heap_inv ?h \<and> heap_live ?h = heap_live h"
    by (rule kstore.store_inv [OF reachable_inv [OF r], of "0x800010" 8]) (use h(2) in \<open>auto simp: in_region_def\<close>)
  then have live: "(0x800010, 8) \<in> heap_live ?h" "heap_live ?h = {(0x800010, 8)}" using h(2) by simp_all
  obtain h' where h': "free_ptr 0x800010 ?h = Some h'" "heap_live h' = heap_live ?h - {(0x800010, 8)}"
    using kheap.release_block [OF reachable_inv [OF p] live(1)] by blast
  have "reachable h'" by (rule reachable.release [OF p live(1) h'(1)])
  moreover have "heap_rep h' [(0x400000 - 16, True)]" using reachable_heap_ok [OF calculation] h'(2) live(2) by (simp add: HEAP_SIZE_def)
  ultimately show ?thesis using h(1) h'(1) by blast
qed

text \<open>
  C5. \<^verbatim>\<open>realloc\<close> of a block in use to a size between 1 and $2^{32} - 8$ always returns. When it returns a block, the
  block is large enough, holds the old contents up to the smaller of the two sizes, and replaces
  the old block in the set of blocks in use; when it returns NULL the heap is unchanged.
\<close>

theorem realloc_correct:
  assumes "heap_inv h" and "(p, s) \<in> heap_live h" and "0 < n" and "n + 8 \<le> 2 ^ 32"
  shows "\<exists>q h'. realloc p n h = Some (q, h') \<and> heap_inv h' \<and>
    (if q = 0 then h' = h
     else \<exists>t. n \<le> t \<and> heap_live h' = insert (q, t) (heap_live h - {(p, s)}) \<and>
          (\<forall>i < min s n. hmem h' (q + i) = hmem h (p + i)))"
  by (rule realloc_block [OF assms])

theorem realloc_correct_witness:
  "\<exists>h q h'. malloc 8 (heap_init blank_heap) = Some (0x800010, h) \<and> heap_live h = {(0x800010, 8)} \<and>
     realloc 0x800010 100 h = Some (q, h') \<and> heap_inv h'"
proof -
  obtain h where h: "malloc 8 (heap_init blank_heap) = Some (0x800010, h)"
    "heap_live h = {(0x800010, 8)}" using malloc_boot [of 8] by (auto simp: align8_def)
  have "heap_inv h" using heap_inv_malloc [OF heap_inv_init h(1)] .
  from realloc_correct [OF this, of "0x800010" 8 100] h show ?thesis by auto
qed

text \<open>
  \<^verbatim>\<open>calloc\<close>, when the product of its arguments does not overflow, allocates exactly the block
  \<^verbatim>\<open>malloc\<close> would and every requested byte of it is zero.
\<close>

theorem calloc_correct:
  assumes "heap_inv h" and "count * n + 8 \<le> 2 ^ 32"
  shows "\<exists>p h1 h'. malloc (count * n) h = Some (p, h1) \<and> calloc count n h = Some (p, h') \<and>
    heap_inv h' \<and> heap_live h' = heap_live h1 \<and> (p \<noteq> 0 \<longrightarrow> (\<forall>i<count * n. hmem h' (p + i) = 0))"
  by (rule calloc_block [OF assms])

theorem calloc_correct_witness:
  "\<exists>h'. calloc 3 5 (heap_init blank_heap) = Some (0x800010, h') \<and> (\<forall>i<15. hmem h' (0x800010 + i) = 0)"
proof -
  obtain h where "malloc 15 (heap_init blank_heap) = Some (0x800010, h)"
    using malloc_boot [of 15] by (auto simp: align8_def)
  with calloc_correct [OF heap_inv_init, of 3 5 blank_heap] show ?thesis by auto
qed

text \<open>
  The rounding \<^verbatim>\<open>(size + 7) & ~7\<close> wraps for the seven largest sizes: \<^verbatim>\<open>malloc\<close> then answers a
  request of almost 4 GB with a non-null pointer to a block of no bytes at all.
\<close>

theorem malloc_size_wraps:
  assumes "2 ^ 32 - 7 \<le> n" and "n < 2 ^ 32"
  shows "\<exists>h. malloc n (heap_init blank_heap) = Some (0x800010, h) \<and> heap_live h = {(0x800010, 0)}"
proof -
  have "align8 n = 0" using assms by (intro align8_wraps) simp_all
  with malloc_boot [of n] assms(1) show ?thesis by auto
qed

theorem malloc_size_wraps_witness:
  "\<exists>h. malloc 0xFFFFFFFF (heap_init blank_heap) = Some (0x800010, h) \<and> heap_live h = {(0x800010, 0)}"
  using malloc_size_wraps [of "0xFFFFFFFF"] by simp

text \<open>
  For these sizes \<^verbatim>\<open>calloc\<close> destroys the heap: it clears 4 GB behind a block of no bytes, and with them the header
  of the next block.
\<close>

theorem calloc_wrap_breaks:
  "\<exists>h. calloc 1 0xFFFFFFFF (heap_init blank_heap) = Some (0x800010, h) \<and> \<not> heap_inv h"
proof -
  have al: "align8 0xFFFFFFFF = 0" by (intro align8_wraps) simp_all
  have "a_alloc (align8 0xFFFFFFFF) [(HEAP_SIZE - 16, True)] = Some (16, [(0, False), (HEAP_SIZE - 32, True)])" by (simp add: al HEAP_SIZE_def)
  from malloc_first_fit [OF heap_init_rep _ this, of blank_heap] obtain m where
    m: "malloc 0xFFFFFFFF (heap_init blank_heap) = Some (0x800010, (heap_init blank_heap)\<lparr>hmem := m\<rparr>)"
      "heap_rep ((heap_init blank_heap)\<lparr>hmem := m\<rparr>) [(0, False), (HEAP_SIZE - 32, True)]"
    by (auto simp: HEAP_START_def)
  define m' where "m' = memset 0x800010 0 0xFFFFFFFF m"
  have c: "calloc 1 0xFFFFFFFF (heap_init blank_heap) = Some (0x800010, (heap_init blank_heap)\<lparr>hmem := m'\<rparr>)"
    using m(1) by (simp add: calloc_def m'_def)
  have low: "m' x = m x" if "x < 0x800010" for x using that by (simp add: m'_def memset_fill in_region_def)
  have zero: "m' x = 0" if "0x800010 \<le> x" "x < 0x800030" for x using that by (simp add: m'_def memset_fill in_region_def)
  have hd: "rd32 m HEAP_START = 0" "rd32 m (HEAP_START + 8) = 0x800010" using m(2) by (simp_all add: heap_rep_def HEAP_START_def)
  have same: "rd32 m' HEAP_START = 0" "rd32 m' (HEAP_START + 8) = 0x800010" using hd by (simp_all add: rd32_def HEAP_START_def low)
  have bad: "rd32 m' (HEAP_START + 16 + 12) = 0" by (simp add: rd32_def HEAP_START_def zero)
  have "\<not> heap_rep ((heap_init blank_heap)\<lparr>hmem := m'\<rparr>) bs" for bs
  proof
    assume rep: "heap_rep ((heap_init blank_heap)\<lparr>hmem := m'\<rparr>) bs"
    then have ch: "chain m' HEAP_START bs" and sp: "span bs = HEAP_SIZE" by (simp_all add: heap_rep_def)
    obtain s f cs where bs: "bs = (s, f) # cs" using sp by (cases bs) (auto simp: HEAP_SIZE_def)
    have s: "s = 0" using ch same(1) by (simp add: bs)
    have "cs \<noteq> []" using sp s by (auto simp: bs HEAP_SIZE_def)
    then obtain t g ds where cs: "cs = (t, g) # ds" by (cases cs) auto
    have "rd32 m' (HEAP_START + 16 + 12) = BLOCK_MAGIC" using ch by (simp add: bs cs s)
    then show False using bad by (simp add: BLOCK_MAGIC_def)
  qed
  then show ?thesis using c by (auto simp: heap_inv_def)
qed

end
