(* ===== verification/Ata.thy ===== *)
theory Ata
  imports Printing
begin

unbundle bit_operations_syntax

text \<open>
  The machine's I/O ports and the ATA driver of \<^verbatim>\<open>src/ata.c\<close>. The hardware is not part of the
  sources: it is the argument \<open>bus\<close>, four functions on the state of the devices. What the driver
  relies on is the programmed-I/O protocol of the ATA standard, stated as the locale
  \<open>pio_drive\<close>; shown here is that on every such drive \<^verbatim>\<open>ata_read_sector\<close> and \<^verbatim>\<open>ata_write_sector\<close>
  are a sector store (locale \<open>sector_store\<close>), which is what the file system builds on.
\<close>

section \<open>Ports\<close>

record 'd bus =
  bus_inb :: "u16 \<Rightarrow> 'd \<Rightarrow> u8 \<times> 'd"
  bus_outb :: "u16 \<Rightarrow> u8 \<Rightarrow> 'd \<Rightarrow> 'd"
  bus_inw :: "u16 \<Rightarrow> 'd \<Rightarrow> u16 \<times> 'd"
  bus_outw :: "u16 \<Rightarrow> u16 \<Rightarrow> 'd \<Rightarrow> 'd"

record 'd machine = console +
  dev :: 'd

definition inb :: "'d bus \<Rightarrow> u16 \<Rightarrow> ('d, 'a) machine_scheme \<Rightarrow> u8 \<times> ('d, 'a) machine_scheme" where
  "inb bus port st = (let (v, d) = bus_inb bus port (dev st) in (v, st\<lparr>dev := d\<rparr>))"

definition outb :: "'d bus \<Rightarrow> u16 \<Rightarrow> u8 \<Rightarrow> ('d, 'a) machine_scheme \<Rightarrow> ('d, 'a) machine_scheme" where
  "outb bus port v st = st\<lparr>dev := bus_outb bus port v (dev st)\<rparr>"

definition inw :: "'d bus \<Rightarrow> u16 \<Rightarrow> ('d, 'a) machine_scheme \<Rightarrow> u16 \<times> ('d, 'a) machine_scheme" where
  "inw bus port st = (let (v, d) = bus_inw bus port (dev st) in (v, st\<lparr>dev := d\<rparr>))"

definition outw :: "'d bus \<Rightarrow> u16 \<Rightarrow> u16 \<Rightarrow> ('d, 'a) machine_scheme \<Rightarrow> ('d, 'a) machine_scheme" where
  "outw bus port v st = st\<lparr>dev := bus_outw bus port v (dev st)\<rparr>"

section \<open>The driver\<close>

record 'd ata = "'d machine" +
  ata_present :: int

definition io_wait :: "'d bus \<Rightarrow> ('d, 'a) machine_scheme \<Rightarrow> ('d, 'a) machine_scheme" where
  "io_wait bus st =
     (let (_, st) = inb bus 0x80 st; (_, st) = inb bus 0x80 st;
          (_, st) = inb bus 0x80 st; (_, st) = inb bus 0x80 st in st)"

fun poll_bsy :: "'d bus \<Rightarrow> nat \<Rightarrow> ('d, 'a) machine_scheme \<Rightarrow> int \<times> ('d, 'a) machine_scheme" where
  "poll_bsy bus 0 st = (- 1, st)"
| "poll_bsy bus (Suc timeout) st =
     (let (status, st) = inb bus 0x1F7 st in
      if status AND 0x80 = 0 then (0, st) else poll_bsy bus timeout (io_wait bus st))"

definition ata_poll_bsy :: "'d bus \<Rightarrow> ('d, 'a) machine_scheme \<Rightarrow> int \<times> ('d, 'a) machine_scheme" where
  "ata_poll_bsy bus st = poll_bsy bus 1000000 st"

fun poll_drq :: "'d bus \<Rightarrow> nat \<Rightarrow> ('d, 'a) machine_scheme \<Rightarrow> int \<times> ('d, 'a) machine_scheme" where
  "poll_drq bus 0 st = (- 1, st)"
| "poll_drq bus (Suc timeout) st =
     (let (status, st) = inb bus 0x1F7 st in
      if status AND 0x01 \<noteq> 0 then (- 1, st)
      else if status AND 0x08 \<noteq> 0 then (0, st)
      else poll_drq bus timeout (io_wait bus st))"

definition ata_poll_drq :: "'d bus \<Rightarrow> ('d, 'a) machine_scheme \<Rightarrow> int \<times> ('d, 'a) machine_scheme" where
  "ata_poll_drq bus st = poll_drq bus 1000000 st"

text \<open>The transfer loops \<^verbatim>\<open>for (i = 0; i < 256; i++)\<close> over 16-bit words.\<close>

fun inw_loop :: "'d bus \<Rightarrow> nat \<Rightarrow> ('d, 'a) machine_scheme \<Rightarrow> u16 list \<times> ('d, 'a) machine_scheme" where
  "inw_loop bus 0 st = ([], st)"
| "inw_loop bus (Suc k) st =
     (let (w, st) = inw bus 0x1F0 st; (ws, st) = inw_loop bus k st in (w # ws, st))"

fun outw_loop :: "'d bus \<Rightarrow> u16 list \<Rightarrow> ('d, 'a) machine_scheme \<Rightarrow> ('d, 'a) machine_scheme" where
  "outw_loop bus [] st = st"
| "outw_loop bus (w # ws) st = outw_loop bus ws (outw bus 0x1F0 w st)"

text \<open>A byte buffer read and written as \<^verbatim>\<open>uint16_t*\<close>, little endian.\<close>

fun bytes_of_words :: "u16 list \<Rightarrow> u8 list" where
  "bytes_of_words [] = []"
| "bytes_of_words (w # ws) = ucast w # ucast (drop_bit 8 w) # bytes_of_words ws"

fun words_of_bytes :: "u8 list \<Rightarrow> u16 list" where
  "words_of_bytes (a # b # bs) = (ucast a OR push_bit 8 (ucast b)) # words_of_bytes bs"
| "words_of_bytes _ = []"

definition ata_identify :: "'d bus \<Rightarrow> ('d, 'a) machine_scheme \<Rightarrow> int \<times> ('d, 'a) machine_scheme" where
  "ata_identify bus st =
     (let st = outb bus 0x1F6 0xA0 st;
          st = io_wait bus st;
          st = outb bus 0x1F2 0 st;
          st = outb bus 0x1F3 0 st;
          st = outb bus 0x1F4 0 st;
          st = outb bus 0x1F5 0 st;
          st = outb bus 0x1F7 0xEC st;
          st = io_wait bus st;
          (status, st) = inb bus 0x1F7 st
      in if status = 0 \<or> status = 0xFF then (- 1, st)
         else let (r, st) = ata_poll_bsy bus st in
           if r \<noteq> 0 then (- 1, st)
           else let (status, st) = inb bus 0x1F7 st in
             if status AND 0x01 \<noteq> 0 then (- 1, st)
             else let (r, st) = ata_poll_drq bus st in
               if r \<noteq> 0 then (- 1, st)
               else let (_, st) = inw_loop bus 256 st in (0, st))"

definition ata_init :: "'d bus \<Rightarrow> ('d, 'a) ata_scheme \<Rightarrow> ('d, 'a) ata_scheme" where
  "ata_init bus st =
     (let st = emit (''Initializing ATA...'' @ [NL]) st;
          (r, st) = ata_identify bus st
      in if r = 0
         then emit (''ATA drive detected and initialized.'' @ [NL]) (st\<lparr>ata_present := 1\<rparr>)
         else emit (''No ATA drive found.'' @ [NL]) st)"

text \<open>
  \<open>ata_setup\<close> is the register programming the two transfer functions share word for word:
  drive and top nibble, one sector, the low 24 bits of the block address, the command.
\<close>

definition ata_setup :: "'d bus \<Rightarrow> u32 \<Rightarrow> u8 \<Rightarrow> ('d, 'a) machine_scheme \<Rightarrow> ('d, 'a) machine_scheme" where
  "ata_setup bus lba cmd st =
     (let st = outb bus 0x1F6 (0xE0 OR (ucast (drop_bit 24 lba) AND 0x0F)) st;
          st = io_wait bus st;
          st = outb bus 0x1F2 1 st;
          st = outb bus 0x1F3 (ucast lba) st;
          st = outb bus 0x1F4 (ucast (drop_bit 8 lba)) st;
          st = outb bus 0x1F5 (ucast (drop_bit 16 lba)) st
      in outb bus 0x1F7 cmd st)"

text \<open>
  \<^verbatim>\<open>ata_read_sector\<close> returns the code and the new contents of the caller's buffer, which is
  untouched when the transfer does not start.
\<close>

definition ata_read_sector ::
  "'d bus \<Rightarrow> u32 \<Rightarrow> u8 list \<Rightarrow> ('d, 'a) ata_scheme \<Rightarrow> int \<times> u8 list \<times> ('d, 'a) ata_scheme" where
  "ata_read_sector bus lba buffer st =
     (if ata_present st = 0 then (- 1, buffer, st)
      else let (r, st) = ata_poll_bsy bus st in
        if r \<noteq> 0 then (- 1, buffer, st)
        else let st = ata_setup bus lba 0x20 st;
                 (r, st) = ata_poll_drq bus st
          in if r \<noteq> 0 then (- 1, buffer, st)
             else let (ws, st) = inw_loop bus 256 st in (0, blit buffer 0 (bytes_of_words ws), st))"

definition ata_write_sector ::
  "'d bus \<Rightarrow> u32 \<Rightarrow> u8 list \<Rightarrow> ('d, 'a) ata_scheme \<Rightarrow> int \<times> ('d, 'a) ata_scheme" where
  "ata_write_sector bus lba buffer st =
     (if ata_present st = 0 then (- 1, st)
      else let (r, st) = ata_poll_bsy bus st in
        if r \<noteq> 0 then (- 1, st)
        else let st = ata_setup bus lba 0x30 st;
                 (r, st) = ata_poll_drq bus st
          in if r \<noteq> 0 then (- 1, st)
             else let st = outw_loop bus (words_of_bytes (take 512 buffer)) st;
                      st = outb bus 0x1F7 0xE7 st;
                      (_, st) = ata_poll_bsy bus st
                  in (0, st))"

definition ata_drive_present :: "('d, 'a) ata_scheme \<Rightarrow> int" where
  "ata_drive_present st = ata_present st"

section \<open>The sector store contract\<close>

text \<open>
  What the file system asks of its device: a sector that was written is read back, no other
  sector changes, and nothing but the device does. \<open>rest\<close> is the caller's part of the state.
\<close>

locale sector_store =
  fixes ok :: "'s \<Rightarrow> bool"
    and sect :: "'s \<Rightarrow> nat \<Rightarrow> u8 list"
    and rest :: "'s \<Rightarrow> 'r"
    and rd :: "u32 \<Rightarrow> u8 list \<Rightarrow> 's \<Rightarrow> int \<times> u8 list \<times> 's"
    and wr :: "u32 \<Rightarrow> u8 list \<Rightarrow> 's \<Rightarrow> int \<times> 's"
  assumes sect_512: "ok s \<Longrightarrow> length (sect s k) = 512"
    and rd_ok: "ok s \<Longrightarrow> unat l < 2 ^ 28 \<Longrightarrow> length b = 512 \<Longrightarrow>
      \<exists>s'. rd l b s = (0, sect s (unat l), s') \<and> ok s' \<and> sect s' = sect s \<and> rest s' = rest s"
    and wr_ok: "ok s \<Longrightarrow> unat l < 2 ^ 28 \<Longrightarrow> length b = 512 \<Longrightarrow>
      \<exists>s'. wr l b s = (0, s') \<and> ok s' \<and> sect s' = (sect s)(unat l := b) \<and> rest s' = rest s"
begin

lemma rd_after_wr:
  assumes "ok s" and "unat l < 2 ^ 28" and "unat k < 2 ^ 28" and "length b = 512" and "length c = 512"
  shows "\<exists>s' s''. wr l b s = (0, s') \<and> rd k c s' = (0, if k = l then b else sect s (unat k), s'') \<and>
    ok s'' \<and> rest s'' = rest s"
proof -
  obtain s' where s': "wr l b s = (0, s')" "ok s'" "sect s' = (sect s)(unat l := b)" "rest s' = rest s"
    using wr_ok [OF assms(1,2,4)] by blast
  from rd_ok [OF s'(2) assms(3,5)] s' show ?thesis by (auto simp: word_unat_eq_iff)
qed

end

section \<open>The programmed-I/O protocol of an ATA drive\<close>

text \<open>
  The task file registers, the transfer in progress, the number of status reads for which the
  drive still reports BSY and the stored sectors, as 256 words each. A command keeps the drive
  busy for \<open>pio_lat\<close> status reads.
\<close>

datatype pio_phase = Pio_idle | Pio_in "u16 list" | Pio_out nat "u16 list"

record pio =
  pio_head :: u8
  pio_lo :: u8
  pio_mid :: u8
  pio_hi :: u8
  pio_xfer :: pio_phase
  pio_busy :: nat
  pio_lat :: nat
  pio_ident :: "u16 list"
  pio_sect :: "nat \<Rightarrow> u16 list"

definition pio_lba :: "pio \<Rightarrow> nat" where
  "pio_lba d = unat (pio_lo d) + 256 * unat (pio_mid d) + 65536 * unat (pio_hi d)
               + 16777216 * unat (pio_head d AND 0x0F)"

definition pio_status :: "pio \<Rightarrow> u8" where
  "pio_status d = (if 0 < pio_busy d then 0x80 else if pio_xfer d = Pio_idle then 0x50 else 0x58)"

definition pio_tick :: "pio \<Rightarrow> pio" where
  "pio_tick d = d\<lparr>pio_busy := pio_busy d - 1\<rparr>"

definition pio_command :: "u8 \<Rightarrow> pio \<Rightarrow> pio" where
  "pio_command c d =
     (if c = 0x20 then d\<lparr>pio_xfer := Pio_in (pio_sect d (pio_lba d)), pio_busy := pio_lat d\<rparr>
      else if c = 0x30 then d\<lparr>pio_xfer := Pio_out (pio_lba d) [], pio_busy := pio_lat d\<rparr>
      else if c = 0xEC then d\<lparr>pio_xfer := Pio_in (pio_ident d), pio_busy := pio_lat d\<rparr>
      else if c = 0xE7 then d\<lparr>pio_xfer := Pio_idle, pio_busy := pio_lat d\<rparr>
      else d)"

definition pio_outb :: "u16 \<Rightarrow> u8 \<Rightarrow> pio \<Rightarrow> pio" where
  "pio_outb port v d =
     (if port = 0x1F6 then d\<lparr>pio_head := v\<rparr>
      else if port = 0x1F3 then d\<lparr>pio_lo := v\<rparr>
      else if port = 0x1F4 then d\<lparr>pio_mid := v\<rparr>
      else if port = 0x1F5 then d\<lparr>pio_hi := v\<rparr>
      else if port = 0x1F7 then pio_command v d
      else d)"

definition pio_inw :: "pio \<Rightarrow> u16 \<times> pio" where
  "pio_inw d =
     (case pio_xfer d of
        Pio_in (w # ws) \<Rightarrow> (w, d\<lparr>pio_xfer := (if ws = [] then Pio_idle else Pio_in ws)\<rparr>)
      | _ \<Rightarrow> (0, d))"

definition pio_outw :: "u16 \<Rightarrow> pio \<Rightarrow> pio" where
  "pio_outw v d =
     (case pio_xfer d of
        Pio_out l ws \<Rightarrow>
          (if length ws = 255
           then d\<lparr>pio_xfer := Pio_idle, pio_sect := (pio_sect d)(l := ws @ [v])\<rparr>
           else d\<lparr>pio_xfer := Pio_out l (ws @ [v])\<rparr>)
      | _ \<Rightarrow> d)"

text \<open>
  A device on the bus is a PIO drive when some view of its state follows the protocol: the
  status register, the data port, the task file registers, and port 0x80, which is not the drive's.
\<close>

locale pio_drive =
  fixes bus :: "'d bus" and view :: "'d \<Rightarrow> pio"
  assumes status_reg: "fst (bus_inb bus 0x1F7 d) = pio_status (view d)"
    and status_read: "view (snd (bus_inb bus 0x1F7 d)) = pio_tick (view d)"
    and delay_port: "view (snd (bus_inb bus 0x80 d)) = view d"
    and task_file: "p \<in> {0x1F2, 0x1F3, 0x1F4, 0x1F5, 0x1F6, 0x1F7} \<Longrightarrow>
      view (bus_outb bus p v d) = pio_outb p v (view d)"
    and data_in: "fst (bus_inw bus 0x1F0 d) = fst (pio_inw (view d))"
    and data_in_next: "view (snd (bus_inw bus 0x1F0 d)) = snd (pio_inw (view d))"
    and data_out: "view (bus_outw bus 0x1F0 w d) = pio_outw w (view d)"

text \<open>The protocol itself is such a drive.\<close>

definition pio_bus :: "pio bus" where
  "pio_bus =
     \<lparr>bus_inb = \<lambda>p d. if p = 0x1F7 then (pio_status d, pio_tick d) else (0xFF, d),
      bus_outb = pio_outb,
      bus_inw = \<lambda>p d. if p = 0x1F0 then pio_inw d else (0xFFFF, d),
      bus_outw = \<lambda>p v d. if p = 0x1F0 then pio_outw v d else d\<rparr>"

interpretation sim_drive: pio_drive pio_bus "\<lambda>d. d"
  by unfold_locales (simp_all add: pio_bus_def)

section \<open>The driver on such a drive\<close>

lemma bytes_of_words_of_bytes:
  "even (length bs) \<Longrightarrow> bytes_of_words (words_of_bytes bs) = bs"
proof (induction bs rule: words_of_bytes.induct)
  case (1 a b bs)
  have "ucast (ucast a OR push_bit 8 (ucast b) :: u16) = a"
    by (rule bit_word_eqI) (auto simp: bit_simps)
  moreover have "ucast (drop_bit 8 (ucast a OR push_bit 8 (ucast b) :: u16)) = b"
    by (rule bit_word_eqI) (auto simp: bit_simps dest: bit_imp_le_length)
  ultimately show ?case using 1 by simp
qed auto

lemma length_bytes_of_words [simp]: "length (bytes_of_words ws) = 2 * length ws"
  by (induction ws) auto

lemma length_words_of_bytes: "length (words_of_bytes bs) = length bs div 2"
  by (induction bs rule: words_of_bytes.induct) auto

lemma head_nibble: "(0xE0 OR (x AND 0x0F)) AND 0x0F = (x AND 0x0F :: u8)"
  by (simp add: bit.conj_disj_distrib2 and.assoc)

lemma unat_nibble: "unat (x AND 0x0F :: u8) = unat x mod 16"
proof -
  have "(0x0F :: u8) = mask 4" by (simp add: mask_eq_exp_minus_1)
  then have "unat (x AND 0x0F) = unat (take_bit 4 x)" by (simp only: take_bit_eq_mask)
  then have "unat (x AND 0x0F) = take_bit 4 (unat x)" by (simp only: unsigned_take_bit_eq)
  then show ?thesis by (simp add: take_bit_eq_mod)
qed

lemma lba_bytes:
  assumes "unat (lba :: u32) < 2 ^ 28"
  shows "unat (ucast lba :: u8) + 256 * unat (ucast (drop_bit 8 lba) :: u8) +
    65536 * unat (ucast (drop_bit 16 lba) :: u8) +
    16777216 * unat (ucast (drop_bit 24 lba) AND 0x0F :: u8) = unat lba"
proof -
  define n where "n = unat lba"
  have n: "n < 268435456" using assms by (simp add: n_def)
  have b: "unat (ucast (drop_bit k lba) :: u8) = n div 2 ^ k mod 256" for k
    by (simp only: n_def unsigned_ucast_eq unsigned_drop_bit_eq)
      (use assms in \<open>simp add: take_bit_eq_mod drop_bit_eq_div\<close>)
  have "n mod 268435456 = n mod (256 * (256 * (256 * 16)))" by simp
  also have "\<dots> = n mod 256 + 256 * (n div 256 mod 256) + 65536 * (n div 65536 mod 256)
      + 16777216 * (n div 16777216 mod 16)"
    by (simp only: mod_mult2_eq div_mult2_eq [symmetric]) simp
  moreover have "n mod 268435456 = n" using n by simp
  moreover have "(n div 16777216) mod 256 mod 16 = n div 16777216 mod 16"
    by (simp add: mod_mod_cancel)
  ultimately show ?thesis
    using b [of 0] b [of 8] b [of 16] b [of 24] by (simp add: unat_nibble n_def)
qed

text \<open>
  A drive that is ready for the next command: no transfer in progress, sectors of 256 words, and
  fast enough for the polling loops.
\<close>

definition drive_ready :: "('d \<Rightarrow> pio) \<Rightarrow> ('d, 'a) ata_scheme \<Rightarrow> bool" where
  "drive_ready view st \<longleftrightarrow> ata_present st \<noteq> 0 \<and> pio_xfer (view (dev st)) = Pio_idle \<and>
     pio_busy (view (dev st)) < 1000000 \<and> pio_lat (view (dev st)) < 1000000 \<and>
     (\<forall>l. length (pio_sect (view (dev st)) l) = 256)"

definition drive_sectors :: "('d \<Rightarrow> pio) \<Rightarrow> ('d, 'a) machine_scheme \<Rightarrow> nat \<Rightarrow> u8 list" where
  "drive_sectors view st l = bytes_of_words (pio_sect (view (dev st)) l)"

context pio_drive
begin

abbreviation vw :: "('d, 'a) machine_scheme \<Rightarrow> pio" where "vw st \<equiv> view (dev st)"
abbreviation ready :: "('d, 'a) ata_scheme \<Rightarrow> bool" where "ready \<equiv> drive_ready view"
abbreviation stored :: "('d, 'a) machine_scheme \<Rightarrow> nat \<Rightarrow> u8 list" where "stored \<equiv> drive_sectors view"

lemma io_wait_frame: "\<exists>d. io_wait bus st = st\<lparr>dev := d\<rparr> \<and> view d = vw st"
  by (auto simp: io_wait_def inb_def Let_def split: prod.splits) (metis delay_port snd_conv)

lemma poll_bsy_ok:
  "pio_busy (vw st) < t \<Longrightarrow>
   \<exists>d. poll_bsy bus t st = (0, st\<lparr>dev := d\<rparr>) \<and> view d = (vw st)\<lparr>pio_busy := 0\<rparr>"
proof (induction t arbitrary: st)
  case (Suc t)
  obtain s d where sd: "bus_inb bus 0x1F7 (dev st) = (s, d)" by (cases "bus_inb bus 0x1F7 (dev st)")
  have s: "s = pio_status (vw st)" and d: "view d = pio_tick (vw st)"
    using status_reg [of "dev st"] status_read [of "dev st"] sd by auto
  show ?case
  proof (cases "pio_busy (vw st) = 0")
    case True
    then have "s AND 0x80 = 0" by (simp add: s pio_status_def)
    with True show ?thesis by (auto simp: inb_def sd d pio_tick_def intro!: exI [of _ d])
  next
    case False
    then have busy: "s AND 0x80 \<noteq> 0" by (simp add: s pio_status_def)
    obtain d2 where d2: "io_wait bus (st\<lparr>dev := d\<rparr>) = st\<lparr>dev := d2\<rparr>" "view d2 = view d"
      using io_wait_frame [of "st\<lparr>dev := d\<rparr>"] by auto
    have "pio_busy (vw (st\<lparr>dev := d2\<rparr>)) < t" using Suc.prems False d d2 by (simp add: pio_tick_def)
    from Suc.IH [OF this] busy show ?thesis by (auto simp: inb_def sd d2 d pio_tick_def)
  qed
qed simp

lemma poll_drq_ok:
  "pio_busy (vw st) < t \<Longrightarrow> pio_xfer (vw st) \<noteq> Pio_idle \<Longrightarrow>
   \<exists>d. poll_drq bus t st = (0, st\<lparr>dev := d\<rparr>) \<and> view d = (vw st)\<lparr>pio_busy := 0\<rparr>"
proof (induction t arbitrary: st)
  case (Suc t)
  obtain s d where sd: "bus_inb bus 0x1F7 (dev st) = (s, d)" by (cases "bus_inb bus 0x1F7 (dev st)")
  have s: "s = pio_status (vw st)" and d: "view d = pio_tick (vw st)"
    using status_reg [of "dev st"] status_read [of "dev st"] sd by auto
  show ?case
  proof (cases "pio_busy (vw st) = 0")
    case True
    then have "s AND 0x01 = 0" "s AND 0x08 \<noteq> 0" using Suc.prems by (auto simp: s pio_status_def)
    with True show ?thesis by (auto simp: inb_def sd d pio_tick_def intro!: exI [of _ d])
  next
    case False
    then have busy: "s AND 0x01 = 0" "s AND 0x08 = 0" by (auto simp: s pio_status_def)
    obtain d2 where d2: "io_wait bus (st\<lparr>dev := d\<rparr>) = st\<lparr>dev := d2\<rparr>" "view d2 = view d"
      using io_wait_frame [of "st\<lparr>dev := d\<rparr>"] by auto
    have "pio_busy (vw (st\<lparr>dev := d2\<rparr>)) < t" "pio_xfer (vw (st\<lparr>dev := d2\<rparr>)) \<noteq> Pio_idle"
      using Suc.prems False d d2 by (auto simp: pio_tick_def)
    from Suc.IH [OF this] busy show ?thesis by (auto simp: inb_def sd d2 d pio_tick_def)
  qed
qed simp

lemma inw_loop_ok:
  "pio_xfer (vw st) = Pio_in ws \<Longrightarrow> ws \<noteq> [] \<Longrightarrow>
   \<exists>d. inw_loop bus (length ws) st = (ws, st\<lparr>dev := d\<rparr>) \<and> view d = (vw st)\<lparr>pio_xfer := Pio_idle\<rparr>"
proof (induction ws arbitrary: st)
  case (Cons w ws)
  obtain x d where xd: "bus_inw bus 0x1F0 (dev st) = (x, d)" by (cases "bus_inw bus 0x1F0 (dev st)")
  have x: "x = w" and d: "view d = (vw st)\<lparr>pio_xfer := (if ws = [] then Pio_idle else Pio_in ws)\<rparr>"
    using data_in [of "dev st"] data_in_next [of "dev st"] xd Cons.prems by (auto simp: pio_inw_def)
  show ?case
  proof (cases "ws = []")
    case True
    then show ?thesis using x d by (auto simp: inw_def xd intro!: exI [of _ d])
  next
    case False
    with Cons.IH [of "st\<lparr>dev := d\<rparr>"] x d show ?thesis by (auto simp: inw_def xd)
  qed
qed simp

lemma outw_loop_ok:
  "pio_xfer (vw st) = Pio_out l acc \<Longrightarrow> ws \<noteq> [] \<Longrightarrow> length acc + length ws = 256 \<Longrightarrow>
   \<exists>d. outw_loop bus ws st = st\<lparr>dev := d\<rparr> \<and>
       view d = (vw st)\<lparr>pio_xfer := Pio_idle, pio_sect := (pio_sect (vw st))(l := acc @ ws)\<rparr>"
proof (induction ws arbitrary: st acc)
  case (Cons w ws)
  define d where "d = bus_outw bus 0x1F0 w (dev st)"
  have d: "view d = pio_outw w (vw st)" by (simp add: d_def data_out)
  show ?case
  proof (cases "ws = []")
    case True
    then have "view d = (vw st)\<lparr>pio_xfer := Pio_idle, pio_sect := (pio_sect (vw st))(l := acc @ [w])\<rparr>"
      using d Cons.prems by (simp add: pio_outw_def)
    with True show ?thesis by (auto simp: outw_def fun_upd_def simp flip: d_def intro!: exI [of _ d])
  next
    case False
    then have v: "view d = (vw st)\<lparr>pio_xfer := Pio_out l (acc @ [w])\<rparr>"
      using d Cons.prems by (cases ws) (auto simp: pio_outw_def)
    have "length (acc @ [w]) + length ws = 256" using Cons.prems by simp
    from Cons.IH [of "st\<lparr>dev := d\<rparr>" "acc @ [w]", OF _ False this] v obtain d'
      where "outw_loop bus ws (st\<lparr>dev := d\<rparr>) = st\<lparr>dev := d'\<rparr>"
        "view d' = (vw st)\<lparr>pio_xfer := Pio_idle, pio_sect := (pio_sect (vw st))(l := acc @ w # ws)\<rparr>"
      by (auto simp: fun_upd_def)
    then show ?thesis by (auto simp: outw_def fun_upd_def simp flip: d_def)
  qed
qed simp

lemma ata_setup_view:
  assumes "unat lba < 2 ^ 28" and "c \<in> {0x20, 0x30}"
  shows "\<exists>d hd lo mid hi. ata_setup bus lba c st = st\<lparr>dev := d\<rparr> \<and>
    view d = (vw st)\<lparr>pio_head := hd, pio_lo := lo, pio_mid := mid, pio_hi := hi,
      pio_xfer := (if c = 0x20 then Pio_in (pio_sect (vw st) (unat lba)) else Pio_out (unat lba) []),
      pio_busy := pio_lat (vw st)\<rparr>"
proof -
  let ?h = "0xE0 OR (ucast (drop_bit 24 lba) AND 0x0F) :: u8"
  obtain d1 where d1: "io_wait bus (outb bus 0x1F6 ?h st) = st\<lparr>dev := d1\<rparr>"
      "view d1 = (vw st)\<lparr>pio_head := ?h\<rparr>"
    using io_wait_frame [of "outb bus 0x1F6 ?h st"] by (auto simp: outb_def task_file pio_outb_def)
  let ?v = "(vw st)\<lparr>pio_head := ?h, pio_lo := ucast lba, pio_mid := ucast (drop_bit 8 lba),
    pio_hi := ucast (drop_bit 16 lba)\<rparr>"
  have lba: "pio_lba ?v = unat lba" using lba_bytes [OF assms(1)] by (simp add: pio_lba_def head_nibble)
  define d where "d = bus_outb bus 0x1F7 c (bus_outb bus 0x1F5 (ucast (drop_bit 16 lba))
    (bus_outb bus 0x1F4 (ucast (drop_bit 8 lba)) (bus_outb bus 0x1F3 (ucast lba)
      (bus_outb bus 0x1F2 1 d1))))"
  have "ata_setup bus lba c st = st\<lparr>dev := d\<rparr>"
    unfolding ata_setup_def Let_def d1(1) by (simp add: outb_def d_def)
  moreover have "view d = pio_command c ?v"
    by (simp add: d_def task_file pio_outb_def d1)
  ultimately show ?thesis using assms(2) lba by (auto simp: pio_command_def intro!: exI)
qed

lemma ata_read_sector_ok:
  assumes ok: "ready st" and l: "unat lba < 2 ^ 28" and b: "length b = 512"
  shows "\<exists>d. ata_read_sector bus lba b st = (0, stored st (unat lba), st\<lparr>dev := d\<rparr>) \<and>
    ready (st\<lparr>dev := d\<rparr>) \<and> stored (st\<lparr>dev := d\<rparr>) = stored st"
proof -
  obtain d1 where d1: "ata_poll_bsy bus st = (0, st\<lparr>dev := d1\<rparr>)" "view d1 = (vw st)\<lparr>pio_busy := 0\<rparr>"
    using poll_bsy_ok [of st 1000000] ok by (auto simp: ata_poll_bsy_def drive_ready_def)
  obtain d2 hd lo mid hi where d2: "ata_setup bus lba 0x20 (st\<lparr>dev := d1\<rparr>) = st\<lparr>dev := d2\<rparr>"
      "view d2 = (vw st)\<lparr>pio_head := hd, pio_lo := lo, pio_mid := mid, pio_hi := hi,
        pio_xfer := Pio_in (pio_sect (vw st) (unat lba)), pio_busy := pio_lat (vw st)\<rparr>"
    using ata_setup_view [OF l, where c = "0x20" and st = "st\<lparr>dev := d1\<rparr>"] d1 by auto
  obtain d3 where d3: "ata_poll_drq bus (st\<lparr>dev := d2\<rparr>) = (0, st\<lparr>dev := d3\<rparr>)"
      "view d3 = (view d2)\<lparr>pio_busy := 0\<rparr>"
    using poll_drq_ok [of "st\<lparr>dev := d2\<rparr>" 1000000] ok d2 by (auto simp: ata_poll_drq_def drive_ready_def)
  have x3: "pio_xfer (vw (st\<lparr>dev := d3\<rparr>)) = Pio_in (pio_sect (vw st) (unat lba))" using d2 d3 by simp
  have len: "length (pio_sect (vw st) (unat lba)) = 256" using ok by (simp add: drive_ready_def)
  then have ne: "pio_sect (vw st) (unat lba) \<noteq> []" by auto
  obtain d4 where d4: "inw_loop bus 256 (st\<lparr>dev := d3\<rparr>) = (pio_sect (vw st) (unat lba), st\<lparr>dev := d4\<rparr>)"
      "view d4 = (view d3)\<lparr>pio_xfer := Pio_idle\<rparr>"
    using inw_loop_ok [OF x3 ne] len by auto
  have "blit b 0 (stored st (unat lba)) = stored st (unat lba)"
    by (subst blit_0) (simp_all add: b drive_sectors_def len)
  then have "ata_read_sector bus lba b st = (0, stored st (unat lba), st\<lparr>dev := d4\<rparr>)"
    using ok d1 d2 d3 d4 by (simp add: ata_read_sector_def drive_ready_def drive_sectors_def)
  moreover have "ready (st\<lparr>dev := d4\<rparr>)" "stored (st\<lparr>dev := d4\<rparr>) = stored st"
    using ok d2 d3 d4 by (auto simp: drive_ready_def drive_sectors_def fun_eq_iff)
  ultimately show ?thesis by blast
qed

lemma ata_write_sector_ok:
  assumes ok: "ready st" and l: "unat lba < 2 ^ 28" and b: "length b = 512"
  shows "\<exists>d. ata_write_sector bus lba b st = (0, st\<lparr>dev := d\<rparr>) \<and>
    ready (st\<lparr>dev := d\<rparr>) \<and> stored (st\<lparr>dev := d\<rparr>) = (stored st)(unat lba := b)"
proof -
  let ?ws = "words_of_bytes b"
  have ws: "length ?ws = 256" using b by (simp add: length_words_of_bytes)
  then have ne: "?ws \<noteq> []" by auto
  obtain d1 where d1: "ata_poll_bsy bus st = (0, st\<lparr>dev := d1\<rparr>)" "view d1 = (vw st)\<lparr>pio_busy := 0\<rparr>"
    using poll_bsy_ok [of st 1000000] ok by (auto simp: ata_poll_bsy_def drive_ready_def)
  obtain d2 hd lo mid hi where d2: "ata_setup bus lba 0x30 (st\<lparr>dev := d1\<rparr>) = st\<lparr>dev := d2\<rparr>"
      "view d2 = (vw st)\<lparr>pio_head := hd, pio_lo := lo, pio_mid := mid, pio_hi := hi,
        pio_xfer := Pio_out (unat lba) [], pio_busy := pio_lat (vw st)\<rparr>"
    using ata_setup_view [OF l, where c = "0x30" and st = "st\<lparr>dev := d1\<rparr>"] d1 by auto
  obtain d3 where d3: "ata_poll_drq bus (st\<lparr>dev := d2\<rparr>) = (0, st\<lparr>dev := d3\<rparr>)"
      "view d3 = (view d2)\<lparr>pio_busy := 0\<rparr>"
    using poll_drq_ok [of "st\<lparr>dev := d2\<rparr>" 1000000] ok d2 by (auto simp: ata_poll_drq_def drive_ready_def)
  have x3: "pio_xfer (vw (st\<lparr>dev := d3\<rparr>)) = Pio_out (unat lba) []" using d2 d3 by simp
  obtain d4 where d4: "outw_loop bus ?ws (st\<lparr>dev := d3\<rparr>) = st\<lparr>dev := d4\<rparr>"
      "view d4 = (view d3)\<lparr>pio_xfer := Pio_idle, pio_sect := (pio_sect (view d3))(unat lba := ?ws)\<rparr>"
    using outw_loop_ok [OF x3 ne] ws by auto
  let ?d5 = "bus_outb bus 0x1F7 0xE7 d4"
  have d5: "view ?d5 = (view d4)\<lparr>pio_xfer := Pio_idle, pio_busy := pio_lat (view d4)\<rparr>"
    by (simp add: task_file pio_outb_def pio_command_def)
  obtain d6 where d6: "ata_poll_bsy bus (st\<lparr>dev := ?d5\<rparr>) = (0, st\<lparr>dev := d6\<rparr>)"
      "view d6 = (view ?d5)\<lparr>pio_busy := 0\<rparr>"
    using poll_bsy_ok [of "st\<lparr>dev := ?d5\<rparr>" 1000000] ok d2 d3 d4 d5
    by (auto simp: ata_poll_bsy_def drive_ready_def)
  have v: "pio_xfer (view d6) = Pio_idle" "pio_busy (view d6) = 0" "pio_lat (view d6) = pio_lat (vw st)"
      "pio_sect (view d6) = (pio_sect (vw st))(unat lba := ?ws)"
    using d2 d3 d4 d5 d6 by auto
  have "ata_write_sector bus lba b st = (0, st\<lparr>dev := d6\<rparr>)"
    using ok d1 d2 d3 d4 d6 b by (simp add: ata_write_sector_def drive_ready_def outb_def)
  moreover have "ready (st\<lparr>dev := d6\<rparr>)" using ok v ws by (simp add: drive_ready_def)
  moreover have "stored (st\<lparr>dev := d6\<rparr>) = (stored st)(unat lba := b)"
    using v(4) b by (simp add: drive_sectors_def fun_eq_iff bytes_of_words_of_bytes)
  ultimately show ?thesis by blast
qed

end

context pio_drive
begin

lemma ata_init_ok:
  assumes lat: "pio_lat (vw st) < 1000000" and id: "length (pio_ident (vw st)) = 256"
    and sect: "\<forall>l. length (pio_sect (vw st) l) = 256"
  shows "\<exists>d. ata_init bus st = emit (''Initializing ATA...'' @ [NL] @
      ''ATA drive detected and initialized.'' @ [NL]) (st\<lparr>dev := d, ata_present := 1\<rparr>) \<and>
    ready (ata_init bus st) \<and> stored (ata_init bus st) = stored st"
proof -
  define st0 where "st0 = emit (''Initializing ATA...'' @ [NL]) st"
  have st0: "dev st0 = dev st" by (simp add: st0_def emit_def)
  obtain d1 where d1: "io_wait bus (outb bus 0x1F6 0xA0 st0) = st0\<lparr>dev := d1\<rparr>"
      "view d1 = (vw st)\<lparr>pio_head := 0xA0\<rparr>"
    using io_wait_frame [of "outb bus 0x1F6 0xA0 st0"] by (auto simp: outb_def task_file pio_outb_def st0)
  define d2 where "d2 = bus_outb bus 0x1F7 0xEC (bus_outb bus 0x1F5 0 (bus_outb bus 0x1F4 0
    (bus_outb bus 0x1F3 0 (bus_outb bus 0x1F2 0 d1))))"
  have d2: "view d2 = (vw st)\<lparr>pio_head := 0xA0, pio_lo := 0, pio_mid := 0, pio_hi := 0,
      pio_xfer := Pio_in (pio_ident (vw st)), pio_busy := pio_lat (vw st)\<rparr>"
    by (simp add: d2_def task_file pio_outb_def pio_command_def d1)
  obtain d3 where d3: "io_wait bus (st0\<lparr>dev := d2\<rparr>) = st0\<lparr>dev := d3\<rparr>" "view d3 = view d2"
    using io_wait_frame [of "st0\<lparr>dev := d2\<rparr>"] by auto
  obtain s d4 where d4: "bus_inb bus 0x1F7 d3 = (s, d4)" by (cases "bus_inb bus 0x1F7 d3")
  have s: "s \<noteq> 0 \<and> s \<noteq> 0xFF" and v4: "view d4 = pio_tick (view d2)"
    using status_reg [of d3] status_read [of d3] d4 d3 by (auto simp: pio_status_def)
  have b4: "pio_busy (vw (st0\<lparr>dev := d4\<rparr>)) < 1000000" using lat v4 d2 by (simp add: pio_tick_def)
  obtain d5 where d5: "ata_poll_bsy bus (st0\<lparr>dev := d4\<rparr>) = (0, st0\<lparr>dev := d5\<rparr>)"
      "view d5 = (view d2)\<lparr>pio_busy := 0\<rparr>"
    using poll_bsy_ok [OF b4] v4 by (auto simp: ata_poll_bsy_def pio_tick_def)
  obtain t d6 where d6: "bus_inb bus 0x1F7 d5 = (t, d6)" by (cases "bus_inb bus 0x1F7 d5")
  have t: "t AND 0x01 = 0" and v6: "view d6 = view d5"
    using status_reg [of d5] status_read [of d5] d6 d5 by (auto simp: pio_status_def pio_tick_def)
  obtain d7 where d7: "ata_poll_drq bus (st0\<lparr>dev := d6\<rparr>) = (0, st0\<lparr>dev := d7\<rparr>)"
      "view d7 = view d5"
    using poll_drq_ok [of "st0\<lparr>dev := d6\<rparr>" 1000000] v6 d5 d2 by (auto simp: ata_poll_drq_def)
  have x7: "pio_xfer (vw (st0\<lparr>dev := d7\<rparr>)) = Pio_in (pio_ident (vw st))" using d2 d5 d7 by simp
  have ne: "pio_ident (vw st) \<noteq> []" using id by auto
  obtain d8 where d8: "inw_loop bus 256 (st0\<lparr>dev := d7\<rparr>) = (pio_ident (vw st), st0\<lparr>dev := d8\<rparr>)"
      "view d8 = (view d7)\<lparr>pio_xfer := Pio_idle\<rparr>"
    using inw_loop_ok [OF x7 ne] id by auto
  have "ata_identify bus st0 = (0, st0\<lparr>dev := d8\<rparr>)"
    unfolding ata_identify_def Let_def d1(1)
    by (simp add: outb_def d3 inb_def d4 s d5 d6 t d7 d8 flip: d2_def)
  then have "ata_init bus st = emit (''ATA drive detected and initialized.'' @ [NL])
      (st0\<lparr>dev := d8, ata_present := 1\<rparr>)"
    unfolding ata_init_def Let_def st0_def [symmetric] by simp
  also have "\<dots> = emit (''Initializing ATA...'' @ [NL] @ ''ATA drive detected and initialized.'' @ [NL])
      (st\<lparr>dev := d8, ata_present := 1\<rparr>)"
    by (simp add: st0_def emit_def)
  finally have fin: "ata_init bus st = emit (''Initializing ATA...'' @ [NL] @
      ''ATA drive detected and initialized.'' @ [NL]) (st\<lparr>dev := d8, ata_present := 1\<rparr>)" .
  have "view d8 = (vw st)\<lparr>pio_head := 0xA0, pio_lo := 0, pio_mid := 0, pio_hi := 0,
      pio_xfer := Pio_idle, pio_busy := 0\<rparr>"
    using d2 d5 d7 d8 by simp
  with fin lat sect show ?thesis
    by (auto simp: drive_ready_def drive_sectors_def emit_def fun_eq_iff intro!: exI [of _ d8])
qed

end

text \<open>The driver over a PIO drive is a sector store, whatever the caller keeps beside the device.\<close>

sublocale pio_drive \<subseteq> ata: sector_store "drive_ready view" "drive_sectors view" "\<lambda>st. (out st, ata_present st, ata.more st)"
  "ata_read_sector bus" "ata_write_sector bus"
proof (unfold_locales, goal_cases)
  case (1 s k)
  then show ?case by (simp add: drive_ready_def drive_sectors_def)
next
  case (2 s l b)
  from ata_read_sector_ok [OF this] show ?case by force
next
  case (3 s l b)
  from ata_write_sector_ok [OF this] show ?case by force
qed

context pio_drive
begin

lemmas sector_roundtrip = ata.rd_after_wr

end

section \<open>Properties\<close>

definition blank_drive :: pio where
  "blank_drive = \<lparr>pio_head = 0, pio_lo = 0, pio_mid = 0, pio_hi = 0, pio_xfer = Pio_idle, pio_busy = 0,
     pio_lat = 3, pio_ident = replicate 256 0, pio_sect = \<lambda>_. replicate 256 0\<rparr>"

definition blank_ata :: "pio ata" where
  "blank_ata = \<lparr>out = [], dev = blank_drive, ata_present = 0\<rparr>"

lemma ready_after_init: "drive_ready (\<lambda>d. d) (ata_init pio_bus blank_ata)"
  using sim_drive.ata_init_ok [of blank_ata] by (auto simp: blank_ata_def blank_drive_def)

text \<open>
  C7. On every drive that follows the ATA PIO protocol, however long it stays busy within the
  driver's timeout, a sector written with \<^verbatim>\<open>ata_write_sector\<close> is what \<^verbatim>\<open>ata_read_sector\<close> reads back,
  every other sector reads as before, and both report success.
\<close>

theorem ata_sector_roundtrip:
  assumes "pio_drive bus view" and "drive_ready view st"
    and "unat l < 2 ^ 28" and "unat k < 2 ^ 28" and "length b = 512" and "length c = 512"
  shows "\<exists>st' st''. ata_write_sector bus l b st = (0, st') \<and>
    ata_read_sector bus k c st' = (0, if k = l then b else drive_sectors view st (unat k), st'') \<and>
    drive_ready view st''"
  using pio_drive.sector_roundtrip [OF assms] by blast

theorem ata_sector_roundtrip_witness:
  "\<exists>st' st''. ata_write_sector pio_bus 200 (replicate 512 7) (ata_init pio_bus blank_ata) = (0, st') \<and>
    ata_read_sector pio_bus 200 (replicate 512 0) st' = (0, replicate 512 7, st'')"
  using ata_sector_roundtrip [OF sim_drive.pio_drive_axioms ready_after_init,
      of 200 200 "replicate 512 7" "replicate 512 0"] by auto

end
