(* ===== verification/Diskfs.thy ===== *)
theory Diskfs
  imports Ata
begin

text \<open>
  The file system of \<^verbatim>\<open>src/diskfs.c\<close> and its facade \<^verbatim>\<open>src/fs.c\<close>: a table of 64 file slots in RAM that
  is written to the ATA drive as a whole after every change. The state extends the ATA driver's
  with the table \<^verbatim>\<open>files\<close> and \<^verbatim>\<open>current_dir\<close>. Accesses that leave an array of the C program are the
  fault \<open>OutOfBounds\<close>.
\<close>

section \<open>Data\<close>

definition MAX_FILES :: nat where "MAX_FILES = 64"
definition MAX_FILE_SIZE :: nat where "MAX_FILE_SIZE = 8192"
definition MAX_FILENAME :: nat where "MAX_FILENAME = 32"
definition FS_MAGIC :: int where "FS_MAGIC = 0x464C5354"
definition FS_VERSION :: int where "FS_VERSION = 1"
definition FS_START_LBA :: nat where "FS_START_LBA = 200"

lemmas fs_consts = MAX_FILES_def MAX_FILE_SIZE_def MAX_FILENAME_def FS_MAGIC_def FS_VERSION_def
  FS_START_LBA_def

record dfile =
  fname :: "char list"
  fdata :: "char list"
  fsize :: int
  fused :: int
  fis_dir :: int
  fparent :: int

record 'd fsys = "'d ata" +
  files :: "dfile list"
  current_dir :: int

record fentry =
  ename :: "char list"
  eis_dir :: int
  esize :: int

section \<open>Looking up slots\<close>

text \<open>The inner loop of \<^verbatim>\<open>find_file\<close>, from index \<open>j\<close> with \<open>k\<close> characters to go.\<close>

fun name_match :: "string \<Rightarrow> char list \<Rightarrow> nat \<Rightarrow> nat \<Rightarrow> bool" where
  "name_match name nm j 0 = True"
| "name_match name nm j (Suc k) =
     (if cstr_at name j \<noteq> nm ! j then False
      else if cstr_at name j = NUL \<and> nm ! j = NUL then True
      else name_match name nm (Suc j) k)"

fun find_from :: "string \<Rightarrow> int \<Rightarrow> int \<Rightarrow> dfile list \<Rightarrow> int" where
  "find_from name parent i [] = - 1"
| "find_from name parent i (f # fs) =
     (if tt (fused f) \<and> fparent f = parent \<and> name_match name (fname f) 0 MAX_FILENAME then i
      else find_from name parent (i + 1) fs)"

definition find_file :: "string \<Rightarrow> int \<Rightarrow> ('d, 'a) fsys_scheme \<Rightarrow> int" where
  "find_file name parent st = find_from name parent 0 (files st)"

fun free_from :: "int \<Rightarrow> dfile list \<Rightarrow> int" where
  "free_from i [] = - 1"
| "free_from i (f # fs) = (if \<not> tt (fused f) then i else free_from (i + 1) fs)"

definition find_free :: "('d, 'a) fsys_scheme \<Rightarrow> int" where
  "find_free st = free_from 0 (files st)"

section \<open>The table as raw bytes\<close>

definition le32 :: "int \<Rightarrow> u8 list" where
  "le32 x = [of_int x, of_int (x div 256), of_int (x div 65536), of_int (x div 16777216)]"

definition rd_le32 :: "u8 list \<Rightarrow> int" where
  "rd_le32 b = swrap (uint (b ! 0) + 256 * uint (b ! 1) + 65536 * uint (b ! 2) + 16777216 * uint (b ! 3))"

text \<open>The memory layout of one \<^verbatim>\<open>File\<close>: 32 + 8192 + 4 * 4 = 8240 bytes, and of the whole array.\<close>

definition file_bytes :: "dfile \<Rightarrow> u8 list" where
  "file_bytes f = map byte_of_char (fname f) @ map byte_of_char (fdata f) @
     le32 (fsize f) @ le32 (fused f) @ le32 (fis_dir f) @ le32 (fparent f)"

definition file_of_bytes :: "u8 list \<Rightarrow> dfile" where
  "file_of_bytes b = \<lparr>fname = map char_of_byte (take 32 b), fdata = map char_of_byte (take 8192 (drop 32 b)),
     fsize = rd_le32 (drop 8224 b), fused = rd_le32 (drop 8228 b),
     fis_dir = rd_le32 (drop 8232 b), fparent = rd_le32 (drop 8236 b)\<rparr>"

definition raw_of :: "dfile list \<Rightarrow> u8 list" where
  "raw_of fs = concat (map file_bytes fs)"

fun files_of :: "nat \<Rightarrow> u8 list \<Rightarrow> dfile list" where
  "files_of 0 raw = []"
| "files_of (Suc n) raw = file_of_bytes (take 8240 raw) # files_of n (drop 8240 raw)"

definition superblock :: "u8 list" where
  "superblock = le32 FS_MAGIC @ le32 FS_VERSION @ replicate 504 0"

section \<open>Saving and loading\<close>

text \<open>Sector \<open>i\<close> of the raw table, padded with zeros.\<close>

definition sector_of :: "u8 list \<Rightarrow> nat \<Rightarrow> u8 list" where
  "sector_of raw i = map (\<lambda>j. let idx = i * 512 + j in if idx < length raw then raw ! idx else 0) [0..<512]"

definition total_sectors :: "u8 list \<Rightarrow> nat" where
  "total_sectors raw = (length raw + 511) div 512"

text \<open>The two transfer loops, over the sector functions of the driver.\<close>

fun save_loop :: "(u32 \<Rightarrow> u8 list \<Rightarrow> 's \<Rightarrow> int \<times> 's) \<Rightarrow> u8 list \<Rightarrow> nat \<Rightarrow> nat \<Rightarrow> 's \<Rightarrow> bool \<times> 's" where
  "save_loop wr raw i 0 st = (True, st)"
| "save_loop wr raw i (Suc k) st =
     (let (r, st) = wr (of_nat (FS_START_LBA + 1 + i)) (sector_of raw i) st in
      if r \<noteq> 0 then (False, st) else save_loop wr raw (Suc i) k st)"

fun load_loop :: "(u32 \<Rightarrow> u8 list \<Rightarrow> 's \<Rightarrow> int \<times> u8 list \<times> 's) \<Rightarrow> u8 list \<Rightarrow> u8 list \<Rightarrow> nat \<Rightarrow> nat \<Rightarrow> 's
    \<Rightarrow> bool \<times> u8 list \<times> 's" where
  "load_loop rd sector raw i 0 st = (True, raw, st)"
| "load_loop rd sector raw i (Suc k) st =
     (let (r, sector, st) = rd (of_nat (FS_START_LBA + 1 + i)) sector st in
      if r \<noteq> 0 then (False, raw, st)
      else load_loop rd sector (blit raw (i * 512) (take (length raw - i * 512) sector)) (Suc i) k st)"

definition diskfs_save :: "'d bus \<Rightarrow> ('d, 'a) fsys_scheme \<Rightarrow> ('d, 'a) fsys_scheme" where
  "diskfs_save bus st =
     (if ata_drive_present st = 0 then st
      else let (r, st) = ata_write_sector bus (of_nat FS_START_LBA) superblock st in
        if r \<noteq> 0 then emit (''FS save: superblock write failed'' @ [NL]) st
        else let raw = raw_of (files st);
                 (done, st) = save_loop (ata_write_sector bus) raw 0 (total_sectors raw) st
          in if done then emit (''Filesystem saved.'' @ [NL]) st
             else emit (''FS save: data write failed'' @ [NL]) st)"

text \<open>
  \<^verbatim>\<open>diskfs_load\<close> overwrites the table as it goes, also when it gives up half way. The local
  \<^verbatim>\<open>sector\<close> is uninitialised in C; it is read only after a transfer has filled it.
\<close>

definition diskfs_load :: "'d bus \<Rightarrow> ('d, 'a) fsys_scheme \<Rightarrow> int \<times> ('d, 'a) fsys_scheme" where
  "diskfs_load bus st =
     (let (r, sector, st) = ata_read_sector bus (of_nat FS_START_LBA) (replicate 512 0) st in
      if r \<noteq> 0 then (0, st)
      else if rd_le32 (take 4 sector) \<noteq> FS_MAGIC \<or> rd_le32 (take 4 (drop 4 sector)) \<noteq> FS_VERSION then (0, st)
      else let raw = raw_of (files st);
               (done, raw, st) = load_loop (ata_read_sector bus) sector raw 0 (total_sectors raw) st;
               st = st\<lparr>files := files_of (length (files st)) raw\<rparr>
        in (if done then 1 else 0, st))"

definition fresh_slot :: "dfile \<Rightarrow> dfile" where
  "fresh_slot f = f\<lparr>fused := 0, fsize := 0, fname := (fname f)[0 := NUL], fis_dir := 0, fparent := - 1\<rparr>"

definition diskfs_init :: "'d bus \<Rightarrow> ('d, 'a) fsys_scheme \<Rightarrow> ('d, 'a) fsys_scheme" where
  "diskfs_init bus st =
     (let st = emit (''Initializing filesystem...'' @ [NL]) st;
          (loaded, st) = (if tt (ata_drive_present st) then diskfs_load bus st else (0, st))
      in if tt loaded then emit (''Loaded filesystem from disk.'' @ [NL]) st
         else let fs = map fresh_slot (files st);
                  root = (fs ! 0)\<lparr>fused := 1, fis_dir := 1, fparent := - 1,
                          fname := (fname (fs ! 0))[0 := CHR ''/'', 1 := NUL]\<rparr>;
                  st = st\<lparr>files := fs[0 := root], current_dir := 0\<rparr>
           in if tt (ata_drive_present st)
              then diskfs_save bus (emit (''Fresh filesystem, saving to disk.'' @ [NL]) st)
              else emit (''No disk, using RAM only.'' @ [NL]) st)"

section \<open>Files and directories\<close>

text \<open>
  The copy loop of \<^verbatim>\<open>diskfs_create\<close> and \<^verbatim>\<open>diskfs_mkdir\<close> stops at the end of the name without
  writing a terminator there; only the last element of the array is cleared.
\<close>

definition set_name :: "string \<Rightarrow> char list \<Rightarrow> char list" where
  "set_name name nm = (blit nm 0 (take (MAX_FILENAME - 1) name))[MAX_FILENAME - 1 := NUL]"

definition new_slot :: "string \<Rightarrow> int \<Rightarrow> int \<Rightarrow> dfile \<Rightarrow> dfile" where
  "new_slot name is_dir parent f =
     f\<lparr>fname := set_name name (fname f), fused := 1, fis_dir := is_dir, fparent := parent, fsize := 0\<rparr>"

definition diskfs_create :: "'d bus \<Rightarrow> string \<Rightarrow> ('d, 'a) fsys_scheme \<Rightarrow> int \<times> ('d, 'a) fsys_scheme" where
  "diskfs_create bus name st =
     (if find_file name (current_dir st) st \<noteq> - 1 then (- 1, emit (''File already exists'' @ [NL]) st)
      else let slot = find_free st in
        if slot = - 1 then (- 1, emit (''No free slots'' @ [NL]) st)
        else let st = st\<lparr>files := (files st)[nat slot := new_slot name 0 (current_dir st) (files st ! nat slot)]\<rparr>;
                 st = emit (''Created: '' @ name @ [NL]) st
          in (0, diskfs_save bus st))"

definition write_slot :: "'d bus \<Rightarrow> int \<Rightarrow> char list \<Rightarrow> int \<Rightarrow> ('d, 'a) fsys_scheme \<Rightarrow>
    (int \<times> ('d, 'a) fsys_scheme) result" where
  "write_slot bus idx data sz st =
     (if sz > int MAX_FILE_SIZE then Inr (- 1, emit (''File too large'' @ [NL]) st)
      else if idx < 0 \<or> int (length (files st)) \<le> idx \<or> int (length data) < sz then Inl OutOfBounds
      else let f = files st ! nat idx;
               f = f\<lparr>fdata := blit (fdata f) 0 (take (nat sz) data), fsize := sz\<rparr>;
               st = st\<lparr>files := (files st)[nat idx := f]\<rparr>
        in bind_result (print_int_static sz (emit ''Written '' st)) (\<lambda>st.
             Inr (0, diskfs_save bus (emit ('' bytes'' @ [NL]) st))))"

definition diskfs_write :: "'d bus \<Rightarrow> string \<Rightarrow> char list \<Rightarrow> int \<Rightarrow> ('d, 'a) fsys_scheme \<Rightarrow>
    (int \<times> ('d, 'a) fsys_scheme) result" where
  "diskfs_write bus name data sz st =
     (let idx = find_file name (current_dir st) st in
      if idx = - 1
      then let (r, st) = diskfs_create bus name st in
        if r \<noteq> 0 then Inr (- 1, st)
        else write_slot bus (find_file name (current_dir st) st) data sz st
      else write_slot bus idx data sz st)"

definition diskfs_read :: "string \<Rightarrow> char list \<Rightarrow> int \<Rightarrow> ('d, 'a) fsys_scheme \<Rightarrow>
    (int \<times> char list \<times> ('d, 'a) fsys_scheme) result" where
  "diskfs_read name buffer sz st =
     (let idx = find_file name (current_dir st) st in
      if idx = - 1 then Inr (- 1, buffer, emit (''File not found'' @ [NL]) st)
      else let f = files st ! nat idx;
               read_size = (if sz < fsize f then sz else fsize f)
        in if int (length buffer) < read_size \<or> int (length (fdata f)) < read_size then Inl OutOfBounds
           else Inr (read_size, blit buffer 0 (take (nat read_size) (fdata f)), st))"

fun list_from :: "int \<Rightarrow> dfile list \<Rightarrow> int \<Rightarrow> ('d, 'a) fsys_scheme \<Rightarrow> (int \<times> ('d, 'a) fsys_scheme) result" where
  "list_from cur [] found st = Inr (found, st)"
| "list_from cur (f # fs) found st =
     (if tt (fused f) \<and> fparent f = cur
      then if NUL \<notin> set (fname f) then Inl OutOfBounds
        else let st = emit ((if tt (fis_dir f) then ''  [DIR]  '' else ''  [FILE] '') @ cstr (fname f)) st in
        bind_result
          (if \<not> tt (fis_dir f)
           then bind_result (print_int_static (fsize f) (emit '' ('' st)) (\<lambda>st. Inr (emit '' bytes)'' st))
           else Inr st)
          (\<lambda>st. list_from cur fs 1 (emit [NL] st))
      else list_from cur fs found st)"

definition diskfs_list :: "string \<Rightarrow> ('d, 'a) fsys_scheme \<Rightarrow> ('d, 'a) fsys_scheme result" where
  "diskfs_list path st =
     bind_result (list_from (current_dir st) (files st) 0 st) (\<lambda>(found, st).
       Inr (if \<not> tt found then emit (''  (empty)'' @ [NL]) st else st))"

definition diskfs_delete :: "'d bus \<Rightarrow> string \<Rightarrow> ('d, 'a) fsys_scheme \<Rightarrow> int \<times> ('d, 'a) fsys_scheme" where
  "diskfs_delete bus name st =
     (let idx = find_file name (current_dir st) st in
      if idx = - 1 then (- 1, emit (''File not found'' @ [NL]) st)
      else let st = st\<lparr>files := (files st)[nat idx := (files st ! nat idx)\<lparr>fused := 0\<rparr>]\<rparr>;
               st = emit (''Deleted: '' @ name @ [NL]) st
        in (0, diskfs_save bus st))"

definition diskfs_mkdir :: "'d bus \<Rightarrow> string \<Rightarrow> ('d, 'a) fsys_scheme \<Rightarrow> int \<times> ('d, 'a) fsys_scheme" where
  "diskfs_mkdir bus name st =
     (if find_file name (current_dir st) st \<noteq> - 1 then (- 1, emit (''Directory already exists'' @ [NL]) st)
      else let slot = find_free st in
        if slot = - 1 then (- 1, st)
        else let st = st\<lparr>files := (files st)[nat slot := new_slot name 1 (current_dir st) (files st ! nat slot)]\<rparr>;
                 st = emit (''Directory created: '' @ name @ [NL]) st
          in (0, diskfs_save bus st))"

definition diskfs_cd :: "string \<Rightarrow> ('d, 'a) fsys_scheme \<Rightarrow> (int \<times> ('d, 'a) fsys_scheme) result" where
  "diskfs_cd path st =
     (if cstr_at path 0 = CHR ''/'' \<and> cstr_at path 1 = NUL then Inr (0, st\<lparr>current_dir := 0\<rparr>)
      else if cstr_at path 0 = CHR ''.'' \<and> cstr_at path 1 = CHR ''.'' \<and> cstr_at path 2 = NUL
      then (if current_dir st = 0 then Inr (0, st)
            else if current_dir st < 0 \<or> int (length (files st)) \<le> current_dir st then Inl OutOfBounds
            else let parent = fparent (files st ! nat (current_dir st)) in
              if parent \<ge> 0 then Inr (0, st\<lparr>current_dir := parent\<rparr>) else Inr (- 1, st))
      else let idx = find_file path (current_dir st) st in
        if idx \<noteq> - 1 \<and> tt (fis_dir (files st ! nat idx)) then Inr (0, st\<lparr>current_dir := idx\<rparr>)
        else Inr (- 1, emit (''Directory not found'' @ [NL]) st))"

definition diskfs_pwd :: "('d, 'a) fsys_scheme \<Rightarrow> ('d, 'a) fsys_scheme" where
  "diskfs_pwd st = emit (''/'' @ [NL]) st"

definition diskfs_exists :: "string \<Rightarrow> ('d, 'a) fsys_scheme \<Rightarrow> int" where
  "diskfs_exists name st = yn (find_file name (current_dir st) st \<noteq> - 1)"

definition diskfs_load_program :: "string \<Rightarrow> char list \<Rightarrow> int \<Rightarrow> ('d, 'a) fsys_scheme \<Rightarrow>
    (int \<times> char list \<times> ('d, 'a) fsys_scheme) result" where
  "diskfs_load_program name buffer max_size st = diskfs_read name buffer max_size st"

fun entries_from :: "int \<Rightarrow> dfile list \<Rightarrow> int \<Rightarrow> nat \<Rightarrow> fentry list \<Rightarrow> (nat \<times> fentry list) result" where
  "entries_from cur [] mx count ents = Inr (count, ents)"
| "entries_from cur (f # fs) mx count ents =
     (if \<not> int count < mx then Inr (count, ents)
      else if tt (fused f) \<and> fparent f = cur
      then (if length ents \<le> count then Inl OutOfBounds
            else entries_from cur fs mx (Suc count)
              (ents[count := \<lparr>ename = fname f, eis_dir = fis_dir f, esize = fsize f\<rparr>]))
      else entries_from cur fs mx count ents)"

definition diskfs_get_entries :: "fentry list \<Rightarrow> int \<Rightarrow> ('d, 'a) fsys_scheme \<Rightarrow> (nat \<times> fentry list) result" where
  "diskfs_get_entries ents mx st = entries_from (current_dir st) (files st) mx 0 ents"

fun debug_from :: "int \<Rightarrow> dfile list \<Rightarrow> ('d, 'a) fsys_scheme \<Rightarrow> ('d, 'a) fsys_scheme result" where
  "debug_from i [] st = Inr st"
| "debug_from i (f # fs) st =
     (if tt (fused f)
      then bind_result (print_int_static i (emit ''Slot '' st)) (\<lambda>st.
           bind_result (print_int_static (fparent f)
             (emit ('': '' @ (if tt (fis_dir f) then ''[DIR] '' else ''[FILE] '') @ cstr (fname f) @ '' parent='') st)) (\<lambda>st.
           bind_result (if \<not> tt (fis_dir f) then print_int_static (fsize f) (emit '' size='' st) else Inr st) (\<lambda>st.
           debug_from (i + 1) fs (emit [NL] st))))
      else debug_from (i + 1) fs st)"

definition diskfs_debug :: "('d, 'a) fsys_scheme \<Rightarrow> ('d, 'a) fsys_scheme result" where
  "diskfs_debug st =
     debug_from 0 (files st)
       (emit ([NL] @ ''=== Filesystem Debug ==='' @ [NL] @ ''ATA present: '' @
          (if tt (ata_drive_present st) then ''yes'' else ''no'') @ [NL]) st)"

section \<open>The facade fs.c\<close>

definition fs_init :: "'d bus \<Rightarrow> ('d, 'a) fsys_scheme \<Rightarrow> ('d, 'a) fsys_scheme" where
  "fs_init bus st = diskfs_init bus st"

definition fs_create :: "'d bus \<Rightarrow> string \<Rightarrow> ('d, 'a) fsys_scheme \<Rightarrow> int \<times> ('d, 'a) fsys_scheme" where
  "fs_create bus name st = diskfs_create bus name st"

definition fs_mkdir :: "'d bus \<Rightarrow> string \<Rightarrow> ('d, 'a) fsys_scheme \<Rightarrow> int \<times> ('d, 'a) fsys_scheme" where
  "fs_mkdir bus name st = diskfs_mkdir bus name st"

definition fs_write :: "'d bus \<Rightarrow> string \<Rightarrow> char list \<Rightarrow> int \<Rightarrow> ('d, 'a) fsys_scheme \<Rightarrow>
    (int \<times> ('d, 'a) fsys_scheme) result" where
  "fs_write bus name data sz st = diskfs_write bus name data sz st"

definition fs_read :: "string \<Rightarrow> char list \<Rightarrow> int \<Rightarrow> ('d, 'a) fsys_scheme \<Rightarrow>
    (int \<times> char list \<times> ('d, 'a) fsys_scheme) result" where
  "fs_read name buffer sz st = diskfs_read name buffer sz st"

definition fs_list :: "string \<Rightarrow> ('d, 'a) fsys_scheme \<Rightarrow> ('d, 'a) fsys_scheme result" where
  "fs_list path st = diskfs_list path st"

definition fs_delete :: "'d bus \<Rightarrow> string \<Rightarrow> ('d, 'a) fsys_scheme \<Rightarrow> int \<times> ('d, 'a) fsys_scheme" where
  "fs_delete bus name st = diskfs_delete bus name st"

definition fs_cd :: "string \<Rightarrow> ('d, 'a) fsys_scheme \<Rightarrow> (int \<times> ('d, 'a) fsys_scheme) result" where
  "fs_cd path st = diskfs_cd path st"

definition fs_pwd :: "('d, 'a) fsys_scheme \<Rightarrow> ('d, 'a) fsys_scheme" where
  "fs_pwd st = diskfs_pwd st"

definition fs_exists :: "string \<Rightarrow> ('d, 'a) fsys_scheme \<Rightarrow> int" where
  "fs_exists name st = diskfs_exists name st"

definition fs_load_program :: "string \<Rightarrow> char list \<Rightarrow> int \<Rightarrow> ('d, 'a) fsys_scheme \<Rightarrow>
    (int \<times> char list \<times> ('d, 'a) fsys_scheme) result" where
  "fs_load_program name buffer max_size st = diskfs_load_program name buffer max_size st"

definition fs_debug :: "('d, 'a) fsys_scheme \<Rightarrow> ('d, 'a) fsys_scheme result" where
  "fs_debug st = diskfs_debug st"

fun strcmp_fs :: "string \<Rightarrow> string \<Rightarrow> int" where
  "strcmp_fs (a # as) (b # bs) =
     (if a \<noteq> NUL \<and> b \<noteq> NUL \<and> a = b then strcmp_fs as bs else schar a - schar b)"
| "strcmp_fs [] bs = schar NUL - schar (cstr_at bs 0)"
| "strcmp_fs (a # as) [] = schar a - schar NUL"

lemmas fs_defs = fs_init_def fs_create_def fs_mkdir_def fs_write_def fs_read_def fs_list_def
  fs_delete_def fs_cd_def fs_pwd_def fs_exists_def fs_load_program_def fs_debug_def

end
