(* ===== verification/Diskfs_Persist.thy ===== *)
theory Diskfs_Persist
  imports Diskfs
begin

text \<open>
  Persistence of the file system: the byte image of the file table loses nothing, the save loop
  puts it on the drive and the load loop brings back exactly the table that was saved, over any
  sector store, hence over the ATA driver on any drive that follows the PIO protocol.
\<close>

section \<open>The byte image of the table\<close>

definition slot_ok :: "dfile \<Rightarrow> bool" where
  "slot_ok f \<longleftrightarrow> length (fname f) = 32 \<and> length (fdata f) = 8192 \<and>
     is_int32 (fsize f) \<and> is_int32 (fused f) \<and> is_int32 (fis_dir f) \<and> is_int32 (fparent f)"

definition table_ok :: "dfile list \<Rightarrow> bool" where
  "table_ok fs \<longleftrightarrow> length fs = MAX_FILES \<and> list_all slot_ok fs"

lemma length_le32 [simp]: "length (le32 x) = 4"
  by (simp add: le32_def)

lemma rd_le32_le32: "is_int32 x \<Longrightarrow> rd_le32 (le32 x @ rest) = x"
proof -
  assume x: "is_int32 x"
  have u: "uint (of_int y :: u8) = y mod 256" for y by (simp add: uint_word_of_int take_bit_eq_mod)
  have "rd_le32 (le32 x @ rest) = swrap (x mod 256 + 256 * (x div 256 mod 256)
      + 65536 * (x div 65536 mod 256) + 16777216 * (x div 16777216 mod 256))"
    unfolding rd_le32_def le32_def append_Cons nth_Cons_0 nth_Cons_numeral u
    by (simp add: nth_Cons' u)
  also have "x mod 256 + 256 * (x div 256 mod 256) + 65536 * (x div 65536 mod 256)
      + 16777216 * (x div 16777216 mod 256) = x mod (256 * (256 * (256 * 256)))"
    by (simp only: zmod_zmult2_eq zdiv_zmult2_eq [symmetric]) simp
  also have "swrap (x mod (256 * (256 * (256 * 256)))) = swrap x"
    by (simp add: swrap_def mod_add_left_eq)
  finally show ?thesis using x by simp
qed

lemma length_file_bytes: "slot_ok f \<Longrightarrow> length (file_bytes f) = 8240"
  by (simp add: slot_ok_def file_bytes_def)

lemma file_of_file_bytes: "slot_ok f \<Longrightarrow> file_of_bytes (file_bytes f) = f"
proof -
  assume f: "slot_ok f"
  let ?n = "map byte_of_char (fname f)" and ?d = "map byte_of_char (fdata f)"
  have len: "length ?n = 32" "length ?d = 8192" using f by (simp_all add: slot_ok_def)
  have b: "file_bytes f = ?n @ ?d @ le32 (fsize f) @ le32 (fused f) @ le32 (fis_dir f) @ le32 (fparent f) @ []"
    by (simp add: file_bytes_def)
  have "map char_of_byte ?n = fname f" "map char_of_byte ?d = fdata f"
    by (simp_all add: map_idI)
  with f show ?thesis unfolding b
    by (simp add: file_of_bytes_def len slot_ok_def rd_le32_le32 rd_le32_le32 [of _ "[]", simplified])
qed

lemma files_of_raw_of: "list_all slot_ok fs \<Longrightarrow> files_of (length fs) (raw_of fs) = fs"
  by (induction fs) (simp_all add: raw_of_def length_file_bytes file_of_file_bytes)

lemma length_raw_of: "list_all slot_ok fs \<Longrightarrow> length (raw_of fs) = 8240 * length fs"
  by (induction fs) (simp_all add: raw_of_def length_file_bytes)

lemma length_sector_of [simp]: "length (sector_of raw i) = 512"
  by (simp add: sector_of_def)

lemma length_superblock [simp]: "length superblock = 512"
  by (simp add: superblock_def)

lemma superblock_magic:
  "rd_le32 (take 4 superblock) = FS_MAGIC" "rd_le32 (take 4 (drop 4 superblock)) = FS_VERSION"
  using rd_le32_le32 [of FS_MAGIC "[]"] rd_le32_le32 [of FS_VERSION "[]"]
  by (simp_all add: superblock_def fs_consts is_int32_def)

lemma unat_of_nat_u32: "n < 2 ^ 32 \<Longrightarrow> unat (of_nat n :: u32) = n"
  by (simp add: unat_of_nat)

text \<open>One step of the load loop extends the part of the table that is already right.\<close>

lemma blit_sector:
  assumes len: "length raw = length raw0" and pre: "take (i * 512) raw = take (i * 512) raw0"
  shows "take (Suc i * 512) (blit raw (i * 512) (take (length raw - i * 512) (sector_of raw0 i))) =
    take (Suc i * 512) raw0"
proof (rule nth_equalityI)
  fix k
  assume "k < length (take (Suc i * 512) (blit raw (i * 512) (take (length raw - i * 512) (sector_of raw0 i))))"
  then have k: "k < length raw0" "k < i * 512 + 512" using len by auto
  show "take (Suc i * 512) (blit raw (i * 512) (take (length raw - i * 512) (sector_of raw0 i))) ! k =
      take (Suc i * 512) raw0 ! k"
  proof (cases "k < i * 512")
    case True
    then have "raw ! k = raw0 ! k" using pre by (metis nth_take)
    with True k len show ?thesis by (simp add: nth_blit)
  next
    case False
    with k len show ?thesis by (auto simp: nth_blit sector_of_def Let_def min_def)
  qed
qed (simp add: len)

section \<open>The transfer loops over a sector store\<close>

context sector_store
begin

lemma save_loop_ok:
  "ok s \<Longrightarrow> i + k < 100000 \<Longrightarrow>
   \<exists>s'. save_loop wr raw i k s = (True, s') \<and> ok s' \<and> rest s' = rest s \<and>
     (\<forall>l. sect s' l = (if FS_START_LBA + 1 + i \<le> l \<and> l < FS_START_LBA + 1 + i + k
                        then sector_of raw (l - (FS_START_LBA + 1)) else sect s l))"
proof (induction k arbitrary: i s)
  case (Suc k)
  have u: "unat (of_nat (FS_START_LBA + 1 + i) :: u32) = FS_START_LBA + 1 + i"
    by (rule unat_of_nat_u32) (use Suc.prems in \<open>simp add: fs_consts\<close>)
  have small: "unat (of_nat (FS_START_LBA + 1 + i) :: u32) < 2 ^ 28"
    unfolding u using Suc.prems by (simp add: fs_consts)
  obtain s1 where s1: "wr (of_nat (FS_START_LBA + 1 + i)) (sector_of raw i) s = (0, s1)" "ok s1"
      "sect s1 = (sect s)(FS_START_LBA + 1 + i := sector_of raw i)" "rest s1 = rest s"
    using wr_ok [OF Suc.prems(1) small length_sector_of] unfolding u by blast
  have "Suc i + k < 100000" using Suc.prems by simp
  from Suc.IH [OF s1(2) this] obtain s2 where s2: "save_loop wr raw (Suc i) k s1 = (True, s2)" "ok s2"
      "rest s2 = rest s1" "\<forall>l. sect s2 l = (if FS_START_LBA + 1 + Suc i \<le> l \<and> l < FS_START_LBA + 1 + Suc i + k
                        then sector_of raw (l - (FS_START_LBA + 1)) else sect s1 l)" by blast
  have "save_loop wr raw i (Suc k) s = (True, s2)" using s1(1) s2(1) by simp
  then show ?case using s1 s2 by (auto simp: fs_consts)
qed auto

lemma load_loop_ok:
  "ok s \<Longrightarrow> i + k < 100000 \<Longrightarrow> length sector = 512 \<Longrightarrow> length raw = length raw0 \<Longrightarrow>
   take (i * 512) raw = take (i * 512) raw0 \<Longrightarrow> length raw0 \<le> (i + k) * 512 \<Longrightarrow>
   (\<And>j. i \<le> j \<Longrightarrow> j < i + k \<Longrightarrow> sect s (FS_START_LBA + 1 + j) = sector_of raw0 j) \<Longrightarrow>
   \<exists>s'. load_loop rd sector raw i k s = (True, raw0, s') \<and> ok s' \<and> rest s' = rest s \<and> sect s' = sect s"
proof (induction k arbitrary: i s raw sector)
  case (Suc k)
  have u: "unat (of_nat (FS_START_LBA + 1 + i) :: u32) = FS_START_LBA + 1 + i"
    by (rule unat_of_nat_u32) (use Suc.prems in \<open>simp add: fs_consts\<close>)
  have small: "unat (of_nat (FS_START_LBA + 1 + i) :: u32) < 2 ^ 28"
    unfolding u using Suc.prems by (simp add: fs_consts)
  have sec: "sect s (FS_START_LBA + 1 + i) = sector_of raw0 i" using Suc.prems by simp
  obtain s1 where s1: "rd (of_nat (FS_START_LBA + 1 + i)) sector s = (0, sector_of raw0 i, s1)" "ok s1"
      "sect s1 = sect s" "rest s1 = rest s"
    using rd_ok [OF Suc.prems(1) small Suc.prems(3)] unfolding u sec by blast
  let ?raw = "blit raw (i * 512) (take (length raw - i * 512) (sector_of raw0 i))"
  have "\<exists>s'. load_loop rd (sector_of raw0 i) ?raw (Suc i) k s1 = (True, raw0, s') \<and> ok s' \<and>
      rest s' = rest s1 \<and> sect s' = sect s1"
    by (rule Suc.IH [OF s1(2)]) (use Suc.prems s1(3) blit_sector [of raw raw0 i] in auto)
  then show ?case using s1 by auto
qed auto

end

section \<open>Saving to and loading from a PIO drive\<close>

definition drive_image :: "('d \<Rightarrow> pio) \<Rightarrow> ('d, 'a) machine_scheme \<Rightarrow> dfile list \<Rightarrow> bool" where
  "drive_image view st fs \<longleftrightarrow> drive_sectors view st FS_START_LBA = superblock \<and>
     (\<forall>i < total_sectors (raw_of fs). drive_sectors view st (FS_START_LBA + 1 + i) = sector_of (raw_of fs) i)"

lemma table_image:
  assumes "table_ok fs"
  shows "length (raw_of fs) = 527360" and "total_sectors (raw_of fs) = 1030"
    and "files_of MAX_FILES (raw_of fs) = fs"
  using assms length_raw_of [of fs] files_of_raw_of [of fs]
  by (simp_all add: table_ok_def MAX_FILES_def total_sectors_def)

lemma dev_only:
  "(out s', ata_present s', ata.more s') = (out s1, ata_present s1, ata.more s1) \<Longrightarrow>
   s1 = s\<lparr>dev := d\<rparr> \<Longrightarrow> s' = s\<lparr>dev := dev s'\<rparr>"
  by simp

lemma drive_views_cong:
  "dev s' = dev s \<Longrightarrow> drive_sectors view s' = drive_sectors view s"
  "dev s' = dev s \<Longrightarrow> ata_present s' = ata_present s \<Longrightarrow> drive_ready view s' = drive_ready view s"
  "dev s' = dev s \<Longrightarrow> drive_image view s' = drive_image view s"
  by (auto simp: drive_sectors_def drive_ready_def drive_image_def fun_eq_iff)

lemma unat_start: "unat (of_nat FS_START_LBA :: u32) = FS_START_LBA"
  by (rule unat_of_nat_u32) (simp add: fs_consts)

context pio_drive
begin

lemma save_ok:
  assumes ok: "ready st" and tab: "table_ok (files st)"
  shows "\<exists>d. diskfs_save bus st = emit (''Filesystem saved.'' @ [NL]) (st\<lparr>dev := d\<rparr>) \<and>
    ready (st\<lparr>dev := d\<rparr>) \<and> drive_image view (st\<lparr>dev := d\<rparr>) (files st) \<and>
    (\<forall>l. l < FS_START_LBA \<or> FS_START_LBA + 1030 < l \<longrightarrow> stored (st\<lparr>dev := d\<rparr>) l = stored st l)"
proof -
  have small: "unat (of_nat FS_START_LBA :: u32) < 2 ^ 28" by (simp add: unat_start) (simp add: fs_consts)
  obtain d1 where d1: "ata_write_sector bus (of_nat FS_START_LBA) superblock st = (0, st\<lparr>dev := d1\<rparr>)"
      "ready (st\<lparr>dev := d1\<rparr>)" "stored (st\<lparr>dev := d1\<rparr>) = (stored st)(FS_START_LBA := superblock)"
    using ata_write_sector_ok [OF ok small length_superblock] unfolding unat_start by blast
  let ?raw = "raw_of (files st)"
  obtain s2 where s2: "save_loop (ata_write_sector bus) ?raw 0 1030 (st\<lparr>dev := d1\<rparr>) = (True, s2)" "ready s2"
      "(out s2, ata_present s2, ata.more s2) = (out (st\<lparr>dev := d1\<rparr>), ata_present (st\<lparr>dev := d1\<rparr>), ata.more (st\<lparr>dev := d1\<rparr>))"
      "\<forall>l. stored s2 l = (if FS_START_LBA + 1 + 0 \<le> l \<and> l < FS_START_LBA + 1 + 0 + 1030
         then sector_of ?raw (l - (FS_START_LBA + 1)) else stored (st\<lparr>dev := d1\<rparr>) l)"
    using ata.save_loop_ok [OF d1(2), of 0 1030 ?raw] by auto
  note frame = dev_only [OF s2(3) refl]
  have "diskfs_save bus st = emit (''Filesystem saved.'' @ [NL]) s2"
    using ok d1(1) s2(1) table_image(2) [OF tab]
    by (simp add: diskfs_save_def ata_drive_present_def drive_ready_def)
  moreover have "drive_image view s2 (files st)"
    using s2(4) d1(3) table_image(2) [OF tab] by (simp add: drive_image_def)
  moreover have "stored s2 l = stored st l" if "l < FS_START_LBA \<or> FS_START_LBA + 1030 < l" for l
    using s2(4) d1(3) that by auto
  ultimately show ?thesis using s2(2) frame by metis
qed

lemma load_ok:
  assumes ok: "ready st" and img: "drive_image view st fs" and tab: "table_ok fs" "table_ok (files st)"
  shows "\<exists>d. diskfs_load bus st = (1, st\<lparr>dev := d, files := fs\<rparr>) \<and> ready (st\<lparr>dev := d\<rparr>) \<and>
    stored (st\<lparr>dev := d\<rparr>) = stored st"
proof -
  have small: "unat (of_nat FS_START_LBA :: u32) < 2 ^ 28" by (simp add: unat_start) (simp add: fs_consts)
  have sb: "stored st FS_START_LBA = superblock" using img by (simp add: drive_image_def)
  obtain d1 where d1: "ata_read_sector bus (of_nat FS_START_LBA) (replicate 512 0) st =
      (0, superblock, st\<lparr>dev := d1\<rparr>)" "ready (st\<lparr>dev := d1\<rparr>)" "stored (st\<lparr>dev := d1\<rparr>) = stored st"
    using ata_read_sector_ok [OF ok small, of "replicate 512 0"] unfolding unat_start sb by auto
  have sec: "stored (st\<lparr>dev := d1\<rparr>) (FS_START_LBA + 1 + j) = sector_of (raw_of fs) j"
    if "j < 0 + 1030" for j
    using img d1(3) that table_image(2) [OF tab(1)] by (simp add: drive_image_def)
  obtain s2 where s2: "load_loop (ata_read_sector bus) superblock (raw_of (files st)) 0 1030 (st\<lparr>dev := d1\<rparr>) =
      (True, raw_of fs, s2)" "ready s2" "stored s2 = stored (st\<lparr>dev := d1\<rparr>)"
      "(out s2, ata_present s2, ata.more s2) = (out (st\<lparr>dev := d1\<rparr>), ata_present (st\<lparr>dev := d1\<rparr>), ata.more (st\<lparr>dev := d1\<rparr>))"
    using ata.load_loop_ok [OF d1(2), of 0 1030 superblock "raw_of (files st)" "raw_of fs"]
      sec table_image(1) [OF tab(1)] table_image(1) [OF tab(2)] by auto
  note frame = dev_only [OF s2(4) refl]
  have "files s2 = files st" by (subst frame) simp
  then have len: "length (files s2) = MAX_FILES" using tab(2) by (simp add: table_ok_def)
  have "diskfs_load bus st = (1, s2\<lparr>files := fs\<rparr>)"
    using d1(1) s2(1) len superblock_magic table_image [OF tab(1)] table_image(2) [OF tab(2)]
    by (simp add: diskfs_load_def)
  then show ?thesis using s2(2,3) frame d1(3) by metis
qed

end

section \<open>Properties\<close>

definition blank_file :: dfile where
  "blank_file = \<lparr>fname = replicate 32 NUL, fdata = replicate 8192 NUL, fsize = 0, fused = 0, fis_dir = 0, fparent = 0\<rparr>"

text \<open>The kernel's memory at boot, with a drive that has already been detected.\<close>

definition blank_fs :: "pio fsys" where
  "blank_fs = \<lparr>out = [], dev = blank_drive, ata_present = 1, files = replicate 64 blank_file, current_dir = 0\<rparr>"

lemma blank_fs_ready: "drive_ready (\<lambda>d. d) blank_fs"
  by (simp add: blank_fs_def drive_ready_def blank_drive_def)

lemma blank_fs_table: "table_ok (files blank_fs)"
  by (simp add: blank_fs_def table_ok_def slot_ok_def blank_file_def is_int32_def MAX_FILES_def list_all_iff)

text \<open>
  C8. A file system that was saved is found again at the next boot: on every drive that follows the
  PIO protocol, \<^verbatim>\<open>diskfs_init\<close> on a machine whose drive holds the result of \<^verbatim>\<open>diskfs_save\<close> loads
  exactly the saved file table, and reports it.
\<close>

theorem saved_filesystem_loads:
  assumes "pio_drive bus view" and "drive_ready view st" and "table_ok (files st)"
    and "dev st2 = dev (diskfs_save bus st)" and "ata_present st2 \<noteq> 0" and "table_ok (files st2)"
  shows "\<exists>d. diskfs_init bus st2 = emit (''Initializing filesystem...'' @ [NL] @
    ''Loaded filesystem from disk.'' @ [NL]) (st2\<lparr>dev := d, files := files st\<rparr>)"
proof -
  let ?s = "emit (''Initializing filesystem...'' @ [NL]) st2"
  obtain d where d: "diskfs_save bus st = emit (''Filesystem saved.'' @ [NL]) (st\<lparr>dev := d\<rparr>)"
      "drive_ready view (st\<lparr>dev := d\<rparr>)" "drive_image view (st\<lparr>dev := d\<rparr>) (files st)"
    using pio_drive.save_ok [OF assms(1-3)] by blast
  have dev: "dev ?s = d" "ata_present ?s \<noteq> 0" "files ?s = files st2"
    using assms(4,5) d(1) by (simp_all add: emit_def)
  have "drive_ready view ?s" "drive_image view ?s (files st)"
    using d(2,3) dev by (auto simp: drive_ready_def drive_image_def drive_sectors_def)
  from pio_drive.load_ok [OF assms(1) this assms(3)] assms(6) dev(3) obtain d'
    where "diskfs_load bus ?s = (1, ?s\<lparr>dev := d', files := files st\<rparr>)" by auto
  then have "diskfs_init bus st2 = emit (''Loaded filesystem from disk.'' @ [NL]) (?s\<lparr>dev := d', files := files st\<rparr>)"
    using dev(2) unfolding diskfs_init_def Let_def ata_drive_present_def by simp
  then show ?thesis by (auto simp: emit_def intro!: exI [of _ d'])
qed

theorem saved_filesystem_loads_witness:
  "\<exists>d. diskfs_init pio_bus (diskfs_save pio_bus blank_fs) = emit (''Initializing filesystem...'' @ [NL] @
    ''Loaded filesystem from disk.'' @ [NL])
    ((diskfs_save pio_bus blank_fs)\<lparr>dev := d, files := files blank_fs\<rparr>)"
proof -
  have "files (diskfs_save pio_bus blank_fs) = files blank_fs" "ata_present (diskfs_save pio_bus blank_fs) = 1"
    using sim_drive.save_ok [OF blank_fs_ready blank_fs_table] by (auto simp: emit_def blank_fs_def)
  with saved_filesystem_loads [OF sim_drive.pio_drive_axioms blank_fs_ready blank_fs_table,
      of "diskfs_save pio_bus blank_fs"] blank_fs_table show ?thesis by simp
qed

end
