(* ===== verification/Diskfs_Files.thy ===== *)
theory Diskfs_Files
  imports Diskfs_Persist
begin

text \<open>
  The operations of the file system on the table in RAM, for any device: the invariant every
  operation keeps (the root stays, the current directory is a live directory connected to the
  root, names are terminated, sizes fit), lookups after writes and deletions, and the two ways in
  which a stored name can fail to be the requested one.
\<close>

section \<open>Only the device and the console change when saving\<close>

lemma dev_id: "\<exists>d. st = st\<lparr>dev := d\<rparr>"
  by (rule exI [of _ "dev st"]) simp

lemma io_wait_dev: "\<exists>d. io_wait bus st = st\<lparr>dev := d\<rparr>"
  by (auto simp: io_wait_def inb_def Let_def split: prod.splits)

lemma poll_bsy_dev: "\<exists>r d. poll_bsy bus t st = (r, st\<lparr>dev := d\<rparr>)"
proof (induction t arbitrary: st)
  case (Suc t)
  obtain s d where sd: "bus_inb bus 0x1F7 (dev st) = (s, d)" by (cases "bus_inb bus 0x1F7 (dev st)")
  obtain d2 where "io_wait bus (st\<lparr>dev := d\<rparr>) = st\<lparr>dev := d2\<rparr>" using io_wait_dev [of bus "st\<lparr>dev := d\<rparr>"] by auto
  with Suc [of "st\<lparr>dev := d2\<rparr>"] sd show ?case by (auto simp: inb_def)
qed (simp add: dev_id)

lemma poll_drq_dev: "\<exists>r d. poll_drq bus t st = (r, st\<lparr>dev := d\<rparr>)"
proof (induction t arbitrary: st)
  case (Suc t)
  obtain s d where sd: "bus_inb bus 0x1F7 (dev st) = (s, d)" by (cases "bus_inb bus 0x1F7 (dev st)")
  obtain d2 where "io_wait bus (st\<lparr>dev := d\<rparr>) = st\<lparr>dev := d2\<rparr>" using io_wait_dev [of bus "st\<lparr>dev := d\<rparr>"] by auto
  with Suc [of "st\<lparr>dev := d2\<rparr>"] sd show ?case by (auto simp: inb_def)
qed (simp add: dev_id)

lemma outw_loop_dev: "\<exists>d. outw_loop bus ws st = st\<lparr>dev := d\<rparr>"
proof (induction ws arbitrary: st)
  case (Cons w ws)
  show ?case using Cons [of "outw bus 0x1F0 w st"] by (auto simp: outw_def)
qed (simp add: dev_id)

lemma ata_setup_dev: "\<exists>d. ata_setup bus lba c st = st\<lparr>dev := d\<rparr>"
proof -
  let ?h = "0xE0 OR (ucast (drop_bit 24 lba) AND 0x0F) :: u8"
  obtain d where "io_wait bus (outb bus 0x1F6 ?h st) = (outb bus 0x1F6 ?h st)\<lparr>dev := d\<rparr>"
    using io_wait_dev [of bus "outb bus 0x1F6 ?h st"] by blast
  then have d: "io_wait bus (outb bus 0x1F6 ?h st) = st\<lparr>dev := d\<rparr>" by (simp add: outb_def)
  show ?thesis unfolding ata_setup_def Let_def d by (simp add: outb_def) blast
qed

lemma ata_write_sector_dev: "\<exists>r d. ata_write_sector bus lba b st = (r, st\<lparr>dev := d\<rparr>)"
proof (cases "ata_present st = 0")
  case True
  then show ?thesis by (auto simp: ata_write_sector_def intro: exI [of _ "dev st"])
next
  case False
  obtain r1 d1 where 1: "ata_poll_bsy bus st = (r1, st\<lparr>dev := d1\<rparr>)"
    using poll_bsy_dev [of bus 1000000 st] unfolding ata_poll_bsy_def by blast
  obtain d2 where 2: "ata_setup bus lba 0x30 (st\<lparr>dev := d1\<rparr>) = st\<lparr>dev := d2\<rparr>"
    using ata_setup_dev [of bus lba "0x30" "st\<lparr>dev := d1\<rparr>"] by auto
  obtain r3 d3 where 3: "ata_poll_drq bus (st\<lparr>dev := d2\<rparr>) = (r3, st\<lparr>dev := d3\<rparr>)"
    using poll_drq_dev [of bus 1000000 "st\<lparr>dev := d2\<rparr>"] by (auto simp: ata_poll_drq_def)
  obtain d4 where 4: "outw_loop bus (words_of_bytes (take 512 b)) (st\<lparr>dev := d3\<rparr>) = st\<lparr>dev := d4\<rparr>"
    using outw_loop_dev [of bus _ "st\<lparr>dev := d3\<rparr>"] by auto
  obtain r5 d5 where 5: "ata_poll_bsy bus (outb bus 0x1F7 0xE7 (st\<lparr>dev := d4\<rparr>)) = (r5, st\<lparr>dev := d5\<rparr>)"
    using poll_bsy_dev [of bus 1000000 "outb bus 0x1F7 0xE7 (st\<lparr>dev := d4\<rparr>)"]
    by (auto simp: ata_poll_bsy_def outb_def)
  show ?thesis using False by (auto simp: ata_write_sector_def 1 2 3 4 5 Let_def)
qed

lemma save_loop_dev: "\<exists>r d. save_loop (ata_write_sector bus) raw i k st = (r, st\<lparr>dev := d\<rparr>)"
proof (induction k arbitrary: i st)
  case (Suc k)
  obtain r d where "ata_write_sector bus (of_nat (FS_START_LBA + 1 + i)) (sector_of raw i) st = (r, st\<lparr>dev := d\<rparr>)"
    using ata_write_sector_dev [of bus "of_nat (FS_START_LBA + 1 + i)" "sector_of raw i" st] by blast
  with Suc [of "Suc i" "st\<lparr>dev := d\<rparr>"] show ?case by auto
qed (auto simp: dev_id)

lemma save_dev: "\<exists>d t. diskfs_save bus st = emit t (st\<lparr>dev := d\<rparr>)"
proof (cases "ata_drive_present st = 0")
  case True
  then have "diskfs_save bus st = emit [] (st\<lparr>dev := dev st\<rparr>)" by (simp add: diskfs_save_def)
  then show ?thesis by blast
next
  case False
  obtain r1 d1 where 1: "ata_write_sector bus (of_nat FS_START_LBA) superblock st = (r1, st\<lparr>dev := d1\<rparr>)"
    using ata_write_sector_dev [of bus "of_nat FS_START_LBA" superblock st] by blast
  obtain r2 d2 where 2: "save_loop (ata_write_sector bus) (raw_of (files st)) 0 (total_sectors (raw_of (files st)))
      (st\<lparr>dev := d1\<rparr>) = (r2, st\<lparr>dev := d2\<rparr>)"
    using save_loop_dev [of bus _ _ _ "st\<lparr>dev := d1\<rparr>"] by fastforce
  show ?thesis using False by (auto simp: diskfs_save_def 1 2)
qed

lemma save_keeps [simp]:
  "files (diskfs_save bus st) = files st" "current_dir (diskfs_save bus st) = current_dir st"
  "ata_present (diskfs_save bus st) = ata_present st" "fsys.more (diskfs_save bus st) = fsys.more st"
  using save_dev [of bus st] by (auto simp: emit_def)

lemma emit_keeps [simp]:
  "files (emit s st) = files st" "current_dir (emit s st) = current_dir st"
  "ata_present (emit s st) = ata_present st"
  by (simp_all add: emit_def)

section \<open>Names and slots\<close>

lemma name_match_iff:
  "nul_free name \<Longrightarrow> length nm = j + k \<Longrightarrow> 0 < k \<Longrightarrow> nm ! (j + k - 1) = NUL \<Longrightarrow> j \<le> length name \<Longrightarrow>
   name_match name nm j k \<longleftrightarrow> cstr (drop j nm) = drop j name"
proof (induction k arbitrary: j)
  case (Suc k)
  have dn: "drop j nm = nm ! j # drop (Suc j) nm" using Suc.prems(2) by (simp add: Cons_nth_drop_Suc)
  show ?case
  proof (cases "j = length name")
    case True
    have "cstr (drop j nm) = [] \<longleftrightarrow> nm ! j = NUL" unfolding dn cstr_def by simp
    with True show ?thesis by (auto simp: cstr_at_def)
  next
    case False
    then have j: "j < length name" using Suc.prems by simp
    then have ne: "name ! j \<noteq> NUL" using Suc.prems(1) by (auto simp: nul_free_def in_set_conv_nth)
    have dm: "drop j name = name ! j # drop (Suc j) name" using j by (simp add: Cons_nth_drop_Suc)
    show ?thesis
    proof (cases "nm ! j = name ! j")
      case True
      have k: "0 < k"
      proof (rule ccontr)
        assume "\<not> 0 < k"
        then have "nm ! j = NUL" using Suc.prems(4) by simp
        with True ne show False by simp
      qed
      have "name_match name nm (Suc j) k \<longleftrightarrow> cstr (drop (Suc j) nm) = drop (Suc j) name"
        by (rule Suc.IH) (use Suc.prems k j in auto)
      with True j ne show ?thesis by (simp add: cstr_at_def dn dm cstr_def)
    next
      case neq: False
      then show ?thesis using j by (auto simp: cstr_at_def dn dm cstr_def)
    qed
  qed
qed simp

text \<open>A name array the code can compare safely: full length and terminated.\<close>

definition name_ok :: "char list \<Rightarrow> bool" where
  "name_ok nm \<longleftrightarrow> length nm = 32 \<and> nm ! 31 = NUL"

lemma name_match_cstr:
  "nul_free name \<Longrightarrow> name_ok nm \<Longrightarrow> name_match name nm 0 MAX_FILENAME \<longleftrightarrow> cstr nm = name"
  using name_match_iff [of name nm 0 32] by (simp add: name_ok_def MAX_FILENAME_def)

lemma set_name_ok: "length nm = 32 \<Longrightarrow> name_ok (set_name name nm)"
  by (simp add: name_ok_def set_name_def MAX_FILENAME_def)

text \<open>The stored name is the requested one when it fits and the slot has no longer name in it.\<close>

lemma cstr_set_name:
  assumes "nul_free name" and "length name < 32" and "length nm = 32" and "nm ! length name = NUL"
  shows "cstr (set_name name nm) = name"
proof -
  let ?s = "set_name name nm"
  have len: "length ?s = 32" using assms by (simp add: set_name_def)
  have nth: "?s ! i = name ! i" if "i < length name" for i
    using that assms by (simp add: set_name_def MAX_FILENAME_def nth_blit)
  have "?s ! length name = NUL"
    using assms by (auto simp: set_name_def MAX_FILENAME_def nth_blit nth_list_update)
  then have "drop (length name) ?s = NUL # drop (Suc (length name)) ?s"
    using assms(2) len by (metis Cons_nth_drop_Suc)
  moreover have "take (length name) ?s = name"
    by (rule nth_equalityI) (use len assms(2) nth in auto)
  ultimately have "?s = name @ NUL # drop (Suc (length name)) ?s" by (metis append_take_drop_id)
  then show ?thesis using cstr_append_NUL [OF assms(1)] by metis
qed

definition hit :: "string \<Rightarrow> int \<Rightarrow> dfile \<Rightarrow> bool" where
  "hit name parent f \<longleftrightarrow> tt (fused f) \<and> fparent f = parent \<and> name_match name (fname f) 0 MAX_FILENAME"

lemma find_from_cases:
  "(find_from name p i fs = - 1 \<and> (\<forall>f\<in>set fs. \<not> hit name p f)) \<or>
   (\<exists>k < length fs. find_from name p i fs = i + int k \<and> hit name p (fs ! k) \<and> (\<forall>j<k. \<not> hit name p (fs ! j)))"
proof (induction fs arbitrary: i)
  case (Cons f fs)
  show ?case
  proof (cases "hit name p f")
    case True
    then show ?thesis by (auto simp: hit_def intro!: exI [of _ "0::nat"])
  next
    case False
    then have rec: "find_from name p i (f # fs) = find_from name p (i + 1) fs" by (auto simp: hit_def)
    from Cons [of "i + 1"] show ?thesis
    proof (elim disjE exE conjE)
      fix k assume k: "k < length fs" "find_from name p (i + 1) fs = i + 1 + int k" "hit name p (fs ! k)"
        "\<forall>j<k. \<not> hit name p (fs ! j)"
      have "\<forall>j<Suc k. \<not> hit name p ((f # fs) ! j)" using k(4) False by (auto simp: less_Suc_eq_0_disj)
      with k rec show ?thesis by (intro disjI2 exI [of _ "Suc k"]) simp
    qed (use rec False in simp)
  qed
qed simp

lemma find_from_first:
  assumes "k < length fs" and "hit name p (fs ! k)" and "\<forall>j<k. \<not> hit name p (fs ! j)"
  shows "find_from name p i fs = i + int k"
  using assms
proof (induction fs arbitrary: i k)
  case (Cons f fs)
  show ?case
  proof (cases k)
    case 0
    with Cons.prems show ?thesis by (simp add: hit_def)
  next
    case (Suc k')
    have "\<not> hit name p f" using Cons.prems(3) Suc by force
    moreover have "find_from name p (i + 1) fs = i + 1 + int k'"
      by (rule Cons.IH) (use Cons.prems Suc in force)+
    ultimately show ?thesis using Suc by (auto simp: hit_def)
  qed
qed simp

lemma find_from_none: "(\<forall>f\<in>set fs. \<not> hit name p f) \<Longrightarrow> find_from name p i fs = - 1"
  by (induction fs arbitrary: i) (auto simp: hit_def)

lemma free_from_cases:
  "(free_from i fs = - 1 \<and> (\<forall>f\<in>set fs. tt (fused f))) \<or>
   (\<exists>k < length fs. free_from i fs = i + int k \<and> fused (fs ! k) = 0)"
proof (induction fs arbitrary: i)
  case (Cons f fs)
  show ?case
  proof (cases "fused f = 0")
    case True
    then show ?thesis by (auto intro!: exI [of _ "0::nat"])
  next
    case False
    from Cons [of "i + 1"] show ?thesis
    proof (elim disjE exE conjE)
      fix k assume "k < length fs" "free_from (i + 1) fs = i + 1 + int k" "fused (fs ! k) = 0"
      with False show ?thesis by (intro disjI2 exI [of _ "Suc k"]) simp
    qed (use False in simp)
  qed
qed simp

lemma find_file_cases:
  obtains (none) "find_file name p st = - 1" and "\<forall>f\<in>set (files st). \<not> hit name p f"
  | (some) k where "k < length (files st)" and "find_file name p st = int k" and "hit name p (files st ! k)"
      and "\<forall>j<k. \<not> hit name p (files st ! j)"
  using find_from_cases [of name p 0 "files st"] unfolding find_file_def by auto

lemma find_free_cases:
  obtains (none) "find_free st = - 1"
  | (some) k where "k < length (files st)" and "find_free st = int k" and "fused (files st ! k) = 0"
  using free_from_cases [of 0 "files st"] unfolding find_free_def by auto

section \<open>The invariant\<close>

text \<open>Slot \<open>i\<close> is a live directory \<open>n\<close> steps below the root.\<close>

fun up :: "dfile list \<Rightarrow> nat \<Rightarrow> nat \<Rightarrow> bool" where
  "up fs 0 i = (i = 0)"
| "up fs (Suc n) i = (i \<noteq> 0 \<and> i < length fs \<and> tt (fused (fs ! i)) \<and> tt (fis_dir (fs ! i)) \<and>
     0 \<le> fparent (fs ! i) \<and> up fs n (nat (fparent (fs ! i))))"

definition fs_inv :: "('d, 'a) fsys_scheme \<Rightarrow> bool" where
  "fs_inv st \<longleftrightarrow> table_ok (files st) \<and> (\<forall>f\<in>set (files st). name_ok (fname f) \<and> fsize f \<le> 8192) \<and>
     tt (fused (files st ! 0)) \<and> tt (fis_dir (files st ! 0)) \<and> fparent (files st ! 0) = - 1 \<and>
     0 \<le> current_dir st \<and> (\<exists>n. up (files st) n (nat (current_dir st)))"

lemma up_unique: "up fs n i \<Longrightarrow> up fs m i \<Longrightarrow> n = m"
proof (induction n arbitrary: m i)
  case 0
  then show ?case by (cases m) auto
next
  case (Suc n)
  then show ?case by (cases m) auto
qed

lemma up_bound: "up fs n i \<Longrightarrow> fs \<noteq> [] \<Longrightarrow> i < length fs"
  by (cases n) auto

lemma up_off_path:
  "up fs n i \<Longrightarrow> (\<And>m. m \<le> n \<Longrightarrow> \<not> up fs m k) \<Longrightarrow> up (fs[k := f]) n i"
proof (induction n arbitrary: i)
  case (Suc n)
  have "i \<noteq> k" using Suc.prems by blast
  moreover have "up (fs[k := f]) n (nat (fparent (fs ! i)))"
    by (rule Suc.IH) (use Suc.prems in \<open>simp_all\<close>)
  ultimately show ?case using Suc.prems(1) by simp
qed simp

lemma up_same_shape:
  assumes "fused f = fused (fs ! k)" and "fis_dir f = fis_dir (fs ! k)" and "fparent f = fparent (fs ! k)"
  shows "up (fs[k := f]) n i = up fs n i"
proof (induction n arbitrary: i)
  case (Suc n)
  have "fused (fs[k := f] ! i) = fused (fs ! i)" "fis_dir (fs[k := f] ! i) = fis_dir (fs ! i)"
      "fparent (fs[k := f] ! i) = fparent (fs ! i)" if "i < length fs"
    using assms that by (cases "i = k"; simp)+
  with Suc show ?case by (cases "i < length fs") simp_all
qed simp

lemma inv_table: "fs_inv st \<Longrightarrow> length (files st) = 64"
  by (simp add: fs_inv_def table_ok_def MAX_FILES_def)

lemma inv_slot:
  "fs_inv st \<Longrightarrow> k < 64 \<Longrightarrow> slot_ok (files st ! k) \<and> name_ok (fname (files st ! k)) \<and> fsize (files st ! k) \<le> 8192"
  using inv_table [of st] by (auto simp: fs_inv_def table_ok_def list_all_iff)

lemma inv_cur: "fs_inv st \<Longrightarrow> 0 \<le> current_dir st \<and> current_dir st < 64"
proof -
  assume inv: "fs_inv st"
  then obtain n where "up (files st) n (nat (current_dir st))" by (auto simp: fs_inv_def)
  moreover have "files st \<noteq> []" using inv_table [OF inv] by auto
  ultimately show ?thesis using up_bound inv_table [OF inv] inv by (fastforce simp: fs_inv_def)
qed

lemma fs_inv_keeps [simp]:
  "fs_inv (diskfs_save bus st) = fs_inv st" "fs_inv (emit s st) = fs_inv st"
  by (simp_all add: fs_inv_def)

lemma fs_inv_update:
  assumes inv: "fs_inv st" and k: "k < 64" "k \<noteq> 0"
    and f: "slot_ok f" "name_ok (fname f)" "fsize f \<le> 8192"
    and path: "\<exists>n. up ((files st)[k := f]) n (nat (current_dir st))"
  shows "fs_inv (st\<lparr>files := (files st)[k := f]\<rparr>)"
proof -
  have "list_all slot_ok ((files st)[k := f])"
    using inv f(1) set_update_subset_insert [of "files st" k f]
    by (auto simp: fs_inv_def table_ok_def list_all_iff)
  moreover have "\<forall>g\<in>set ((files st)[k := f]). name_ok (fname g) \<and> fsize g \<le> 8192"
    using inv f set_update_subset_insert [of "files st" k f] by (auto simp: fs_inv_def)
  ultimately show ?thesis using inv k path by (simp add: fs_inv_def table_ok_def)
qed

text \<open>A slot the code picks to create an entry, and one it finds by name.\<close>

lemma free_slot_off_path:
  assumes "fs_inv st" and "k < length (files st)" and "fused (files st ! k) = 0"
  shows "k \<noteq> 0" and "\<exists>n. up ((files st)[k := f]) n (nat (current_dir st))"
proof -
  show k: "k \<noteq> 0" using assms by (auto simp: fs_inv_def intro!: gr0I)
  obtain n where n: "up (files st) n (nat (current_dir st))" using assms(1) by (auto simp: fs_inv_def)
  have "\<not> up (files st) m k" for m using assms(3) k by (cases m) auto
  with up_off_path [OF n] show "\<exists>n. up ((files st)[k := f]) n (nat (current_dir st))" by blast
qed

lemma found_slot_off_path:
  assumes inv: "fs_inv st" and hit: "hit name (current_dir st) (files st ! k)"
  shows "k \<noteq> 0" and "\<exists>n. up ((files st)[k := f]) n (nat (current_dir st))"
proof -
  have par: "fparent (files st ! k) = current_dir st" using hit by (simp add: hit_def)
  then show k: "k \<noteq> 0" using inv by (cases k) (auto simp: fs_inv_def)
  obtain n where n: "up (files st) n (nat (current_dir st))" using inv by (auto simp: fs_inv_def)
  have "\<not> up (files st) m k" if "m \<le> n" for m
  proof
    assume up: "up (files st) m k"
    with k obtain m' where m': "m = Suc m'" by (cases m) auto
    with up par have "up (files st) m' (nat (current_dir st))" by simp
    from up_unique [OF this n] m' that show False by simp
  qed
  with up_off_path [OF n] show "\<exists>n. up ((files st)[k := f]) n (nat (current_dir st))" by blast
qed

lemma is_int32_small: "- 1 \<le> x \<Longrightarrow> x \<le> 8192 \<Longrightarrow> is_int32 x"
  by (simp add: is_int32_def)

lemma new_slot_ok:
  assumes "fs_inv st" and "k < 64" and "is_dir \<in> {0, 1}"
  shows "slot_ok (new_slot name is_dir (current_dir st) (files st ! k))"
    and "name_ok (fname (new_slot name is_dir (current_dir st) (files st ! k)))"
    and "fsize (new_slot name is_dir (current_dir st) (files st ! k)) \<le> 8192"
  using inv_slot [OF assms(1,2)] inv_cur [OF assms(1)] assms(3)
  by (auto simp: new_slot_def slot_ok_def set_name_ok is_int32_small)
    (simp add: set_name_def)+

lemma inv_create: "fs_inv st \<Longrightarrow> fs_inv (snd (diskfs_create bus name st))"
proof -
  assume inv: "fs_inv st"
  have fs: "fs_inv (st\<lparr>files := (files st)[k := new_slot name 0 (current_dir st) (files st ! k)]\<rparr>)"
    if "k < length (files st)" "fused (files st ! k) = 0" for k
    using that inv_table [OF inv] free_slot_off_path [OF inv that] new_slot_ok [OF inv, of k 0 name]
    by (intro fs_inv_update [OF inv]) auto
  show ?thesis
    by (cases rule: find_free_cases [of st])
      (use inv fs in \<open>auto simp: diskfs_create_def Let_def\<close>)
qed

lemma inv_mkdir: "fs_inv st \<Longrightarrow> fs_inv (snd (diskfs_mkdir bus name st))"
proof -
  assume inv: "fs_inv st"
  have fs: "fs_inv (st\<lparr>files := (files st)[k := new_slot name 1 (current_dir st) (files st ! k)]\<rparr>)"
    if "k < length (files st)" "fused (files st ! k) = 0" for k
    using that inv_table [OF inv] free_slot_off_path [OF inv that] new_slot_ok [OF inv, of k 1 name]
    by (intro fs_inv_update [OF inv]) auto
  show ?thesis
    by (cases rule: find_free_cases [of st])
      (use inv fs in \<open>auto simp: diskfs_mkdir_def Let_def\<close>)
qed

lemma inv_delete: "fs_inv st \<Longrightarrow> fs_inv (snd (diskfs_delete bus name st))"
proof (cases rule: find_file_cases [of name "current_dir st" st])
  case none
  moreover assume "fs_inv st"
  ultimately show ?thesis by (simp add: diskfs_delete_def)
next
  case (some k)
  assume inv: "fs_inv st"
  have k: "k < 64" using some(1) inv_table [OF inv] by simp
  have "fs_inv (st\<lparr>files := (files st)[k := (files st ! k)\<lparr>fused := 0\<rparr>]\<rparr>)"
    using inv_slot [OF inv k] found_slot_off_path [OF inv some(3)]
    by (intro fs_inv_update [OF inv k]) (auto simp: slot_ok_def is_int32_small)
  with some show ?thesis by (simp add: diskfs_delete_def Let_def)
qed

lemma inv_write_slot:
  assumes inv: "fs_inv st" and k: "k < 64" "k \<noteq> 0" and sz: "is_int32 sz" "sz \<le> 8192"
  shows "fs_inv (st\<lparr>files := (files st)[k := (files st ! k)
    \<lparr>fdata := blit (fdata (files st ! k)) 0 (take (nat sz) data), fsize := sz\<rparr>]\<rparr>)"
proof (rule fs_inv_update [OF inv k])
  obtain n where "up (files st) n (nat (current_dir st))" using inv by (auto simp: fs_inv_def)
  then have "up ((files st)[k := (files st ! k)
      \<lparr>fdata := blit (fdata (files st ! k)) 0 (take (nat sz) data), fsize := sz\<rparr>]) n (nat (current_dir st))"
    by (subst up_same_shape) simp_all
  then show "\<exists>n. up ((files st)[k := (files st ! k)
      \<lparr>fdata := blit (fdata (files st ! k)) 0 (take (nat sz) data), fsize := sz\<rparr>]) n (nat (current_dir st))"
    by blast
qed (use inv_slot [OF inv k(1)] sz in \<open>auto simp: slot_ok_def\<close>)

lemma write_slot_ok:
  assumes "k < length (files st)" and "is_int32 sz" and "sz \<le> 8192" and "sz \<le> int (length data)"
  shows "\<exists>t. write_slot bus (int k) data sz st = Inr (0, diskfs_save bus (emit t (st\<lparr>files := (files st)[k :=
    (files st ! k)\<lparr>fdata := blit (fdata (files st ! k)) 0 (take (nat sz) data), fsize := sz\<rparr>]\<rparr>)))"
  using assms by (simp add: write_slot_def Let_def MAX_FILE_SIZE_def print_int_static_text is_int32_def)
    (blast intro: exI)

lemma write_slot_cases:
  assumes inv: "fs_inv st" and sz: "is_int32 sz" and r: "write_slot bus idx data sz st = Inr (r, st')"
    and k: "idx = - 1 \<or> idx = int k \<and> k < 64 \<and> k \<noteq> 0"
  shows "fs_inv st'"
proof (cases "sz \<le> 8192 \<and> sz \<le> int (length data) \<and> idx \<noteq> - 1")
  case True
  then have idx: "idx = int k" "k < 64" "k \<noteq> 0" using k by auto
  obtain t where "st' = diskfs_save bus (emit t (st\<lparr>files := (files st)[k :=
      (files st ! k)\<lparr>fdata := blit (fdata (files st ! k)) 0 (take (nat sz) data), fsize := sz\<rparr>]\<rparr>))"
    using write_slot_ok [of k st sz data bus] True sz idx inv_table [OF inv] r by auto
  with inv_write_slot [OF inv idx(2,3) sz] True show ?thesis by simp
next
  case False
  then show ?thesis using r inv k by (auto simp: write_slot_def MAX_FILE_SIZE_def split: if_splits)
qed

lemma found_index:
  assumes "fs_inv st"
  shows "find_file name (current_dir st) st = - 1 \<or>
    (\<exists>k. find_file name (current_dir st) st = int k \<and> k < 64 \<and> k \<noteq> 0)"
  by (cases rule: find_file_cases [of name "current_dir st" st])
    (use inv_table [OF assms] found_slot_off_path(1) [OF assms] in auto)

lemma inv_write:
  assumes inv: "fs_inv st" and sz: "is_int32 sz" and r: "diskfs_write bus name data sz st = Inr (r, st')"
  shows "fs_inv st'"
proof (cases "find_file name (current_dir st) st = - 1")
  case True
  obtain c st1 where c: "diskfs_create bus name st = (c, st1)" by (cases "diskfs_create bus name st")
  have inv1: "fs_inv st1" using inv_create [OF inv, of bus name] c by simp
  show ?thesis
  proof (cases "c = 0")
    case False
    then show ?thesis using True c r inv1 by (simp add: diskfs_write_def)
  next
    case zero: True
    from found_index [OF inv1, of name] obtain k where
      k: "find_file name (current_dir st1) st1 = - 1 \<or>
          find_file name (current_dir st1) st1 = int k \<and> k < 64 \<and> k \<noteq> 0" by blast
    have "write_slot bus (find_file name (current_dir st1) st1) data sz st1 = Inr (r, st')"
      using True c r zero by (simp add: diskfs_write_def)
    from write_slot_cases [OF inv1 sz this k] show ?thesis .
  qed
next
  case False
  with found_index [OF inv, of name] obtain k where
    k: "find_file name (current_dir st) st = int k" "k < 64" "k \<noteq> 0" by blast
  with False r have "write_slot bus (int k) data sz st = Inr (r, st')" by (simp add: diskfs_write_def)
  from write_slot_cases [OF inv sz this, of k] k show ?thesis by blast
qed

lemma cd_ok:
  assumes inv: "fs_inv st"
  shows "\<exists>r st'. diskfs_cd path st = Inr (r, st') \<and> fs_inv st' \<and> files st' = files st \<and>
    (path = ''..'' \<longrightarrow> r = 0)"
proof -
  obtain n where n: "up (files st) n (nat (current_dir st))" using inv by (auto simp: fs_inv_def)
  have cur: "0 \<le> current_dir st" "current_dir st < 64" using inv_cur [OF inv] by auto
  have len: "length (files st) = 64" by (rule inv_table [OF inv])
  have root: "fs_inv (st\<lparr>current_dir := 0\<rparr>)"
    using inv by (auto simp: fs_inv_def intro: exI [of _ "0::nat"])
  have up: "0 \<le> fparent (files st ! nat (current_dir st)) \<and>
      fs_inv (st\<lparr>current_dir := fparent (files st ! nat (current_dir st))\<rparr>)" if "current_dir st \<noteq> 0"
    using n inv that cur by (cases n) (auto simp: fs_inv_def)
  have down: "fs_inv (st\<lparr>current_dir := int k\<rparr>)"
    if "k < 64" "hit path (current_dir st) (files st ! k)" "tt (fis_dir (files st ! k))" for k
  proof -
    have "up (files st) (Suc n) k"
      using that n len cur found_slot_off_path(1) [OF inv that(2)] by (simp add: hit_def)
    then have "\<exists>n. up (files st) n k" by blast
    with inv show ?thesis by (simp add: fs_inv_def)
  qed
  define slash dots where "slash \<longleftrightarrow> cstr_at path 0 = CHR ''/'' \<and> cstr_at path 1 = NUL"
    and "dots \<longleftrightarrow> cstr_at path 0 = CHR ''.'' \<and> cstr_at path 1 = CHR ''.'' \<and> cstr_at path 2 = NUL"
  have path: "\<not> slash \<and> dots" if "path = ''..''" using that by (simp add: slash_def dots_def cstr_at_def)
  note cd = diskfs_cd_def [of path st, folded slash_def dots_def]
  consider "slash" | "\<not> slash" "dots" | "\<not> slash" "\<not> dots" by blast
  then show ?thesis
  proof cases
    case 1
    with root path show ?thesis by (auto simp: cd)
  next
    case 2
    with up inv cur len show ?thesis by (auto simp: cd Let_def)
  next
    case 3
    then have "path \<noteq> ''..''" using path by blast
    with 3 show ?thesis
      by (cases rule: find_file_cases [of path "current_dir st" st])
        (use inv down len in \<open>auto simp: cd Let_def\<close>)
  qed
qed


end
