(* ===== verification/Diskfs_Dir.thy ===== *)
theory Diskfs_Dir
  imports Diskfs_Files
begin

text \<open>
  What the file system promises the commands that use it: the current directory as a finite map
  from names to contents. The locale \<open>directory\<close> states the contract (a lookup after a write, after a
  deletion, other names untouched), \<open>fs_dir\<close> interprets it on \<^verbatim>\<open>diskfs_write\<close> and \<^verbatim>\<open>diskfs_delete\<close>.
  The step relation \<open>fs_reachable\<close> collects every operation that changes the file system.
\<close>

section \<open>The current directory as a map\<close>

definition content :: "dfile \<Rightarrow> bool \<times> string" where
  "content f = (tt (fis_dir f), take (nat (fsize f)) (fdata f))"

definition lookup :: "string \<Rightarrow> ('d, 'a) fsys_scheme \<Rightarrow> (bool \<times> string) option" where
  "lookup name st = map_option content (List.find (hit name (current_dir st)) (files st))"

lemma find_first:
  "k < length fs \<Longrightarrow> P (fs ! k) \<Longrightarrow> \<forall>j<k. \<not> P (fs ! j) \<Longrightarrow> List.find P fs = Some (fs ! k)"
  by (auto simp: find_Some_iff intro!: exI [of _ k])

lemma find_none: "\<forall>f\<in>set fs. \<not> P f \<Longrightarrow> List.find P fs = None"
  by (simp add: find_None_iff)

lemma lookup_find_file:
  "lookup name st = (let idx = find_file name (current_dir st) st in
     if idx = - 1 then None else Some (content (files st ! nat idx)))"
  by (cases rule: find_file_cases [of name "current_dir st" st])
    (simp_all add: lookup_def find_none find_first)

lemma exists_lookup: "tt (diskfs_exists name st) \<longleftrightarrow> lookup name st \<noteq> None"
  by (simp add: diskfs_exists_def lookup_find_file Let_def)

lemma hit_name:
  "fs_inv st \<Longrightarrow> k < 64 \<Longrightarrow> nul_free name \<Longrightarrow>
   hit name p (files st ! k) \<longleftrightarrow> tt (fused (files st ! k)) \<and> fparent (files st ! k) = p \<and> cstr (fname (files st ! k)) = name"
  using inv_slot [of st k] name_match_cstr [of name "fname (files st ! k)"] by (auto simp: hit_def)

lemma find_update_miss:
  assumes "\<not> P f" and "k < length fs \<Longrightarrow> \<not> P (fs ! k)"
  shows "List.find P (fs[k := f]) = List.find P fs"
  using assms
proof (induction fs arbitrary: k)
  case (Cons g fs)
  show ?case
  proof (cases k)
    case 0
    with Cons.prems show ?thesis by simp
  next
    case (Suc k')
    with Cons.IH [of k'] Cons.prems show ?thesis by simp
  qed
qed simp

lemma find_update_hit:
  assumes "k < length fs" and "P f" and "\<forall>j<k. \<not> P (fs ! j)"
  shows "List.find P (fs[k := f]) = Some f"
  using find_first [of k "fs[k := f]" P] assms by simp

text \<open>The table after a write to slot \<open>k\<close>.\<close>

definition written :: "string \<Rightarrow> dfile \<Rightarrow> dfile" where
  "written data f = f\<lparr>fdata := blit (fdata f) 0 data, fsize := int (length data)\<rparr>"

lemma content_written: "length (fdata f) = 8192 \<Longrightarrow> length data \<le> 8192 \<Longrightarrow> content (written data f) = (tt (fis_dir f), data)"
  by (simp add: content_def written_def blit_0)

lemma hit_written [simp]: "hit name p (written data f) = hit name p f"
  by (simp add: hit_def written_def)

lemma write_existing:
  assumes inv: "fs_inv st" and name: "nul_free name" and data: "length data \<le> 8192"
    and old: "lookup name st = Some (d, x)"
  shows "\<exists>st'. diskfs_write bus name data (int (length data)) st = Inr (0, st') \<and>
    current_dir st' = current_dir st \<and> lookup name st' = Some (d, data) \<and>
    fsize (files st' ! nat (find_file name (current_dir st') st')) = int (length data) \<and>
    (\<forall>other. nul_free other \<longrightarrow> other \<noteq> name \<longrightarrow> lookup other st' = lookup other st)"
proof (cases rule: find_file_cases [of name "current_dir st" st])
  case none
  with old show ?thesis by (simp add: lookup_find_file)
next
  case (some k)
  have len: "length (files st) = 64" by (rule inv_table [OF inv])
  have "is_int32 (int (length data))" using data by (intro is_int32_small) simp_all
  then obtain t where w: "diskfs_write bus name data (int (length data)) st =
      Inr (0, diskfs_save bus (emit t (st\<lparr>files := (files st)[k := written data (files st ! k)]\<rparr>)))"
    using write_slot_ok [of k st "int (length data)" data bus] some(1,2) data
    by (auto simp: diskfs_write_def written_def)
  define st' where "st' = diskfs_save bus (emit t (st\<lparr>files := (files st)[k := written data (files st ! k)]\<rparr>))"
  have st': "files st' = (files st)[k := written data (files st ! k)]" "current_dir st' = current_dir st"
    by (simp_all add: st'_def)
  have "content (files st ! k) = (d, x)" using old some(1-3) by (simp add: lookup_find_file)
  moreover have "length (fdata (files st ! k)) = 8192"
    using inv_slot [OF inv, of k] some(1) len by (simp add: slot_ok_def)
  ultimately have "lookup name st' = Some (d, data)"
    using find_update_hit [of k "files st" "hit name (current_dir st)" "written data (files st ! k)"] some data
    by (simp add: lookup_def st' content_written) (simp add: content_def)
  moreover have "lookup other st' = lookup other st" if "nul_free other" "other \<noteq> name" for other
  proof -
    have "\<not> hit other (current_dir st) (files st ! k)"
      using hit_name [OF inv, of k] some len that name by auto
    then show ?thesis
      using find_update_miss [of "hit other (current_dir st)" "written data (files st ! k)" k "files st"]
      by (simp add: lookup_def st')
  qed
  moreover have "find_file name (current_dir st') st' = int k"
    using find_from_first [of k "files st'" name "current_dir st'" 0] some by (simp add: find_file_def st')
  moreover have "fsize (files st' ! k) = int (length data)" using some(1) by (simp add: st' written_def)
  ultimately show ?thesis using w st'(2) unfolding st'_def by (intro exI conjI) auto
qed

text \<open>
  Room for a new name: a free slot, whose old name leaves no character behind the new one.
\<close>

definition room :: "string \<Rightarrow> ('d, 'a) fsys_scheme \<Rightarrow> bool" where
  "room name st \<longleftrightarrow> length name < 32 \<and> find_free st \<noteq> - 1 \<and>
     fname (files st ! nat (find_free st)) ! length name = NUL"

lemma create_new:
  assumes inv: "fs_inv st" and name: "nul_free name" and new: "lookup name st = None" and room: "room name st"
  shows "\<exists>st'. diskfs_create bus name st = (0, st') \<and> current_dir st' = current_dir st \<and>
    lookup name st' = Some (False, []) \<and>
    (\<forall>other. nul_free other \<longrightarrow> other \<noteq> name \<longrightarrow> lookup other st' = lookup other st)"
proof (cases rule: find_free_cases [of st])
  case none
  with room show ?thesis by (simp add: room_def)
next
  case (some k)
  have len: "length (files st) = 64" by (rule inv_table [OF inv])
  have k: "k < 64" using some len by simp
  have idx: "find_file name (current_dir st) st = - 1"
    using new by (simp add: lookup_find_file Let_def split: if_splits)
  let ?f = "new_slot name 0 (current_dir st) (files st ! k)"
  define st' where "st' = diskfs_save bus (emit (''Created: '' @ name @ [NL]) (st\<lparr>files := (files st)[k := ?f]\<rparr>))"
  have c: "diskfs_create bus name st = (0, st')" using idx some by (simp add: diskfs_create_def st'_def)
  have st': "files st' = (files st)[k := ?f]" "current_dir st' = current_dir st" by (simp_all add: st'_def)
  have "cstr (fname ?f) = name"
    using cstr_set_name [OF name] room some inv_slot [OF inv k]
    by (simp add: new_slot_def room_def slot_ok_def)
  moreover have "name_ok (fname ?f)" by (rule new_slot_ok [OF inv k]) simp
  ultimately have hits: "hit nm (current_dir st) ?f \<longleftrightarrow> nm = name" if "nul_free nm" for nm
    using name_match_cstr [OF that] by (auto simp: hit_def) (simp_all add: new_slot_def)
  have "\<not> hit name (current_dir st) f" if "f \<in> set (files st)" for f
    using new that by (auto simp: lookup_def find_None_iff)
  then have "\<forall>j<k. \<not> hit name (current_dir st) (files st ! j)" using some(1) by auto
  then have "lookup name st' = Some (content ?f)"
    using find_update_hit [OF some(1)] hits [OF name] by (simp add: lookup_def st')
  then have "lookup name st' = Some (False, [])" by (simp add: content_def new_slot_def)
  moreover have "lookup other st' = lookup other st" if "nul_free other" "other \<noteq> name" for other
    using find_update_miss [of "hit other (current_dir st)" ?f k "files st"] hits [OF that(1)] that(2) some(3)
    by (simp add: lookup_def st' hit_def)
  ultimately show ?thesis using c st'(2) by blast
qed

lemma write_new:
  assumes inv: "fs_inv st" and name: "nul_free name" and data: "length data \<le> 8192"
    and new: "lookup name st = None" and room: "room name st"
  shows "\<exists>st'. diskfs_write bus name data (int (length data)) st = Inr (0, st') \<and>
    current_dir st' = current_dir st \<and> lookup name st' = Some (False, data) \<and>
    fsize (files st' ! nat (find_file name (current_dir st') st')) = int (length data) \<and>
    (\<forall>other. nul_free other \<longrightarrow> other \<noteq> name \<longrightarrow> lookup other st' = lookup other st)"
proof -
  obtain st1 where c: "diskfs_create bus name st = (0, st1)" "current_dir st1 = current_dir st"
      "lookup name st1 = Some (False, [])"
      "\<forall>other. nul_free other \<longrightarrow> other \<noteq> name \<longrightarrow> lookup other st1 = lookup other st"
    using create_new [OF inv name new room] by blast
  have inv1: "fs_inv st1" using inv_create [OF inv, of bus name] c(1) by simp
  have "find_file name (current_dir st) st = - 1"
    using new by (simp add: lookup_find_file Let_def split: if_splits)
  then have "diskfs_write bus name data (int (length data)) st =
      write_slot bus (find_file name (current_dir st1) st1) data (int (length data)) st1"
    using c(1) by (simp add: diskfs_write_def)
  also have "\<dots> = diskfs_write bus name data (int (length data)) st1"
    using c(3) by (auto simp: diskfs_write_def lookup_find_file Let_def split: if_splits)
  finally show ?thesis using write_existing [OF inv1 name data c(3), of bus] c(2,4) by auto
qed

text \<open>Writing a file that exists or has room, and reading a file of known contents.\<close>

lemma write_known:
  assumes "fs_inv st" and "nul_free name" and "length data \<le> 8192" and "lookup name st \<noteq> None \<or> room name st"
  obtains d st' where "diskfs_write bus name data (int (length data)) st = Inr (0, st')" "lookup name st' = Some (d, data)"
    "\<forall>other. nul_free other \<longrightarrow> other \<noteq> name \<longrightarrow> lookup other st' = lookup other st"
    "fsize (files st' ! nat (find_file name (current_dir st') st')) = int (length data)" "fs_inv st'"
proof -
  have i: "is_int32 (int (length data))" using assms(3) by (intro is_int32_small) simp_all
  show ?thesis
  proof (cases "lookup name st")
    case None
    with write_new [OF assms(1-3) None, of bus] assms(4) that inv_write [OF assms(1) i] show ?thesis by blast
  next
    case (Some c)
    then obtain d y where "lookup name st = Some (d, y)" by (cases c) simp
    from write_existing [OF assms(1-3) this, of bus] that inv_write [OF assms(1) i] show ?thesis by blast
  qed
qed

lemma read_known:
  assumes inv: "fs_inv st" and l: "lookup name st = Some (d, data)"
    and sz: "fsize (files st ! nat (find_file name (current_dir st) st)) = int (length data)"
    and "int (length data) \<le> n" and "length data \<le> length buffer"
  shows "diskfs_read name buffer n st = Inr (int (length data), data @ drop (length data) buffer, st)"
proof (cases rule: find_file_cases [of name "current_dir st" st])
  case none
  with l show ?thesis by (simp add: lookup_find_file)
next
  case (some k)
  let ?f = "files st ! k"
  have "k < 64" using some(1) inv_table [OF inv] by simp
  from inv_slot [OF inv this] have len: "length (fdata ?f) = 8192" "fsize ?f \<le> 8192" by (auto simp: slot_ok_def)
  have s: "fsize ?f = int (length data)" using sz some(2) by simp
  have c: "take (length data) (fdata ?f) = data" using l some(1-3) s by (simp add: lookup_find_file content_def)
  then show ?thesis using some(2) assms(4,5) len by (simp add: diskfs_read_def s blit_0)
qed

section \<open>Unique names and deletion\<close>

definition unique_names :: "('d, 'a) fsys_scheme \<Rightarrow> bool" where
  "unique_names st \<longleftrightarrow> (\<forall>i<64. \<forall>j<64. i \<noteq> j \<longrightarrow> tt (fused (files st ! i)) \<longrightarrow> tt (fused (files st ! j)) \<longrightarrow>
     fparent (files st ! i) = fparent (files st ! j) \<longrightarrow>
     cstr (fname (files st ! i)) \<noteq> cstr (fname (files st ! j)))"

lemma unique_update:
  assumes un: "unique_names st" and len: "length (files st) = 64" and upd: "files st' = (files st)[k := f]"
    and new: "tt (fused f) \<Longrightarrow> \<forall>j<64. j \<noteq> k \<longrightarrow> tt (fused (files st ! j)) \<longrightarrow>
      fparent (files st ! j) = fparent f \<longrightarrow> cstr (fname (files st ! j)) \<noteq> cstr (fname f)"
  shows "unique_names st'"
proof -
  have nth: "files st' ! i = (if i = k then f else files st ! i)" if "i < 64" for i
    using that len by (simp add: upd)
  show ?thesis
    unfolding unique_names_def
  proof (intro allI impI)
    fix i j :: nat
    assume "i < 64" "j < 64" "i \<noteq> j" "tt (fused (files st' ! i))" "tt (fused (files st' ! j))"
      "fparent (files st' ! i) = fparent (files st' ! j)"
    then show "cstr (fname (files st' ! i)) \<noteq> cstr (fname (files st' ! j))"
      using un new nth [of i] nth [of j] unfolding unique_names_def by (metis (full_types))
  qed
qed

definition dir_inv :: "('d, 'a) fsys_scheme \<Rightarrow> bool" where
  "dir_inv st \<longleftrightarrow> fs_inv st \<and> unique_names st"

lemma delete_existing:
  assumes inv: "dir_inv st" and name: "nul_free name" and old: "lookup name st \<noteq> None"
  shows "\<exists>st'. diskfs_delete bus name st = (0, st') \<and> dir_inv st' \<and> lookup name st' = None \<and>
    (\<forall>other. nul_free other \<longrightarrow> other \<noteq> name \<longrightarrow> lookup other st' = lookup other st)"
proof (cases rule: find_file_cases [of name "current_dir st" st])
  case none
  with old show ?thesis by (simp add: lookup_find_file)
next
  case (some k)
  have fs: "fs_inv st" and un: "unique_names st" using inv by (auto simp: dir_inv_def)
  have len: "length (files st) = 64" by (rule inv_table [OF fs])
  let ?f = "(files st ! k)\<lparr>fused := 0\<rparr>"
  define st' where "st' = diskfs_save bus (emit (''Deleted: '' @ name @ [NL]) (st\<lparr>files := (files st)[k := ?f]\<rparr>))"
  have d: "diskfs_delete bus name st = (0, st')" using some by (simp add: diskfs_delete_def st'_def)
  have st': "files st' = (files st)[k := ?f]" "current_dir st' = current_dir st" by (simp_all add: st'_def)
  have "fs_inv st'" using inv_delete [OF fs, of bus name] d by simp
  moreover have "unique_names st'"
    by (rule unique_update [OF un len st'(1)]) simp
  moreover have "lookup name st' = None"
  proof -
    have "\<not> hit name (current_dir st) ((files st)[k := ?f] ! j)" if j: "j < 64" for j
    proof (cases "j = k")
      case True
      then show ?thesis using some len by (simp add: hit_def)
    next
      case False
      then show ?thesis
        using un some hit_name [OF fs j name] hit_name [OF fs, of k name "current_dir st"] len j name
        by (auto simp: unique_names_def)
    qed
    then have "\<forall>f\<in>set ((files st)[k := ?f]). \<not> hit name (current_dir st) f"
      using len by (metis in_set_conv_nth length_list_update)
    then show ?thesis by (simp add: lookup_def st' find_none)
  qed
  moreover have "lookup other st' = lookup other st" if "nul_free other" "other \<noteq> name" for other
  proof -
    have "\<not> hit other (current_dir st) (files st ! k)"
      using hit_name [OF fs, of k] some len that name by auto
    moreover have "\<not> hit other (current_dir st) ?f" by (simp add: hit_def)
    ultimately show ?thesis
      using find_update_miss [of "hit other (current_dir st)" ?f k "files st"] by (simp add: lookup_def st')
  qed
  ultimately show ?thesis using d by (auto simp: dir_inv_def)
qed

section \<open>The directory contract\<close>

locale directory =
  fixes inv :: "'s \<Rightarrow> bool"
    and look :: "string \<Rightarrow> 's \<Rightarrow> (bool \<times> string) option"
    and fits :: "string \<Rightarrow> 's \<Rightarrow> bool"
    and put :: "string \<Rightarrow> string \<Rightarrow> 's \<Rightarrow> 's option"
    and remove :: "string \<Rightarrow> 's \<Rightarrow> 's option"
  assumes put_ok: "inv s \<Longrightarrow> nul_free n \<Longrightarrow> length x \<le> 8192 \<Longrightarrow> look n s \<noteq> None \<or> fits n s \<Longrightarrow>
      \<exists>s' d. put n x s = Some s' \<and> inv s' \<and> look n s' = Some (d, x) \<and>
        (\<forall>m. nul_free m \<longrightarrow> m \<noteq> n \<longrightarrow> look m s' = look m s)"
    and remove_ok: "inv s \<Longrightarrow> nul_free n \<Longrightarrow> look n s \<noteq> None \<Longrightarrow>
      \<exists>s'. remove n s = Some s' \<and> inv s' \<and> look n s' = None \<and>
        (\<forall>m. nul_free m \<longrightarrow> m \<noteq> n \<longrightarrow> look m s' = look m s)"
begin

text \<open>Renaming by copying and deleting, the way the commands do it.\<close>

lemma rename:
  assumes "inv s" and "nul_free a" and "nul_free b" and "a \<noteq> b" and "look a s = Some (d, x)"
    and "length x \<le> 8192" and "look b s \<noteq> None \<or> fits b s"
  shows "\<exists>s1 s2 e. put b x s = Some s1 \<and> remove a s1 = Some s2 \<and> inv s2 \<and> look a s2 = None \<and>
    look b s2 = Some (e, x) \<and> (\<forall>m. nul_free m \<longrightarrow> m \<noteq> a \<longrightarrow> m \<noteq> b \<longrightarrow> look m s2 = look m s)"
proof -
  obtain s1 e where s1: "put b x s = Some s1" "inv s1" "look b s1 = Some (e, x)"
      "\<forall>m. nul_free m \<longrightarrow> m \<noteq> b \<longrightarrow> look m s1 = look m s"
    using put_ok [OF assms(1,3,6,7)] by blast
  have "look a s1 \<noteq> None" using s1(4) assms by simp
  from remove_ok [OF s1(2) assms(2) this] s1 assms(3,4) show ?thesis by (metis (no_types, lifting))
qed

end

definition fs_put :: "'d bus \<Rightarrow> string \<Rightarrow> string \<Rightarrow> ('d, 'a) fsys_scheme \<Rightarrow> ('d, 'a) fsys_scheme option" where
  "fs_put bus name data st =
     (case fs_write bus name data (int (length data)) st of
        Inr (r, st') \<Rightarrow> if r = 0 then Some st' else None | Inl e \<Rightarrow> None)"

definition fs_remove :: "'d bus \<Rightarrow> string \<Rightarrow> ('d, 'a) fsys_scheme \<Rightarrow> ('d, 'a) fsys_scheme option" where
  "fs_remove bus name st = (case fs_delete bus name st of (r, st') \<Rightarrow> if r = 0 then Some st' else None)"

lemma write_files:
  assumes inv: "fs_inv st" and name: "nul_free name" and data: "length data \<le> 8192"
    and w: "diskfs_write bus name data (int (length data)) st = Inr (0, st')"
    and room: "lookup name st = None \<Longrightarrow> room name st" and un: "unique_names st"
  shows "unique_names st'"
proof -
  have keep: "unique_names st2" if "fs_inv st1" "unique_names st1" "lookup name st1 \<noteq> None"
      "diskfs_write bus name data (int (length data)) st1 = Inr (0, st2)" for st1 st2 :: "('a, 'b) fsys_scheme"
  proof (cases rule: find_file_cases [of name "current_dir st1" st1])
    case none
    with that(3) show ?thesis by (simp add: lookup_find_file)
  next
    case (some k)
    have len: "length (files st1) = 64" by (rule inv_table [OF that(1)])
    have "is_int32 (int (length data))" using data by (intro is_int32_small) simp_all
    then have st2: "files st2 = (files st1)[k := written data (files st1 ! k)]"
      using write_slot_ok [of k st1 "int (length data)" data bus] some(1,2) data that(4)
      by (auto simp: diskfs_write_def written_def)
    show ?thesis
      by (rule unique_update [OF that(2) len st2])
        (use that(2) some(1) len in \<open>auto simp: unique_names_def written_def\<close>)
  qed
  show ?thesis
  proof (cases "lookup name st = None")
    case False
    then show ?thesis using keep [OF inv un _ w] by blast
  next
    case True
    obtain st1 where c: "diskfs_create bus name st = (0, st1)" "lookup name st1 = Some (False, [])"
      using create_new [OF inv name True room [OF True]] by blast
    have inv1: "fs_inv st1" using inv_create [OF inv, of bus name] c(1) by simp
    have idx: "find_file name (current_dir st) st = - 1"
      using True by (simp add: lookup_find_file Let_def split: if_splits)
    have len: "length (files st) = 64" by (rule inv_table [OF inv])
    have w1: "diskfs_write bus name data (int (length data)) st1 = Inr (0, st')"
      using w idx c by (auto simp: diskfs_write_def lookup_find_file Let_def split: if_splits)
    have "unique_names st1"
    proof (cases rule: find_free_cases [of st])
      case none
      then show ?thesis using room [OF True] by (simp add: room_def)
    next
      case (some k)
      let ?f = "new_slot name 0 (current_dir st) (files st ! k)"
      have k: "k < 64" using some len by simp
      have st1: "files st1 = (files st)[k := ?f]" using c(1) idx some by (auto simp: diskfs_create_def)
      have nm: "cstr (fname ?f) = name"
        using cstr_set_name [OF name] room [OF True] some inv_slot [OF inv k]
        by (simp add: new_slot_def room_def slot_ok_def)
      have no: "\<not> (tt (fused (files st ! j)) \<and> fparent (files st ! j) = current_dir st \<and>
          cstr (fname (files st ! j)) = name)" if "j < 64" for j
      proof -
        have "\<not> hit name (current_dir st) (files st ! j)"
          using True that len by (auto simp: lookup_def find_None_iff)
        then show ?thesis by (simp add: hit_name [OF inv that name])
      qed
      have par: "fparent ?f = current_dir st" by (simp add: new_slot_def)
      show ?thesis
        by (rule unique_update [OF un len st1]) (use no in \<open>simp only: nm par\<close>, blast)
    qed
    from keep [OF inv1 this _ w1] c(2) show ?thesis by simp
  qed
qed

interpretation fs_dir: directory dir_inv lookup room "fs_put bus" "fs_remove bus" for bus
proof (unfold_locales, goal_cases)
  case (1 s n x)
  have fs: "fs_inv s" and un: "unique_names s" using 1(1) by (auto simp: dir_inv_def)
  have "\<exists>s' d. diskfs_write bus n x (int (length x)) s = Inr (0, s') \<and> lookup n s' = Some (d, x) \<and>
      (\<forall>m. nul_free m \<longrightarrow> m \<noteq> n \<longrightarrow> lookup m s' = lookup m s)"
  proof (cases "lookup n s")
    case None
    with write_new [OF fs 1(2,3) None, of bus] 1(4) show ?thesis by blast
  next
    case (Some c)
    then obtain d y where "lookup n s = Some (d, y)" by (cases c) simp
    from write_existing [OF fs 1(2,3) this, of bus] show ?thesis by blast
  qed
  then obtain s' d where s': "diskfs_write bus n x (int (length x)) s = Inr (0, s')" "lookup n s' = Some (d, x)"
      "\<forall>m. nul_free m \<longrightarrow> m \<noteq> n \<longrightarrow> lookup m s' = lookup m s" by blast
  have "is_int32 (int (length x))" using 1(3) by (intro is_int32_small) simp_all
  from inv_write [OF fs this s'(1)] have "fs_inv s'" .
  moreover have "unique_names s'" by (rule write_files [OF fs 1(2,3) s'(1) _ un]) (use 1(4) in simp)
  ultimately show ?case using s' by (auto simp: fs_put_def fs_write_def dir_inv_def)
next
  case (2 s n)
  from delete_existing [OF this, of bus] show ?case by (auto simp: fs_remove_def fs_delete_def)
qed

section \<open>Every state the operations can reach\<close>

text \<open>
  The disk at the moment \<^verbatim>\<open>fs_init\<close> is entered in the state \<open>st\<close>: there is no drive, or loading from it
  finds no file system and leaves the table alone, or loading brings a consistent table. The code loads
  whatever follows a good superblock without looking at it.
\<close>

definition disk_fine :: "'d bus \<Rightarrow> ('d, 'a) fsys_scheme \<Rightarrow> bool" where
  "disk_fine bus st \<longleftrightarrow> ata_present st = 0 \<or>
     (case diskfs_load bus (emit (''Initializing filesystem...'' @ [NL]) st) of (r, st') \<Rightarrow> if r = 0 then files st' = files st else fs_inv st')"

text \<open>Every operation that changes the file system, from the start on, with or without a drive.\<close>

inductive fs_reachable :: "'d bus \<Rightarrow> 'd fsys \<Rightarrow> bool" for bus where
  start: "files st = replicate 64 blank_file \<Longrightarrow> current_dir st = 0 \<Longrightarrow> disk_fine bus st \<Longrightarrow> fs_reachable bus (fs_init bus st)"
| create: "fs_reachable bus st \<Longrightarrow> fs_create bus name st = (r, st') \<Longrightarrow> fs_reachable bus st'"
| mkdir: "fs_reachable bus st \<Longrightarrow> fs_mkdir bus name st = (r, st') \<Longrightarrow> fs_reachable bus st'"
| store: "fs_reachable bus st \<Longrightarrow> is_int32 sz \<Longrightarrow> fs_write bus name data sz st = Inr (r, st') \<Longrightarrow>
    fs_reachable bus st'"
| delete: "fs_reachable bus st \<Longrightarrow> fs_delete bus name st = (r, st') \<Longrightarrow> fs_reachable bus st'"
| cd: "fs_reachable bus st \<Longrightarrow> fs_cd path st = Inr (r, st') \<Longrightarrow> fs_reachable bus st'"

lemma nth_replicate_update: "i < n \<Longrightarrow> (replicate n x)[k := y] ! i = (if i = k then y else x)"
  by (auto simp: nth_list_update)

lemma fresh_inv:
  assumes "files st = replicate 64 blank_file" and "ata_present st = 0"
  shows "fs_inv (diskfs_init bus st)"
proof -
  let ?b = "fresh_slot blank_file"
  let ?r = "?b\<lparr>fused := 1, fis_dir := 1, fparent := - 1, fname := (fname ?b)[0 := CHR ''/'', 1 := NUL]\<rparr>"
  have init: "files (diskfs_init bus st) = (replicate 64 ?b)[0 := ?r]" "current_dir (diskfs_init bus st) = 0"
    using assms by (simp_all add: diskfs_init_def ata_drive_present_def)
  have "set ((replicate 64 ?b)[0 := ?r]) \<subseteq> {?r, ?b}"
    using set_update_subset_insert [of "replicate 64 ?b" 0 ?r] by auto
  moreover have "slot_ok f \<and> name_ok (fname f) \<and> fsize f \<le> 8192" if "f \<in> {?r, ?b}" for f
    using that by (auto simp: slot_ok_def name_ok_def fresh_slot_def blank_file_def is_int32_small)
  ultimately have all: "\<forall>f\<in>set ((replicate 64 ?b)[0 := ?r]). slot_ok f \<and> name_ok (fname f) \<and> fsize f \<le> 8192"
    by blast
  show ?thesis
    unfolding fs_inv_def init table_ok_def
    using all by (auto simp: list_all_iff MAX_FILES_def nth_replicate_update intro!: exI [of _ "0::nat"])
qed

lemma fs_inv_cong: "files st' = files st \<Longrightarrow> current_dir st' = current_dir st \<Longrightarrow> fs_inv st' = fs_inv st"
  by (simp add: fs_inv_def)

lemma init_inv:
  assumes "files s = replicate 64 blank_file" and "disk_fine bus s"
  shows "fs_inv (diskfs_init bus s)"
proof (cases "ata_present s = 0")
  case False
  let ?s = "emit (''Initializing filesystem...'' @ [NL]) s"
  obtain r s' where l: "diskfs_load bus ?s = (r, s')" by (cases "diskfs_load bus ?s")
  have fine: "if r = 0 then files s' = files s else fs_inv s'" using assms(2) False l by (simp add: disk_fine_def)
  show ?thesis
  proof (cases "r = 0")
    case True
    let ?q = "s\<lparr>ata_present := 0\<rparr>"
    have "files (diskfs_init bus s) = files (diskfs_init bus ?q)" "current_dir (diskfs_init bus s) = current_dir (diskfs_init bus ?q)"
      using True False fine l by (simp_all add: diskfs_init_def ata_drive_present_def Let_def)
    moreover have "fs_inv (diskfs_init bus ?q)" by (rule fresh_inv) (simp_all add: assms(1))
    ultimately show ?thesis using fs_inv_cong by blast
  next
    case r: False
    then have "files (diskfs_init bus s) = files s'" "current_dir (diskfs_init bus s) = current_dir s'"
      using False l by (simp_all add: diskfs_init_def ata_drive_present_def Let_def)
    then show ?thesis using fs_inv_cong fine r by auto
  qed
qed (rule fresh_inv [OF assms(1)])

text \<open>
  On a drive that follows the PIO protocol the condition is one on its sectors: the first sector has no
  magic number, or the drive holds the image of a consistent table, which is what \<^verbatim>\<open>diskfs_save\<close> leaves there.
\<close>

context pio_drive
begin

lemma load_blank:
  assumes "ready st" and "rd_le32 (take 4 (stored st FS_START_LBA)) \<noteq> FS_MAGIC"
  shows "\<exists>d. diskfs_load bus st = (0, st\<lparr>dev := d\<rparr>)"
proof -
  have small: "unat (of_nat FS_START_LBA :: u32) < 2 ^ 28" by (simp add: unat_start) (simp add: fs_consts)
  obtain d where "ata_read_sector bus (of_nat FS_START_LBA) (replicate 512 0) st = (0, stored st FS_START_LBA, st\<lparr>dev := d\<rparr>)"
    using ata_read_sector_ok [OF assms(1) small, of "replicate 512 0"] unfolding unat_start by auto
  then show ?thesis using assms(2) by (intro exI [of _ d]) (simp add: diskfs_load_def)
qed

lemma drive_fine:
  assumes "ready st" and "table_ok (files st)"
    and "rd_le32 (take 4 (stored st FS_START_LBA)) \<noteq> FS_MAGIC \<or> (\<exists>fs. drive_image view st fs \<and> fs_inv (st\<lparr>files := fs\<rparr>))"
  shows "disk_fine bus st"
proof -
  let ?s = "emit (''Initializing filesystem...'' @ [NL]) st"
  have d: "dev ?s = dev st" "ata_present ?s = ata_present st" by (simp_all add: emit_def)
  have ok: "ready ?s" and at: "stored ?s = stored st" using drive_views_cong(1) [OF d(1)] drive_views_cong(2) [OF d] assms(1) by simp_all
  show ?thesis using assms(3)
  proof
    assume "rd_le32 (take 4 (stored st FS_START_LBA)) \<noteq> FS_MAGIC"
    then obtain d where "diskfs_load bus ?s = (0, ?s\<lparr>dev := d\<rparr>)" using load_blank [OF ok] unfolding at by blast
    then show ?thesis by (simp add: disk_fine_def)
  next
    assume "\<exists>fs. drive_image view st fs \<and> fs_inv (st\<lparr>files := fs\<rparr>)"
    then obtain fs where fs: "drive_image view ?s fs" "fs_inv (st\<lparr>files := fs\<rparr>)" using drive_views_cong(3) [OF d(1), of view] by auto
    then have "table_ok fs" by (simp add: fs_inv_def)
    then obtain d where l: "diskfs_load bus ?s = (1, ?s\<lparr>dev := d, files := fs\<rparr>)" using load_ok [OF ok fs(1)] assms(2) by auto
    have "fs_inv (?s\<lparr>dev := d, files := fs\<rparr>)" using fs(2) fs_inv_cong [of "?s\<lparr>dev := d, files := fs\<rparr>" "st\<lparr>files := fs\<rparr>"] by simp
    then show ?thesis using l by (simp add: disk_fine_def)
  qed
qed

end

lemma reachable_fs_inv: "fs_reachable bus st \<Longrightarrow> fs_inv st"
proof (induction rule: fs_reachable.induct)
  case (start st)
  then show ?case by (simp add: fs_defs init_inv)
next
  case (create st name r st')
  then show ?case using inv_create [of st bus name] by (simp add: fs_defs)
next
  case (mkdir st name r st')
  then show ?case using inv_mkdir [of st bus name] by (simp add: fs_defs)
next
  case (store st sz name data r st')
  then show ?case using inv_write [of st sz bus name data r st'] by (simp add: fs_defs)
next
  case (delete st name r st')
  then show ?case using inv_delete [of st bus name] by (simp add: fs_defs)
next
  case (cd st path r st')
  then show ?case using cd_ok [of st path] by (auto simp: fs_defs)
qed

section \<open>Names that are stored differently\<close>

lemma cstr_nth_NUL: "i < length xs \<Longrightarrow> length (cstr xs) = i \<Longrightarrow> xs ! i = NUL"
proof -
  assume i: "i < length xs" "length (cstr xs) = i"
  then have "length (takeWhile (\<lambda>c. c \<noteq> NUL) xs) < length xs" by (simp add: cstr_def)
  from nth_length_takeWhile [OF this] i show ?thesis by (simp add: cstr_def)
qed

lemma cstr_set_name_differs:
  assumes nm: "length nm = 32" and name: "nul_free name"
    and bad: "32 \<le> length name \<or> length name < 31 \<and> nm ! length name \<noteq> NUL"
  shows "cstr (set_name name nm) \<noteq> name"
proof
  assume eq: "cstr (set_name name nm) = name"
  have len: "length (set_name name nm) = 32" using nm by (simp add: set_name_def)
  have "name_ok (set_name name nm)" by (rule set_name_ok [OF nm])
  then have last: "set_name name nm ! 31 = NUL" by (simp add: name_ok_def)
  have "length name \<noteq> 32"
  proof
    assume "length name = 32"
    then have "set_name name nm = name"
      using eq len by (metis cstr_def length_takeWhile_le takeWhile_eq_take take_all order_refl)
    with last name \<open>length name = 32\<close> show False by (metis nul_free_def nth_mem numeral_less_iff semiring_norm(76,81,84))
  qed
  moreover have "length name \<le> 32" using eq length_cstr_le [of "set_name name nm"] len by simp
  ultimately have short: "length name < 31" "nm ! length name \<noteq> NUL" using bad by auto
  have "set_name name nm ! length name = NUL" by (rule cstr_nth_NUL) (use eq len short in auto)
  moreover have "set_name name nm ! length name = nm ! length name"
    using short nm by (simp add: set_name_def MAX_FILENAME_def nth_blit)
  ultimately show False using short by simp
qed

section \<open>Properties\<close>

text \<open>The machine without a drive, and the file system right after initialisation.\<close>

definition ram_boot :: "pio fsys" where
  "ram_boot = blank_fs\<lparr>ata_present := 0\<rparr>"

definition fresh_fs :: "pio fsys" where
  "fresh_fs = fs_init pio_bus ram_boot"

lemma fresh_reachable: "fs_reachable pio_bus fresh_fs"
  unfolding fresh_fs_def by (rule fs_reachable.start) (simp_all add: ram_boot_def blank_fs_def disk_fine_def)

text \<open>A machine with a drive on which nothing has been saved yet, and one file written to it.\<close>

lemma zero_words: "bytes_of_words (replicate n 0) = replicate (2 * n) 0"
  by (induction n) simp_all

lemma blank_drive_fine: "disk_fine pio_bus blank_fs"
proof (rule sim_drive.drive_fine [OF blank_fs_ready blank_fs_table], rule disjI1)
  have "drive_sectors (\<lambda>d. d) blank_fs FS_START_LBA = replicate 512 0"
    by (simp add: drive_sectors_def blank_fs_def blank_drive_def zero_words)
  then show "rd_le32 (take 4 (drive_sectors (\<lambda>d. d) blank_fs FS_START_LBA)) \<noteq> FS_MAGIC"
    by (simp add: rd_le32_def fs_consts swrap_def)
qed

definition drive_fs :: "pio fsys" where
  "drive_fs = snd (fs_create pio_bus ''a.txt'' (fs_init pio_bus blank_fs))"

lemma drive_reachable: "fs_reachable pio_bus drive_fs"
proof -
  have "fs_reachable pio_bus (fs_init pio_bus blank_fs)"
    by (rule fs_reachable.start) (simp_all add: blank_drive_fine, simp_all add: blank_fs_def)
  from fs_reachable.create [OF this] show ?thesis unfolding drive_fs_def by (metis prod.collapse)
qed

lemma fresh_files:
  "files fresh_fs = (replicate 64 (fresh_slot blank_file))[0 := (fresh_slot blank_file)
     \<lparr>fused := 1, fis_dir := 1, fparent := - 1, fname := (fname (fresh_slot blank_file))[0 := CHR ''/'', 1 := NUL]\<rparr>]"
  "current_dir fresh_fs = 0" "ata_present fresh_fs = 0"
  by (simp_all add: fresh_fs_def fs_init_def diskfs_init_def ata_drive_present_def ram_boot_def blank_fs_def)

lemma fresh_nth: "k < 64 \<Longrightarrow> k \<noteq> 0 \<Longrightarrow> files fresh_fs ! k = fresh_slot blank_file"
  by (simp add: fresh_files nth_replicate_update)

lemma fresh_unused: "k < 64 \<Longrightarrow> k \<noteq> 0 \<Longrightarrow> fused (files fresh_fs ! k) = 0"
  by (simp add: fresh_nth fresh_slot_def)

lemma fresh_lookup: "lookup name fresh_fs = None"
proof -
  have "\<not> hit name 0 (files fresh_fs ! k)" if "k < 64" for k
    by (cases "k = 0") (use that fresh_unused in \<open>auto simp: hit_def fresh_files\<close>)
  then have "\<forall>f\<in>set (files fresh_fs). \<not> hit name 0 f"
    by (metis in_set_conv_nth length_list_update length_replicate fresh_files(1))
  then show ?thesis by (simp add: lookup_def fresh_files(2) find_none)
qed

lemma fresh_find_free: "find_free fresh_fs = 1"
proof -
  have r: "replicate 64 x = x # x # replicate 62 x" for x :: dfile by (simp add: numeral_eq_Suc)
  show ?thesis unfolding find_free_def fresh_files r by (simp add: fresh_slot_def)
qed

lemma fresh_room: "length name < 32 \<Longrightarrow> room name fresh_fs"
proof -
  assume "length name < 32"
  moreover have "fname (files fresh_fs ! 1) = replicate 32 NUL"
    by (simp add: fresh_nth fresh_slot_def blank_file_def) (simp add: numeral_eq_Suc)
  ultimately show ?thesis by (simp add: room_def fresh_find_free)
qed

lemma fresh_dir_inv: "dir_inv fresh_fs"
proof -
  have "unique_names fresh_fs"
    unfolding unique_names_def
  proof (intro allI impI)
    fix i j :: nat
    assume "i < 64" "j < 64" "i \<noteq> j" "tt (fused (files fresh_fs ! i))" "tt (fused (files fresh_fs ! j))"
    then show "cstr (fname (files fresh_fs ! i)) \<noteq> cstr (fname (files fresh_fs ! j))"
      using fresh_unused [of i] fresh_unused [of j] by metis
  qed
  then show ?thesis using reachable_fs_inv [OF fresh_reachable] by (simp add: dir_inv_def)
qed

text \<open>
  C9. No sequence of create, mkdir, write, delete and cd damages the file system that \<^verbatim>\<open>fs_init\<close> sets up,
  with any device underneath, as long as what the start finds on the drive, if there is one, is no file
  system or a consistent one: the root directory stays, the current directory is always a live directory
  that is connected to the root by its chain of parents, every name array is terminated and every recorded
  size fits the data array. Saving may fail at any point, for whatever reason the device has.
\<close>

theorem fs_always_consistent:
  assumes "fs_reachable bus st"
  shows "length (files st) = 64 \<and> tt (fused (files st ! 0)) \<and> fparent (files st ! 0) = - 1 \<and>
    0 \<le> current_dir st \<and> current_dir st < 64 \<and> (\<exists>n. up (files st) n (nat (current_dir st))) \<and>
    (\<forall>f\<in>set (files st). name_ok (fname f) \<and> fsize f \<le> 8192)"
  using reachable_fs_inv [OF assms] inv_table [of st] inv_cur [of st] by (simp add: fs_inv_def)

theorem fs_always_consistent_witness:
  "fs_reachable pio_bus drive_fs \<and> length (files drive_fs) = 64 \<and> tt (fused (files drive_fs ! 0)) \<and> current_dir drive_fs < 64"
  using fs_always_consistent [OF drive_reachable] drive_reachable by simp

text \<open>
  C10. What is written can be read back: writing data to an existing file, or to a new name for
  which a slot has room, succeeds, and reading it with a buffer that is large enough returns the
  number of bytes and exactly those bytes; all other names of the directory read as before.
\<close>

theorem fs_write_read:
  assumes "fs_inv st" and "nul_free name" and "length data \<le> 8192" and "length data \<le> length buffer"
    and "lookup name st \<noteq> None \<or> room name st"
  shows "\<exists>st'. fs_write bus name data (int (length data)) st = Inr (0, st') \<and>
    fs_read name buffer (int (length buffer)) st' =
      Inr (int (length data), data @ drop (length data) buffer, st') \<and>
    (\<forall>other. nul_free other \<longrightarrow> other \<noteq> name \<longrightarrow> lookup other st' = lookup other st)"
proof -
  obtain st' d where st': "diskfs_write bus name data (int (length data)) st = Inr (0, st')"
      "lookup name st' = Some (d, data)"
      "\<forall>other. nul_free other \<longrightarrow> other \<noteq> name \<longrightarrow> lookup other st' = lookup other st"
      "fsize (files st' ! nat (find_file name (current_dir st') st')) = int (length data)" "fs_inv st'"
    using write_known [OF assms(1-3,5)] by blast
  then show ?thesis using read_known [OF st'(5,2,4) _ assms(4), of "int (length buffer)"] assms(4) by (auto simp: fs_defs)
qed

lemma hello_fresh: "fs_inv fresh_fs" "nul_free ''a.txt''" "room ''a.txt'' fresh_fs"
  using fresh_dir_inv by (simp_all add: dir_inv_def nul_free_def NUL_def fresh_room)

theorem fs_write_read_witness:
  "\<exists>st'. fs_write pio_bus ''a.txt'' ''hello'' 5 fresh_fs = Inr (0, st') \<and>
    fs_read ''a.txt'' (replicate 8 NUL) 8 st' = Inr (5, ''hello'' @ replicate 3 NUL, st')"
  using fs_write_read [OF hello_fresh(1,2), of "''hello''" "replicate 8 NUL" pio_bus] hello_fresh(3) by auto

text \<open>
  Deleting a name of the current directory succeeds and removes exactly that name, and a
  file that is copied to a new name and then deleted has been renamed: the two steps leave the
  contents under the new name only and no other name changed.
\<close>

theorem fs_copy_delete_renames:
  assumes "dir_inv st" and "nul_free a" and "nul_free b" and "a \<noteq> b" and "lookup a st = Some (d, x)"
    and "length x \<le> 8192" and "lookup b st \<noteq> None \<or> room b st"
  shows "\<exists>st1 st2 e. fs_write bus b x (int (length x)) st = Inr (0, st1) \<and> fs_delete bus a st1 = (0, st2) \<and>
    lookup a st2 = None \<and> lookup b st2 = Some (e, x) \<and>
    (\<forall>m. nul_free m \<longrightarrow> m \<noteq> a \<longrightarrow> m \<noteq> b \<longrightarrow> lookup m st2 = lookup m st)"
proof -
  obtain s1 s2 e where s: "fs_put bus b x st = Some s1" "fs_remove bus a s1 = Some s2" "lookup a s2 = None"
      "lookup b s2 = Some (e, x)" "\<forall>m. nul_free m \<longrightarrow> m \<noteq> a \<longrightarrow> m \<noteq> b \<longrightarrow> lookup m s2 = lookup m st"
    using fs_dir.rename [OF assms, of bus] by blast
  have "fs_write bus b x (int (length x)) st = Inr (0, s1)" "fs_delete bus a s1 = (0, s2)"
    using s(1,2) by (auto simp: fs_put_def fs_remove_def split: sum.splits prod.splits if_splits)
  with s(3-5) show ?thesis by blast
qed

lemma fresh_create_a:
  "\<exists>st. diskfs_create pio_bus ''a'' fresh_fs = (0, st) \<and> dir_inv st \<and> lookup ''a'' st = Some (False, []) \<and> room ''b'' st"
proof -
  have n: "nul_free ''a''" by (simp add: nul_free_def NUL_def)
  obtain st where st: "diskfs_create pio_bus ''a'' fresh_fs = (0, st)" "lookup ''a'' st = Some (False, [])"
    using create_new [OF hello_fresh(1) n fresh_lookup fresh_room] by auto
  have idx: "find_file ''a'' (current_dir fresh_fs) fresh_fs = - 1"
    using fresh_lookup [of "''a''"] by (simp add: lookup_find_file Let_def split: if_splits)
  have fl: "files st = (files fresh_fs)[1 := new_slot ''a'' 0 0 (fresh_slot blank_file)]"
    using st(1) idx fresh_find_free fresh_nth [of 1] by (auto simp: diskfs_create_def fresh_files(2))
  have inv: "fs_inv st" using inv_create [OF hello_fresh(1), of pio_bus "''a''"] st(1) by simp
  have "unique_names st"
    by (rule unique_update [OF _ _ fl])
      (use fresh_dir_inv fresh_unused inv_table [OF hello_fresh(1)] in
        \<open>auto simp: dir_inv_def new_slot_def fresh_files(1) nth_list_update\<close>)
  moreover have "find_free st = 2"
  proof -
    have r: "replicate 64 x = x # x # x # replicate 61 x" for x :: dfile by (simp add: numeral_eq_Suc)
    show ?thesis unfolding find_free_def fl fresh_files r by (simp add: fresh_slot_def new_slot_def)
  qed
  moreover have "fname (files st ! 2) ! 1 = NUL"
    by (simp add: fl fresh_nth fresh_slot_def blank_file_def)
  ultimately show ?thesis using st inv by (simp add: dir_inv_def room_def)
qed

theorem fs_copy_delete_renames_witness:
  "\<exists>st st1 st2 e. fs_create pio_bus ''a'' fresh_fs = (0, st) \<and> fs_write pio_bus ''b'' [] 0 st = Inr (0, st1) \<and>
    fs_delete pio_bus ''a'' st1 = (0, st2) \<and> lookup ''a'' st2 = None \<and> lookup ''b'' st2 = Some (e, [])"
proof -
  have n: "nul_free ''a''" "nul_free ''b''" by (simp_all add: nul_free_def NUL_def)
  obtain st where st: "diskfs_create pio_bus ''a'' fresh_fs = (0, st)" "dir_inv st"
      "lookup ''a'' st = Some (False, [])" "room ''b'' st" using fresh_create_a by blast
  from fs_copy_delete_renames [OF st(2) n _ st(3), of pio_bus] st(1,4) show ?thesis by (auto simp: fs_create_def)
qed

text \<open>
  A new name is not always stored as given: when the free slot still holds a longer name that
  goes on behind the new one (the copy writes no terminator), or when the name has 32 or more
  characters, \<^verbatim>\<open>diskfs_write\<close> creates an entry it then cannot find, and writes through index -1
  of the file table.
\<close>

theorem fs_write_lost_name:
  assumes "fs_inv st" and "nul_free name" and "lookup name st = None" and "find_free st = int k"
    and "32 \<le> length name \<or> length name < 31 \<and> fname (files st ! k) ! length name \<noteq> NUL" and "sz \<le> 8192"
  shows "fs_write bus name data sz st = Inl OutOfBounds"
proof -
  have len: "length (files st) = 64" by (rule inv_table [OF assms(1)])
  have k: "k < 64" using assms(4) len by (cases rule: find_free_cases [of st]) auto
  let ?f = "new_slot name 0 (current_dir st) (files st ! k)"
  have idx: "find_file name (current_dir st) st = - 1"
    using assms(3) by (simp add: lookup_find_file Let_def split: if_splits)
  define st1 where "st1 = diskfs_save bus (emit (''Created: '' @ name @ [NL]) (st\<lparr>files := (files st)[k := ?f]\<rparr>))"
  have c: "diskfs_create bus name st = (0, st1)" using idx assms(4) by (simp add: diskfs_create_def st1_def)
  have st1: "files st1 = (files st)[k := ?f]" "current_dir st1 = current_dir st" by (simp_all add: st1_def)
  have "name_ok (fname ?f)" by (rule new_slot_ok [OF assms(1) k]) simp
  moreover have "cstr (fname ?f) \<noteq> name"
    using cstr_set_name_differs [OF _ assms(2,5)] inv_slot [OF assms(1) k] by (simp add: new_slot_def slot_ok_def)
  ultimately have "\<not> hit name (current_dir st) ?f" using name_match_cstr [OF assms(2)] by (simp add: hit_def)
  then have "lookup name st1 = None"
    using find_update_miss [of "hit name (current_dir st)" ?f k "files st"] assms(3) len k
    by (auto simp: lookup_def st1 find_None_iff)
  then have "find_file name (current_dir st1) st1 = - 1"
    by (simp add: lookup_find_file Let_def split: if_splits)
  then show ?thesis using idx c assms(6) by (simp add: fs_write_def diskfs_write_def write_slot_def MAX_FILE_SIZE_def)
qed

theorem fs_write_lost_name_witness:
  "fs_write pio_bus (replicate 32 (CHR ''x'')) ''data'' 4 fresh_fs = Inl OutOfBounds"
  by (rule fs_write_lost_name [where k = 1])
    (simp_all add: hello_fresh fresh_lookup fresh_find_free nul_free_def NUL_def)

end
