(* ===== verification/Storage.thy ===== *)
theory Storage
  imports Diskfs_Persist
begin

text \<open>
  The storage layers beside the file system: \<^verbatim>\<open>src/storage.c\<close> (a window of the ATA disk),
  \<^verbatim>\<open>src/storage_interface.c\<close> (a registry of backends selected by name), its backends
  \<^verbatim>\<open>src/storage_ata.c\<close> and \<^verbatim>\<open>src/storage_qemu.c\<close>, and the older PIO driver \<^verbatim>\<open>src/disk.c\<close>.
  The RAM backend that \<^verbatim>\<open>storage_qemu.c\<close> forwards to is not in the sources and is a parameter.
\<close>

section \<open>storage.c\<close>

definition STORAGE_BLOCKS :: nat where "STORAGE_BLOCKS = 10240"

record 'd storage = "'d ata" +
  storage_ready :: int

definition storage_init :: "'d bus \<Rightarrow> ('d, 'a) storage_scheme \<Rightarrow> ('d, 'a) storage_scheme" where
  "storage_init bus st =
     (let st = emit (''Initializing storage with ATA...'' @ [NL]) st;
          st = ata_init bus st
      in if tt (ata_drive_present st)
         then emit (''Storage ready (using real ATA disk)'' @ [NL] @ ''Files will survive reboots!'' @ [NL])
                (st\<lparr>storage_ready := 1\<rparr>)
         else (emit (''No ATA drive - storage unavailable'' @ [NL]) st)\<lparr>storage_ready := 0\<rparr>)"

definition storage_read :: "'d bus \<Rightarrow> u32 \<Rightarrow> u8 list \<Rightarrow> ('d, 'a) storage_scheme \<Rightarrow>
    int \<times> u8 list \<times> ('d, 'a) storage_scheme" where
  "storage_read bus block buffer st =
     (if storage_ready st = 0 \<or> of_nat STORAGE_BLOCKS \<le> block then (- 1, buffer, st)
      else let lba = 100 + block in ata_read_sector bus lba buffer st)"

definition storage_write :: "'d bus \<Rightarrow> u32 \<Rightarrow> u8 list \<Rightarrow> ('d, 'a) storage_scheme \<Rightarrow>
    int \<times> ('d, 'a) storage_scheme" where
  "storage_write bus block buffer st =
     (if storage_ready st = 0 \<or> of_nat STORAGE_BLOCKS \<le> block then (- 1, st)
      else let lba = 100 + block in ata_write_sector bus lba buffer st)"

definition storage_is_present :: "('d, 'a) storage_scheme \<Rightarrow> int" where
  "storage_is_present st = storage_ready st"

section \<open>storage_interface.c\<close>

text \<open>
  A backend is a structure of function pointers, any of which may be NULL; \<open>bk_addr\<close> is the
  address of the structure, which is what the registry compares.
\<close>

record 's backend =
  bk_addr :: nat
  bk_name :: string
  bk_init :: "('s \<Rightarrow> int \<times> 's) option"
  bk_read :: "(u32 \<Rightarrow> u8 list \<Rightarrow> 's \<Rightarrow> int \<times> u8 list \<times> 's) option"
  bk_write :: "(u32 \<Rightarrow> u8 list \<Rightarrow> 's \<Rightarrow> int \<times> 's) option"
  bk_present :: "('s \<Rightarrow> int) option"

record 's registry =
  backends :: "'s backend list"
  current_backend :: "'s backend option"

definition MAX_BACKENDS :: nat where "MAX_BACKENDS = 4"

definition storage_register_backend :: "'a console_scheme backend \<Rightarrow>
    'a console_scheme registry \<times> 'a console_scheme \<Rightarrow> 'a console_scheme registry \<times> 'a console_scheme" where
  "storage_register_backend b rs =
     (case rs of (reg, s) \<Rightarrow>
        if length (backends reg) < MAX_BACKENDS
        then (reg\<lparr>backends := backends reg @ [b]\<rparr>,
              emit (''Registered storage backend: '' @ bk_name b @ [NL]) s)
        else (reg, s))"

text \<open>The comparison loop \<^verbatim>\<open>while (*a && *b && *a == *b)\<close>, then \<^verbatim>\<open>*a == *b\<close>.\<close>

fun same_name :: "string \<Rightarrow> string \<Rightarrow> bool" where
  "same_name (a # as) (b # bs) = (if a \<noteq> NUL \<and> b \<noteq> NUL \<and> a = b then same_name as bs else a = b)"
| "same_name [] bs = (NUL = cstr_at bs 0)"
| "same_name (a # as) [] = (a = NUL)"

fun select_from :: "'s backend list \<Rightarrow> string \<Rightarrow> 's backend option" where
  "select_from [] name = None"
| "select_from (b # bs) name = (if same_name (bk_name b) name then Some b else select_from bs name)"

definition storage_select_backend :: "string \<Rightarrow>
    'a console_scheme registry \<times> 'a console_scheme \<Rightarrow> 'a console_scheme registry \<times> 'a console_scheme" where
  "storage_select_backend name rs =
     (case rs of (reg, s) \<Rightarrow>
        case select_from (backends reg) name of
          Some b \<Rightarrow> (reg\<lparr>current_backend := Some b\<rparr>, emit (''Selected storage backend: '' @ bk_name b @ [NL]) s)
        | None \<Rightarrow> (reg, emit (''Backend not found: '' @ name @ [NL]) s))"

definition backend_init :: "'s registry \<Rightarrow> 's \<Rightarrow> int \<times> 's" where
  "backend_init reg s =
     (case current_backend reg of None \<Rightarrow> (- 1, s)
      | Some b \<Rightarrow> (case bk_init b of None \<Rightarrow> (- 1, s) | Some f \<Rightarrow> f s))"

definition storage_read_sector :: "'s registry \<Rightarrow> u32 \<Rightarrow> u8 list \<Rightarrow> 's \<Rightarrow> int \<times> u8 list \<times> 's" where
  "storage_read_sector reg lba buffer s =
     (case current_backend reg of None \<Rightarrow> (- 1, buffer, s)
      | Some b \<Rightarrow> (case bk_read b of None \<Rightarrow> (- 1, buffer, s) | Some f \<Rightarrow> f lba buffer s))"

definition storage_write_sector :: "'s registry \<Rightarrow> u32 \<Rightarrow> u8 list \<Rightarrow> 's \<Rightarrow> int \<times> 's" where
  "storage_write_sector reg lba buffer s =
     (case current_backend reg of None \<Rightarrow> (- 1, s)
      | Some b \<Rightarrow> (case bk_write b of None \<Rightarrow> (- 1, s) | Some f \<Rightarrow> f lba buffer s))"

definition storage_present :: "'s registry \<Rightarrow> 's \<Rightarrow> int" where
  "storage_present reg s =
     (case current_backend reg of None \<Rightarrow> 0
      | Some b \<Rightarrow> (case bk_present b of None \<Rightarrow> 0 | Some f \<Rightarrow> f s))"

definition storage_list_backends :: "'s registry \<Rightarrow> 'a console_scheme \<Rightarrow> 'a console_scheme" where
  "storage_list_backends reg s =
     fold (\<lambda>b s. emit (''  - '' @ bk_name b @
              (if map_option bk_addr (current_backend reg) = Some (bk_addr b) then '' (active)'' else []) @ [NL]) s)
       (backends reg) (emit (''Available storage backends:'' @ [NL]) s)"

section \<open>The backends\<close>

definition ata_storage_init :: "'d bus \<Rightarrow> ('d, 'a) ata_scheme \<Rightarrow> int \<times> ('d, 'a) ata_scheme" where
  "ata_storage_init bus st =
     (let st = ata_init bus (emit (''Initializing ATA storage backend...'' @ [NL]) st) in
      if tt (ata_drive_present st) then (0, emit (''ATA storage ready (real disk)'' @ [NL]) st)
      else (- 1, emit (''ATA storage not available'' @ [NL]) st))"

definition ata_storage_read_sector :: "'d bus \<Rightarrow> u32 \<Rightarrow> u8 list \<Rightarrow> ('d, 'a) ata_scheme \<Rightarrow>
    int \<times> u8 list \<times> ('d, 'a) ata_scheme" where
  "ata_storage_read_sector bus lba buffer st = ata_read_sector bus (100 + lba) buffer st"

definition ata_storage_write_sector :: "'d bus \<Rightarrow> u32 \<Rightarrow> u8 list \<Rightarrow> ('d, 'a) ata_scheme \<Rightarrow>
    int \<times> ('d, 'a) ata_scheme" where
  "ata_storage_write_sector bus lba buffer st = ata_write_sector bus (100 + lba) buffer st"

definition ata_storage_present :: "('d, 'a) ata_scheme \<Rightarrow> int" where
  "ata_storage_present st = ata_drive_present st"

definition ata_backend :: "nat \<Rightarrow> 'd bus \<Rightarrow> ('d, 'a) ata_scheme backend" where
  "ata_backend addr bus = \<lparr>bk_addr = addr, bk_name = ''ata'', bk_init = Some (ata_storage_init bus),
     bk_read = Some (ata_storage_read_sector bus), bk_write = Some (ata_storage_write_sector bus),
     bk_present = Some ata_storage_present\<rparr>"

definition qemu_init :: "'a console_scheme \<Rightarrow> int \<times> 'a console_scheme" where
  "qemu_init st = (0, emit (''Initializing QEMU persistent storage backend...'' @ [NL] @
     ''Note: Use '' @ [CHR 0x27] @ ''save'' @ [CHR 0x27] @ '' to persist, '' @ [CHR 0x27] @ ''load'' @ [CHR 0x27] @
     '' to restore'' @ [NL] @ ''Storage will survive reboots within same QEMU session'' @ [NL]) st)"

text \<open>\<open>ram_read\<close> and \<open>ram_write\<close> stand for the functions of the external \<^verbatim>\<open>ram_backend\<close>.\<close>

definition qemu_backend :: "nat \<Rightarrow> (u32 \<Rightarrow> u8 list \<Rightarrow> 'a console_scheme \<Rightarrow> int \<times> u8 list \<times> 'a console_scheme) \<Rightarrow>
    (u32 \<Rightarrow> u8 list \<Rightarrow> 'a console_scheme \<Rightarrow> int \<times> 'a console_scheme) \<Rightarrow> 'a console_scheme backend" where
  "qemu_backend addr ram_read ram_write = \<lparr>bk_addr = addr, bk_name = ''qemu'', bk_init = Some qemu_init,
     bk_read = Some (\<lambda>lba buffer s. ram_read lba buffer s), bk_write = Some (\<lambda>lba buffer s. ram_write lba buffer s),
     bk_present = Some (\<lambda>s. 1)\<rparr>"

section \<open>disk.c\<close>

fun disk_wait :: "'d bus \<Rightarrow> nat \<Rightarrow> ('d, 'a) machine_scheme \<Rightarrow> ('d, 'a) machine_scheme" where
  "disk_wait bus 0 st = st"
| "disk_wait bus (Suc i) st =
     (let (s, st) = inb bus 0x1F7 st in if s AND 0x80 = 0 then st else disk_wait bus i st)"

definition ata_wait :: "'d bus \<Rightarrow> ('d, 'a) machine_scheme \<Rightarrow> ('d, 'a) machine_scheme" where
  "ata_wait bus st = disk_wait bus 1000 st"

definition disk_init :: "'d bus \<Rightarrow> ('d, 'a) machine_scheme \<Rightarrow> ('d, 'a) machine_scheme" where
  "disk_init bus st =
     (let st = emit (''Initializing ATA drive...'' @ [NL]) st;
          st = outb bus 0x1F6 0xA0 st;
          st = ata_wait bus st;
          (status, st) = inb bus 0x1F7 st
      in if status = 0xFF then emit (''No drive detected! Using RAM-only mode.'' @ [NL]) st
         else emit (''ATA drive detected'' @ [NL]) st)"

definition disk_setup :: "'d bus \<Rightarrow> u32 \<Rightarrow> u8 \<Rightarrow> ('d, 'a) machine_scheme \<Rightarrow> ('d, 'a) machine_scheme" where
  "disk_setup bus lba cmd st =
     (let st = outb bus 0x1F6 (0xE0 OR (ucast (drop_bit 24 lba) AND 0x0F)) st;
          st = outb bus 0x1F2 1 st;
          st = outb bus 0x1F3 (ucast lba) st;
          st = outb bus 0x1F4 (ucast (drop_bit 8 lba)) st;
          st = outb bus 0x1F5 (ucast (drop_bit 16 lba)) st
      in outb bus 0x1F7 cmd st)"

text \<open>Each 16-bit datum is two byte reads of the data port.\<close>

fun inb_loop :: "'d bus \<Rightarrow> nat \<Rightarrow> ('d, 'a) machine_scheme \<Rightarrow> u8 list \<times> ('d, 'a) machine_scheme" where
  "inb_loop bus 0 st = ([], st)"
| "inb_loop bus (Suc k) st =
     (let (lo, st) = inb bus 0x1F0 st; (hi, st) = inb bus 0x1F0 st; (bs, st) = inb_loop bus k st
      in (lo # hi # bs, st))"

fun outb_loop :: "'d bus \<Rightarrow> u8 list \<Rightarrow> ('d, 'a) machine_scheme \<Rightarrow> ('d, 'a) machine_scheme" where
  "outb_loop bus [] st = st"
| "outb_loop bus (b # bs) st = outb_loop bus bs (outb bus 0x1F0 b st)"

definition disk_read_sector :: "'d bus \<Rightarrow> u32 \<Rightarrow> u8 list \<Rightarrow> ('d, 'a) machine_scheme \<Rightarrow>
    int \<times> u8 list \<times> ('d, 'a) machine_scheme" where
  "disk_read_sector bus lba buffer st =
     (let st = ata_wait bus st;
          st = disk_setup bus lba 0x20 st;
          st = ata_wait bus st;
          (status, st) = inb bus 0x1F7 st
      in if status AND 0x21 \<noteq> 0 then (- 1, buffer, st)
         else let (bs, st) = inb_loop bus 256 st in (0, blit buffer 0 bs, st))"

definition disk_write_sector :: "'d bus \<Rightarrow> u32 \<Rightarrow> u8 list \<Rightarrow> ('d, 'a) machine_scheme \<Rightarrow>
    int \<times> ('d, 'a) machine_scheme" where
  "disk_write_sector bus lba buffer st =
     (let st = ata_wait bus st;
          st = disk_setup bus lba 0x30 st;
          st = ata_wait bus st;
          st = outb_loop bus (take 512 buffer) st;
          st = outb bus 0x1F7 0xE7 st
      in (0, ata_wait bus st))"

section \<open>The registry finds what was registered\<close>

lemma same_name_eq: "nul_free a \<Longrightarrow> nul_free b \<Longrightarrow> same_name a b \<longleftrightarrow> a = b"
proof (induction a b rule: same_name.induct)
  case (2 bs)
  then show ?case by (cases bs) (auto simp: cstr_at_def nul_free_def)
next
  case (3 a as)
  then show ?case by (auto simp: nul_free_def)
qed (auto simp: nul_free_def cstr_at_def)

lemma select_from_find:
  assumes "nul_free name" and "\<forall>b\<in>set bs. nul_free (bk_name b)"
  shows "select_from bs name = List.find (\<lambda>b. bk_name b = name) bs"
  using assms by (induction bs) (auto simp: same_name_eq)

text \<open>
  Selecting a registered backend by its name routes every sector access to it: after
  \<^verbatim>\<open>ata_backend_register\<close> and \<^verbatim>\<open>storage_select_backend("ata")\<close>, a block written through the storage
  interface is what is read back through it, on every drive that follows the PIO protocol, 100
  sectors further on the disk.
\<close>

theorem storage_interface_roundtrip:
  assumes "pio_drive bus view" and "drive_ready view st" and "unat l + 100 < 2 ^ 28" and "length b = 512" and "length c = 512"
    and "storage_register_backend (ata_backend a bus) (\<lparr>backends = [], current_backend = None\<rparr>, st0) = (reg0, st1)"
    and "storage_select_backend ''ata'' (reg0, st1) = (reg, st2)"
  shows "\<exists>st' st''. storage_write_sector reg l b st = (0, st') \<and> storage_read_sector reg l c st' = (0, b, st'') \<and>
    drive_sectors view st' (unat l + 100) = b"
proof -
  have reg: "current_backend reg = Some (ata_backend a bus)"
    using assms(6,7) by (auto simp: storage_register_backend_def storage_select_backend_def MAX_BACKENDS_def ata_backend_def
        NUL_def cstr_at_def)
  have u: "unat (100 + l) = unat l + 100"
    using assms(3) by (subst unat_plus_if') (simp add: unat_word_ariths)
  have small: "unat (100 + l) < 2 ^ 28" using assms(3) u by simp
  obtain d where d: "ata_write_sector bus (100 + l) b st = (0, st\<lparr>dev := d\<rparr>)" "drive_ready view (st\<lparr>dev := d\<rparr>)"
      "drive_sectors view (st\<lparr>dev := d\<rparr>) = (drive_sectors view st)(unat (100 + l) := b)"
    using pio_drive.ata_write_sector_ok [OF assms(1,2) small assms(4)] by blast
  from pio_drive.ata_read_sector_ok [OF assms(1) d(2) small assms(5)] obtain st'' where
    "ata_read_sector bus (100 + l) c (st\<lparr>dev := d\<rparr>) = (0, b, st'')" using d(3) by auto
  then show ?thesis
    using d reg u by (auto simp: storage_write_sector_def storage_read_sector_def ata_backend_def
        ata_storage_write_sector_def ata_storage_read_sector_def)
qed

theorem storage_interface_roundtrip_witness:
  "\<exists>reg0 st1 reg st2 st' st''. storage_register_backend (ata_backend 4096 pio_bus) (\<lparr>backends = [], current_backend = None\<rparr>, blank_ata) = (reg0, st1) \<and>
    storage_select_backend ''ata'' (reg0, st1) = (reg, st2) \<and>
    storage_write_sector reg 5 (replicate 512 9) (ata_init pio_bus blank_ata) = (0, st') \<and>
    storage_read_sector reg 5 (replicate 512 0) st' = (0, replicate 512 9, st'')"
proof -
  obtain reg0 st1 where 1: "storage_register_backend (ata_backend 4096 pio_bus) (\<lparr>backends = [], current_backend = None\<rparr>, blank_ata) = (reg0, st1)"
    by fastforce
  obtain reg st2 where 2: "storage_select_backend ''ata'' (reg0, st1) = (reg, st2)" by fastforce
  from storage_interface_roundtrip [OF sim_drive.pio_drive_axioms ready_after_init _ _ _ 1 2,
      of 5 "replicate 512 9" "replicate 512 0"] 1 2 show ?thesis by auto
qed

end
