(* ===== verification/Graphics.thy ===== *)
theory Graphics
  imports Prelude
begin

unbundle bit_operations_syntax

text \<open>
  The framebuffer of \<^verbatim>\<open>src/graphics.c\<close>, text drawing of \<^verbatim>\<open>src/font.c\<close> and the mouse cursor of
  \<^verbatim>\<open>src/cursor_gfx.c\<close>. The framebuffer is the array the boot loader provides, indexed in pixels.
  Shown here: every drawing routine is clipped (it changes visible pixels only, whatever its
  coordinates), what a filled rectangle and a character look like, and that erasing the cursor
  restores what was under it.
\<close>

section \<open>graphics.c\<close>

record gfx =
  fb :: "nat \<Rightarrow> u32"
  fb_addr :: u32
  fb_pitch_px :: nat
  fb_width :: nat
  fb_height :: nat

definition graphics_init :: "u32 \<Rightarrow> nat \<Rightarrow> nat \<Rightarrow> nat \<Rightarrow> u8 \<Rightarrow> gfx \<Rightarrow> gfx" where
  "graphics_init addr pitch w h bpp g =
     g\<lparr>fb_addr := addr, fb_pitch_px := pitch div 4, fb_width := w, fb_height := h\<rparr>"

definition graphics_ready :: "gfx \<Rightarrow> int" where
  "graphics_ready g = yn (fb_addr g \<noteq> 0)"

text \<open>An \<^verbatim>\<open>int\<close> converted to \<^verbatim>\<open>uint32_t\<close>.\<close>

definition u32_of_int :: "int \<Rightarrow> nat" where
  "u32_of_int x = nat (x mod 2 ^ 32)"

definition put_pixel :: "int \<Rightarrow> int \<Rightarrow> u32 \<Rightarrow> gfx \<Rightarrow> gfx" where
  "put_pixel x y color g =
     (if u32_of_int x < fb_width g \<and> u32_of_int y < fb_height g
      then g\<lparr>fb := (fb g)((u32_of_int y * fb_pitch_px g + u32_of_int x) mod 2 ^ 32 := color)\<rparr>
      else g)"

text \<open>\<^verbatim>\<open>for (int i = a; i < b; i++)\<close>\<close>

definition for_int :: "int \<Rightarrow> int \<Rightarrow> (int \<Rightarrow> 's \<Rightarrow> 's) \<Rightarrow> 's \<Rightarrow> 's" where
  "for_int a b f s = fold f [a..b - 1] s"

definition fill_rect :: "int \<Rightarrow> int \<Rightarrow> int \<Rightarrow> int \<Rightarrow> u32 \<Rightarrow> gfx \<Rightarrow> gfx" where
  "fill_rect x y w h color g =
     for_int y (swrap (y + h)) (\<lambda>row g. for_int x (swrap (x + w)) (\<lambda>col g. put_pixel col row color g) g) g"

definition draw_rect_outline :: "int \<Rightarrow> int \<Rightarrow> int \<Rightarrow> int \<Rightarrow> u32 \<Rightarrow> gfx \<Rightarrow> gfx" where
  "draw_rect_outline x y w h color g =
     (let g = for_int x (swrap (x + w)) (\<lambda>i g. put_pixel i (swrap (y + h - 1)) color (put_pixel i y color g)) g
      in for_int y (swrap (y + h)) (\<lambda>i g. put_pixel (swrap (x + w - 1)) i color (put_pixel x i color g)) g)"

definition fill_screen :: "u32 \<Rightarrow> gfx \<Rightarrow> gfx" where
  "fill_screen color g = fill_rect 0 0 (swrap (int (fb_width g))) (swrap (int (fb_height g))) color g"

section \<open>font.c\<close>

text \<open>The glyph table is the linked binary \<^verbatim>\<open>font.psf\<close>: its bytes are a parameter of the state.\<close>

record font =
  glyphs :: "nat \<Rightarrow> u8"
  char_h :: int

text \<open>\<^verbatim>\<open>font_init\<close>: the PSF1 header is four bytes, the last of which is the glyph height.\<close>

definition font_init :: "(nat \<Rightarrow> u8) \<Rightarrow> font" where
  "font_init psf = \<lparr>glyphs = (\<lambda>i. psf (4 + i)), char_h = uint (psf 3)\<rparr>"

definition font_draw_char :: "font \<Rightarrow> int \<Rightarrow> int \<Rightarrow> char \<Rightarrow> u32 \<Rightarrow> u32 \<Rightarrow> gfx \<Rightarrow> gfx" where
  "font_draw_char fn x y c fg bg g =
     for_int 0 (char_h fn) (\<lambda>row g.
       let bits = glyphs fn (nat (uint (byte_of_char c) * char_h fn + row)) in
       for_int 0 8 (\<lambda>col g.
         if bits AND drop_bit (nat col) 0x80 \<noteq> 0
         then put_pixel (swrap (x + col)) (swrap (y + row)) fg g
         else put_pixel (swrap (x + col)) (swrap (y + row)) bg g) g) g"

fun draw_string_from :: "font \<Rightarrow> int \<Rightarrow> int \<Rightarrow> int \<Rightarrow> string \<Rightarrow> u32 \<Rightarrow> u32 \<Rightarrow> gfx \<Rightarrow> gfx" where
  "draw_string_from fn x cx y [] fg bg g = g"
| "draw_string_from fn x cx y (c # str) fg bg g =
     (if c = NL then draw_string_from fn x x (swrap (y + char_h fn)) str fg bg g
      else draw_string_from fn x (swrap (cx + 8)) y str fg bg (font_draw_char fn cx y c fg bg g))"

definition font_draw_string :: "font \<Rightarrow> int \<Rightarrow> int \<Rightarrow> string \<Rightarrow> u32 \<Rightarrow> u32 \<Rightarrow> gfx \<Rightarrow> gfx" where
  "font_draw_string fn x y str fg bg g = draw_string_from fn x x y str fg bg g"

definition font_char_width :: int where "font_char_width = 8"

definition font_char_height :: "font \<Rightarrow> int" where "font_char_height fn = char_h fn"

section \<open>cursor_gfx.c\<close>

record cursor_gfx =
  saved :: "u32 list"
  saved_x :: int
  saved_y :: int

definition cursor_shape :: "nat list list" where
  "cursor_shape =
    [[1,0,0,0,0,0,0,0,0,0,0,0,0,0,0,0],
     [1,1,0,0,0,0,0,0,0,0,0,0,0,0,0,0],
     [1,2,1,0,0,0,0,0,0,0,0,0,0,0,0,0],
     [1,2,2,1,0,0,0,0,0,0,0,0,0,0,0,0],
     [1,2,2,2,1,0,0,0,0,0,0,0,0,0,0,0],
     [1,2,2,2,2,1,0,0,0,0,0,0,0,0,0,0],
     [1,2,2,2,2,2,1,0,0,0,0,0,0,0,0,0],
     [1,2,2,2,2,2,2,1,0,0,0,0,0,0,0,0],
     [1,2,2,2,2,2,2,2,1,0,0,0,0,0,0,0],
     [1,2,2,2,2,1,1,1,1,0,0,0,0,0,0,0],
     [1,2,2,1,2,2,1,0,0,0,0,0,0,0,0,0],
     [1,2,1,0,1,2,2,1,0,0,0,0,0,0,0,0],
     [1,1,0,0,0,1,2,2,1,0,0,0,0,0,0,0],
     [0,0,0,0,0,0,1,2,2,1,0,0,0,0,0,0],
     [0,0,0,0,0,0,0,1,2,2,1,0,0,0,0,0],
     [0,0,0,0,0,0,0,0,1,1,0,0,0,0,0,0]]"

text \<open>\<^verbatim>\<open>px >= 0 && px < (int)w && py >= 0 && py < (int)h\<close>\<close>

definition on_screen :: "int \<Rightarrow> int \<Rightarrow> gfx \<Rightarrow> bool" where
  "on_screen px py g \<longleftrightarrow> 0 \<le> px \<and> px < swrap (int (fb_width g)) \<and> 0 \<le> py \<and> py < swrap (int (fb_height g))"

text \<open>The code addresses the framebuffer as \<^verbatim>\<open>py * w + px\<close> here, with the width, not the pitch.\<close>

definition cur_index :: "int \<Rightarrow> int \<Rightarrow> gfx \<Rightarrow> nat" where
  "cur_index px py g = (u32_of_int py * fb_width g + u32_of_int px) mod 2 ^ 32"

definition cursor_gfx_erase :: "cursor_gfx \<times> gfx \<Rightarrow> cursor_gfx \<times> gfx" where
  "cursor_gfx_erase cg =
     (case cg of (c, g) \<Rightarrow>
        if saved_x c < 0 then (c, g)
        else (c\<lparr>saved_x := - 1\<rparr>,
          for_int 0 16 (\<lambda>y g. for_int 0 16 (\<lambda>x g.
            let px = swrap (saved_x c + x); py = swrap (saved_y c + y) in
            if on_screen px py g
            then g\<lparr>fb := (fb g)(cur_index px py g := saved c ! nat (y * 16 + x))\<rparr>
            else g) g) g))"

definition save_background :: "int \<Rightarrow> int \<Rightarrow> gfx \<Rightarrow> u32 list" where
  "save_background x y g =
     map (\<lambda>i. let px = swrap (x + int (i mod 16)); py = swrap (y + int (i div 16)) in
        if on_screen px py g then fb g (cur_index px py g) else 0) [0..<256]"

definition cursor_gfx_draw :: "int \<Rightarrow> int \<Rightarrow> cursor_gfx \<times> gfx \<Rightarrow> cursor_gfx \<times> gfx" where
  "cursor_gfx_draw x y cg =
     (case cg of (c, g) \<Rightarrow>
        (c\<lparr>saved_x := x, saved_y := y, saved := save_background x y g\<rparr>,
         for_int 0 16 (\<lambda>cy g. for_int 0 16 (\<lambda>cx g.
           let px = swrap (x + cx); py = swrap (y + cy) in
           if \<not> on_screen px py g then g
           else let p = cursor_shape ! nat cy ! nat cx in
             if p = 1 then put_pixel px py 0x000000 g
             else if p = 2 then put_pixel px py 0xFFFFFF g
             else g) g) g))"

section \<open>Clipping\<close>

text \<open>A framebuffer as the boot loader sets it up: rows do not overlap and the array fits.\<close>

definition gfx_ok :: "gfx \<Rightarrow> bool" where
  "gfx_ok g \<longleftrightarrow> fb_width g \<le> fb_pitch_px g \<and> fb_height g * fb_pitch_px g < 2 ^ 31"

definition visible :: "gfx \<Rightarrow> nat \<Rightarrow> bool" where
  "visible g i \<longleftrightarrow> (\<exists>x<fb_width g. \<exists>y<fb_height g. i = y * fb_pitch_px g + x)"

definition pixel :: "gfx \<Rightarrow> nat \<Rightarrow> nat \<Rightarrow> u32" where
  "pixel g x y = fb g (y * fb_pitch_px g + x)"

text \<open>\<open>g'\<close> is \<open>g\<close> with other visible pixels at most.\<close>

definition clipped :: "gfx \<Rightarrow> gfx \<Rightarrow> bool" where
  "clipped g g' \<longleftrightarrow> (\<exists>p. g' = g\<lparr>fb := p\<rparr> \<and> (\<forall>i. \<not> visible g i \<longrightarrow> p i = fb g i))"

lemma clipped_refl [simp]: "clipped g g"
  by (auto simp: clipped_def intro!: exI [of _ "fb g"])

lemma clipped_trans: "clipped g1 g2 \<Longrightarrow> clipped g2 g3 \<Longrightarrow> clipped g1 g3"
  by (auto simp: clipped_def visible_def)

lemma clipped_dims:
  "clipped g g' \<Longrightarrow> fb_width g' = fb_width g \<and> fb_height g' = fb_height g \<and> fb_pitch_px g' = fb_pitch_px g \<and> fb_addr g' = fb_addr g"
  by (auto simp: clipped_def)

lemma gfx_ok_clipped: "gfx_ok g \<Longrightarrow> clipped g g' \<Longrightarrow> gfx_ok g'"
  using clipped_dims [of g g'] by (simp add: gfx_ok_def)

text \<open>A drawing operation over some type of arguments: clipped on every framebuffer.\<close>

locale painter =
  fixes paint :: "'a \<Rightarrow> gfx \<Rightarrow> gfx"
  assumes paint_clipped: "gfx_ok g \<Longrightarrow> clipped g (paint a g)"
begin

lemma paint_ok: "gfx_ok g \<Longrightarrow> gfx_ok (paint a g)"
  using paint_clipped gfx_ok_clipped by blast

lemma paint_fold: "gfx_ok g \<Longrightarrow> clipped g (fold paint xs g)"
proof (induction xs arbitrary: g)
  case (Cons a xs)
  from Cons.IH [OF paint_ok [OF Cons.prems]] paint_clipped [OF Cons.prems] show ?case
    using clipped_trans by simp blast
qed simp

end

text \<open>A loop of painters is a painter.\<close>

lemma for_int_painter:
  assumes "\<And>i. painter (\<lambda>u :: unit. f i)" and "gfx_ok g"
  shows "clipped g (for_int a b f g)"
proof -
  have "painter f" using assms(1) by (simp add: painter_def)
  from painter.paint_fold [OF this assms(2)] show ?thesis by (simp add: for_int_def)
qed

lemma u32_of_int_small: "0 \<le> x \<Longrightarrow> x < 2 ^ 32 \<Longrightarrow> u32_of_int x = nat x"
  by (simp add: u32_of_int_def)

lemma row_bound:
  fixes x w y h p :: nat
  assumes "x < w" and "y < h" and "w \<le> p"
  shows "y * p + x < h * p"
proof -
  have "y * p + x < y * p + p" using assms by simp
  also have "\<dots> = Suc y * p" by simp
  also have "\<dots> \<le> h * p" using assms(2) by (intro mult_right_mono) auto
  finally show ?thesis .
qed

lemma row_index_inj:
  fixes x x' y y' p :: nat
  assumes "x < p" and "x' < p"
  shows "y * p + x = y' * p + x' \<longleftrightarrow> y = y' \<and> x = x'"
proof
  assume eq: "y * p + x = y' * p + x'"
  have "(y * p + x) div p = y" "(y' * p + x') div p = y'" "(y * p + x) mod p = x" "(y' * p + x') mod p = x'"
    using assms by auto
  with eq show "y = y' \<and> x = x'" by metis
qed simp

lemma put_pixel_eq:
  assumes ok: "gfx_ok g"
  shows "put_pixel x y c g =
    (if u32_of_int x < fb_width g \<and> u32_of_int y < fb_height g
     then g\<lparr>fb := (fb g)(u32_of_int y * fb_pitch_px g + u32_of_int x := c)\<rparr> else g)"
proof (cases "u32_of_int x < fb_width g \<and> u32_of_int y < fb_height g")
  case True
  then have "u32_of_int y * fb_pitch_px g + u32_of_int x < fb_height g * fb_pitch_px g"
    using ok by (intro row_bound) (auto simp: gfx_ok_def)
  then have "(u32_of_int y * fb_pitch_px g + u32_of_int x) mod 2 ^ 32 = u32_of_int y * fb_pitch_px g + u32_of_int x"
    using ok by (intro mod_less) (simp add: gfx_ok_def)
  then show ?thesis by (simp add: put_pixel_def)
next
  case False
  then show ?thesis by (auto simp: put_pixel_def)
qed

interpretation pix: painter "\<lambda>(x, y, c). put_pixel x y c"
proof (unfold_locales, goal_cases)
  case (1 g a)
  obtain x y c where a: "a = (x, y, c)" by (cases a)
  show ?case
  proof (cases "u32_of_int x < fb_width g \<and> u32_of_int y < fb_height g")
    case True
    then have "visible g (u32_of_int y * fb_pitch_px g + u32_of_int x)" by (auto simp: visible_def)
    with True show ?thesis
      by (auto simp: a put_pixel_eq [OF 1] clipped_def
          intro!: exI [of _ "(fb g)(u32_of_int y * fb_pitch_px g + u32_of_int x := c)"])
  next
    case False
    then show ?thesis by (auto simp: a put_pixel_eq [OF 1])
  qed
qed

lemma put_pixel_painter: "painter (\<lambda>u :: unit. put_pixel x y c)"
  by unfold_locales (use pix.paint_clipped [of _ "(x, y, c)"] in simp)

lemma painter_comp: "painter (\<lambda>u :: unit. f) \<Longrightarrow> painter (\<lambda>u :: unit. h) \<Longrightarrow> painter (\<lambda>u :: unit. \<lambda>g. f (h g))"
  using clipped_trans gfx_ok_clipped unfolding painter_def by blast

lemma painter_for: "(\<And>i. painter (\<lambda>u :: unit. f i)) \<Longrightarrow> painter (\<lambda>u :: unit. \<lambda>g. for_int a b f g)"
  using for_int_painter unfolding painter_def by blast

lemma painter_id: "painter (\<lambda>u :: unit. \<lambda>g. g)"
  by unfold_locales simp

lemma painter_if: "painter (\<lambda>u :: unit. f) \<Longrightarrow> painter (\<lambda>u :: unit. h) \<Longrightarrow> painter (\<lambda>u :: unit. \<lambda>g. if P g then f g else h g)"
  unfolding painter_def by simp

lemmas put_pixel2_painter = painter_comp [OF put_pixel_painter put_pixel_painter]

interpretation rect: painter "\<lambda>(x, y, w, h, c). fill_rect x y w h c"
proof (unfold_locales, goal_cases)
  case (1 g a)
  obtain x y w h c where a: "a = (x, y, w, h, c)" by (cases a)
  have "painter (\<lambda>u :: unit. fill_rect x y w h c)"
    unfolding fill_rect_def by (rule painter_for put_pixel_painter)+
  from painter.paint_clipped [OF this 1] show ?case by (simp add: a)
qed

interpretation outline: painter "\<lambda>(x, y, w, h, c). draw_rect_outline x y w h c"
proof (unfold_locales, goal_cases)
  case (1 g a)
  obtain x y w h c where a: "a = (x, y, w, h, c)" by (cases a)
  define g1 where "g1 = for_int x (swrap (x + w)) (\<lambda>i g. put_pixel i (swrap (y + h - 1)) c (put_pixel i y c g)) g"
  have c1: "clipped g g1" unfolding g1_def by (rule for_int_painter [OF put_pixel2_painter 1])
  have "clipped g1 (for_int y (swrap (y + h)) (\<lambda>i g. put_pixel (swrap (x + w - 1)) i c (put_pixel x i c g)) g1)"
    by (rule for_int_painter [OF put_pixel2_painter gfx_ok_clipped [OF 1 c1]])
  with c1 show ?case using clipped_trans by (simp add: a draw_rect_outline_def flip: g1_def)
qed

interpretation glyph: painter "\<lambda>(fn, x, y, c, fg, bg). font_draw_char fn x y c fg bg"
proof (unfold_locales, goal_cases)
  case (1 g a)
  obtain fn x y c fg bg where a: "a = (fn, x, y, c, fg, bg)" by (cases a)
  have "painter (\<lambda>u :: unit. font_draw_char fn x y c fg bg)"
    unfolding font_draw_char_def Let_def
    by (rule painter_for, rule painter_for, rule painter_if) (rule put_pixel_painter)+
  from painter.paint_clipped [OF this 1] show ?case by (simp add: a)
qed

interpretation str: painter "\<lambda>(fn, x, y, s, fg, bg). font_draw_string fn x y s fg bg"
proof (unfold_locales, goal_cases)
  case (1 g a)
  obtain fn x y s fg bg where a: "a = (fn, x, y, s, fg, bg)" by (cases a)
  have "clipped g (draw_string_from fn x cx y s fg bg g)" if "gfx_ok g" for g cx y
    using that
  proof (induction s arbitrary: g cx y)
    case (Cons c s)
    have c: "clipped g (font_draw_char fn cx y c fg bg g)"
      using glyph.paint_clipped [OF Cons.prems, of "(fn, cx, y, c, fg, bg)"] by simp
    from Cons.IH [OF gfx_ok_clipped [OF Cons.prems c]] c Cons.IH [OF Cons.prems] show ?case
      by (auto intro: clipped_trans)
  qed simp
  with 1 show ?case by (simp add: a font_draw_string_def)
qed

section \<open>What is drawn\<close>

lemma u32_of_int_eq: "is_int32 x \<Longrightarrow> n < 2 ^ 31 \<Longrightarrow> u32_of_int x = n \<longleftrightarrow> x = int n"
proof -
  assume x: "is_int32 x" and n: "n < 2 ^ 31"
  show ?thesis
  proof (cases "0 \<le> x")
    case True
    then have "u32_of_int x = nat x" using x by (intro u32_of_int_small) (auto simp: is_int32_def)
    with True show ?thesis by auto
  next
    case False
    then have "x mod 4294967296 = (x + 4294967296) mod 4294967296" by simp
    also have "\<dots> = x + 4294967296" using False x by (intro mod_pos_pos_trivial) (auto simp: is_int32_def)
    finally have "u32_of_int x = nat (x + 4294967296)" by (simp add: u32_of_int_def)
    with False x n show ?thesis by (auto simp: is_int32_def)
  qed
qed

lemma dims_small:
  assumes "gfx_ok g" and "px < fb_width g" and "py < fb_height g"
  shows "px < 2 ^ 31" and "py < 2 ^ 31" and "px < fb_pitch_px g"
proof -
  have "py * fb_pitch_px g + px < fb_height g * fb_pitch_px g"
    using assms by (intro row_bound) (auto simp: gfx_ok_def)
  then have *: "py * fb_pitch_px g + px < 2 ^ 31" using assms(1) by (simp add: gfx_ok_def)
  show p: "px < fb_pitch_px g" using assms by (simp add: gfx_ok_def)
  then have "py \<le> py * fb_pitch_px g" by simp
  with * show "px < 2 ^ 31" "py < 2 ^ 31" by linarith+
qed

lemma pixel_put_pixel:
  assumes ok: "gfx_ok g" and p: "px < fb_width g" "py < fb_height g" and xy: "is_int32 x" "is_int32 y"
  shows "pixel (put_pixel x y c g) px py = (if x = int px \<and> y = int py then c else pixel g px py)"
proof -
  note small = dims_small [OF ok p]
  have eq: "u32_of_int x = px \<longleftrightarrow> x = int px" "u32_of_int y = py \<longleftrightarrow> y = int py"
    using small xy by (auto simp: u32_of_int_eq)
  show ?thesis
  proof (cases "u32_of_int x < fb_width g \<and> u32_of_int y < fb_height g")
    case True
    then have "u32_of_int x < fb_pitch_px g" using ok by (simp add: gfx_ok_def)
    from row_index_inj [OF small(3) this, of py "u32_of_int y"] True show ?thesis
      using eq by (auto simp: put_pixel_eq [OF ok] pixel_def)
  next
    case False
    then show ?thesis using p eq by (auto simp: put_pixel_eq [OF ok])
  qed
qed

lemma dims_fold:
  assumes "\<And>i. painter (\<lambda>u :: unit. f i)" and "gfx_ok g"
  shows "gfx_ok (fold f xs g)" "fb_width (fold f xs g) = fb_width g" "fb_height (fold f xs g) = fb_height g"
proof -
  have "painter f" using assms(1) by (simp add: painter_def)
  from painter.paint_fold [OF this assms(2)] have "clipped g (fold f xs g)" .
  then show "gfx_ok (fold f xs g)" "fb_width (fold f xs g) = fb_width g" "fb_height (fold f xs g) = fb_height g"
    using gfx_ok_clipped [OF assms(2)] clipped_dims by blast+
qed

text \<open>A loop whose step draws the pixels of a set: the last step that draws a pixel decides.\<close>

lemma pixel_fold:
  assumes ok: "gfx_ok g" and p: "px < fb_width g" "py < fb_height g"
    and f: "\<And>i. painter (\<lambda>u :: unit. f i)"
    and step: "\<And>i g. i \<in> set xs \<Longrightarrow> gfx_ok g \<Longrightarrow> px < fb_width g \<Longrightarrow> py < fb_height g \<Longrightarrow>
      pixel (f i g) px py = (if i = k \<and> hit then c else pixel g px py)"
  shows "pixel (fold f xs g) px py = (if k \<in> set xs \<and> hit then c else pixel g px py)"
  using step ok p
proof (induction xs arbitrary: g)
  case (Cons i xs)
  have pt: "clipped g (f i g)" using f [of i] Cons.prems(2) by (simp add: painter_def)
  have "pixel (fold f xs (f i g)) px py = (if k \<in> set xs \<and> hit then c else pixel (f i g) px py)"
    by (rule Cons.IH) (use Cons.prems gfx_ok_clipped [OF _ pt] clipped_dims [OF pt] in auto)
  with Cons.prems(1) [of i g] Cons.prems(2-4) show ?case by auto
qed simp

lemma int32_between: "is_int32 a \<Longrightarrow> is_int32 b \<Longrightarrow> i \<in> set [a..b - 1] \<Longrightarrow> is_int32 i"
  by (auto simp: is_int32_def)

lemma pixel_row:
  assumes ok: "gfx_ok g" and p: "px < fb_width g" "py < fb_height g"
    and i: "is_int32 a" "is_int32 b" "is_int32 row"
  shows "pixel (for_int a b (\<lambda>col g. put_pixel col row c g) g) px py =
    (if (a \<le> int px \<and> int px < b) \<and> row = int py then c else pixel g px py)"
proof -
  have "pixel (fold (\<lambda>col g. put_pixel col row c g) [a..b - 1] g) px py =
      (if int px \<in> set [a..b - 1] \<and> row = int py then c else pixel g px py)"
    by (rule pixel_fold [OF ok p put_pixel_painter])
      (use i int32_between [OF i(1,2)] in \<open>auto simp: pixel_put_pixel\<close>)
  then show ?thesis by (auto simp: for_int_def)
qed

lemma pixel_fill_rect:
  assumes ok: "gfx_ok g" and p: "px < fb_width g" "py < fb_height g"
    and i: "is_int32 x" "is_int32 y" "is_int32 (x + w)" "is_int32 (y + h)"
  shows "pixel (fill_rect x y w h c g) px py =
    (if x \<le> int px \<and> int px < x + w \<and> y \<le> int py \<and> int py < y + h then c else pixel g px py)"
proof -
  have "pixel (fold (\<lambda>row g. for_int x (x + w) (\<lambda>col g. put_pixel col row c g) g) [y..y + h - 1] g) px py =
      (if int py \<in> set [y..y + h - 1] \<and> (x \<le> int px \<and> int px < x + w) then c else pixel g px py)"
    by (rule pixel_fold [OF ok p painter_for [OF put_pixel_painter]])
      (use i int32_between [OF i(2,4)] in \<open>auto simp: pixel_row\<close>)
  then show ?thesis using i by (auto simp: fill_rect_def for_int_def)
qed

section \<open>The cursor\<close>

lemma fold_product:
  "fold (\<lambda>y. fold (f y) xs) ys g = fold (\<lambda>(y, x). f y x) (List.product ys xs) g"
proof (induction ys arbitrary: g)
  case (Cons y ys)
  have "fold (\<lambda>(y, x). f y x) (map (Pair y) xs) g = fold (f y) xs g" for g
    by (induction xs arbitrary: g) simp_all
  with Cons show ?case by simp
qed simp

lemma for_for:
  "for_int a b (\<lambda>y g. for_int a' b' (f y) g) g = fold (\<lambda>(y, x). f y x) (List.product [a..b - 1] [a'..b' - 1]) g"
  unfolding for_int_def by (rule fold_product)

text \<open>The framebuffer cells of the 16 by 16 square at a position that are on the screen.\<close>

definition cursor_cells :: "int \<Rightarrow> int \<Rightarrow> gfx \<Rightarrow> nat set" where
  "cursor_cells x y g = {cur_index (swrap (x + cx)) (swrap (y + cy)) g | cx cy.
     0 \<le> cx \<and> cx < 16 \<and> 0 \<le> cy \<and> cy < 16 \<and> on_screen (swrap (x + cx)) (swrap (y + cy)) g}"

definition same_dims :: "gfx \<Rightarrow> gfx \<Rightarrow> bool" where
  "same_dims g g' \<longleftrightarrow> fb_width g' = fb_width g \<and> fb_height g' = fb_height g \<and> fb_pitch_px g' = fb_pitch_px g \<and>
     fb_addr g' = fb_addr g"

lemma same_dims_cells:
  "same_dims g g' \<Longrightarrow> cur_index px py g' = cur_index px py g \<and> on_screen px py g' = on_screen px py g \<and>
   (gfx_ok g' \<longleftrightarrow> gfx_ok g)"
  by (simp add: same_dims_def cur_index_def on_screen_def gfx_ok_def)

lemma on_screen_u32:
  assumes "gfx_ok g" and "on_screen px py g" and "0 < fb_width g" and "0 < fb_height g"
  shows "u32_of_int px < fb_width g \<and> u32_of_int py < fb_height g"
proof -
  have ok: "fb_width g \<le> fb_pitch_px g" "fb_height g * fb_pitch_px g < 2 ^ 31" using assms(1) by (auto simp: gfx_ok_def)
  have "fb_pitch_px g \<le> fb_height g * fb_pitch_px g" "fb_height g \<le> fb_height g * fb_pitch_px g"
    using assms(3,4) ok(1) by auto
  with ok have "fb_width g < 2 ^ 31" "fb_height g < 2 ^ 31" by linarith+
  then have w: "swrap (int (fb_width g)) = int (fb_width g)" "swrap (int (fb_height g)) = int (fb_height g)"
    by (auto intro!: swrap_id simp: is_int32_def)
  then show ?thesis using assms(2) \<open>fb_width g < 2 ^ 31\<close> \<open>fb_height g < 2 ^ 31\<close>
    by (auto simp: on_screen_def u32_of_int_small)
qed

text \<open>Drawing touches only those cells, erasing writes a given picture into all of them.\<close>

lemma draw_cells:
  assumes ok: "gfx_ok g0" and pitch: "fb_pitch_px g0 = fb_width g0" and pos: "0 < fb_width g0" "0 < fb_height g0"
    and g: "same_dims g0 g" and yx: "\<forall>(cy, cx)\<in>set yxs. 0 \<le> cx \<and> cx < 16 \<and> 0 \<le> cy \<and> cy < 16"
    and out: "\<forall>i. i \<notin> cursor_cells x y g0 \<longrightarrow> fb g i = fb g0 i"
  shows "\<exists>g'. fold (\<lambda>(cy, cx) g.
      let px = swrap (x + cx); py = swrap (y + cy) in
      if \<not> on_screen px py g then g
      else let p = cursor_shape ! nat cy ! nat cx in
        if p = 1 then put_pixel px py 0x000000 g
        else if p = 2 then put_pixel px py 0xFFFFFF g else g) yxs g = g' \<and> same_dims g0 g' \<and>
    (\<forall>i. i \<notin> cursor_cells x y g0 \<longrightarrow> fb g' i = fb g0 i)"
  using g yx out
proof (induction yxs arbitrary: g)
  case (Cons a yxs)
  obtain cy cx where a: "a = (cy, cx)" by (cases a)
  let ?px = "swrap (x + cx)" and ?py = "swrap (y + cy)"
  note same = same_dims_cells [OF Cons.prems(1)]
  have cell: "same_dims g0 (put_pixel ?px ?py c g) \<and>
      (\<forall>i. i \<notin> cursor_cells x y g0 \<longrightarrow> fb (put_pixel ?px ?py c g) i = fb g0 i)" if "on_screen ?px ?py g0" for c
  proof -
    have "cur_index ?px ?py g0 \<in> cursor_cells x y g0"
      unfolding cursor_cells_def using Cons.prems(2) a that by auto
    moreover have u: "u32_of_int ?px < fb_width g0 \<and> u32_of_int ?py < fb_height g0"
      by (rule on_screen_u32 [OF ok that pos])
    then have "u32_of_int ?py * fb_width g0 + u32_of_int ?px < fb_height g0 * fb_width g0"
      by (intro row_bound) auto
    then have "cur_index ?px ?py g0 = u32_of_int ?py * fb_width g0 + u32_of_int ?px"
      unfolding cur_index_def using ok pitch by (intro mod_less) (auto simp: gfx_ok_def)
    moreover have "gfx_ok g" using same ok by blast
    ultimately show ?thesis
      using Cons.prems(1,3) pitch by (auto simp: put_pixel_eq same_dims_def)
  qed
  let ?g = "(let px = ?px; py = ?py in if \<not> on_screen px py g then g
      else let p = cursor_shape ! nat cy ! nat cx in
        if p = 1 then put_pixel px py 0x000000 g
        else if p = 2 then put_pixel px py 0xFFFFFF g else g)"
  have step: "same_dims g0 ?g \<and> (\<forall>i. i \<notin> cursor_cells x y g0 \<longrightarrow> fb ?g i = fb g0 i)"
    using cell same Cons.prems(1,3) by (auto simp: Let_def)
  have rest: "\<forall>(cy, cx)\<in>set yxs. 0 \<le> cx \<and> cx < 16 \<and> 0 \<le> cy \<and> cy < 16" using Cons.prems(2) by simp
  from Cons.IH [OF conjunct1 [OF step] rest conjunct2 [OF step]] show ?case by (simp add: a)
qed simp

lemma erase_cells:
  assumes g: "same_dims g0 g" and yx: "\<forall>(cy, cx)\<in>set yxs. 0 \<le> cx \<and> cx < 16 \<and> 0 \<le> cy \<and> cy < 16"
    and v: "\<forall>(cy, cx)\<in>set yxs. on_screen (swrap (x + cx)) (swrap (y + cy)) g0 \<longrightarrow>
      v ! nat (cy * 16 + cx) = fb g0 (cur_index (swrap (x + cx)) (swrap (y + cy)) g0)"
  shows "\<exists>g'. fold (\<lambda>(cy, cx) g. let px = swrap (x + cx); py = swrap (y + cy) in
      if on_screen px py g then g\<lparr>fb := (fb g)(cur_index px py g := v ! nat (cy * 16 + cx))\<rparr> else g) yxs g = g' \<and>
    same_dims g0 g' \<and>
    (\<forall>i. fb g i = fb g0 i \<longrightarrow> fb g' i = fb g0 i) \<and>
    (\<forall>(cy, cx)\<in>set yxs. on_screen (swrap (x + cx)) (swrap (y + cy)) g0 \<longrightarrow>
      (let i = cur_index (swrap (x + cx)) (swrap (y + cy)) g0 in fb g' i = fb g0 i))"
  using g yx v
proof (induction yxs arbitrary: g)
  case (Cons a yxs)
  obtain cy cx where a: "a = (cy, cx)" by (cases a)
  let ?px = "swrap (x + cx)" and ?py = "swrap (y + cy)"
  note same = same_dims_cells [OF Cons.prems(1)]
  let ?g = "(let px = ?px; py = ?py in if on_screen px py g
      then g\<lparr>fb := (fb g)(cur_index px py g := v ! nat (cy * 16 + cx))\<rparr> else g)"
  have dims: "same_dims g0 ?g" using Cons.prems(1) by (simp add: Let_def same_dims_def)
  have keep: "fb ?g i = fb g0 i" if "fb g i = fb g0 i" for i
    using that Cons.prems(3) same by (auto simp: a Let_def)
  have here: "fb ?g (cur_index ?px ?py g0) = fb g0 (cur_index ?px ?py g0)" if "on_screen ?px ?py g0"
    using that Cons.prems(3) same by (auto simp: a Let_def)
  obtain g' where g': "fold (\<lambda>(cy, cx) g. let px = swrap (x + cx); py = swrap (y + cy) in
      if on_screen px py g then g\<lparr>fb := (fb g)(cur_index px py g := v ! nat (cy * 16 + cx))\<rparr> else g) yxs ?g = g'"
      "same_dims g0 g'" "\<forall>i. fb ?g i = fb g0 i \<longrightarrow> fb g' i = fb g0 i"
      "\<forall>(cy, cx)\<in>set yxs. on_screen (swrap (x + cx)) (swrap (y + cy)) g0 \<longrightarrow>
        (let i = cur_index (swrap (x + cx)) (swrap (y + cy)) g0 in fb g' i = fb g0 i)"
    using Cons.IH [OF dims] Cons.prems(2,3) by auto
  show ?case
    using g' keep here by (intro exI [of _ g'] conjI) (auto simp: a)
qed simp

section \<open>Properties\<close>

text \<open>A 1024 by 768 framebuffer.\<close>

definition boot_gfx :: gfx where
  "boot_gfx = graphics_init 0xFD000000 4096 1024 768 32
     \<lparr>fb = \<lambda>_. 0, fb_addr = 0, fb_pitch_px = 0, fb_width = 0, fb_height = 0\<rparr>"

lemma boot_gfx_ok: "gfx_ok boot_gfx" "fb_width boot_gfx = 1024" "fb_height boot_gfx = 768" "fb_pitch_px boot_gfx = 1024"
  by (simp_all add: boot_gfx_def graphics_init_def gfx_ok_def)

text \<open>
  C15. \<^verbatim>\<open>fill_rect\<close> paints exactly the part of the rectangle that is on the screen, for any position
  and size, negative ones included: inside it every pixel has the colour, every other pixel and
  every cell of the framebuffer outside the visible rows and columns is as before.
\<close>

theorem fill_rect_correct:
  assumes "gfx_ok g" and "px < fb_width g" and "py < fb_height g"
    and "is_int32 x" and "is_int32 y" and "is_int32 (x + w)" and "is_int32 (y + h)"
  shows "pixel (fill_rect x y w h c g) px py =
      (if x \<le> int px \<and> int px < x + w \<and> y \<le> int py \<and> int py < y + h then c else pixel g px py) \<and>
    (\<forall>i. \<not> visible g i \<longrightarrow> fb (fill_rect x y w h c g) i = fb g i)"
  using pixel_fill_rect [OF assms] rect.paint_clipped [OF assms(1), of "(x, y, w, h, c)"]
  by (auto simp: clipped_def)

theorem fill_rect_correct_witness:
  "pixel (fill_rect (- 5) 760 20 100 0xFF boot_gfx) 3 767 = 0xFF \<and>
   pixel (fill_rect (- 5) 760 20 100 0xFF boot_gfx) 15 767 = pixel boot_gfx 15 767"
  using fill_rect_correct [of boot_gfx 3 767 "- 5" 760 20 100 "0xFF"]
    fill_rect_correct [of boot_gfx 15 767 "- 5" 760 20 100 "0xFF"]
  by (simp add: boot_gfx_ok is_int32_def)

text \<open>
  Drawing a character or a string at any position, also partly or wholly off the screen,
  changes nothing but visible pixels: no store leaves the framebuffer.
\<close>

theorem text_drawing_clipped:
  assumes "gfx_ok g"
  shows "clipped g (font_draw_char fn x y c fg bg g) \<and> clipped g (font_draw_string fn x y s fg bg g)"
  using glyph.paint_clipped [OF assms, of "(fn, x, y, c, fg, bg)"]
    str.paint_clipped [OF assms, of "(fn, x, y, s, fg, bg)"] by simp

theorem text_drawing_clipped_witness:
  "clipped boot_gfx (font_draw_char \<lparr>glyphs = \<lambda>_. 0xAA, char_h = 16\<rparr> (- 3) 765 (CHR ''A'') 1 2 boot_gfx)"
  using text_drawing_clipped [OF boot_gfx_ok(1)] by blast

text \<open>
  Erasing the mouse cursor undoes drawing it: on a framebuffer whose pitch equals its width, the
  picture after drawing the cursor at a position with a non-negative column and erasing it again
  is the picture before.
\<close>

theorem cursor_erase_restores:
  assumes "gfx_ok g" and "fb_pitch_px g = fb_width g" and "0 < fb_width g" and "0 < fb_height g" and "0 \<le> x"
  shows "fb (snd (cursor_gfx_erase (cursor_gfx_draw x y (c, g)))) = fb g"
proof -
  let ?ps = "List.product [0..16 - 1] [0..16 - 1] :: (int \<times> int) list"
  have ps: "\<forall>(cy, cx)\<in>set ?ps. 0 \<le> cx \<and> cx < 16 \<and> 0 \<le> cy \<and> cy < 16" by auto
  define g1 where "g1 = snd (cursor_gfx_draw x y (c, g))"
  have draw: "cursor_gfx_draw x y (c, g) = (c\<lparr>saved_x := x, saved_y := y, saved := save_background x y g\<rparr>, g1)"
    by (simp add: g1_def cursor_gfx_draw_def)
  obtain g1: "same_dims g g1" "\<forall>i. i \<notin> cursor_cells x y g \<longrightarrow> fb g1 i = fb g i"
    using draw_cells [OF assms(1-4) _ ps, of g x y] by (auto simp: g1_def cursor_gfx_draw_def for_for same_dims_def)
  have v: "\<forall>(cy, cx)\<in>set ?ps. on_screen (swrap (x + cx)) (swrap (y + cy)) g \<longrightarrow>
      save_background x y g ! nat (cy * 16 + cx) = fb g (cur_index (swrap (x + cx)) (swrap (y + cy)) g)"
  proof (safe)
    fix cy cx :: int
    assume "(cy, cx) \<in> set ?ps" and on: "on_screen (swrap (x + cx)) (swrap (y + cy)) g"
    then have b: "0 \<le> cx" "cx < 16" "0 \<le> cy" "cy < 16" by auto
    let ?k = "nat (cy * 16 + cx)"
    have k: "?k < 256" "int (?k mod 16) = cx" "int (?k div 16) = cy"
      using b by (auto simp: zmod_int zdiv_int)
    then show "save_background x y g ! ?k = fb g (cur_index (swrap (x + cx)) (swrap (y + cy)) g)"
      using on by (simp add: save_background_def Let_def)
  qed
  have e: "snd (cursor_gfx_erase (cursor_gfx_draw x y (c, g))) =
      for_int 0 16 (\<lambda>cy g. for_int 0 16 (\<lambda>cx g. let px = swrap (x + cx); py = swrap (y + cy) in
        if on_screen px py g then g\<lparr>fb := (fb g)(cur_index px py g := save_background x y g0 ! nat (cy * 16 + cx))\<rparr>
        else g) g) g1" if "g0 = g" for g0
    using assms(5) that by (simp add: draw cursor_gfx_erase_def Let_def cong: if_cong)
  obtain g2 where g2: "snd (cursor_gfx_erase (cursor_gfx_draw x y (c, g))) = g2"
      "\<forall>i. fb g1 i = fb g i \<longrightarrow> fb g2 i = fb g i"
      "\<forall>(cy, cx)\<in>set ?ps. on_screen (swrap (x + cx)) (swrap (y + cy)) g \<longrightarrow>
        (let i = cur_index (swrap (x + cx)) (swrap (y + cy)) g in fb g2 i = fb g i)"
    using erase_cells [OF g1(1) ps v] unfolding e [OF refl] for_for by blast
  have "fb g2 i = fb g i" for i
  proof (cases "i \<in> cursor_cells x y g")
    case True
    then obtain cx cy where "0 \<le> cx" "cx < 16" "0 \<le> cy" "cy < 16"
      "on_screen (swrap (x + cx)) (swrap (y + cy)) g" "i = cur_index (swrap (x + cx)) (swrap (y + cy)) g"
      by (auto simp: cursor_cells_def)
    with g2(3) show ?thesis by (auto simp: Let_def)
  qed (use g1(2) g2(2) in blast)
  with g2(1) show ?thesis by auto
qed

theorem cursor_erase_restores_witness:
  "fb (snd (cursor_gfx_erase (cursor_gfx_draw 512 384
     (\<lparr>saved = [], saved_x = - 1, saved_y = - 1\<rparr>, boot_gfx)))) = fb boot_gfx"
  using cursor_erase_restores [OF boot_gfx_ok(1), of 512 384] by (simp add: boot_gfx_ok)

end
