(* ===== verification/Terminal.thy ===== *)
theory Terminal
  imports Graphics
begin

text \<open>
  The terminal buffer of \<^verbatim>\<open>src/term_io.c\<close>: 30 rows of 75 characters with a cursor. Shown here: the
  buffer is never indexed outside its bounds, whatever is printed, and it always shows the last
  rows of the text printed so far, wrapped at 75 columns, which is the abstract terminal
  \<open>a_term\<close> that the buffer refines.
\<close>

section \<open>term\_io.c\<close>

record termbuf =
  term_output :: "char list list"
  term_cursor_row :: int
  term_cursor_col :: int
  term_active :: int
  needs_redraw :: int

definition term_io_init :: "termbuf \<Rightarrow> termbuf" where
  "term_io_init t = t\<lparr>term_output := replicate 30 (replicate 75 NUL), term_cursor_row := 0,
     term_cursor_col := 0, term_active := 1, needs_redraw := 1\<rparr>"

definition term_io_set_needs_redraw :: "termbuf \<Rightarrow> termbuf" where
  "term_io_set_needs_redraw t = t\<lparr>needs_redraw := 1\<rparr>"

text \<open>\<^verbatim>\<open>term_output[row][col] = c\<close>; a store outside the array is a fault.\<close>

definition set_cell :: "int \<Rightarrow> int \<Rightarrow> char \<Rightarrow> termbuf \<Rightarrow> termbuf result" where
  "set_cell row col c t =
     (if 0 \<le> row \<and> row < 30 \<and> 0 \<le> col \<and> col < 75
      then Inr (t\<lparr>term_output := (term_output t)[nat row := (term_output t ! nat row)[nat col := c]]\<rparr>)
      else Inl OutOfBounds)"

text \<open>One pass of the scroll loop moves rows 1 to 29 up and clears the last.\<close>

definition scroll_once :: "termbuf \<Rightarrow> termbuf" where
  "scroll_once t = t\<lparr>term_output := tl (term_output t) @ [replicate 75 NUL],
     term_cursor_row := term_cursor_row t - 1\<rparr>"

function term_scroll :: "termbuf \<Rightarrow> termbuf" where
  "term_scroll t = (if term_cursor_row t \<ge> 30 then term_scroll (scroll_once t) else t)"
  by pat_completeness auto
termination by (relation "measure (\<lambda>t. nat (term_cursor_row t - 29))") (auto simp: scroll_once_def)

declare term_scroll.simps [simp del]

definition term_io_putchar :: "char \<Rightarrow> termbuf \<Rightarrow> termbuf result" where
  "term_io_putchar c t =
     (if term_active t = 0 then Inr t
      else bind_result
        (if c = NL then Inr (t\<lparr>term_cursor_row := term_cursor_row t + 1, term_cursor_col := 0\<rparr>)
         else if c = BS then
           (if term_cursor_col t > 0
            then set_cell (term_cursor_row t) (term_cursor_col t - 1) NUL (t\<lparr>term_cursor_col := term_cursor_col t - 1\<rparr>)
            else Inr t)
         else if 32 \<le> schar c \<and> schar c \<le> 126 then
           bind_result (set_cell (term_cursor_row t) (term_cursor_col t) c t) (\<lambda>t.
             let t = t\<lparr>term_cursor_col := term_cursor_col t + 1\<rparr> in
             Inr (if term_cursor_col t \<ge> 75
                  then t\<lparr>term_cursor_col := 0, term_cursor_row := term_cursor_row t + 1\<rparr> else t))
         else Inr t)
        (\<lambda>t. Inr (term_scroll t)))"

fun term_put_all :: "string \<Rightarrow> termbuf \<Rightarrow> termbuf result" where
  "term_put_all [] t = Inr t"
| "term_put_all (c # str) t = bind_result (term_io_putchar c t) (\<lambda>t. term_put_all str t)"

definition term_io_force_redraw :: "termbuf \<Rightarrow> termbuf" where
  "term_io_force_redraw t = t\<lparr>needs_redraw := 1\<rparr>"

definition term_io_print :: "string \<Rightarrow> termbuf \<Rightarrow> termbuf result" where
  "term_io_print str t = bind_result (term_put_all str t) (\<lambda>t. Inr (term_io_force_redraw t))"

definition term_io_render :: "font \<Rightarrow> int \<Rightarrow> int \<Rightarrow> termbuf \<Rightarrow> gfx \<Rightarrow> gfx" where
  "term_io_render fn x y t g =
     (let g = fill_rect x y (75 * 8) (30 * 16) 0x000000 g;
          g = for_int 0 30 (\<lambda>row g. for_int 0 75 (\<lambda>col g.
                let c = term_output t ! nat row ! nat col in
                if c \<noteq> NUL then font_draw_char fn (swrap (x + col * 8)) (swrap (y + row * 16)) c 0x00FF00 0x000000 g
                else g) g) g
      in font_draw_char fn (swrap (x + term_cursor_col t * 8)) (swrap (y + term_cursor_row t * 16))
           (CHR ''_'') 0x00FF00 0x000000 g)"

definition term_io_is_active :: "termbuf \<Rightarrow> int" where
  "term_io_is_active t = term_active t"

definition term_io_deactivate :: "termbuf \<Rightarrow> termbuf" where
  "term_io_deactivate t = t\<lparr>term_active := 0\<rparr>"

section \<open>Character sinks\<close>

text \<open>
  Something that characters are sent to one by one, with faults: when every character is accepted
  in every good state, so is every string.
\<close>

locale char_sink =
  fixes good :: "'s \<Rightarrow> bool"
    and putc :: "char \<Rightarrow> 's \<Rightarrow> 's result"
    and puts :: "string \<Rightarrow> 's \<Rightarrow> 's result"
  assumes putc_ok: "good s \<Longrightarrow> \<exists>s'. putc c s = Inr s' \<and> good s'"
    and puts_Nil: "puts [] s = Inr s"
    and puts_Cons: "puts (c # str) s = bind_result (putc c s) (puts str)"
begin

lemma puts_ok: "good s \<Longrightarrow> \<exists>s'. puts str s = Inr s' \<and> good s'"
proof (induction str arbitrary: s)
  case (Cons c str)
  obtain s1 where "putc c s = Inr s1" "good s1" using putc_ok [OF Cons.prems] by blast
  with Cons.IH [of s1] show ?case by (simp add: puts_Cons)
qed (simp add: puts_Nil)

lemma puts_append: "puts (a @ b) s = bind_result (puts a s) (puts b)"
proof (induction a arbitrary: s)
  case (Cons c a)
  show ?case by (cases "putc c s") (simp_all add: puts_Cons Cons)
qed (simp add: puts_Nil)

end

section \<open>The abstract terminal\<close>

text \<open>The rows completed so far and the row being written.\<close>

record a_term =
  a_lines :: "string list"
  a_cur :: string

definition a_putchar :: "char \<Rightarrow> a_term \<Rightarrow> a_term" where
  "a_putchar c a =
     (if c = NL then \<lparr>a_lines = a_lines a @ [a_cur a], a_cur = []\<rparr>
      else if c = BS then a\<lparr>a_cur := butlast (a_cur a)\<rparr>
      else if 32 \<le> schar c \<and> schar c \<le> 126 then
        (if length (a_cur a) = 74 then \<lparr>a_lines = a_lines a @ [a_cur a @ [c]], a_cur = []\<rparr>
         else a\<lparr>a_cur := a_cur a @ [c]\<rparr>)
      else a)"

definition pad75 :: "string \<Rightarrow> char list" where
  "pad75 s = s @ replicate (75 - length s) NUL"

text \<open>The 30 rows that are shown: the last completed rows that fit, the current row, blanks.\<close>

definition shown_rows :: "a_term \<Rightarrow> nat" where
  "shown_rows a = min 29 (length (a_lines a))"

definition shows_term :: "a_term \<Rightarrow> termbuf \<Rightarrow> bool" where
  "shows_term a t \<longleftrightarrow> tt (term_active t) \<and> length (a_cur a) < 75 \<and> (\<forall>l\<in>set (a_lines a). length l \<le> 75) \<and>
     term_cursor_row t = int (shown_rows a) \<and> term_cursor_col t = int (length (a_cur a)) \<and>
     term_output t = map pad75 (drop (length (a_lines a) - shown_rows a) (a_lines a)) @ [pad75 (a_cur a)] @
       replicate (29 - shown_rows a) (replicate 75 NUL)"

lemma length_pad75 [simp]: "length s \<le> 75 \<Longrightarrow> length (pad75 s) = 75"
  by (simp add: pad75_def)

lemma pad75_snoc: "length s < 75 \<Longrightarrow> (pad75 s)[length s := c] = pad75 (s @ [c])"
  by (simp add: pad75_def list_update_append replicate_app_Cons_same [symmetric])
    (cases "75 - length s"; simp)

lemma pad75_butlast: "s \<noteq> [] \<Longrightarrow> length s \<le> 75 \<Longrightarrow> (pad75 s)[length s - 1 := NUL] = pad75 (butlast s)"
proof (induction s rule: rev_induct)
  case (snoc c s)
  then have "75 - length s = Suc (74 - length s)" by simp
  then show ?case by (simp add: pad75_def list_update_append)
qed simp

lemma shows_rows:
  assumes "shows_term a t"
  shows "length (term_output t) = 30" and "term_output t ! shown_rows a = pad75 (a_cur a)"
    and "\<And>r. (term_output t)[shown_rows a := r] =
      map pad75 (drop (length (a_lines a) - shown_rows a) (a_lines a)) @ [r] @
      replicate (29 - shown_rows a) (replicate 75 NUL)"
  using assms by (auto simp: shows_term_def shown_rows_def nth_append list_update_append)

lemma set_cell_shows:
  assumes s: "shows_term a t" and col: "col < 75"
  shows "set_cell (term_cursor_row t) (int col) c t =
    Inr (t\<lparr>term_output := (term_output t)[shown_rows a := (pad75 (a_cur a))[col := c]]\<rparr>)"
  using s col shows_rows(2) [OF s] by (simp add: set_cell_def shows_term_def) (simp add: shown_rows_def)

text \<open>Going to the next row: below the last one the buffer scrolls.\<close>

lemma next_row:
  assumes len: "length l \<le> 75" "\<forall>x\<in>set (a_lines a). length x \<le> 75" and act: "tt (term_active t)"
    and out: "term_output t = map pad75 (drop (length (a_lines a) - shown_rows a) (a_lines a)) @ [pad75 l] @
      replicate (29 - shown_rows a) (replicate 75 NUL)"
    and row: "term_cursor_row t = int (shown_rows a) + 1" and col: "term_cursor_col t = 0"
  shows "shows_term \<lparr>a_lines = a_lines a @ [l], a_cur = []\<rparr> (term_scroll t)"
proof (cases "length (a_lines a) < 29")
  case True
  then have r: "shown_rows a = length (a_lines a)" by (simp add: shown_rows_def)
  have "replicate (29 - length (a_lines a)) (replicate 75 NUL) =
      pad75 [] # replicate (28 - length (a_lines a)) (replicate 75 NUL)"
    using True by (simp add: pad75_def Suc_diff_le flip: replicate_Suc)
  then show ?thesis
    using True len act out row col by (simp add: term_scroll.simps [of t] shows_term_def shown_rows_def)
next
  case False
  then have r: "shown_rows a = 29" by (simp add: shown_rows_def)
  let ?n = "length (a_lines a) - 29"
  have "drop ?n (a_lines a) = a_lines a ! ?n # drop (Suc ?n) (a_lines a)"
    using False by (simp add: Cons_nth_drop_Suc)
  then have tl: "tl (term_output t) = map pad75 (drop (Suc ?n) (a_lines a)) @ [pad75 l]"
    using out r by simp
  have "drop (length (a_lines a @ [l]) - 29) (a_lines a @ [l]) = drop (Suc ?n) (a_lines a) @ [l]"
  proof -
    have "length (a_lines a) - 28 = Suc ?n" using False by simp
    then show ?thesis using False by simp
  qed
  moreover have "term_scroll t = scroll_once t"
  proof -
    have "term_cursor_row (scroll_once t) = 29" using row r by (simp add: scroll_once_def)
    then have "term_scroll (scroll_once t) = scroll_once t" by (subst term_scroll.simps) simp
    then show ?thesis using row r by (subst term_scroll.simps) simp
  qed
  ultimately show ?thesis
    using False len act row col tl by (simp add: shows_term_def shown_rows_def scroll_once_def pad75_def)
qed

lemma no_scroll: "shows_term a t \<Longrightarrow> term_scroll t = t"
  by (simp add: term_scroll.simps shows_term_def shown_rows_def)

lemma putchar_refines:
  assumes s: "shows_term a t"
  shows "\<exists>t'. term_io_putchar c t = Inr t' \<and> shows_term (a_putchar c a) t'"
proof -
  have act: "tt (term_active t)" and cur: "length (a_cur a) < 75" and lines: "\<forall>x\<in>set (a_lines a). length x \<le> 75"
    and row: "term_cursor_row t = int (shown_rows a)" and col: "term_cursor_col t = int (length (a_cur a))"
    using s by (auto simp: shows_term_def)
  note out = shows_rows(3) [OF s]
  have self: "term_output t = (term_output t)[shown_rows a := pad75 (a_cur a)]"
    by (metis list_update_id shows_rows(2) [OF s])
  consider (nl) "c = NL" | (bs) "c = BS" | (pr) "c \<noteq> NL" "c \<noteq> BS" "32 \<le> schar c" "schar c \<le> 126"
    | (other) "c \<noteq> NL" "c \<noteq> BS" "\<not> (32 \<le> schar c \<and> schar c \<le> 126)" by blast
  then show ?thesis
  proof cases
    case nl
    have "shows_term \<lparr>a_lines = a_lines a @ [a_cur a], a_cur = []\<rparr>
        (term_scroll (t\<lparr>term_cursor_row := term_cursor_row t + 1, term_cursor_col := 0\<rparr>))"
      by (rule next_row) (use act cur lines row self out [of "pad75 (a_cur a)"] in auto)
    then show ?thesis using nl act by (simp add: term_io_putchar_def a_putchar_def)
  next
    case bs
    have neq: "BS \<noteq> NL" by (simp add: BS_def NL_def)
    show ?thesis
    proof (cases "a_cur a = []")
      case True
      then have "a_putchar c a = a" using bs neq by (simp add: a_putchar_def)
      then show ?thesis using bs neq True act col s no_scroll [OF s] by (simp add: term_io_putchar_def)
    next
      case False
      let ?t = "t\<lparr>term_cursor_col := term_cursor_col t - 1\<rparr>"
      have "set_cell (term_cursor_row ?t) (int (length (a_cur a) - 1)) NUL ?t =
          Inr (?t\<lparr>term_output := (term_output t)[shown_rows a := pad75 (butlast (a_cur a))]\<rparr>)"
        using row cur False shows_rows(2) [OF s] pad75_butlast [OF False]
        by (simp add: set_cell_def) (auto simp: shown_rows_def)
      moreover have "int (length (a_cur a) - 1) = term_cursor_col t - 1" using col False by (simp add: Suc_le_eq of_nat_diff)
      moreover have sh: "shows_term (a\<lparr>a_cur := butlast (a_cur a)\<rparr>)
          (?t\<lparr>term_output := (term_output t)[shown_rows a := pad75 (butlast (a_cur a))]\<rparr>)"
        using s False out [of "pad75 (butlast (a_cur a))"] cur
        by (auto simp: shows_term_def shown_rows_def Suc_le_eq of_nat_diff)
      ultimately show ?thesis
        using bs neq False act col no_scroll [OF sh] by (simp add: term_io_putchar_def a_putchar_def)
    qed
  next
    case pr
    let ?t = "t\<lparr>term_output := (term_output t)[shown_rows a := pad75 (a_cur a @ [c])]\<rparr>"
    have cell: "set_cell (term_cursor_row t) (term_cursor_col t) c t = Inr ?t"
      using set_cell_shows [OF s cur, of c] pad75_snoc [OF cur] by (simp add: col)
    show ?thesis
    proof (cases "length (a_cur a) = 74")
      case True
      have "shows_term \<lparr>a_lines = a_lines a @ [a_cur a @ [c]], a_cur = []\<rparr>
          (term_scroll (?t\<lparr>term_cursor_col := 0, term_cursor_row := term_cursor_row t + 1\<rparr>))"
        by (rule next_row) (use act cur lines row out [of "pad75 (a_cur a @ [c])"] in auto)
      then show ?thesis using pr True act col cell by (simp add: term_io_putchar_def a_putchar_def)
    next
      case False
      have sh: "shows_term (a\<lparr>a_cur := a_cur a @ [c]\<rparr>) (?t\<lparr>term_cursor_col := term_cursor_col t + 1\<rparr>)"
        using s False cur out [of "pad75 (a_cur a @ [c])"] by (auto simp: shows_term_def shown_rows_def)
      then show ?thesis
        using pr False cur act col cell no_scroll [OF sh] by (simp add: term_io_putchar_def a_putchar_def)
    qed
  next
    case other
    then show ?thesis using s act no_scroll [OF s] by (auto simp: term_io_putchar_def a_putchar_def)
  qed
qed

section \<open>Printing\<close>

lemma put_all_refines:
  "shows_term a t \<Longrightarrow> \<exists>t'. term_put_all str t = Inr t' \<and> shows_term (fold a_putchar str a) t'"
proof (induction str arbitrary: a t)
  case (Cons c str)
  obtain t1 where "term_io_putchar c t = Inr t1" "shows_term (a_putchar c a) t1"
    using putchar_refines [OF Cons.prems] by blast
  with Cons.IH show ?case by simp
qed simp

lemma init_shows: "shows_term \<lparr>a_lines = [], a_cur = []\<rparr> (term_io_init t)"
proof -
  have "replicate 30 (replicate 75 NUL) = pad75 [] # replicate 29 (replicate 75 NUL)"
    by (simp add: pad75_def flip: replicate_Suc)
  then show ?thesis by (simp add: shows_term_def term_io_init_def shown_rows_def)
qed

text \<open>The invariant on its own: cursor inside, buffer of full size.\<close>

definition term_good :: "termbuf \<Rightarrow> bool" where
  "term_good t \<longleftrightarrow> (\<exists>a. shows_term a t)"

interpretation term_sink: char_sink term_good term_io_putchar term_put_all
proof (unfold_locales, goal_cases)
  case (1 s c)
  then obtain a where "shows_term a s" by (auto simp: term_good_def)
  from putchar_refines [OF this, of c] show ?case by (auto simp: term_good_def)
qed simp_all

section \<open>Properties\<close>

text \<open>
  C13. Whatever is printed to the terminal after \<^verbatim>\<open>term_io_init\<close>, no store leaves the 30 by 75
  buffer, and the buffer shows exactly the end of the text: the last completed rows (lines wrapped
  at 75 columns, backspaces applied), the current row with the cursor behind it, blanks below.
\<close>

theorem terminal_shows_text:
  "\<exists>t'. term_io_print str (term_io_init t) = Inr t' \<and>
    (let a = fold a_putchar str \<lparr>a_lines = [], a_cur = []\<rparr> in
       term_output t' = map pad75 (drop (length (a_lines a) - shown_rows a) (a_lines a)) @ [pad75 (a_cur a)] @
         replicate (29 - shown_rows a) (replicate 75 NUL) \<and>
       term_cursor_row t' = int (shown_rows a) \<and> term_cursor_col t' = int (length (a_cur a)))"
proof -
  obtain t' where "term_put_all str (term_io_init t) = Inr t'"
      "shows_term (fold a_putchar str \<lparr>a_lines = [], a_cur = []\<rparr>) t'"
    using put_all_refines [OF init_shows, of str t] by blast
  then show ?thesis by (simp add: term_io_print_def term_io_force_redraw_def Let_def shows_term_def)
qed

text \<open>
  Once initialised, the terminal keeps its cursor inside the buffer for ever: any sequence of
  further strings is accepted without a fault.
\<close>

theorem terminal_never_faults:
  assumes "term_put_all s (term_io_init t) = Inr t1"
  shows "\<exists>t2. term_put_all s' t1 = Inr t2 \<and> 0 \<le> term_cursor_row t2 \<and> term_cursor_row t2 < 30 \<and>
    0 \<le> term_cursor_col t2 \<and> term_cursor_col t2 < 75 \<and> length (term_output t2) = 30"
proof -
  have "term_good (term_io_init t)" using init_shows by (auto simp: term_good_def)
  from term_sink.puts_ok [OF this, of "s @ s'"] obtain t2 where
    t2: "term_put_all (s @ s') (term_io_init t) = Inr t2" "term_good t2" by blast
  then obtain a where a: "shows_term a t2" by (auto simp: term_good_def)
  have "term_put_all s' t1 = Inr t2" using t2(1) assms by (simp add: term_sink.puts_append)
  moreover have "shown_rows a < 30" by (simp add: shown_rows_def)
  ultimately show ?thesis using a shows_rows(1) [OF a] by (auto simp: shows_term_def)
qed

theorem terminal_never_faults_witness:
  "\<exists>t1 t2. term_put_all ''abc'' (term_io_init \<lparr>term_output = [], term_cursor_row = 7, term_cursor_col = 9,
      term_active = 0, needs_redraw = 0\<rparr>) = Inr t1 \<and> term_put_all (replicate 200 NL) t1 = Inr t2 \<and> term_cursor_row t2 < 30"
proof -
  let ?t = "\<lparr>term_output = [], term_cursor_row = 7, term_cursor_col = 9, term_active = 0, needs_redraw = 0\<rparr>"
  obtain t1 where "term_put_all ''abc'' (term_io_init ?t) = Inr t1"
    using put_all_refines [OF init_shows, of "''abc''" ?t] by blast
  with terminal_never_faults [OF this, of "replicate 200 NL"] show ?thesis by blast
qed

end
