(* ===== verification/Libc.thy ===== *)
theory Libc
  imports Printing
begin

text \<open>
  The string, conversion and formatting routines of \<^verbatim>\<open>src/libc.c\<close>. A pointer into an array is the
  list of the elements from there on; an access behind the end of the array is the fault
  \<open>OutOfBounds\<close>. Shown here: what each string routine computes on NUL-terminated arrays, that
  \<^verbatim>\<open>atoi\<close> reads back what \<^verbatim>\<open>itoa\<close> writes, and that \<^verbatim>\<open>vsnprintf\<close> writes exactly the truncated
  rendering of its format, never outside the size it was given.
\<close>

section \<open>Strings\<close>

fun strlen :: "char list \<Rightarrow> nat result" where
  "strlen [] = Inl OutOfBounds"
| "strlen (c # s) = (if c = NUL then Inr 0 else bind_result (strlen s) (\<lambda>n. Inr (Suc n)))"

text \<open>\<^verbatim>\<open>while ((*d++ = *src++));\<close> with \<open>d\<close> at index \<open>i\<close> of \<open>dest\<close>.\<close>

fun strcpy_from :: "char list \<Rightarrow> nat \<Rightarrow> char list \<Rightarrow> char list result" where
  "strcpy_from dest i [] = Inl OutOfBounds"
| "strcpy_from dest i (c # src) =
     (if length dest \<le> i then Inl OutOfBounds
      else if c = NUL then Inr (dest[i := c])
      else strcpy_from (dest[i := c]) (Suc i) src)"

definition strcpy :: "char list \<Rightarrow> char list \<Rightarrow> char list result" where
  "strcpy dest src = strcpy_from dest 0 src"

text \<open>The two loops of \<^verbatim>\<open>strncpy\<close>: copy, then fill with NUL up to \<open>n\<close>; \<open>k\<close> is \<open>n - i\<close>.\<close>

fun strncpy_from :: "char list \<Rightarrow> nat \<Rightarrow> nat \<Rightarrow> char list \<Rightarrow> char list result" where
  "strncpy_from dest i 0 src = Inr dest"
| "strncpy_from dest i (Suc k) [] = Inl OutOfBounds"
| "strncpy_from dest i (Suc k) (c # src) =
     (if c = NUL then (if length dest < i + Suc k then Inl OutOfBounds else Inr (blit dest i (replicate (Suc k) NUL)))
      else if length dest \<le> i then Inl OutOfBounds
      else strncpy_from (dest[i := c]) (Suc i) k src)"

definition strncpy :: "char list \<Rightarrow> char list \<Rightarrow> nat \<Rightarrow> char list result" where
  "strncpy dest src n = strncpy_from dest 0 n src"

definition strcat :: "char list \<Rightarrow> char list \<Rightarrow> char list result" where
  "strcat dest src = bind_result (strlen dest) (\<lambda>n. strcpy_from dest n src)"

fun strncat_from :: "char list \<Rightarrow> nat \<Rightarrow> nat \<Rightarrow> char list \<Rightarrow> char list result" where
  "strncat_from dest i 0 src = (if length dest \<le> i then Inl OutOfBounds else Inr (dest[i := NUL]))"
| "strncat_from dest i (Suc k) [] = Inl OutOfBounds"
| "strncat_from dest i (Suc k) (c # src) =
     (if length dest \<le> i then Inl OutOfBounds
      else if c = NUL then Inr (dest[i := NUL])
      else strncat_from (dest[i := c]) (Suc i) k src)"

definition strncat :: "char list \<Rightarrow> char list \<Rightarrow> nat \<Rightarrow> char list result" where
  "strncat dest src n = bind_result (strlen dest) (\<lambda>d. strncat_from dest d n src)"

text \<open>\<^verbatim>\<open>(unsigned char)*a - (unsigned char)*b\<close>.\<close>

definition uchar_diff :: "char \<Rightarrow> char \<Rightarrow> int" where
  "uchar_diff a b = int (of_char a) - int (of_char b)"

fun strcmp :: "char list \<Rightarrow> char list \<Rightarrow> int result" where
  "strcmp (a # as) (b # bs) =
     (if a \<noteq> NUL \<and> b \<noteq> NUL \<and> a = b then strcmp as bs else Inr (uchar_diff a b))"
| "strcmp [] bs = Inl OutOfBounds"
| "strcmp (a # as) [] = Inl OutOfBounds"

fun strncmp :: "char list \<Rightarrow> char list \<Rightarrow> nat \<Rightarrow> int result" where
  "strncmp as bs 0 = Inr 0"
| "strncmp (a # as) (b # bs) (Suc n) =
     (if a \<noteq> b then Inr (uchar_diff a b) else if a = NUL then Inr 0 else strncmp as bs n)"
| "strncmp [] bs (Suc n) = Inl OutOfBounds"
| "strncmp (a # as) [] (Suc n) = Inl OutOfBounds"

text \<open>\<^verbatim>\<open>strchr\<close> and \<^verbatim>\<open>strstr\<close> return an offset into the string, or NULL.\<close>

fun strchr_from :: "char list \<Rightarrow> char \<Rightarrow> nat \<Rightarrow> nat option result" where
  "strchr_from [] c i = Inl OutOfBounds"
| "strchr_from (x # s) c i =
     (if x = NUL then Inr (if c = NUL then Some i else None)
      else if x = c then Inr (Some i) else strchr_from s c (Suc i))"

definition strchr :: "char list \<Rightarrow> char \<Rightarrow> nat option result" where
  "strchr s c = strchr_from s c 0"

text \<open>The inner loop of \<^verbatim>\<open>strstr\<close>: whether the needle is used up.\<close>

fun prefix_at :: "char list \<Rightarrow> char list \<Rightarrow> bool result" where
  "prefix_at hs [] = Inl OutOfBounds"
| "prefix_at [] (n # ns) = Inl OutOfBounds"
| "prefix_at (h # hs) (n # ns) =
     (if h \<noteq> NUL \<and> n \<noteq> NUL \<and> h = n then prefix_at hs ns else Inr (n = NUL))"

fun strstr_from :: "char list \<Rightarrow> char list \<Rightarrow> nat \<Rightarrow> nat option result" where
  "strstr_from [] needle i = Inl OutOfBounds"
| "strstr_from (h # hs) needle i =
     (if h = NUL then Inr None
      else bind_result (prefix_at (h # hs) needle) (\<lambda>m. if m then Inr (Some i) else strstr_from hs needle (Suc i)))"

definition strstr :: "char list \<Rightarrow> char list \<Rightarrow> nat option result" where
  "strstr haystack needle =
     (case needle of
        [] \<Rightarrow> Inl OutOfBounds
      | n # ns \<Rightarrow> if n = NUL then Inr (Some 0) else strstr_from haystack needle 0)"

section \<open>Conversion\<close>

text \<open>Strings given by their characters before the terminator; \<^verbatim>\<open>long\<close> is 32 bits wide like \<^verbatim>\<open>int\<close>.\<close>

fun atoi_digits :: "int \<Rightarrow> string \<Rightarrow> int" where
  "atoi_digits result [] = result"
| "atoi_digits result (c # s) =
     (if is_digit c then atoi_digits (swrap (result * 10 + (schar c - 48))) s else result)"

definition atoi :: "string \<Rightarrow> int" where
  "atoi s =
     (let s = dropWhile (\<lambda>c. c = CHR '' '') s in
      case s of
        [] \<Rightarrow> 0
      | c # s' \<Rightarrow>
          if c = CHR ''-'' then swrap (atoi_digits 0 s' * (- 1))
          else if c = CHR ''+'' then atoi_digits 0 s'
          else atoi_digits 0 s)"

definition atol :: "string \<Rightarrow> int" where
  "atol s = atoi s"

definition digit_sym :: "int \<Rightarrow> char" where
  "digit_sym rem = (if rem < 10 then char_of (nat (48 + rem)) else char_of (nat (97 + rem - 10)))"

text \<open>\<^verbatim>\<open>while (val > 0)\<close> of \<^verbatim>\<open>itoa\<close>, with C's truncating division; \<open>cap\<close> is the room left in \<^verbatim>\<open>tmp\<close>.\<close>

fun itoa_loop :: "nat \<Rightarrow> int \<Rightarrow> int \<Rightarrow> string \<Rightarrow> string result" where
  "itoa_loop cap val base tmp =
     (if val > 0
      then (case cap of
              0 \<Rightarrow> Inl OutOfBounds
            | Suc cap' \<Rightarrow>
                if base = 0 then Inl DivideByZero
                else itoa_loop cap' (sgn base * (val div \<bar>base\<bar>)) base (tmp @ [digit_sym (val mod \<bar>base\<bar>)]))
      else Inr tmp)"

declare itoa_loop.simps [simp del]

definition itoa :: "int \<Rightarrow> char list \<Rightarrow> int \<Rightarrow> char list result" where
  "itoa val buf base =
     (if val = 0 then (if length buf < 2 then Inl OutOfBounds else Inr (buf[0 := CHR ''0'', 1 := NUL]))
      else let (neg, val) = (if val < 0 \<and> base = 10 then (True, swrap (- val)) else (False, val)) in
        bind_result (itoa_loop 32 val base []) (\<lambda>tmp.
          if neg \<and> 32 \<le> length tmp then Inl OutOfBounds
          else let text = rev (tmp @ (if neg then ''-'' else [])) in
            if length buf \<le> length text then Inl OutOfBounds
            else Inr ((blit buf 0 text)[length text := NUL])))"

section \<open>Formatting\<close>

text \<open>Writing one character when there is room: \<^verbatim>\<open>if (pos + 1 < size) buf[pos++] = c\<close>.\<close>

type_synonym obuf = "char list \<times> nat"

definition put_if :: "nat \<Rightarrow> char \<Rightarrow> obuf \<Rightarrow> obuf result" where
  "put_if sz c b =
     (case b of (buf, pos) \<Rightarrow>
        if pos + 1 < sz
        then (if length buf \<le> pos then Inl OutOfBounds else Inr (buf[pos := c], pos + 1))
        else Inr (buf, pos))"

fun fmt_write_str :: "nat \<Rightarrow> string \<Rightarrow> obuf \<Rightarrow> obuf result" where
  "fmt_write_str sz [] b = Inr b"
| "fmt_write_str sz (c # s) b =
     (if snd b + 1 < sz then bind_result (put_if sz c b) (\<lambda>b. fmt_write_str sz s b) else Inr b)"

fun uint_digits :: "nat \<Rightarrow> nat \<Rightarrow> nat \<Rightarrow> string \<Rightarrow> string result" where
  "uint_digits cap uval base tmp =
     (if uval > 0
      then (case cap of
              0 \<Rightarrow> Inl OutOfBounds
            | Suc cap' \<Rightarrow> uint_digits cap' (uval div base) base (tmp @ [digit_sym (int (uval mod base))]))
      else Inr tmp)"

declare uint_digits.simps [simp del]

text \<open>\<^verbatim>\<open>while (pad > len && *pos + 1 < size) { buf[(*pos)++] = padch; pad--; }\<close>\<close>

function fmt_pad :: "nat \<Rightarrow> int \<Rightarrow> int \<Rightarrow> char \<Rightarrow> obuf \<Rightarrow> obuf result" where
  "fmt_pad sz pad len padch b =
     (if pad > len \<and> snd b + 1 < sz
      then bind_result (put_if sz padch b) (\<lambda>b. fmt_pad sz (pad - 1) len padch b)
      else Inr b)"
  by pat_completeness auto
termination by (relation "measure (\<lambda>(sz, pad, len, padch, b). nat (pad - len))") auto

declare fmt_pad.simps [simp del]

text \<open>\<^verbatim>\<open>while (i > 0 && *pos + 1 < size) buf[(*pos)++] = tmp[--i];\<close>, on the digits last first.\<close>

fun fmt_digits :: "nat \<Rightarrow> string \<Rightarrow> obuf \<Rightarrow> obuf result" where
  "fmt_digits sz [] b = Inr b"
| "fmt_digits sz (c # cs) b =
     (if snd b + 1 < sz then bind_result (put_if sz c b) (\<lambda>b. fmt_digits sz cs b) else Inr b)"

definition fmt_write_int :: "nat \<Rightarrow> int \<Rightarrow> nat \<Rightarrow> bool \<Rightarrow> int \<Rightarrow> char \<Rightarrow> obuf \<Rightarrow> obuf result" where
  "fmt_write_int sz val base unsign pad padch b =
     (let (neg, val) = (if \<not> unsign \<and> val < 0 then (True, swrap (- val)) else (False, val));
          uval = nat (val mod 2 ^ 32)
      in bind_result (if uval = 0 then Inr ''0'' else uint_digits 32 uval base []) (\<lambda>tmp.
           if neg \<and> 32 \<le> length tmp then Inl OutOfBounds
           else let tmp = tmp @ (if neg then ''-'' else []);
                    len = int (length tmp)
             in bind_result (fmt_pad sz pad len padch b) (\<lambda>b. fmt_digits sz (rev tmp) b)))"

text \<open>The arguments behind the format. A mismatch of argument and conversion is undefined in C.\<close>

datatype fmt_arg = ArgInt int | ArgUint int | ArgStr string

text \<open>\<^verbatim>\<open>while (*fmt >= '0' && *fmt <= '9') pad = pad * 10 + (*fmt++ - '0');\<close>\<close>

fun fmt_width :: "int \<Rightarrow> string \<Rightarrow> int \<times> string" where
  "fmt_width pad [] = (pad, [])"
| "fmt_width pad (c # f) =
     (if is_digit c then fmt_width (swrap (pad * 10 + (schar c - 48))) f else (pad, c # f))"

lemma length_fmt_width: "length (snd (fmt_width pad f)) \<le> length f"
  by (induction f arbitrary: pad) (auto simp: le_Suc_eq)

text \<open>One conversion: the padding, the character after it, and the rest of the format.\<close>

definition fmt_spec :: "string \<Rightarrow> char \<times> int \<times> string" where
  "fmt_spec f =
     (let (padch, f) = (case f of c # f' \<Rightarrow> if c = CHR ''0'' then (CHR ''0'', f') else (CHR '' '', f) | [] \<Rightarrow> (CHR '' '', f));
          (pad, f) = fmt_width 0 f
      in (padch, pad, f))"

lemma length_fmt_spec: "fmt_spec f = (padch, pad, r) \<Longrightarrow> length r \<le> length f"
proof -
  assume "fmt_spec f = (padch, pad, r)"
  then have "r = snd (fmt_width 0 f) \<or> (\<exists>c f'. f = c # f' \<and> r = snd (fmt_width 0 f'))"
    by (auto simp: fmt_spec_def Let_def split: list.splits prod.splits if_splits)
  then show ?thesis using length_fmt_width [of 0] by (auto simp: le_SucI)
qed

definition fmt_conv :: "nat \<Rightarrow> char \<Rightarrow> int \<Rightarrow> char \<Rightarrow> fmt_arg list \<Rightarrow> obuf \<Rightarrow> (fmt_arg list \<times> obuf) result" where
  "fmt_conv sz padch pad c args b =
     (if c = CHR ''d'' \<or> c = CHR ''i'' then
        (case args of ArgInt v # as \<Rightarrow> bind_result (fmt_write_int sz v 10 False pad padch b) (\<lambda>b. Inr (as, b))
         | _ \<Rightarrow> Inl BadArgument)
      else if c = CHR ''u'' then
        (case args of ArgUint v # as \<Rightarrow> bind_result (fmt_write_int sz v 10 True pad padch b) (\<lambda>b. Inr (as, b))
         | _ \<Rightarrow> Inl BadArgument)
      else if c = CHR ''x'' then
        (case args of ArgUint v # as \<Rightarrow> bind_result (fmt_write_int sz v 16 True pad padch b) (\<lambda>b. Inr (as, b))
         | _ \<Rightarrow> Inl BadArgument)
      else if c = CHR ''c'' then
        (case args of ArgInt v # as \<Rightarrow> bind_result (put_if sz (char_of (nat (v mod 256))) b) (\<lambda>b. Inr (as, b))
         | _ \<Rightarrow> Inl BadArgument)
      else if c = CHR ''s'' then
        (case args of ArgStr s # as \<Rightarrow> bind_result (fmt_write_str sz s b) (\<lambda>b. Inr (as, b))
         | _ \<Rightarrow> Inl BadArgument)
      else if c = CHR ''%'' then bind_result (put_if sz (CHR ''%'') b) (\<lambda>b. Inr (args, b))
      else Inr (args, b))"

text \<open>
  The main loop. A format that ends in the middle of a conversion makes \<^verbatim>\<open>switch (*fmt++)\<close> step
  behind its terminator, and the loop condition then reads there.
\<close>

function fmt_loop :: "nat \<Rightarrow> string \<Rightarrow> fmt_arg list \<Rightarrow> obuf \<Rightarrow> obuf result" where
  "fmt_loop sz [] args b = Inr b"
| "fmt_loop sz (c # f) args b =
     (if \<not> snd b + 1 < sz then Inr b
      else if c \<noteq> CHR ''%'' then bind_result (put_if sz c b) (\<lambda>b. fmt_loop sz f args b)
      else (case fmt_spec f of
              (padch, pad, []) \<Rightarrow> Inl OutOfBounds
            | (padch, pad, d # f') \<Rightarrow>
                bind_result (fmt_conv sz padch pad d args b) (\<lambda>(args, b). fmt_loop sz f' args b)))"
  by pat_completeness auto
termination
  by (relation "measure (\<lambda>(sz, f, args, b). length f)") (auto dest!: length_fmt_spec [OF sym])

definition vsnprintf :: "char list \<Rightarrow> nat \<Rightarrow> string \<Rightarrow> fmt_arg list \<Rightarrow> (nat \<times> char list) result" where
  "vsnprintf buf sz fmt args =
     bind_result (fmt_loop sz fmt args (buf, 0)) (\<lambda>(buf, pos).
       if length buf \<le> pos then Inl OutOfBounds else Inr (pos, buf[pos := NUL]))"

definition snprintf :: "char list \<Rightarrow> nat \<Rightarrow> string \<Rightarrow> fmt_arg list \<Rightarrow> (nat \<times> char list) result" where
  "snprintf buf sz fmt args = vsnprintf buf sz fmt args"

section \<open>What the string routines compute\<close>

lemma nul_free_Cons [simp]: "nul_free (c # s) \<longleftrightarrow> c \<noteq> NUL \<and> nul_free s"
  by (auto simp: nul_free_def)

lemma nul_free_Nil [simp]: "nul_free []"
  by (simp add: nul_free_def)

lemma nul_free_append [simp]: "nul_free (s @ t) \<longleftrightarrow> nul_free s \<and> nul_free t"
  by (auto simp: nul_free_def)

lemma strlen_terminated [simp]: "nul_free s \<Longrightarrow> strlen (s @ NUL # r) = Inr (length s)"
  by (induction s) simp_all

lemma strcpy_from_terminated:
  "nul_free s \<Longrightarrow> strcpy_from dest i (s @ NUL # r) =
     (if i + length s < length dest then Inr (blit dest i (s @ [NUL])) else Inl OutOfBounds)"
  by (induction s arbitrary: dest i) auto

lemma strncat_from_terminated:
  "nul_free s \<Longrightarrow> strncat_from dest i k (s @ NUL # r) =
     (if i + length (take k s) < length dest then Inr (blit dest i (take k s @ [NUL])) else Inl OutOfBounds)"
proof (induction k arbitrary: dest i s)
  case (Suc k)
  then show ?case by (cases s) auto
qed simp

lemma strncpy_from_terminated:
  "nul_free s \<Longrightarrow> strncpy_from dest i n (s @ NUL # r) =
     (if i + n \<le> length dest \<or> n = 0 then Inr (blit dest i (take n s @ replicate (n - length s) NUL)) else Inl OutOfBounds)"
proof (induction n arbitrary: dest i s)
  case (Suc n)
  show ?case
  proof (cases s)
    case Nil
    then show ?thesis by auto
  next
    case (Cons c t)
    show ?thesis
    proof (cases "n = 0")
      case True
      then show ?thesis using Cons Suc.prems by auto
    next
      case False
      then show ?thesis using Cons Suc.prems Suc.IH [of t "dest[i := c]" "Suc i"] by auto
    qed
  qed
qed simp

lemma of_char_0: "(of_char b :: nat) = 0 \<longleftrightarrow> b = NUL"
proof
  assume "(of_char b :: nat) = 0"
  moreover have "char_of (of_char b :: nat) = b" by (rule char_of_char)
  ultimately have "b = char_of (0 :: nat)" by simp
  then show "b = NUL" by (simp add: NUL_def char_of_def)
qed (simp add: NUL_def)

lemma uchar_diff_0 [simp]: "uchar_diff a b = 0 \<longleftrightarrow> a = b"
  by (auto simp: uchar_diff_def)

lemma strcmp_terminated:
  "nul_free s \<Longrightarrow> nul_free t \<Longrightarrow> \<exists>v. strcmp (s @ NUL # r) (t @ NUL # q) = Inr v \<and> (v = 0 \<longleftrightarrow> s = t) \<and>
     (v < 0 \<longleftrightarrow> (s, t) \<in> lexord {(a, b). (of_char a :: nat) < of_char b})"
proof (induction s arbitrary: t)
  case Nil
  show ?case
  proof (cases t)
    case (Cons b t')
    then have "(of_char b :: nat) \<noteq> 0" using Nil by (simp add: of_char_0)
    then show ?thesis using Cons Nil by (auto simp: uchar_diff_def NUL_def)
  qed (simp add: uchar_diff_def)
next
  case (Cons a s)
  show ?case
  proof (cases t)
    case Nil
    have "(of_char a :: nat) \<noteq> 0" using Cons.prems by (simp add: of_char_0)
    then show ?thesis using Nil Cons.prems by (auto simp: uchar_diff_def NUL_def)
  next
    case (Cons b t')
    then show ?thesis using Cons.IH [of t'] Cons.prems by (auto simp: uchar_diff_def)
  qed
qed

lemma prefix_at_terminated:
  "nul_free h \<Longrightarrow> nul_free n \<Longrightarrow> prefix_at (h @ NUL # r) (n @ NUL # q) = Inr (take (length n) h = n)"
proof (induction n arbitrary: h)
  case Nil
  then show ?case by (cases h) auto
next
  case (Cons c n)
  then show ?case by (cases h) auto
qed

text \<open>The first position at which a string occurs in another, the reference for \<^verbatim>\<open>strstr\<close>.\<close>

fun first_at :: "string \<Rightarrow> string \<Rightarrow> nat \<Rightarrow> nat option" where
  "first_at [] n i = None"
| "first_at (h # hs) n i = (if take (length n) (h # hs) = n then Some i else first_at hs n (Suc i))"

lemma strstr_from_terminated:
  "nul_free h \<Longrightarrow> nul_free n \<Longrightarrow> strstr_from (h @ NUL # r) (n @ NUL # q) i = Inr (first_at h n i)"
proof (induction h arbitrary: i)
  case (Cons c h)
  have "prefix_at ((c # h) @ NUL # r) (n @ NUL # q) = Inr (take (length n) (c # h) = n)"
    by (rule prefix_at_terminated) (use Cons.prems in auto)
  with Cons show ?case by simp
qed simp

lemma first_at_sound:
  "first_at h n i = Some k \<Longrightarrow> i \<le> k \<and> k < i + length h \<and> take (length n) (drop (k - i) h) = n \<and>
     (\<forall>j. i \<le> j \<longrightarrow> j < k \<longrightarrow> take (length n) (drop (j - i) h) \<noteq> n)"
proof (induction h arbitrary: i)
  case (Cons c h)
  show ?case
  proof (cases "take (length n) (c # h) = n")
    case True
    with Cons.prems show ?thesis by auto
  next
    case False
    with Cons.prems have rec: "first_at h n (Suc i) = Some k" by simp
    note IH = Cons.IH [OF rec]
    have "take (length n) (drop (j - i) (c # h)) \<noteq> n" if "i \<le> j" "j < k" for j
    proof (cases "j = i")
      case True
      then show ?thesis using False by simp
    next
      case neq: False
      then have "j - i = Suc (j - Suc i)" using that by simp
      then show ?thesis using IH neq that by auto
    qed
    moreover have "k - i = Suc (k - Suc i)" using IH by linarith
    ultimately show ?thesis using IH by auto
  qed
qed simp

section \<open>Numbers to text and back\<close>

lemma digit_sym_small: "d < 10 \<Longrightarrow> digit_sym (int d) = digit_char d"
  by (simp add: digit_sym_def digit_char_def nat_add_distrib)

lemma itoa_loop_dec:
  assumes "n < 10 ^ cap"
  shows "itoa_loop cap (int n) 10 tmp = Inr (tmp @ (if n = 0 then [] else rev (dec n)))"
  using assms
proof (induction cap arbitrary: n tmp)
  case 0
  then show ?case by (simp add: itoa_loop.simps)
next
  case (Suc cap)
  have small: "n div 10 < 10 ^ cap" using Suc.prems by (auto simp: less_mult_imp_div_less)
  have digit: "digit_sym (int n mod 10) = digit_char (n mod 10)"
    using digit_sym_small [of "n mod 10"] by (simp add: zmod_int)
  show ?case
  proof (cases "n = 0")
    case True
    then show ?thesis by (simp add: itoa_loop.simps)
  next
    case False
    then have "itoa_loop (Suc cap) (int n) 10 tmp =
        itoa_loop cap (int (n div 10)) 10 (tmp @ [digit_char (n mod 10)])"
      by (subst itoa_loop.simps) (simp add: digit zdiv_int)
    also have "\<dots> = Inr (tmp @ [digit_char (n mod 10)] @ (if n div 10 = 0 then [] else rev (dec (n div 10))))"
      using Suc.IH [OF small] by simp
    also have "\<dots> = Inr (tmp @ rev (dec n))"
      by (cases "n < 10") (auto simp: dec_small dec_step)
    finally show ?thesis using False by simp
  qed
qed

lemma length_dec_int32: "- (2 ^ 31) < v \<Longrightarrow> v < 2 ^ 31 \<Longrightarrow> length (dec_int v) \<le> 11"
proof -
  assume v: "- (2 ^ 31) < v" "v < 2 ^ 31"
  then have "nat \<bar>v\<bar> < 10 ^ 10" by simp
  from length_dec_le [OF this] show ?thesis by (auto simp: dec_int_def)
qed

lemma itoa_text:
  assumes v: "- (2 ^ 31) < v" "v < 2 ^ 31" and buf: "length (dec_int v) < length buf"
  shows "itoa v buf 10 = Inr (blit buf 0 (dec_int v @ [NUL]))"
proof -
  have snoc: "(blit buf 0 t)[length t := NUL] = blit buf 0 (t @ [NUL])" if "length t < length buf" for t
    using that by (subst (1 2) blit_0) (auto simp: list_update_append simp flip: Cons_nth_drop_Suc)
  show ?thesis
  proof (cases "v = 0")
    case True
    then show ?thesis using buf by (simp add: itoa_def dec_int_def dec_small)
  next
    case False
    define n where "n = nat \<bar>v\<bar>"
    have n: "n < 10 ^ 32" "0 < n" using v False by (auto simp: n_def)
    have neg: "swrap (- v) = - v" if "v < 0" using v that by (intro swrap_id) (simp add: is_int32_def)
    have loop: "itoa_loop 32 (int n) 10 [] = Inr (rev (dec n))" using itoa_loop_dec [OF n(1), of "[]"] n(2) by simp
    have dec: "dec_int v = (if v < 0 then ''-'' else []) @ dec n" by (auto simp: dec_int_def n_def)
    have "length (dec n) \<le> 10" using length_dec_le [of n 10] v by (auto simp: n_def)
    then show ?thesis
      using False buf loop neg dec snoc [of "dec_int v"] by (auto simp: itoa_def n_def split: if_splits)
  qed
qed

lemma undec_ge: "r \<le> undec r s"
proof (induction s arbitrary: r)
  case (Cons c s)
  have "r \<le> r * 10 + (of_char c - 48)" by simp
  also have "\<dots> \<le> undec (r * 10 + (of_char c - 48)) s" by (rule Cons)
  finally show ?case by (simp add: undec_def)
qed (simp add: undec_def)

lemma atoi_digits_undec:
  assumes "list_all is_digit s" and "undec r s < 2 ^ 31"
  shows "atoi_digits (int r) s = int (undec r s)"
  using assms
proof (induction s arbitrary: r)
  case (Cons c s)
  let ?r = "r * 10 + (of_char c - 48)"
  have d: "is_digit c" using Cons.prems by simp
  have u: "undec r (c # s) = undec ?r s" by (simp add: undec_def)
  have "?r < 2 ^ 31" using undec_ge [of ?r s] Cons.prems u by simp
  moreover have "schar c = int (of_char c)" "(48::nat) \<le> of_char c"
    using d of_nat_of_char [where ?'a = int, of c] unfolding schar_def Let_def is_digit_def by auto
  ultimately have "swrap (int r * 10 + (schar c - 48)) = int ?r"
    by (subst swrap_id) (auto simp: is_int32_def of_nat_diff)
  with Cons.IH [of ?r] Cons.prems d u show ?case by simp
qed (simp add: undec_def)

lemma digit_not_sign: "is_digit c \<Longrightarrow> c \<noteq> CHR '' '' \<and> c \<noteq> CHR ''-'' \<and> c \<noteq> CHR ''+''"
  by (auto simp: is_digit_def)

lemma atoi_dec_int:
  assumes "- (2 ^ 31) < v" and "v < 2 ^ 31"
  shows "atoi (dec_int v) = v"
proof -
  define n where "n = nat \<bar>v\<bar>"
  have n: "undec 0 (dec n) < 2 ^ 31" using assms by (simp add: undec_dec n_def)
  have a: "atoi_digits 0 (dec n) = int n"
    using atoi_digits_undec [OF dec_digits n] by (simp add: undec_dec)
  obtain c t where ct: "dec n = c # t" by (meson dec_nonempty neq_Nil_conv)
  then have c: "is_digit c" using dec_digits [of n] by simp
  have "swrap (- int n) = - int n" using assms by (intro swrap_id) (auto simp: is_int32_def n_def)
  then show ?thesis
    using a ct digit_not_sign [OF c] by (auto simp: atoi_def dec_int_def n_def split: if_splits)
qed

section \<open>The rendering of a format\<close>

fun radix :: "nat \<Rightarrow> nat \<Rightarrow> string" where
  "radix base n = (if n < base \<or> base < 2 then [digit_sym (int n)]
     else radix base (n div base) @ [digit_sym (int (n mod base))])"

declare radix.simps [simp del]

definition render_int :: "int \<Rightarrow> nat \<Rightarrow> bool \<Rightarrow> int \<Rightarrow> char \<Rightarrow> string" where
  "render_int val base unsign pad padch =
     (let text = (if \<not> unsign \<and> val < 0 then ''-'' @ radix base (nat (- val)) else radix base (nat (val mod 2 ^ 32)))
      in replicate (nat (pad - int (length text))) padch @ text)"

definition render_conv :: "char \<Rightarrow> int \<Rightarrow> char \<Rightarrow> fmt_arg list \<Rightarrow> (fmt_arg list \<times> string) option" where
  "render_conv padch pad c args =
     (if c = CHR ''d'' \<or> c = CHR ''i'' then
        (case args of ArgInt v # as \<Rightarrow> if is_int32 v then Some (as, render_int v 10 False pad padch) else None | _ \<Rightarrow> None)
      else if c = CHR ''u'' then
        (case args of ArgUint v # as \<Rightarrow> Some (as, render_int v 10 True pad padch) | _ \<Rightarrow> None)
      else if c = CHR ''x'' then
        (case args of ArgUint v # as \<Rightarrow> Some (as, render_int v 16 True pad padch) | _ \<Rightarrow> None)
      else if c = CHR ''c'' then
        (case args of ArgInt v # as \<Rightarrow> Some (as, [char_of (nat (v mod 256))]) | _ \<Rightarrow> None)
      else if c = CHR ''s'' then
        (case args of ArgStr s # as \<Rightarrow> Some (as, s) | _ \<Rightarrow> None)
      else if c = CHR ''%'' then Some (args, ''%'')
      else Some (args, []))"

text \<open>The whole text, without a size limit; \<open>None\<close> when the format or its arguments are wrong.\<close>

function render :: "string \<Rightarrow> fmt_arg list \<Rightarrow> string option" where
  "render [] args = Some []"
| "render (c # f) args =
     (if c \<noteq> CHR ''%'' then map_option (\<lambda>t. c # t) (render f args)
      else (case fmt_spec f of
              (padch, pad, []) \<Rightarrow> None
            | (padch, pad, d # f') \<Rightarrow>
                (case render_conv padch pad d args of
                   None \<Rightarrow> None
                 | Some (as, t) \<Rightarrow> map_option (\<lambda>t'. t @ t') (render f' as))))"
  by pat_completeness auto
termination
  by (relation "measure (\<lambda>(f, args). length f)") (auto dest!: length_fmt_spec [OF sym])

text \<open>The buffer after \<open>text\<close> has been sent to it: the text up to the size, and the position.\<close>

definition obs :: "char list \<Rightarrow> nat \<Rightarrow> string \<Rightarrow> obuf" where
  "obs buf sz text = (blit buf 0 (take (sz - 1) text), min (sz - 1) (length text))"

lemma blit_snoc: "blit xs i (ys @ [y]) = (blit xs i ys)[i + length ys := y]"
  by (induction xs i ys rule: blit.induct) simp_all

lemma obs_full: "sz - 1 \<le> length text \<Longrightarrow> obs buf sz (text @ s) = obs buf sz text"
  by (simp add: obs_def)

lemma put_if_obs:
  assumes "sz \<le> length buf"
  shows "put_if sz c (obs buf sz text) = Inr (obs buf sz (text @ [c]))"
proof (cases "length text + 1 < sz")
  case True
  then show ?thesis using assms by (simp add: put_if_def obs_def blit_snoc min_def)
next
  case False
  then show ?thesis by (simp add: put_if_def obs_def)
qed

lemma fmt_write_str_obs:
  assumes "sz \<le> length buf"
  shows "fmt_write_str sz s (obs buf sz text) = Inr (obs buf sz (text @ s))"
proof (induction s arbitrary: "text")
  case (Cons c s)
  show ?case
  proof (cases "length text + 1 < sz")
    case True
    with Cons [of "text @ [c]"] put_if_obs [OF assms, of c "text"] show ?thesis
      by (simp add: obs_def [of _ _ "text"])
  next
    case False
    then have "\<not> snd (obs buf sz text) + 1 < sz" by (auto simp: obs_def)
    then show ?thesis using obs_full [of sz "text" buf "c # s"] False by simp
  qed
qed simp

lemma fmt_digits_str: "fmt_digits sz cs b = fmt_write_str sz cs b"
proof (induction cs arbitrary: b)
  case (Cons c cs)
  then show ?case by (cases "put_if sz c b") simp_all
qed simp

lemma fmt_pad_str: "fmt_pad sz pad len padch b = fmt_write_str sz (replicate (nat (pad - len)) padch) b"
proof (induction sz pad len padch b rule: fmt_pad.induct)
  case (1 sz pad len padch b)
  show ?case
  proof (cases "pad > len")
    case True
    then have "nat (pad - len) = Suc (nat (pad - 1 - len))" by simp
    then show ?thesis using 1 True by (cases "put_if sz padch b") (simp_all add: fmt_pad.simps [of sz pad])
  qed (simp add: fmt_pad.simps)
qed

lemma uint_digits_radix:
  assumes "n < base ^ cap" and "2 \<le> base" and "0 < n"
  shows "uint_digits cap n base tmp = Inr (tmp @ rev (radix base n))"
  using assms
proof (induction cap arbitrary: n tmp)
  case (Suc cap)
  show ?case
  proof (cases "n < base")
    case True
    then show ?thesis using Suc.prems by (simp add: uint_digits.simps radix.simps [of base n] div_less split: nat.split)
  next
    case False
    then have "0 < n div base" using Suc.prems by (simp add: div_greater_zero_iff)
    moreover have "n div base < base ^ cap" using Suc.prems by (simp add: less_mult_imp_div_less mult.commute)
    ultimately have "uint_digits cap (n div base) base (tmp @ [digit_sym (int (n mod base))]) =
        Inr ((tmp @ [digit_sym (int (n mod base))]) @ rev (radix base (n div base)))"
      using Suc.IH Suc.prems by blast
    moreover have "uint_digits (Suc cap) n base tmp = uint_digits cap (n div base) base (tmp @ [digit_sym (int (n mod base))])"
      using Suc.prems by (subst uint_digits.simps) simp
    moreover have "radix base n = radix base (n div base) @ [digit_sym (int (n mod base))]"
      using False Suc.prems by (subst radix.simps) simp
    ultimately show ?thesis by simp
  qed
qed simp

lemma length_radix_le: "n < base ^ k \<Longrightarrow> 0 < k \<Longrightarrow> 2 \<le> base \<Longrightarrow> length (radix base n) \<le> k"
proof (induction k arbitrary: n)
  case (Suc k)
  show ?case
  proof (cases "n < base")
    case True
    then show ?thesis by (simp add: radix.simps)
  next
    case False
    with Suc.prems have "n div base < base ^ k" and "0 < k"
      by (auto simp: less_mult_imp_div_less mult.commute intro: Nat.gr0I)
    with Suc have "length (radix base (n div base)) \<le> k" by blast
    with False Suc.prems show ?thesis by (subst radix.simps) simp
  qed
qed simp

lemma fmt_write_int_obs:
  assumes sz: "sz \<le> length buf" and base: "10 \<le> base" and v: "unsign \<or> is_int32 val"
  shows "fmt_write_int sz val base unsign pad padch (obs buf sz t) = Inr (obs buf sz (t @ render_int val base unsign pad padch))"
proof -
  define neg where "neg \<longleftrightarrow> \<not> unsign \<and> val < 0"
  define n where "n = (if neg then nat (- val) else nat (val mod 2 ^ 32))"
  have n32: "n < 2 ^ 32" using v by (auto simp: n_def neg_def is_int32_def)
  have "n < 10 ^ 10" using n32 by simp
  also have "(10 :: nat) ^ 10 \<le> base ^ 10" using base by (rule power_mono) simp
  finally have small: "n < base ^ 10" .
  then have len: "length (radix base n) \<le> 10" using length_radix_le [of n base 10] base by simp
  have "base ^ 10 \<le> base ^ 32" using base by (intro power_increasing) auto
  then have big: "n < base ^ 32" using small by simp
  have uval: "nat ((if neg then swrap (- val) else val) mod 2 ^ 32) = n"
  proof (cases neg)
    case True
    then have "swrap (- val) mod 2 ^ 32 = - val"
      using v by (auto simp: neg_def is_int32_def swrap_def mod_diff_left_eq)
    with True show ?thesis by (simp add: n_def)
  qed (simp add: n_def)
  have zero: "radix base 0 = ''0''" using base by (simp add: radix.simps digit_sym_def char_of_def bit_0)
  have pos: "uint_digits 32 n base [] = Inr (rev (radix base n))" if "n \<noteq> 0"
    using uint_digits_radix [OF big, of "[]"] base that by simp
  have body: "fmt_write_int sz val base unsign pad padch (obs buf sz t) =
      bind_result (fmt_pad sz pad (int (length ((if neg then ''-'' else []) @ radix base n))) padch (obs buf sz t))
        (\<lambda>b. fmt_digits sz ((if neg then ''-'' else []) @ radix base n) b)"
  proof (cases neg)
    case True
    then have u: "nat (swrap (- val) mod 4294967296) = n" using uval by simp
    show ?thesis
      using True len unfolding fmt_write_int_def neg_def [symmetric]
      by (cases "n = 0") (simp_all add: u zero pos Let_def del: fmt_digits.simps nat_0_iff)
  next
    case False
    then have u: "nat (val mod 4294967296) = n" using uval by simp
    show ?thesis
      using False unfolding fmt_write_int_def neg_def [symmetric]
      by (cases "n = 0") (simp_all add: u zero pos Let_def del: fmt_digits.simps nat_0_iff)
  qed
  have "render_int val base unsign pad padch =
      replicate (nat (pad - int (length ((if neg then ''-'' else []) @ radix base n)))) padch @
      (if neg then ''-'' else []) @ radix base n"
    unfolding render_int_def neg_def [symmetric] Let_def by (simp add: n_def)
  then show ?thesis
    unfolding body fmt_pad_str fmt_digits_str fmt_write_str_obs [OF sz] bind_result_simps by simp
qed

lemma fmt_conv_obs:
  assumes "sz \<le> length buf" and "render_conv padch pad c args = Some (as, t)"
  shows "fmt_conv sz padch pad c args (obs buf sz r) = Inr (as, obs buf sz (r @ t))"
  using assms
  by (auto simp: fmt_conv_def render_conv_def fmt_write_int_obs put_if_obs fmt_write_str_obs
      split: if_splits list.splits fmt_arg.splits)

lemma fmt_loop_obs:
  assumes sz: "sz \<le> length buf" and ren: "render f args = Some t"
  shows "fmt_loop sz f args (obs buf sz r) = Inr (obs buf sz (r @ t))"
  using ren
proof (induction f args arbitrary: t r rule: render.induct)
  case (2 c f args)
  show ?case
  proof (cases "length r + 1 < sz")
    case False
    then have "\<not> snd (obs buf sz r) + 1 < sz" by (auto simp: obs_def)
    then show ?thesis using obs_full [of sz r buf t] False by simp
  next
    case room: True
    then have pos: "snd (obs buf sz r) + 1 < sz" by (simp add: obs_def)
    show ?thesis
    proof (cases "c = CHR ''%''")
      case False
      then obtain t' where t': "render f args = Some t'" "t = c # t'" using 2(3) by auto
      from 2(1) [OF False t'(1), of "r @ [c]"] show ?thesis
        using False pos t'(2) by (simp add: put_if_obs [OF sz])
    next
      case True
      obtain padch pad g where g: "fmt_spec f = (padch, pad, g)" by (cases "fmt_spec f") auto
      with 2(3) True obtain d f' where d: "g = d # f'" by (cases g) auto
      then obtain as u t' where c: "render_conv padch pad d args = Some (as, u)" and t': "render f' as = Some t'" "t = u @ t'"
        using 2(3) True g by (auto split: option.splits)
      have "fmt_loop sz f' as (obs buf sz (r @ u)) = Inr (obs buf sz ((r @ u) @ t'))"
        by (rule 2(2)) (use True g d c t' in auto)
      then show ?thesis using True pos g d t'(2) fmt_conv_obs [OF sz c, of r] by simp
    qed
  qed
qed simp

lemma vsnprintf_text:
  assumes "0 < sz" and "sz \<le> length buf" and "render fmt args = Some t"
  shows "vsnprintf buf sz fmt args =
    Inr (min (sz - 1) (length t), blit buf 0 (take (sz - 1) t @ [NUL]))"
proof -
  have start: "(buf, 0) = obs buf sz []" by (simp add: obs_def)
  have "fmt_loop sz fmt args (buf, 0) = Inr (obs buf sz t)"
    unfolding start using fmt_loop_obs [OF assms(2,3), of "[]"] by simp
  moreover have "min (sz - 1) (length t) < length buf" using assms by auto
  ultimately show ?thesis using assms(1,2) by (auto simp: vsnprintf_def obs_def blit_snoc min.commute)
qed

lemma drop_overwrite: "length w \<le> k \<Longrightarrow> drop k (w @ drop (length w) xs) = drop k xs"
  by simp

section \<open>Properties\<close>

text \<open>
  C11. \<^verbatim>\<open>vsnprintf\<close> into a buffer of at least the given non-zero size never leaves the buffer: it
  stores the rendering of the format, cut to \<^verbatim>\<open>size - 1\<close> characters, with a terminator behind it,
  returns the number of characters stored, and leaves every element from index \<^verbatim>\<open>size\<close> on alone.
\<close>

theorem vsnprintf_bounded:
  assumes "0 < sz" and "sz \<le> length buf" and "render fmt args = Some t"
  shows "\<exists>buf'. vsnprintf buf sz fmt args = Inr (min (sz - 1) (length t), buf') \<and>
    take (min (sz - 1) (length t)) buf' = take (sz - 1) t \<and> buf' ! min (sz - 1) (length t) = NUL \<and>
    drop sz buf' = drop sz buf"
proof -
  let ?w = "take (sz - 1) t @ [NUL]"
  have len: "length ?w \<le> sz" using assms(1) by auto
  then have b: "blit buf 0 ?w = ?w @ drop (length ?w) buf" by (intro blit_0) (use assms(2) in simp)
  have "drop sz (blit buf 0 ?w) = drop sz buf" unfolding b by (rule drop_overwrite [OF len])
  moreover have "take (min (sz - 1) (length t)) (blit buf 0 ?w) = take (sz - 1) t" unfolding b by (simp add: min_def)
  moreover have "blit buf 0 ?w ! min (sz - 1) (length t) = NUL" unfolding b by (simp add: nth_append min_def)
  ultimately show ?thesis using vsnprintf_text [OF assms] by blast
qed

theorem vsnprintf_bounded_witness:
  "\<exists>buf'. vsnprintf (replicate 10 (CHR ''#'')) 5 ''%d-%s'' [ArgInt (- 7), ArgStr ''abc''] = Inr (4, buf') \<and>
    take 4 buf' = ''-7-a'' \<and> buf' ! 4 = NUL \<and> drop 5 buf' = replicate 5 (CHR ''#'')"
proof -
  have "render ''%d-%s'' [ArgInt (- 7), ArgStr ''abc''] = Some ''-7-abc''"
    by (simp add: fmt_spec_def is_digit_def render_conv_def is_int32_def render_int_def radix.simps digit_sym_def
        char_of_def bit_0)
  from vsnprintf_bounded [OF _ _ this, of 5 "replicate 10 (CHR ''#'')"] show ?thesis by (simp add: eval_nat_numeral)
qed

text \<open>
  C12. \<^verbatim>\<open>atoi\<close> undoes \<^verbatim>\<open>itoa\<close> in base 10 for every \<^verbatim>\<open>int\<close> but the most negative one: with a buffer
  that holds the numeral and its terminator, \<^verbatim>\<open>itoa\<close> stays inside its own and the caller's buffer,
  and the string it leaves reads back as the number.
\<close>

theorem itoa_atoi_roundtrip:
  assumes "- (2 ^ 31) < v" and "v < 2 ^ 31" and "12 \<le> length buf"
  shows "\<exists>buf'. itoa v buf 10 = Inr buf' \<and> cstr buf' = dec_int v \<and> atoi (cstr buf') = v"
proof -
  have len: "length (dec_int v) < length buf" using length_dec_int32 [OF assms(1,2)] assms(3) by simp
  have "nul_free (dec n)" for n using dec_digits [of n] by (auto simp: nul_free_def list_all_iff is_digit_def NUL_def)
  then have free: "nul_free (dec_int v)" by (simp add: dec_int_def NUL_def)
  have "blit buf 0 (dec_int v @ [NUL]) = dec_int v @ NUL # drop (Suc (length (dec_int v))) buf"
    using blit_0 [of "dec_int v @ [NUL]" buf] len by simp
  then have "cstr (blit buf 0 (dec_int v @ [NUL])) = dec_int v" using cstr_append_NUL [OF free] by simp
  with itoa_text [OF assms(1,2) len] atoi_dec_int [OF assms(1,2)] show ?thesis by auto
qed

theorem itoa_atoi_roundtrip_witness:
  "\<exists>buf'. itoa (- 305) (replicate 12 NUL) 10 = Inr buf' \<and> atoi (cstr buf') = - 305"
  using itoa_atoi_roundtrip [of "- 305" "replicate 12 NUL"] by auto

text \<open>
  \<^verbatim>\<open>strcat\<close> of two terminated strings leaves their concatenation when it fits with its
  terminator, and steps outside the destination exactly when it does not; elements behind the
  new terminator keep their values.
\<close>

theorem strcat_correct:
  assumes "nul_free s" and "nul_free t"
  shows "strcat (s @ NUL # r) (t @ NUL # q) =
    (if length t \<le> length r then Inr (s @ t @ NUL # drop (length t) r) else Inl OutOfBounds)"
proof -
  have len: "strlen (s @ NUL # r) = Inr (length s)" using assms by simp
  have "blit (s @ NUL # r) (length s) (t @ [NUL]) = s @ t @ NUL # drop (length t) r" if "length t \<le> length r"
    using that by (subst blit_append) auto
  then show ?thesis
    unfolding strcat_def len bind_result_simps strcpy_from_terminated [OF assms(2)] by auto
qed

theorem strcat_correct_witness:
  "strcat (''ab'' @ NUL # ''xxxx'') (''cd'' @ [NUL]) = Inr (''abcd'' @ NUL # ''xx'')"
  using strcat_correct [of "''ab''" "''cd''" "''xxxx''" "[]"] by (simp add: NUL_def)

text \<open>
  \<^verbatim>\<open>strstr\<close> returns the first position at which the needle occurs, and NULL only when it occurs
  at none (a non-empty needle, both strings terminated).
\<close>

theorem strstr_correct:
  assumes "nul_free h" and "nul_free n" and "n \<noteq> []"
  shows "\<exists>p. strstr (h @ NUL # r) (n @ NUL # q) = Inr p \<and>
    (case p of
       Some k \<Rightarrow> take (length n) (drop k h) = n \<and> (\<forall>j<k. take (length n) (drop j h) \<noteq> n)
     | None \<Rightarrow> (\<forall>j<length h. take (length n) (drop j h) \<noteq> n))"
proof -
  have "strstr (h @ NUL # r) (n @ NUL # q) = Inr (first_at h n 0)"
    using assms strstr_from_terminated [OF assms(1,2), of r q 0] by (cases n) (auto simp: strstr_def)
  moreover have "\<forall>j<length h. take (length n) (drop j h) \<noteq> n" if "first_at h n i = None" for i
    using that
  proof (induction h arbitrary: i)
    case (Cons c h)
    then have "take (length n) (c # h) \<noteq> n" "\<forall>j<length h. take (length n) (drop j h) \<noteq> n"
      by (auto split: if_splits)
    then show ?case by (auto simp: less_Suc_eq_0_disj)
  qed simp
  ultimately show ?thesis using first_at_sound [of h n 0] by (cases "first_at h n 0") auto
qed

theorem strstr_correct_witness:
  "\<exists>p. strstr (''xabab'' @ [NUL]) (''ab'' @ [NUL]) = Inr p \<and>
    (case p of Some k \<Rightarrow> take (length ''ab'') (drop k ''xabab'') = ''ab'' \<and> (\<forall>j<k. take (length ''ab'') (drop j ''xabab'') \<noteq> ''ab'')
     | None \<Rightarrow> (\<forall>j<length ''xabab''. take (length ''ab'') (drop j ''xabab'') \<noteq> ''ab''))"
  using strstr_correct [of "''xabab''" "''ab''" "[]" "[]"] by (simp add: NUL_def)

text \<open>
  With a size of zero \<^verbatim>\<open>vsnprintf\<close> still stores a terminator: the first element of a non-empty
  buffer is overwritten, and for an empty buffer the store is out of bounds.
\<close>

theorem vsnprintf_size_zero:
  "vsnprintf buf 0 fmt args = (if buf = [] then Inl OutOfBounds else Inr (0, buf[0 := NUL]))"
  by (cases fmt) (simp_all add: vsnprintf_def)

end
