(* ===== verification/Screen.thy ===== *)
theory Screen
  imports Terminal Ata Libc
begin

text \<open>
  The text screen of \<^verbatim>\<open>src/screen.c\<close> and the VGA text cursor of \<^verbatim>\<open>src/cursor.c\<close>. Output goes to
  the framebuffer, or to the terminal buffer when \<^verbatim>\<open>terminal_output_mode\<close> is set. Shown here: the
  cursor never leaves the screen and no character faults, in either mode, and scrolling moves the
  picture up by one text row and clears the last.
\<close>

section \<open>cursor.c\<close>

definition update_cursor :: "'d bus \<Rightarrow> int \<Rightarrow> int \<Rightarrow> ('d, 'a) machine_scheme \<Rightarrow> ('d, 'a) machine_scheme" where
  "update_cursor bus row col st =
     (let position = (of_int (row * 80 + col) :: u16);
          st = outb bus 0x3D4 0x0E st;
          st = outb bus 0x3D5 (ucast (drop_bit 8 position)) st;
          st = outb bus 0x3D4 0x0F st
      in outb bus 0x3D5 (ucast position) st)"

definition enable_cursor :: "'d bus \<Rightarrow> ('d, 'a) machine_scheme \<Rightarrow> ('d, 'a) machine_scheme" where
  "enable_cursor bus st =
     (let st = outb bus 0x3D4 0x0A st;
          (v, st) = inb bus 0x3D5 st;
          st = outb bus 0x3D5 ((v AND 0xC0) OR 0x0E) st;
          st = outb bus 0x3D4 0x0B st;
          (v, st) = inb bus 0x3D5 st
      in outb bus 0x3D5 ((v AND 0xE0) OR 0x0F) st)"

definition disable_cursor :: "'d bus \<Rightarrow> ('d, 'a) machine_scheme \<Rightarrow> ('d, 'a) machine_scheme" where
  "disable_cursor bus st = outb bus 0x3D5 0x20 (outb bus 0x3D4 0x0A st)"

section \<open>screen.c\<close>

definition COLOR_FG :: u32 where "COLOR_FG = 0x00FFFFFF"
definition COLOR_BG :: u32 where "COLOR_BG = 0x00001133"

record 'd screen = "'d machine" +
  scr_gfx :: gfx
  scr_font :: font
  scr_term :: termbuf
  cur_col :: int
  cur_row :: int
  terminal_output_mode :: int

definition screen_set_terminal_output :: "int \<Rightarrow> ('d, 'a) screen_scheme \<Rightarrow> ('d, 'a) screen_scheme" where
  "screen_set_terminal_output enabled st = st\<lparr>terminal_output_mode := enabled\<rparr>"

definition cell_x :: "int \<Rightarrow> int" where "cell_x col = swrap (col * font_char_width)"

definition cell_y :: "font \<Rightarrow> int \<Rightarrow> int" where "cell_y fn row = swrap (row * font_char_height fn)"

definition clear_screen :: "('d, 'a) screen_scheme \<Rightarrow> ('d, 'a) screen_scheme" where
  "clear_screen st = st\<lparr>scr_gfx := fill_screen COLOR_BG (scr_gfx st), cur_col := 0, cur_row := 0\<rparr>"

text \<open>The copy loop of \<^verbatim>\<open>scroll_up\<close>, which uses the width as the distance between rows.\<close>

definition scroll_copy :: "nat \<Rightarrow> nat \<Rightarrow> (nat \<Rightarrow> u32) \<Rightarrow> (nat \<Rightarrow> u32)" where
  "scroll_copy count d p = fold (\<lambda>i p. p(i := p ((i + d) mod 2 ^ 32))) [0..<count] p"

definition scroll_up :: "font \<Rightarrow> gfx \<Rightarrow> gfx" where
  "scroll_up fn g =
     (let ch = font_char_height fn;
          w = fb_width g;
          h = fb_height g;
          copy_count = w * u32_of_int (int h - ch) mod 2 ^ 32;
          g = g\<lparr>fb := scroll_copy copy_count (w * u32_of_int ch mod 2 ^ 32) (fb g)\<rparr>
      in fill_rect 0 (swrap (int h - ch)) (swrap (int w)) ch COLOR_BG g)"

definition put_char :: "'d bus \<Rightarrow> char \<Rightarrow> ('d, 'a) screen_scheme \<Rightarrow> ('d, 'a) screen_scheme result" where
  "put_char bus c st =
     (if tt (terminal_output_mode st)
      then bind_result (term_io_putchar c (scr_term st)) (\<lambda>t. Inr (st\<lparr>scr_term := t\<rparr>))
      else let cw = font_char_width; ch = font_char_height (scr_font st);
               screen_w = swrap (int (fb_width (scr_gfx st)));
               screen_h = swrap (int (fb_height (scr_gfx st)));
               st = (if c = NL then st\<lparr>cur_col := 0, cur_row := cur_row st + 1\<rparr>
                     else if c = BS then
                       (if cur_col st > 0
                        then let st = st\<lparr>cur_col := cur_col st - 1\<rparr> in
                          st\<lparr>scr_gfx := fill_rect (cell_x (cur_col st)) (cell_y (scr_font st) (cur_row st)) cw ch COLOR_BG (scr_gfx st)\<rparr>
                        else st)
                     else
                       let st = st\<lparr>scr_gfx := font_draw_char (scr_font st) (cell_x (cur_col st))
                                    (cell_y (scr_font st) (cur_row st)) c COLOR_FG COLOR_BG (scr_gfx st),
                                   cur_col := cur_col st + 1\<rparr>
                       in if cur_col st * cw \<ge> screen_w then st\<lparr>cur_col := 0, cur_row := cur_row st + 1\<rparr> else st);
               st = (if cur_row st * ch \<ge> screen_h
                     then st\<lparr>scr_gfx := scroll_up (scr_font st) (scr_gfx st), cur_row := cur_row st - 1\<rparr> else st)
           in Inr (update_cursor bus (cur_row st) (cur_col st) st))"

text \<open>
  \<^verbatim>\<open>print\<close> has a loop of its own for terminal mode, which does what \<^verbatim>\<open>put_char\<close> does there.
\<close>

fun put_all :: "'d bus \<Rightarrow> string \<Rightarrow> ('d, 'a) screen_scheme \<Rightarrow> ('d, 'a) screen_scheme result" where
  "put_all bus [] st = Inr st"
| "put_all bus (c # str) st = bind_result (put_char bus c st) (\<lambda>st. put_all bus str st)"

definition print :: "'d bus \<Rightarrow> string \<Rightarrow> ('d, 'a) screen_scheme \<Rightarrow> ('d, 'a) screen_scheme result" where
  "print bus str st =
     (if tt (terminal_output_mode st)
      then bind_result (term_put_all str (scr_term st)) (\<lambda>t. Inr (st\<lparr>scr_term := t\<rparr>))
      else put_all bus str st)"

definition screen_put_char_at :: "int \<Rightarrow> int \<Rightarrow> char \<Rightarrow> char \<Rightarrow> ('d, 'a) screen_scheme \<Rightarrow> ('d, 'a) screen_scheme" where
  "screen_put_char_at row col c color st =
     st\<lparr>scr_gfx := font_draw_char (scr_font st) (cell_x col) (cell_y (scr_font st) row) c COLOR_FG COLOR_BG (scr_gfx st)\<rparr>"

definition screen_get_char_at :: "int \<Rightarrow> int \<Rightarrow> char" where
  "screen_get_char_at row col = CHR '' ''"

definition get_cursor_position :: "('d, 'a) screen_scheme \<Rightarrow> int \<times> int" where
  "get_cursor_position st = (cur_row st, cur_col st)"

text \<open>\<^verbatim>\<open>print_fmt\<close> formats into a local \<^verbatim>\<open>char buf[512]\<close>.\<close>

definition print_fmt :: "'d bus \<Rightarrow> string \<Rightarrow> fmt_arg list \<Rightarrow> ('d, 'a) screen_scheme \<Rightarrow> ('d, 'a) screen_scheme result" where
  "print_fmt bus fmt args st =
     bind_result (vsnprintf (replicate 512 NUL) 512 fmt args) (\<lambda>(n, buf). print bus (cstr buf) st)"

section \<open>The invariant\<close>

definition screen_ok :: "('d, 'a) screen_scheme \<Rightarrow> bool" where
  "screen_ok st \<longleftrightarrow> gfx_ok (scr_gfx st) \<and> 8 \<le> fb_width (scr_gfx st) \<and>
     0 < char_h (scr_font st) \<and> char_h (scr_font st) \<le> int (fb_height (scr_gfx st)) \<and>
     0 \<le> cur_col st \<and> cur_col st * 8 < int (fb_width (scr_gfx st)) \<and>
     0 \<le> cur_row st \<and> cur_row st * char_h (scr_font st) < int (fb_height (scr_gfx st)) \<and>
     (term_active (scr_term st) = 0 \<or> term_good (scr_term st))"

lemma dims_int32:
  assumes "gfx_ok g" and "0 < fb_width g" and "0 < fb_height g"
  shows "swrap (int (fb_width g)) = int (fb_width g)" "swrap (int (fb_height g)) = int (fb_height g)"
    "fb_width g < 2 ^ 31" "fb_height g < 2 ^ 31"
proof -
  have ok: "fb_width g \<le> fb_pitch_px g" "fb_height g * fb_pitch_px g < 2 ^ 31" using assms(1) by (auto simp: gfx_ok_def)
  have "fb_pitch_px g \<le> fb_height g * fb_pitch_px g" "fb_height g \<le> fb_height g * fb_pitch_px g"
    using assms ok(1) by auto
  with ok show "fb_width g < 2 ^ 31" "fb_height g < 2 ^ 31" by linarith+
  then show "swrap (int (fb_width g)) = int (fb_width g)" "swrap (int (fb_height g)) = int (fb_height g)"
    by (auto intro!: swrap_id simp: is_int32_def)
qed

lemma gfx_ok_fb: "gfx_ok (g\<lparr>fb := p\<rparr>) = gfx_ok g"
  by (simp add: gfx_ok_def)

lemma screen_ok_fb: "screen_ok s \<Longrightarrow> screen_ok (s\<lparr>scr_gfx := (scr_gfx s)\<lparr>fb := p\<rparr>\<rparr>)"
  by (simp add: screen_ok_def gfx_ok_fb)

lemma fill_rect_dims:
  assumes "gfx_ok g"
  shows "gfx_ok (fill_rect x y w h c g)" "fb_width (fill_rect x y w h c g) = fb_width g"
    "fb_height (fill_rect x y w h c g) = fb_height g" "fb_pitch_px (fill_rect x y w h c g) = fb_pitch_px g"
  using rect.paint_clipped [OF assms, of "(x, y, w, h, c)"] gfx_ok_clipped [OF assms] clipped_dims by auto

lemma draw_char_dims:
  assumes "gfx_ok g"
  shows "gfx_ok (font_draw_char fn x y c fg bg g)" "fb_width (font_draw_char fn x y c fg bg g) = fb_width g"
    "fb_height (font_draw_char fn x y c fg bg g) = fb_height g"
  using glyph.paint_clipped [OF assms, of "(fn, x, y, c, fg, bg)"] gfx_ok_clipped [OF assms] clipped_dims by auto

lemma scroll_up_dims:
  assumes "gfx_ok g"
  shows "gfx_ok (scroll_up fn g)" "fb_width (scroll_up fn g) = fb_width g" "fb_height (scroll_up fn g) = fb_height g"
  using assms by (simp_all add: scroll_up_def Let_def gfx_ok_fb fill_rect_dims)

lemma update_cursor_keeps: "\<exists>d. update_cursor bus row col st = st\<lparr>dev := d\<rparr>"
  by (auto simp: update_cursor_def outb_def Let_def)

lemma screen_ok_dev: "screen_ok (st\<lparr>dev := d\<rparr>) = screen_ok st"
  by (simp add: screen_ok_def)

lemma next_text_row:
  fixes r ch h :: int
  assumes "0 \<le> r" and "r * ch < h" and "0 < ch" and "ch \<le> h"
  shows "\<not> (r + 1) * ch < h \<Longrightarrow> r * ch < h" and "0 \<le> r + 1"
  using assms by auto

lemma term_putchar_ok:
  assumes "term_active t = 0 \<or> term_good t"
  shows "\<exists>t'. term_io_putchar c t = Inr t' \<and> (term_active t' = 0 \<or> term_good t')"
  using assms term_sink.putc_ok [of t c] by (auto simp: term_io_putchar_def)

lemma put_char_ok:
  assumes ok: "screen_ok st"
  shows "\<exists>st'. put_char bus c st = Inr st' \<and> screen_ok st'"
proof (cases "tt (terminal_output_mode st)")
  case True
  obtain t' where t': "term_io_putchar c (scr_term st) = Inr t'" "term_active t' = 0 \<or> term_good t'"
    using term_putchar_ok [of "scr_term st" c] ok by (auto simp: screen_ok_def)
  then show ?thesis using True ok by (simp add: put_char_def screen_ok_def)
next
  case False
  let ?g = "scr_gfx st" and ?ch = "char_h (scr_font st)"
  have g: "gfx_ok ?g" "8 \<le> fb_width ?g" "0 < ?ch" "?ch \<le> int (fb_height ?g)" using ok by (auto simp: screen_ok_def)
  have dims: "swrap (int (fb_width ?g)) = int (fb_width ?g)" "swrap (int (fb_height ?g)) = int (fb_height ?g)"
    using dims_int32 [OF g(1)] g by auto
  define st1 where "st1 =
    (if c = NL then st\<lparr>cur_col := 0, cur_row := cur_row st + 1\<rparr>
     else if c = BS then
       (if cur_col st > 0
        then let st = st\<lparr>cur_col := cur_col st - 1\<rparr> in
          st\<lparr>scr_gfx := fill_rect (cell_x (cur_col st)) (cell_y (scr_font st) (cur_row st)) 8 ?ch COLOR_BG (scr_gfx st)\<rparr>
        else st)
     else
       let st = st\<lparr>scr_gfx := font_draw_char (scr_font st) (cell_x (cur_col st))
                    (cell_y (scr_font st) (cur_row st)) c COLOR_FG COLOR_BG (scr_gfx st),
                   cur_col := cur_col st + 1\<rparr>
       in if cur_col st * 8 \<ge> int (fb_width ?g) then st\<lparr>cur_col := 0, cur_row := cur_row st + 1\<rparr> else st)"
  have st1: "gfx_ok (scr_gfx st1) \<and> fb_width (scr_gfx st1) = fb_width ?g \<and> fb_height (scr_gfx st1) = fb_height ?g \<and>
      scr_font st1 = scr_font st \<and> scr_term st1 = scr_term st \<and> 0 \<le> cur_col st1 \<and> cur_col st1 * 8 < int (fb_width ?g) \<and>
      0 \<le> cur_row st1 \<and> (cur_row st1 = cur_row st \<or> cur_row st1 = cur_row st + 1)"
    using ok g by (auto simp: st1_def screen_ok_def fill_rect_dims draw_char_dims Let_def)
  define st2 where "st2 = (if cur_row st1 * ?ch \<ge> int (fb_height ?g)
    then st1\<lparr>scr_gfx := scroll_up (scr_font st) (scr_gfx st1), cur_row := cur_row st1 - 1\<rparr> else st1)"
  have "screen_ok st2"
    using st1 ok g by (auto simp: st2_def screen_ok_def scroll_up_dims)
  moreover have "put_char bus c st = Inr (update_cursor bus (cur_row st2) (cur_col st2) st2)"
    using False st1 unfolding put_char_def Let_def font_char_width_def font_char_height_def dims
    by (simp add: st2_def st1_def Let_def)
  ultimately show ?thesis using update_cursor_keeps [of bus "cur_row st2" "cur_col st2" st2] screen_ok_dev by metis
qed

interpretation screen_sink: char_sink screen_ok "put_char bus" "put_all bus" for bus
  by unfold_locales (use put_char_ok in auto)

text \<open>In terminal mode the loop of \<^verbatim>\<open>print\<close> is the one of \<^verbatim>\<open>put_char\<close>.\<close>

lemma print_put_all: "print bus str st = put_all bus str st"
proof (cases "tt (terminal_output_mode st)")
  case True
  have "bind_result (term_put_all str t) (\<lambda>t. Inr (st\<lparr>scr_term := t\<rparr>)) = put_all bus str (st\<lparr>scr_term := t\<rparr>)" for t
  proof (induction str arbitrary: t)
    case (Cons c str)
    show ?case using True Cons by (cases "term_io_putchar c t") (simp_all add: put_char_def)
  qed simp
  from this [of "scr_term st"] True show ?thesis by (simp add: print_def)
qed (simp add: print_def)

section \<open>Scrolling\<close>

lemma scroll_copy_forward:
  assumes "count + d \<le> 2 ^ 32"
  shows "scroll_copy count d p i = (if i < count then p (i + d) else p i)"
  using assms
proof (induction count arbitrary: i)
  case (Suc n)
  then have IH: "scroll_copy n d p j = (if j < n then p (j + d) else p j)" for j by simp
  have m: "(n + d) mod 2 ^ 32 = n + d" using Suc.prems by (intro mod_less) simp
  have "scroll_copy (Suc n) d p = (scroll_copy n d p)(n := scroll_copy n d p ((n + d) mod 2 ^ 32))"
    by (simp add: scroll_copy_def)
  then show ?case unfolding m by (auto simp: IH)
qed (simp add: scroll_copy_def)

section \<open>Properties\<close>

lemma clear_screen_ok: "screen_ok scr \<Longrightarrow> screen_ok (clear_screen scr)"
proof -
  assume s: "screen_ok scr"
  have g: "gfx_ok (scr_gfx scr)" using s by (simp add: screen_ok_def)
  show ?thesis using s fill_rect_dims [OF g] by (auto simp: clear_screen_def fill_screen_def screen_ok_def)
qed

text \<open>What a program keeps beside the screen is untouched by its output.\<close>

lemma put_char_more: "put_char bus c st = Inr st' \<Longrightarrow> screen.more st' = screen.more st"
proof -
  have u: "screen.more (update_cursor bus row col s) = screen.more s" for row col and s :: "('a, 'b) screen_scheme"
    using update_cursor_keeps [of bus row col s] by auto
  show "put_char bus c st = Inr st' \<Longrightarrow> screen.more st' = screen.more st"
    by (auto simp: put_char_def Let_def u bind_result_Inr_iff split: if_splits)
qed

lemma print_more:
  assumes "screen_ok st"
  shows "\<exists>st'. print bus str st = Inr st' \<and> screen_ok st' \<and> screen.more st' = screen.more st"
proof -
  have "put_all bus str s = Inr s' \<Longrightarrow> screen.more s' = screen.more s" for s s'
    by (induction str arbitrary: s) (auto simp: bind_result_Inr_iff dest: put_char_more)
  then show ?thesis using screen_sink.puts_ok [OF assms, of bus str] unfolding print_put_all by blast
qed

text \<open>
  C14. Printing a string of any length on a screen in a well-formed state succeeds in both output
  modes, and leaves the cursor on the screen: line breaks, wrapping at the right edge, backspaces
  and scrolling at the bottom included.
\<close>

theorem print_never_faults:
  assumes "screen_ok st"
  shows "\<exists>st'. print bus str st = Inr st' \<and> screen_ok st'"
  using screen_sink.puts_ok [OF assms] by (simp add: print_put_all)

definition boot_font :: font where "boot_font = \<lparr>glyphs = \<lambda>_. 0xAA, char_h = 16\<rparr>"

definition idle_bus :: "unit bus" where
  "idle_bus = \<lparr>bus_inb = \<lambda>_ d. (0, d), bus_outb = \<lambda>_ _ d. d, bus_inw = \<lambda>_ d. (0, d), bus_outw = \<lambda>_ _ d. d\<rparr>"

definition boot_screen :: "unit screen" where
  "boot_screen = \<lparr>out = [], dev = (), scr_gfx = boot_gfx, scr_font = boot_font,
     scr_term = \<lparr>term_output = [], term_cursor_row = 0, term_cursor_col = 0, term_active = 0, needs_redraw = 0\<rparr>,
     cur_col = 127, cur_row = 47, terminal_output_mode = 0\<rparr>"

theorem print_never_faults_witness:
  "\<exists>st'. print idle_bus ''last line'' boot_screen = Inr st' \<and> screen_ok st'"
  by (rule print_never_faults) (simp add: boot_screen_def boot_font_def screen_ok_def boot_gfx_ok)

text \<open>
  Scrolling moves the picture up by exactly one text row and clears the freed row at the bottom,
  for every font height up to the screen height, on a framebuffer whose pitch equals its width (the
  copy loop uses the width as the distance of two rows).
\<close>

theorem scroll_up_correct:
  assumes ok: "gfx_ok g" and pitch: "fb_pitch_px g = fb_width g"
    and ch: "0 < char_h fn" "char_h fn \<le> int (fb_height g)" and p: "x < fb_width g" "y < fb_height g"
  shows "pixel (scroll_up fn g) x y =
    (if int y + char_h fn < int (fb_height g) then pixel g x (y + nat (char_h fn)) else COLOR_BG)"
proof -
  let ?w = "fb_width g" and ?h = "fb_height g" and ?c = "nat (char_h fn)"
  have small: "?h * ?w < 2 ^ 31" and dims: "?w < 2 ^ 31" "?h < 2 ^ 31"
    using dims_int32 [OF ok] p ok pitch by (auto simp: gfx_ok_def)
  have le: "?c \<le> ?h" using ch by simp
  have c: "u32_of_int (char_h fn) = ?c" "u32_of_int (int ?h - char_h fn) = ?h - ?c"
    using ch dims by (auto simp: u32_of_int_small)
  have prod: "?w * ?c \<le> ?h * ?w" "?w * (?h - ?c) \<le> ?h * ?w" "?w * (?h - ?c) + ?w * ?c = ?h * ?w"
    using le by (auto simp: diff_mult_distrib2 mult.commute)
  have m: "?w * ?c mod 2 ^ 32 = ?w * ?c" "?w * (?h - ?c) mod 2 ^ 32 = ?w * (?h - ?c)"
    using prod small by (intro mod_less; simp)+
  define g1 where "g1 = g\<lparr>fb := scroll_copy (?w * (?h - ?c)) (?w * ?c) (fb g)\<rparr>"
  have g1: "gfx_ok g1" "fb_width g1 = ?w" "fb_height g1 = ?h" "fb_pitch_px g1 = ?w"
    using ok pitch by (simp_all add: g1_def gfx_ok_fb)
  have sw: "swrap (int ?w) = int ?w" "swrap (int ?h - char_h fn) = int ?h - char_h fn"
    using dims ch by (auto intro!: swrap_id simp: is_int32_def)
  have "scroll_up fn g = fill_rect 0 (int ?h - char_h fn) (int ?w) (char_h fn) COLOR_BG g1"
    unfolding scroll_up_def Let_def font_char_height_def c m sw g1_def ..
  then have "pixel (scroll_up fn g) x y =
      (if int ?h - char_h fn \<le> int y then COLOR_BG else pixel g1 x y)"
    using pixel_fill_rect [of g1 x y 0 "int ?h - char_h fn" "int ?w" "char_h fn" COLOR_BG] g1 p ch dims
    by (auto simp: is_int32_def)
  moreover have "pixel g1 x y = pixel g x (y + ?c)" if "int y < int ?h - char_h fn"
  proof -
    have "y < ?h - ?c" using that ch by linarith
    then have lt: "y * ?w + x < ?w * (?h - ?c)" using row_bound [of x ?w y "?h - ?c" ?w] p by (simp add: mult.commute)
    have "?w * (?h - ?c) + ?w * ?c \<le> 2 ^ 32" using prod small by simp
    from scroll_copy_forward [OF this] lt show ?thesis
      by (simp add: pixel_def g1_def pitch algebra_simps)
  qed
  ultimately show ?thesis by auto
qed

theorem scroll_up_correct_witness:
  "pixel (scroll_up boot_font boot_gfx) 1000 700 = pixel boot_gfx 1000 716 \<and>
   pixel (scroll_up boot_font boot_gfx) 1000 760 = COLOR_BG"
  using scroll_up_correct [of boot_gfx boot_font 1000 700] scroll_up_correct [of boot_gfx boot_font 1000 760]
  by (simp add: boot_gfx_ok boot_font_def)

end
