(* ===== verification/Interrupts.thy ===== *)
theory Interrupts
  imports Diskfs
begin

text \<open>
  Interrupt plumbing: the two cascaded interrupt controllers (\<^verbatim>\<open>src/pic.c\<close>), the descriptor
  table (\<^verbatim>\<open>src/interrupts.c\<close>) and the timer (\<^verbatim>\<open>src/timer.c\<close>). The controllers are hardware, so the
  code runs on an arbitrary \<open>bus\<close>; the locale \<open>pic_pair\<close> states what the Intel 8259A data sheet
  says of the ports the code uses. Shown here: remapping sets the vector offsets and keeps the
  masks, unmasking clears one bit of one controller, every unmasked interrupt of the system finds
  the gate of its own handler, and a sleep returns after the right number of timer interrupts
  unless the tick counter wraps.
\<close>

section \<open>pic.c\<close>

definition pic_remap :: "'d bus \<Rightarrow> ('d, 'a) machine_scheme \<Rightarrow> ('d, 'a) machine_scheme" where
  "pic_remap bus st =
     (let (a1, st) = inb bus 0x21 st;
          (a2, st) = inb bus 0xA1 st;
          st = outb bus 0x20 0x11 st;
          st = outb bus 0xA0 0x11 st;
          st = outb bus 0x21 0x20 st;
          st = outb bus 0xA1 0x28 st;
          st = outb bus 0x21 0x04 st;
          st = outb bus 0xA1 0x02 st;
          st = outb bus 0x21 0x01 st;
          st = outb bus 0xA1 0x01 st;
          st = outb bus 0x21 a1 st
      in outb bus 0xA1 a2 st)"

definition pic_mask_all :: "'d bus \<Rightarrow> ('d, 'a) machine_scheme \<Rightarrow> ('d, 'a) machine_scheme" where
  "pic_mask_all bus st = outb bus 0xA1 0xFF (outb bus 0x21 0xFF st)"

text \<open>\<open>1 << k\<close> is an \<^verbatim>\<open>int\<close> expression; its complement is cut to the byte it is combined with.\<close>

definition pic_unmask_irq :: "'d bus \<Rightarrow> u8 \<Rightarrow> ('d, 'a) machine_scheme \<Rightarrow> ('d, 'a) machine_scheme" where
  "pic_unmask_irq bus irq st =
     (if irq < 8
      then let (value, st) = inb bus 0x21 st
           in outb bus 0x21 (value AND ucast (NOT (push_bit (unat irq) (1 :: u32)))) st
      else let (value, st) = inb bus 0xA1 st
           in outb bus 0xA1 (value AND ucast (NOT (push_bit (unat irq - 8) (1 :: u32)))) st)"

definition pic_send_eoi :: "'d bus \<Rightarrow> u8 \<Rightarrow> ('d, 'a) machine_scheme \<Rightarrow> ('d, 'a) machine_scheme" where
  "pic_send_eoi bus irq st =
     (let st = (if 8 \<le> irq then outb bus 0xA0 0x20 st else st) in outb bus 0x20 0x20 st)"

section \<open>interrupts.c\<close>

record idt_entry =
  base_low :: u16
  selector :: u16
  zero :: u8
  flags :: u8
  base_high :: u16

record idt_ptr =
  limit :: u16
  base :: u32

text \<open>
  The addresses of the assembly stubs and of the table are given by the linker, and
  \<^verbatim>\<open>load_gdt\<close>, \<^verbatim>\<open>gdt_flush\<close> and \<^verbatim>\<open>load_idt\<close> are assembly that sets processor registers; of these
  the state records the pointer handed to \<^verbatim>\<open>load_idt\<close>.
\<close>

record linkage =
  irq0_handler :: u32
  irq1_handler :: u32
  irq12_handler :: u32
  idt_address :: u32

record 'd cpu = "'d machine" +
  idt :: "idt_entry list"
  idtp :: idt_ptr
  loaded_idt :: "idt_ptr option"

text \<open>\<^verbatim>\<open>idt[num]\<close>; a store behind the 256 entries is a fault.\<close>

definition set_gate :: "nat \<Rightarrow> u32 \<Rightarrow> u16 \<Rightarrow> u8 \<Rightarrow> ('d, 'a) cpu_scheme \<Rightarrow> ('d, 'a) cpu_scheme result" where
  "set_gate num handler sel fl st =
     (if num < length (idt st)
      then Inr (st\<lparr>idt := (idt st)[num := \<lparr>base_low = ucast (handler AND 0xFFFF), selector = sel, zero = 0, flags = fl,
                 base_high = ucast (drop_bit 16 handler AND 0xFFFF)\<rparr>]\<rparr>)
      else Inl OutOfBounds)"

fun clear_gates :: "nat list \<Rightarrow> ('d, 'a) cpu_scheme \<Rightarrow> ('d, 'a) cpu_scheme result" where
  "clear_gates [] st = Inr st"
| "clear_gates (i # is) st = bind_result (set_gate i 0 0 0 st) (clear_gates is)"

definition init_idt :: "linkage \<Rightarrow> 'd bus \<Rightarrow> ('d, 'a) cpu_scheme \<Rightarrow> ('d, 'a) cpu_scheme result" where
  "init_idt lk bus st =
     bind_result (clear_gates [0..<256] st) (\<lambda>st.
     let st = pic_mask_all bus (pic_remap bus st) in
     bind_result (set_gate 0x21 (irq1_handler lk) 0x08 0x8E st) (\<lambda>st.
     bind_result (set_gate 0x2C (irq12_handler lk) 0x08 0x8E st) (\<lambda>st.
     bind_result (set_gate 0x20 (irq0_handler lk) 0x08 0x8E st) (\<lambda>st.
     let st = st\<lparr>idtp := \<lparr>limit = 256 * 8 - 1, base = idt_address lk\<rparr>\<rparr>
     in Inr (st\<lparr>loaded_idt := Some (idtp st)\<rparr>)))))"

section \<open>timer.c\<close>

record 'd timer = "'d fsys" +
  ticks :: u32
  tick_rate :: u32

definition irq0_c :: "('d, 'a) timer_scheme \<Rightarrow> ('d, 'a) timer_scheme" where
  "irq0_c st = st\<lparr>ticks := ticks st + 1\<rparr>"

definition timer_init :: "'d bus \<Rightarrow> u32 \<Rightarrow> ('d, 'a) timer_scheme \<Rightarrow> ('d, 'a) timer_scheme result" where
  "timer_init bus hz st =
     (let st = st\<lparr>tick_rate := hz\<rparr> in
      if hz = 0 then Inl DivideByZero
      else let divisor = 1193180 div hz;
               st = outb bus 0x43 0x36 st;
               st = outb bus 0x40 (ucast (divisor AND 0xFF)) st
           in Inr (outb bus 0x40 (ucast (drop_bit 8 divisor)) st))"

definition timer_ticks :: "('d, 'a) timer_scheme \<Rightarrow> u32" where
  "timer_ticks st = ticks st"

text \<open>
  \<^verbatim>\<open>hlt\<close> continues after the next interrupt, whichever it is. The interrupts to come are a list
  saying of each whether it is the timer's; \<open>None\<close> means the list ended while the loop still
  waited.
\<close>

fun sleep_loop :: "u32 \<Rightarrow> bool list \<Rightarrow> ('d, 'a) timer_scheme \<Rightarrow> (bool list \<times> ('d, 'a) timer_scheme) option" where
  "sleep_loop target irqs st =
     (if ticks st < target
      then (case irqs of [] \<Rightarrow> None
            | timer # irqs \<Rightarrow> sleep_loop target irqs (if timer then irq0_c st else st))
      else Some (irqs, st))"

declare sleep_loop.simps [simp del]

definition timer_sleep :: "u32 \<Rightarrow> bool list \<Rightarrow> ('d, 'a) timer_scheme \<Rightarrow> (bool list \<times> ('d, 'a) timer_scheme) option" where
  "timer_sleep ms irqs st =
     (let target = ticks st + (ms * tick_rate st div 1000) in sleep_loop target irqs st)"

section \<open>The controllers\<close>

text \<open>
  One 8259A as its data sheet describes it: after \<open>0x11\<close> on the command port the next three bytes
  on the data port are the vector offset, the cascade wiring and the mode; every other byte on the
  data port is the mask, which also reads back there.
\<close>

record pic8259 =
  pic_mask :: u8
  pic_offset :: u8
  pic_cascade :: u8
  pic_mode :: u8
  icw :: nat

definition pic_command :: "u8 \<Rightarrow> pic8259 \<Rightarrow> pic8259" where
  "pic_command v p = (if v = 0x11 then p\<lparr>icw := 1\<rparr> else p)"

definition pic_data :: "u8 \<Rightarrow> pic8259 \<Rightarrow> pic8259" where
  "pic_data v p =
     (if icw p = 1 then p\<lparr>pic_offset := v, icw := 2\<rparr>
      else if icw p = 2 then p\<lparr>pic_cascade := v, icw := 3\<rparr>
      else if icw p = 3 then p\<lparr>pic_mode := v, icw := 0\<rparr>
      else p\<lparr>pic_mask := v\<rparr>)"

locale pic_pair =
  fixes bus :: "'d bus" and chip1 :: "'d \<Rightarrow> pic8259" and chip2 :: "'d \<Rightarrow> pic8259"
  assumes master_command: "chip1 (bus_outb bus 0x20 v d) = pic_command v (chip1 d)" "chip2 (bus_outb bus 0x20 v d) = chip2 d"
    and slave_command: "chip2 (bus_outb bus 0xA0 v d) = pic_command v (chip2 d)" "chip1 (bus_outb bus 0xA0 v d) = chip1 d"
    and master_data: "chip1 (bus_outb bus 0x21 v d) = pic_data v (chip1 d)" "chip2 (bus_outb bus 0x21 v d) = chip2 d"
    and slave_data: "chip2 (bus_outb bus 0xA1 v d) = pic_data v (chip2 d)" "chip1 (bus_outb bus 0xA1 v d) = chip1 d"
    and master_mask: "icw (chip1 d) = 0 \<Longrightarrow> fst (bus_inb bus 0x21 d) = pic_mask (chip1 d)"
    and master_read: "chip1 (snd (bus_inb bus 0x21 d)) = chip1 d" "chip2 (snd (bus_inb bus 0x21 d)) = chip2 d"
    and slave_mask: "icw (chip2 d) = 0 \<Longrightarrow> fst (bus_inb bus 0xA1 d) = pic_mask (chip2 d)"
    and slave_read: "chip1 (snd (bus_inb bus 0xA1 d)) = chip1 d" "chip2 (snd (bus_inb bus 0xA1 d)) = chip2 d"
begin

lemmas pic_laws = master_command slave_command master_data slave_data master_read slave_read pic_command_def pic_data_def

lemma remap:
  assumes "icw (chip1 (dev st)) = 0" and "icw (chip2 (dev st)) = 0"
  shows "chip1 (dev (pic_remap bus st)) = (chip1 (dev st))\<lparr>pic_offset := 0x20, pic_cascade := 4, pic_mode := 1\<rparr>"
    and "chip2 (dev (pic_remap bus st)) = (chip2 (dev st))\<lparr>pic_offset := 0x28, pic_cascade := 2, pic_mode := 1\<rparr>"
  using assms by (simp_all add: pic_remap_def inb_def outb_def Let_def split_beta pic_laws master_mask slave_mask)

lemma mask_all:
  assumes "icw (chip1 (dev st)) = 0" and "icw (chip2 (dev st)) = 0"
  shows "chip1 (dev (pic_mask_all bus st)) = (chip1 (dev st))\<lparr>pic_mask := 0xFF\<rparr>"
    and "chip2 (dev (pic_mask_all bus st)) = (chip2 (dev st))\<lparr>pic_mask := 0xFF\<rparr>"
  using assms by (simp_all add: pic_mask_all_def outb_def pic_laws)

lemma unmask:
  assumes "icw (chip1 (dev st)) = 0" and "icw (chip2 (dev st)) = 0"
  shows "chip1 (dev (pic_unmask_irq bus irq st)) =
      (if irq < 8 then (chip1 (dev st))\<lparr>pic_mask := unset_bit (unat irq) (pic_mask (chip1 (dev st)))\<rparr> else chip1 (dev st))"
    and "chip2 (dev (pic_unmask_irq bus irq st)) =
      (if irq < 8 then chip2 (dev st) else (chip2 (dev st))\<lparr>pic_mask := unset_bit (unat irq - 8) (pic_mask (chip2 (dev st)))\<rparr>)"
proof -
  have "v AND ucast (NOT (push_bit n (1 :: u32))) = unset_bit n v" for v :: u8 and n
    by (rule bit_word_eqI) (auto simp: bit_simps)
  then show "chip1 (dev (pic_unmask_irq bus irq st)) =
      (if irq < 8 then (chip1 (dev st))\<lparr>pic_mask := unset_bit (unat irq) (pic_mask (chip1 (dev st)))\<rparr> else chip1 (dev st))"
    and "chip2 (dev (pic_unmask_irq bus irq st)) =
      (if irq < 8 then chip2 (dev st) else (chip2 (dev st))\<lparr>pic_mask := unset_bit (unat irq - 8) (pic_mask (chip2 (dev st)))\<rparr>)"
    using assms by (simp_all add: pic_unmask_irq_def inb_def outb_def Let_def split_beta pic_laws master_mask slave_mask)
qed

end

text \<open>A machine with just the two controllers, on which the laws hold.\<close>

definition pics_bus :: "(pic8259 \<times> pic8259) bus" where
  "pics_bus = \<lparr>
     bus_inb = \<lambda>port d. (if port = 0x21 then pic_mask (fst d) else if port = 0xA1 then pic_mask (snd d) else 0xFF, d),
     bus_outb = \<lambda>port v (p, q).
       (if port = 0x20 then pic_command v p else if port = 0x21 then pic_data v p else p,
        if port = 0xA0 then pic_command v q else if port = 0xA1 then pic_data v q else q),
     bus_inw = \<lambda>_ d. (0xFFFF, d), bus_outw = \<lambda>_ _ d. d\<rparr>"

interpretation pics: pic_pair pics_bus fst snd
  by unfold_locales (auto simp: pics_bus_def)

section \<open>The descriptor table\<close>

definition no_gate :: idt_entry where
  "no_gate = \<lparr>base_low = 0, selector = 0, zero = 0, flags = 0, base_high = 0\<rparr>"

text \<open>The processor's reading of a gate: the address it jumps to, if the gate is present.\<close>

definition gate_target :: "idt_entry \<Rightarrow> u32 option" where
  "gate_target e =
     (if flags e AND 0x80 \<noteq> 0 then Some (ucast (base_low e) OR push_bit 16 (ucast (base_high e))) else None)"

lemma gate_target_set:
  fixes h :: u32
  shows "gate_target \<lparr>base_low = ucast (h AND 0xFFFF), selector = s, zero = z, flags = 0x8E,
     base_high = ucast (drop_bit 16 h AND 0xFFFF)\<rparr> = Some h"
proof -
  have "ucast (ucast (h AND 0xFFFF) :: u16) OR push_bit 16 (ucast (ucast (drop_bit 16 h AND 0xFFFF) :: u16)) = h"
  proof (rule bit_word_eqI)
    fix n assume "n < LENGTH(32)"
    have m: "0xFFFF = (mask 16 :: u32)" by (simp add: mask_eq_exp_minus_1)
    show "bit (ucast (ucast (h AND 0xFFFF) :: u16) OR push_bit 16 (ucast (ucast (drop_bit 16 h AND 0xFFFF) :: u16)) :: u32) n = bit h n"
      using \<open>n < LENGTH(32)\<close> unfolding m by (auto simp: bit_simps)
  qed
  then show ?thesis by (simp add: gate_target_def)
qed

lemma gate_target_none [simp]: "gate_target no_gate = None"
  by (simp add: gate_target_def no_gate_def)

lemma clear_gates_run:
  "\<forall>i\<in>set is. i < length (idt st) \<Longrightarrow>
   \<exists>t. clear_gates is st = Inr (st\<lparr>idt := t\<rparr>) \<and> length t = length (idt st) \<and>
     (\<forall>k<length t. t ! k = (if k \<in> set is then no_gate else idt st ! k))"
proof (induction "is" arbitrary: st)
  case Nil
  show ?case by (rule exI [of _ "idt st"]) simp
next
  case (Cons i js)
  let ?st = "st\<lparr>idt := (idt st)[i := no_gate]\<rparr>"
  have "set_gate i 0 0 0 st = Inr ?st" using Cons.prems by (simp add: set_gate_def no_gate_def)
  moreover from Cons.IH [of ?st] Cons.prems
  obtain t where "clear_gates js ?st = Inr (?st\<lparr>idt := t\<rparr>)" "length t = length (idt st)"
    "\<forall>k<length t. t ! k = (if k \<in> set js then no_gate else (idt st)[i := no_gate] ! k)" by auto
  ultimately show ?case by (intro exI [of _ t]) (auto simp: nth_list_update)
qed

lemma port_writes_keep:
  "idt (outb bus p v st) = idt st" "idt (snd (inb bus p st)) = idt st"
  by (simp_all add: outb_def inb_def split_beta)

lemma pic_keeps_idt: "idt (pic_mask_all bus (pic_remap bus st)) = idt st"
  by (simp add: pic_mask_all_def pic_remap_def Let_def split_beta port_writes_keep)

text \<open>The unmasking of \<^verbatim>\<open>kmain\<close>: timer, keyboard, cascade, mouse.\<close>

definition unmask_irqs :: "'d bus \<Rightarrow> ('d, 'a) machine_scheme \<Rightarrow> ('d, 'a) machine_scheme" where
  "unmask_irqs bus st =
     pic_unmask_irq bus 12 (pic_unmask_irq bus 2 (pic_unmask_irq bus 1 (pic_unmask_irq bus 0 st)))"

text \<open>The vector an interrupt line raises and whether the line is enabled.\<close>

definition irq_vector :: "pic8259 \<Rightarrow> pic8259 \<Rightarrow> nat \<Rightarrow> nat" where
  "irq_vector p q irq = (if irq < 8 then unat (pic_offset p) + irq else unat (pic_offset q) + (irq - 8))"

definition irq_enabled :: "pic8259 \<Rightarrow> pic8259 \<Rightarrow> nat \<Rightarrow> bool" where
  "irq_enabled p q irq \<longleftrightarrow> (if irq < 8 then \<not> bit (pic_mask p) irq else \<not> bit (pic_mask q) (irq - 8) \<and> \<not> bit (pic_mask p) 2)"

definition handler_of :: "linkage \<Rightarrow> nat \<Rightarrow> u32 option" where
  "handler_of lk irq = (if irq = 0 then Some (irq0_handler lk) else if irq = 1 then Some (irq1_handler lk)
     else if irq = 12 then Some (irq12_handler lk) else None)"

lemma init_idt_run:
  assumes pic: "pic_pair bus chip1 chip2" and len: "length (idt st) = 256"
    and icw: "icw (chip1 (dev st)) = 0" "icw (chip2 (dev st)) = 0"
  shows "\<exists>st'. init_idt lk bus st = Inr st' \<and> length (idt st') = 256 \<and>
    loaded_idt st' = Some \<lparr>limit = 2047, base = idt_address lk\<rparr> \<and>
    (\<forall>k<256. gate_target (idt st' ! k) =
      (if k = 0x20 then Some (irq0_handler lk) else if k = 0x21 then Some (irq1_handler lk)
       else if k = 0x2C then Some (irq12_handler lk) else None)) \<and>
    chip1 (dev st') = (chip1 (dev st))\<lparr>pic_offset := 0x20, pic_cascade := 4, pic_mode := 1, pic_mask := 0xFF\<rparr> \<and>
    chip2 (dev st') = (chip2 (dev st))\<lparr>pic_offset := 0x28, pic_cascade := 2, pic_mode := 1, pic_mask := 0xFF\<rparr>"
proof -
  obtain t where t: "clear_gates [0..<256] st = Inr (st\<lparr>idt := t\<rparr>)" "length t = 256" "\<forall>k<256. t ! k = no_gate"
    using clear_gates_run [of "[0..<256]" st] len by auto
  let ?st = "st\<lparr>idt := t\<rparr>"
  define st1 where "st1 = pic_mask_all bus (pic_remap bus ?st)"
  have idt1: "idt st1 = t" by (simp add: st1_def pic_keeps_idt)
  have icw1: "icw (chip1 (dev (pic_remap bus ?st))) = 0" "icw (chip2 (dev (pic_remap bus ?st))) = 0"
    using pic_pair.remap [OF pic, of ?st] icw by simp_all
  have chips: "chip1 (dev st1) = (chip1 (dev st))\<lparr>pic_offset := 0x20, pic_cascade := 4, pic_mode := 1, pic_mask := 0xFF\<rparr>"
    "chip2 (dev st1) = (chip2 (dev st))\<lparr>pic_offset := 0x28, pic_cascade := 2, pic_mode := 1, pic_mask := 0xFF\<rparr>"
    using pic_pair.mask_all [OF pic icw1] pic_pair.remap [OF pic, of ?st] icw by (simp_all add: st1_def)
  show ?thesis
    unfolding init_idt_def t bind_result_simps Let_def st1_def [symmetric]
    using t(2,3) by (simp add: set_gate_def idt1 chips nth_list_update gate_target_set)
qed

section \<open>Properties\<close>

text \<open>
  C17. Interrupt delivery: \<^verbatim>\<open>init_idt\<close> succeeds on the 256-entry table and loads it; afterwards the
  lines \<^verbatim>\<open>kmain\<close> unmasks are exactly timer, keyboard, cascade and mouse, and for every line of the
  two controllers the gate of the vector it raises is present exactly when the kernel has a handler
  for the line, and then holds the address of that handler.
\<close>

theorem interrupts_reach_handlers:
  assumes "pic_pair bus chip1 chip2" and "length (idt st) = 256"
    and "icw (chip1 (dev st)) = 0" and "icw (chip2 (dev st)) = 0"
  shows "\<exists>st'. init_idt lk bus st = Inr st' \<and> loaded_idt st' = Some \<lparr>limit = 2047, base = idt_address lk\<rparr> \<and>
    (let d = dev (unmask_irqs bus st') in
     \<forall>irq<16. (irq_enabled (chip1 d) (chip2 d) irq \<longleftrightarrow> irq \<in> {0, 1, 2, 12}) \<and>
       gate_target (idt st' ! irq_vector (chip1 d) (chip2 d) irq) = handler_of lk irq)"
proof -
  obtain st' where st': "init_idt lk bus st = Inr st'" "loaded_idt st' = Some \<lparr>limit = 2047, base = idt_address lk\<rparr>"
    "\<forall>k<256. gate_target (idt st' ! k) = (if k = 0x20 then Some (irq0_handler lk) else if k = 0x21 then Some (irq1_handler lk)
       else if k = 0x2C then Some (irq12_handler lk) else None)"
    "chip1 (dev st') = (chip1 (dev st))\<lparr>pic_offset := 0x20, pic_cascade := 4, pic_mode := 1, pic_mask := 0xFF\<rparr>"
    "chip2 (dev st') = (chip2 (dev st))\<lparr>pic_offset := 0x28, pic_cascade := 2, pic_mode := 1, pic_mask := 0xFF\<rparr>"
    using init_idt_run [OF assms, of lk] by auto
  define d where "d = dev (unmask_irqs bus st')"
  note um = pic_pair.unmask [OF assms(1)]
  have d: "chip1 d = (chip1 (dev st'))\<lparr>pic_mask := unset_bit 2 (unset_bit 1 (unset_bit 0 0xFF))\<rparr>"
    "chip2 d = (chip2 (dev st'))\<lparr>pic_mask := unset_bit 4 0xFF\<rparr>"
    using st'(4,5) assms(3,4) by (simp_all add: d_def unmask_irqs_def um)
  have v: "irq_vector (chip1 d) (chip2 d) irq = 0x20 + irq" for irq
    by (simp add: irq_vector_def d st')
  have "irq_enabled (chip1 d) (chip2 d) irq \<longleftrightarrow> irq \<in> {0, 1, 2, 12}" if "irq < 16" for irq
  proof -
    have "unset_bit 2 (unset_bit 1 (unset_bit 0 0xFF)) = (0xF8 :: u8)" "unset_bit 4 0xFF = (0xEF :: u8)" by code_simp+
    then have m: "pic_mask (chip1 d) = 0xF8" "pic_mask (chip2 d) = 0xEF" unfolding d by simp_all
    have "irq = 0 \<or> irq = 1 \<or> irq = 2 \<or> irq = 3 \<or> irq = 4 \<or> irq = 5 \<or> irq = 6 \<or> irq = 7 \<or> irq = 8 \<or> irq = 9 \<or>
      irq = 10 \<or> irq = 11 \<or> irq = 12 \<or> irq = 13 \<or> irq = 14 \<or> irq = 15" using that by arith
    then show ?thesis by (elim disjE) (simp_all add: irq_enabled_def m)
  qed
  moreover have "gate_target (idt st' ! irq_vector (chip1 d) (chip2 d) irq) = handler_of lk irq" if "irq < 16" for irq
    using st'(3) that unfolding v by (simp add: handler_of_def)
  ultimately show ?thesis using st'(1,2) by (simp add: Let_def d_def)
qed

definition reset_pic :: pic8259 where
  "reset_pic = \<lparr>pic_mask = 0xB8, pic_offset = 8, pic_cascade = 0, pic_mode = 0, icw = 0\<rparr>"

definition boot_cpu :: "(pic8259 \<times> pic8259) cpu" where
  "boot_cpu = \<lparr>out = [], dev = (reset_pic, reset_pic), idt = replicate 256 no_gate,
     idtp = \<lparr>limit = 0, base = 0\<rparr>, loaded_idt = None\<rparr>"

theorem interrupts_reach_handlers_witness:
  "let lk = \<lparr>irq0_handler = 0x100010, irq1_handler = 0x100020, irq12_handler = 0x100030, idt_address = 0x105000\<rparr> in
   \<exists>st'. init_idt lk pics_bus boot_cpu = Inr st' \<and>
     gate_target (idt st' ! irq_vector (fst (dev (unmask_irqs pics_bus st'))) (snd (dev (unmask_irqs pics_bus st'))) 12) =
       Some 0x100030"
proof -
  let ?lk = "\<lparr>irq0_handler = 0x100010, irq1_handler = 0x100020, irq12_handler = 0x100030, idt_address = 0x105000\<rparr>"
  have "length (idt boot_cpu) = 256" "icw (fst (dev boot_cpu)) = 0" "icw (snd (dev boot_cpu)) = 0"
    by (simp_all add: boot_cpu_def reset_pic_def)
  from interrupts_reach_handlers [OF pics.pic_pair_axioms this, of ?lk]
  show ?thesis by (auto simp: Let_def handler_of_def)
qed

section \<open>Sleeping\<close>

text \<open>How many of the interrupts in a list are the timer's.\<close>

abbreviation timer_irqs :: "bool list \<Rightarrow> nat" where
  "timer_irqs irqs \<equiv> length (filter (\<lambda>b. b) irqs)"

lemma sleep_loop_returns:
  assumes "unat target - unat (ticks st) \<le> timer_irqs irqs"
  shows "\<exists>used rest. irqs = used @ rest \<and> timer_irqs used = unat target - unat (ticks st) \<and>
    (used \<noteq> [] \<longrightarrow> last used) \<and>
    sleep_loop target irqs st = Some (rest, st\<lparr>ticks := if ticks st < target then target else ticks st\<rparr>)"
  using assms
proof (induction irqs arbitrary: st)
  case Nil
  then have "\<not> ticks st < target" by (simp add: word_less_nat_alt)
  moreover from this have "unat target - unat (ticks st) = 0" by (simp add: word_less_nat_alt)
  ultimately show ?case by (intro exI [of _ "[]"]) (simp add: sleep_loop.simps)
next
  case (Cons t irqs)
  show ?case
  proof (cases "ticks st < target")
    case False
    then have "unat target - unat (ticks st) = 0" by (simp add: word_less_nat_alt)
    with False show ?thesis by - (rule exI [of _ "[]"], rule exI [of _ "t # irqs"], simp add: sleep_loop.simps)
  next
    case True
    let ?st = "if t then irq0_c st else st"
    have lt: "unat (ticks st) < unat target" using True by (simp add: word_less_nat_alt)
    moreover have "unat target < 2 ^ LENGTH(32)" by (rule unsigned_less)
    ultimately have suc: "unat (ticks st + 1) = Suc (unat (ticks st))" by (simp add: unat_word_ariths)
    have "unat target - unat (ticks ?st) \<le> timer_irqs irqs"
      using Cons.prems suc by (auto simp: irq0_c_def split: if_splits)
    from Cons.IH [OF this] obtain used rest where ur: "irqs = used @ rest"
      "timer_irqs used = unat target - unat (ticks ?st)" "used \<noteq> [] \<longrightarrow> last used"
      "sleep_loop target irqs ?st = Some (rest, ?st\<lparr>ticks := if ticks ?st < target then target else ticks ?st\<rparr>)" by auto
    have "sleep_loop target (t # irqs) st = sleep_loop target irqs ?st"
      using True by (subst sleep_loop.simps) simp
    moreover have "?st\<lparr>ticks := if ticks ?st < target then target else ticks ?st\<rparr> = st\<lparr>ticks := target\<rparr>"
    proof (cases t)
      case True
      then have "unat target \<le> unat (ticks st + 1) \<Longrightarrow> ticks st + 1 = target"
        using lt suc by (intro word_unat_eq_iff [THEN iffD2]) simp
      then show ?thesis using True by (auto simp: irq0_c_def word_less_nat_alt not_less)
    qed (use \<open>ticks st < target\<close> in simp)
    moreover have "timer_irqs (t # used) = unat target - unat (ticks st)"
      using ur(2) suc lt by (auto simp: irq0_c_def)
    moreover have "used = [] \<Longrightarrow> t" using ur(2) suc lt by (auto simp: irq0_c_def split: if_splits)
    ultimately show ?thesis using ur True by (intro exI [of _ "t # used"] exI [of _ rest]) auto
  qed
qed

text \<open>
  C18. \<^verbatim>\<open>timer_sleep\<close> returns as soon as the timer has interrupted \<open>ms * tick_rate / 1000\<close> times, and not
  earlier, however many other interrupts wake the processor meanwhile, as long as neither the
  product nor the tick counter passes 32 bits.
\<close>

theorem timer_sleep_returns:
  assumes "unat ms * unat (tick_rate st) < 2 ^ 32"
    and "unat (ticks st) + unat ms * unat (tick_rate st) div 1000 < 2 ^ 32"
    and "unat ms * unat (tick_rate st) div 1000 \<le> timer_irqs irqs"
  shows "\<exists>used rest st'. irqs = used @ rest \<and> timer_irqs used = unat ms * unat (tick_rate st) div 1000 \<and>
    (used \<noteq> [] \<longrightarrow> last used) \<and> timer_sleep ms irqs st = Some (rest, st') \<and>
    unat (ticks st') = unat (ticks st) + unat ms * unat (tick_rate st) div 1000"
proof -
  let ?d = "unat ms * unat (tick_rate st) div 1000" and ?t = "ticks st + (ms * tick_rate st div 1000)"
  have "unat (ms * tick_rate st div 1000) = ?d"
    using assms(1) by (simp add: unat_div_distrib unat_word_ariths)
  then have t: "unat ?t = unat (ticks st) + ?d" using assms(2) by (simp add: unat_word_ariths)
  then have "unat ?t - unat (ticks st) \<le> timer_irqs irqs" using assms(3) by simp
  from sleep_loop_returns [OF this] obtain used rest where "irqs = used @ rest" "timer_irqs used = ?d"
    "used \<noteq> [] \<longrightarrow> last used" "sleep_loop ?t irqs st = Some (rest, st\<lparr>ticks := if ticks st < ?t then ?t else ticks st\<rparr>)"
    using t by auto
  then show ?thesis using t
    by (intro exI [of _ used] exI [of _ rest]) (auto simp: timer_sleep_def Let_def word_less_nat_alt)
qed

definition boot_timer :: "u32 \<Rightarrow> unit timer" where
  "boot_timer t = \<lparr>out = [], dev = (), ata_present = 0, files = [], current_dir = 0, ticks = t, tick_rate = 100\<rparr>"

theorem timer_sleep_returns_witness:
  "\<exists>used rest st'. [False, True, True, False, True, True] = used @ rest \<and> timer_irqs used = 3 \<and> (used \<noteq> [] \<longrightarrow> last used) \<and>
    timer_sleep 30 [False, True, True, False, True, True] (boot_timer 7) = Some (rest, st') \<and>
    unat (ticks st') = 10"
  using timer_sleep_returns [of 30 "boot_timer 7" "[False, True, True, False, True, True]"]
  by (simp add: boot_timer_def)

text \<open>
  When the target passes 32 bits the comparison is with the wrapped number and the sleep does not
  wait at all.
\<close>

lemma timer_sleep_wrapped:
  assumes "ticks st + (ms * tick_rate st div 1000) \<le> ticks st"
  shows "timer_sleep ms irqs st = Some (irqs, st)"
proof -
  have "\<not> ticks st < ticks st + (ms * tick_rate st div 1000)" using assms by simp
  then show ?thesis by (simp add: timer_sleep_def Let_def sleep_loop.simps del: not_less)
qed

lemma timer_sleep_half_day: "timer_sleep 42949673 irqs (boot_timer 0) = Some (irqs, boot_timer 0)"
  by (rule timer_sleep_wrapped) (simp add: boot_timer_def)

end
