(* ===== verification/Input.thy ===== *)
theory Input
  imports Ata Graphics
begin

text \<open>
  The input devices: the keyboard interrupt handler of \<^verbatim>\<open>src/keyboard.c\<close> and the PS/2 mouse driver
  of \<^verbatim>\<open>src/mouse.c\<close>. Both handlers are state machines fed one byte per interrupt. Shown here: a
  waiting reader gets back exactly the text that is typed, for every printable character; the
  shift and control flags follow the keys; the mouse decodes packets, resynchronises after stray
  bytes and keeps the pointer on the screen whatever bytes arrive.
\<close>

section \<open>keyboard.c\<close>

definition KEY_UP :: char where "KEY_UP = CHR 0x01"
definition KEY_DOWN :: char where "KEY_DOWN = CHR 0x02"
definition KEY_LEFT :: char where "KEY_LEFT = CHR 0x03"
definition KEY_RIGHT :: char where "KEY_RIGHT = CHR 0x04"
definition KEY_HOME :: char where "KEY_HOME = CHR 0x05"
definition KEY_END :: char where "KEY_END = CHR 0x06"
definition KEY_DELETE :: char where "KEY_DELETE = CHR 0x7F"

lemmas key_codes = KEY_UP_def KEY_DOWN_def KEY_LEFT_def KEY_RIGHT_def KEY_HOME_def KEY_END_def KEY_DELETE_def

record 'd keyboard = "'d machine" +
  last_char :: char
  char_ready :: int
  shift_pressed :: int
  ctrl_pressed :: int
  extended :: int

definition keyboard_has_char :: "('d, 'a) keyboard_scheme \<Rightarrow> int" where
  "keyboard_has_char k = char_ready k"

definition scancode_to_ascii :: "char list" where
  "scancode_to_ascii =
     [NUL, NUL] @ ''1234567890-='' @ [BS] @
     [TAB] @ ''qwertyuiop[]'' @ [NL] @
     [NUL] @ ''asdfghjkl;'' @ [CHR 0x27, CHR 0x60] @
     [NUL, CHR 0x5C] @ ''zxcvbnm,./'' @ [NUL] @
     [CHR ''*'', NUL, CHR '' '']"

definition scancode_to_ascii_shift :: "char list" where
  "scancode_to_ascii_shift =
     [NUL, NUL] @ ''!@#$%^&*()_+'' @ [BS] @
     [TAB] @ ''QWERTYUIOP{}'' @ [NL] @
     [NUL] @ ''ASDFGHJKL:'' @ [CHR 0x22, CHR ''~''] @
     [NUL, CHR ''|''] @ ''ZXCVBNM<>?'' @ [NUL] @
     [CHR ''*'', NUL, CHR '' '']"

definition set_char :: "char \<Rightarrow> ('d, 'a) keyboard_scheme \<Rightarrow> ('d, 'a) keyboard_scheme" where
  "set_char c k = k\<lparr>last_char := c, char_ready := 1\<rparr>"

definition extended_key :: "u8 \<Rightarrow> ('d, 'a) keyboard_scheme \<Rightarrow> ('d, 'a) keyboard_scheme" where
  "extended_key scancode k =
     (if scancode = 0x48 then set_char KEY_UP k
      else if scancode = 0x50 then set_char KEY_DOWN k
      else if scancode = 0x4B then set_char KEY_LEFT k
      else if scancode = 0x4D then set_char KEY_RIGHT k
      else if scancode = 0x53 then set_char KEY_DELETE k
      else if scancode = 0x47 then set_char KEY_HOME k
      else if scancode = 0x4F then set_char KEY_END k
      else k)"

text \<open>The character of a control combination, NUL when the key has none.\<close>

definition ctrl_char :: "char \<Rightarrow> char" where
  "ctrl_char b =
     (if 97 \<le> schar b \<and> schar b \<le> 122 then char_of (of_char b - 97 + 1 :: nat)
      else if 65 \<le> schar b \<and> schar b \<le> 90 then char_of (of_char b - 65 + 1 :: nat)
      else NUL)"

definition normal_key :: "u8 \<Rightarrow> ('d, 'a) keyboard_scheme \<Rightarrow> ('d, 'a) keyboard_scheme" where
  "normal_key scancode k =
     (if unat scancode < length scancode_to_ascii
      then let c = (if tt (ctrl_pressed k) \<and> \<not> tt (shift_pressed k)
                    then ctrl_char (scancode_to_ascii ! unat scancode) else NUL);
               c = (if c = NUL
                    then if tt (shift_pressed k) then scancode_to_ascii_shift ! unat scancode
                         else scancode_to_ascii ! unat scancode
                    else c)
           in if c \<noteq> NUL then set_char c k else k
      else k)"

text \<open>\<open>key_event\<close> is \<^verbatim>\<open>irq1_c\<close> after the scancode has been read from the port.\<close>

definition key_event :: "u8 \<Rightarrow> ('d, 'a) keyboard_scheme \<Rightarrow> ('d, 'a) keyboard_scheme" where
  "key_event scancode k =
     (if scancode = 0xE0 then k\<lparr>extended := 1\<rparr>
      else if scancode = 0x2A \<or> scancode = 0x36 then k\<lparr>shift_pressed := 1\<rparr>
      else if scancode = 0xAA \<or> scancode = 0xB6 then k\<lparr>shift_pressed := 0\<rparr>
      else if scancode = 0x1D then k\<lparr>ctrl_pressed := 1\<rparr>
      else if scancode = 0x9D then k\<lparr>ctrl_pressed := 0\<rparr>
      else if scancode AND 0x80 = 0 then
        (if tt (extended k) then extended_key scancode (k\<lparr>extended := 0\<rparr>) else normal_key scancode k)
      else if tt (extended k) then k\<lparr>extended := 0\<rparr> else k)"

definition irq1_c :: "'d bus \<Rightarrow> ('d, 'a) keyboard_scheme \<Rightarrow> ('d, 'a) keyboard_scheme" where
  "irq1_c bus k = (let (scancode, k) = inb bus 0x60 k in key_event scancode k)"

text \<open>
  \<^verbatim>\<open>keyboard_getchar\<close> spins until the interrupt handler has set \<^verbatim>\<open>char_ready\<close>. The scancodes to
  come are a list; \<open>None\<close> means the list ended while the loop still waited.
\<close>

fun keyboard_getchar :: "u8 list \<Rightarrow> ('d, 'a) keyboard_scheme \<Rightarrow> (char \<times> u8 list \<times> ('d, 'a) keyboard_scheme) option" where
  "keyboard_getchar scs k =
     (if tt (char_ready k) then Some (last_char k, scs, k\<lparr>char_ready := 0\<rparr>)
      else case scs of [] \<Rightarrow> None | sc # scs \<Rightarrow> keyboard_getchar scs (key_event sc k))"

declare keyboard_getchar.simps [simp del]

definition keyboard_consume_char :: "('d, 'a) keyboard_scheme \<Rightarrow> char \<times> ('d, 'a) keyboard_scheme" where
  "keyboard_consume_char k = (last_char k, k\<lparr>char_ready := 0\<rparr>)"

section \<open>mouse.c\<close>

record 'd mouse = "'d machine" +
  mx :: int
  my :: int
  mbuttons :: int
  mouse_byte :: "u8 list"
  mouse_byte_idx :: int

fun wait_status :: "(u8 \<Rightarrow> bool) \<Rightarrow> 'd bus \<Rightarrow> nat \<Rightarrow> ('d, 'a) machine_scheme \<Rightarrow> ('d, 'a) machine_scheme" where
  "wait_status ok bus 0 st = st"
| "wait_status ok bus (Suc n) st =
     (let (v, st) = inb bus 0x64 st in if ok v then st else wait_status ok bus n st)"

definition mouse_wait :: "'d bus \<Rightarrow> ('d, 'a) machine_scheme \<Rightarrow> ('d, 'a) machine_scheme" where
  "mouse_wait bus st = wait_status (\<lambda>v. v AND 0x02 = 0) bus 100000 st"

definition mouse_wait_data :: "'d bus \<Rightarrow> ('d, 'a) machine_scheme \<Rightarrow> ('d, 'a) machine_scheme" where
  "mouse_wait_data bus st = wait_status (\<lambda>v. v AND 0x01 \<noteq> 0) bus 100000 st"

definition mouse_read :: "'d bus \<Rightarrow> ('d, 'a) machine_scheme \<Rightarrow> u8 \<times> ('d, 'a) machine_scheme" where
  "mouse_read bus st = inb bus 0x60 (mouse_wait_data bus st)"

definition mouse_write :: "'d bus \<Rightarrow> u8 \<Rightarrow> ('d, 'a) machine_scheme \<Rightarrow> ('d, 'a) machine_scheme" where
  "mouse_write bus data st =
     (let st = outb bus 0x64 0xD4 (mouse_wait bus st) in outb bus 0x60 data (mouse_wait bus st))"

definition mouse_init :: "'d bus \<Rightarrow> ('d, 'a) mouse_scheme \<Rightarrow> ('d, 'a) mouse_scheme" where
  "mouse_init bus st =
     (let st = emit (''Initializing PS/2 mouse...'' @ [NL]) st;
          st = outb bus 0x64 0xA8 (mouse_wait bus st);
          st = outb bus 0x64 0x20 (mouse_wait bus st);
          (status, st) = inb bus 0x60 (mouse_wait_data bus st);
          status = status OR 0x02;
          st = outb bus 0x64 0x60 (mouse_wait bus st);
          st = outb bus 0x60 status (mouse_wait bus st);
          (_, st) = mouse_read bus (mouse_write bus 0xF6 st);
          (_, st) = mouse_read bus (mouse_write bus 0xEA st);
          (_, st) = mouse_read bus (mouse_write bus 0xF4 st)
      in emit (''Mouse ready'' @ [NL]) (st\<lparr>mouse_byte_idx := 0\<rparr>))"

definition clamp_to :: "int \<Rightarrow> int \<Rightarrow> int" where
  "clamp_to n v = (let v = (if v < 0 then 0 else v) in if v \<ge> n then n - 1 else v)"

text \<open>\<open>mouse_event\<close> is \<^verbatim>\<open>irq12_c\<close> after the byte has been read; a store behind \<^verbatim>\<open>mouse_byte\<close> is a fault.\<close>

definition mouse_event :: "gfx \<Rightarrow> u8 \<Rightarrow> ('d, 'a) mouse_scheme \<Rightarrow> ('d, 'a) mouse_scheme result" where
  "mouse_event g data st =
     (if mouse_byte_idx st = 0 \<and> data AND 0x08 = 0 then Inr st
      else if mouse_byte_idx st < 0 \<or> int (length (mouse_byte st)) \<le> mouse_byte_idx st then Inl OutOfBounds
      else
        let st = st\<lparr>mouse_byte := (mouse_byte st)[nat (mouse_byte_idx st) := data]\<rparr>;
            st = st\<lparr>mouse_byte_idx := mouse_byte_idx st + 1\<rparr>
        in if mouse_byte_idx st = 3 then
             let st = st\<lparr>mouse_byte_idx := 0, mbuttons := uint (mouse_byte st ! 0 AND 0x07)\<rparr>;
                 dx = sint (mouse_byte st ! 1);
                 dy = sint (mouse_byte st ! 2);
                 w = swrap (int (fb_width g));
                 h = swrap (int (fb_height g))
             in Inr (st\<lparr>mx := clamp_to w (swrap (mx st - dx)), my := clamp_to h (swrap (my st + dy))\<rparr>)
           else Inr st)"

definition irq12_c :: "gfx \<Rightarrow> 'd bus \<Rightarrow> ('d, 'a) mouse_scheme \<Rightarrow> ('d, 'a) mouse_scheme result" where
  "irq12_c g bus st = (let (data, st) = inb bus 0x60 st in mouse_event g data st)"

definition mouse_x :: "('d, 'a) mouse_scheme \<Rightarrow> int" where "mouse_x st = mx st"
definition mouse_y :: "('d, 'a) mouse_scheme \<Rightarrow> int" where "mouse_y st = my st"
definition mouse_buttons :: "('d, 'a) mouse_scheme \<Rightarrow> int" where "mouse_buttons st = mbuttons st"

section \<open>Devices fed by interrupts\<close>

text \<open>The bytes of successive interrupts, handled one after the other.\<close>

fun feed :: "(u8 \<Rightarrow> 's \<Rightarrow> 's result) \<Rightarrow> u8 list \<Rightarrow> 's \<Rightarrow> 's result" where
  "feed step [] s = Inr s"
| "feed step (b # bs) s = bind_result (step b s) (feed step bs)"

locale byte_device =
  fixes ok :: "'s \<Rightarrow> bool" and step :: "u8 \<Rightarrow> 's \<Rightarrow> 's result"
  assumes step_ok: "ok s \<Longrightarrow> \<exists>s'. step b s = Inr s' \<and> ok s'"
begin

lemma feed_ok: "ok s \<Longrightarrow> \<exists>s'. feed step bs s = Inr s' \<and> ok s'"
proof (induction bs arbitrary: s)
  case (Cons b bs)
  from step_ok [OF Cons.prems, of b] obtain s1 where "step b s = Inr s1" "ok s1" by blast
  with Cons.IH [of s1] show ?case by simp
qed simp

end

lemma feed_append: "feed step (a @ b) s = bind_result (feed step a s) (feed step b)"
proof (induction a arbitrary: s)
  case (Cons x a)
  then show ?case by (cases "step x s") simp_all
qed simp

section \<open>The keyboard\<close>

definition kbd_ok :: "('d, 'a) keyboard_scheme \<Rightarrow> bool" where
  "kbd_ok k \<longleftrightarrow> shift_pressed k \<in> {0, 1} \<and> ctrl_pressed k \<in> {0, 1} \<and> extended k \<in> {0, 1} \<and>
     char_ready k \<in> {0, 1} \<and> (char_ready k = 1 \<longrightarrow> last_char k \<noteq> NUL)"

lemma key_not_NUL [simp]: "KEY_UP \<noteq> NUL" "KEY_DOWN \<noteq> NUL" "KEY_LEFT \<noteq> NUL" "KEY_RIGHT \<noteq> NUL" "KEY_HOME \<noteq> NUL"
    "KEY_END \<noteq> NUL" "KEY_DELETE \<noteq> NUL"
  by (simp_all add: key_codes NUL_def)

lemma extended_key_ok: "kbd_ok k \<Longrightarrow> kbd_ok (extended_key sc k)"
  by (simp add: extended_key_def kbd_ok_def set_char_def)

lemma normal_key_cases: "normal_key sc k = k \<or> (\<exists>c. c \<noteq> NUL \<and> normal_key sc k = set_char c k)"
  by (auto simp: normal_key_def Let_def)

lemma normal_key_ok: "kbd_ok k \<Longrightarrow> kbd_ok (normal_key sc k)"
  using normal_key_cases [of sc k] by (auto simp: kbd_ok_def set_char_def)

interpretation kbd: byte_device kbd_ok "\<lambda>sc k. Inr (key_event sc k)"
proof
  fix k :: "('a, 'b) keyboard_scheme" and sc
  assume k: "kbd_ok k"
  then have "kbd_ok (k\<lparr>extended := 0\<rparr>)" by (simp add: kbd_ok_def)
  with k have "kbd_ok (key_event sc k)"
    using extended_key_ok [of "k\<lparr>extended := 0\<rparr>" sc] normal_key_ok [OF k, of sc]
    unfolding key_event_def by (simp add: kbd_ok_def)
  then show "\<exists>s'. Inr (key_event sc k) = Inr s' \<and> kbd_ok s'" by simp
qed

subsection \<open>Modifiers\<close>

lemma normal_key_flags [simp]:
  "shift_pressed (normal_key sc k) = shift_pressed k" "ctrl_pressed (normal_key sc k) = ctrl_pressed k"
  "extended (normal_key sc k) = extended k"
  using normal_key_cases [of sc k] by (auto simp: set_char_def)

lemma extended_key_flags [simp]:
  "shift_pressed (extended_key sc k) = shift_pressed k" "ctrl_pressed (extended_key sc k) = ctrl_pressed k"
  "extended (extended_key sc k) = extended k"
  by (simp_all add: extended_key_def set_char_def)

lemma key_event_shift:
  "shift_pressed (key_event sc k) = (if sc \<in> {0x2A, 0x36} then 1 else if sc \<in> {0xAA, 0xB6} then 0 else shift_pressed k)"
  by (simp add: key_event_def)

lemma key_event_ctrl:
  "ctrl_pressed (key_event sc k) = (if sc = 0x1D then 1 else if sc = 0x9D then 0 else ctrl_pressed k)"
  by (simp add: key_event_def)

text \<open>The last of the bytes that is in one of two sets, and in which.\<close>

fun last_event :: "u8 set \<Rightarrow> u8 set \<Rightarrow> u8 list \<Rightarrow> bool \<Rightarrow> bool" where
  "last_event on off [] b = b"
| "last_event on off (sc # scs) b = last_event on off scs (if sc \<in> on then True else if sc \<in> off then False else b)"

lemma feed_modifiers:
  "\<exists>k'. feed (\<lambda>sc k. Inr (key_event sc k)) scs k = Inr k' \<and>
     tt (shift_pressed k') = last_event {0x2A, 0x36} {0xAA, 0xB6} scs (tt (shift_pressed k)) \<and>
     tt (ctrl_pressed k') = last_event {0x1D} {0x9D} scs (tt (ctrl_pressed k))"
proof (induction scs arbitrary: k)
  case (Cons sc scs)
  have "tt (shift_pressed (key_event sc k)) = (if sc \<in> {0x2A, 0x36} then True else if sc \<in> {0xAA, 0xB6} then False else tt (shift_pressed k))"
    "tt (ctrl_pressed (key_event sc k)) = (if sc \<in> {0x1D} then True else if sc \<in> {0x9D} then False else tt (ctrl_pressed k))"
    unfolding key_event_shift key_event_ctrl by simp_all
  with Cons.IH [of "key_event sc k"] show ?case by simp
qed simp

subsection \<open>Typing\<close>

text \<open>
  The US keyboard, written down from its layout and not from the tables of the driver: scan code set 1
  numbers the keys of a row from left to right, so a row is the code of its first key, the characters
  of its keys and those it gives with shift. \<open>press\<close> and \<open>release\<close> are the codes the keyboard sends
  when a character is typed.
\<close>

fun index_of :: "char \<Rightarrow> char list \<Rightarrow> nat option" where
  "index_of c [] = None"
| "index_of c (x # xs) = (if x = c then Some 0 else map_option Suc (index_of c xs))"

lemma index_of_Some: "index_of c xs = Some i \<Longrightarrow> i < length xs \<and> xs ! i = c"
  by (induction xs arbitrary: i) (auto split: if_splits)

definition release_code :: "nat \<Rightarrow> u8" where
  "release_code i = of_nat (i + 128)"

definition us_rows :: "(nat \<times> string \<times> string) list" where
  "us_rows =
     [(0x02, ''1234567890-='', ''!@#$%^&*()_+''),
      (0x10, ''qwertyuiop[]'', ''QWERTYUIOP{}''),
      (0x1E, ''asdfghjkl;'' @ [CHR 0x27], ''ASDFGHJKL:'' @ [CHR 0x22]),
      (0x29, [CHR 0x60], ''~''),
      (0x2B, [CHR 0x5C], ''|''),
      (0x2C, ''zxcvbnm,./'', ''ZXCVBNM<>?''),
      (0x39, '' '', []), (0x0E, [BS], []), (0x0F, [TAB], []), (0x1C, [NL], [])]"

text \<open>The key of a character and whether shift is held for it.\<close>

fun us_key :: "(nat \<times> string \<times> string) list \<Rightarrow> char \<Rightarrow> (nat \<times> bool) option" where
  "us_key [] c = None"
| "us_key ((code, plain, shifted) # rows) c =
     (case index_of c plain of Some i \<Rightarrow> Some (code + i, False)
      | None \<Rightarrow> (case index_of c shifted of Some i \<Rightarrow> Some (code + i, True) | None \<Rightarrow> us_key rows c))"

definition press :: "char \<Rightarrow> u8 list" where
  "press c = (case us_key us_rows c of None \<Rightarrow> [] | Some (i, sh) \<Rightarrow> (if sh then [0x2A] else []) @ [of_nat i])"

definition release :: "char \<Rightarrow> u8 list" where
  "release c = (case us_key us_rows c of None \<Rightarrow> [] | Some (i, sh) \<Rightarrow> release_code i # (if sh then [0xAA] else []))"

definition on_layout :: "char \<Rightarrow> bool" where
  "on_layout c \<longleftrightarrow> us_key us_rows c \<noteq> None"

lemma printable_on_layout:
  assumes c: "(32 :: nat) \<le> of_char c" "of_char c < (127 :: nat)"
  shows "on_layout c"
proof -
  have "list_all (\<lambda>n. on_layout (char_of n)) [32..<127]" by code_simp
  moreover have "(of_char c :: nat) \<in> set [32..<127]" unfolding set_upt using c by simp
  ultimately have "on_layout (char_of (of_char c :: nat))" unfolding list_all_iff by blast
  then show ?thesis by simp
qed

lemma edit_keys_on_layout: "on_layout NL" "on_layout BS" "on_layout TAB"
  by code_simp+

lemma table_lengths: "length scancode_to_ascii = 58" "length scancode_to_ascii_shift = 58"
  by (simp_all add: scancode_to_ascii_def scancode_to_ascii_shift_def)

lemma table_modifiers:
  "scancode_to_ascii ! 0x2A = NUL" "scancode_to_ascii ! 0x36 = NUL" "scancode_to_ascii ! 0x1D = NUL"
  "scancode_to_ascii_shift ! 0x2A = NUL" "scancode_to_ascii_shift ! 0x36 = NUL" "scancode_to_ascii_shift ! 0x1D = NUL"
  by code_simp+

text \<open>No modifier held and no prefix pending; a held shift key is allowed for.\<close>

definition resting :: "bool \<Rightarrow> ('d, 'a) keyboard_scheme \<Rightarrow> bool" where
  "resting sh k \<longleftrightarrow> tt (shift_pressed k) = sh \<and> ctrl_pressed k = 0 \<and> extended k = 0 \<and> char_ready k = 0"

lemma small_scancode: "i < 58 \<Longrightarrow> unat (of_nat i :: u8) = i"
  by (simp add: unat_of_nat)

lemma small_codes:
  assumes "i < 58" and "i \<notin> {0x2A, 0x36, 0x1D}"
  shows "(of_nat i :: u8) \<notin> {0xE0, 0x2A, 0x36, 0xAA, 0xB6, 0x1D, 0x9D}" "(of_nat i :: u8) AND 0x80 = 0"
    "release_code i \<notin> {0xE0, 0x2A, 0x36, 0xAA, 0xB6, 0x1D, 0x9D}" "release_code i AND 0x80 \<noteq> 0"
proof -
  have "list_all (\<lambda>i. i \<in> {0x2A, 0x36, 0x1D} \<or>
      (of_nat i :: u8) \<notin> {0xE0, 0x2A, 0x36, 0xAA, 0xB6, 0x1D, 0x9D} \<and> (of_nat i :: u8) AND 0x80 = 0 \<and>
      release_code i \<notin> {0xE0, 0x2A, 0x36, 0xAA, 0xB6, 0x1D, 0x9D} \<and> release_code i AND 0x80 \<noteq> 0) [0..<58]" by code_simp
  moreover have "i \<in> set [0..<58]" unfolding set_upt using assms(1) by simp
  ultimately have "i \<in> {0x2A, 0x36, 0x1D} \<or>
      (of_nat i :: u8) \<notin> {0xE0, 0x2A, 0x36, 0xAA, 0xB6, 0x1D, 0x9D} \<and> (of_nat i :: u8) AND 0x80 = 0 \<and>
      release_code i \<notin> {0xE0, 0x2A, 0x36, 0xAA, 0xB6, 0x1D, 0x9D} \<and> release_code i AND 0x80 \<noteq> 0"
    unfolding list_all_iff by (rule bspec)
  with assms(2) show "(of_nat i :: u8) \<notin> {0xE0, 0x2A, 0x36, 0xAA, 0xB6, 0x1D, 0x9D}" "(of_nat i :: u8) AND 0x80 = 0"
    "release_code i \<notin> {0xE0, 0x2A, 0x36, 0xAA, 0xB6, 0x1D, 0x9D}" "release_code i AND 0x80 \<noteq> 0" by blast+
qed

lemma plain_key:
  assumes k: "resting sh k" and i: "i < 58" and c: "(if sh then scancode_to_ascii_shift else scancode_to_ascii) ! i = c" "c \<noteq> NUL"
  shows "key_event (of_nat i) k = set_char c k" "resting sh k' \<Longrightarrow> key_event (release_code i) k' = k'"
proof -
  have "i \<notin> {0x2A, 0x36, 0x1D}" using c table_modifiers by (auto split: if_splits)
  note codes = small_codes [OF i this]
  have "key_event (of_nat i) k = normal_key (of_nat i) k"
    using codes(1,2) k unfolding key_event_def resting_def by simp
  also have "\<dots> = set_char c k"
    using k c i unfolding normal_key_def Let_def small_scancode [OF i] table_lengths resting_def by auto
  finally show "key_event (of_nat i) k = set_char c k" .
  show "key_event (release_code i) k' = k'" if "resting sh k'"
    using codes(3,4) that unfolding key_event_def resting_def by simp
qed

text \<open>The tables of the driver agree with the layout, row by row, and so key by key.\<close>

definition row_agrees :: "nat \<times> string \<times> string \<Rightarrow> bool" where
  "row_agrees = (\<lambda>(code, plain, shifted). code + length plain \<le> 58 \<and> code + length shifted \<le> 58 \<and>
     NUL \<notin> set plain \<and> NUL \<notin> set shifted \<and>
     take (length plain) (drop code scancode_to_ascii) = plain \<and>
     take (length shifted) (drop code scancode_to_ascii_shift) = shifted)"

lemma rows_agree: "list_all row_agrees us_rows"
  by code_simp

lemma row_key:
  assumes "index_of c xs = Some i" and "code + length xs \<le> 58" and "NUL \<notin> set xs"
    and "take (length xs) (drop code table) = xs" and "length table = 58"
  shows "code + i < 58 \<and> table ! (code + i) = c \<and> c \<noteq> NUL"
proof -
  have i: "i < length xs" "xs ! i = c" using index_of_Some [OF assms(1)] by auto
  moreover have "take (length xs) (drop code table) ! i = table ! (code + i)" using i(1) assms(2,5) by simp
  then have "table ! (code + i) = c" using i(2) assms(4) by simp
  moreover have "c \<in> set xs" using i by auto
  ultimately show ?thesis using assms(2,3) by auto
qed

lemma us_key_agrees:
  assumes "list_all row_agrees rows" and "us_key rows c = Some (i, sh)"
  shows "i < 58 \<and> (if sh then scancode_to_ascii_shift else scancode_to_ascii) ! i = c \<and> c \<noteq> NUL"
  using assms
proof (induction rows c rule: us_key.induct)
  case (2 code plain shifted rows c)
  have a: "code + length plain \<le> 58" "code + length shifted \<le> 58" "NUL \<notin> set plain" "NUL \<notin> set shifted"
    "take (length plain) (drop code scancode_to_ascii) = plain"
    "take (length shifted) (drop code scancode_to_ascii_shift) = shifted"
    using "2.prems"(1) by (simp_all add: row_agrees_def)
  show ?case
  proof (cases "index_of c plain")
    case (Some k)
    then show ?thesis using row_key [OF Some a(1,3,5) table_lengths(1)] "2.prems"(2) by auto
  next
    case None
    show ?thesis
    proof (cases "index_of c shifted")
      case (Some k)
      then show ?thesis using row_key [OF Some a(2,4,6) table_lengths(2)] "2.prems"(2) None by auto
    qed (use "2.IH" [OF None] "2.prems" None in simp)
  qed
qed simp

lemma press_cases:
  assumes "on_layout c"
  obtains (plain) i where "press c = [of_nat i]" "release c = [release_code i]" "i < 58" "scancode_to_ascii ! i = c" "c \<noteq> NUL"
  | (shifted) i where "press c = [0x2A, of_nat i]" "release c = [release_code i, 0xAA]" "i < 58"
      "scancode_to_ascii_shift ! i = c" "c \<noteq> NUL"
proof -
  obtain i sh where k: "us_key us_rows c = Some (i, sh)" using assms by (auto simp: on_layout_def)
  with us_key_agrees [OF rows_agree k] show thesis
    using plain [of i] shifted [of i] by (cases sh) (auto simp: press_def release_def)
qed

lemma getchar_step: "char_ready k = 0 \<Longrightarrow> keyboard_getchar (sc # scs) k = keyboard_getchar scs (key_event sc k)"
  by (subst keyboard_getchar.simps) simp

lemma getchar_ready: "char_ready k \<noteq> 0 \<Longrightarrow> keyboard_getchar scs k = Some (last_char k, scs, k\<lparr>char_ready := 0\<rparr>)"
  by (subst keyboard_getchar.simps) simp

lemma set_char_fields [simp]: "char_ready (set_char c k) = 1" "last_char (set_char c k) = c"
  "(set_char c k)\<lparr>char_ready := 0\<rparr> = k\<lparr>last_char := c, char_ready := 0\<rparr>"
  by (simp_all add: set_char_def)

text \<open>One keystroke: the reader returns at the key press, and the releases leave the keyboard at rest.\<close>

lemma keystroke:
  assumes k: "resting False k" and c: "on_layout c"
  shows "\<exists>k'. keyboard_getchar (press c @ scs) k = Some (c, scs, k') \<and>
    (\<forall>scs'. \<exists>k''. keyboard_getchar (release c @ scs') k' = keyboard_getchar scs' k'' \<and> resting False k'')"
  using c
proof (cases rule: press_cases)
  case (plain i)
  let ?k = "k\<lparr>last_char := c, char_ready := 0\<rparr>"
  have "resting False ?k" using k by (simp add: resting_def)
  then show ?thesis
    using plain plain_key(1) [OF k, of i c] plain_key(2) [OF k, of i c ?k] k
    by (intro exI [of _ ?k]) (auto simp: getchar_step getchar_ready resting_def intro!: exI [of _ ?k])
next
  case (shifted i)
  let ?s = "k\<lparr>shift_pressed := 1\<rparr>"
  let ?k = "?s\<lparr>last_char := c, char_ready := 0\<rparr>" and ?k' = "k\<lparr>shift_pressed := 0, last_char := c, char_ready := 0\<rparr>"
  have r: "resting True ?s" "resting True ?k" "resting False ?k'" using k by (simp_all add: resting_def)
  have "key_event 0x2A k = ?s" "key_event 0xAA ?k = ?k'" by (simp_all add: key_event_def)
  then show ?thesis
    using shifted plain_key(1) [OF r(1), of i c] plain_key(2) [OF r(1), of i c ?k] k r
    by (intro exI [of _ ?k]) (auto simp: getchar_step getchar_ready resting_def intro!: exI [of _ ?k'])
qed

fun read_chars :: "nat \<Rightarrow> u8 list \<Rightarrow> ('d, 'a) keyboard_scheme \<Rightarrow> (string \<times> u8 list \<times> ('d, 'a) keyboard_scheme) option" where
  "read_chars 0 scs k = Some ([], scs, k)"
| "read_chars (Suc n) scs k = (case keyboard_getchar scs k of None \<Rightarrow> None
     | Some (c, scs, k) \<Rightarrow> (case read_chars n scs k of None \<Rightarrow> None | Some (s, scs, k) \<Rightarrow> Some (c # s, scs, k)))"

definition keystrokes :: "string \<Rightarrow> u8 list" where
  "keystrokes s = concat (map (\<lambda>c. press c @ release c) s)"

lemma read_keystrokes:
  assumes "\<forall>c\<in>set s. on_layout c"
    and "\<And>scs. \<exists>k0. keyboard_getchar (pend @ scs) k = keyboard_getchar scs k0 \<and> resting False k0"
  shows "\<exists>rest k'. read_chars (length s) (pend @ keystrokes s) k = Some (s, rest, k')"
  using assms
proof (induction s arbitrary: pend k)
  case (Cons c s)
  let ?more = "release c @ keystrokes s"
  obtain k0 where k0: "keyboard_getchar (pend @ press c @ ?more) k = keyboard_getchar (press c @ ?more) k0" "resting False k0"
    using Cons.prems(2) [of "press c @ ?more"] by auto
  obtain k' where k': "keyboard_getchar (press c @ ?more) k0 = Some (c, ?more, k')"
    "\<forall>scs'. \<exists>k''. keyboard_getchar (release c @ scs') k' = keyboard_getchar scs' k'' \<and> resting False k''"
    using keystroke [OF k0(2), of c ?more] Cons.prems(1) by auto
  obtain rest k'' where "read_chars (length s) ?more k' = Some (s, rest, k'')"
    using Cons.IH [of "release c" k'] Cons.prems(1) k'(2) by auto
  with k0(1) k'(1) show ?case by (simp add: keystrokes_def)
qed simp

section \<open>The mouse\<close>

definition screen_fits :: "gfx \<Rightarrow> bool" where
  "screen_fits g \<longleftrightarrow> 0 < fb_width g \<and> fb_width g \<le> 2 ^ 30 \<and> 0 < fb_height g \<and> fb_height g \<le> 2 ^ 30"

definition mouse_ok :: "gfx \<Rightarrow> ('d, 'a) mouse_scheme \<Rightarrow> bool" where
  "mouse_ok g st \<longleftrightarrow> 0 \<le> mx st \<and> mx st < int (fb_width g) \<and> 0 \<le> my st \<and> my st < int (fb_height g) \<and>
     0 \<le> mouse_byte_idx st \<and> mouse_byte_idx st < 3 \<and> length (mouse_byte st) = 3 \<and>
     0 \<le> mbuttons st \<and> mbuttons st < 8"

lemma clamp_to_range: "0 < n \<Longrightarrow> 0 \<le> clamp_to n v \<and> clamp_to n v < n"
  by (auto simp: clamp_to_def Let_def)

lemma screen_dims: "screen_fits g \<Longrightarrow> swrap (int (fb_width g)) = int (fb_width g) \<and> swrap (int (fb_height g)) = int (fb_height g)"
  by (auto intro!: swrap_id simp: screen_fits_def is_int32_def)

lemma sint_byte: "- 128 \<le> sint (b :: u8)" "sint (b :: u8) < 128"
  using sint_ge [of b] sint_lt [of b] by simp_all

lemma buttons_range: "0 \<le> uint (b AND 7 :: u8) \<and> uint (b AND 7 :: u8) < 8"
proof -
  have "b AND 7 \<le> 7" by (rule word_and_le1)
  then show ?thesis by (simp add: word_le_def)
qed

lemma mouse_event_ok:
  assumes g: "screen_fits g" and ok: "mouse_ok g st"
  shows "\<exists>st'. mouse_event g b st = Inr st' \<and> mouse_ok g st'"
  using ok g screen_dims [OF g] buttons_range
    clamp_to_range [of "int (fb_width g)"] clamp_to_range [of "int (fb_height g)"]
  unfolding mouse_event_def Let_def by (auto simp: mouse_ok_def screen_fits_def)

text \<open>A screen that fits, as the argument of the locale.\<close>

interpretation mouse: byte_device "\<lambda>st. screen_fits g \<and> mouse_ok g st" "mouse_event g" for g
  by unfold_locales (use mouse_event_ok in blast)

subsection \<open>Packets\<close>

text \<open>A packet moves the pointer: what the three bytes mean, and the pointer position as a whole.\<close>

definition move_pointer :: "gfx \<Rightarrow> u8 \<times> u8 \<times> u8 \<Rightarrow> int \<times> int \<times> int \<Rightarrow> int \<times> int \<times> int" where
  "move_pointer g = (\<lambda>(b, dx, dy) (x, y, _).
     (min (int (fb_width g) - 1) (max 0 (x - sint dx)), min (int (fb_height g) - 1) (max 0 (y + sint dy)), uint (b AND 7)))"

definition pointer :: "('d, 'a) mouse_scheme \<Rightarrow> int \<times> int \<times> int" where
  "pointer st = (mx st, my st, mbuttons st)"

definition packet_bytes :: "u8 \<times> u8 \<times> u8 \<Rightarrow> u8 list" where
  "packet_bytes = (\<lambda>(b, dx, dy). [b, dx, dy])"

lemma clamp_to_min_max: "clamp_to n v = min (n - 1) (max 0 v)" if "0 < n"
  using that by (auto simp: clamp_to_def)

lemma packet_moves:
  assumes g: "screen_fits g" and ok: "mouse_ok g st" and idx: "mouse_byte_idx st = 0" and b: "b AND 0x08 \<noteq> 0"
  shows "\<exists>st'. feed (mouse_event g) [b, dx, dy] st = Inr st' \<and> mouse_ok g st' \<and> mouse_byte_idx st' = 0 \<and>
    pointer st' = move_pointer g (b, dx, dy) (pointer st)"
proof -
  obtain m0 m1 m2 where m: "mouse_byte st = [m0, m1, m2]"
    using ok by (auto simp: mouse_ok_def length_Suc_conv numeral_3_eq_3)
  have "is_int32 (mx st - sint dx)" "is_int32 (my st + sint dy)"
    using g ok sint_byte [of dx] sint_byte [of dy] by (auto simp: is_int32_def screen_fits_def mouse_ok_def)
  then have "feed (mouse_event g) [b, dx, dy] st = Inr (st\<lparr>mouse_byte := [b, dx, dy], mouse_byte_idx := 0,
      mbuttons := uint (b AND 7), mx := clamp_to (int (fb_width g)) (mx st - sint dx), my := clamp_to (int (fb_height g)) (my st + sint dy)\<rparr>)"
    using idx b screen_dims [OF g] by (simp add: mouse_event_def m Let_def)
  then show ?thesis
    using g ok buttons_range [of b] clamp_to_range [of "int (fb_width g)"] clamp_to_range [of "int (fb_height g)"]
    by (simp add: mouse_ok_def pointer_def move_pointer_def clamp_to_min_max screen_fits_def)
qed

lemma packets_move:
  assumes g: "screen_fits g" and "mouse_ok g st" and "mouse_byte_idx st = 0" and "\<forall>(b, _)\<in>set ps. b AND 0x08 \<noteq> 0"
  shows "\<exists>st'. feed (mouse_event g) (concat (map packet_bytes ps)) st = Inr st' \<and> mouse_byte_idx st' = 0 \<and>
    pointer st' = fold (move_pointer g) ps (pointer st)"
  using assms(2-)
proof (induction ps arbitrary: st)
  case (Cons p ps)
  obtain b dx dy where p: "p = (b, dx, dy)" by (cases p)
  obtain st1 where st1: "feed (mouse_event g) [b, dx, dy] st = Inr st1" "mouse_ok g st1" "mouse_byte_idx st1 = 0"
    "pointer st1 = move_pointer g p (pointer st)"
    using packet_moves [OF g, of st b dx dy] Cons.prems p by auto
  have "concat (map packet_bytes (p # ps)) = [b, dx, dy] @ concat (map packet_bytes ps)" by (simp add: packet_bytes_def p)
  then have "feed (mouse_event g) (concat (map packet_bytes (p # ps))) st = feed (mouse_event g) (concat (map packet_bytes ps)) st1"
    using st1(1) by (simp only: feed_append bind_result_simps)
  with Cons.IH [of st1] Cons.prems st1 show ?case by auto
qed simp

lemma stray_bytes:
  "mouse_byte_idx st = 0 \<Longrightarrow> \<forall>b\<in>set bs. b AND 0x08 = 0 \<Longrightarrow> feed (mouse_event g) bs st = Inr st"
  by (induction bs) (simp_all add: mouse_event_def)

section \<open>Properties\<close>

text \<open>
  C16. Typing round trip: a reader that waits for each character with \<^verbatim>\<open>keyboard_getchar\<close> gets back
  exactly the text whose keys are pressed and released on a US keyboard, for any text of printable
  ASCII characters, line breaks, tabs and backspaces, with the shift key worked where needed. The
  scancodes are those of scan code set 1 for the layout \<open>us_rows\<close>, independent of the driver's tables.
\<close>

theorem typed_text_is_read:
  assumes "\<forall>c\<in>set s. ((32 :: nat) \<le> of_char c \<and> of_char c < (127 :: nat)) \<or> c \<in> {NL, TAB, BS}" and "resting False k"
  shows "\<exists>rest k'. read_chars (length s) (keystrokes s) k = Some (s, rest, k')"
proof -
  have "\<forall>c\<in>set s. on_layout c" using assms(1) printable_on_layout edit_keys_on_layout by blast
  from read_keystrokes [OF this, of "[]" k] assms(2) show ?thesis by auto
qed

definition idle_keyboard :: "unit keyboard" where
  "idle_keyboard = \<lparr>out = [], dev = (), last_char = NUL, char_ready = 0, shift_pressed = 0, ctrl_pressed = 0, extended = 0\<rparr>"

theorem typed_text_is_read_witness:
  "keystrokes ''qA'' = [0x10, 0x90, 0x2A, 0x1E, 0x9E, 0xAA] \<and> (\<exists>rest k'. read_chars (length (''ls ~A'' @ [NL])) (keystrokes (''ls ~A'' @ [NL])) idle_keyboard = Some (''ls ~A'' @ [NL], rest, k'))"
proof
  show "keystrokes ''qA'' = [0x10, 0x90, 0x2A, 0x1E, 0x9E, 0xAA]" by code_simp
qed (rule typed_text_is_read, simp_all add: resting_def idle_keyboard_def)

text \<open>
  The modifier flags follow the keys: after any sequence of scancodes, prefixes and unknown codes
  included, shift counts as held exactly when the last shift code was a press, control likewise;
  and a character is offered to the reader only if it is not NUL.
\<close>

theorem modifiers_follow_keys:
  assumes "kbd_ok k"
  shows "\<exists>k'. feed (\<lambda>sc k. Inr (key_event sc k)) scs k = Inr k' \<and>
     tt (shift_pressed k') = last_event {0x2A, 0x36} {0xAA, 0xB6} scs (tt (shift_pressed k)) \<and>
     tt (ctrl_pressed k') = last_event {0x1D} {0x9D} scs (tt (ctrl_pressed k)) \<and>
     (tt (keyboard_has_char k') \<longrightarrow> fst (keyboard_consume_char k') \<noteq> NUL)"
  using feed_modifiers [of scs k] kbd.feed_ok [OF assms, of scs]
  by (auto simp: kbd_ok_def keyboard_has_char_def keyboard_consume_char_def)

theorem modifiers_follow_keys_witness:
  "\<exists>k'. feed (\<lambda>sc k. Inr (key_event sc k)) [0x2A, 0x1D, 0xE0, 0x1E, 0x9D] idle_keyboard = Inr k' \<and>
     tt (shift_pressed k') \<and> \<not> tt (ctrl_pressed k')"
  using modifiers_follow_keys [of idle_keyboard "[0x2A, 0x1D, 0xE0, 0x1E, 0x9D]"]
  by (auto simp: idle_keyboard_def kbd_ok_def)

text \<open>
  The modifier branches return before the prefix flag is cleared, so a tap on the right control
  key (prefix and code, twice) leaves the flag set and swallows the next key.
\<close>

lemma right_ctrl_swallows_key:
  "feed (\<lambda>sc k. Inr (key_event sc k)) [0xE0, 0x1D, 0xE0, 0x9D, 0x1E] idle_keyboard = Inr idle_keyboard"
  by (simp add: key_event_def extended_key_def idle_keyboard_def)

text \<open>
  Mouse packets: whatever stray bytes without the synchronisation bit come first, the packets
  that follow are decoded one by one; each sets the buttons and moves the pointer by the signed
  displacements, clamped to the screen, and the driver is in step again after each.
\<close>

theorem mouse_packets_decoded:
  assumes "screen_fits g" and "mouse_ok g st" and "mouse_byte_idx st = 0"
    and "\<forall>b\<in>set stray. b AND 0x08 = 0" and "\<forall>(b, _)\<in>set ps. b AND 0x08 \<noteq> 0"
  shows "\<exists>st'. feed (mouse_event g) (stray @ concat (map packet_bytes ps)) st = Inr st' \<and> mouse_byte_idx st' = 0 \<and>
    pointer st' = fold (move_pointer g) ps (pointer st)"
  using packets_move [OF assms(1,2,3,5)] stray_bytes [OF assms(3,4)] by (simp add: feed_append)

definition boot_mouse :: "unit mouse" where
  "boot_mouse = \<lparr>out = [], dev = (), mx = 512, my = 384, mbuttons = 0, mouse_byte = [0, 0, 0], mouse_byte_idx = 0\<rparr>"

lemma boot_mouse_ok: "screen_fits boot_gfx" "mouse_ok boot_gfx boot_mouse" "mouse_byte_idx boot_mouse = 0"
  by (simp_all add: screen_fits_def mouse_ok_def boot_mouse_def boot_gfx_ok)

theorem mouse_packets_decoded_witness:
  "\<exists>st'. feed (mouse_event boot_gfx) [0x02, 0x09, 5, 0xFE, 0x08, 0, 100] boot_mouse = Inr st' \<and> mouse_byte_idx st' = 0 \<and>
    pointer st' = (507, 482, 0)"
  using mouse_packets_decoded [OF boot_mouse_ok, of "[0x02]" "[(0x09, 5, 0xFE), (0x08, 0, 100)]"]
  by (simp add: packet_bytes_def move_pointer_def pointer_def boot_mouse_def boot_gfx_ok)

text \<open>
  No sequence of bytes, in step or not, drives the mouse handler out of its packet buffer or the
  pointer off the screen.
\<close>

theorem mouse_stays_on_screen:
  assumes "screen_fits g" and "mouse_ok g st"
  shows "\<exists>st'. feed (mouse_event g) bytes st = Inr st' \<and> 0 \<le> mouse_x st' \<and> mouse_x st' < int (fb_width g) \<and>
    0 \<le> mouse_y st' \<and> mouse_y st' < int (fb_height g) \<and> 0 \<le> mouse_buttons st' \<and> mouse_buttons st' < 8"
  using mouse.feed_ok [of g st bytes] assms by (auto simp: mouse_ok_def mouse_x_def mouse_y_def mouse_buttons_def)

theorem mouse_stays_on_screen_witness:
  "\<exists>st'. feed (mouse_event boot_gfx) [0xFF, 0x80, 0x80, 0x00, 0xFF] boot_mouse = Inr st' \<and> 0 \<le> mouse_x st' \<and> mouse_x st' < 1024"
  using mouse_stays_on_screen [OF boot_mouse_ok(1,2), of "[0xFF, 0x80, 0x80, 0x00, 0xFF]"] by (auto simp: boot_gfx_ok)

end
