(* ===== verification/Nic.thy ===== *)
theory Nic
  imports Interrupts
begin

text \<open>
  PCI configuration space (\<^verbatim>\<open>src/pci.c\<close>) and the RTL8139 network card driver (\<^verbatim>\<open>src/rtl8139.c\<close>). The
  card shares two buffers with the driver by DMA: it fills \<^verbatim>\<open>rx_buffer\<close> and sends \<^verbatim>\<open>tx_buffer\<close>. Both
  therefore belong to the device side: the record \<open>nicbus\<close> adds to the byte and word ports the
  32-bit ports, the view of the receive memory and the stores to the transmit memory. The locale
  \<open>nic_card\<close> states what the driver relies on, and a simulated card shows that it can hold. Shown
  here: a frame handed to \<^verbatim>\<open>rtl8139_send_packet\<close> goes out on the wire unchanged, the frames the card
  puts in the ring come back from \<^verbatim>\<open>rtl8139_receive_packet\<close> in order as long as none runs past the end
  of the ring; one that does makes the driver read behind its buffer and look for the next frame in
  the wrong place.
\<close>

record 'd nicbus =
  io :: "'d bus"
  io_inl :: "u16 \<Rightarrow> 'd \<Rightarrow> u32 \<times> 'd"
  io_outl :: "u16 \<Rightarrow> u32 \<Rightarrow> 'd \<Rightarrow> 'd"
  rx_memory :: "'d \<Rightarrow> u8 list"
  rx_fill :: "u8 \<Rightarrow> 'd \<Rightarrow> 'd"
  tx_memory :: "u8 list \<Rightarrow> 'd \<Rightarrow> 'd"
  rx_address :: u32
  tx_address :: u32

definition inl :: "'d nicbus \<Rightarrow> u16 \<Rightarrow> ('d, 'a) machine_scheme \<Rightarrow> u32 \<times> ('d, 'a) machine_scheme" where
  "inl bus port st = (let (v, d) = io_inl bus port (dev st) in (v, st\<lparr>dev := d\<rparr>))"

definition outl :: "'d nicbus \<Rightarrow> u16 \<Rightarrow> u32 \<Rightarrow> ('d, 'a) machine_scheme \<Rightarrow> ('d, 'a) machine_scheme" where
  "outl bus port v st = st\<lparr>dev := io_outl bus port v (dev st)\<rparr>"

section \<open>pci.c\<close>

definition pci_address :: "u8 \<Rightarrow> u8 \<Rightarrow> u8 \<Rightarrow> u8 \<Rightarrow> u32" where
  "pci_address b slot func offset =
     push_bit 31 1 OR push_bit 16 (ucast b) OR push_bit 11 (ucast slot) OR push_bit 8 (ucast func) OR (ucast offset AND 0xFC)"

definition pci_read_config :: "'d nicbus \<Rightarrow> u8 \<Rightarrow> u8 \<Rightarrow> u8 \<Rightarrow> u8 \<Rightarrow> ('d, 'a) machine_scheme \<Rightarrow> u32 \<times> ('d, 'a) machine_scheme" where
  "pci_read_config bus b slot func offset st = inl bus 0xCFC (outl bus 0xCF8 (pci_address b slot func offset) st)"

definition pci_write_config :: "'d nicbus \<Rightarrow> u8 \<Rightarrow> u8 \<Rightarrow> u8 \<Rightarrow> u8 \<Rightarrow> u32 \<Rightarrow> ('d, 'a) machine_scheme \<Rightarrow> ('d, 'a) machine_scheme" where
  "pci_write_config bus b slot func offset v st =
     outl bus 0xCFC v (outl bus 0xCF8 (pci_address b slot func offset) st)"

section \<open>rtl8139.c\<close>

record 'd nic = "'d timer" +
  rtl_io_base :: u16
  rtl_mac :: "u8 list"
  rtl_initialized :: int
  rx_offset :: u16

definition TX_BUF_SIZE :: nat where "TX_BUF_SIZE = 1536"
definition RX_BUF_SIZE :: nat where "RX_BUF_SIZE = 8192"

text \<open>One candidate of the bus scan: either the scan goes on or the card is set up and found.\<close>

definition probe_slot :: "'d nicbus \<Rightarrow> u8 \<Rightarrow> u8 \<Rightarrow> ('d, 'a) nic_scheme \<Rightarrow> (bool \<times> ('d, 'a) nic_scheme) result" where
  "probe_slot bus b slot st =
     (let (vendor_device, st) = pci_read_config bus b slot 0 0 st;
          vendor = (ucast (vendor_device AND 0xFFFF) :: u16);
          device = (ucast (drop_bit 16 vendor_device AND 0xFFFF) :: u16)
      in if vendor = 0xFFFF \<or> device = 0xFFFF then Inr (False, st)
         else if vendor = 0x10EC \<and> device = 0x8139 then
           let (command, st) = pci_read_config bus b slot 0 0x04 st;
               command = command OR (push_bit 2 1 OR push_bit 0 1);
               st = pci_write_config bus b slot 0 0x04 command st;
               (bar0, st) = pci_read_config bus b slot 0 0x10 st;
               st = st\<lparr>rtl_io_base := ucast (bar0 AND 0xFFFC)\<rparr>;
               st = emit ''RTL8139 found at I/O base 0x'' st
           in bind_result (print_int (uint (rtl_io_base st)) st) (\<lambda>st. Inr (True, emit [NL] st))
         else Inr (False, st))"

fun scan_slots :: "'d nicbus \<Rightarrow> (u8 \<times> u8) list \<Rightarrow> ('d, 'a) nic_scheme \<Rightarrow> (int \<times> ('d, 'a) nic_scheme) result" where
  "scan_slots bus [] st = Inr (0, st)"
| "scan_slots bus ((b, slot) # rest) st =
     bind_result (probe_slot bus b slot st) (\<lambda>(found, st). if found then Inr (1, st) else scan_slots bus rest st)"

definition rtl8139_find_device :: "'d nicbus \<Rightarrow> ('d, 'a) nic_scheme \<Rightarrow> (int \<times> ('d, 'a) nic_scheme) result" where
  "rtl8139_find_device bus st =
     scan_slots bus (List.product (map of_nat [0..<256]) (map of_nat [0..<32])) st"

fun wait_reset :: "'d nicbus \<Rightarrow> nat \<Rightarrow> ('d, 'a) nic_scheme \<Rightarrow> ('d, 'a) nic_scheme" where
  "wait_reset bus 0 st = st"
| "wait_reset bus (Suc n) st =
     (let (v, st) = inb (io bus) (rtl_io_base st + 0x37) st in
      if v AND 0x10 = 0 then st else wait_reset bus n st)"

fun read_mac :: "'d nicbus \<Rightarrow> nat list \<Rightarrow> ('d, 'a) nic_scheme \<Rightarrow> ('d, 'a) nic_scheme" where
  "read_mac bus [] st = st"
| "read_mac bus (i # is) st =
     (let (v, st) = inb (io bus) (rtl_io_base st + 0x00 + of_nat i) st
      in read_mac bus is (st\<lparr>rtl_mac := (rtl_mac st)[i := v]\<rparr>))"

text \<open>The six numbers of an address with colons between them, as several functions print it.\<close>

fun print_mac :: "u8 list \<Rightarrow> 'a console_scheme \<Rightarrow> 'a console_scheme result" where
  "print_mac [] st = Inr st"
| "print_mac (b # bs) st =
     bind_result (print_int (uint b) st) (\<lambda>st. print_mac bs (if bs \<noteq> [] then emit '':'' st else st))"

definition rtl8139_init :: "'d nicbus \<Rightarrow> ('d, 'a) nic_scheme \<Rightarrow> ('d, 'a) nic_scheme result" where
  "rtl8139_init bus st =
     (if tt (rtl_initialized st) then Inr st
      else let st = emit (''Initializing RTL8139...'' @ [NL]) st in
        bind_result (rtl8139_find_device bus st) (\<lambda>(found, st).
          if found = 0 then Inr (emit (''RTL8139 not found.'' @ [NL]) st)
          else let st = outb (io bus) (rtl_io_base st + 0x37) 0x10 st;
                   st = wait_reset bus 100000 st;
                   st = read_mac bus [0..<6] st;
                   st = emit ''MAC Address: '' st
            in bind_result (print_mac (rtl_mac st) st) (\<lambda>st.
                 let st = emit [NL] st;
                     st = outl bus (rtl_io_base st + 0x44) (0x0F OR 0x80) st;
                     st = st\<lparr>dev := rx_fill bus 0 (dev st)\<rparr>;
                     st = outl bus (rtl_io_base st + 0x30) (rx_address bus) st;
                     st = st\<lparr>rx_offset := 0\<rparr>;
                     st = outw (io bus) (rtl_io_base st + 0x38) 0xFFF0 st;
                     st = outb (io bus) (rtl_io_base st + 0x37) (0x08 OR 0x04) st;
                     st = outw (io bus) (rtl_io_base st + 0x3E) 0xFFFF st;
                     st = st\<lparr>rtl_initialized := 1\<rparr>
                 in Inr (emit (''RTL8139 initialized.'' @ [NL]) st))))"

fun wait_transmit :: "'d nicbus \<Rightarrow> nat \<Rightarrow> ('d, 'a) nic_scheme \<Rightarrow> ('d, 'a) nic_scheme" where
  "wait_transmit bus 0 st = st"
| "wait_transmit bus (Suc n) st =
     (let (v, st) = inl bus (rtl_io_base st + 0x10) st in
      if v AND 0x80000000 = 0 then st else wait_transmit bus n st)"

text \<open>\<^verbatim>\<open>data\<close> is the caller's array, from which \<^verbatim>\<open>len\<close> bytes are read.\<close>

definition rtl8139_send_packet :: "'d nicbus \<Rightarrow> u8 list \<Rightarrow> u32 \<Rightarrow> ('d, 'a) nic_scheme \<Rightarrow> (int \<times> ('d, 'a) nic_scheme) result" where
  "rtl8139_send_packet bus data len st =
     (if rtl_initialized st = 0 \<or> len = 0 then Inr (- 1, st)
      else let len = (if unat len > TX_BUF_SIZE then of_nat TX_BUF_SIZE else len)
        in if length data < unat len then Inl OutOfBounds
           else let st = st\<lparr>dev := tx_memory bus (take (unat len) data) (dev st)\<rparr>;
                    st = wait_transmit bus 100000 st;
                    st = outl bus (rtl_io_base st + 0x20) (tx_address bus) st;
                    st = outl bus (rtl_io_base st + 0x10) (len OR 0x80000000) st
             in Inr (0, st))"

definition le16_at :: "u8 list \<Rightarrow> nat \<Rightarrow> u16" where
  "le16_at b i = ucast (b ! i) OR push_bit 8 (ucast (b ! (i + 1)))"

text \<open>
  \<^verbatim>\<open>rtl8139_receive_packet\<close> reads the ring header and the frame at \<^verbatim>\<open>rx_offset\<close>; a read behind
  the 8208 bytes of \<^verbatim>\<open>rx_buffer\<close> or a store behind the caller's buffer is a fault. The result is
  the return value and the new contents of the buffer.
\<close>

definition rtl8139_receive_packet :: "'d nicbus \<Rightarrow> u8 list \<Rightarrow> u32 \<Rightarrow> ('d, 'a) nic_scheme \<Rightarrow>
    (int \<times> u8 list \<times> ('d, 'a) nic_scheme) result" where
  "rtl8139_receive_packet bus buffer max_len st =
     (if rtl_initialized st = 0 \<or> max_len = 0 then Inr (- 1, buffer, st)
      else let (cbr, st) = inw (io bus) (rtl_io_base st + 0x3A) st in
        if cbr = rx_offset st then Inr (0, buffer, st)
        else let rx = rx_memory bus (dev st); off = unat (rx_offset st) in
          if length rx < off + 4 then Inl OutOfBounds
          else let packet_len = le16_at rx (off + 2) in
            if packet_len < 4 then Inr (0, buffer, st)
            else let frame_len = packet_len - 4;
                     frame_len = (if (ucast frame_len :: u32) > max_len then ucast max_len else frame_len)
              in if length rx < off + 4 + unat frame_len \<or> length buffer < unat frame_len then Inl OutOfBounds
                 else let buffer = blit buffer 0 (take (unat frame_len) (drop (off + 4) rx));
                          nxt = (of_int ((uint (rx_offset st) + uint packet_len + 4 + 3) div 4 * 4) :: u16);
                          nxt = (if unat nxt \<ge> RX_BUF_SIZE then 0 else nxt);
                          st = st\<lparr>rx_offset := nxt\<rparr>;
                          st = outw (io bus) (rtl_io_base st + 0x38) (rx_offset st - 0x10) st
                   in Inr (uint frame_len, buffer, st))"

definition rtl8139_packet_available :: "'d nicbus \<Rightarrow> ('d, 'a) nic_scheme \<Rightarrow> int \<times> ('d, 'a) nic_scheme" where
  "rtl8139_packet_available bus st =
     (if rtl_initialized st = 0 then (0, st)
      else let (cbr, st) = inw (io bus) (rtl_io_base st + 0x3A) st in (yn (cbr \<noteq> rx_offset st), st))"

definition rtl8139_get_mac :: "('d, 'a) nic_scheme \<Rightarrow> u8 list" where
  "rtl8139_get_mac st = take 6 (rtl_mac st)"

definition debug_reg :: "string \<Rightarrow> int \<Rightarrow> 'a console_scheme \<Rightarrow> 'a console_scheme result" where
  "debug_reg label v st = bind_result (print_int v (emit label st)) (\<lambda>st. Inr (emit [NL] st))"

definition rtl8139_debug :: "'d nicbus \<Rightarrow> ('d, 'a) nic_scheme \<Rightarrow> ('d, 'a) nic_scheme result" where
  "rtl8139_debug bus st =
     (if rtl_initialized st = 0 then Inr (emit (''RTL8139 not initialized'' @ [NL]) st)
      else bind_result (debug_reg ''IO Base: 0x'' (uint (rtl_io_base st)) (emit (''RTL8139 Debug:'' @ [NL]) st)) (\<lambda>st.
        let (v, st) = inb (io bus) (rtl_io_base st + 0x37) (emit ''CR: 0x'' st) in
        bind_result (debug_reg [] (uint v) st) (\<lambda>st.
        let (v, st) = inw (io bus) (rtl_io_base st + 0x3E) (emit ''ISR: 0x'' st) in
        bind_result (debug_reg [] (uint v) st) (\<lambda>st.
        let (v, st) = inw (io bus) (rtl_io_base st + 0x38) (emit ''CAPR: 0x'' st) in
        bind_result (debug_reg [] (uint v) st) (\<lambda>st.
        let (v, st) = inw (io bus) (rtl_io_base st + 0x3A) (emit ''CBR: 0x'' st) in
        bind_result (debug_reg [] (uint v) st) (\<lambda>st.
        debug_reg ''RX offset: 0x'' (uint (rx_offset st)) st))))))"

section \<open>What the driver relies on\<close>

text \<open>
  A card at I/O address \<open>base\<close>: \<open>wire\<close> lists the frames it has sent, \<open>tx\<close> is its view of the
  transmit memory, \<open>cbr\<close> the position up to which it has filled the receive ring. Writing a length
  with bit 31 set to the transmit status register sends that many bytes of the transmit memory.
\<close>

locale nic_card =
  fixes bus :: "'d nicbus" and base :: u16
    and wire :: "'d \<Rightarrow> u8 list list" and tx :: "'d \<Rightarrow> u8 list" and cbr :: "'d \<Rightarrow> u16"
  assumes tx_stored: "length data \<le> TX_BUF_SIZE \<Longrightarrow> take (length data) (tx (tx_memory bus data d)) = data"
    and tx_store_wire: "wire (tx_memory bus data d) = wire d"
    and tx_poll: "wire (snd (io_inl bus (base + 0x10) d)) = wire d" "tx (snd (io_inl bus (base + 0x10) d)) = tx d"
    and tx_addr: "wire (io_outl bus (base + 0x20) v d) = wire d" "tx (io_outl bus (base + 0x20) v d) = tx d"
    and tx_go: "unat len \<le> TX_BUF_SIZE \<Longrightarrow> wire (io_outl bus (base + 0x10) (len OR 0x80000000) d) = wire d @ [take (unat len) (tx d)]"
    and rx_size: "length (rx_memory bus d) = RX_BUF_SIZE + 16"
    and rx_cbr: "bus_inw (io bus) (base + 0x3A) d = (cbr d, d)"
    and rx_ack: "rx_memory bus (bus_outw (io bus) (base + 0x38) w d) = rx_memory bus d"
      "cbr (bus_outw (io bus) (base + 0x38) w d) = cbr d"
begin

lemma wait_transmit_keeps:
  "rtl_io_base st = base \<Longrightarrow> \<exists>d. wait_transmit bus n st = st\<lparr>dev := d\<rparr> \<and> wire d = wire (dev st) \<and> tx d = tx (dev st)"
proof (induction n arbitrary: st)
  case 0
  show ?case by (rule exI [of _ "dev st"]) simp
next
  case (Suc n)
  obtain v d where vd: "io_inl bus (base + 0x10) (dev st) = (v, d)" by (cases "io_inl bus (base + 0x10) (dev st)")
  have d: "wire d = wire (dev st)" "tx d = tx (dev st)" using tx_poll [of "dev st"] vd by simp_all
  from Suc.IH [of "st\<lparr>dev := d\<rparr>"] Suc.prems d show ?case
    by (auto simp: inl_def vd Let_def intro!: exI [of _ d])
qed

text \<open>Sending: the frame goes out, and nothing but the device changes.\<close>

lemma send:
  assumes "rtl_io_base st = base" and "rtl_initialized st \<noteq> 0"
    and "0 < len" and "unat len \<le> TX_BUF_SIZE" and "unat len \<le> length data"
  shows "\<exists>d. rtl8139_send_packet bus data len st = Inr (0, st\<lparr>dev := d\<rparr>) \<and> wire d = wire (dev st) @ [take (unat len) data]"
proof -
  let ?st = "st\<lparr>dev := tx_memory bus (take (unat len) data) (dev st)\<rparr>"
  obtain d where d: "wait_transmit bus 100000 ?st = ?st\<lparr>dev := d\<rparr>"
    "wire d = wire (dev st)" "tx d = tx (tx_memory bus (take (unat len) data) (dev st))"
    using wait_transmit_keeps [of ?st 100000] assms(1) by (auto simp: tx_store_wire)
  have "take (unat len) (tx d) = take (unat len) data"
    using tx_stored [of "take (unat len) data" "dev st"] assms(4,5) d(3) by simp
  moreover have "len \<noteq> 0" "\<not> TX_BUF_SIZE < unat len" "\<not> length data < unat len" using assms by auto
  ultimately show ?thesis
    using assms(1,2) d(1,2) tx_go [OF assms(4)] unfolding rtl8139_send_packet_def Let_def
    by (intro exI [of _ "io_outl bus (base + 0x10) (len OR 0x80000000) (io_outl bus (base + 0x20) (tx_address bus) d)"])
      (simp add: outl_def tx_addr)
qed

end

section \<open>The receive ring\<close>

lemma unat_ucast_u32 [simp]: "unat (ucast (x :: u16) :: u32) = unat x"
proof -
  have "unat x < 2 ^ LENGTH(16)" by (rule unsigned_less)
  then show ?thesis by (simp add: unsigned_ucast_eq take_bit_nat_eq_self)
qed

text \<open>
  Frames as the card lays them out in its ring of 8192 bytes, from offset \<open>off\<close> up to \<open>stop\<close>: a
  four-byte header with the length (which counts a four-byte checksum behind the frame), the frame, the
  checksum, alignment to four. The position of the next frame is taken modulo the size of the ring; in
  the mode the driver selects, a frame that meets the end of the ring is stored on behind it, where
  \<^verbatim>\<open>rx_buffer\<close> has 16 more bytes.
\<close>

definition ring_end :: "nat \<Rightarrow> nat \<Rightarrow> nat" where
  "ring_end off n = (off + (n + 4) + 7) div 4 * 4"

fun ring_holds :: "u8 list \<Rightarrow> nat \<Rightarrow> u8 list list \<Rightarrow> nat \<Rightarrow> bool" where
  "ring_holds rx off [] stop \<longleftrightarrow> off = stop"
| "ring_holds rx off (f # fs) stop \<longleftrightarrow> off \<noteq> stop \<and> off < RX_BUF_SIZE \<and> off + 4 + length f \<le> RX_BUF_SIZE + 16 \<and>
     le16_at rx (off + 2) = of_nat (length f + 4) \<and> take (length f) (drop (off + 4) rx) = f \<and>
     ring_holds rx (ring_end off (length f) mod RX_BUF_SIZE) fs stop"

text \<open>No frame of the sequence runs past the end of the ring; one may end exactly there.\<close>

fun ring_uncut :: "nat \<Rightarrow> u8 list list \<Rightarrow> bool" where
  "ring_uncut off [] \<longleftrightarrow> True"
| "ring_uncut off (f # fs) \<longleftrightarrow> ring_end off (length f) \<le> RX_BUF_SIZE \<and> ring_uncut (ring_end off (length f) mod RX_BUF_SIZE) fs"

text \<open>Where the driver looks for the next frame.\<close>

definition driver_next :: "nat \<Rightarrow> nat \<Rightarrow> nat" where
  "driver_next off n = (if ring_end off n \<ge> RX_BUF_SIZE then 0 else ring_end off n)"

lemma driver_next_uncut: "ring_end off n \<le> RX_BUF_SIZE \<Longrightarrow> driver_next off n = ring_end off n mod RX_BUF_SIZE"
  by (cases "ring_end off n = RX_BUF_SIZE") (simp_all add: driver_next_def)

lemma driver_next_cut:
  "RX_BUF_SIZE < ring_end off n \<Longrightarrow> off < RX_BUF_SIZE \<Longrightarrow> n \<le> 2048 \<Longrightarrow>
   driver_next off n = 0 \<and> ring_end off n mod RX_BUF_SIZE = ring_end off n - RX_BUF_SIZE \<and> 0 < ring_end off n - RX_BUF_SIZE"
  by (simp add: driver_next_def ring_end_def RX_BUF_SIZE_def le_mod_geq)

fun receive_all :: "'d nicbus \<Rightarrow> nat \<Rightarrow> u8 list \<Rightarrow> ('d, 'a) nic_scheme \<Rightarrow> (u8 list list \<times> ('d, 'a) nic_scheme) result" where
  "receive_all bus 0 buffer st = Inr ([], st)"
| "receive_all bus (Suc n) buffer st =
     bind_result (rtl8139_receive_packet bus buffer (of_nat (length buffer)) st) (\<lambda>(len, buffer, st).
     bind_result (receive_all bus n buffer st) (\<lambda>(fs, st). Inr (take (nat len) buffer # fs, st)))"

lemma driver_next_bounded: "driver_next off n < RX_BUF_SIZE"
  by (simp add: driver_next_def RX_BUF_SIZE_def)

context nic_card
begin

lemma receive_one:
  assumes st: "rtl_io_base st = base" "rtl_initialized st \<noteq> 0"
    and f: "ring_holds (rx_memory bus (dev st)) (unat (rx_offset st)) (f # fs) (unat (cbr (dev st)))"
    and b: "length f \<le> length buffer" "0 < length buffer" "length buffer \<le> 2048" and n: "f \<noteq> []"
  shows "\<exists>d. rtl8139_receive_packet bus buffer (of_nat (length buffer)) st =
      Inr (int (length f), blit buffer 0 f, st\<lparr>rx_offset := of_nat (driver_next (unat (rx_offset st)) (length f)), dev := d\<rparr>) \<and>
    rx_memory bus d = rx_memory bus (dev st) \<and> cbr d = cbr (dev st)"
proof -
  let ?rx = "rx_memory bus (dev st)" and ?off = "unat (rx_offset st)"
  from f have r: "?off \<noteq> unat (cbr (dev st))" "?off < RX_BUF_SIZE" "?off + 4 + length f \<le> RX_BUF_SIZE + 16"
    "le16_at ?rx (?off + 2) = of_nat (length f + 4)" "take (length f) (drop (?off + 4) ?rx) = f" by auto
  have mu: "unat (of_nat (length buffer) :: u32) = length buffer" using b by (simp add: unat_of_nat)
  then have ml: "(of_nat (length buffer) :: u32) \<noteq> 0" "unat (of_nat (length buffer) :: u32) = length buffer"
    using b(2) by (metis unat_0 less_irrefl, simp)
  define p where "p = (of_nat (length f + 4) :: u16)"
  have up: "unat p = length f + 4" using b unfolding p_def unat_of_nat by simp
  then have p4: "\<not> p < 4" by (simp add: word_less_nat_alt)
  have fl: "unat (p - 4) = length f" using up p4 by (simp add: unat_sub)
  have ge: "\<not> (ucast (p - 4) :: u32) > of_nat (length buffer)"
    using b ml(2) fl by (simp add: word_less_nat_alt unat_ucast_u32)
  have "uint (rx_offset st) = int ?off" "uint p = int (length f + 4)" using up unfolding uint_nat by simp_all
  then have "(uint (rx_offset st) + uint p + 4 + 3) div 4 * 4 = int ((?off + (length f + 4) + 7) div 4 * 4)"
    by (simp add: zdiv_int)
  then have nx: "(of_int ((uint (rx_offset st) + uint p + 4 + 3) div 4 * 4) :: u16) = of_nat ((?off + (length f + 4) + 7) div 4 * 4)"
    by (metis of_int_of_nat_eq)
  have "(?off + (length f + 4) + 7) div 4 * 4 < 2 ^ 16" using r(2) b by (simp add: RX_BUF_SIZE_def)
  then have un: "unat (of_nat ((?off + (length f + 4) + 7) div 4 * 4) :: u16) = (?off + (length f + 4) + 7) div 4 * 4"
    unfolding unat_of_nat by (intro mod_less) simp
  have nxt: "(if unat (of_nat ((?off + (length f + 4) + 7) div 4 * 4) :: u16) \<ge> RX_BUF_SIZE then 0
      else (of_nat ((?off + (length f + 4) + 7) div 4 * 4) :: u16)) = of_nat (driver_next ?off (length f))"
    unfolding un driver_next_def ring_end_def by simp
  have i: "inw (io bus) (base + 0x3A) st = (cbr (dev st), st)" by (simp add: inw_def rx_cbr)
  have c: "cbr (dev st) \<noteq> rx_offset st" using r(1) by auto
  have len: "\<not> length ?rx < ?off + 4" "\<not> length ?rx < ?off + 4 + length f" using r(3) by (simp_all add: rx_size)
  have uf: "uint (p - 4) = int (length f)" using fl by (simp add: uint_nat)
  show ?thesis
    unfolding rtl8139_receive_packet_def Let_def st(1) i prod.case r(4) p_def [symmetric] if_not_P [OF ge] fl nx nxt uf
    using st ml(1) c len p4 b r(5)
    by (intro exI [of _ "bus_outw (io bus) (base + 0x38) (of_nat (driver_next ?off (length f)) - 0x10) (dev st)"])
      (simp add: outw_def st(1) rx_ack)
qed

lemma receive_all_in_order:
  assumes "rtl_io_base st = base" and "rtl_initialized st \<noteq> 0"
    and "ring_holds (rx_memory bus (dev st)) (unat (rx_offset st)) fs (unat (cbr (dev st)))"
    and "ring_uncut (unat (rx_offset st)) fs"
    and "\<forall>f\<in>set fs. f \<noteq> [] \<and> length f \<le> length buffer" and "0 < length buffer" and "length buffer \<le> 2048"
  shows "\<exists>st'. receive_all bus (length fs) buffer st = Inr (fs, st') \<and> fst (rtl8139_packet_available bus st') = 0"
  using assms
proof (induction fs arbitrary: st buffer)
  case Nil
  then have "rx_offset st = cbr (dev st)" by (simp add: word_unat_eq_iff)
  then show ?case using Nil by (simp add: rtl8139_packet_available_def inw_def rx_cbr yn_def)
next
  case (Cons f fs)
  let ?off = "driver_next (unat (rx_offset st)) (length f)"
  obtain d where d: "rtl8139_receive_packet bus buffer (of_nat (length buffer)) st =
      Inr (int (length f), blit buffer 0 f, st\<lparr>rx_offset := of_nat ?off, dev := d\<rparr>)"
    "rx_memory bus d = rx_memory bus (dev st)" "cbr d = cbr (dev st)"
    using receive_one [OF Cons.prems(1,2,3)] Cons.prems by auto
  have off: "unat (of_nat ?off :: u16) = ?off"
    using driver_next_bounded [of "unat (rx_offset st)" "length f"] by (simp add: unat_of_nat RX_BUF_SIZE_def)
  have uncut: "?off = ring_end (unat (rx_offset st)) (length f) mod RX_BUF_SIZE" using Cons.prems(4) by (simp add: driver_next_uncut)
  let ?st = "st\<lparr>rx_offset := of_nat ?off, dev := d\<rparr>"
  have "\<exists>st'. receive_all bus (length fs) (blit buffer 0 f) ?st = Inr (fs, st') \<and> fst (rtl8139_packet_available bus st') = 0"
    by (rule Cons.IH) (use Cons.prems d off uncut in auto)
  then obtain st' where "receive_all bus (length fs) (blit buffer 0 f) ?st = Inr (fs, st')" "fst (rtl8139_packet_available bus st') = 0" by blast
  moreover have "take (length f) (blit buffer 0 f) = f" using Cons.prems by (simp add: blit_0)
  ultimately show ?case using d(1) by simp
qed

end

section \<open>A simulated card\<close>

record simcard =
  sim_tx :: "u8 list"
  sim_wire :: "u8 list list"
  sim_rx :: "u8 list"
  sim_cbr :: u16

definition sim_rx_memory :: "simcard \<Rightarrow> u8 list" where
  "sim_rx_memory d = take 8208 (sim_rx d @ replicate 8208 0)"

definition sim_nic :: "simcard nicbus" where
  "sim_nic = \<lparr>
     io = \<lparr>bus_inb = \<lambda>_ d. (0, d), bus_outb = \<lambda>_ _ d. d,
           bus_inw = \<lambda>port d. (if port = 0xC03A then sim_cbr d else 0, d), bus_outw = \<lambda>_ _ d. d\<rparr>,
     io_inl = \<lambda>_ d. (0, d),
     io_outl = \<lambda>port v d. if port = 0xC010 then d\<lparr>sim_wire := sim_wire d @ [take (unat (v AND 0x1FFF)) (sim_tx d)]\<rparr> else d,
     rx_memory = sim_rx_memory, rx_fill = \<lambda>b d. d\<lparr>sim_rx := replicate 8208 b\<rparr>,
     tx_memory = \<lambda>data d. d\<lparr>sim_tx := data @ drop (length data) (sim_tx d)\<rparr>,
     rx_address = 0x200000, tx_address = 0x203000\<rparr>"

lemma length_masked: "unat len \<le> 1536 \<Longrightarrow> (len OR 0x80000000) AND 0x1FFF = (len :: u32)"
proof -
  assume "unat len \<le> 1536"
  then have l: "take_bit 13 len = len" by (simp add: take_bit_eq_mod word_unat_eq_iff unat_mod)
  have "0x1FFF = (mask 13 :: u32)" by (simp add: mask_eq_exp_minus_1)
  then have "(len OR 0x80000000) AND 0x1FFF = take_bit 13 len OR take_bit 13 0x80000000" by (simp add: take_bit_eq_mask bit.conj_disj_distrib2)
  then show ?thesis using l by simp
qed

interpretation sim: nic_card sim_nic "0xC000" sim_wire sim_tx sim_cbr
  by unfold_locales (auto simp: sim_nic_def sim_rx_memory_def TX_BUF_SIZE_def RX_BUF_SIZE_def length_masked)

definition sim_nic_state :: "u8 list \<Rightarrow> u16 \<Rightarrow> u16 \<Rightarrow> simcard nic" where
  "sim_nic_state rx stop off = \<lparr>out = [], dev = \<lparr>sim_tx = [], sim_wire = [], sim_rx = rx, sim_cbr = stop\<rparr>, ata_present = 0,
     files = [], current_dir = 0, ticks = 0, tick_rate = 100, rtl_io_base = 0xC000, rtl_mac = [2, 0, 0, 0, 0, 1],
     rtl_initialized = 1, rx_offset = off\<rparr>"

section \<open>Properties\<close>

text \<open>
  C19. Receiving: when the ring holds a sequence of frames from the driver's read position up to the
  card's write position, none of which runs past the end of the ring, as many calls of
  \<^verbatim>\<open>rtl8139_receive_packet\<close> return exactly these frames in order, the return to the start of the ring
  after a frame that ends exactly at its end included, and then no packet is available.
\<close>

theorem nic_receives_in_order:
  assumes "nic_card bus iob wire tx cbr" and "rtl_io_base st = iob" and "rtl_initialized st \<noteq> 0"
    and "ring_holds (rx_memory bus (dev st)) (unat (rx_offset st)) fs (unat (cbr (dev st)))"
    and "ring_uncut (unat (rx_offset st)) fs"
    and "\<forall>f\<in>set fs. f \<noteq> [] \<and> length f \<le> length buffer" and "0 < length buffer" and "length buffer \<le> 2048"
  shows "\<exists>st'. receive_all bus (length fs) buffer st = Inr (fs, st') \<and> fst (rtl8139_packet_available bus st') = 0"
  by (rule nic_card.receive_all_in_order [OF assms])

definition two_frames :: "u8 list" where
  "two_frames = [1, 0, 5, 0, 0xCC, 9, 9, 9, 9, 0, 0, 0] @ replicate 8168 0 @ [1, 0, 6, 0, 0xAA, 0xBB, 9, 9, 9, 9, 0, 0]"

lemma two_frames_ring:
  "ring_holds (take 8208 (two_frames @ replicate 8208 0)) 8180 [[0xAA, 0xBB], [0xCC]] 12"
  "ring_uncut 8180 [[0xAA, 0xBB], [0xCC]]"
proof -
  have nx: "ring_end 8180 (length [0xAA, 0xBB :: u8]) = 8192" "ring_end 0 (length [0xCC :: u8]) = 12" by (simp_all add: ring_end_def)
  then show "ring_uncut 8180 [[0xAA, 0xBB], [0xCC]]" by (simp add: RX_BUF_SIZE_def)
  have "ring_end 8180 (length [0xAA, 0xBB :: u8]) mod RX_BUF_SIZE = 0" "ring_end 0 (length [0xCC :: u8]) mod RX_BUF_SIZE = 12"
    by (simp_all only: nx) (simp_all add: RX_BUF_SIZE_def)
  then show "ring_holds (take 8208 (two_frames @ replicate 8208 0)) 8180 [[0xAA, 0xBB], [0xCC]] 12"
    by (simp add: two_frames_def le16_at_def RX_BUF_SIZE_def nth_append)
qed

theorem nic_receives_in_order_witness:
  "\<exists>st'. receive_all sim_nic 2 (replicate 16 0) (sim_nic_state two_frames 12 8180) = Inr ([[0xAA, 0xBB], [0xCC]], st') \<and>
     fst (rtl8139_packet_available sim_nic st') = 0"
proof -
  let ?st = "sim_nic_state two_frames 12 8180"
  have "ring_holds (rx_memory sim_nic (dev ?st)) (unat (rx_offset ?st)) [[0xAA, 0xBB], [0xCC]] (unat (sim_cbr (dev ?st)))"
    using two_frames_ring(1) by (simp add: sim_nic_state_def sim_nic_def sim_rx_memory_def)
  moreover have "ring_uncut (unat (rx_offset ?st)) [[0xAA, 0xBB], [0xCC]]" using two_frames_ring(2) by (simp add: sim_nic_state_def)
  moreover have "rtl_io_base ?st = 0xC000" "rtl_initialized ?st \<noteq> 0" by (simp_all add: sim_nic_state_def)
  ultimately have "\<exists>st'. receive_all sim_nic (length [[0xAA, 0xBB :: u8], [0xCC]]) (replicate 16 0) ?st = Inr ([[0xAA, 0xBB], [0xCC]], st') \<and>
      fst (rtl8139_packet_available sim_nic st') = 0"
    by (intro nic_receives_in_order [OF sim.nic_card_axioms]) simp_all
  then show ?thesis unfolding list.size by (simp add: numeral_2_eq_2)
qed

text \<open>
  A frame that runs past the end of the ring, as far as the 16 spare bytes take it, is still returned,
  but then the driver looks for the next frame at offset 0 while the card writes it behind the end of
  this one, modulo 8192: the two are out of step.
\<close>

lemma ring_end_out_of_step:
  assumes "nic_card bus iob wire tx cbr" and "rtl_io_base st = iob" and "rtl_initialized st \<noteq> 0"
    and holds: "ring_holds (rx_memory bus (dev st)) (unat (rx_offset st)) (f # fs) (unat (cbr (dev st)))"
    and "length f \<le> length buffer" and "0 < length buffer" and "length buffer \<le> 2048" and "f \<noteq> []"
    and cut: "RX_BUF_SIZE < ring_end (unat (rx_offset st)) (length f)"
  shows "\<exists>st'. rtl8139_receive_packet bus buffer (of_nat (length buffer)) st = Inr (int (length f), blit buffer 0 f, st') \<and>
    rx_offset st' = 0 \<and> 0 < ring_end (unat (rx_offset st)) (length f) mod RX_BUF_SIZE"
proof -
  have "driver_next (unat (rx_offset st)) (length f) = 0" "0 < ring_end (unat (rx_offset st)) (length f) mod RX_BUF_SIZE"
    using driver_next_cut [OF cut] holds assms(5,7) by auto
  then show ?thesis using nic_card.receive_one [OF assms(1-3) holds assms(5-8)] by auto
qed

text \<open>
  A frame that starts in the last part of the ring continues behind it (the card is in its
  no-wrap mode), but \<^verbatim>\<open>rx_buffer\<close> has only 16 bytes there: the copy leaves the array.
\<close>

lemma ring_end_overrun:
  assumes "nic_card bus iob wire tx cbr" and "rtl_io_base st = iob" and "rtl_initialized st \<noteq> 0"
    and "cbr (dev st) \<noteq> rx_offset st" and "unat (rx_offset st) + 4 \<le> 8208"
    and "le16_at (rx_memory bus (dev st)) (unat (rx_offset st) + 2) = p" and "\<not> p < 4" and "unat p - 4 \<le> 2048"
    and "8208 < unat (rx_offset st) + unat p"
  shows "rtl8139_receive_packet bus buffer 2048 st = Inl OutOfBounds"
proof -
  have len: "length (rx_memory bus (dev st)) = 8208" using nic_card.rx_size [OF assms(1)] by (simp add: RX_BUF_SIZE_def)
  have u: "unat (p - 4) = unat p - 4" using assms(7) by (simp add: unat_sub)
  then have m: "\<not> (ucast (p - 4) :: u32) > 2048" using assms(8) by (simp add: word_less_nat_alt unat_ucast_u32)
  have i: "inw (io bus) (iob + 0x3A) st = (cbr (dev st), st)"
    using nic_card.rx_cbr [OF assms(1)] by (simp add: inw_def)
  show ?thesis
    unfolding rtl8139_receive_packet_def Let_def assms(2) i prod.case assms(6) if_not_P [OF m] u len
    using assms by simp
qed

end
