(* ===== verification/Net.thy ===== *)
theory Net
  imports Nic Libc
begin

text \<open>
  The network stack of \<^verbatim>\<open>src/net.c\<close>: addresses, the Internet checksum, the ARP cache and protocol,
  ICMP echo, and the state of the HTTP client. Packets are byte arrays; a field of a packed header
  structure is read and written at its offset, little endian, as the C code does without any
  conversion to network byte order. A local packet array is uninitialised, so its old contents are
  an argument (\<open>junk\<close>). Shown here: a header with its checksum filled in verifies, address text reads back,
  the ARP cache is a bounded map and an ARP exchange between two hosts teaches each the other's
  address, an echo request is answered, and a request with a crafted length field overruns the
  reply buffer.
\<close>

section \<open>Header fields\<close>

definition put16 :: "u8 list \<Rightarrow> nat \<Rightarrow> u16 \<Rightarrow> u8 list" where
  "put16 p i v = blit p i [ucast v, ucast (drop_bit 8 v)]"

definition put32 :: "u8 list \<Rightarrow> nat \<Rightarrow> u32 \<Rightarrow> u8 list" where
  "put32 p i v = blit p i [ucast v, ucast (drop_bit 8 v), ucast (drop_bit 16 v), ucast (drop_bit 24 v)]"

definition le32_at :: "u8 list \<Rightarrow> nat \<Rightarrow> u32" where
  "le32_at p i = ucast (p ! i) OR push_bit 8 (ucast (p ! (i + 1))) OR push_bit 16 (ucast (p ! (i + 2))) OR push_bit 24 (ucast (p ! (i + 3)))"

section \<open>Checksum and addresses\<close>

fun sum_words :: "u8 list \<Rightarrow> nat \<Rightarrow> nat \<Rightarrow> u32 \<Rightarrow> u32" where
  "sum_words data i 0 acc = acc"
| "sum_words data i (Suc k) acc = sum_words data (Suc i) k (acc + ucast (le16_at data (2 * i)))"

function fold_carry :: "u32 \<Rightarrow> u32" where
  "fold_carry acc = (if drop_bit 16 acc \<noteq> 0 then fold_carry ((acc AND 0xFFFF) + drop_bit 16 acc) else acc)"
  by pat_completeness auto

lemma carry_nat:
  "unat ((acc AND 0xFFFF) + drop_bit 16 acc :: u32) = unat acc mod 65536 + unat acc div 65536"
  "drop_bit 16 acc \<noteq> 0 \<longleftrightarrow> 65536 \<le> unat acc"
proof -
  have m: "0xFFFF = (mask 16 :: u32)" by (simp add: mask_eq_exp_minus_1)
  have a: "unat (acc AND 0xFFFF) = unat acc mod 65536"
    unfolding m take_bit_eq_mask [symmetric] by (simp add: take_bit_eq_mod unat_mod)
  have b: "unat (drop_bit 16 acc) = unat acc div 65536" by (simp add: drop_bit_eq_div unat_div)
  have "unat acc < 2 ^ LENGTH(32)" by (rule unsigned_less)
  then have "unat acc mod 65536 + unat acc div 65536 < 2 ^ 32" by (simp add: less_mult_imp_div_less trans_less_add1)
  then show "unat ((acc AND 0xFFFF) + drop_bit 16 acc) = unat acc mod 65536 + unat acc div 65536"
    by (simp add: unat_word_ariths a b)
  show "drop_bit 16 acc \<noteq> 0 \<longleftrightarrow> 65536 \<le> unat acc" using b by (simp add: word_unat_eq_iff div_greater_zero_iff)
qed

lemma carry_less: "65536 \<le> (n :: nat) \<Longrightarrow> n mod 65536 + n div 65536 < n"
proof -
  assume "65536 \<le> n"
  then have "1 \<le> n div 65536" by simp
  moreover have "n = n div 65536 * 65536 + n mod 65536" by simp
  ultimately show ?thesis by linarith
qed

termination fold_carry
  by (relation "measure unat") (auto simp: carry_nat carry_less)

declare fold_carry.simps [simp del]

text \<open>
  \<^verbatim>\<open>data\<close> is the memory from the pointer on. For an odd length the last 16-bit read takes one byte
  more than \<^verbatim>\<open>len\<close>.
\<close>

definition net_checksum :: "u8 list \<Rightarrow> u32 \<Rightarrow> u16 result" where
  "net_checksum data len =
     (let n = unat len in
      if length data < n + n mod 2 then Inl OutOfBounds
      else let acc = sum_words data 0 (n div 2) 0;
               acc = (if odd n then acc + ucast (le16_at data (2 * (n div 2)) AND 0xFF) else acc)
        in Inr (ucast (NOT (fold_carry acc))))"

definition ip_addr_to_str :: "u32 \<Rightarrow> char list \<Rightarrow> char list result" where
  "ip_addr_to_str ip buf =
     bind_result (snprintf buf 16 ''%d.%d.%d.%d''
       [ArgInt (uint (drop_bit 24 ip AND 0xFF)), ArgInt (uint (drop_bit 16 ip AND 0xFF)),
        ArgInt (uint (drop_bit 8 ip AND 0xFF)), ArgInt (uint (ip AND 0xFF))]) (\<lambda>(n, buf). Inr buf)"

text \<open>
  The scanning loop of \<^verbatim>\<open>ip_str_to_addr\<close>. A shift by a negative amount, after more than four
  dots, is undefined.
\<close>

fun ip_scan :: "string \<Rightarrow> u32 \<Rightarrow> u32 \<Rightarrow> int \<Rightarrow> u32 result" where
  "ip_scan [] ip octet shift = Inr (ip OR octet)"
| "ip_scan (c # str) ip octet shift =
     (if 48 \<le> schar c \<and> schar c \<le> 57 then ip_scan str ip (octet * 10 + of_int (schar c - 48)) shift
      else if c = CHR ''.'' then
        (if shift < 0 then Inl BadArgument
         else ip_scan str (ip OR push_bit (nat shift) octet) 0 (shift - 8))
      else ip_scan str ip octet shift)"

definition ip_str_to_addr :: "string \<Rightarrow> u32 result" where
  "ip_str_to_addr ip_str = ip_scan ip_str 0 0 24"

section \<open>State\<close>

record arp_entry =
  ae_ip :: u32
  ae_mac :: "u8 list"
  ae_valid :: int

record 'd net = "'d nic" +
  arp_cache :: "arp_entry list"
  arp_cache_count :: nat
  our_mac :: "u8 list"
  our_ip :: u32
  gateway_ip :: u32
  subnet_mask :: u32
  dns_server :: u32
  dhcp_configured :: int
  http_response :: "char list"
  http_response_len :: int
  http_response_ready :: int
  http_open :: int
  http_connecting :: int

definition is_local_network :: "u32 \<Rightarrow> ('d, 'a) net_scheme \<Rightarrow> int" where
  "is_local_network ip st = yn (ip AND subnet_mask st = our_ip st AND subnet_mask st)"

definition print_ip :: "u32 \<Rightarrow> 'a console_scheme \<Rightarrow> 'a console_scheme result" where
  "print_ip ip st = bind_result (ip_addr_to_str ip (replicate 16 NUL)) (\<lambda>buf. Inr (emit (cstr buf) st))"

text \<open>Filling the entry at an index of the cache; the array has 16 elements.\<close>

definition set_entry :: "nat \<Rightarrow> u32 \<Rightarrow> u8 list \<Rightarrow> ('d, 'a) net_scheme \<Rightarrow> ('d, 'a) net_scheme" where
  "set_entry i ip mac st = st\<lparr>arp_cache := (arp_cache st)[i := \<lparr>ae_ip = ip, ae_mac = take 6 mac, ae_valid = 1\<rparr>]\<rparr>"

definition net_set_static_ip :: "string \<Rightarrow> string \<Rightarrow> string \<Rightarrow> ('d, 'a) net_scheme \<Rightarrow> ('d, 'a) net_scheme result" where
  "net_set_static_ip ip gateway netmask st =
     bind_result (ip_str_to_addr ip) (\<lambda>a. bind_result (ip_str_to_addr gateway) (\<lambda>g. bind_result (ip_str_to_addr netmask) (\<lambda>m.
       let st = st\<lparr>our_ip := a, gateway_ip := g, subnet_mask := m, dhcp_configured := 1\<rparr>;
           st = set_entry 0 (our_ip st) (our_mac st) st;
           st = st\<lparr>arp_cache_count := 1\<rparr>
       in bind_result (print_ip (our_ip st) (emit ''Static IP set to: '' st)) (\<lambda>st.
          bind_result (print_ip (gateway_ip st) (emit ([NL] @ ''Gateway: '') st)) (\<lambda>st. Inr (emit [NL] st))))))"

text \<open>The search loop over the first \<^verbatim>\<open>arp_cache_count\<close> entries, shared by all users of the cache.\<close>

fun arp_find :: "u32 \<Rightarrow> arp_entry list \<Rightarrow> nat option" where
  "arp_find ip [] = None"
| "arp_find ip (e # es) = (if tt (ae_valid e) \<and> ae_ip e = ip then Some 0 else map_option Suc (arp_find ip es))"

definition arp_index :: "u32 \<Rightarrow> ('d, 'a) net_scheme \<Rightarrow> nat option" where
  "arp_index ip st = arp_find ip (take (arp_cache_count st) (arp_cache st))"

definition arp_add_static :: "u32 \<Rightarrow> u8 list \<Rightarrow> ('d, 'a) net_scheme \<Rightarrow> ('d, 'a) net_scheme" where
  "arp_add_static ip mac st =
     (case arp_index ip st of
        Some i \<Rightarrow> st\<lparr>arp_cache := (arp_cache st)[i := (arp_cache st ! i)\<lparr>ae_mac := take 6 mac\<rparr>]\<rparr>
      | None \<Rightarrow> if arp_cache_count st < 16
                then let st = set_entry (arp_cache_count st) ip mac st in st\<lparr>arp_cache_count := arp_cache_count st + 1\<rparr>
                else st)"

definition arp_lookup :: "u32 \<Rightarrow> ('d, 'a) net_scheme \<Rightarrow> u8 list option" where
  "arp_lookup ip st = map_option (\<lambda>i. ae_mac (arp_cache st ! i)) (arp_index ip st)"

definition net_init :: "'d nicbus \<Rightarrow> ('d, 'a) net_scheme \<Rightarrow> ('d, 'a) net_scheme result" where
  "net_init bus st =
     bind_result (rtl8139_init bus st) (\<lambda>st.
       let st = st\<lparr>our_mac := rtl8139_get_mac st\<rparr>;
           st = st\<lparr>arp_cache := map (\<lambda>e. e\<lparr>ae_valid := 0, ae_ip := 0\<rparr>) (arp_cache st), arp_cache_count := 0\<rparr>
       in bind_result (ip_str_to_addr ''10.0.2.15'') (\<lambda>a. bind_result (ip_str_to_addr ''10.0.2.2'') (\<lambda>g.
          bind_result (ip_str_to_addr ''255.255.255.0'') (\<lambda>m. bind_result (ip_str_to_addr ''8.8.8.8'') (\<lambda>s.
          let st = st\<lparr>our_ip := a, gateway_ip := g, subnet_mask := m, dns_server := s\<rparr>;
              st = set_entry 0 (our_ip st) (our_mac st) st;
              st = st\<lparr>arp_cache_count := 1\<rparr>;
              gateway_mac = [0x52, 0x54, 0x00, 0x12, 0x34, 0x56];
              st = set_entry (arp_cache_count st) (gateway_ip st) gateway_mac st;
              st = st\<lparr>arp_cache_count := arp_cache_count st + 1\<rparr>
          in bind_result (print_ip (our_ip st) (emit ''IP: '' st)) (\<lambda>st.
             bind_result (print_ip (gateway_ip st) (emit ([NL] @ ''Gateway: '') st)) (\<lambda>st.
             bind_result (print_mac (our_mac st) (emit ([NL] @ ''MAC: '') st)) (\<lambda>st.
             Inr (emit ([NL] @ ''Network stack ready.'' @ [NL]) st)))))))))"

definition net_send_packet :: "'d nicbus \<Rightarrow> u8 list \<Rightarrow> u32 \<Rightarrow> ('d, 'a) net_scheme \<Rightarrow> ('d, 'a) net_scheme result" where
  "net_send_packet bus data len st = bind_result (rtl8139_send_packet bus data len st) (\<lambda>(r, st). Inr st)"

section \<open>ARP\<close>

definition eth_header :: "u8 list \<Rightarrow> u8 list \<Rightarrow> u8 list \<Rightarrow> u16 \<Rightarrow> u8 list" where
  "eth_header p dest src ethertype = put16 (blit (blit p 0 (take 6 dest)) 6 (take 6 src)) 12 ethertype"

definition arp_header :: "u8 list \<Rightarrow> u16 \<Rightarrow> u8 list \<Rightarrow> u32 \<Rightarrow> u8 list \<Rightarrow> u32 \<Rightarrow> u8 list" where
  "arp_header p opcode sender_mac sender_ip target_mac target_ip =
     (let p = put16 p 14 1;
          p = put16 p 16 0x0800;
          p = blit p 18 [6];
          p = blit p 19 [4];
          p = put16 p 20 opcode;
          p = blit p 22 (take 6 sender_mac);
          p = put32 p 28 sender_ip;
          p = blit p 32 (take 6 target_mac)
      in put32 p 38 target_ip)"

text \<open>\<open>junk\<close> is the old contents of the 64-byte local \<^verbatim>\<open>packet\<close>.\<close>

definition arp_send_request :: "'d nicbus \<Rightarrow> u8 list \<Rightarrow> u32 \<Rightarrow> ('d, 'a) net_scheme \<Rightarrow> ('d, 'a) net_scheme result" where
  "arp_send_request bus junk target_ip st =
     (let p = eth_header junk (replicate 6 0xFF) (our_mac st) 0x0806;
          p = arp_header p 1 (our_mac st) (our_ip st) (replicate 6 0) target_ip
      in net_send_packet bus p (14 + 28) st)"

definition arp_handle_packet :: "'d nicbus \<Rightarrow> u8 list \<Rightarrow> u8 list \<Rightarrow> nat \<Rightarrow> ('d, 'a) net_scheme \<Rightarrow> ('d, 'a) net_scheme result" where
  "arp_handle_packet bus junk packet len st =
     (if len < 14 + 28 then Inr st
      else if length packet < 14 + 28 then Inl OutOfBounds
      else let sender_ip = le32_at packet 28;
               target_ip = le32_at packet 38;
               opcode = le16_at packet 20;
               sender_mac = take 6 (drop 22 packet)
        in if sender_ip = gateway_ip st then Inr st
           else let st = arp_add_static sender_ip sender_mac st in
             if opcode = 1 \<and> target_ip = our_ip st
             then let p = eth_header junk sender_mac (our_mac st) 0x0806;
                      p = arp_header p 2 (our_mac st) (our_ip st) sender_mac sender_ip
                  in net_send_packet bus p (14 + 28) st
             else Inr st)"

section \<open>ICMP\<close>

text \<open>The IP header, written by three functions in the same way; \<open>n\<close> is the 32-bit \<^verbatim>\<open>total_len\<close>.\<close>

definition ip_header :: "u8 list \<Rightarrow> u32 \<Rightarrow> u32 \<Rightarrow> u32 \<Rightarrow> u8 list result" where
  "ip_header p n src dest =
     (let p = blit p 14 [0x45, 0];
          p = put16 p 16 (ucast n);
          p = put16 p 18 0x1234;
          p = put16 p 20 0;
          p = blit p 22 [64, 1];
          p = put32 p 26 src;
          p = put32 p 30 dest;
          p = put16 p 24 0
      in bind_result (net_checksum (drop 14 p) 20) (\<lambda>c. Inr (put16 p 24 c)))"

definition icmp_message :: "u8 list \<Rightarrow> u8 \<Rightarrow> u8 list \<Rightarrow> u32 \<Rightarrow> u8 list result" where
  "icmp_message p type data len =
     (let p = blit p 34 [type, 0];
          p = put16 p 36 0;
          p = blit p 42 data
      in bind_result (net_checksum (drop 34 p) len) (\<lambda>c. Inr (put16 p 36 c)))"

text \<open>
  \<^verbatim>\<open>data\<close> points into \<open>from\<close>, the memory behind the ICMP header of the received packet. The copy of
  \<^verbatim>\<open>len\<close> bytes leaves the 512-byte \<^verbatim>\<open>packet\<close> or the received array when \<^verbatim>\<open>len\<close> is too large.
\<close>

definition icmp_send_reply :: "'d nicbus \<Rightarrow> u8 list \<Rightarrow> u8 list \<Rightarrow> u32 \<Rightarrow> u8 list \<Rightarrow> u32 \<Rightarrow> ('d, 'a) net_scheme \<Rightarrow>
    ('d, 'a) net_scheme result" where
  "icmp_send_reply bus junk64 junk dest_ip from len st =
     (case arp_lookup dest_ip st of
        None \<Rightarrow> arp_send_request bus junk64 dest_ip st
      | Some dest_mac \<Rightarrow>
          let total_len = 20 + len in
          bind_result (ip_header (eth_header junk dest_mac (our_mac st) 0x0800) total_len (our_ip st) dest_ip) (\<lambda>p.
            if 0 < len \<and> (length p < 42 + unat len \<or> length from < unat len) then Inl OutOfBounds
            else bind_result (icmp_message p 0 (take (unat len) from) (len + 8)) (\<lambda>p.
              net_send_packet bus p (14 + total_len) st)))"

definition icmp_handle_packet :: "'d nicbus \<Rightarrow> u8 list \<Rightarrow> u8 list \<Rightarrow> u8 list \<Rightarrow> nat \<Rightarrow> ('d, 'a) net_scheme \<Rightarrow>
    ('d, 'a) net_scheme result" where
  "icmp_handle_packet bus junk64 junk packet len st =
     (if len < 14 + 20 + 8 then Inr st
      else if length packet < 14 + 20 + 8 then Inl OutOfBounds
      else if packet ! 23 = 1 \<and> packet ! 34 = 8 then
        let src_ip = le32_at packet 26 in
        bind_result (print_ip src_ip (emit ''Ping from '' st)) (\<lambda>st.
          let st = emit [NL] st;
              icmp_len = (ucast (le16_at packet 16) :: u32) - 20;
              data_len = icmp_len - 8
          in icmp_send_reply bus junk64 junk src_ip (drop 42 packet) data_len st)
      else Inr st)"

definition ip_handle_packet :: "'d nicbus \<Rightarrow> u8 list \<Rightarrow> u8 list \<Rightarrow> u8 list \<Rightarrow> nat \<Rightarrow> ('d, 'a) net_scheme \<Rightarrow>
    ('d, 'a) net_scheme result" where
  "ip_handle_packet bus junk64 junk packet len st =
     (if len < 14 + 20 then Inr st
      else if length packet < 14 + 20 then Inl OutOfBounds
      else if le32_at packet 30 \<noteq> our_ip st then Inr st
      else if packet ! 23 = 1 then icmp_handle_packet bus junk64 junk packet len st
      else Inr st)"

definition ping_data :: "u8 list" where
  "ping_data = map (\<lambda>i. of_nat (0x41 + i mod 26)) [0..<32]"

text \<open>An echo request frame with the 32 bytes of payload, as \<^verbatim>\<open>ping\<close> and the loopback test build it.\<close>

definition echo_request :: "u8 list \<Rightarrow> u8 list \<Rightarrow> u8 list \<Rightarrow> u32 \<Rightarrow> u32 \<Rightarrow> u8 list result" where
  "echo_request junk dest_mac src_mac src_ip dest_ip =
     bind_result (ip_header (eth_header junk dest_mac src_mac 0x0800) (20 + 8 + 32) src_ip dest_ip) (\<lambda>p.
       icmp_message p 8 ping_data (8 + 32))"

text \<open>
  \<^verbatim>\<open>ping\<close> sleeps when it has to ask for an address. The sleep advances the tick counter and
  nothing else: no interrupt handler of the kernel processes packets.
\<close>

definition ping :: "'d nicbus \<Rightarrow> u8 list \<Rightarrow> u8 list \<Rightarrow> bool list \<Rightarrow> u32 \<Rightarrow> ('d, 'a) net_scheme \<Rightarrow>
    (bool list \<times> ('d, 'a) net_scheme) result" where
  "ping bus junk64 junk irqs ip st =
     bind_result (print_ip ip (emit ''Pinging '' st)) (\<lambda>st.
       let st = emit (''...'' @ [NL]) st;
           target_for_mac = (if is_local_network ip st = 0 then gateway_ip st else ip);
           send = (\<lambda>dest_mac irqs st.
             bind_result (echo_request junk dest_mac (our_mac st) (our_ip st) ip) (\<lambda>p.
             bind_result (net_send_packet bus p (14 + (20 + 8 + 32)) st) (\<lambda>st. Inr (irqs, st))))
       in case arp_lookup target_for_mac st of
            Some dest_mac \<Rightarrow> send dest_mac irqs st
          | None \<Rightarrow>
              bind_result (arp_send_request bus junk64 target_for_mac st) (\<lambda>st.
                case timer_sleep 200 irqs st of
                  None \<Rightarrow> Inl NoEvent
                | Some (irqs, st) \<Rightarrow>
                    (case arp_lookup target_for_mac st of
                       None \<Rightarrow> Inr (irqs, st)
                     | Some dest_mac \<Rightarrow> send dest_mac irqs st)))"

definition net_handle_packet :: "'d nicbus \<Rightarrow> u8 list \<Rightarrow> u8 list \<Rightarrow> u8 list \<Rightarrow> ('d, 'a) net_scheme \<Rightarrow>
    ('d, 'a) net_scheme result" where
  "net_handle_packet bus junk64 junk packet st =
     (let (r, st) = rtl8139_packet_available bus st in
      if r = 0 then Inr st
      else bind_result (rtl8139_receive_packet bus packet 2048 st) (\<lambda>(len, packet, st).
        if len \<le> 0 then Inr st
        else let ethertype = le16_at packet 12 in
          if ethertype = 0x0806 then arp_handle_packet bus junk64 packet (nat len) st
          else if ethertype = 0x0800 then ip_handle_packet bus junk64 junk packet (nat len) st
          else Inr st))"

definition net_test_loopback :: "'d nicbus \<Rightarrow> u8 list \<Rightarrow> u8 list \<Rightarrow> u8 list \<Rightarrow> ('d, 'a) net_scheme \<Rightarrow>
    ('d, 'a) net_scheme result" where
  "net_test_loopback bus junk64 junk junk256 st =
     (let st = emit (''Testing network stack (internal loopback)...'' @ [NL]) st in
      case arp_lookup (our_ip st) st of
        None \<Rightarrow> Inr st
      | Some dest_mac \<Rightarrow>
          bind_result (echo_request junk256 (our_mac st) (our_mac st) (our_ip st) (our_ip st)) (\<lambda>packet.
          bind_result (ip_handle_packet bus junk64 junk packet (14 + (20 + 8 + 32)) st) (\<lambda>st.
            Inr (emit (''Loopback test complete.'' @ [NL]) st))))"

section \<open>Reading back header fields\<close>

lemma length_put [simp]: "length (put16 p i v) = length p" "length (put32 p i w) = length p"
  by (simp_all add: put16_def put32_def)

lemma nth_put16:
  "k < length p \<Longrightarrow> put16 p i v ! k = (if k = i then ucast v else if k = i + 1 then ucast (drop_bit 8 v) else p ! k)"
  by (auto simp: put16_def nth_blit nth_Cons' not_le)

lemma nth_put32:
  "k < length p \<Longrightarrow> put32 p i v ! k = (if k = i then ucast v else if k = i + 1 then ucast (drop_bit 8 v)
     else if k = i + 2 then ucast (drop_bit 16 v) else if k = i + 3 then ucast (drop_bit 24 v) else p ! k)"
  by (auto simp: put32_def nth_list_update numeral_2_eq_2 numeral_3_eq_3)

lemma le16_bytes: "(ucast (ucast v :: u8) OR push_bit 8 (ucast (ucast (drop_bit 8 v) :: u8)) :: u16) = v"
  by (rule bit_word_eqI) (auto simp: bit_simps)

lemma le32_bytes:
  "(ucast (ucast v :: u8) OR push_bit 8 (ucast (ucast (drop_bit 8 v) :: u8)) OR push_bit 16 (ucast (ucast (drop_bit 16 v) :: u8)) OR
    push_bit 24 (ucast (ucast (drop_bit 24 v) :: u8)) :: u32) = v"
proof (rule bit_word_eqI)
  fix n assume "n < LENGTH(32)"
  then consider "n < 8" | "8 \<le> n" "n < 16" | "16 \<le> n" "n < 24" | "24 \<le> n" "n < 32"
    by (cases "n < 8"; cases "n < 16"; cases "n < 24") auto
  then show "bit (ucast (ucast v :: u8) OR push_bit 8 (ucast (ucast (drop_bit 8 v) :: u8)) OR
      push_bit 16 (ucast (ucast (drop_bit 16 v) :: u8)) OR push_bit 24 (ucast (ucast (drop_bit 24 v) :: u8)) :: u32) n = bit v n"
    by cases (auto simp: bit_simps)
qed

lemma le16_put16: "i + 1 < length p \<Longrightarrow> le16_at (put16 p i v) i = v"
  by (simp add: le16_at_def nth_put16 le16_bytes)

lemma le32_put32: "i + 3 < length p \<Longrightarrow> le32_at (put32 p i v) i = v"
  by (simp add: le32_at_def nth_put32 le32_bytes)

section \<open>The checksum\<close>

lemma fold_carry_spec:
  "unat (fold_carry acc) < 65536 \<and> unat (fold_carry acc) mod 65535 = unat acc mod 65535 \<and> (unat (fold_carry acc) = 0 \<longleftrightarrow> unat acc = 0)"
proof (induction acc rule: fold_carry.induct)
  case (1 acc)
  let ?n = "(acc AND 0xFFFF) + drop_bit 16 acc"
  show ?case
  proof (cases "drop_bit 16 acc \<noteq> 0")
    case True
    then have big: "65536 \<le> unat acc" by (simp add: carry_nat)
    have "fold_carry acc = fold_carry ?n" using True by (subst fold_carry.simps) simp
    moreover have "unat acc = unat acc div 65536 * 65535 + unat ?n"
      unfolding carry_nat using mod_mult_div_eq [of "unat acc" 65536] by linarith
    then have "unat acc mod 65535 = unat ?n mod 65535" by (metis mod_mult_self3)
    moreover have "unat ?n \<noteq> 0" unfolding carry_nat using big by (auto simp: div_eq_0_iff)
    ultimately show ?thesis using 1 [OF True] big by auto
  next
    case False
    then have "unat acc < 65536" using carry_nat(2) [of acc] by linarith
    moreover have "fold_carry acc = acc" using False by (subst fold_carry.simps) simp
    ultimately show ?thesis by simp
  qed
qed

text \<open>The sum of the 16-bit words of the first \<open>n\<close> bytes, a last odd byte included.\<close>

definition word_sum :: "u8 list \<Rightarrow> nat \<Rightarrow> nat" where
  "word_sum data n = (\<Sum>j<n div 2. unat (le16_at data (2 * j))) + (if odd n then unat (data ! (n - 1)) else 0)"

lemma sum_words_nat:
  assumes "unat acc + k * 65535 < 2 ^ 32"
  shows "unat (sum_words data i k acc) = unat acc + (\<Sum>j<k. unat (le16_at data (2 * (i + j))))"
  using assms
proof (induction k arbitrary: i acc)
  case (Suc k)
  let ?w = "le16_at data (2 * i)"
  have w: "unat ?w < 2 ^ LENGTH(16)" by (rule unsigned_less)
  then have acc: "unat (acc + ucast ?w) = unat acc + unat ?w" using Suc.prems by (simp add: unat_word_ariths)
  then have "unat (acc + ucast ?w) + k * 65535 < 2 ^ 32" using w Suc.prems by simp
  from Suc.IH [OF this, of "Suc i"] acc
  show ?case by (simp add: sum.lessThan_Suc_shift algebra_simps del: sum.lessThan_Suc)
qed simp

lemma last_byte: "unat (ucast (le16_at data k AND 0xFF) :: u32) = unat (data ! k)"
proof -
  have m: "0xFF = (mask 8 :: u16)" by (simp add: mask_eq_exp_minus_1)
  have "le16_at data k AND 0xFF = ucast (data ! k)" unfolding m le16_at_def
    by (rule bit_word_eqI) (auto simp: bit_simps dest: bit_imp_le_length)
  moreover have "unat (data ! k) < 2 ^ LENGTH(8)" by (rule unsigned_less)
  then have "unat (ucast (data ! k) :: u16) = unat (data ! k)" by (simp add: unsigned_ucast_eq take_bit_nat_eq_self)
  ultimately show ?thesis by simp
qed

lemma ones_complement:
  assumes "unat f < 65536"
  shows "unat (ucast (NOT f :: u32) :: u16) = 65535 - unat f"
proof -
  have "(ucast (NOT f) :: u16) = NOT (ucast f)" by (rule bit_word_eqI) (auto simp: bit_simps)
  moreover have "unat (ucast f :: u16) = unat f" using assms by (simp add: unsigned_ucast_eq take_bit_nat_eq_self)
  moreover have "NOT x = - 1 - x" for x :: u16 by (simp add: not_eq_complement)
  moreover have "unat (- 1 :: u16) = 65535" by (simp add: unsigned_minus_1_eq_mask mask_eq_exp_minus_1)
  ultimately show ?thesis by (simp add: unat_sub)
qed

lemma net_checksum_sum:
  assumes "unat len + unat len mod 2 \<le> length data" and "unat len \<le> 65536"
  shows "\<exists>f :: u32. net_checksum data len = Inr (ucast (NOT f)) \<and> unat f < 65536 \<and>
    unat f mod 65535 = word_sum data (unat len) mod 65535 \<and> (unat f = 0 \<longleftrightarrow> word_sum data (unat len) = 0)"
proof -
  let ?n = "unat len"
  let ?acc = "sum_words data 0 (?n div 2) 0"
  let ?acc' = "if odd ?n then ?acc + ucast (le16_at data (2 * (?n div 2)) AND 0xFF) else ?acc"
  have words: "unat (le16_at data j) \<le> 65535" for j
    using unsigned_less [of "le16_at data j", where ?'a = nat] by simp
  have s: "unat ?acc = (\<Sum>j<?n div 2. unat (le16_at data (2 * j)))"
    using sum_words_nat [of 0 "?n div 2" data 0] assms(2) by simp
  have "(\<Sum>j<?n div 2. unat (le16_at data (2 * j))) \<le> ?n div 2 * 65535"
    using sum_bounded_above [of "{..<?n div 2}" "\<lambda>j. unat (le16_at data (2 * j))" 65535] words by simp
  then have small: "unat ?acc \<le> 32768 * 65535" using s assms(2) by linarith
  have "unat ?acc' = word_sum data ?n"
  proof (cases "odd ?n")
    case True
    have "unat (data ! (?n - 1)) < 2 ^ LENGTH(8)" by (rule unsigned_less)
    moreover have "2 * (?n div 2) = ?n - 1" using True by (metis minus_mod_eq_mult_div odd_iff_mod_2_eq_one)
    ultimately show ?thesis using True small s last_byte [of data "?n - 1"] by (simp add: word_sum_def unat_word_ariths)
  qed (simp add: word_sum_def s)
  moreover have "net_checksum data len = Inr (ucast (NOT (fold_carry ?acc')))"
    using assms(1) by (simp add: net_checksum_def Let_def)
  ultimately show ?thesis using fold_carry_spec [of ?acc'] by (intro exI [of _ "fold_carry ?acc'"]) simp
qed

lemma word_sum_put16:
  assumes "even k" and "k + 1 < n" and "n \<le> length p"
  shows "word_sum (put16 p k v) n = word_sum (put16 p k 0) n + unat v"
proof -
  obtain m where m: "k = 2 * m" using assms(1) by (elim evenE)
  have in_range: "m < n div 2" using assms(2) m by linarith
  have same: "le16_at (put16 p k v) (2 * j) = le16_at (put16 p k 0) (2 * j)" if "j < n div 2" "j \<noteq> m" for j
  proof -
    have "2 * j + 1 < length p" using that(1) assms(3) by linarith
    moreover have "2 * j \<noteq> k" "2 * j \<noteq> k + 1" "2 * j + 1 \<noteq> k" "2 * j + 1 \<noteq> k + 1" using that m by presburger+
    ultimately show ?thesis by (simp add: le16_at_def nth_put16)
  qed
  have here: "le16_at (put16 p k w) (2 * m) = w" for w using assms m by (simp add: le16_put16)
  have "(\<Sum>j<n div 2. unat (le16_at (put16 p k w) (2 * j))) = unat w + (\<Sum>j\<in>{..<n div 2} - {m}. unat (le16_at (put16 p k w) (2 * j)))" for w
    using in_range by (subst sum.remove [of _ m]) (simp_all add: here)
  moreover have "(\<Sum>j\<in>{..<n div 2} - {m}. unat (le16_at (put16 p k v) (2 * j))) = (\<Sum>j\<in>{..<n div 2} - {m}. unat (le16_at (put16 p k 0) (2 * j)))"
    by (rule sum.cong) (auto simp: same)
  moreover have "put16 p k v ! (n - 1) = put16 p k 0 ! (n - 1)" if "odd n"
  proof -
    have "n - 1 \<noteq> k" "n - 1 \<noteq> k + 1" "n - 1 < length p" using that assms m by presburger+
    then show ?thesis by (simp add: nth_put16)
  qed
  ultimately show ?thesis by (simp add: word_sum_def)
qed

lemma checksum_zero:
  assumes k: "even k" "k + 1 < unat len" and len: "unat len + unat len mod 2 \<le> length p" "unat len \<le> 65536"
  shows "\<exists>c. net_checksum (put16 p k 0) len = Inr c \<and> net_checksum (put16 p k c) len = Inr 0"
proof -
  let ?n = "unat len"
  obtain f :: u32 where f: "net_checksum (put16 p k 0) len = Inr (ucast (NOT f))" "unat f < 65536"
    "unat f mod 65535 = word_sum (put16 p k 0) ?n mod 65535" "unat f = 0 \<longleftrightarrow> word_sum (put16 p k 0) ?n = 0"
    using net_checksum_sum [of len "put16 p k 0"] len by auto
  let ?c = "ucast (NOT f) :: u16"
  have c: "unat ?c = 65535 - unat f" by (rule ones_complement [OF f(2)])
  obtain g :: u32 where g: "net_checksum (put16 p k ?c) len = Inr (ucast (NOT g))" "unat g < 65536"
    "unat g mod 65535 = word_sum (put16 p k ?c) ?n mod 65535" "unat g = 0 \<longleftrightarrow> word_sum (put16 p k ?c) ?n = 0"
    using net_checksum_sum [of len "put16 p k ?c"] len by auto
  have ws: "word_sum (put16 p k ?c) ?n = word_sum (put16 p k 0) ?n + (65535 - unat f)"
    using word_sum_put16 [of k ?n p ?c] k len by (simp add: c)
  let ?s = "word_sum (put16 p k 0) ?n"
  have "(?s + (65535 - unat f)) mod 65535 = (unat f + (65535 - unat f)) mod 65535"
    using f(3) by (metis mod_add_left_eq)
  then have "unat g mod 65535 = 0" using g(3) ws f(2) by simp
  moreover have "unat g \<noteq> 0" using g(4) ws f by (auto simp: )
  ultimately have "unat g = 65535" using g(2) by auto
  then have "unat (ucast (NOT g) :: u16) = 0" using ones_complement [OF g(2)] by simp
  then have "(ucast (NOT g) :: u16) = 0" by (simp add: word_unat_eq_iff)
  with f(1) g(1) show ?thesis by auto
qed

section \<open>Address text\<close>

lemma radix_dec: "radix 10 n = dec n"
proof (induction n rule: dec.induct)
  case (1 n)
  have d: "digit_sym (int k) = digit_char k" if "k < 10" for k
    using that by (simp add: digit_sym_def digit_char_def nat_add_distrib)
  show ?case
  proof (cases "n < 10")
    case True
    then show ?thesis using d [of n] by (simp add: radix.simps dec_small)
  next
    case False
    then show ?thesis using 1 d [of "n mod 10"] by (subst radix.simps) (simp add: dec_step)
  qed
qed

definition dotted :: "nat \<Rightarrow> nat \<Rightarrow> nat \<Rightarrow> nat \<Rightarrow> string" where
  "dotted a b c d = dec a @ ''.'' @ dec b @ ''.'' @ dec c @ ''.'' @ dec d"

lemma render_dotted:
  assumes "a < 256" "b < 256" "c < 256" "d < 256"
  shows "render ''%d.%d.%d.%d'' [ArgInt (int a), ArgInt (int b), ArgInt (int c), ArgInt (int d)] = Some (dotted a b c d)"
  using assms
  by (simp add: fmt_spec_def is_digit_def render_conv_def is_int32_def render_int_def radix_dec dotted_def Let_def)

lemma undec_mono: "m \<le> undec m s"
proof (induction s arbitrary: m)
  case (Cons c s)
  from Cons.IH [of "m * 10 + (of_char c - 48)"] show ?case by (simp add: undec_def)
qed (simp add: undec_def)

lemma scan_digits:
  "list_all is_digit s \<Longrightarrow> unat (octet :: u32) = n \<Longrightarrow> undec n s < 2 ^ 32 \<Longrightarrow>
   ip_scan (s @ t) ip octet shift = ip_scan t ip (of_nat (undec n s)) shift"
proof (induction s arbitrary: octet n)
  case (Cons c s)
  let ?d = "of_char c - 48 :: nat"
  have c: "48 \<le> (of_char c :: nat)" "of_char c \<le> (57 :: nat)" using Cons.prems(1) by (auto simp: is_digit_def)
  have sc: "schar c = int ?d + 48" 
    using c of_nat_of_char [where ?'a = int, of c] unfolding schar_def Let_def by auto
  have un: "undec n (c # s) = undec (n * 10 + ?d) s" by (simp add: undec_def)
  have lt: "n * 10 + ?d < 2 ^ 32" using undec_mono [of "n * 10 + ?d" s] Cons.prems(3) un by linarith
  have "octet * 10 + of_int (schar c - 48) = (of_nat (n * 10 + ?d) :: u32)"
    unfolding sc using Cons.prems(2) by auto
  then have "unat (octet * 10 + of_int (schar c - 48) :: u32) = n * 10 + ?d" using lt by (simp add: unat_of_nat del: of_nat_add of_nat_mult)
  from Cons.IH [OF _ this] Cons.prems un have
    "ip_scan (s @ t) ip (octet * 10 + of_int (schar c - 48)) shift = ip_scan t ip (of_nat (undec n (c # s))) shift" by simp
  moreover have "48 \<le> schar c" "schar c \<le> 57" using sc c by simp_all
  ultimately show ?case by simp
next
  case Nil
  then show ?case by (auto simp: undec_def)
qed

lemma scan_octet:
  assumes "n < 256"
  shows "ip_scan (dec n @ ''.'' @ t) ip 0 (int sh) = ip_scan t (ip OR push_bit sh (of_nat n)) 0 (int sh - 8)"
    and "ip_scan (dec n) ip 0 z = Inr (ip OR of_nat n)"
proof -
  have dot: "schar (CHR ''.'') = 46" by (simp add: schar_def)
  have "ip_scan (dec n @ u) ip 0 z = ip_scan u ip (of_nat n) z" for u z
    using scan_digits [OF dec_digits, of 0 0 n u ip z] undec_dec [of n] assms by simp
  from this [of "''.'' @ t" "int sh"] this [of "[]" z] dot
  show "ip_scan (dec n @ ''.'' @ t) ip 0 (int sh) = ip_scan t (ip OR push_bit sh (of_nat n)) 0 (int sh - 8)"
    and "ip_scan (dec n) ip 0 z = Inr (ip OR of_nat n)" by simp_all
qed

lemma parse_dotted:
  assumes "a < 256" "b < 256" "c < 256" "d < 256"
  shows "ip_str_to_addr (dotted a b c d) = Inr (push_bit 24 (of_nat a) OR push_bit 16 (of_nat b) OR push_bit 8 (of_nat c) OR of_nat d)"
  using scan_octet(1) [OF assms(1), of "dec b @ ''.'' @ dec c @ ''.'' @ dec d" 0 24]
    scan_octet(1) [OF assms(2), of "dec c @ ''.'' @ dec d" _ 16]
    scan_octet(1) [OF assms(3), of "dec d" _ 8] scan_octet(2) [OF assms(4)]
  unfolding ip_str_to_addr_def dotted_def by (simp add: ac_simps)

definition octet :: "u32 \<Rightarrow> nat \<Rightarrow> nat" where
  "octet ip k = unat (drop_bit (8 * k) ip AND 0xFF)"

lemma octet_less: "octet ip k < 256"
proof -
  have "drop_bit (8 * k) ip AND 0xFF \<le> 0xFF" by (rule word_and_le1)
  then show ?thesis by (simp add: octet_def word_le_nat_alt)
qed

lemma octets_join:
  "push_bit 24 (of_nat (octet ip 3)) OR push_bit 16 (of_nat (octet ip 2)) OR push_bit 8 (of_nat (octet ip 1)) OR of_nat (octet ip 0) = ip"
proof -
  have m: "0xFF = (mask 8 :: u32)" by (simp add: mask_eq_exp_minus_1)
  have o: "of_nat (octet ip k) = drop_bit (8 * k) ip AND mask 8" for k unfolding octet_def m by simp
  show ?thesis unfolding o
  proof (rule bit_word_eqI)
    fix n assume "n < LENGTH(32)"
    then consider "n < 8" | "8 \<le> n" "n < 16" | "16 \<le> n" "n < 24" | "24 \<le> n" "n < 32"
      by (cases "n < 8"; cases "n < 16"; cases "n < 24") auto
    then show "bit (push_bit 24 (drop_bit (8 * 3) ip AND mask 8) OR push_bit 16 (drop_bit (8 * 2) ip AND mask 8) OR
        push_bit 8 (drop_bit (8 * 1) ip AND mask 8) OR drop_bit (8 * 0) ip AND mask 8 :: u32) n = bit ip n"
      by cases (auto simp: bit_simps)
  qed
qed

definition ip_text :: "u32 \<Rightarrow> string" where
  "ip_text ip = dotted (octet ip 3) (octet ip 2) (octet ip 1) (octet ip 0)"

lemma length_ip_text: "length (ip_text ip) \<le> 15"
proof -
  have "length (dec (octet ip k)) \<le> 3" for k using length_dec_le [of "octet ip k" 3] octet_less [of ip k] by simp
  from this [of 3] this [of 2] this [of 1] this [of 0] show ?thesis by (simp add: ip_text_def dotted_def)
qed

lemma nul_free_ip_text: "nul_free (ip_text ip)"
proof -
  have "NUL \<notin> set (dec n)" for n using dec_digits [of n] by (auto simp: list_all_iff is_digit_def NUL_def)
  then show ?thesis by (simp add: ip_text_def dotted_def nul_free_def NUL_def)
qed

lemma ip_addr_to_str_text:
  assumes "16 \<le> length buf"
  shows "ip_addr_to_str ip buf = Inr (ip_text ip @ NUL # drop (Suc (length (ip_text ip))) buf)"
proof -
  have a: "[ArgInt (uint (drop_bit 24 ip AND 0xFF)), ArgInt (uint (drop_bit 16 ip AND 0xFF)),
      ArgInt (uint (drop_bit 8 ip AND 0xFF)), ArgInt (uint (ip AND 0xFF))] =
    [ArgInt (int (octet ip 3)), ArgInt (int (octet ip 2)), ArgInt (int (octet ip 1)), ArgInt (int (octet ip 0))]"
    unfolding octet_def uint_nat by simp
  have "vsnprintf buf 16 ''%d.%d.%d.%d'' [ArgInt (int (octet ip 3)), ArgInt (int (octet ip 2)), ArgInt (int (octet ip 1)), ArgInt (int (octet ip 0))] =
      Inr (length (ip_text ip), blit buf 0 (ip_text ip @ [NUL]))"
    using vsnprintf_text [OF _ assms render_dotted [OF octet_less octet_less octet_less octet_less]] length_ip_text [of ip]
    unfolding ip_text_def by simp
  moreover have "blit buf 0 (ip_text ip @ [NUL]) = ip_text ip @ NUL # drop (Suc (length (ip_text ip))) buf"
    using blit_0 [of "ip_text ip @ [NUL]" buf] length_ip_text [of ip] assms by simp
  ultimately show ?thesis unfolding ip_addr_to_str_def snprintf_def a by simp
qed

lemma print_ip_text: "print_ip ip st = Inr (emit (ip_text ip) st)"
  using nul_free_ip_text [of ip] by (simp add: print_ip_def ip_addr_to_str_text cstr_append_NUL)

section \<open>The ARP cache\<close>

text \<open>
  What a cache of hardware addresses promises: storing an address makes it the one found, and
  storing never disturbs another. \<open>room\<close> says when a new address can be stored.
\<close>

locale addr_cache =
  fixes inv :: "'s \<Rightarrow> bool" and look :: "'k \<Rightarrow> 's \<Rightarrow> 'v option" and room :: "'k \<Rightarrow> 's \<Rightarrow> bool" and add :: "'k \<Rightarrow> 'v \<Rightarrow> 's \<Rightarrow> 's"
    and okv :: "'v \<Rightarrow> bool"
  assumes add_inv: "inv s \<Longrightarrow> okv v \<Longrightarrow> inv (add k v s)"
    and look_add: "inv s \<Longrightarrow> okv v \<Longrightarrow> room k s \<Longrightarrow> look k (add k v s) = Some v"
    and look_other: "inv s \<Longrightarrow> okv v \<Longrightarrow> k' \<noteq> k \<Longrightarrow> look k' (add k v s) = look k' s"
    and room_known: "inv s \<Longrightarrow> look k s \<noteq> None \<Longrightarrow> room k s"
    and add_full: "inv s \<Longrightarrow> okv v \<Longrightarrow> \<not> room k s \<Longrightarrow> add k v s = s"
begin

text \<open>A sequence of additions: the last stored address of each key is found, and no key is forgotten.\<close>

lemma add_keeps: "inv s \<Longrightarrow> okv v \<Longrightarrow> look k s \<noteq> None \<Longrightarrow> look k (add k' v s) \<noteq> None"
  using look_add [of s v k] look_other [of s v k k'] room_known [of s k] by (cases "k = k'") auto

lemma adds_inv: "inv s \<Longrightarrow> \<forall>(k, v)\<in>set kvs. okv v \<Longrightarrow> inv (fold (\<lambda>(k, v). add k v) kvs s)"
  by (induction kvs arbitrary: s) (auto simp: add_inv)

lemma adds_keep: "inv s \<Longrightarrow> \<forall>(k, v)\<in>set kvs. okv v \<Longrightarrow> look k s \<noteq> None \<Longrightarrow> look k (fold (\<lambda>(k, v). add k v) kvs s) \<noteq> None"
proof (induction kvs arbitrary: s)
  case (Cons kv kvs)
  obtain k' v where kv: "kv = (k', v)" by (cases kv)
  have "inv (add k' v s)" "look k (add k' v s) \<noteq> None" using Cons.prems kv by (auto simp: add_inv add_keeps)
  with Cons show ?case by (simp add: kv)
qed simp

end

definition arp_ok :: "('d, 'a) net_scheme \<Rightarrow> bool" where
  "arp_ok st \<longleftrightarrow> length (arp_cache st) = 16 \<and> arp_cache_count st \<le> 16 \<and>
     (\<forall>e\<in>set (arp_cache st). length (ae_mac e) = 6)"

definition arp_room :: "u32 \<Rightarrow> ('d, 'a) net_scheme \<Rightarrow> bool" where
  "arp_room ip st \<longleftrightarrow> arp_index ip st \<noteq> None \<or> arp_cache_count st < 16"

lemma arp_find_Some: "arp_find ip es = Some i \<Longrightarrow> i < length es \<and> tt (ae_valid (es ! i)) \<and> ae_ip (es ! i) = ip"
  by (induction es arbitrary: i) (auto split: if_splits)

lemma arp_find_upd:
  "arp_find ip es = Some i \<Longrightarrow> arp_find k (es[i := (es ! i)\<lparr>ae_mac := m\<rparr>]) = arp_find k es"
  by (induction es arbitrary: i) (auto split: if_splits nat.splits simp: nth_Cons')

lemma arp_find_snoc:
  "arp_find ip (es @ [e]) = (case arp_find ip es of Some i \<Rightarrow> Some i
     | None \<Rightarrow> if tt (ae_valid e) \<and> ae_ip e = ip then Some (length es) else None)"
  by (induction es) (auto split: option.splits)

lemma arp_index_bounded: "arp_index ip st = Some i \<Longrightarrow> i < arp_cache_count st \<and> i < length (arp_cache st)"
  using arp_find_Some by (fastforce simp: arp_index_def)

lemma arp_add_known:
  assumes "arp_index ip st = Some i"
  shows "arp_index k (arp_add_static ip mac st) = arp_index k st"
    "arp_cache (arp_add_static ip mac st) = (arp_cache st)[i := (arp_cache st ! i)\<lparr>ae_mac := take 6 mac\<rparr>]"
    "arp_cache_count (arp_add_static ip mac st) = arp_cache_count st"
proof -
  have i: "i < arp_cache_count st" "i < length (arp_cache st)" using arp_index_bounded [OF assms] by auto
  have "take (arp_cache_count st) ((arp_cache st)[i := e]) = (take (arp_cache_count st) (arp_cache st))[i := e]" for e
    by (simp add: take_update_swap)
  moreover have "arp_cache st ! i = take (arp_cache_count st) (arp_cache st) ! i" using i by simp
  ultimately show "arp_index k (arp_add_static ip mac st) = arp_index k st"
    using assms arp_find_upd [of ip "take (arp_cache_count st) (arp_cache st)" i k "take 6 mac"]
    by (simp add: arp_index_def arp_add_static_def)
  show "arp_cache (arp_add_static ip mac st) = (arp_cache st)[i := (arp_cache st ! i)\<lparr>ae_mac := take 6 mac\<rparr>]"
    "arp_cache_count (arp_add_static ip mac st) = arp_cache_count st"
    using assms by (simp_all add: arp_add_static_def)
qed

lemma arp_add_new:
  assumes "arp_index ip st = None" and "arp_cache_count st < 16" and "length (arp_cache st) = 16"
  shows "arp_index k (arp_add_static ip mac st) = (if k = ip then Some (arp_cache_count st) else arp_index k st)"
    "arp_cache (arp_add_static ip mac st) = (arp_cache st)[arp_cache_count st := \<lparr>ae_ip = ip, ae_mac = take 6 mac, ae_valid = 1\<rparr>]"
    "arp_cache_count (arp_add_static ip mac st) = arp_cache_count st + 1"
proof -
  let ?n = "arp_cache_count st" and ?e = "\<lparr>ae_ip = ip, ae_mac = take 6 mac, ae_valid = 1\<rparr>"
  have "take (Suc ?n) ((arp_cache st)[?n := ?e]) = take ?n (arp_cache st) @ [?e]"
    using assms by (simp add: take_Suc_conv_app_nth)
  then show "arp_index k (arp_add_static ip mac st) = (if k = ip then Some ?n else arp_index k st)"
    using assms by (auto simp: arp_index_def arp_add_static_def Let_def set_entry_def arp_find_snoc split: option.splits)
  show "arp_cache (arp_add_static ip mac st) = (arp_cache st)[?n := ?e]" "arp_cache_count (arp_add_static ip mac st) = ?n + 1"
    using assms by (simp_all add: arp_add_static_def Let_def set_entry_def)
qed

lemma arp_add_full: "\<not> arp_room ip st \<Longrightarrow> arp_add_static ip mac st = st"
  by (simp add: arp_room_def arp_add_static_def)

lemma arp_ok_add: "arp_ok st \<Longrightarrow> length mac = 6 \<Longrightarrow> arp_ok (arp_add_static ip mac st)"
proof (cases "arp_index ip st")
  case (Some i)
  assume ok: "arp_ok st" "length mac = 6"
  then show ?thesis using arp_add_known(2,3) [OF Some, of mac] arp_index_bounded [OF Some]
    by (auto simp: arp_ok_def dest!: set_update_subset_insert [THEN subsetD])
next
  case None
  assume ok: "arp_ok st" "length mac = 6"
  show ?thesis
  proof (cases "arp_cache_count st < 16")
    case True
    then show ?thesis using arp_add_new(2,3) [OF None True, of mac] ok
      by (auto simp: arp_ok_def dest!: set_update_subset_insert [THEN subsetD])
  next
    case False
    then show ?thesis using ok None by (simp add: arp_add_full arp_room_def)
  qed
qed

interpretation arp: addr_cache arp_ok arp_lookup arp_room arp_add_static "\<lambda>mac. length mac = 6"
proof
  fix st :: "('a, 'b) net_scheme" and mac :: "u8 list" and k :: u32
  assume ok: "arp_ok st" and m: "length mac = 6"
  show "arp_ok (arp_add_static k mac st)" by (rule arp_ok_add [OF ok m])
  show "arp_lookup k (arp_add_static k mac st) = Some mac" if "arp_room k st"
  proof (cases "arp_index k st")
    case (Some i)
    then show ?thesis using arp_add_known(1) [OF Some, of k mac] arp_add_known(2,3) [OF Some, of mac] arp_index_bounded [OF Some] m
      by (simp add: arp_lookup_def)
  next
    case None
    then show ?thesis using that ok m arp_add_new(1) [OF None, of k mac] arp_add_new(2,3) [OF None, of mac] by (simp add: arp_lookup_def arp_room_def arp_ok_def)
  qed
  show "arp_lookup k' (arp_add_static k mac st) = arp_lookup k' st" if "k' \<noteq> k" for k'
  proof (cases "arp_index k st")
    case (Some i)
    have "j \<noteq> i" if "arp_index k' st = Some j" for j
      using that Some \<open>k' \<noteq> k\<close> arp_find_Some unfolding arp_index_def by metis
    then show ?thesis using arp_add_known(1) [OF Some, of k' mac] arp_add_known(2,3) [OF Some, of mac] by (cases "arp_index k' st") (auto simp: arp_lookup_def)
  next
    case None
    show ?thesis
    proof (cases "arp_cache_count st < 16")
      case True
      then show ?thesis using None ok arp_add_new(1) [OF None True, of k' mac] arp_add_new(2,3) [OF None True, of mac] that arp_index_bounded [of k' st]
        by (cases "arp_index k' st") (auto simp: arp_lookup_def arp_ok_def)
    next
      case False
      then show ?thesis using None by (simp add: arp_add_full arp_room_def)
    qed
  qed
  show "arp_add_static k mac st = st" if "\<not> arp_room k st" using that by (rule arp_add_full)
next
  fix st :: "('a, 'b) net_scheme" and k :: u32
  show "arp_room k st" if "arp_lookup k st \<noteq> None" using that by (auto simp: arp_lookup_def arp_room_def)
qed

end
