(* ===== verification/Net_Protocol.thy ===== *)
theory Net_Protocol
  imports Net
begin

text \<open>
  Properties of the protocols of \<^verbatim>\<open>src/net.c\<close> on any network card that keeps the contract
  \<open>nic_card\<close>: the headers the stack writes, ARP between two hosts, answers to echo requests.
\<close>

section \<open>Frames\<close>

lemma length_header [simp]:
  "length (eth_header p dest src t) = length p" "length (arp_header p op sm si tm ti) = length p"
  by (simp_all add: eth_header_def arp_header_def Let_def)

definition arp_frame :: "u8 list \<Rightarrow> u8 list \<Rightarrow> u16 \<Rightarrow> u8 list \<Rightarrow> u32 \<Rightarrow> u8 list \<Rightarrow> u32 \<Rightarrow> u8 list" where
  "arp_frame junk dest op sm si tm ti = arp_header (eth_header junk dest sm 0x0806) op sm si tm ti"

lemma arp_frame_fields:
  assumes "length junk = 64" and "length dest = 6" and "length sm = 6" and "length tm = 6"
  shows "le32_at (take 42 (arp_frame junk dest op sm si tm ti)) 28 = si"
    "le32_at (take 42 (arp_frame junk dest op sm si tm ti)) 38 = ti"
    "le16_at (take 42 (arp_frame junk dest op sm si tm ti)) 20 = op"
    "take 6 (drop 22 (take 42 (arp_frame junk dest op sm si tm ti))) = sm"
proof -
  let ?p = "arp_header (eth_header junk dest sm 0x0806) op sm si tm ti"
  note nths = arp_header_def Let_def nth_put32 nth_put16 nth_blit
  show "le32_at (take 42 (arp_frame junk dest op sm si tm ti)) 28 = si"
    using assms by (simp add: arp_frame_def le32_at_def nths le32_bytes)
  show "le32_at (take 42 (arp_frame junk dest op sm si tm ti)) 38 = ti"
    using assms by (simp add: arp_frame_def le32_at_def nths le32_bytes)
  show "le16_at (take 42 (arp_frame junk dest op sm si tm ti)) 20 = op"
    using assms by (simp add: arp_frame_def le16_at_def nths le16_bytes)
  show "take 6 (drop 22 (take 42 (arp_frame junk dest op sm si tm ti))) = sm"
    by (rule nth_equalityI) (use assms in \<open>auto simp: arp_frame_def nths\<close>)
qed

section \<open>Sending\<close>

text \<open>A host whose card works: the card is set up at \<open>iob\<close>, and the host's tables are well formed.\<close>

definition host_ok :: "u16 \<Rightarrow> ('d, 'a) net_scheme \<Rightarrow> bool" where
  "host_ok iob st \<longleftrightarrow> rtl_io_base st = iob \<and> rtl_initialized st \<noteq> 0 \<and> arp_ok st \<and> length (our_mac st) = 6"

lemma net_send:
  assumes "nic_card bus iob wire tx cbr" and "host_ok iob st"
    and "0 < len" and "unat len \<le> 1536" and "unat len \<le> length data"
  shows "\<exists>d. net_send_packet bus data len st = Inr (st\<lparr>dev := d\<rparr>) \<and> wire d = wire (dev st) @ [take (unat len) data]"
  using nic_card.send [OF assms(1), of st len data] assms(2-) by (auto simp: net_send_packet_def host_ok_def TX_BUF_SIZE_def)

lemma arp_dev [simp]: "arp_lookup k (st\<lparr>dev := d\<rparr>) = arp_lookup k st" "arp_ok (st\<lparr>dev := d\<rparr>) = arp_ok st"
    "arp_room k (st\<lparr>dev := d\<rparr>) = arp_room k st" "host_ok iob (st\<lparr>dev := d\<rparr>) = host_ok iob st"
  by (simp_all add: arp_lookup_def arp_index_def arp_ok_def arp_room_def host_ok_def)

lemma arp_add_keeps [simp]: "dev (arp_add_static k m st) = dev st" "our_ip (arp_add_static k m st) = our_ip st"
    "our_mac (arp_add_static k m st) = our_mac st" "gateway_ip (arp_add_static k m st) = gateway_ip st"
    "rtl_io_base (arp_add_static k m st) = rtl_io_base st" "rtl_initialized (arp_add_static k m st) = rtl_initialized st"
  by (simp_all add: arp_add_static_def set_entry_def Let_def split: option.splits)

lemma host_ok_add: "host_ok iob st \<Longrightarrow> length m = 6 \<Longrightarrow> host_ok iob (arp_add_static k m st)"
  by (simp add: host_ok_def arp_ok_add)

lemma send_request:
  assumes "nic_card bus iob wire tx cbr" and "host_ok iob st" and "length junk = 64"
  shows "\<exists>d. arp_send_request bus junk ip st = Inr (st\<lparr>dev := d\<rparr>) \<and>
    wire d = wire (dev st) @ [take 42 (arp_frame junk (replicate 6 0xFF) 1 (our_mac st) (our_ip st) (replicate 6 0) ip)]"
  using net_send [OF assms(1,2), of 42 "arp_frame junk (replicate 6 0xFF) 1 (our_mac st) (our_ip st) (replicate 6 0) ip"] assms(3)
  by (simp add: arp_send_request_def arp_frame_def Let_def)

text \<open>What a host does with an ARP packet, in terms of the fields.\<close>

lemma handle_arp:
  assumes card: "nic_card bus iob wire tx cbr" and host: "host_ok iob st" and junk: "length junk = 64"
    and p: "p = take 42 (arp_frame junk' dest op sm si tm ti)" "length junk' = 64" "length dest = 6" "length sm = 6" "length tm = 6"
    and gw: "si \<noteq> gateway_ip st"
  shows "\<exists>d. arp_handle_packet bus junk p 42 st = Inr ((arp_add_static si sm st)\<lparr>dev := d\<rparr>) \<and>
    wire d = wire (dev st) @ (if op = 1 \<and> ti = our_ip st
      then [take 42 (arp_frame junk sm 2 (our_mac st) (our_ip st) sm si)] else [])"
proof -
  let ?st = "arp_add_static si sm st"
  let ?r = "arp_frame junk sm 2 (our_mac st) (our_ip st) sm si"
  note f = arp_frame_fields [OF p(2-5), of op si ti, folded p(1)]
  have len: "length p = 42" using p by (simp add: arp_frame_def)
  have host': "host_ok iob ?st" by (rule host_ok_add [OF host p(4)])
  have h: "arp_handle_packet bus junk p 42 st =
      (if op = 1 \<and> ti = our_ip st then net_send_packet bus ?r 42 ?st else Inr ?st)"
    unfolding arp_handle_packet_def Let_def f using len gw by (simp add: arp_frame_def)
  show ?thesis
  proof (cases "op = 1 \<and> ti = our_ip st")
    case True
    then show ?thesis using net_send [OF card host', of 42 ?r] junk unfolding h by (simp add: arp_frame_def)
  next
    case False
    have "s\<lparr>dev := dev s\<rparr> = s" for s :: "('a, 'b) net_scheme" by simp
    from this [of ?st] have "?st\<lparr>dev := dev st\<rparr> = ?st" by (simp only: arp_add_keeps)
    then show ?thesis unfolding h if_not_P [OF False] by (intro exI [of _ "dev st"]) simp
  qed
qed

section \<open>Answering echo requests\<close>

lemma ip_header_ok:
  assumes "34 \<le> length p"
  shows "\<exists>p'. ip_header p n src dest = Inr p' \<and> length p' = length p \<and> net_checksum (drop 14 p') 20 = Inr 0"
proof -
  define q where "q = put32 (put32 (blit (put16 (put16 (put16 (blit p 14 [0x45, 0]) 16 (ucast n)) 18 0x1234) 20 0) 22 [64, 1]) 26 src) 30 dest"
  have q: "length q = length p" by (simp add: q_def)
  have dp: "drop 14 (put16 q 24 v) = put16 (drop 14 q) 10 v" for v
  proof (rule nth_equalityI)
    fix i assume "i < length (drop 14 (put16 q 24 v))"
    then show "drop 14 (put16 q 24 v) ! i = put16 (drop 14 q) 10 v ! i" by (auto simp: nth_put16)
  qed simp
  have "20 \<le> length p - 14" using assms by simp
  then obtain c where c: "net_checksum (put16 (drop 14 q) 10 0) 20 = Inr c" "net_checksum (put16 (drop 14 q) 10 c) 20 = Inr 0"
    using checksum_zero [of 10 20 "drop 14 q"] assms q by auto
  have "put16 (put16 q 24 0) 24 c = put16 q 24 c" by (rule nth_equalityI) (auto simp: nth_put16)
  moreover have "ip_header p n src dest = Inr (put16 (put16 q 24 0) 24 c)"
    unfolding ip_header_def Let_def q_def [symmetric] dp c by simp
  ultimately show ?thesis using c(2) q by (simp add: dp)
qed

lemma icmp_message_ok:
  assumes "42 + length data \<le> length p" and "unat len = 8 + length data" and "length data \<le> 1000"
    and "odd (length data) \<Longrightarrow> 43 + length data \<le> length p"
  shows "\<exists>p'. icmp_message p type data len = Inr p' \<and> length p' = length p"
proof -
  let ?q = "blit (put16 (blit p 34 [type, 0]) 36 0) 42 data"
  have "unat len + unat len mod 2 \<le> length (drop 34 ?q)" using assms by (cases "even (length data)") (auto simp: odd_iff_mod_2_eq_one)
  then obtain c where "net_checksum (drop 34 ?q) len = Inr c" using net_checksum_sum [of len "drop 34 ?q"] assms by auto
  then show ?thesis unfolding icmp_message_def Let_def by simp
qed

text \<open>The length of the payload as the handler computes it from the header, and the handler on a request to us.\<close>

definition claimed_len :: "u8 list \<Rightarrow> u32" where
  "claimed_len packet = (ucast (le16_at packet 16) :: u32) - 20 - 8"

definition echo_to_us :: "u8 list \<Rightarrow> ('d, 'a) net_scheme \<Rightarrow> bool" where
  "echo_to_us packet st \<longleftrightarrow> 42 \<le> length packet \<and> packet ! 23 = 1 \<and> packet ! 34 = 8 \<and> le32_at packet 30 = our_ip st"

lemma handle_echo:
  assumes "echo_to_us packet st" and "42 \<le> len"
  shows "ip_handle_packet bus junk64 junk packet len st =
    icmp_send_reply bus junk64 junk (le32_at packet 26) (drop 42 packet) (claimed_len packet)
      (emit (''Ping from '' @ ip_text (le32_at packet 26) @ [NL]) st)"
  using assms by (simp add: ip_handle_packet_def icmp_handle_packet_def echo_to_us_def print_ip_text claimed_len_def Let_def)

lemma emit_keeps_net [simp]: "arp_lookup k (emit t st) = arp_lookup k st" "our_ip (emit t st) = our_ip st"
    "our_mac (emit t st) = our_mac st" "host_ok iob (emit t st) = host_ok iob st" "dev (emit t st) = dev st"
  by (simp_all add: emit_def arp_lookup_def arp_index_def host_ok_def arp_ok_def)

lemma reply_fits:
  assumes card: "nic_card bus iob wire tx cbr" and host: "host_ok iob st" and mac: "arp_lookup ip st = Some mac"
    and junk: "length junk = 512" and len: "unat len \<le> 470" "unat len \<le> length from"
  shows "\<exists>d frame. icmp_send_reply bus junk64 junk ip from len st = Inr (st\<lparr>dev := d\<rparr>) \<and>
    wire d = wire (dev st) @ [frame] \<and> length frame = 34 + unat len"
proof -
  obtain p where p: "ip_header (eth_header junk mac (our_mac st) 0x0800) (20 + len) (our_ip st) ip = Inr p" "length p = 512"
    using ip_header_ok [of "eth_header junk mac (our_mac st) 0x0800" "20 + len" "our_ip st" ip] junk by auto
  have l8: "unat (len + 8) = 8 + unat len" "unat (14 + (20 + len)) = 34 + unat len" using len by (simp_all add: unat_word_ariths)
  have tk: "length (take (unat len) from) = unat len" using len by simp
  have "odd (unat len) \<Longrightarrow> unat len \<le> 469" using len by (cases "unat len = 470") auto
  then obtain p' where p': "icmp_message p 0 (take (unat len) from) (len + 8) = Inr p'" "length p' = 512"
    using icmp_message_ok [of "take (unat len) from" p "len + 8" 0] p(2) l8 len tk by auto
  have fit: "\<not> (0 < len \<and> (length p < 42 + unat len \<or> length from < unat len))" using p(2) len by auto
  have pos: "0 < 14 + (20 + len)" using l8(2) by (simp add: word_less_nat_alt)
  obtain d where d: "net_send_packet bus p' (14 + (20 + len)) st = Inr (st\<lparr>dev := d\<rparr>)"
    "wire d = wire (dev st) @ [take (34 + unat len) p']"
    using net_send [OF card host pos, of p'] l8 p'(2) len by auto
  have "icmp_send_reply bus junk64 junk ip from len st = Inr (st\<lparr>dev := d\<rparr>)"
    unfolding icmp_send_reply_def mac option.case Let_def p(1) bind_result_simps if_not_P [OF fit] p'(1) d(1) ..
  moreover have "length (take (34 + unat len) p') = 34 + unat len" using p'(2) len by simp
  ultimately show ?thesis using d(2) by auto
qed

lemma reply_overruns:
  assumes "arp_lookup ip st = Some mac" and "length junk = 512" and "470 < unat len"
  shows "icmp_send_reply bus junk64 junk ip from len st = Inl OutOfBounds"
proof -
  obtain p where p: "ip_header (eth_header junk mac (our_mac st) 0x0800) (20 + len) (our_ip st) ip = Inr p" "length p = 512"
    using ip_header_ok [of "eth_header junk mac (our_mac st) 0x0800" "20 + len" "our_ip st" ip] assms(2) by auto
  have fit: "0 < len \<and> (length p < 42 + unat len \<or> length from < unat len)"
    using p(2) assms(3) by (simp add: word_less_nat_alt)
  show ?thesis unfolding icmp_send_reply_def assms(1) option.case Let_def p(1) bind_result_simps if_P [OF fit] ..
qed

lemma minus_28:
  fixes x :: u32
  assumes "unat x < 65536"
  shows "unat (x - 28) = (if 28 \<le> unat x then unat x - 28 else unat x + 4294967268)"
proof (cases "28 \<le> unat x")
  case True
  then show ?thesis by (simp add: unat_sub word_le_nat_alt)
next
  case False
  have "x - 28 = of_nat (unat x + 4294967268)" by simp
  then show ?thesis using False by (simp only: unat_of_nat) simp
qed

lemma claimed_len_nat:
  "unat (claimed_len p) \<le> 470 \<longleftrightarrow> 28 \<le> unat (le16_at p 16) \<and> unat (le16_at p 16) \<le> 498"
  "28 \<le> unat (le16_at p 16) \<Longrightarrow> unat (claimed_len p) = unat (le16_at p 16) - 28"
proof -
  have "unat (le16_at p 16) < 2 ^ LENGTH(16)" by (rule unsigned_less)
  then have c: "unat (claimed_len p) =
      (if 28 \<le> unat (le16_at p 16) then unat (le16_at p 16) - 28 else unat (le16_at p 16) + 4294967268)"
    using minus_28 [of "ucast (le16_at p 16)"] by (simp add: claimed_len_def)
  then show "unat (claimed_len p) \<le> 470 \<longleftrightarrow> 28 \<le> unat (le16_at p 16) \<and> unat (le16_at p 16) \<le> 498" by auto
  show "unat (claimed_len p) = unat (le16_at p 16) - 28" if "28 \<le> unat (le16_at p 16)" using c that by simp
qed

section \<open>The checksum as a ones-complement sum\<close>

text \<open>
  RFC 1071, on numbers: the message as 16-bit words in the order of memory, a last odd byte standing
  alone, and addition modulo 65536 with the carry added back at each step.
\<close>

fun words16 :: "u8 list \<Rightarrow> nat list" where
  "words16 (a # b # r) = (unat a + 256 * unat b) # words16 r"
| "words16 [a] = [unat a]"
| "words16 [] = []"

definition oc_add :: "nat \<Rightarrow> nat \<Rightarrow> nat" where
  "oc_add a b = (if a + b < 65536 then a + b else a + b - 65535)"

lemma unat_le16: "unat (le16_at b i) = unat (b ! i) + 256 * unat (b ! Suc i)"
proof -
  have u8: "unat x < 2 ^ LENGTH(8)" for x :: u8 by (rule unsigned_less)
  have "le16_at b i = ucast (b ! i) + push_bit 8 (ucast (b ! Suc i))"
    unfolding le16_at_def Suc_eq_plus1
    by (rule disjunctive_add_eq_or [symmetric], rule bit_word_eqI) (auto simp: bit_simps dest: bit_imp_le_length)
  then have "le16_at b i = of_nat (unat (b ! i) + 256 * unat (b ! Suc i))"
    by (simp add: push_bit_eq_mult mult.commute)
  then show ?thesis using u8 [of "b ! i"] u8 [of "b ! Suc i"] by (simp only: unat_of_nat) simp
qed

lemma words16_less: "w \<in> set (words16 xs) \<Longrightarrow> w < 65536"
proof (induction xs rule: words16.induct)
  case (1 a b r)
  have "unat a < 2 ^ LENGTH(8)" "unat b < 2 ^ LENGTH(8)" by (rule unsigned_less)+
  with 1 show ?case by auto
next
  case (2 a)
  have "unat a < 2 ^ LENGTH(8)" by (rule unsigned_less)
  with 2 show ?case by auto
qed simp

lemma word_sum_words16: "word_sum xs (length xs) = sum_list (words16 xs)"
proof (induction xs rule: words16.induct)
  case (1 a b r)
  have "le16_at (a # b # r) (2 * Suc j) = le16_at r (2 * j)" for j by (simp add: le16_at_def)
  moreover have "(a # b # r) ! (length (a # b # r) - 1) = r ! (length r - 1)" if "odd (length r)"
    using that by (cases r) auto
  ultimately have "word_sum (a # b # r) (length (a # b # r)) = unat (le16_at (a # b # r) 0) + word_sum r (length r)"
    by (simp add: word_sum_def sum.lessThan_Suc_shift del: sum.lessThan_Suc)
  then show ?case using 1 by (simp add: unat_le16)
qed (simp_all add: word_sum_def)

lemma word_sum_take: "n \<le> length xs \<Longrightarrow> word_sum (take n xs) n = word_sum xs n"
proof -
  assume n: "n \<le> length xs"
  have "le16_at (take n xs) (2 * j) = le16_at xs (2 * j)" if "j < n div 2" for j
    using that by (auto simp: le16_at_def)
  moreover have "take n xs ! (n - 1) = xs ! (n - 1)" if "odd n" using that odd_pos [of n] by simp
  ultimately show ?thesis by (simp add: word_sum_def)
qed

text \<open>A number below 65536 is given by its value modulo 65535 and by whether it is zero.\<close>

lemma oc_unique:
  fixes a b :: nat
  assumes "a < 65536" "b < 65536" "a mod 65535 = b mod 65535" "a = 0 \<longleftrightarrow> b = 0"
  shows "a = b"
  using assms by (cases "a = 65535"; cases "b = 65535") auto

lemma oc_fold:
  assumes "a < 65536" and "\<forall>w \<in> set ws. w < 65536"
  shows "foldl oc_add a ws < 65536 \<and> foldl oc_add a ws mod 65535 = (a + sum_list ws) mod 65535 \<and>
    (foldl oc_add a ws = 0 \<longleftrightarrow> a + sum_list ws = 0)"
  using assms
proof (induction ws arbitrary: a)
  case (Cons w ws)
  have b: "oc_add a w < 65536" "oc_add a w = 0 \<longleftrightarrow> a + w = 0" using Cons.prems by (auto simp: oc_add_def)
  have "oc_add a w mod 65535 = (a + w) mod 65535" by (auto simp: oc_add_def le_mod_geq)
  then have "(oc_add a w + sum_list ws) mod 65535 = (a + w + sum_list ws) mod 65535" by (metis mod_add_left_eq)
  with Cons.IH [OF b(1)] Cons.prems(2) b(2) show ?case by (auto simp: add.assoc)
qed simp

lemma checksum_oc:
  assumes "unat len + unat len mod 2 \<le> length p" and "unat len \<le> 65536"
  shows "net_checksum p len = Inr (of_nat (65535 - foldl oc_add 0 (words16 (take (unat len) p))))"
proof -
  let ?ws = "words16 (take (unat len) p)"
  obtain f :: u32 where f: "net_checksum p len = Inr (ucast (NOT f))" "unat f < 65536"
    "unat f mod 65535 = word_sum p (unat len) mod 65535" "unat f = 0 \<longleftrightarrow> word_sum p (unat len) = 0"
    using net_checksum_sum [OF assms] by auto
  have len: "unat len \<le> length p" using assms(1) by simp
  then have "word_sum p (unat len) = sum_list ?ws"
    using word_sum_words16 [of "take (unat len) p"] word_sum_take [OF len] by (simp add: min_absorb2)
  then have sum: "unat f mod 65535 = sum_list ?ws mod 65535" "unat f = 0 \<longleftrightarrow> sum_list ?ws = 0" using f(3,4) by simp_all
  have o: "foldl oc_add 0 ?ws < 65536" "foldl oc_add 0 ?ws mod 65535 = sum_list ?ws mod 65535"
    "foldl oc_add 0 ?ws = 0 \<longleftrightarrow> sum_list ?ws = 0"
    using oc_fold [of 0 ?ws] words16_less by (auto simp del: sum_list_eq_0_iff)
  have "unat f = foldl oc_add 0 ?ws" by (rule oc_unique [OF f(2) o(1)]) (simp_all only: sum o)
  then have "unat (ucast (NOT f) :: u16) = 65535 - foldl oc_add 0 ?ws" using ones_complement [OF f(2)] by simp
  then have "(of_nat (unat (ucast (NOT f) :: u16)) :: u16) = of_nat (65535 - foldl oc_add 0 ?ws)" by (rule arg_cong)
  then have "(ucast (NOT f) :: u16) = of_nat (65535 - foldl oc_add 0 ?ws)" by (simp only: of_nat_unat ucast_id)
  with f(1) show ?thesis by simp
qed

text \<open>A request whose operation field is in network byte order is not recognised.\<close>

lemma network_order_unanswered:
  assumes "42 \<le> length packet" and "packet ! 20 = 0" and "packet ! 21 = 1"
  shows "\<exists>st'. arp_handle_packet bus junk packet len st = Inr st' \<and> dev st' = dev st"
proof -
  have "le16_at packet 20 = 0x0100" using assms(2,3) by (simp add: le16_at_def)
  then show ?thesis using assms(1) by (simp add: arp_handle_packet_def Let_def)
qed

section \<open>Properties\<close>

text \<open>
  C22. The Internet checksum: for messages of up to 65536 bytes, of even or odd length,
  \<^verbatim>\<open>net_checksum\<close> is the complement of the ones-complement sum of the 16-bit words of the message,
  as RFC 1071 defines it and whatever the order in which the code adds the carries; and when the
  checksum field of a message, at any even offset inside it, is filled with the checksum computed while
  the field was zero, the checksum of the whole message is zero.
\<close>

theorem checksum_verifies:
  assumes "unat len + unat len mod 2 \<le> length p" and "unat len \<le> 65536"
  shows "net_checksum p len = Inr (of_nat (65535 - foldl oc_add 0 (words16 (take (unat len) p)))) \<and>
    (\<forall>k. even k \<and> k + 1 < unat len \<longrightarrow>
      (\<exists>c. net_checksum (put16 p k 0) len = Inr c \<and> net_checksum (put16 p k c) len = Inr 0))"
  using checksum_oc [OF assms] checksum_zero [OF _ _ assms] by blast

theorem checksum_verifies_witness:
  "net_checksum [0x45, 0, 0xFF, 0xFF, 1, 2, 3, 4] 7 = Inr 0xFDB6 \<and>
   (\<exists>c. net_checksum (put16 [0x45, 0, 0xFF, 0xFF, 1, 2, 3, 4] 4 0) 7 = Inr c \<and>
     net_checksum (put16 [0x45, 0, 0xFF, 0xFF, 1, 2, 3, 4] 4 c) 7 = Inr 0)"
proof -
  note t = checksum_verifies [of 7 "[0x45, 0, 0xFF, 0xFF, 1, 2, 3, 4]"]
  have "foldl oc_add 0 (words16 (take (unat (7 :: u32)) [0x45, 0, 0xFF, 0xFF, 1, 2, 3, 4])) = 0x249"
    by (simp add: oc_add_def)
  with t show ?thesis by simp
qed

text \<open>
  Address text round trip: \<^verbatim>\<open>ip_addr_to_str\<close> never leaves its 16-byte buffer and
  \<^verbatim>\<open>ip_str_to_addr\<close> reads the address back, for every address.
\<close>

theorem ip_text_roundtrip:
  assumes "16 \<le> length buf"
  shows "\<exists>buf'. ip_addr_to_str ip buf = Inr buf' \<and> drop 16 buf' = drop 16 buf \<and> ip_str_to_addr (cstr buf') = Inr ip"
proof -
  let ?b = "ip_text ip @ NUL # drop (Suc (length (ip_text ip))) buf"
  have "ip_str_to_addr (ip_text ip) = Inr ip"
    unfolding ip_text_def using parse_dotted [of "octet ip 3" "octet ip 2" "octet ip 1" "octet ip 0"] octets_join [of ip] octet_less by simp
  moreover have "drop 16 ?b = drop 16 buf" using length_ip_text [of ip] by (auto simp: drop_Cons' )
  ultimately show ?thesis
    using ip_addr_to_str_text [OF assms] nul_free_ip_text [of ip] by (intro exI [of _ ?b]) (simp add: cstr_append_NUL)
qed

theorem ip_text_roundtrip_witness:
  "\<exists>buf'. ip_addr_to_str 0x0A00020F (replicate 16 NUL) = Inr buf' \<and> drop 16 buf' = [] \<and> ip_str_to_addr (cstr buf') = Inr 0x0A00020F"
  using ip_text_roundtrip [of "replicate 16 NUL" "0x0A00020F"] by simp

text \<open>
  C23. ARP exchange between two hosts that both run this stack, which writes and reads the header
  fields in the byte order of the processor: when host A asks for the address of host B, B learns A's
  hardware address and answers, and from the answer A learns B's; both hosts keep what they knew of
  other addresses. Both cards are set up, neither host is the other's gateway, whose entry the stack
  never changes, and both caches know the other host already or have room for it. A request from a host
  that writes the operation field in network byte order, bytes 0 and 1, is never answered by B.
\<close>

theorem arp_exchange:
  assumes "nic_card busA iobA wireA txA cbrA" and "host_ok iobA A" and "length junkA = 64" and "length junkA' = 64"
    and "nic_card busB iobB wireB txB cbrB" and "host_ok iobB B" and "length junkB = 64"
    and "our_ip A \<noteq> gateway_ip B" and "our_ip B \<noteq> gateway_ip A"
    and "arp_room (our_ip A) B" and "arp_room (our_ip B) A"
  shows "(\<exists>A' A'' B' request reply.
    arp_send_request busA junkA (our_ip B) A = Inr A' \<and> wireA (dev A') = wireA (dev A) @ [request] \<and>
    arp_handle_packet busB junkB request 42 B = Inr B' \<and> wireB (dev B') = wireB (dev B) @ [reply] \<and>
    arp_handle_packet busA junkA' reply 42 A' = Inr A'' \<and> wireA (dev A'') = wireA (dev A') \<and>
    arp_lookup (our_ip A) B' = Some (our_mac A) \<and> arp_lookup (our_ip B) A'' = Some (our_mac B) \<and>
    (\<forall>ip. ip \<noteq> our_ip A \<longrightarrow> arp_lookup ip B' = arp_lookup ip B) \<and> (\<forall>ip. ip \<noteq> our_ip B \<longrightarrow> arp_lookup ip A'' = arp_lookup ip A)) \<and>
    (\<forall>packet len. 42 \<le> length packet \<and> packet ! 20 = 0 \<and> packet ! 21 = 1 \<longrightarrow>
      (\<exists>B'. arp_handle_packet busB junkB packet len B = Inr B' \<and> wireB (dev B') = wireB (dev B)))"
proof -
  have mac: "length (our_mac A) = 6" "length (our_mac B) = 6" "arp_ok A" "arp_ok B" using assms(2,6) by (simp_all add: host_ok_def)
  define request where "request = take 42 (arp_frame junkA (replicate 6 0xFF) 1 (our_mac A) (our_ip A) (replicate 6 0) (our_ip B))"
  define reply where "reply = take 42 (arp_frame junkB (our_mac A) 2 (our_mac B) (our_ip B) (our_mac A) (our_ip A))"
  obtain d where d: "arp_send_request busA junkA (our_ip B) A = Inr (A\<lparr>dev := d\<rparr>)" "wireA d = wireA (dev A) @ [request]"
    using send_request [OF assms(1,2,3)] unfolding request_def by blast
  obtain e where e: "arp_handle_packet busB junkB request 42 B = Inr ((arp_add_static (our_ip A) (our_mac A) B)\<lparr>dev := e\<rparr>)"
    "wireB e = wireB (dev B) @ [reply]"
    using handle_arp [OF assms(5,6,7) request_def assms(3) _ mac(1) _ assms(8)] by (auto simp: reply_def)
  have hA: "host_ok iobA (A\<lparr>dev := d\<rparr>)" using assms(2) by simp
  have gA: "our_ip B \<noteq> gateway_ip (A\<lparr>dev := d\<rparr>)" using assms(9) by simp
  obtain f where f: "arp_handle_packet busA junkA' reply 42 (A\<lparr>dev := d\<rparr>) =
      Inr ((arp_add_static (our_ip B) (our_mac B) (A\<lparr>dev := d\<rparr>))\<lparr>dev := f\<rparr>)" "wireA f = wireA d"
    using handle_arp [OF assms(1) hA assms(4) reply_def assms(7) mac(1,2,1) gA] by auto
  have order: "\<forall>packet len. 42 \<le> length packet \<and> packet ! 20 = 0 \<and> packet ! 21 = 1 \<longrightarrow>
      (\<exists>B'. arp_handle_packet busB junkB packet len B = Inr B' \<and> wireB (dev B') = wireB (dev B))"
    using network_order_unanswered [where bus = busB and junk = junkB and st = B] by metis
  show ?thesis
    apply (rule conjI [OF _ order])
    using d e f mac assms(10,11) arp.look_add [OF mac(4,1)] arp.look_other [OF mac(4,1)]
      arp.look_add [of "A\<lparr>dev := d\<rparr>" "our_mac B" "our_ip B"] arp.look_other [of "A\<lparr>dev := d\<rparr>" "our_mac B"]
    by (intro exI [of _ "A\<lparr>dev := d\<rparr>"] exI [of _ "(arp_add_static (our_ip B) (our_mac B) (A\<lparr>dev := d\<rparr>))\<lparr>dev := f\<rparr>"]
        exI [of _ "(arp_add_static (our_ip A) (our_mac A) B)\<lparr>dev := e\<rparr>"] exI [of _ request] exI [of _ reply]) simp
qed

definition sim_host :: "u8 list \<Rightarrow> u32 \<Rightarrow> simcard net" where
  "sim_host mac ip = \<lparr>out = [], dev = \<lparr>sim_tx = [], sim_wire = [], sim_rx = [], sim_cbr = 0\<rparr>, ata_present = 0,
     files = [], current_dir = 0, ticks = 0, tick_rate = 100, rtl_io_base = 0xC000, rtl_mac = mac, rtl_initialized = 1, rx_offset = 0,
     arp_cache = replicate 16 \<lparr>ae_ip = 0, ae_mac = replicate 6 0, ae_valid = 0\<rparr>, arp_cache_count = 0, our_mac = mac, our_ip = ip,
     gateway_ip = 0x0A000202, subnet_mask = 0xFFFFFF00, dns_server = 0x08080808, dhcp_configured = 0,
     http_response = replicate 8192 NUL, http_response_len = 0, http_response_ready = 0, http_open = 0, http_connecting = 0\<rparr>"

lemma sim_host_ok: "length mac = 6 \<Longrightarrow> host_ok 0xC000 (sim_host mac ip)" "arp_room k (sim_host mac ip)"
    "our_ip (sim_host mac ip) = ip" "our_mac (sim_host mac ip) = mac" "gateway_ip (sim_host mac ip) = 0x0A000202"
  by (simp_all add: sim_host_def host_ok_def arp_ok_def arp_room_def)

theorem arp_exchange_witness:
  "\<exists>A' A'' request B' reply. arp_send_request sim_nic (replicate 64 0) 0x0A000210 (sim_host [2, 0, 0, 0, 0, 1] 0x0A00020F) = Inr A' \<and>
    arp_handle_packet sim_nic (replicate 64 0) request 42 (sim_host [2, 0, 0, 0, 0, 2] 0x0A000210) = Inr B' \<and>
    arp_handle_packet sim_nic (replicate 64 0) reply 42 A' = Inr A'' \<and> arp_lookup 0x0A000210 A'' = Some [2, 0, 0, 0, 0, 2]"
  using arp_exchange [OF sim.nic_card_axioms sim_host_ok(1) _ _ sim.nic_card_axioms sim_host_ok(1), of "[2, 0, 0, 0, 0, 1]"
      "replicate 64 0" "replicate 64 0" "[2, 0, 0, 0, 0, 2]" "replicate 64 0" "0x0A00020F" "0x0A000210"]
  by (auto simp: sim_host_ok)

text \<open>
  C24. Answering echo requests, and its bounds: for an echo request addressed to this host, received
  into the 2048-byte packet array, with the sender known to the ARP cache, the handler answers with
  one frame exactly when the length field of the request is between 28 and 498; with any other
  length field the copy of the payload leaves the 512-byte reply buffer. The frame sent is eight
  bytes shorter than the message it carries, since its length leaves out the ICMP header.
\<close>

theorem echo_reply_bounds:
  assumes "nic_card bus iob wire tx cbr" and "host_ok iob st" and "length junk = 512"
    and "length packet = 2048" and "echo_to_us packet st" and "42 \<le> len"
    and "arp_lookup (le32_at packet 26) st = Some mac"
  shows "(if 28 \<le> unat (le16_at packet 16) \<and> unat (le16_at packet 16) \<le> 498
     then \<exists>st' frame. ip_handle_packet bus junk64 junk packet len st = Inr st' \<and> wire (dev st') = wire (dev st) @ [frame] \<and>
       length frame = 14 + unat (le16_at packet 16) - 8
     else ip_handle_packet bus junk64 junk packet len st = Inl OutOfBounds)"
proof -
  let ?st = "emit (''Ping from '' @ ip_text (le32_at packet 26) @ [NL]) st"
  have host: "host_ok iob ?st" and mac: "arp_lookup (le32_at packet 26) ?st = Some mac" using assms(2,7) by simp_all
  note h = handle_echo [OF assms(5,6), of bus junk64 junk]
  show ?thesis
  proof (cases "28 \<le> unat (le16_at packet 16) \<and> unat (le16_at packet 16) \<le> 498")
    case True
    then have c: "unat (claimed_len packet) \<le> 470" "unat (claimed_len packet) \<le> length (drop 42 packet)"
      "unat (claimed_len packet) = unat (le16_at packet 16) - 28"
      using claimed_len_nat [of packet] assms(4) by auto
    from reply_fits [OF assms(1) host mac assms(3) c(1,2), of junk64] True c(3)
    show ?thesis unfolding h by fastforce
  next
    case False
    then have "470 < unat (claimed_len packet)" using claimed_len_nat(1) [of packet] by linarith
    from reply_overruns [OF mac assms(3) this] False show ?thesis unfolding h by simp
  qed
qed

definition sample_echo :: "u16 \<Rightarrow> u8 list" where
  "sample_echo n = put32 (put32 (put16 ((replicate 2048 0)[23 := 1, 34 := 8]) 16 n) 26 0x0A000210) 30 0x0A00020F"

definition sample_host :: "simcard net" where
  "sample_host = arp_add_static 0x0A000210 [2, 0, 0, 0, 0, 2] (sim_host [2, 0, 0, 0, 0, 1] 0x0A00020F)"

lemma sample_host_ok: "host_ok 0xC000 sample_host" "arp_lookup 0x0A000210 sample_host = Some [2, 0, 0, 0, 0, 2]"
    "our_ip sample_host = 0x0A00020F"
proof -
  let ?h = "sim_host [2, 0, 0, 0, 0, 1] 0x0A00020F"
  have ok: "host_ok 0xC000 ?h" "arp_room 0x0A000210 ?h" by (simp_all add: sim_host_ok)
  then have "arp_ok ?h" by (simp add: host_ok_def)
  then show "arp_lookup 0x0A000210 sample_host = Some [2, 0, 0, 0, 0, 2]"
    unfolding sample_host_def by (intro arp.look_add) (simp_all add: ok)
  show "host_ok 0xC000 sample_host" "our_ip sample_host = 0x0A00020F"
    unfolding sample_host_def using host_ok_add [OF ok(1)] by (simp_all add: sim_host_ok)
qed

lemma sample_echo_fields: "length (sample_echo n) = 2048" "le16_at (sample_echo n) 16 = n" "le32_at (sample_echo n) 26 = 0x0A000210"
    "le32_at (sample_echo n) 30 = 0x0A00020F" "sample_echo n ! 23 = 1" "sample_echo n ! 34 = 8"
  by (simp_all add: sample_echo_def le16_at_def le32_at_def nth_put16 nth_put32 nth_list_update le16_bytes)

theorem echo_reply_bounds_witness:
  "(\<exists>st' frame. ip_handle_packet sim_nic [] (replicate 512 0) (sample_echo 60) 74 sample_host = Inr st' \<and>
      sim_wire (dev st') = sim_wire (dev sample_host) @ [frame] \<and> length frame = 66) \<and>
   ip_handle_packet sim_nic [] (replicate 512 0) (sample_echo 1500) 74 sample_host = Inl OutOfBounds"
proof -
  have e: "echo_to_us (sample_echo n) sample_host" for n by (simp add: echo_to_us_def sample_echo_fields sample_host_ok)
  have m: "arp_lookup (le32_at (sample_echo n) 26) sample_host = Some [2, 0, 0, 0, 0, 2]" for n
    by (simp add: sample_echo_fields sample_host_ok)
  note t = echo_reply_bounds [OF sim.nic_card_axioms sample_host_ok(1) _ sample_echo_fields(1) e _ m, of "replicate 512 0" 74]
  from t [of 60 "[]"] t [of 1500 "[]"] show ?thesis by (simp add: sample_echo_fields)
qed

end
