(* ===== verification/Web.thy ===== *)
theory Web
  imports Net_Protocol
begin

text \<open>
  Name resolution (\<^verbatim>\<open>src/dns_simple.c\<close>), the HTTP client state of \<^verbatim>\<open>src/net.c\<close> and the text rendering
  of \<^verbatim>\<open>src/html.c\<close>. Shown here: the parser skips the question of an answer built from the same name
  and returns the address of the first answer record, the HTTP buffer holds exactly the segments
  that fit, and rendered text has no tags, stays in its buffer and never exceeds 80 columns.
  The calls into lwIP that the HTTP callbacks make are listed as values of \<open>tcp_call\<close>.
\<close>

section \<open>dns\_simple.c\<close>

text \<open>
  The labels of a name: the pointer \<^verbatim>\<open>dot\<close> runs to the next dot or the end; the length is stored in
  one byte.
\<close>

function dns_labels :: "string \<Rightarrow> u8 list" where
  "dns_labels name =
     (if name = [] then []
      else let seg = takeWhile (\<lambda>c. c \<noteq> CHR ''.'') name;
               rest = dropWhile (\<lambda>c. c \<noteq> CHR ''.'') name
        in of_nat (length seg) # map byte_of_char seg @ dns_labels (case rest of [] \<Rightarrow> [] | _ # r \<Rightarrow> r))"
  by pat_completeness auto
termination
proof (relation "measure length", simp)
  fix name :: string and seg rest
  assume "name \<noteq> []" "rest = dropWhile (\<lambda>c. c \<noteq> CHR ''.'') name"
  then have "length rest \<le> length name" by (simp add: length_dropWhile_le)
  with \<open>name \<noteq> []\<close> show "(case rest of [] \<Rightarrow> [] | _ # r \<Rightarrow> r, name) \<in> measure length" by (cases rest) auto
qed

declare dns_labels.simps [simp del]

definition le16_bytes_of :: "u16 \<Rightarrow> u8 list" where
  "le16_bytes_of v = [ucast v, ucast (drop_bit 8 v)]"

text \<open>The bytes are stored one after the other from the start of \<^verbatim>\<open>buffer\<close>; running behind its end is a fault.\<close>

definition build_dns_query :: "string \<Rightarrow> u8 list \<Rightarrow> (u8 list \<times> nat) result" where
  "build_dns_query name buffer =
     (let bytes = le16_bytes_of 0x1234 @ le16_bytes_of 0x0100 @ le16_bytes_of 1 @ le16_bytes_of 0 @ le16_bytes_of 0 @ le16_bytes_of 0 @
            dns_labels name @ [0] @ le16_bytes_of 0x0001 @ le16_bytes_of 0x0001
      in if length buffer < length bytes then Inl OutOfBounds
         else Inr (blit buffer 0 bytes, length bytes))"

text \<open>The loop over the question name, from offset \<open>i\<close>; a read behind the array is a fault.\<close>

function skip_name :: "u8 list \<Rightarrow> nat \<Rightarrow> nat \<Rightarrow> nat result" where
  "skip_name b n i =
     (if i < n
      then if length b \<le> i then Inl OutOfBounds
           else if b ! i = 0 then Inr (i + 1)
           else skip_name b n (i + unat (b ! i) + 1)
      else Inr i)"
  by pat_completeness auto
termination by (relation "measure (\<lambda>(b, n, i). n - i)") auto

declare skip_name.simps [simp del]

definition be16_at :: "u8 list \<Rightarrow> nat \<Rightarrow> u16" where
  "be16_at b i = push_bit 8 (ucast (b ! i)) OR ucast (b ! (i + 1))"

definition parse_dns_response :: "u8 list \<Rightarrow> nat \<Rightarrow> u32 result" where
  "parse_dns_response buffer len =
     (if len < 12 then Inr 0
      else if length buffer < 12 then Inl OutOfBounds
      else if le16_at buffer 6 = 0 then Inr 0
      else bind_result (skip_name buffer len 12) (\<lambda>i.
        let i = i + 4 + 2 in
        if length buffer < i + 10 then Inl OutOfBounds
        else let type = be16_at buffer i; data_len = be16_at buffer (i + 8); i = i + 10 in
          if type = 1 \<and> data_len = 4
          then if length buffer < i + 4 then Inl OutOfBounds
               else Inr (push_bit 24 (ucast (buffer ! i)) OR push_bit 16 (ucast (buffer ! (i + 1))) OR
                         push_bit 8 (ucast (buffer ! (i + 2))) OR ucast (buffer ! (i + 3)))
          else Inr 0))"

definition gateway_mac :: "u8 list" where
  "gateway_mac = [0x52, 0x54, 0x00, 0x12, 0x34, 0x56]"

text \<open>The frame with the query: Ethernet, IP and UDP header byte by byte, then the query.\<close>

definition dns_frame :: "u8 list \<Rightarrow> u8 list \<Rightarrow> u8 list" where
  "dns_frame mac query =
     (let total_len = (of_nat (20 + 8 + length query) :: u16); udp_len = (of_nat (8 + length query) :: u16)
      in gateway_mac @ take 6 mac @ [0x08, 0x00] @
         [0x45, 0x00, ucast (drop_bit 8 total_len), ucast (total_len AND 0xFF), 0x12, 0x34, 0x40, 0x00, 64, 17, 0x00, 0x00,
          10, 0, 2, 15, 8, 8, 8, 8] @
         [0x12, 0x34, 0x00, 0x35, ucast (drop_bit 8 udp_len), ucast (udp_len AND 0xFF), 0x00, 0x00] @ query)"

text \<open>The polling loop; \<open>rb\<close> is the 1024-byte receive array, \<open>irqs\<close> the interrupts to come.\<close>

fun dns_poll :: "'d nicbus \<Rightarrow> nat \<Rightarrow> u8 list \<Rightarrow> bool list \<Rightarrow> ('d, 'a) net_scheme \<Rightarrow> (u32 \<times> bool list \<times> ('d, 'a) net_scheme) result" where
  "dns_poll bus 0 rb irqs st = Inr (0, irqs, st)"
| "dns_poll bus (Suc n) rb irqs st =
     (let (avail, st) = rtl8139_packet_available bus st in
      bind_result
        (if tt avail
         then bind_result (rtl8139_receive_packet bus rb 1024 st) (\<lambda>(recv_len, rb, st).
                if recv_len > 42
                then bind_result (parse_dns_response (drop 42 rb) (nat recv_len - 42)) (\<lambda>ip. Inr (ip, rb, st))
                else Inr (0, rb, st))
         else Inr (0, rb, st))
        (\<lambda>(ip, rb, st).
          if ip \<noteq> 0 then Inr (ip, irqs, st)
          else case timer_sleep 20 irqs st of
            None \<Rightarrow> Inl NoEvent
          | Some (irqs, st) \<Rightarrow> dns_poll bus n rb irqs st))"

definition dns_resolve_simple :: "'d nicbus \<Rightarrow> u8 list \<Rightarrow> bool list \<Rightarrow> string \<Rightarrow> ('d, 'a) net_scheme \<Rightarrow>
    (u32 \<times> bool list \<times> ('d, 'a) net_scheme) result" where
  "dns_resolve_simple bus rb irqs hostname st =
     (let mac = rtl8139_get_mac st in
      bind_result (build_dns_query hostname (replicate 512 0)) (\<lambda>(buffer, len).
        let packet = dns_frame mac (take len buffer) in
        bind_result (rtl8139_send_packet bus packet (of_nat (length packet)) st) (\<lambda>(r, st).
          dns_poll bus 30 rb irqs st)))"

section \<open>The HTTP client of net.c\<close>

datatype tcp_call = TcpClose | TcpWrite string | TcpOutput | TcpRecved nat | PbufFree | TcpNew | TcpRecvCallback | TcpConnect u32 nat

definition http_connected :: "int \<Rightarrow> bool \<Rightarrow> ('d, 'a) net_scheme \<Rightarrow> tcp_call list \<times> ('d, 'a) net_scheme" where
  "http_connected err has_pcb st =
     (let st = st\<lparr>http_connecting := 0\<rparr> in
      if err \<noteq> 0 \<or> \<not> has_pcb then ([], st\<lparr>http_open := 0\<rparr>)
      else ([TcpWrite (''GET / HTTP/1.1'' @ [CR, NL] @ ''Host: example.com'' @ [CR, NL] @ ''Connection: close'' @ [CR, NL] @ [CR, NL]),
             TcpOutput], st))"

text \<open>A received segment: the payload of the first buffer and the total length, or NULL.\<close>

definition http_recv :: "int \<Rightarrow> bool \<Rightarrow> (char list \<times> nat) option \<Rightarrow> ('d, 'a) net_scheme \<Rightarrow> tcp_call list \<times> ('d, 'a) net_scheme" where
  "http_recv err has_pcb p st =
     (if err \<noteq> 0 \<or> \<not> has_pcb
      then (if has_pcb then [TcpClose] else [], st\<lparr>http_open := 0, http_connecting := 0\<rparr>)
      else case p of
        None \<Rightarrow> ([TcpClose], st\<lparr>http_open := 0, http_connecting := 0\<rparr>)
      | Some (data, tot_len) \<Rightarrow>
          let len = int (length data);
              st = (if http_response_len st + len < 8192 - 1
                    then let st = st\<lparr>http_response := blit (http_response st) (nat (http_response_len st)) data,
                                     http_response_len := http_response_len st + len\<rparr>
                         in st\<lparr>http_response := (http_response st)[nat (http_response_len st) := NUL], http_response_ready := 1\<rparr>
                    else st)
          in ([TcpRecved tot_len, PbufFree], st))"

definition http_dns_found :: "u32 option \<Rightarrow> bool \<Rightarrow> ('d, 'a) net_scheme \<Rightarrow> tcp_call list \<times> ('d, 'a) net_scheme" where
  "http_dns_found ipaddr new_ok st =
     (case ipaddr of
        None \<Rightarrow> ([], st\<lparr>http_connecting := 0\<rparr>)
      | Some ip \<Rightarrow>
          if \<not> new_ok then ([TcpNew], st\<lparr>http_open := 0, http_connecting := 0\<rparr>)
          else ([TcpNew, TcpRecvCallback, TcpConnect ip 80], st\<lparr>http_open := 1\<rparr>))"

definition http_get :: "'d nicbus \<Rightarrow> u8 list \<Rightarrow> bool list \<Rightarrow> string \<Rightarrow> string \<Rightarrow> ('d, 'a) net_scheme \<Rightarrow>
    (bool list \<times> ('d, 'a) net_scheme) result" where
  "http_get bus rb irqs host path st =
     (let st = st\<lparr>http_response_len := 0, http_response_ready := 0, http_response := (http_response st)[0 := NUL]\<rparr>;
          st = emit (''DNS resolving '' @ host @ ''...'' @ [NL]) st
      in bind_result (dns_resolve_simple bus rb irqs host st) (\<lambda>(ip, irqs, st).
           if ip = 0 then Inr (irqs, emit (''DNS failed!'' @ [NL]) st)
           else bind_result (print_ip ip (emit ''IP: '' st)) (\<lambda>st. Inr (irqs, emit [NL] st))))"

definition display_http_response :: "('d, 'a) net_scheme \<Rightarrow> ('d, 'a) net_scheme" where
  "display_http_response st =
     (if http_response_ready st = 0 then emit (''No HTTP response yet. Try again.'' @ [NL]) st
      else let st = emit ([NL] @ ''=== HTTP Response ==='' @ [NL] @ cstr (http_response st) @ [NL] @ ''=== End of Response ==='' @ [NL]) st
        in st\<lparr>http_response_ready := 0, http_response_len := 0\<rparr>)"

text \<open>
  \<^verbatim>\<open>browse\<close> copies the URL into \<^verbatim>\<open>char url_copy[512]\<close> without a bound. The local arrays are
  uninitialised; no element is read before it is written.
\<close>

definition split_url :: "string \<Rightarrow> (string \<times> string) result" where
  "split_url url =
     bind_result (strcpy (replicate 512 NUL) (url @ [NUL])) (\<lambda>url_copy.
     bind_result (strncmp url_copy (''http://'' @ [NUL]) 7) (\<lambda>cmp.
       let start = (if cmp = 0 then 7 else 0) in
       bind_result (strchr (drop start url_copy) (CHR ''/'')) (\<lambda>slash.
       bind_result
         (case slash of
            Some k \<Rightarrow> bind_result (strncpy (replicate 256 NUL) (drop (start + k) url_copy) 255) (\<lambda>path.
              Inr (path[255 := NUL], url_copy[start + k := NUL]))
          | None \<Rightarrow> bind_result (strcpy (replicate 256 NUL) (''/'' @ [NUL])) (\<lambda>path. Inr (path, url_copy)))
         (\<lambda>(path, url_copy).
       bind_result (strncpy (replicate 256 NUL) (drop start url_copy) 255) (\<lambda>host.
         Inr (cstr (host[255 := NUL]), cstr path))))))"

definition browse :: "'d nicbus \<Rightarrow> u8 list \<Rightarrow> bool list \<Rightarrow> string \<Rightarrow> ('d, 'a) net_scheme \<Rightarrow> (bool list \<times> ('d, 'a) net_scheme) result" where
  "browse bus rb irqs url st =
     bind_result (split_url url) (\<lambda>(host, path). http_get bus rb irqs host path st)"

section \<open>html.c\<close>

text \<open>The loop of \<^verbatim>\<open>strip_tags\<close>; \<open>room\<close> is what is left of \<^verbatim>\<open>max_len - 1\<close>.\<close>

fun strip_loop :: "string \<Rightarrow> int \<Rightarrow> nat \<Rightarrow> string" where
  "strip_loop [] in_tag room = []"
| "strip_loop (c # html) in_tag room =
     (if room = 0 then []
      else if c = CHR ''<'' then strip_loop html 1 room
      else if c = CHR ''>'' then strip_loop html 0 room
      else if in_tag = 0 then c # strip_loop html in_tag (room - 1)
      else strip_loop html in_tag room)"

definition strip_tags :: "string \<Rightarrow> char list \<Rightarrow> nat \<Rightarrow> char list result" where
  "strip_tags html buf max_len =
     (let t = strip_loop html 0 (max_len - 1) in
      if length buf \<le> length t then Inl OutOfBounds else Inr (blit buf 0 (t @ [NUL])))"

fun wrap_loop :: "string \<Rightarrow> int \<Rightarrow> string" where
  "wrap_loop [] col = []"
| "wrap_loop (c # page) col =
     (if c = NL \<or> c = CR then NL # wrap_loop page 0
      else if col + 1 \<ge> 80 then c # NL # wrap_loop page 0
      else c # wrap_loop page (col + 1))"

definition render_html :: "string \<Rightarrow> 'a console_scheme \<Rightarrow> 'a console_scheme result" where
  "render_html html st =
     bind_result (strip_tags html (replicate 4096 NUL) 4096) (\<lambda>page.
       Inr (emit (wrap_loop (cstr page) 0 @ [NL]) st))"

section \<open>Names on the wire\<close>

fun join_dots :: "string list \<Rightarrow> string" where
  "join_dots [] = []"
| "join_dots [l] = l"
| "join_dots (l # l' # ls) = l @ ''.'' @ join_dots (l' # ls)"

definition wire_label :: "string \<Rightarrow> u8 list" where
  "wire_label l = of_nat (length l) # map byte_of_char l"

definition good_label :: "string \<Rightarrow> bool" where
  "good_label l \<longleftrightarrow> l \<noteq> [] \<and> length l < 256 \<and> CHR ''.'' \<notin> set l"

lemma takeWhile_label: "CHR ''.'' \<notin> set l \<Longrightarrow> takeWhile (\<lambda>c. c \<noteq> CHR ''.'') (l @ CHR ''.'' # r) = l \<and>
    dropWhile (\<lambda>c. c \<noteq> CHR ''.'') (l @ CHR ''.'' # r) = CHR ''.'' # r"
  by (induction l) auto

lemma takeWhile_last: "CHR ''.'' \<notin> set l \<Longrightarrow> takeWhile (\<lambda>c. c \<noteq> CHR ''.'') l = l \<and> dropWhile (\<lambda>c. c \<noteq> CHR ''.'') l = []"
  by (induction l) auto

lemma labels_join: "\<forall>l\<in>set ls. good_label l \<Longrightarrow> dns_labels (join_dots ls) = concat (map wire_label ls)"
proof (induction ls rule: join_dots.induct)
  case 1
  show ?case by (simp add: dns_labels.simps)
next
  case (2 l)
  then have l: "l \<noteq> []" "takeWhile (\<lambda>c. c \<noteq> CHR ''.'') l = l" "dropWhile (\<lambda>c. c \<noteq> CHR ''.'') l = []"
    using takeWhile_last [of l] by (auto simp: good_label_def)
  show ?case unfolding join_dots.simps dns_labels.simps [of l] l(2,3) Let_def using l(1)
    by (simp add: wire_label_def dns_labels.simps [of "[]"])
next
  case (3 l l' ls)
  then have "CHR ''.'' \<notin> set l" by (simp add: good_label_def)
  from takeWhile_label [OF this, of "join_dots (l' # ls)"] 3 show ?case
    by (subst dns_labels.simps) (simp add: wire_label_def [abs_def])
qed

lemma skip_labels:
  assumes "\<forall>l\<in>set ls. good_label l" and "length pre + length (concat (map wire_label ls)) < n"
  shows "skip_name (pre @ concat (map wire_label ls) @ 0 # rest) n (length pre) = Inr (length pre + length (concat (map wire_label ls)) + 1)"
  using assms
proof (induction ls arbitrary: pre)
  case Nil
  then show ?case by (subst skip_name.simps) (simp add: nth_append)
next
  case (Cons l ls)
  let ?b = "pre @ concat (map wire_label (l # ls)) @ 0 # rest"
  have l: "l \<noteq> []" "length l < 256" using Cons.prems(1) by (simp_all add: good_label_def)
  then have u: "unat (of_nat (length l) :: u8) = length l" by (simp add: unat_of_nat)
  then have nz: "(of_nat (length l) :: u8) \<noteq> 0" using l(1) by (metis unat_0 length_0_conv)
  have at: "?b ! length pre = of_nat (length l)" by (simp add: wire_label_def nth_append)
  have "skip_name ?b n (length pre) = skip_name ?b n (length pre + length l + 1)"
    using Cons.prems(2) nz u at by (subst skip_name.simps) simp
  moreover have "?b = (pre @ wire_label l) @ concat (map wire_label ls) @ 0 # rest" by simp
  moreover have len: "length pre + length l + 1 = length (pre @ wire_label l)" by (simp add: wire_label_def)
  moreover have "skip_name ((pre @ wire_label l) @ concat (map wire_label ls) @ 0 # rest) n (length (pre @ wire_label l)) =
      Inr (length (pre @ wire_label l) + length (concat (map wire_label ls)) + 1)"
    by (rule Cons.IH) (use Cons.prems in simp_all)
  ultimately show ?case by (simp only: length_append concat.simps list.map add.assoc)
qed

section \<open>URLs\<close>

lemma strncmp_prefix:
  "nul_free s \<Longrightarrow> length s \<le> length as \<Longrightarrow> \<exists>d. strncmp as (s @ r) (length s) = Inr d \<and> (d = 0 \<longleftrightarrow> take (length s) as = s)"
proof (induction s arbitrary: as)
  case (Cons c s)
  then obtain a as' where as: "as = a # as'" by (cases as) auto
  show ?case
  proof (cases "a = c")
    case True
    then show ?thesis using Cons as by (auto simp: nul_free_def)
  next
    case False
    then have "uchar_diff a c \<noteq> 0" by (simp add: uchar_diff_def of_char_eq_iff)
    then show ?thesis using False as by simp
  qed
qed simp

lemma strchr_found: "nul_free h \<Longrightarrow> c \<notin> set h \<Longrightarrow> c \<noteq> NUL \<Longrightarrow> strchr_from (h @ c # r) c i = Inr (Some (i + length h))"
  by (induction h arbitrary: i) (auto simp: nul_free_def)

lemma strchr_missing: "nul_free h \<Longrightarrow> c \<notin> set h \<Longrightarrow> c \<noteq> NUL \<Longrightarrow> strchr_from (h @ NUL # r) c i = Inr None"
  by (induction h arbitrary: i) (auto simp: nul_free_def)

lemma strncpy_256:
  assumes "nul_free s" and "length s < 256"
  shows "\<exists>b. strncpy (replicate 256 NUL) (s @ NUL # r) 255 = Inr b \<and> cstr (b[255 := NUL]) = s"
proof -
  let ?b = "blit (replicate 256 NUL) 0 (take 255 s @ replicate (255 - length s) NUL)"
  let ?k = "255 - length s"
  have b: "?b = (s @ replicate ?k NUL) @ [NUL]"
    using assms blit_0 [of "take 255 s @ replicate ?k NUL" "replicate 256 NUL"] by simp
  have "length (s @ replicate ?k NUL) = 255" using assms(2) by simp
  then have "?b[255 := NUL] = (s @ replicate ?k NUL) @ [NUL]" unfolding b by (metis list_update_length)
  then have "cstr (?b[255 := NUL]) = s"
    using cstr_append_NUL [OF assms(1), of "replicate ?k NUL"] by (simp add: replicate_append_same)
  then show ?thesis using strncpy_from_terminated [OF assms(1), of "replicate 256 NUL" 0 255 r] by (simp add: strncpy_def)
qed

lemma split_url_parts:
  assumes free: "nul_free host" "nul_free path" and slash: "CHR ''/'' \<notin> set host"
    and path: "path = [] \<or> hd path = CHR ''/''"
    and scheme: "scheme = ''http://'' \<or> scheme = [] \<and> take 7 (host @ path) \<noteq> ''http://''"
    and len: "length (scheme @ host @ path) < 512" "length host < 256" "length path < 256"
  shows "split_url (scheme @ host @ path) = Inr (host, if path = [] then ''/'' else path)"
proof -
  let ?url = "scheme @ host @ path"
  define tail where "tail = replicate (511 - length ?url) NUL"
  let ?copy = "?url @ NUL # tail"
  have fs: "nul_free scheme" using scheme by (auto simp: nul_free_def NUL_def)
  then have fu: "nul_free ?url" using free by simp
  have "blit (replicate 512 NUL) 0 (?url @ [NUL]) = ?copy"
    using len(1) blit_0 [of "?url @ [NUL]" "replicate 512 NUL"] by (simp add: tail_def)
  then have cp: "strcpy (replicate 512 NUL) (?url @ [NUL]) = Inr ?copy"
    using strcpy_from_terminated [OF fu, of "replicate 512 NUL" 0 "[]"] len(1) by (simp add: strcpy_def)
  have l7: "length ''http://'' = 7" by simp
  have "7 \<le> length ?copy" using len(1) by (simp add: tail_def)
  moreover have "nul_free ''http://''" by (simp add: nul_free_def NUL_def)
  ultimately obtain d where d: "strncmp ?copy (''http://'' @ [NUL]) 7 = Inr d" "d = 0 \<longleftrightarrow> take 7 ?copy = ''http://''"
    using strncmp_prefix [of "''http://''" ?copy "[NUL]", unfolded l7] by blast
  have start: "(if d = 0 then 7 else 0) = length scheme"
  proof (cases "scheme = ''http://''")
    case False
    then have s: "scheme = []" "take 7 (host @ path) \<noteq> ''http://''" using scheme by auto
    have "take 7 ?copy \<noteq> ''http://''"
    proof
      assume eq: "take 7 ?copy = ''http://''"
      then have "NUL \<notin> set (take 7 ?copy)" by (simp add: NUL_def)
      then have "7 \<le> length (host @ path)" using s(1) by (auto simp: not_le take_Cons' split: if_splits)
      then have "take 7 ?copy = take 7 (host @ path)" using s(1) by simp
      with eq s(2) show False by simp
    qed
    then show ?thesis using s d by simp
  qed (use d in simp)
  have nth: "CHR ''/'' \<noteq> NUL" by (simp add: NUL_def)
  have host_b: "\<exists>b. strncpy (replicate 256 NUL) (host @ NUL # r) 255 = Inr b \<and> cstr (b[255 := NUL]) = host" for r
    by (rule strncpy_256 [OF free(1) len(2)])
  show ?thesis
  proof (cases path)
    case Nil
    have ch: "strchr (drop (length scheme) ?copy) (CHR ''/'') = Inr None"
      using strchr_missing [OF free(1) slash nth, of tail 0] Nil by (simp add: strchr_def)
    obtain b where b: "strncpy (replicate 256 NUL) (drop (length scheme) ?copy) 255 = Inr b" "cstr (b[255 := NUL]) = host"
      using host_b [of tail] Nil by auto
    have "nul_free ''/''" by (simp add: nul_free_def NUL_def)
    from strcpy_from_terminated [OF this, of "replicate 256 NUL" 0 "[]"]
    have "strcpy (replicate 256 NUL) (''/'' @ [NUL]) = Inr (''/'' @ NUL # replicate 254 NUL)"
      using blit_0 [of "''/'' @ [NUL]" "replicate 256 NUL"] by (simp add: strcpy_def)
    moreover have "cstr (''/'' @ NUL # replicate 254 NUL) = ''/''" by (rule cstr_append_NUL) (simp add: nul_free_def NUL_def)
    ultimately show ?thesis
      unfolding split_url_def cp bind_result_simps d(1) Let_def start ch option.case prod.case using Nil b by simp
  next
    case (Cons c p)
    then have c: "c = CHR ''/''" using path by simp
    have ch: "strchr (drop (length scheme) ?copy) (CHR ''/'') = Inr (Some (length host))"
      using strchr_found [OF free(1) slash nth, of "p @ NUL # tail" 0] Cons c by (simp add: strchr_def)
    obtain q where q: "strncpy (replicate 256 NUL) (drop (length scheme + length host) ?copy) 255 = Inr q" "cstr (q[255 := NUL]) = path"
      using strncpy_256 [OF free(2) len(3), of tail] by auto
    have upd: "?copy[length scheme + length host := NUL] = scheme @ host @ NUL # p @ NUL # tail"
      using Cons by (simp add: list_update_append)
    obtain b where b: "strncpy (replicate 256 NUL) (drop (length scheme) (scheme @ host @ NUL # p @ NUL # tail)) 255 = Inr b" "cstr (b[255 := NUL]) = host"
      using host_b [of "p @ NUL # tail"] by auto
    show ?thesis
      unfolding split_url_def cp bind_result_simps d(1) Let_def start ch option.case q(1) prod.case upd b(1) b(2) q(2)
      using Cons by simp
  qed
qed

lemma split_url_long: "nul_free url \<Longrightarrow> 512 \<le> length url \<Longrightarrow> split_url url = Inl OutOfBounds"
  using strcpy_from_terminated [of url "replicate 512 NUL" 0 "[]"] by (simp add: split_url_def strcpy_def)

section \<open>Rendered text\<close>

text \<open>What is left of a page without its tags.\<close>

fun untag :: "string \<Rightarrow> bool \<Rightarrow> string" where
  "untag [] t = []"
| "untag (c # html) t = (if c = CHR ''<'' then untag html True else if c = CHR ''>'' then untag html False
     else if t then untag html t else c # untag html t)"

lemma strip_untag: "strip_loop html t n = take n (untag html (t \<noteq> 0))"
proof (induction html t n rule: strip_loop.induct)
  case (2 c html t n)
  then show ?case by (cases n) (auto simp: strip_loop.simps)
qed simp

text \<open>The lines of a text, and the length of the longest line when the first continues at column \<open>k\<close>.\<close>

fun fits :: "nat \<Rightarrow> string \<Rightarrow> bool" where
  "fits k [] \<longleftrightarrow> k \<le> 80"
| "fits k (c # s) \<longleftrightarrow> k \<le> 80 \<and> fits (if c = NL then 0 else Suc k) s"

lemma wrap_fits: "k < 80 \<Longrightarrow> fits k (wrap_loop page (int k))"
proof (induction page arbitrary: k)
  case (Cons c page)
  have IH0: "fits 0 (wrap_loop page 0)" using Cons.IH [of 0] by simp
  show ?case
  proof (cases "c = NL \<or> c = CR")
    case True
    then show ?thesis using Cons.prems IH0 by auto
  next
    case False
    note plain = this
    show ?thesis
    proof (cases "80 \<le> Suc k")
      case True
      then show ?thesis using plain Cons.prems IH0 by auto
    next
      case False
      have e: "int k + 1 = int (Suc k)" by simp
      show ?thesis using plain Cons.prems Cons.IH [of "Suc k"] False unfolding wrap_loop.simps e by auto
    qed
  qed
qed simp

lemma wrap_content: "filter (\<lambda>c. c \<noteq> NL) (wrap_loop page k) = filter (\<lambda>c. c \<noteq> NL \<and> c \<noteq> CR) page"
  by (induction page arbitrary: k) auto

section \<open>Properties\<close>

text \<open>
  C25. The DNS parser finds the address: given an answer packet whose question is a name in wire form
  (any sequence of non-empty labels under 256 characters), as \<^verbatim>\<open>build_dns_query\<close> writes it, followed by
  a record of type A with four bytes of data, \<^verbatim>\<open>parse_dns_response\<close> returns these bytes as an
  address, whatever the other fields are and whatever follows.
\<close>

theorem dns_answer_parsed:
  assumes "\<forall>l\<in>set ls. good_label l" and "length hdr = 12" and "le16_at hdr 6 \<noteq> 0" and "length q = 4" and "length nm = 2"
    and "length cls_ttl = 6" and "packet = hdr @ dns_labels (join_dots ls) @ 0 # q @ nm @ [0, 1] @ cls_ttl @ [0, 4] @ [a, b, c, d] @ rest"
    and "length hdr + length (dns_labels (join_dots ls)) < len"
  shows "parse_dns_response packet len =
    Inr (push_bit 24 (ucast a) OR push_bit 16 (ucast b) OR push_bit 8 (ucast c) OR ucast d)"
proof -
  let ?w = "concat (map wire_label ls)"
  define rec where "rec = nm @ [0, 1] @ cls_ttl @ [0, 4] @ [a, b, c, d] @ rest"
  have p: "packet = hdr @ ?w @ 0 # q @ rec" using assms(7) by (simp add: labels_join [OF assms(1)] rec_def)
  define i where "i = length hdr + length ?w + 1 + 4 + 2"
  have skip: "skip_name packet len 12 = Inr (length hdr + length ?w + 1)"
    using skip_labels [OF assms(1), of hdr len "q @ rec"] assms(2,8) p by (simp add: labels_join [OF assms(1)])
  have r: "packet ! (i + k) = (drop 2 rec) ! k" if "k < 14" for k
  proof -
    have "packet = (hdr @ ?w @ [0] @ q @ nm) @ drop 2 rec" using p assms(5) by (simp add: rec_def)
    moreover have "i = length (hdr @ ?w @ [0] @ q @ nm)" using assms(4,5) by (simp add: i_def)
    ultimately show ?thesis by (metis nth_append_length_plus)
  qed
  have dr: "drop 2 rec = [0, 1] @ cls_ttl @ [0, 4] @ [a, b, c, d] @ rest" using assms(5) by (simp add: rec_def)
  have f: "packet ! i = 0" "packet ! (i + 1) = 1" "packet ! (i + 8) = 0" "packet ! (i + 8 + 1) = 4"
    "packet ! (i + 10) = a" "packet ! (i + 10 + 1) = b" "packet ! (i + 10 + 2) = c" "packet ! (i + 10 + 3) = d"
    using r [of 0] r [of 1] r [of 8] r [of 9] r [of 10] r [of 11] r [of 12] r [of 13] assms(6)
    unfolding dr by (simp_all add: nth_append add.commute)
  have h: "le16_at packet 6 \<noteq> 0" using assms(2,3) p by (simp add: le16_at_def nth_append)
  have len: "\<not> len < 12" "\<not> length packet < 12" "\<not> length packet < i + 10" "\<not> length packet < i + 10 + 4"
    using assms p by (simp_all add: rec_def i_def)
  have i': "length hdr + length ?w + 1 + 4 + 2 = i" by (simp add: i_def)
  show ?thesis unfolding parse_dns_response_def skip bind_result_simps Let_def i' be16_at_def f using len h by simp
qed

theorem dns_answer_parsed_witness:
  "parse_dns_response ([0x34, 0x12, 0x81, 0x80, 0, 1, 0, 1, 0, 0, 0, 0] @ dns_labels (join_dots [''example'', ''com'']) @
      0 # [0, 1, 0, 1] @ [0xC0, 0x0C] @ [0, 1] @ [0, 1, 0, 0, 0, 60] @ [0, 4] @ [93, 184, 216, 34] @ []) 41 = Inr 0x5DB8D822"
proof -
  have g: "\<forall>l\<in>set [''example'', ''com'']. good_label l" by (simp add: good_label_def)
  have n: "length (dns_labels (join_dots [''example'', ''com''])) = 12" using labels_join [OF g] by (simp add: wire_label_def)
  then have n: "length (dns_labels ''example.com'') = 12" by simp
  show ?thesis
    by (subst dns_answer_parsed [OF g _ _ _ _ _ refl]) (simp_all add: n le16_at_def)
qed

text \<open>
  The query's header is written in the byte order of the processor: on the wire the question count
  reads as 256 and the recursion flag is not set.
\<close>

lemma dns_query_counts: "length (dns_labels name) \<le> 400 \<Longrightarrow>
    \<exists>q n. build_dns_query name (replicate 512 0) = Inr (q, n) \<and> be16_at q 4 = 256 \<and> be16_at q 2 = 1"
  unfolding build_dns_query_def Let_def by (simp add: le16_bytes_of_def be16_at_def nth_list_update nth_blit)

text \<open>
  URL splitting: \<^verbatim>\<open>browse\<close> takes an address with or without \<^verbatim>\<open>http://\<close> apart into the host and the
  path (a slash when there is none), for hosts and paths under 256 characters; and the unbounded
  copy of the URL leaves the 512-byte array exactly for URLs of 512 characters and more.
\<close>

theorem url_split_correct:
  assumes "nul_free host" and "nul_free path" and "CHR ''/'' \<notin> set host" and "path = [] \<or> hd path = CHR ''/''"
    and "scheme = ''http://'' \<or> scheme = [] \<and> take 7 (host @ path) \<noteq> ''http://''" and "length host < 256" and "length path < 256"
  shows "split_url (scheme @ host @ path) =
    (if length (scheme @ host @ path) < 512 then Inr (host, if path = [] then ''/'' else path) else Inl OutOfBounds)"
proof (cases "length (scheme @ host @ path) < 512")
  case True
  then show ?thesis using split_url_parts [OF assms(1-5) True assms(6,7)] by simp
next
  case False
  have "nul_free scheme" using assms(5) by (auto simp: nul_free_def NUL_def)
  then have "nul_free (scheme @ host @ path)" using assms(1,2) by simp
  then show ?thesis using split_url_long False by (simp add: not_less)
qed

theorem url_split_correct_witness:
  "split_url (''http://'' @ ''example.com'' @ ''/a/b'') = Inr (''example.com'', ''/a/b'') \<and>
   split_url ([] @ ''example.com'' @ []) = Inr (''example.com'', ''/'')"
  using url_split_correct [of "''example.com''" "''/a/b''" "''http://''"] url_split_correct [of "''example.com''" "[]" "[]"]
  by (simp add: nul_free_def NUL_def)

text \<open>
  Rendering a page prints the text outside its tags, up to 4095 characters, with a line break after
  80 columns: no line is longer than 80 columns, nothing but line breaks is added and nothing but
  line breaks is dropped.
\<close>

theorem html_rendered:
  assumes "nul_free html"
  shows "\<exists>t. render_html html st = Inr (emit t st) \<and> fits 0 (butlast t) \<and> last t = NL \<and>
    filter (\<lambda>c. c \<noteq> NL) t = filter (\<lambda>c. c \<noteq> NL \<and> c \<noteq> CR) (take 4095 (untag html False))"
proof -
  let ?u = "take 4095 (untag html False)"
  have "set (untag html t) \<subseteq> set html" for t by (induction html t rule: untag.induct) auto
  then have free: "nul_free ?u" using assms by (auto simp: nul_free_def dest: in_set_takeD)
  have "strip_loop html 0 4095 = ?u" using strip_untag [of html 0 4095] by simp
  then have "strip_tags html (replicate 4096 NUL) 4096 = Inr (?u @ NUL # drop (Suc (length ?u)) (replicate 4096 NUL))"
    using blit_0 [of "?u @ [NUL]" "replicate 4096 NUL"] by (simp add: strip_tags_def Let_def)
  then have "render_html html st = Inr (emit (wrap_loop ?u 0 @ [NL]) st)"
    by (simp only: render_html_def bind_result_simps cstr_append_NUL [OF free])
  then show ?thesis using wrap_fits [of 0 ?u] wrap_content [of ?u 0] by (intro exI [of _ "wrap_loop ?u 0 @ [NL]"]) simp
qed

theorem html_rendered_witness:
  "\<exists>t. render_html ''<b>Hi</b> there'' \<lparr>out = []\<rparr> = Inr (emit t \<lparr>out = []\<rparr>) \<and> fits 0 (butlast t) \<and> last t = NL \<and>
    filter (\<lambda>c. c \<noteq> NL) t = ''Hi there''"
  using html_rendered [of "''<b>Hi</b> there''" "\<lparr>out = []\<rparr>"] by (simp add: nul_free_def NUL_def NL_def CR_def)

end
