(* ===== verification/Editor_Text.thy ===== *)
theory Editor_Text
  imports Editor
begin

text \<open>
  The editor of \<^verbatim>\<open>src/editor.c\<close> refines an editor on lists of lines. The loops that shift characters
  and rows are summed up by four lemmas on lists; each key is then a step of the abstract editor,
  and the locale \<open>stepwise\<close> carries single steps over to whole key sequences.
\<close>

section \<open>Step-by-step simulation\<close>

locale stepwise =
  fixes inv :: "'s \<Rightarrow> bool" and abs_state :: "'s \<Rightarrow> 'a" and step :: "'c \<Rightarrow> 's \<Rightarrow> 's result" and a_step :: "'c \<Rightarrow> 'a \<Rightarrow> 'a"
    and allowed :: "'c \<Rightarrow> bool"
  assumes step_ok: "inv s \<Longrightarrow> allowed c \<Longrightarrow> \<exists>s'. step c s = Inr s' \<and> inv s' \<and> abs_state s' = a_step c (abs_state s)"
begin

lemma run_ok: "inv s \<Longrightarrow> list_all allowed cs \<Longrightarrow>
    \<exists>s'. for_each step cs s = Inr s' \<and> inv s' \<and> abs_state s' = fold a_step cs (abs_state s)"
proof (induction cs arbitrary: s)
  case (Cons c cs)
  then obtain s1 where "step c s = Inr s1" "inv s1" "abs_state s1 = a_step c (abs_state s)"
    using step_ok [of s c] by auto
  with Cons.IH [of s1] Cons.prems(2) show ?case by auto
qed simp

end

section \<open>Loops over arrays\<close>

lemma at_nth [simp]: "i < length xs \<Longrightarrow> at xs (int i) = Inr (xs ! i)"
  by (simp add: at_def)

lemma put_nth [simp]: "i < length xs \<Longrightarrow> put xs (int i) x = Inr (xs[i := x])"
  by (simp add: put_def)

lemma for_each_append: "for_each f (xs @ ys) s = bind_result (for_each f xs s) (for_each f ys)"
proof (induction xs arbitrary: s)
  case (Cons x xs)
  show ?case by (cases "f x s") (simp_all add: Cons)
qed simp

lemma for_each_map: "for_each f (map g xs) s = for_each (\<lambda>x. f (g x)) xs s"
proof (induction xs arbitrary: s)
  case (Cons x xs)
  show ?case by (cases "f (g x) s") (simp_all add: Cons)
qed simp

lemma upto_shift: "[a + 1..b + 1] = map (\<lambda>i. i + 1) [a..b]" for a b :: int
proof (induction "nat (b - a + 1)" arbitrary: b)
  case (Suc n)
  then have "a \<le> b" and n: "n = nat (b - 1 - a + 1)" by simp_all
  with Suc.hyps(1) [OF n] show ?case by (simp add: upto_rec2 [of a b] upto_rec2 [of "a + 1" "b + 1"])
qed simp

text \<open>\<^verbatim>\<open>for (i = n; i >= k; i--) xs[i + 1] = xs[i]\<close>\<close>

lemma shift_up:
  "k + d < length xs \<Longrightarrow> for_each (\<lambda>i. move_elem i (i + 1)) (rev [int k..int k + int d - 1]) xs =
     Inr (take k xs @ xs ! k # take d (drop k xs) @ drop (k + d + 1) xs)"
proof (induction d arbitrary: xs)
  case 0
  then show ?case using id_take_nth_drop [of k xs] by simp
next
  case (Suc d)
  let ?xs = "xs[k + d + 1 := xs ! (k + d)]"
  have "rev [int k..int k + int (Suc d) - 1] = int (k + d) # rev [int k..int k + int d - 1]"
    by (simp add: upto_rec2)
  moreover have "move_elem (int (k + d)) (int (k + d) + 1) xs = Inr ?xs"
    using Suc.prems by (simp add: move_elem_def at_def put_def nat_add_distrib)
  moreover have "drop (k + d + 1) ?xs = xs ! (k + d) # drop (k + d + 2) xs"
    using Suc.prems by (simp add: drop_update_swap) (simp flip: Cons_nth_drop_Suc add: numeral_2_eq_2)
  moreover have "take d (drop k ?xs) = take d (drop k xs)" by (rule nth_equalityI) (use Suc.prems in auto)
  moreover have "take (Suc d) (drop k xs) = take d (drop k xs) @ [xs ! (k + d)]"
    using Suc.prems by (simp add: take_Suc_conv_app_nth)
  ultimately show ?case using Suc.IH [of ?xs] Suc.prems by (simp add: take_update_cancel numeral_2_eq_2)
qed

text \<open>\<^verbatim>\<open>for (i = k; i < n; i++) xs[i] = xs[i + 1]\<close>\<close>

lemma shift_down:
  "k + d < length xs \<Longrightarrow> for_each (\<lambda>i. move_elem (i + 1) i) [int k..int k + int d - 1] xs =
     Inr (take k xs @ take d (drop (k + 1) xs) @ drop (k + d) xs)"
proof (induction d arbitrary: k xs)
  case (Suc d)
  let ?xs = "xs[k := xs ! (k + 1)]"
  have "[int k..int k + int (Suc d) - 1] = int k # [int (Suc k)..int (Suc k) + int d - 1]"
    by (simp add: upto_rec1 [of "int k"] algebra_simps)
  moreover have "move_elem (int k + 1) (int k) xs = Inr ?xs"
    using Suc.prems by (simp add: move_elem_def at_def put_def nat_add_distrib)
  moreover have "take (Suc k) ?xs = take k xs @ [xs ! (k + 1)]"
    using Suc.prems by (simp add: take_Suc_conv_app_nth)
  moreover have "take (Suc d) (drop (k + 1) xs) = xs ! (k + 1) # take d (drop (Suc k + 1) xs)"
    using Suc.prems by (simp flip: Cons_nth_drop_Suc)
  ultimately show ?case using Suc.IH [of "Suc k" ?xs] Suc.prems by simp
qed simp

lemma copy_loop_text:
  "nul_free s \<Longrightarrow> i \<le> m \<Longrightarrow> m < length dest \<Longrightarrow>
   copy_loop dest (s @ NUL # rest) (int i) (int m + 1) = Inr (blit dest i (take (m - i) s @ [NUL]))"
proof (induction s arbitrary: dest i)
  case (Cons c s)
  show ?case
  proof (cases "i < m")
    case True
    then have "m - i = Suc (m - Suc i)" by simp
    with Cons.IH [of "Suc i" "dest[i := c]"] Cons.prems True show ?thesis
      by (auto simp: nul_free_def add.commute)
  next
    case False
    with Cons.prems show ?thesis by (simp add: nul_free_def)
  qed
qed simp

lemma copy_each:
  "p + n \<le> length dest \<Longrightarrow> n \<le> length src \<Longrightarrow>
   for_each (\<lambda>i dest. bind_result (at src i) (put dest (int p + i))) [0..int n - 1] dest = Inr (blit dest p (take n src))"
proof (induction n)
  case (Suc n)
  have "[0..int (Suc n) - 1] = [0..int n - 1] @ [int n]" by (simp add: upto_rec2)
  then show ?case using Suc
    by (simp add: for_each_append take_Suc_conv_app_nth blit_snoc flip: of_nat_add)
qed simp

section \<open>One row\<close>

definition holds :: "char list \<Rightarrow> string \<Rightarrow> bool" where
  "holds r s \<longleftrightarrow> length r = 121 \<and> nul_free s \<and> (\<exists>rest. r = s @ NUL # rest)"

lemma holdsE:
  assumes "holds r s" obtains rest where "r = s @ NUL # rest" "nul_free s" "length s + length rest = 120"
  using assms by (auto simp: holds_def)

lemma holdsI: "r = s @ NUL # rest \<Longrightarrow> nul_free s \<Longrightarrow> length s + length rest = 120 \<Longrightarrow> holds r s"
  by (auto simp: holds_def)

lemma holds_cstr: "holds r s \<Longrightarrow> cstr r = s"
  by (auto simp: holds_def cstr_append_NUL)

lemma holds_strlen: "holds r s \<Longrightarrow> strlen r = Inr (length s)" and holds_row_text: "holds r s \<Longrightarrow> row_text r = Inr s"
  by (auto simp: holds_def row_text_def)

lemma holds_length: "holds r s \<Longrightarrow> length r = 121" and holds_short: "holds r s \<Longrightarrow> length s \<le> 120"
  by (auto simp: holds_def)

lemma nul_free_parts: "nul_free s \<Longrightarrow> nul_free (take k s)" "nul_free s \<Longrightarrow> nul_free (drop k s)"
  by (auto simp: nul_free_def dest: in_set_takeD in_set_dropD)

lemma insert_in_row:
  assumes "holds r s" and "k \<le> length s" and "length s < 120" and "c \<noteq> NUL"
  shows "\<exists>r'. bind_result (for_each (\<lambda>i. move_elem i (i + 1)) (rev [int k..int (length s)]) r) (\<lambda>r. put r (int k) c) = Inr r' \<and>
    holds r' (take k s @ c # drop k s)"
proof -
  obtain rest where r: "r = s @ NUL # rest" "nul_free s" "length s + length rest = 120" using assms(1) by (rule holdsE)
  obtain x xs where rest: "rest = x # xs" using r(3) assms(3) by (cases rest) auto
  let ?d = "length s + 1 - k"
  have d: "int k + int ?d - 1 = int (length s)" using assms(2) by simp
  have "take ?d (drop k r) = drop k s @ [NUL]" "drop (k + ?d + 1) r = xs" "take k r = take k s"
    using assms(2) by (simp_all add: r(1) rest)
  then have "for_each (\<lambda>i. move_elem i (i + 1)) (rev [int k..int (length s)]) r = Inr (take k s @ r ! k # drop k s @ NUL # xs)"
    using shift_up [of k ?d r] assms(2) r(3) unfolding d by (simp add: r(1) rest)
  then show ?thesis
    using assms(2,4) r(2,3) rest
    by (intro exI [of _ "take k s @ c # drop k s @ NUL # xs"])
      (auto simp: list_update_append put_def nul_free_parts intro!: holdsI [of _ _ xs])
qed

lemma delete_in_row:
  assumes "holds r s" and "k < length s"
  shows "\<exists>r'. for_each (\<lambda>i. move_elem (i + 1) i) [int k..int (length s) - 1] r = Inr r' \<and> holds r' (take k s @ drop (k + 1) s)"
proof -
  obtain rest where r: "r = s @ NUL # rest" "nul_free s" "length s + length rest = 120" using assms(1) by (rule holdsE)
  let ?d = "length s - k"
  have d: "int k + int ?d - 1 = int (length s) - 1" using assms(2) by simp
  have "take ?d (drop (k + 1) r) = drop (k + 1) s @ [NUL]" "drop (k + ?d) r = NUL # rest" "take k r = take k s"
    using assms(2) by (simp_all add: r(1))
  then have "for_each (\<lambda>i. move_elem (i + 1) i) [int k..int (length s) - 1] r = Inr (take k s @ drop (k + 1) s @ NUL # NUL # rest)"
    using shift_down [of k ?d r] assms(2) unfolding d by (simp add: r(1))
  then show ?thesis
    using assms(2) r by (auto simp: nul_free_parts intro!: holdsI [of _ _ "NUL # rest"])
qed

lemma cut_row:
  assumes "holds r s" and "k \<le> length s"
  shows "\<exists>r'. put r (int k) NUL = Inr r' \<and> holds r' (take k s)"
proof -
  obtain rest where r: "r = s @ NUL # rest" "nul_free s" "length s + length rest = 120" using assms(1) by (rule holdsE)
  have "r[k := NUL] = take k s @ NUL # drop (k + 1) r" and "k < length r"
    using assms(2) upd_conv_take_nth_drop [of k r NUL] by (simp_all add: r(1))
  then show ?thesis using assms(2) r
    by (auto simp: nul_free_parts intro!: holdsI [of _ _ "drop (k + 1) r"])
qed

lemma copy_tail:
  assumes "holds r s" and "k \<le> length s" and "length dest = 121"
  shows "\<exists>r'. copy_string dest (drop k r) 121 = Inr r' \<and> holds r' (drop k s)"
proof -
  obtain rest where r: "r = s @ NUL # rest" "nul_free s" "length s + length rest = 120" using assms(1) by (rule holdsE)
  have "copy_string dest (drop k r) 121 = Inr (blit dest 0 (drop k s @ [NUL]))"
    using copy_loop_text [of "drop k s" 0 120 dest rest] r assms(2,3) by (simp add: copy_string_def nul_free_parts)
  then show ?thesis
    using r assms(3) by (auto simp: nul_free_parts blit_0 intro!: holdsI [of _ _ "drop (length s - k + 1) dest"])
qed

lemma join_rows:
  assumes "holds p s" and "holds q t" and "n = min (120 - length s) (length t)"
  shows "\<exists>r'. bind_result (for_each (\<lambda>i dest. bind_result (at q i) (put dest (int (length s) + i))) [0..int n - 1] p)
      (\<lambda>dest. put dest (int (length s) + int n) NUL) = Inr r' \<and> holds r' (take 120 (s @ t))"
proof -
  obtain rest where p: "p = s @ NUL # rest" "nul_free s" "length s + length rest = 120" using assms(1) by (rule holdsE)
  obtain rest' where q: "q = t @ NUL # rest'" "nul_free t" using assms(2) by (rule holdsE)
  have n: "length s + n \<le> 120" "n \<le> length t" using assms(3) p(3) by auto
  have "blit p (length s) (take n q) = s @ take n t @ drop (length s + n) p"
    using n p(3) by (simp add: blit_append p(1) q(1) min_def)
  moreover have "drop (length s + n) p = p ! (length s + n) # drop (length s + n + 1) p"
    using n p(3) by (simp add: p(1) flip: Cons_nth_drop_Suc)
  ultimately have "bind_result (for_each (\<lambda>i dest. bind_result (at q i) (put dest (int (length s) + i))) [0..int n - 1] p)
      (\<lambda>dest. put dest (int (length s) + int n) NUL) = Inr (s @ take n t @ NUL # drop (length s + n + 1) p)"
    using copy_each [of "length s" n p q] n p(3) by (simp add: p(1) q(1) list_update_append flip: of_nat_add)
  moreover have "take 120 (s @ t) = s @ take n t" using assms(3) p(3) by (auto simp: min_def)
  ultimately show ?thesis using n p q(2)
    by (auto simp: nul_free_parts intro!: holdsI [of _ _ "drop (length s + n + 1) p"])
qed

section \<open>The abstract editor\<close>

text \<open>The lines, the row of the cursor and its column.\<close>

type_synonym a_editor = "string list \<times> nat \<times> nat"

fun a_insert :: "char \<Rightarrow> a_editor \<Rightarrow> a_editor" where
  "a_insert c (ls, r, k) =
     (if 120 \<le> length (ls ! r) then (ls, r, k) else (ls[r := take k (ls ! r) @ c # drop k (ls ! r)], r, k + 1))"

fun a_newline :: "a_editor \<Rightarrow> a_editor" where
  "a_newline (ls, r, k) =
     (if 128 \<le> length ls then (ls, r, k)
      else (take r ls @ take k (ls ! r) # drop k (ls ! r) # drop (r + 1) ls, r + 1, 0))"

fun a_backspace :: "a_editor \<Rightarrow> a_editor" where
  "a_backspace (ls, r, k) =
     (if 0 < k then (ls[r := take (k - 1) (ls ! r) @ drop k (ls ! r)], r, k - 1)
      else if 0 < r then (take (r - 1) ls @ take 120 (ls ! (r - 1) @ ls ! r) # drop (r + 1) ls, r - 1, length (ls ! (r - 1)))
      else (ls, r, k))"

fun a_delete :: "a_editor \<Rightarrow> a_editor" where
  "a_delete (ls, r, k) =
     (if k < length (ls ! r) then (ls[r := take k (ls ! r) @ drop (k + 1) (ls ! r)], r, k)
      else if r + 1 < length ls then a_backspace (ls, r + 1, 0)
      else (ls, r, k))"

fun a_move :: "int \<Rightarrow> int \<Rightarrow> a_editor \<Rightarrow> a_editor" where
  "a_move drow dcol (ls, r, k) =
     (let r' = min (nat (int r + drow)) (length ls - 1) in (ls, r', min (nat (int k + dcol)) (length (ls ! r'))))"

definition a_key :: "char \<Rightarrow> a_editor \<Rightarrow> a_editor" where
  "a_key c e =
     (if c = NL then a_newline e
      else if c = BS then a_backspace e
      else if c = KEY_DELETE then a_delete e
      else if c = KEY_UP then a_move (- 1) 0 e
      else if c = KEY_DOWN then a_move 1 0 e
      else if c = KEY_LEFT then a_move 0 (- 1) e
      else if c = KEY_RIGHT then a_move 0 1 e
      else if 32 \<le> schar c \<and> schar c \<le> 126 then a_insert c e
      else e)"

definition ed_text :: "('d, 'a) editor_scheme \<Rightarrow> string list" where
  "ed_text st = map cstr (take (nat (line_count st)) (lines st))"

definition ed_abs :: "('d, 'a) editor_scheme \<Rightarrow> a_editor" where
  "ed_abs st = (ed_text st, nat (cursor_row st), nat (cursor_col st))"

definition ed_ok :: "('d, 'a) editor_scheme \<Rightarrow> bool" where
  "ed_ok st \<longleftrightarrow> length (lines st) = 128 \<and> (\<forall>r\<in>set (lines st). \<exists>s. holds r s) \<and>
     0 \<le> cursor_row st \<and> cursor_row st < line_count st \<and> line_count st \<le> 128 \<and>
     0 \<le> cursor_col st \<and> cursor_col st \<le> int (length (ed_text st ! nat (cursor_row st))) \<and>
     0 \<le> top_line st \<and> length (filename st) = 64 \<and> NUL \<in> set (filename st)"

text \<open>What the keys other than Ctrl-S leave alone.\<close>

definition same_files :: "('d, 'a) editor_scheme \<Rightarrow> ('d, 'a) editor_scheme \<Rightarrow> bool" where
  "same_files st st' \<longleftrightarrow> files st' = files st \<and> current_dir st' = current_dir st \<and> filename st' = filename st"

definition key_step :: "('d, 'a) editor_scheme \<Rightarrow> ('d, 'a) editor_scheme result \<Rightarrow> a_editor \<Rightarrow> bool" where
  "key_step st res e \<longleftrightarrow> (\<exists>st'. res = Inr st' \<and> ed_ok st' \<and> ed_abs st' = e \<and> same_files st st')"

lemma ed_rows:
  assumes "ed_ok st"
  obtains A r B C s where "lines st = A @ r # B @ C" "cursor_row st = int (length A)"
    "line_count st = int (length A + 1 + length B)" "holds r s" "cursor_col st \<le> int (length s)"
    "ed_text st = map cstr A @ s # map cstr B" "length A + length B + length C = 127"
    "\<forall>r\<in>set A \<union> set B \<union> set C. \<exists>s. holds r s"
proof -
  let ?r = "nat (cursor_row st)" and ?n = "nat (line_count st)" and ?L = "lines st"
  have b: "?r < ?n" "?n \<le> 128" "length ?L = 128" "0 \<le> cursor_row st" "0 \<le> line_count st" using assms by (auto simp: ed_ok_def)
  define A where "A = take ?r ?L"
  define B where "B = drop (?r + 1) (take ?n ?L)"
  define C where "C = drop ?n ?L"
  have m: "min ?r ?n = ?r" using b by linarith
  have r: "?r < length (take ?n ?L)" using b by (simp add: min_def)
  have AB: "take ?n ?L = A @ ?L ! ?r # B"
    using id_take_nth_drop [OF r] b(1) unfolding A_def B_def by (simp add: m del: zless_nat_eq_int_zless nat_less_iff)
  have L: "?L = A @ ?L ! ?r # B @ C" using AB append_take_drop_id [of ?n ?L] by (simp add: C_def)
  have m': "min 128 ?r = ?r" using b by linarith
  have lens: "length A = ?r" "length B = ?n - ?r - 1" "length C = 128 - ?n"
    using b m' by (simp_all add: A_def B_def C_def)
  have "?r < length ?L" using b by linarith
  then have "?L ! ?r \<in> set ?L" by (rule nth_mem)
  then obtain s where s: "holds (?L ! ?r) s" using assms by (auto simp: ed_ok_def)
  have T: "ed_text st = map cstr A @ s # map cstr B" by (simp add: ed_text_def AB holds_cstr [OF s])
  have "ed_text st ! ?r = s" using lens by (simp add: T nth_append)
  then have "cursor_col st \<le> int (length s)" using assms by (simp add: ed_ok_def)
  moreover have "set A \<union> set B \<union> set C \<subseteq> set ?L" by (subst L) auto
  then have "\<forall>r\<in>set A \<union> set B \<union> set C. \<exists>s. holds r s" using assms by (auto simp: ed_ok_def)
  ultimately show ?thesis using that [OF L _ _ s _ T] lens b by simp
qed

lemma ed_ok_rows:
  assumes "lines st = A @ r # B @ C" "cursor_row st = int (length A)" "line_count st = int (length A + 1 + length B)"
    "holds r s" "length A + length B + length C = 127" "\<forall>r\<in>set A \<union> set B \<union> set C. \<exists>s. holds r s"
    "cursor_col st = int k" "k \<le> length s" "0 \<le> top_line st" "length (filename st) = 64" "NUL \<in> set (filename st)"
  shows "ed_ok st" "ed_abs st = (map cstr A @ s # map cstr B, length A, k)"
proof -
  have "nat (int (length A + 1 + length B)) = length (A @ r # B)" by simp
  then have t: "ed_text st = map cstr A @ s # map cstr B"
    unfolding ed_text_def assms(1,3) using holds_cstr [OF assms(4)] by simp
  show "ed_abs st = (map cstr A @ s # map cstr B, length A, k)" using assms(2,7) by (simp add: ed_abs_def t)
  have "ed_text st ! nat (cursor_row st) = s" by (simp add: t assms(2) nth_append)
  then show "ed_ok st" using assms by (auto simp: ed_ok_def)
qed

lemma line_len_row:
  assumes "lines st = A @ r # B" "holds r s" "int (length A) < line_count st"
  shows "line_len (int (length A)) st = Inr (int (length s))"
proof -
  have "at (lines st) (int (length A)) = Inr r" using at_nth [of "length A" "lines st"] by (simp add: assms(1))
  then show ?thesis using assms(2,3) holds_strlen [OF assms(2)] by (simp add: line_len_def)
qed

lemma on_row_append:
  assumes "lines st = A @ r # B"
  shows "on_row (int (length A)) f st = bind_result (f r) (\<lambda>r'. Inr (st\<lparr>lines := A @ r' # B\<rparr>))"
proof -
  have "at (lines st) (int (length A)) = Inr r" using at_nth [of "length A" "lines st"] by (simp add: assms)
  then show ?thesis using assms by (simp add: on_row_def list_update_append)
qed

lemma ed_view:
  assumes ok: "ed_ok st"
  obtains A r B C s k where "lines st = A @ r # B @ C" "cursor_row st = int (length A)"
    "line_count st = int (length A + 1 + length B)" "holds r s" "length A + length B + length C = 127"
    "\<forall>r\<in>set A \<union> set B \<union> set C. \<exists>s. holds r s" "cursor_col st = int k" "k \<le> length s"
    "ed_abs st = (map cstr A @ s # map cstr B, length A, k)" "line_len (int (length A)) st = Inr (int (length s))"
proof -
  obtain A r B C s where d: "lines st = A @ r # B @ C" "cursor_row st = int (length A)"
      "line_count st = int (length A + 1 + length B)" "holds r s" "cursor_col st \<le> int (length s)"
      "ed_text st = map cstr A @ s # map cstr B" "length A + length B + length C = 127"
      "\<forall>r\<in>set A \<union> set B \<union> set C. \<exists>s. holds r s"
    using ok by (rule ed_rows)
  obtain k where k: "cursor_col st = int k" "k \<le> length s" using ok d(5) by (cases "cursor_col st") (auto simp: ed_ok_def)
  have e: "ed_abs st = (map cstr A @ s # map cstr B, length A, k)"
    using ok by (intro ed_ok_rows(2) [OF d(1-4,7,8) k]) (auto simp: ed_ok_def)
  show ?thesis by (rule that [OF d(1-4,7,8) k e line_len_row [OF d(1,4)]]) (simp add: d(3))
qed

lemma ed_frame: "ed_ok st \<Longrightarrow> 0 \<le> top_line st" "ed_ok st \<Longrightarrow> length (filename st) = 64" "ed_ok st \<Longrightarrow> NUL \<in> set (filename st)"
  by (auto simp: ed_ok_def)

section \<open>Every key is a step of the abstract editor\<close>

lemma insert_step:
  assumes ok: "ed_ok st" and c: "c \<noteq> NUL"
  shows "key_step st (insert_char c st) (a_insert c (ed_abs st))"
proof (rule ed_view [OF ok])
  fix A r B C s k
  assume d: "lines st = A @ r # B @ C" "cursor_row st = int (length A)" "line_count st = int (length A + 1 + length B)"
    "holds r s" "length A + length B + length C = 127" "\<forall>r\<in>set A \<union> set B \<union> set C. \<exists>s. holds r s"
    and k: "cursor_col st = int k" "k \<le> length s" and e: "ed_abs st = (map cstr A @ s # map cstr B, length A, k)"
    and len: "line_len (int (length A)) st = Inr (int (length s))"
  show ?thesis
  proof (cases "length s < 120")
    case False
    then show ?thesis using ok by (simp add: key_step_def same_files_def insert_char_def d(2) len e nth_append)
  next
    case True
    obtain r' where r': "bind_result (for_each (\<lambda>i. move_elem i (i + 1)) (rev [int k..int (length s)]) r) (\<lambda>r. put r (int k) c) = Inr r'"
        "holds r' (take k s @ c # drop k s)"
      using insert_in_row [OF d(4) k(2) True c] by blast
    let ?st = "st\<lparr>lines := A @ r' # B @ C, cursor_col := int (k + 1), dirty := 1\<rparr>"
    have "insert_char c st = Inr ?st"
      using True by (simp add: insert_char_def len k(1) d(2) on_row_append [OF d(1)] r'(1))
    moreover have "ed_ok ?st" "ed_abs ?st = (map cstr A @ (take k s @ c # drop k s) # map cstr B, length A, k + 1)"
      using ed_ok_rows [of ?st A r' B C _ "k + 1", OF _ _ _ r'(2) d(5,6)] d(2,3) ed_frame [OF ok] k(2) by simp_all
    ultimately show ?thesis using True by (simp add: key_step_def same_files_def e nth_append list_update_append)
  qed
qed

lemma newline_step:
  assumes ok: "ed_ok st"
  shows "key_step st (insert_newline st) (a_newline (ed_abs st))"
proof (rule ed_view [OF ok])
  fix A r B C s k
  assume d: "lines st = A @ r # B @ C" "cursor_row st = int (length A)" "line_count st = int (length A + 1 + length B)"
    "holds r s" "length A + length B + length C = 127" "\<forall>r\<in>set A \<union> set B \<union> set C. \<exists>s. holds r s"
    and k: "cursor_col st = int k" "k \<le> length s" and e: "ed_abs st = (map cstr A @ s # map cstr B, length A, k)"
    and len: "line_len (int (length A)) st = Inr (int (length s))"
  show ?thesis
  proof (cases C)
    case Nil
    then have "128 \<le> line_count st" "128 \<le> length (map cstr A @ s # map cstr B)" using d(3,5) by simp_all
    then show ?thesis using ok by (simp add: key_step_def same_files_def insert_newline_def e)
  next
    case (Cons x C')
    have C: "C = x # C'" by (rule Cons)
    obtain y where y: "y = hd (B @ [x])" "\<exists>t. holds y t" using d(6) by (cases B) (auto simp: C)
    have "take (length B) (B @ x # C') = B" by simp
    moreover have "(A @ r # B @ x # C') ! (length A + 1) = y" by (cases B) (simp_all add: y nth_append)
    ultimately have shift: "for_each (\<lambda>row. move_elem (row - 1) row) (rev [cursor_row st + 2..line_count st]) (lines st) =
        Inr (A @ r # y # B @ C')"
      using shift_up [of "length A + 1" "length B" "lines st"] upto_shift [of "int (length A) + 1" "int (length A) + int (length B)"]
      by (simp add: d(1-3) C rev_map for_each_map algebra_simps)
    obtain r1 where r1: "copy_string y (drop k r) 121 = Inr r1" "holds r1 (drop k s)"
      using copy_tail [OF d(4) k(2)] y(2) holds_length by blast
    obtain r2 where r2: "put r (int k) NUL = Inr r2" "holds r2 (take k s)" using cut_row [OF d(4) k(2)] by blast
    let ?st = "st\<lparr>lines := (A @ [r2]) @ r1 # B @ C', line_count := line_count st + 1, cursor_row := cursor_row st + 1, cursor_col := 0, dirty := 1\<rparr>"
    have a: "at (A @ r # y # B @ C') (int (length A)) = Inr r" using at_nth [of "length A" "A @ r # y # B @ C'"] by simp
    have "on_row (int (length A) + 1) (\<lambda>dest. copy_string dest (drop k r) 121) (st\<lparr>lines := A @ r # y # B @ C'\<rparr>) =
        Inr (st\<lparr>lines := A @ r # r1 # B @ C'\<rparr>)"
      using on_row_append [of "st\<lparr>lines := A @ r # y # B @ C'\<rparr>" "A @ [r]" y "B @ C'"] r1(1) by (simp add: add.commute)
    moreover have "on_row (int (length A)) (\<lambda>r. put r (int k) NUL) (st\<lparr>lines := A @ r # r1 # B @ C'\<rparr>) =
        Inr (st\<lparr>lines := A @ r2 # r1 # B @ C'\<rparr>)"
      using on_row_append [of "st\<lparr>lines := A @ r # r1 # B @ C'\<rparr>" A r "r1 # B @ C'"] r2(1) by simp
    ultimately have "insert_newline st = Inr ?st"
      using shift d(5) by (simp add: insert_newline_def d(2,3) k(1) len a C)
    moreover have "ed_ok ?st" "ed_abs ?st = (map cstr (A @ [r2]) @ drop k s # map cstr B, length A + 1, 0)"
      using ed_ok_rows [of ?st "A @ [r2]" r1 B C' _ 0, OF _ _ _ r1(2)] r2(2) d(2,3,5,6) ed_frame [OF ok] by (auto simp: C)
    ultimately show ?thesis using d(5) holds_cstr [OF r2(2)]
      by (simp add: key_step_def same_files_def e nth_append C)
  qed
qed

lemma snoc_cases_nonempty: "xs \<noteq> [] \<Longrightarrow> \<exists>ys y. xs = ys @ [y]"
  by (cases xs rule: rev_cases) auto

lemma drop_rows:
  "for_each (\<lambda>row. move_elem (row + 1) row) [int (length A + 1)..int (length A + 1 + length B) - 1] (A @ p # q # B @ C) =
   Inr (A @ p # B @ last (q # B) # C)"
proof -
  have "drop (length B) (q # B) = [last (q # B)]"
    using snoc_cases_nonempty [of "q # B"] by (metis append_eq_conv_conj diff_Suc_1 last_snoc length_Cons length_append_singleton list.distinct(1))
  then have "drop (length A + 1 + length B) (A @ p # q # B @ C) = last (q # B) # C"
    by (simp add: drop_Cons' split: if_splits)
  then show ?thesis using shift_down [of "length A + 1" "length B" "A @ p # q # B @ C"] by simp
qed

lemma backspace_step:
  assumes ok: "ed_ok st"
  shows "key_step st (backspace_char st) (a_backspace (ed_abs st))"
proof (rule ed_view [OF ok])
  fix A r B C s k
  assume d: "lines st = A @ r # B @ C" "cursor_row st = int (length A)" "line_count st = int (length A + 1 + length B)"
    "holds r s" "length A + length B + length C = 127" "\<forall>r\<in>set A \<union> set B \<union> set C. \<exists>s. holds r s"
    and k: "cursor_col st = int k" "k \<le> length s" and e: "ed_abs st = (map cstr A @ s # map cstr B, length A, k)"
    and len: "line_len (int (length A)) st = Inr (int (length s))"
  consider (char) "0 < k" | (row) "k = 0" "A \<noteq> []" | (none) "k = 0" "A = []" by blast
  then show ?thesis
  proof cases
    case none
    then show ?thesis using ok by (simp add: key_step_def same_files_def backspace_char_def k(1) d(2) e)
  next
    case char
    obtain r' where r': "for_each (\<lambda>i. move_elem (i + 1) i) [int (k - 1)..int (length s) - 1] r = Inr r'"
        "holds r' (take (k - 1) s @ drop (k - 1 + 1) s)"
      using delete_in_row [OF d(4), of "k - 1"] char k(2) by fastforce
    let ?st = "st\<lparr>lines := A @ r' # B @ C, cursor_col := int (k - 1), dirty := 1\<rparr>"
    have "backspace_char st = Inr ?st"
      using char r'(1) by (simp add: backspace_char_def len k(1) d(2) on_row_append [OF d(1)] of_nat_diff)
    moreover have "ed_ok ?st" "ed_abs ?st = (map cstr A @ (take (k - 1) s @ drop k s) # map cstr B, length A, k - 1)"
      using ed_ok_rows [of ?st A r' B C _ "k - 1", OF _ _ _ r'(2) d(5,6)] d(2,3) ed_frame [OF ok] k(2) char by simp_all
    ultimately show ?thesis using char by (simp add: key_step_def same_files_def e nth_append list_update_append)
  next
    case row
    obtain A' p where A: "A = A' @ [p]" using snoc_cases_nonempty [OF row(2)] by blast
    obtain t where t: "holds p t" using d(6) by (auto simp: A)
    let ?n = "min (120 - length t) (length s)"
    obtain r' where r': "bind_result (for_each (\<lambda>i dest. bind_result (at r i) (put dest (int (length t) + i))) [0..int ?n - 1] p)
        (\<lambda>dest. put dest (int (length t) + int ?n) NUL) = Inr r'" "holds r' (take 120 (t @ s))"
      using join_rows [OF t d(4) refl] by blast
    have prev: "line_len (int (length A')) st = Inr (int (length t))"
      by (rule line_len_row [of _ _ p "r # B @ C"]) (simp_all add: d(1,3) A t)
    have n: "(if int (length s) < 120 - int (length t) then int (length s) else 120 - int (length t)) = int ?n"
      using holds_short [OF t] by simp
    have a: "at (lines st) (int (length A) ) = Inr r" using at_nth [of "length A" "lines st"] by (simp add: d(1))
    have 1: "on_row (int (length A')) f st = bind_result (f p) (\<lambda>r'. Inr (st\<lparr>lines := A' @ r' # r # B @ C\<rparr>))" for f
      by (rule on_row_append) (simp add: d(1) A)
    have 2: "for_each (\<lambda>row. move_elem (row + 1) row) [cursor_row st..line_count st - 2] (A' @ r' # r # B @ C) =
        Inr (A' @ r' # B @ last (r # B) # C)"
      using drop_rows [of A' B r' r C] by (simp add: d(2,3) A algebra_simps)
    let ?st = "st\<lparr>lines := A' @ r' # B @ (last (r # B) # C), line_count := line_count st - 1, cursor_row := cursor_row st - 1,
        cursor_col := int (length t), dirty := 1\<rparr>"
    have "backspace_char st = Inr ?st"
      unfolding backspace_char_def using row prev len a r'(1) 1 2 n by (simp add: k(1) d(2,3) A Let_def)
    moreover have "\<exists>s. holds (last (r # B)) s" using d(4,6) by (cases B rule: rev_cases) auto
    then have "ed_ok ?st" "ed_abs ?st = (map cstr A' @ take 120 (t @ s) # map cstr B, length A', length t)"
      using ed_ok_rows [of ?st A' r' B "last (r # B) # C" _ "length t", OF _ _ _ r'(2)] d(2,3,5,6) ed_frame [OF ok] holds_short [OF t]
      by (auto simp: A)
    ultimately show ?thesis using row holds_cstr [OF t]
      by (simp add: key_step_def same_files_def e nth_append A)
  qed
qed

lemma delete_step:
  assumes ok: "ed_ok st"
  shows "key_step st (delete_char st) (a_delete (ed_abs st))"
proof (rule ed_view [OF ok])
  fix A r B C s k
  assume d: "lines st = A @ r # B @ C" "cursor_row st = int (length A)" "line_count st = int (length A + 1 + length B)"
    "holds r s" "length A + length B + length C = 127" "\<forall>r\<in>set A \<union> set B \<union> set C. \<exists>s. holds r s"
    and k: "cursor_col st = int k" "k \<le> length s" and e: "ed_abs st = (map cstr A @ s # map cstr B, length A, k)"
    and len: "line_len (int (length A)) st = Inr (int (length s))"
  consider (char) "k < length s" | (row) "k = length s" "B \<noteq> []" | (none) "k = length s" "B = []" using k(2) by linarith
  then show ?thesis
  proof cases
    case none
    then show ?thesis using ok by (simp add: key_step_def same_files_def delete_char_def len k(1) d(2,3) e nth_append)
  next
    case char
    obtain r' where r': "for_each (\<lambda>i. move_elem (i + 1) i) [int k..int (length s) - 1] r = Inr r'"
        "holds r' (take k s @ drop (k + 1) s)"
      using delete_in_row [OF d(4) char] by blast
    let ?st = "st\<lparr>lines := A @ r' # B @ C, dirty := 1\<rparr>"
    have "delete_char st = Inr ?st"
      using char r'(1) by (simp add: delete_char_def len k(1) d(2) on_row_append [OF d(1)])
    moreover have "ed_ok ?st" "ed_abs ?st = (map cstr A @ (take k s @ drop (k + 1) s) # map cstr B, length A, k)"
      using ed_ok_rows [of ?st A r' B C _ k, OF _ _ _ r'(2) d(5,6)] d(2,3) ed_frame [OF ok] k char by simp_all
    ultimately show ?thesis using char by (simp add: key_step_def same_files_def e nth_append list_update_append)
  next
    case row
    then obtain q B' where B: "B = q # B'" by (cases B) auto
    obtain t where t: "holds q t" using d(6) by (auto simp: B)
    let ?st = "st\<lparr>cursor_row := cursor_row st + 1, cursor_col := 0\<rparr>"
    have st: "ed_ok ?st" "ed_abs ?st = (map cstr (A @ [r]) @ t # map cstr B', length (A @ [r]), 0)"
      using ed_ok_rows [of ?st "A @ [r]" q B' C t 0] t d ed_frame [OF ok] by (auto simp: B)
    have "delete_char st = backspace_char ?st" using row by (simp add: delete_char_def len k(1) d(2,3))
    moreover have "a_delete (ed_abs st) = a_backspace (ed_abs ?st)"
      using row by (simp add: e st(2) holds_cstr [OF d(4)] holds_cstr [OF t] B nth_append del: a_backspace.simps)
    ultimately show ?thesis using backspace_step [OF st(1)] by (simp add: key_step_def same_files_def)
  qed
qed

lemma ed_ok_cursor:
  assumes ok: "ed_ok st" and "r < length (ed_text st)" and "k \<le> length (ed_text st ! r)"
  shows "ed_ok (st\<lparr>cursor_row := int r, cursor_col := int k\<rparr>)" "ed_abs (st\<lparr>cursor_row := int r, cursor_col := int k\<rparr>) = (ed_text st, r, k)"
  using assms by (auto simp: ed_ok_def ed_abs_def ed_text_def)

lemma ed_text_facts:
  assumes "ed_ok st"
  shows "length (ed_text st) = nat (line_count st)" "0 < line_count st"
    "r < length (ed_text st) \<Longrightarrow> line_len (int r) st = Inr (int (length (ed_text st ! r)))"
proof -
  show len: "length (ed_text st) = nat (line_count st)" and "0 < line_count st" using assms by (auto simp: ed_ok_def ed_text_def)
  assume r: "r < length (ed_text st)"
  then have "r < 128" using assms len by (auto simp: ed_ok_def)
  then have "lines st = take r (lines st) @ lines st ! r # drop (r + 1) (lines st)" and l: "length (take r (lines st)) = r"
    using assms by (auto simp: ed_ok_def id_take_nth_drop)
  moreover have "lines st ! r \<in> set (lines st)" using assms \<open>r < 128\<close> by (intro nth_mem) (simp add: ed_ok_def)
  then obtain s where s: "holds (lines st ! r) s" using assms by (auto simp: ed_ok_def)
  have "ed_text st ! r = s" using r len holds_cstr [OF s] \<open>r < 128\<close> assms by (simp add: ed_text_def ed_ok_def)
  ultimately show "line_len (int r) st = Inr (int (length (ed_text st ! r)))"
    using line_len_row [of st "take r (lines st)" "lines st ! r" _ s] r len s by (simp add: l)
qed

lemma move_cursor_form:
  fixes st :: "('d, 'a) editor_scheme" and drow dcol :: int
  defines "r0 \<equiv> max 0 (cursor_row st + drow)" and "k \<equiv> max 0 (cursor_col st + dcol)"
  defines "r \<equiv> (if line_count st \<le> r0 then line_count st - 1 else r0)"
  shows "move_cursor drow dcol st = bind_result (line_len r (st\<lparr>cursor_row := r, cursor_col := k\<rparr>)) (\<lambda>len.
    Inr (if k > len then st\<lparr>cursor_row := r, cursor_col := len\<rparr> else st\<lparr>cursor_row := r, cursor_col := k\<rparr>))"
  by (cases "cursor_row st + drow < 0"; cases "line_count st \<le> r0"; cases "cursor_col st + dcol < 0")
    (simp_all add: move_cursor_def Let_def r_def r0_def k_def max_def cong: if_cong)

lemma move_step:
  assumes ok: "ed_ok st"
  shows "key_step st (move_cursor drow dcol st) (a_move drow dcol (ed_abs st))"
proof -
  define r where "r = min (nat (int (nat (cursor_row st)) + drow)) (length (ed_text st) - 1)"
  define k where "k = min (nat (int (nat (cursor_col st)) + dcol)) (length (ed_text st ! r))"
  note t = ed_text_facts [OF ok]
  have r: "r < length (ed_text st)" using t(1,2) by (auto simp: r_def min_def)
  have pos: "0 \<le> cursor_row st" "0 \<le> cursor_col st" using ok by (simp_all add: ed_ok_def)
  have 1: "(if line_count st \<le> max 0 (cursor_row st + drow) then line_count st - 1 else max 0 (cursor_row st + drow)) = int r"
    using t(1,2) pos by (auto simp: r_def min_def max_def)
  have 2: "(if max 0 (cursor_col st + dcol) > int (length (ed_text st ! r)) then st\<lparr>cursor_row := int r, cursor_col := int (length (ed_text st ! r))\<rparr>
      else st\<lparr>cursor_row := int r, cursor_col := max 0 (cursor_col st + dcol)\<rparr>) = st\<lparr>cursor_row := int r, cursor_col := int k\<rparr>"
    using pos by (auto simp: k_def min_def max_def)
  have "line_len (int r) (st\<lparr>cursor_row := a, cursor_col := b\<rparr>) = Inr (int (length (ed_text st ! r)))" for a b
    using t(3) [OF r] by (simp add: line_len_def split: if_splits)
  then have "move_cursor drow dcol st = Inr (st\<lparr>cursor_row := int r, cursor_col := int k\<rparr>)"
    unfolding move_cursor_form 1 by (simp add: 2)
  moreover have "a_move drow dcol (ed_abs st) = (ed_text st, r, k)" by (simp add: ed_abs_def r_def k_def Let_def)
  ultimately show ?thesis using ed_ok_cursor [OF ok r, of k] by (simp add: key_step_def same_files_def k_def)
qed

lemma key_step_all:
  assumes ok: "ed_ok st" and c: "c \<noteq> CHR 0x13"
  shows "key_step st (editor_key bus c st) (a_key c (ed_abs st))"
proof -
  have "schar NUL = 0" by (simp add: schar_def NUL_def)
  then have "c \<noteq> NUL" if "32 \<le> schar c" using that by auto
  moreover have "key_step st (Inr st) (ed_abs st)" using ok by (simp add: key_step_def same_files_def)
  ultimately show ?thesis
    using c newline_step [OF ok] backspace_step [OF ok] delete_step [OF ok] move_step [OF ok] insert_step [OF ok, of c]
    by (simp add: editor_key_def a_key_def)
qed

section \<open>The picture\<close>

lemma grid_put_cell [simp]: "grid (put_cell row col c st) = (grid st)(row := (grid st row)(col := c))"
    "(put_cell row col c st)\<lparr>grid := g\<rparr> = st\<lparr>grid := g\<rparr>"
  by (simp_all add: put_cell_def)

lemma grid_cong: "g = h \<Longrightarrow> st\<lparr>grid := g\<rparr> = st\<lparr>grid := h\<rparr>"
  by simp

lemma grid_same: "g = grid st \<Longrightarrow> st = st\<lparr>grid := g\<rparr>"
  by simp

lemma put_cells:
  "fold (\<lambda>col. put_cell row col c) cols st =
   st\<lparr>grid := (grid st)(row := (\<lambda>k. if k \<in> set cols then c else grid st row k))\<rparr>"
proof (induction cols arbitrary: st)
  case (Cons k cols)
  show ?case by (simp add: Cons) (rule grid_cong, auto simp: fun_eq_iff)
qed simp

lemma clear_line_grid:
  "clear_screen_line row st = st\<lparr>grid := (grid st)(row := (\<lambda>k. if 0 \<le> k \<and> k < 80 then CHR '' '' else grid st row k))\<rparr>"
  unfolding clear_screen_line_def put_cells by (rule grid_cong) (auto simp: fun_eq_iff)

lemma draw_string_grid:
  "draw_string_at row col s st = st\<lparr>grid := (grid st)(row := (\<lambda>k. if col \<le> k \<and> k < 80 \<and> k < col + int (length s)
     then s ! nat (k - col) else grid st row k))\<rparr>"
proof (induction s arbitrary: col st)
  case (Cons c s)
  have n: "nat (k - (col + 1)) = nat (k - col) - Suc 0" for k by simp
  show ?case
  proof (cases "col < 80")
    case True
    then show ?thesis by (simp add: Cons) (rule grid_cong, auto simp: fun_eq_iff n)
  next
    case False
    then show ?thesis by simp (rule grid_same, auto simp: fun_eq_iff)
  qed
qed (simp, rule grid_same, auto simp: fun_eq_iff)

text \<open>The character of row \<open>r\<close> and column \<open>c\<close> of a text, a blank outside of it.\<close>

definition char_at :: "string list \<Rightarrow> int \<Rightarrow> int \<Rightarrow> char" where
  "char_at ls r c = (if 0 \<le> r \<and> r < int (length ls) \<and> 0 \<le> c \<and> c < int (length (ls ! nat r)) then ls ! nat r ! nat c else CHR '' '')"

lemma ed_text_upd [simp]: "ed_text (st\<lparr>grid := g\<rparr>) = ed_text st" "ed_text (st\<lparr>top_line := n\<rparr>) = ed_text st"
    "ed_text (st\<lparr>dev := d\<rparr>) = ed_text st" "ed_text (st\<lparr>dirty := b\<rparr>) = ed_text st" "ed_text (emit t st) = ed_text st"
    "ed_text (st\<lparr>files := fs\<rparr>) = ed_text st"
  by (simp_all add: ed_text_def emit_def)

lemma ed_ok_upd [simp]: "ed_ok (st\<lparr>grid := g\<rparr>) = ed_ok st" "ed_ok (st\<lparr>dev := d\<rparr>) = ed_ok st" "ed_ok (st\<lparr>dirty := b\<rparr>) = ed_ok st"
    "ed_ok (emit t st) = ed_ok st" "ed_ok (st\<lparr>files := fs\<rparr>) = ed_ok st"
  by (simp_all add: ed_ok_def) (simp_all add: emit_def)

lemma ed_abs_upd [simp]: "ed_abs (st\<lparr>grid := g\<rparr>) = ed_abs st" "ed_abs (st\<lparr>dev := d\<rparr>) = ed_abs st" "ed_abs (st\<lparr>dirty := b\<rparr>) = ed_abs st"
    "ed_abs (emit t st) = ed_abs st" "ed_abs (st\<lparr>files := fs\<rparr>) = ed_abs st" "ed_abs (st\<lparr>top_line := n\<rparr>) = ed_abs st"
  by (simp_all add: ed_abs_def) (simp_all add: emit_def)

lemma row_of_text:
  assumes "ed_ok st" and "r < length (ed_text st)"
  shows "at (lines st) (int r) = Inr (lines st ! r)" "row_text (lines st ! r) = Inr (ed_text st ! r)"
proof -
  have r: "r < length (lines st)" using assms by (auto simp: ed_ok_def ed_text_def)
  then show "at (lines st) (int r) = Inr (lines st ! r)" by simp
  have "lines st ! r \<in> set (lines st)" using r by simp
  then obtain s where s: "holds (lines st ! r) s" using assms(1) by (auto simp: ed_ok_def)
  then show "row_text (lines st ! r) = Inr (ed_text st ! r)"
    using holds_cstr [OF s] holds_row_text [OF s] assms(2) r by (simp add: ed_text_def)
qed

lemma draw_row_grid:
  assumes ok: "ed_ok st" and r: "0 \<le> r"
  shows "draw_row r st = Inr (st\<lparr>grid := (grid st)(r := (\<lambda>c. if 0 \<le> c \<and> c < 80 then char_at (ed_text st) (top_line st + r) c
    else grid st r c))\<rparr>)"
proof (cases "top_line st + r < line_count st")
  case True
  let ?n = "nat (top_line st + r)"
  have pos: "0 \<le> top_line st + r" using r ed_frame(1) [OF ok] by simp
  then have n: "top_line st + r = int ?n" and len: "?n < length (ed_text st)" using True by (simp_all add: ed_text_facts(1) [OF ok])
  show ?thesis using True row_of_text [OF ok len] pos len unfolding draw_row_def Let_def clear_line_grid
    by (simp add: n [symmetric] draw_string_grid) (rule grid_cong, auto simp: fun_eq_iff char_at_def)
next
  case False
  then show ?thesis unfolding draw_row_def Let_def clear_line_grid
    by simp (rule grid_cong, auto simp: fun_eq_iff char_at_def ed_text_facts(1,2) [OF ok])
qed

lemma draw_rows_grid:
  assumes ok: "ed_ok st"
  shows "for_each draw_row [0..int n - 1] st = Inr (st\<lparr>grid := (\<lambda>r c. if 0 \<le> r \<and> r < int n \<and> 0 \<le> c \<and> c < 80
    then char_at (ed_text st) (top_line st + r) c else grid st r c)\<rparr>)"
proof (induction n)
  case (Suc n)
  have "[0..int (Suc n) - 1] = [0..int n - 1] @ [int n]" by (simp add: upto_rec2)
  then show ?case using ok
    by (simp add: for_each_append Suc draw_row_grid) (rule grid_cong, auto simp: fun_eq_iff)
qed (simp, rule grid_same, auto simp: fun_eq_iff)

text \<open>Drawing that stays in one row of the screen.\<close>

definition row_only :: "int \<Rightarrow> ('d, 'a) editor_scheme \<Rightarrow> ('d, 'a) editor_scheme \<Rightarrow> bool" where
  "row_only r st st' \<longleftrightarrow> (\<exists>f. st' = st\<lparr>grid := (grid st)(r := f)\<rparr>)"

lemma row_only_trans: "row_only r st st' \<Longrightarrow> row_only r st' st'' \<Longrightarrow> row_only r st st''"
  by (auto simp: row_only_def)

lemma row_only_draw: "row_only r st (clear_screen_line r st)" "row_only r st (draw_string_at r col s st)"
  by (auto simp: row_only_def clear_line_grid draw_string_grid)

lemma row_only_if: "row_only r st st1 \<Longrightarrow> row_only r st st2 \<Longrightarrow> row_only r st (if b then st1 else st2)"
  by simp

lemma row_only_refl: "row_only r st st"
  by (auto simp: row_only_def intro: exI [of _ "grid st r"])

lemma row_only_fields: "row_only r st st' \<Longrightarrow> cursor_row st' = cursor_row st \<and> cursor_col st' = cursor_col st"
  by (auto simp: row_only_def)

lemma draw_number_ok:
  assumes "0 \<le> v" "v < 10 ^ 9"
  shows "\<exists>st'. draw_number_at r col v st = Inr st' \<and> row_only r st st'"
proof -
  have "length (dec (nat v)) \<le> 9" using assms by (intro length_dec_le) auto
  then have "itoa v (replicate 16 NUL) 10 = Inr (blit (replicate 16 NUL) 0 (dec_int v @ [NUL]))"
    using assms by (intro itoa_text) (simp_all add: dec_int_def)
  then show ?thesis by (simp add: draw_number_at_def row_only_draw)
qed

lemma draw_status_ok:
  assumes ok: "ed_ok st"
  shows "\<exists>st'. draw_status st = Inr st' \<and> row_only 22 st st'"
proof -
  have row: "0 \<le> cursor_row st + 1" "cursor_row st + 1 < 10 ^ 9" and col: "0 \<le> cursor_col st + 1" "cursor_col st + 1 < 10 ^ 9"
  proof -
    obtain r s k and A B C :: "char list list" where "cursor_row st = int (length A)" "length A + length B + length C = 127" "holds r s"
        "cursor_col st = int k" "k \<le> length s" using ok by (rule ed_view) blast
    with holds_short [of r s] show "0 \<le> cursor_row st + 1" "cursor_row st + 1 < 10 ^ 9" "0 \<le> cursor_col st + 1" "cursor_col st + 1 < 10 ^ 9"
      by simp_all
  qed
  define st1 where "st1 = draw_string_at 22 5 (cstr (filename (draw_string_at 22 0 ''EDIT '' (clear_screen_line 22 st))))
    (draw_string_at 22 0 ''EDIT '' (clear_screen_line 22 st))"
  define st2 where "st2 = draw_string_at 22 32 ''Ln '' (if tt (dirty st1)
    then draw_string_at 22 (5 + int (length (cstr (filename st1)))) '' *'' st1 else st1)"
  have 1: "row_only 22 st st1" unfolding st1_def by (rule row_only_trans [OF row_only_trans [OF row_only_draw(1,2)] row_only_draw(2)])
  have 2: "row_only 22 st st2" unfolding st2_def
    by (rule row_only_trans [OF 1 row_only_trans [OF row_only_if [OF row_only_draw(2) row_only_refl] row_only_draw(2)]])
  obtain st3 where st3: "draw_number_at 22 35 (cursor_row st2 + 1) st2 = Inr st3" "row_only 22 st2 st3"
    using draw_number_ok [of "cursor_row st2 + 1" 22 35 st2] row row_only_fields [OF 2] by auto
  let ?st4 = "draw_string_at 22 42 ''Col '' st3"
  have 4: "row_only 22 st ?st4" by (rule row_only_trans [OF row_only_trans [OF 2 st3(2)] row_only_draw(2)])
  obtain st5 where st5: "draw_number_at 22 46 (cursor_col ?st4 + 1) ?st4 = Inr st5" "row_only 22 ?st4 st5"
    using draw_number_ok [of "cursor_col ?st4 + 1" 22 46 ?st4] col row_only_fields [OF 4] by auto
  have "draw_status st = Inr (draw_string_at 22 58 ''Ctrl+S save Ctrl+Q quit'' st5)"
    using st3(1) st5(1) unfolding draw_status_def Let_def st1_def st2_def by simp
  moreover have "row_only 22 st (draw_string_at 22 58 ''Ctrl+S save Ctrl+Q quit'' st5)"
    by (rule row_only_trans [OF row_only_trans [OF 4 st5(2)] row_only_draw(2)])
  ultimately show ?thesis by blast
qed

lemma visible_window:
  assumes "ed_ok st"
  shows "ensure_cursor_visible st = st\<lparr>top_line := top_line (ensure_cursor_visible st)\<rparr>"
    "0 \<le> top_line (ensure_cursor_visible st)" "top_line (ensure_cursor_visible st) \<le> cursor_row st"
    "cursor_row st < top_line (ensure_cursor_visible st) + 22"
  using assms by (auto simp: ensure_cursor_visible_def ed_ok_def)

text \<open>Drawing never faults, shows the window around the cursor and changes nothing of the text.\<close>

lemma draw_editor_ok:
  assumes ok: "ed_ok st"
  shows "\<exists>t d g. draw_editor bus st = Inr (st\<lparr>top_line := t, dev := d, grid := g\<rparr>) \<and>
    0 \<le> t \<and> t \<le> cursor_row st \<and> cursor_row st < t + 22 \<and>
    (\<forall>r c. 0 \<le> r \<longrightarrow> r < 22 \<longrightarrow> 0 \<le> c \<longrightarrow> c < 80 \<longrightarrow> g r c = char_at (ed_text st) (t + r) c)"
proof -
  define t where "t = top_line (ensure_cursor_visible st)"
  let ?st = "st\<lparr>top_line := t\<rparr>"
  have t: "ensure_cursor_visible st = ?st" "0 \<le> t" "t \<le> cursor_row st" "cursor_row st < t + 22"
    using visible_window [OF ok] by (simp_all add: t_def)
  have ok': "ed_ok ?st" using ok t(2) by (simp add: ed_ok_def)
  define g where "g = (\<lambda>r c. if 0 \<le> r \<and> r < 22 \<and> 0 \<le> c \<and> c < 80 then char_at (ed_text st) (t + r) c else grid st r c)"
  have rows: "for_each draw_row [0..21] ?st = Inr (?st\<lparr>grid := g\<rparr>)"
    using draw_rows_grid [OF ok', of 22] by (simp add: g_def cong: if_cong)
  obtain f where f: "draw_status (?st\<lparr>grid := g\<rparr>) = Inr (?st\<lparr>grid := g(22 := f)\<rparr>)"
    using draw_status_ok [of "?st\<lparr>grid := g\<rparr>"] ok' by (auto simp: row_only_def)
  obtain d where "update_cursor bus (cursor_row st - t) (cursor_col st) (?st\<lparr>grid := g(22 := f)\<rparr>) = (?st\<lparr>grid := g(22 := f)\<rparr>)\<lparr>dev := d\<rparr>"
    using update_cursor_keeps [of bus "cursor_row st - t" "cursor_col st" "?st\<lparr>grid := g(22 := f)\<rparr>"] by blast
  then have "draw_editor bus st = Inr (st\<lparr>top_line := t, dev := d, grid := g(22 := f)\<rparr>)"
    using rows f by (simp add: draw_editor_def t(1))
  then show ?thesis using t(2-4) by (intro exI [of _ t] exI [of _ d] exI [of _ "g(22 := f)"]) (simp add: g_def)
qed

end
