(* ===== verification/Editor_Session.thy ===== *)
theory Editor_Session
  imports Editor_Text
begin

text \<open>
  Saving, loading and whole sessions of the editor of \<^verbatim>\<open>src/editor.c\<close>, on top of the file system's
  contract and of the key-by-key refinement.
\<close>

section \<open>What file operations leave alone\<close>

definition files_only :: "('d, 'a) fsys_scheme \<Rightarrow> ('d, 'a) fsys_scheme \<Rightarrow> bool" where
  "files_only st st' \<longleftrightarrow> (\<exists>t fs d. st' = emit t (st\<lparr>files := fs, dev := d\<rparr>))"

lemma files_onlyI: "st' = emit t (st\<lparr>files := fs, dev := d\<rparr>) \<Longrightarrow> files_only st st'"
  unfolding files_only_def by blast

lemma files_onlyE:
  assumes "files_only st st'" obtains t fs d where "st' = emit t (st\<lparr>files := fs, dev := d\<rparr>)"
  using assms unfolding files_only_def by blast

lemma files_only_refl: "files_only st st"
  by (rule files_onlyI [of _ "[]" "dev st" "files st"]) simp

lemma files_only_trans:
  assumes "files_only st st'" and "files_only st' st''"
  shows "files_only st st''"
proof -
  obtain t fs d where 1: "st' = emit t (st\<lparr>files := fs, dev := d\<rparr>)" using assms(1) by (rule files_onlyE)
  obtain t' fs' d' where 2: "st'' = emit t' (st'\<lparr>files := fs', dev := d'\<rparr>)" using assms(2) by (rule files_onlyE)
  show ?thesis by (rule files_onlyI [of _ "t @ t'" d' fs']) (simp add: 1 2 emit_def)
qed

lemma files_only_emit: "files_only st st' \<Longrightarrow> files_only st (emit t st')"
  by (erule files_only_trans) (rule files_onlyI [of _ t "dev st'" "files st'"], simp)

lemma files_only_save: "files_only st st' \<Longrightarrow> files_only st (diskfs_save bus st')"
proof (erule files_only_trans)
  obtain d t where "diskfs_save bus st' = emit t (st'\<lparr>dev := d\<rparr>)" using save_dev [of bus st'] by blast
  then show "files_only st' (diskfs_save bus st')" by (intro files_onlyI [of _ t d "files st'"]) simp
qed

lemma files_only_files: "files_only st (st\<lparr>files := fs\<rparr>)"
  by (rule files_onlyI [of _ "[]" "dev st" fs]) simp

lemmas files_only_intros = files_only_emit files_only_save files_only_files files_only_refl

lemma create_files_only: "diskfs_create bus name st = (r, st') \<Longrightarrow> files_only st st'"
  by (auto simp: diskfs_create_def Let_def split: if_splits intro!: files_only_intros)

lemma print_int_static_only: "print_int_static n st = Inr st' \<Longrightarrow> \<exists>t. st' = emit t st"
  by (auto simp: print_int_static_def bind_result_Inr_iff split: if_splits)

lemma write_slot_files_only: "write_slot bus idx data sz st = Inr (r, st') \<Longrightarrow> files_only st st'"
  by (auto simp: write_slot_def Let_def bind_result_Inr_iff split: if_splits dest!: print_int_static_only intro!: files_only_intros)

lemma write_files_only: "diskfs_write bus name data sz st = Inr (r, st') \<Longrightarrow> files_only st st'"
  by (auto simp: diskfs_write_def Let_def split: if_splits prod.splits
      dest: create_files_only write_slot_files_only intro: files_only_trans)

lemma files_only_editor:
  fixes st st' :: "('d, 'a) editor_scheme"
  assumes "files_only st st'"
  shows "ed_text st' = ed_text st" "ed_ok st' = ed_ok st" "ed_abs st' = ed_abs st" "filename st' = filename st"
    "lines st' = lines st" "line_count st' = line_count st" "current_dir st' = current_dir st"
  using assms by (auto simp: files_only_def) (simp_all add: emit_def)

section \<open>Saving\<close>

definition file_text :: "string list \<Rightarrow> string" where
  "file_text ls = concat (map (\<lambda>s. s @ [NL]) ls)"

lemma save_row_text: "length buf + length s < 16384 \<Longrightarrow> save_row s buf = buf @ s"
  by (induction s arbitrary: buf) simp_all

lemma save_rows_text: "length buf + length (file_text ss) < 16384 \<Longrightarrow> save_rows ss buf = buf @ file_text ss"
  by (induction ss arbitrary: buf) (simp_all add: file_text_def save_row_text Let_def)

lemma length_file_text: "\<forall>s\<in>set ss. length s \<le> n \<Longrightarrow> length (file_text ss) \<le> length ss * (n + 1)"
  by (induction ss) (auto simp: file_text_def)

lemma row_texts_holds: "\<forall>r\<in>set rs. \<exists>s. holds r s \<Longrightarrow> row_texts rs = Inr (map cstr rs)"
proof (induction rs)
  case (Cons r rs)
  then obtain s where s: "holds r s" by auto
  with Cons show ?case by (simp add: holds_row_text [OF s] holds_cstr [OF s])
qed simp

lemma ed_text_short: "ed_ok st \<Longrightarrow> s \<in> set (ed_text st) \<Longrightarrow> length s \<le> 120 \<and> nul_free s"
  by (auto simp: ed_text_def ed_ok_def dest!: in_set_takeD) (metis holds_cstr holds_short)

lemma save_file_form:
  assumes ok: "ed_ok st"
  shows "save_file bus st = bind_result (fs_write bus (cstr (filename st)) (file_text (ed_text st)) (int (length (file_text (ed_text st)))) st)
    (\<lambda>(r, st). if r = 0 then Inr (1, draw_message ''Saved.'' (st\<lparr>dirty := 0\<rparr>)) else Inr (0, draw_message ''Save failed.'' st))"
proof -
  have rows: "row_texts (take (nat (line_count st)) (lines st)) = Inr (ed_text st)"
    using ok row_texts_holds [of "take (nat (line_count st)) (lines st)"] by (auto simp: ed_ok_def ed_text_def dest: in_set_takeD)
  have "length (file_text (ed_text st)) \<le> length (ed_text st) * 121"
    using length_file_text [of "ed_text st" 120] ed_text_short [OF ok] by auto
  moreover have "length (ed_text st) \<le> 128" using ok ed_text_facts(1) [OF ok] unfolding ed_ok_def by linarith
  ultimately have "length (file_text (ed_text st)) \<le> 128 * 121" by linarith
  then have "save_rows (ed_text st) [] = file_text (ed_text st)" using save_rows_text [of "[]" "ed_text st"] by simp
  then show ?thesis using ok rows by (simp add: save_file_def ed_ok_def Let_def)
qed

lemma draw_message_grid: "\<exists>g. draw_message msg st = st\<lparr>grid := g\<rparr>"
  by (auto simp: draw_message_def clear_line_grid draw_string_grid)

text \<open>The file being edited exists, so that Ctrl-S finds it.\<close>

definition session_ok :: "('d, 'a) editor_scheme \<Rightarrow> bool" where
  "session_ok st \<longleftrightarrow> ed_ok st \<and> fs_inv st \<and> lookup (cstr (filename st)) st \<noteq> None"

lemma lookup_cong: "files st' = files st \<Longrightarrow> current_dir st' = current_dir st \<Longrightarrow> lookup name st' = lookup name st"
  by (simp add: lookup_def)

lemma session_same_files: "session_ok st \<Longrightarrow> ed_ok st' \<Longrightarrow> same_files st st' \<Longrightarrow> session_ok st'"
  using lookup_cong [of st' st "cstr (filename st)"] fs_inv_cong [of st' st] by (simp add: session_ok_def same_files_def)

lemma write_too_large:
  assumes "lookup name st \<noteq> None" and "8192 < length data"
  shows "diskfs_write bus name data (int (length data)) st = Inr (- 1, emit (''File too large'' @ [NL]) st)"
  using assms by (auto simp: diskfs_write_def lookup_find_file Let_def write_slot_def MAX_FILE_SIZE_def split: if_splits)

lemma save_key_ok:
  assumes s: "session_ok st"
  shows "\<exists>r st'. save_file bus st = Inr (r, st') \<and> session_ok st' \<and> ed_abs st' = ed_abs st \<and> (r = 1 \<longleftrightarrow> length (file_text (ed_text st)) \<le> 8192)"
proof -
  let ?data = "file_text (ed_text st)" and ?name = "cstr (filename st)"
  have ok: "ed_ok st" and inv: "fs_inv st" and l: "lookup ?name st \<noteq> None" using s by (auto simp: session_ok_def)
  show ?thesis
  proof (cases "length ?data \<le> 8192")
    case True
    obtain d st' where w: "diskfs_write bus ?name ?data (int (length ?data)) st = Inr (0, st')" "lookup ?name st' = Some (d, ?data)" "fs_inv st'"
      using write_known [OF inv _ True] l by (metis cstr_nul_free)
    note f = files_only_editor [OF write_files_only [OF w(1)]]
    obtain g where g: "draw_message ''Saved.'' (st'\<lparr>dirty := 0\<rparr>) = st'\<lparr>dirty := 0, grid := g\<rparr>" using draw_message_grid by blast
    have "save_file bus st = Inr (1, st'\<lparr>dirty := 0, grid := g\<rparr>)" by (simp add: save_file_form [OF ok] fs_write_def w(1) g)
    moreover have "session_ok (st'\<lparr>dirty := 0, grid := g\<rparr>)"
      using ok f w(2,3) lookup_cong [of "st'\<lparr>dirty := 0, grid := g\<rparr>" st' ?name] fs_inv_cong [of "st'\<lparr>dirty := 0, grid := g\<rparr>" st']
      by (simp add: session_ok_def)
    ultimately show ?thesis using f True by simp
  next
    case False
    define msg where "msg = ''File too large'' @ [NL]"
    let ?st = "emit msg st"
    obtain g where g: "draw_message ''Save failed.'' ?st = ?st\<lparr>grid := g\<rparr>" using draw_message_grid by blast
    have "save_file bus st = Inr (0, ?st\<lparr>grid := g\<rparr>)"
      using write_too_large [OF l, of ?data bus, folded msg_def] False by (simp add: save_file_form [OF ok] fs_write_def g)
    moreover have "session_ok (?st\<lparr>grid := g\<rparr>)"
      by (rule session_same_files [OF s]) (simp_all add: ok same_files_def, simp add: emit_def)
    ultimately show ?thesis using False by simp
  qed
qed

section \<open>Whole sessions\<close>

text \<open>One round of the loop: the key and the drawing after it.\<close>

definition round_step :: "'d bus \<Rightarrow> char \<Rightarrow> ('d, 'a) editor_scheme \<Rightarrow> ('d, 'a) editor_scheme result" where
  "round_step bus c st = bind_result (editor_key bus c st) (draw_editor bus)"

lemma editor_loop_rounds:
  "CHR 0x11 \<notin> set keys \<Longrightarrow> editor_loop bus (keys @ CHR 0x11 # rest) st =
     bind_result (for_each (round_step bus) keys st) (\<lambda>st. bind_result (draw_editor bus st) (\<lambda>st. Inr (rest, st)))"
proof (induction keys arbitrary: st)
  case (Cons c keys)
  show ?case
  proof (cases "editor_key bus c st")
    case (Inr st1)
    with Cons show ?thesis by (cases "draw_editor bus st1") (auto simp: round_step_def)
  qed (use Cons.prems in \<open>auto simp: round_step_def\<close>)
qed simp

definition a_key_save :: "char \<Rightarrow> a_editor \<Rightarrow> a_editor" where
  "a_key_save c e = (if c = CHR 0x13 then e else a_key c e)"

lemma draw_session:
  assumes "session_ok st"
  shows "\<exists>st'. draw_editor bus st = Inr st' \<and> session_ok st' \<and> ed_abs st' = ed_abs st"
proof -
  have ok: "ed_ok st" using assms by (simp add: session_ok_def)
  obtain t d g where d: "draw_editor bus st = Inr (st\<lparr>top_line := t, dev := d, grid := g\<rparr>)" "0 \<le> t"
    using draw_editor_ok [OF ok, of bus] by blast
  have "ed_ok (st\<lparr>top_line := t, dev := d, grid := g\<rparr>)" using ok d(2) by (simp add: ed_ok_def)
  then have "session_ok (st\<lparr>top_line := t, dev := d, grid := g\<rparr>)"
    by (rule session_same_files [OF assms]) (simp add: same_files_def)
  then show ?thesis using d(1) by simp
qed

lemma round_ok:
  assumes s: "session_ok st" and c: "c \<noteq> CHR 0x11"
  shows "\<exists>st'. round_step bus c st = Inr st' \<and> session_ok st' \<and> ed_abs st' = a_key_save c (ed_abs st)"
proof -
  have ok: "ed_ok st" using s by (simp add: session_ok_def)
  obtain st1 where st1: "editor_key bus c st = Inr st1" "session_ok st1" "ed_abs st1 = a_key_save c (ed_abs st)"
  proof (cases "c = CHR 0x13")
    case True
    with save_key_ok [OF s, of bus] that show ?thesis by (auto simp: editor_key_def a_key_save_def)
  next
    case False
    from key_step_all [OF ok False, of bus] obtain st1 where "editor_key bus c st = Inr st1" "ed_ok st1"
        "ed_abs st1 = a_key c (ed_abs st)" "same_files st st1" by (auto simp: key_step_def)
    with that session_same_files [OF s] False show ?thesis by (simp add: a_key_save_def)
  qed
  with draw_session [OF st1(2), of bus] show ?thesis by (simp add: round_step_def)
qed

interpretation ed: stepwise session_ok ed_abs "round_step bus" a_key_save "\<lambda>c. c \<noteq> CHR 0x11" for bus
  by unfold_locales (rule round_ok)

section \<open>Loading\<close>

















section \<open>Properties\<close>

text \<open>
  C26. A whole editing session: from a state in which the text fits its arrays and the edited file
  exists, every sequence of keys that ends with Ctrl-Q is processed without a fault, the loop ends,
  and text and cursor are those of an editor on plain lists of lines (insertion, splitting and
  joining of lines with the limits of 120 columns and 128 lines, deletion in both directions, cursor
  movement; Ctrl-S leaves the text alone). The invariants of editor and file system hold at the end.
\<close>

theorem editor_refines_text:
  assumes "session_ok st" and "CHR 0x11 \<notin> set keys"
  shows "\<exists>st'. editor_loop bus (keys @ CHR 0x11 # rest) st = Inr (rest, st') \<and> session_ok st' \<and>
    ed_abs st' = fold a_key_save keys (ed_abs st)"
proof -
  have "list_all (\<lambda>c. c \<noteq> CHR 0x11) keys" using assms(2) by (auto simp: list_all_iff)
  from ed.run_ok [OF assms(1) this, of bus] obtain st1 where st1: "for_each (round_step bus) keys st = Inr st1" "session_ok st1"
      "ed_abs st1 = fold a_key_save keys (ed_abs st)" by blast
  with draw_session [OF st1(2), of bus] show ?thesis by (auto simp: editor_loop_rounds [OF assms(2)])
qed

text \<open>An editor on the file \<open>a\<close> of a freshly formatted file system.\<close>

definition ed_boot :: "unit editor" where
  "ed_boot = \<lparr>out = [], dev = (), ata_present = 0, files = files (snd (diskfs_create pio_bus ''a'' fresh_fs)), current_dir = 0,
     ticks = 0, tick_rate = 100, rtl_io_base = 0, rtl_mac = replicate 6 0, rtl_initialized = 0, rx_offset = 0,
     arp_cache = replicate 16 \<lparr>ae_ip = 0, ae_mac = replicate 6 0, ae_valid = 0\<rparr>, arp_cache_count = 0, our_mac = replicate 6 0, our_ip = 0,
     gateway_ip = 0, subnet_mask = 0, dns_server = 0, dhcp_configured = 0,
     http_response = replicate 8192 NUL, http_response_len = 0, http_response_ready = 0, http_open = 0, http_connecting = 0,
     grid = (\<lambda>_ _. CHR '' ''), clears = [], lines = replicate 128 (replicate 121 NUL), line_count = 1, cursor_row = 0, cursor_col = 0,
     top_line = 0, dirty = 0, filename = CHR ''a'' # replicate 63 NUL\<rparr>"

lemma ed_boot_session: "session_ok ed_boot" and ed_boot_abs: "ed_abs ed_boot = ([[]], 0, 0)"
proof -
  obtain st where st: "diskfs_create pio_bus ''a'' fresh_fs = (0, st)" "dir_inv st" "lookup ''a'' st = Some (False, [])"
    using fresh_create_a by blast
  have cd: "current_dir st = 0" using create_files_only [OF st(1)] by (auto simp: files_only_def fresh_files(2))
  have row: "holds (replicate 121 NUL) []" by (rule holdsI [of _ _ "replicate 120 NUL"]) (simp_all flip: replicate_Suc)
  have r: "ed_text ed_boot = [[]]" by (simp add: ed_text_def ed_boot_def cstr_def)
  have ok: "ed_ok ed_boot" using row by (auto simp: ed_ok_def r) (auto simp: ed_boot_def)
  have n: "cstr (filename ed_boot) = ''a''" by (simp add: ed_boot_def cstr_def NUL_def)
  have "fs_inv ed_boot" using fs_inv_cong [of ed_boot st] st(1,2) cd by (simp add: ed_boot_def dir_inv_def)
  moreover have "lookup ''a'' ed_boot = Some (False, [])" using lookup_cong [of ed_boot st] st(1,3) cd by (simp add: ed_boot_def)
  ultimately show "session_ok ed_boot" using ok n by (simp add: session_ok_def)
  show "ed_abs ed_boot = ([[]], 0, 0)" by (simp add: ed_abs_def r) (simp add: ed_boot_def)
qed

theorem editor_refines_text_witness:
  "\<exists>st'. editor_loop idle_bus (''hi'' @ [NL] @ ''x'' @ [CHR 0x13] @ CHR 0x11 # []) ed_boot = Inr ([], st') \<and>
    session_ok st' \<and> ed_abs st' = ([''hi'', ''x''], 1, 1)"
proof -
  let ?keys = "''hi'' @ [NL] @ ''x'' @ [CHR 0x13]"
  have "fold a_key_save ?keys ([[]], 0, 0) = ([''hi'', ''x''], 1, 1)"
    by (simp add: a_key_save_def a_key_def NL_def BS_def KEY_DELETE_def KEY_UP_def KEY_DOWN_def KEY_LEFT_def KEY_RIGHT_def schar_def)
  then show ?thesis
    using editor_refines_text [OF ed_boot_session, of ?keys idle_bus "[]"] by (simp add: ed_boot_abs NL_def)
qed

text \<open>
  What the screen shows: after every key, the 22 by 80 characters of the editing area are those
  of the text from line \<^verbatim>\<open>top_line\<close> on, blanks behind the end of a line and of the text, and the line of
  the cursor is among the lines shown.
\<close>

theorem editor_shows_text:
  assumes "session_ok st" and "c \<noteq> CHR 0x11"
  shows "\<exists>st'. bind_result (editor_key bus c st) (draw_editor bus) = Inr st' \<and>
    0 \<le> top_line st' \<and> top_line st' \<le> cursor_row st' \<and> cursor_row st' < top_line st' + 22 \<and>
    (\<forall>r c. 0 \<le> r \<longrightarrow> r < 22 \<longrightarrow> 0 \<le> c \<longrightarrow> c < 80 \<longrightarrow> grid st' r c = char_at (ed_text st') (top_line st' + r) c)"
proof -
  obtain st2 where r: "round_step bus c st = Inr st2" using round_ok [OF assms, of bus] by blast
  obtain st1 where st1: "editor_key bus c st = Inr st1" "draw_editor bus st1 = Inr st2"
    using r by (auto simp: round_step_def bind_result_Inr_iff)
  have "ed_ok st1"
  proof (cases "c = CHR 0x13")
    case True
    with save_key_ok [OF assms(1), of bus] st1(1) show ?thesis by (auto simp: editor_key_def session_ok_def)
  next
    case False
    with key_step_all [of st c bus] assms(1) st1(1) show ?thesis by (auto simp: key_step_def session_ok_def)
  qed
  from draw_editor_ok [OF this, of bus] st1 show ?thesis by auto
qed

theorem editor_shows_text_witness:
  "\<exists>st'. bind_result (editor_key idle_bus (CHR ''h'') ed_boot) (draw_editor idle_bus) = Inr st' \<and>
    grid st' 0 0 = char_at (ed_text st') (top_line st' + 0) 0"
  using editor_shows_text [OF ed_boot_session, of "CHR ''h''" idle_bus] by force



end
