(* ===== verification/System_State.thy ===== *)
theory System_State
  imports Editor_Session Web Heap_Contract
begin

text \<open>
  The state of the whole system, on which the commands and the desktop run: file system, timer, network and editor
  and, added here, the heap, the keys and timer interrupts still to come, whether the processor has been stopped for good
  by \<^verbatim>\<open>reboot\<close>, and the variables of \<^verbatim>\<open>src/lwip_port.c\<close>. Also here is the code of that file, the glue between the
  kernel and the lwIP library, which the command \<^verbatim>\<open>lwip\<close> and every turn of the desktop call. The library's own
  functions are parameters, the record \<open>lwip_lib\<close>.
\<close>

section \<open>The network interface\<close>

definition ERR_OK :: int where "ERR_OK = 0"
definition ERR_MEM :: int where "ERR_MEM = - 1"
definition ERR_IF :: int where "ERR_IF = - 12"

text \<open>The values of \<^verbatim>\<open>netif->input\<close>: the function of this file, or one of the library.\<close>

datatype input_fn = Lwip_Input_Fn | Library_Input

record netif =
  nif_hwaddr_len :: nat
  nif_hwaddr :: "u8 list"
  nif_mtu :: nat
  nif_flags :: nat
  nif_output :: bool
  nif_linkoutput :: bool
  nif_input :: input_fn

section \<open>State\<close>

text \<open>\<open>nif\<close> is the structure behind the pointer \<^verbatim>\<open>netif\<close>, here \<open>netif_ptr\<close>.\<close>

record 'd system = "'d editor" +
  sys_mem :: mem
  sys_heap_start :: nat
  sys_heap_ready :: int
  keys_ahead :: string
  irqs_ahead :: "bool list"
  halted :: bool
  netif_ptr :: nat
  nif :: netif
  lwip_ready :: int

text \<open>An operation of \<^verbatim>\<open>malloc.c\<close> on the heap inside the system state; a loop that never ends is \<open>NoEvent\<close>.\<close>

definition sys_heap :: "('d, 'a) system_scheme \<Rightarrow> heap" where
  "sys_heap st = \<lparr>out = out st, hmem = sys_mem st, heap_start_ptr = sys_heap_start st, heap_ready = sys_heap_ready st\<rparr>"

definition set_heap :: "heap \<Rightarrow> ('d, 'a) system_scheme \<Rightarrow> ('d, 'a) system_scheme" where
  "set_heap h st = st\<lparr>out := out h, sys_mem := hmem h, sys_heap_start := heap_start_ptr h, sys_heap_ready := heap_ready h\<rparr>"

definition ended :: "'b option \<Rightarrow> 'b result" where
  "ended r = (case r of None \<Rightarrow> Inl NoEvent | Some x \<Rightarrow> Inr x)"

section \<open>lwip_port.c\<close>

text \<open>A buffer of a \<^verbatim>\<open>pbuf\<close> chain: where its bytes lie and how many they are.\<close>

record pbuf =
  payload :: nat
  pb_len :: nat

record ('d, 'a) lwip_lib =
  sizeof_netif :: nat
  lwip_init :: "('d, 'a) system_scheme \<Rightarrow> ('d, 'a) system_scheme"
  netif_add :: "u32 \<Rightarrow> u32 \<Rightarrow> u32 \<Rightarrow> (('d, 'a) system_scheme \<Rightarrow> int \<times> ('d, 'a) system_scheme) \<Rightarrow> input_fn \<Rightarrow> ('d, 'a) system_scheme \<Rightarrow> ('d, 'a) system_scheme"
  netif_set_default :: "('d, 'a) system_scheme \<Rightarrow> ('d, 'a) system_scheme"
  netif_set_up :: "('d, 'a) system_scheme \<Rightarrow> ('d, 'a) system_scheme"
  dns_setserver :: "nat \<Rightarrow> u32 \<Rightarrow> ('d, 'a) system_scheme \<Rightarrow> ('d, 'a) system_scheme"
  sys_check_timeouts :: "('d, 'a) system_scheme \<Rightarrow> ('d, 'a) system_scheme"
  pbuf_alloc :: "int \<Rightarrow> ('d, 'a) system_scheme \<Rightarrow> nat \<times> ('d, 'a) system_scheme"
  pbuf_take :: "nat \<Rightarrow> u8 list \<Rightarrow> int \<Rightarrow> ('d, 'a) system_scheme \<Rightarrow> ('d, 'a) system_scheme"
  pbuf_free :: "nat \<Rightarrow> ('d, 'a) system_scheme \<Rightarrow> ('d, 'a) system_scheme"
  library_input :: "nat \<Rightarrow> ('d, 'a) system_scheme \<Rightarrow> int \<times> ('d, 'a) system_scheme"

definition sys_now :: "('d, 'a) system_scheme \<Rightarrow> u32" where
  "sys_now st = timer_ticks st * 10"

text \<open>The copy loop of \<^verbatim>\<open>low_level_output\<close>: the bytes copied so far are \<open>len\<close>.\<close>

fun copy_chain :: "nat \<Rightarrow> nat \<Rightarrow> pbuf list \<Rightarrow> mem \<Rightarrow> nat \<times> mem" where
  "copy_chain buffer len [] m = (len, m)"
| "copy_chain buffer len (q # qs) m = copy_chain buffer (len + pb_len q) qs (memcpy (buffer + len) (payload q) (pb_len q) m)"

definition low_level_output :: "'d nicbus \<Rightarrow> nat \<Rightarrow> pbuf list \<Rightarrow> ('d, 'a) system_scheme \<Rightarrow> (int \<times> ('d, 'a) system_scheme) result" where
  "low_level_output bus tot_len p st =
     (if lwip_ready st = 0 then Inr (ERR_IF, st)
      else bind_result (ended (malloc tot_len (sys_heap st))) (\<lambda>(buffer, h).
        if buffer = 0 then Inr (ERR_MEM, set_heap h st)
        else let (len, m) = copy_chain buffer 0 p (hmem h); st = set_heap (h\<lparr>hmem := m\<rparr>) st in
          bind_result (rtl8139_send_packet bus (map m [buffer..<buffer + len]) (of_nat len) st) (\<lambda>(_, st).
          bind_result (ended (free_ptr buffer (sys_heap st))) (\<lambda>h. Inr (ERR_OK, set_heap h st)))))"

text \<open>\<open>junk\<close> is what the stack holds in \<^verbatim>\<open>u8_t buffer[2048]\<close>; the result is the address of a \<^verbatim>\<open>pbuf\<close>, \<open>0\<close> for none.\<close>

definition low_level_input :: "('d, 'a) lwip_lib \<Rightarrow> 'd nicbus \<Rightarrow> u8 list \<Rightarrow> ('d, 'a) system_scheme \<Rightarrow> (nat \<times> ('d, 'a) system_scheme) result" where
  "low_level_input lib bus junk st =
     (if lwip_ready st = 0 then Inr (0, st)
      else bind_result (rtl8139_receive_packet bus junk 2048 st) (\<lambda>(len, buffer, st).
        if len \<le> 0 then Inr (0, st)
        else let (p, st) = pbuf_alloc lib len st in
          if p = 0 then Inr (0, st) else Inr (p, pbuf_take lib p buffer len st)))"

partial_function (option) lwip_input_fn :: "('d, 'a) lwip_lib \<Rightarrow> nat \<Rightarrow> ('d, 'a) system_scheme \<Rightarrow> (int \<times> ('d, 'a) system_scheme) option" where
  "lwip_input_fn lib p st =
     (if lwip_ready st = 0 then Some (ERR_IF, st)
      else case nif_input (nif st) of Lwip_Input_Fn \<Rightarrow> lwip_input_fn lib p st | Library_Input \<Rightarrow> Some (library_input lib p st))"

definition netif_init_cb :: "('d, 'a) system_scheme \<Rightarrow> int \<times> ('d, 'a) system_scheme" where
  "netif_init_cb st =
     (ERR_OK, st\<lparr>nif := (nif st)\<lparr>nif_hwaddr_len := 6, nif_hwaddr := rtl8139_get_mac st, nif_mtu := 1500, nif_flags := 0x02 OR 0x08 OR 0x04,
        nif_output := True, nif_linkoutput := True\<rparr>\<rparr>)"

text \<open>\<open>None\<close>: the call does not return.\<close>

definition netif_poll :: "('d, 'a) lwip_lib \<Rightarrow> 'd nicbus \<Rightarrow> u8 list \<Rightarrow> ('d, 'a) system_scheme \<Rightarrow> ('d, 'a) system_scheme result option" where
  "netif_poll lib bus junk st =
     (case low_level_input lib bus junk st of
        Inl e \<Rightarrow> Some (Inl e)
      | Inr (p, st) \<Rightarrow>
          if p = 0 then Some (Inr st)
          else map_option (\<lambda>(r, st). Inr (if r \<noteq> ERR_OK then pbuf_free lib p st else st)) (lwip_input_fn lib p st))"

text \<open>\<^verbatim>\<open>IP4_ADDR\<close> on a little-endian machine: the first number in the lowest byte.\<close>

definition ip4_addr :: "u8 \<Rightarrow> u8 \<Rightarrow> u8 \<Rightarrow> u8 \<Rightarrow> u32" where
  "ip4_addr a b c d = ucast a OR push_bit 8 (ucast b) OR push_bit 16 (ucast c) OR push_bit 24 (ucast d)"

definition lwip_init_port :: "('d, 'a) lwip_lib \<Rightarrow> 'd nicbus \<Rightarrow> ('d, 'a) system_scheme \<Rightarrow> ('d, 'a) system_scheme result" where
  "lwip_init_port lib bus st =
     bind_result (rtl8139_init bus st) (\<lambda>st.
     bind_result (ended (malloc (sizeof_netif lib) (sys_heap st))) (\<lambda>(p, h).
       let st = (set_heap h st)\<lparr>netif_ptr := p\<rparr> in
       if p = 0 then Inr st
       else let st = lwip_init lib st;
                st = netif_add lib (ip4_addr 10 0 2 15) (ip4_addr 255 255 255 0) (ip4_addr 10 0 2 2) netif_init_cb Lwip_Input_Fn st;
                st = netif_set_up lib (netif_set_default lib st);
                st = dns_setserver lib 0 (ip4_addr 8 8 8 8) st
            in Inr (st\<lparr>lwip_ready := 1\<rparr>)))"

definition lwip_poll :: "('d, 'a) lwip_lib \<Rightarrow> 'd nicbus \<Rightarrow> u8 list \<Rightarrow> ('d, 'a) system_scheme \<Rightarrow> ('d, 'a) system_scheme result option" where
  "lwip_poll lib bus junk st = (if lwip_ready st = 0 then Some (Inr st) else netif_poll lib bus junk (sys_check_timeouts lib st))"

definition lwip_ping_test :: "('d, 'a) system_scheme \<Rightarrow> ('d, 'a) system_scheme" where
  "lwip_ping_test st =
     (if lwip_ready st = 0 then emit (''lwIP not initialized. Run '' @ [CHR 0x27] @ ''lwip'' @ [CHR 0x27] @ '' first.'' @ [NL]) st
      else emit (''lwIP is ready!'' @ [NL]) st)"

text \<open>A library that does no more than remember the input function, and always has a buffer.\<close>

definition plain_lib :: "('d, 'a) lwip_lib" where
  "plain_lib = \<lparr>sizeof_netif = 64, lwip_init = (\<lambda>s. s), netif_add = (\<lambda>_ _ _ init inp s. snd (init (s\<lparr>nif := (nif s)\<lparr>nif_input := inp\<rparr>\<rparr>))),
     netif_set_default = (\<lambda>s. s), netif_set_up = (\<lambda>s. s), dns_setserver = (\<lambda>_ _ s. s), sys_check_timeouts = (\<lambda>s. s), pbuf_alloc = (\<lambda>_ s. (1, s)),
     pbuf_take = (\<lambda>_ _ _ s. s), pbuf_free = (\<lambda>_ s. s), library_input = (\<lambda>_ s. (ERR_OK, s))\<rparr>"

definition zero_netif :: netif where
  "zero_netif = \<lparr>nif_hwaddr_len = 0, nif_hwaddr = [], nif_mtu = 0, nif_flags = 0, nif_output = False, nif_linkoutput = False, nif_input = Library_Input\<rparr>"

end
