(* ===== verification/Commands.thy ===== *)
theory Commands
  imports System_State
begin

text \<open>
  The command interpreter of \<^verbatim>\<open>src/commands.c\<close>: splitting a line into words, the table of commands
  and every command. A command runs on the state of the whole system. The programs started by \<^verbatim>\<open>gui\<close>,
  \<^verbatim>\<open>fbgui\<close>, \<^verbatim>\<open>doom\<close> and \<^verbatim>\<open>snake\<close> are arguments, as are the ports, the lwIP library and the old contents
  of uninitialised local arrays.
\<close>

section \<open>Environment\<close>

record ('d, 'a) env =
  e_nic :: "'d nicbus"
  e_stack :: "nat \<Rightarrow> u8 list"
  run_gui :: "('d, 'a) system_scheme \<Rightarrow> ('d, 'a) system_scheme result"
  run_fbgui :: "('d, 'a) system_scheme \<Rightarrow> ('d, 'a) system_scheme result"
  run_doom :: "('d, 'a) system_scheme \<Rightarrow> ('d, 'a) system_scheme result"
  run_snake :: "('d, 'a) system_scheme \<Rightarrow> ('d, 'a) system_scheme result"
  e_lwip :: "('d, 'a) lwip_lib"

type_synonym ('d, 'a) cmd = "('d, 'a) env \<Rightarrow> char list list \<Rightarrow> ('d, 'a) system_scheme \<Rightarrow> ('d, 'a) system_scheme result"

abbreviation e_bus :: "('d, 'a) env \<Rightarrow> 'd bus" where "e_bus env \<equiv> io (e_nic env)"

definition chars_of :: "u8 list \<Rightarrow> char list" where
  "chars_of bs = map char_of_byte bs"

section \<open>Splitting a line\<close>

fun strcmp_cmd :: "string \<Rightarrow> string \<Rightarrow> int" where
  "strcmp_cmd (a # as) (b # bs) = (if a = b then strcmp_cmd as bs else schar a - schar b)"
| "strcmp_cmd (a # as) [] = schar a"
| "strcmp_cmd [] (b # bs) = - schar b"
| "strcmp_cmd [] [] = 0"

text \<open>\<^verbatim>\<open>while (P(*input)) input++\<close> from offset \<open>i\<close> of the buffer.\<close>

definition scan_while :: "(char \<Rightarrow> bool) \<Rightarrow> char list \<Rightarrow> nat \<Rightarrow> nat result" where
  "scan_while P buf i = (let j = i + length (takeWhile P (drop i buf)) in if j < length buf then Inr j else Inl OutOfBounds)"

text \<open>
  The loop of \<^verbatim>\<open>parse_command\<close> at offset \<open>i\<close>; \<open>argv\<close> holds the offsets stored so far, of which the
  caller's array has room for 16.
\<close>

function parse_from :: "char list \<Rightarrow> nat \<Rightarrow> nat list \<Rightarrow> (char list \<times> nat list) result" where
  "parse_from buf i argv =
     (if length buf \<le> i then Inl OutOfBounds
      else if buf ! i = NUL then Inr (buf, argv)
      else case scan_while (\<lambda>c. c = CHR '' '') buf i of
        Inl e \<Rightarrow> Inl e
      | Inr k \<Rightarrow>
          if buf ! k = NUL then Inr (buf, argv)
          else if 16 \<le> length argv then Inl OutOfBounds
          else case scan_while (\<lambda>c. c \<noteq> NUL \<and> c \<noteq> CHR '' '') buf k of
            Inl e \<Rightarrow> Inl e
          | Inr j \<Rightarrow>
              if buf ! j \<noteq> NUL then parse_from (buf[j := NUL]) (j + 1) (argv @ [k])
              else parse_from buf j (argv @ [k]))"
  by pat_completeness auto

lemma scan_while_ge: "scan_while P buf i = Inr j \<Longrightarrow> i \<le> j \<and> j < length buf"
  by (auto simp: scan_while_def Let_def split: if_splits)

lemma scan_while_stop:
  assumes "scan_while P buf i = Inr j"
  shows "\<not> P (buf ! j)" "\<And>m. i \<le> m \<Longrightarrow> m < j \<Longrightarrow> P (buf ! m)"
proof -
  let ?t = "takeWhile P (drop i buf)"
  have j: "j = i + length ?t" "j < length buf" using assms by (auto simp: scan_while_def Let_def split: if_splits)
  then have "length ?t < length (drop i buf)" by simp
  from nth_length_takeWhile [OF this] j show "\<not> P (buf ! j)" by simp
  fix m assume m: "i \<le> m" "m < j"
  then have "m - i < length ?t" using j by simp
  from set_takeWhileD [OF nth_mem [OF this]] takeWhile_nth [OF this] have "P (drop i buf ! (m - i))" by simp
  then show "P (buf ! m)" using m j by simp
qed

lemma word_progress:
  assumes "scan_while (\<lambda>c. c = CHR '' '') buf i = Inr k" "buf ! k \<noteq> NUL" "scan_while (\<lambda>c. c \<noteq> NUL \<and> c \<noteq> CHR '' '') buf k = Inr j"
  shows "i \<le> k" "k < j" "j < length buf"
  using scan_while_stop(1) [OF assms(1)] scan_while_stop(1) [OF assms(3)] scan_while_ge [OF assms(1)] scan_while_ge [OF assms(3)] assms(2)
  by (cases "k = j"; auto)+

termination parse_from
  by (relation "measure (\<lambda>(buf, i, argv). length buf - i)") (use word_progress in fastforce)+

declare parse_from.simps [simp del]

definition parse_command :: "char list \<Rightarrow> (char list \<times> nat list) result" where
  "parse_command input = parse_from input 0 []"

text \<open>
  An argument is the memory from its pointer to the end of the buffer. As a string it ends at the
  first NUL.
\<close>

abbreviation arg :: "char list list \<Rightarrow> nat \<Rightarrow> string" where "arg argv i \<equiv> cstr (argv ! i)"

section \<open>The commands\<close>

definition help_table :: "(string \<times> string) list" where
  "help_table =
    [(''help'', ''help - Show this help''),
     (''info'', ''info - Show system info''),
     (''about'', ''about - About this OS''),
     (''clear'', ''clear - Clear screen''),
     (''ls'', ''ls - List files''),
     (''touch'', ''touch <filename> - Create a file''),
     (''rm'', ''rm <filename> - Delete a file''),
     (''write'', ''write <filename> <text> - Write to a file''),
     (''cat'', ''cat <filename> - Display file contents''),
     (''debug'', ''debug - Show filesystem debug info''),
     (''bugs'', ''bugs - Display known issues''),
     (''mkdir'', ''mkdir <dir> - Create directory''),
     (''cd'', ''cd <dir> - Change directory''),
     (''pwd'', ''pwd - Print working directory''),
     (''rmdir'', ''rmdir <dir> - Remove empty directory''),
     (''gui'', ''gui - Switch to graphical mode''),
     (''fbgui'', ''fbgui - Enter framebuffer GUI mode''),
     (''sync'', ''sync - Save filesystem to disk''),
     (''reboot'', ''reboot - Reboot the system''),
     (''testfs'', ''testfs - Create test file''),
     (''checkfs'', ''checkfs - Check if file persists''),
     (''rawtest'', ''rawtest - Test raw ATA sector read/write''),
     (''heap'', ''heap - Show heap usage''),
     (''uptime'', ''uptime - Show system uptime''),
     (''edit'', ''edit <filename> - Open the file editor''),
     (''doom'', ''doom - Play DOOM!''),
     (''gamemode'', ''gamemode - Mini emulation layer for old games''),
     (''snake'', ''snake - play snake!''),
     (''net'', ''net - Initialize network and show MAC''),
     (''ping'', ''ping <ip> - Send ICMP echo request''),
     (''loopback'', ''loopback - Test network stack with loopback ping''),
     (''netdebug'', ''netdebug - Show network debug info''),
     (''rxcheck'', ''rxcheck - Check for received packets''),
     (''broadcast'', ''broadcast - Send ARP broadcast''),
     (''arpcache'', ''arpcache - Show ARP cache''),
     (''addarp'', ''addarp <ip> - Send ARP request''),
     (''setip'', ''setip <ip> - Set IP''),
     (''arpset'', ''arpset <ip> <mac> - Manually set ARP entry''),
     (''lwip'', ''lwip - Initialize lwIP TCP/IP stack''),
     (''lwiptest'', ''lwiptest - Test lwIP stack''),
     (''browse'', ''browse <url> - Browse a website''),
     (''httpget'', ''httpget <host> [path] - HTTP GET request''),
     (''showhttp'', ''showhttp - Show HTTP response'')]"

definition cmd_help :: "('d, 'a) cmd" where
  "cmd_help env argv st =
     (let st = emit ([NL] @ ''=== FalastinOS Commands ==='' @ [NL]) st;
          st = fold (\<lambda>(name, help) st. emit (''  '' @ help @ [NL]) st) help_table st
      in Inr (emit [NL] st))"

definition cmd_info :: "('d, 'a) cmd" where
  "cmd_info env argv st = Inr (emit (''FalastinOS v0.1'' @ [NL]) st)"

definition cmd_about :: "('d, 'a) cmd" where
  "cmd_about env argv st = Inr (emit (''a buggy os made with hopes and dreams'' @ [NL]) st)"

definition cmd_clear :: "('d, 'a) cmd" where
  "cmd_clear env argv st = Inr (console_clear st)"

definition cmd_ls :: "('d, 'a) cmd" where
  "cmd_ls env argv st = (if 2 \<le> length argv then fs_list (arg argv 1) st else fs_list ''.'' st)"

definition cmd_touch :: "('d, 'a) cmd" where
  "cmd_touch env argv st =
     (if length argv < 2 then Inr (emit (''Usage: touch <filename>'' @ [NL]) st)
      else Inr (snd (fs_create (e_bus env) (arg argv 1) st)))"

definition cmd_rm :: "('d, 'a) cmd" where
  "cmd_rm env argv st =
     (if length argv < 2 then Inr (emit (''Usage: rm <filename>'' @ [NL]) st)
      else Inr (snd (fs_delete (e_bus env) (arg argv 1) st)))"

text \<open>The arguments from the third on with single spaces between them.\<close>

fun join_args :: "string list \<Rightarrow> string" where
  "join_args [] = []"
| "join_args [w] = w"
| "join_args (w # ws) = w @ CHR '' '' # join_args ws"

definition cmd_write :: "('d, 'a) cmd" where
  "cmd_write env argv st =
     (if length argv < 3 then Inr (emit (''Usage: write <filename> <text>'' @ [NL]) st)
      else let txt = join_args (map cstr (drop 2 argv)) in
        if 512 \<le> length txt then Inl OutOfBounds
        else bind_result (fs_write (e_bus env) (arg argv 1) txt (int (length txt)) st) (\<lambda>(r, st). Inr st))"

definition cmd_cat :: "('d, 'a) cmd" where
  "cmd_cat env argv st =
     (if length argv < 2 then Inr (emit (''Usage: cat <filename>'' @ [NL]) st)
      else bind_result (fs_read (arg argv 1) (chars_of (e_stack env 4096)) (4096 - 1) st) (\<lambda>(bytes, buffer, st).
        if bytes > 0
        then bind_result (put buffer bytes NUL) (\<lambda>buffer.
          let st = emit (cstr buffer) st in
          Inr (if buffer ! nat (bytes - 1) \<noteq> NL then emit [NL] st else st))
        else Inr st))"

definition cmd_debug :: "('d, 'a) cmd" where
  "cmd_debug env argv st = fs_debug st"

definition cmd_bugs :: "('d, 'a) cmd" where
  "cmd_bugs env argv st = Inr (emit (
     ''List of known bugs:'' @ [NL] @
     ''1. Not a bug but if you are reading this and are somehow working on the OS, DO NOT TOUCH IRQ OR IDT'' @ [NL] @
     '' THEY ARE HELD TOGETHER BY HOPES AND DREAMS'' @ [NL] @
     ''2. An actual bug this time, reopening the editor will completely break it after you already opened it. if you want to type something, you have one shot or use the write command and override it'' @ [NL] @
     ''3. If you expected this OS to have command history, well, it did at one point, but god knows what OBLITERATED IT'' @ [NL] @
     ''yeah thats all, sorry for the formatting btw to whoever reads this, i will never remove this'' @ [NL] @
     ''==========================FIXED BUGS============================================================================='' @ [NL] @
     ''1. number two has been fixed'' @ [NL]) st)"

definition cmd_mkdir :: "('d, 'a) cmd" where
  "cmd_mkdir env argv st =
     (if length argv < 2 then Inr (emit (''Usage: mkdir <directory>'' @ [NL]) st)
      else Inr (snd (fs_mkdir (e_bus env) (arg argv 1) st)))"

definition cmd_cd :: "('d, 'a) cmd" where
  "cmd_cd env argv st = bind_result (fs_cd (if length argv < 2 then ''/'' else arg argv 1) st) (\<lambda>(r, st). Inr st)"

definition cmd_pwd :: "('d, 'a) cmd" where
  "cmd_pwd env argv st = Inr (fs_pwd st)"

definition cmd_rmdir :: "('d, 'a) cmd" where
  "cmd_rmdir env argv st =
     (if length argv < 2 then Inr (emit (''Usage: rmdir <directory>'' @ [NL]) st)
      else Inr (snd (fs_delete (e_bus env) (arg argv 1) st)))"

definition cmd_gui :: "('d, 'a) cmd" where
  "cmd_gui env argv st =
     (let st = emit (''Starting GUI mode...'' @ [NL] @ ''Press ESC to return to shell.'' @ [NL]) st;
          st = console_clear st
      in bind_result (run_gui env st) (\<lambda>st. Inr (emit (''Returned to shell mode.'' @ [NL]) (console_clear st))))"

definition cmd_fbgui :: "('d, 'a) cmd" where
  "cmd_fbgui env argv st = run_fbgui env st"

definition cmd_sync :: "('d, 'a) cmd" where
  "cmd_sync env argv st =
     (let st = emit (''=== SYNC START ==='' @ [NL] @ ''Files in memory:'' @ [NL]) st in
      bind_result (fs_list ''.'' st) (\<lambda>st. Inr (emit (''=== SYNC END ==='' @ [NL]) (diskfs_save (e_bus env) st))))"

text \<open>\<^verbatim>\<open>reboot\<close> never returns: it stops the processor with interrupts off, which \<open>halted\<close> records.\<close>

definition cmd_reboot :: "('d, 'a) cmd" where
  "cmd_reboot env argv st = Inr ((outl (e_nic env) 0x501 0x01 (emit (''Exiting QEMU...'' @ [NL]) st))\<lparr>halted := True\<rparr>)"

definition cmd_testfs :: "('d, 'a) cmd" where
  "cmd_testfs env argv st =
     (let st = emit (''Testing filesystem persistence:'' @ [NL] @ ''Creating test file...'' @ [NL]) st in
      bind_result (fs_write (e_bus env) ''persist_test.txt'' (''Hello persistence!'' @ [NUL]) 19 st) (\<lambda>(r, st).
      Inr (emit (''File created. Type 'sync' to save, then reboot.'' @ [NL] @ ''After reboot, type 'checkfs' to verify.'' @ [NL]) st)))"

definition cmd_checkfs :: "('d, 'a) cmd" where
  "cmd_checkfs env argv st =
     bind_result (fs_read ''persist_test.txt'' (chars_of (e_stack env 100)) 99 st) (\<lambda>(bytes, buffer, st).
       if bytes > 0
       then bind_result (put buffer bytes NUL) (\<lambda>buffer.
         Inr (emit (''File found! Content: '' @ cstr buffer @ [NL] @ ''PERSISTENCE WORKS!'' @ [NL]) st))
       else Inr (emit (''File not found. Persistence failed.'' @ [NL]) st))"

definition test_pattern :: "u8 list" where
  "test_pattern = map (\<lambda>i. of_nat i AND 0xFF) [0..<512]"

text \<open>The verification loop: the first index at which the buffer differs from the pattern.\<close>

fun mismatch_at :: "nat \<Rightarrow> u8 list \<Rightarrow> nat option" where
  "mismatch_at i [] = None"
| "mismatch_at i (b # bs) = (if b \<noteq> of_nat i AND 0xFF then Some i else mismatch_at (Suc i) bs)"

definition cmd_rawtest :: "('d, 'a) cmd" where
  "cmd_rawtest env argv st =
     (let st = emit (''=== ATA Raw Sector Test ==='' @ [NL]) st in
      if ata_drive_present st = 0 then Inr (emit (''No ATA drive detected!'' @ [NL]) st)
      else let st = emit (''Writing test pattern to sector 300...'' @ [NL]) st;
               (r, st) = ata_write_sector (e_bus env) 300 test_pattern st
        in if r \<noteq> 0 then Inr (emit (''Write failed!'' @ [NL]) st)
           else let st = emit (''Reading back from sector 300...'' @ [NL]) st;
                    (r, buf, st) = ata_read_sector (e_bus env) 300 (replicate 512 0) st
             in if r \<noteq> 0 then Inr (emit (''Read failed!'' @ [NL]) st)
                else case mismatch_at 0 buf of
                  None \<Rightarrow> Inr (emit (''ATA raw test PASSED! Disk read/write works.'' @ [NL]) st)
                | Some i \<Rightarrow> bind_result (print_int (int i) (emit ''Mismatch at byte '' st)) (\<lambda>st.
                    Inr (emit ([NL] @ ''ATA raw test FAILED!'' @ [NL]) st)))"

definition heap_test :: "heap \<Rightarrow> heap result" where
  "heap_test h =
     bind_result (ended (malloc 1024 h)) (\<lambda>(a, h).
     bind_result (ended (malloc 256 h)) (\<lambda>(b, h).
     bind_result (ended (malloc 512 h)) (\<lambda>(c, h).
     bind_result (bind_result (ended (malloc_debug h)) id) (\<lambda>h.
     bind_result (ended (free_ptr b h)) (\<lambda>h.
     bind_result (bind_result (ended (malloc_debug h)) id) (\<lambda>h.
     bind_result (ended (malloc 128 h)) (\<lambda>(d, h).
     bind_result (bind_result (ended (malloc_debug h)) id) (\<lambda>h.
     bind_result (ended (free_ptr a h)) (\<lambda>h.
     bind_result (ended (free_ptr c h)) (\<lambda>h.
     bind_result (ended (free_ptr d h)) (\<lambda>h.
     bind_result (ended (malloc_debug h)) id)))))))))))"

definition cmd_heap :: "('d, 'a) cmd" where
  "cmd_heap env argv st = bind_result (heap_test (sys_heap st)) (\<lambda>h. Inr (set_heap h st))"

definition cmd_uptime :: "('d, 'a) cmd" where
  "cmd_uptime env argv st =
     bind_result (vsnprintf (replicate 512 NUL) 512 (''Uptime: %d seconds (%d ticks)'' @ [NL])
       [ArgInt (sint (timer_ticks st div 100)), ArgInt (sint (timer_ticks st))]) (\<lambda>(n, buf). Inr (emit (cstr buf) st))"

definition cmd_edit :: "('d, 'a) cmd" where
  "cmd_edit env argv st =
     (if length argv < 2 then Inr (emit (''Usage: edit <filename>'' @ [NL]) st)
      else bind_result (editor_open (e_bus env) (chars_of (e_stack env 16384)) (keys_ahead st) (arg argv 1) st) (\<lambda>(keys, st).
        Inr (emit (''Returned from editor.'' @ [NL]) (st\<lparr>keys_ahead := keys\<rparr>))))"

definition cmd_doom :: "('d, 'a) cmd" where
  "cmd_doom env argv st = run_doom env st"

definition cmd_gamemode :: "('d, 'a) cmd" where
  "cmd_gamemode env argv st = Inr (emit (''Game Mode ready!'' @ [NL] @ ''Games available: snake'' @ [NL]) st)"

definition cmd_snake :: "('d, 'a) cmd" where
  "cmd_snake env argv st = run_snake env st"

definition cmd_net :: "('d, 'a) cmd" where
  "cmd_net env argv st =
     bind_result (rtl8139_init (e_nic env) st) (\<lambda>st.
     bind_result (print_mac (rtl8139_get_mac st) (emit ''MAC: '' st)) (\<lambda>st. Inr (emit [NL] st)))"

definition cmd_ping :: "('d, 'a) cmd" where
  "cmd_ping env argv st =
     (if length argv < 2 then Inr (emit (''Usage: ping <ip>'' @ [NL]) st)
      else bind_result (ip_str_to_addr (arg argv 1)) (\<lambda>ip.
        bind_result (ping (e_nic env) (e_stack env 64) (e_stack env 512) (irqs_ahead st) ip st) (\<lambda>(irqs, st).
        Inr (st\<lparr>irqs_ahead := irqs\<rparr>))))"

definition cmd_loopback :: "('d, 'a) cmd" where
  "cmd_loopback env argv st = net_test_loopback (e_nic env) (e_stack env 64) (e_stack env 512) (e_stack env 256) st"

definition cmd_netdebug :: "('d, 'a) cmd" where
  "cmd_netdebug env argv st = rtl8139_debug (e_nic env) st"

definition rx_round :: "('d, 'a) env \<Rightarrow> nat \<Rightarrow> ('d, 'a) system_scheme \<Rightarrow> ('d, 'a) system_scheme result" where
  "rx_round env i st =
     (let (avail, st) = rtl8139_packet_available (e_nic env) st in
      if avail = 0 then Inr st
      else bind_result (print_int (int i) (emit ''Packet available at offset '' st)) (\<lambda>st.
        bind_result (rtl8139_receive_packet (e_nic env) (e_stack env 2048) 2048 (emit [NL] st)) (\<lambda>(len, packet, st).
        if len > 0 then bind_result (print_int len (emit ''Received packet, len: '' st)) (\<lambda>st. Inr (emit [NL] st))
        else Inr st)))"

definition cmd_rxcheck :: "('d, 'a) cmd" where
  "cmd_rxcheck env argv st =
     bind_result (for_each (rx_round env) [0..<100] (emit (''Checking RX buffer...'' @ [NL]) st)) (\<lambda>st.
       Inr (emit (''RX check complete.'' @ [NL]) st))"

definition cmd_broadcast :: "('d, 'a) cmd" where
  "cmd_broadcast env argv st =
     arp_send_request (e_nic env) (e_stack env 64) 0xFFFFFFFF (emit (''Sending broadcast ARP request...'' @ [NL]) st)"

definition show_entry :: "arp_entry \<Rightarrow> ('d, 'a) system_scheme \<Rightarrow> ('d, 'a) system_scheme result" where
  "show_entry e st =
     (if tt (ae_valid e)
      then bind_result (print_ip (ae_ip e) (emit ''  '' st)) (\<lambda>st.
        bind_result (print_mac (take 6 (ae_mac e)) (emit '' -> '' st)) (\<lambda>st. Inr (emit [NL] st)))
      else Inr st)"

definition cmd_arpcache :: "('d, 'a) cmd" where
  "cmd_arpcache env argv st =
     bind_result (for_each show_entry (take (arp_cache_count st) (arp_cache st)) (emit (''ARP Cache:'' @ [NL]) st)) (\<lambda>st.
       Inr (if arp_cache_count st = 0 then emit (''  (empty)'' @ [NL]) st else st))"

definition cmd_addarp :: "('d, 'a) cmd" where
  "cmd_addarp env argv st =
     (if length argv < 2 then Inr (emit (''Usage: addarp <ip>'' @ [NL]) st)
      else bind_result (ip_str_to_addr (arg argv 1)) (\<lambda>ip. arp_send_request (e_nic env) (e_stack env 64) ip st))"

definition cmd_setip :: "('d, 'a) cmd" where
  "cmd_setip env argv st =
     (if length argv < 2 then Inr (emit (''Usage: setip <ip> [gateway] [mask]'' @ [NL]) st)
      else let gateway = (if 2 < length argv then arg argv 2 else ''10.0.2.2'');
               netmask = (if 3 < length argv then arg argv 3 else ''255.255.255.0'')
        in net_set_static_ip (arg argv 1) gateway netmask st)"

text \<open>One hexadecimal digit, zero for any other character.\<close>

definition hex_digit :: "char \<Rightarrow> int" where
  "hex_digit c =
     (if 48 \<le> schar c \<and> schar c \<le> 57 then schar c - 48
      else if 97 \<le> schar c \<and> schar c \<le> 102 then schar c - 97 + 10
      else if 65 \<le> schar c \<and> schar c \<le> 70 then schar c - 65 + 10
      else 0)"

fun parse_mac :: "char list \<Rightarrow> nat list \<Rightarrow> u8 list result" where
  "parse_mac txt [] = Inr []"
| "parse_mac txt (i # is) =
     bind_result (at txt (int (i * 3))) (\<lambda>h. bind_result (at txt (int (i * 3 + 1))) (\<lambda>l.
     bind_result (parse_mac txt is) (\<lambda>mac. Inr (of_int (hex_digit h * 16 + hex_digit l) # mac))))"

definition cmd_arpset :: "('d, 'a) cmd" where
  "cmd_arpset env argv st =
     (if length argv < 3
      then Inr (emit (''Usage: arpset <ip> <mac>'' @ [NL] @ ''Example: arpset 192.168.1.1 00:11:22:33:44:55'' @ [NL]) st)
      else bind_result (ip_str_to_addr (arg argv 1)) (\<lambda>ip. bind_result (parse_mac (argv ! 2) [0..<6]) (\<lambda>mac.
        case arp_index ip st of
          Some i \<Rightarrow> Inr (emit (''Updated ARP entry'' @ [NL]) (st\<lparr>arp_cache := (arp_cache st)[i := (arp_cache st ! i)\<lparr>ae_mac := mac\<rparr>]\<rparr>))
        | None \<Rightarrow>
            if arp_cache_count st < 16
            then let st = set_entry (arp_cache_count st) ip mac st in
              Inr (emit (''Added ARP entry'' @ [NL]) (st\<lparr>arp_cache_count := arp_cache_count st + 1\<rparr>))
            else Inr st)))"

definition cmd_lwip :: "('d, 'a) cmd" where
  "cmd_lwip env argv st = lwip_init_port (e_lwip env) (e_nic env) st"

definition cmd_lwiptest :: "('d, 'a) cmd" where
  "cmd_lwiptest env argv st = Inr (lwip_ping_test st)"

definition cmd_browse :: "('d, 'a) cmd" where
  "cmd_browse env argv st =
     (if length argv < 2
      then Inr (emit (''Usage: browse <url>'' @ [NL] @ ''Example: browse example.com'' @ [NL] @ ''Example: browse http://example.com'' @ [NL]) st)
      else bind_result (browse (e_nic env) (e_stack env 1024) (irqs_ahead st) (arg argv 1) st) (\<lambda>(irqs, st). Inr (st\<lparr>irqs_ahead := irqs\<rparr>)))"

definition cmd_httpget :: "('d, 'a) cmd" where
  "cmd_httpget env argv st =
     (if length argv < 2 then Inr (emit (''Usage: httpget <host> [path]'' @ [NL]) st)
      else let path = (if 3 \<le> length argv then arg argv 2 else ''/'') in
        bind_result (http_get (e_nic env) (e_stack env 1024) (irqs_ahead st) (arg argv 1) path st) (\<lambda>(irqs, st). Inr (st\<lparr>irqs_ahead := irqs\<rparr>)))"

definition cmd_showhttp :: "('d, 'a) cmd" where
  "cmd_showhttp env argv st = Inr (display_http_response st)"

section \<open>The table and its interpreter\<close>

definition commands :: "(string \<times> ('d, 'a) cmd \<times> string) list" where
  "commands = map2 (\<lambda>(name, help) f. (name, f, help)) help_table
     [cmd_help, cmd_info, cmd_about, cmd_clear, cmd_ls, cmd_touch, cmd_rm, cmd_write, cmd_cat, cmd_debug, cmd_bugs, cmd_mkdir, cmd_cd, cmd_pwd, cmd_rmdir, cmd_gui, cmd_fbgui, cmd_sync, cmd_reboot, cmd_testfs, cmd_checkfs, cmd_rawtest, cmd_heap, cmd_uptime, cmd_edit, cmd_doom, cmd_gamemode, cmd_snake, cmd_net, cmd_ping, cmd_loopback, cmd_netdebug, cmd_rxcheck, cmd_broadcast, cmd_arpcache, cmd_addarp, cmd_setip, cmd_arpset, cmd_lwip, cmd_lwiptest, cmd_browse, cmd_httpget, cmd_showhttp]"

fun dispatch :: "(string \<times> ('d, 'a) cmd \<times> string) list \<Rightarrow> ('d, 'a) cmd" where
  "dispatch [] env argv st = Inr (emit (''Unknown command: '' @ arg argv 0 @ [NL]) st)"
| "dispatch ((name, f, help) # cs) env argv st =
     (if strcmp_cmd (arg argv 0) name = 0 then f env argv st else dispatch cs env argv st)"

definition execute_command :: "('d, 'a) env \<Rightarrow> string \<Rightarrow> ('d, 'a) system_scheme \<Rightarrow> ('d, 'a) system_scheme result" where
  "execute_command env input_str st =
     (if input_str = [] then Inr st
      else let buffer = blit (chars_of (e_stack env 256)) 0 (take 255 input_str @ [NUL]) in
        bind_result (parse_command buffer) (\<lambda>(buffer, argv).
          if argv = [] then Inr st
          else dispatch commands env (map (\<lambda>i. drop i buffer) argv) st))"

end
