(* ===== verification/Command_Lines.thy ===== *)
theory Command_Lines
  imports Commands
begin

text \<open>
  What the interpreter of \<^verbatim>\<open>src/commands.c\<close> does with a line: the words it finds are those between the
  spaces, the first selects the command, and whole command lines have the effect the commands
  promise.
\<close>

section \<open>Words\<close>

fun split_spaces :: "string \<Rightarrow> string list" where
  "split_spaces [] = [[]]"
| "split_spaces (c # s) =
     (if c = CHR '' '' then [] # split_spaces s else (c # hd (split_spaces s)) # tl (split_spaces s))"

definition words :: "string \<Rightarrow> string list" where
  "words s = filter (\<lambda>w. w \<noteq> []) (split_spaces s)"

lemma split_spaces_nonempty [simp]: "split_spaces s \<noteq> []"
  by (cases s) auto

lemma split_word: "CHR '' '' \<notin> set w \<Longrightarrow> split_spaces (w @ s) = (w @ hd (split_spaces s)) # tl (split_spaces s)"
  by (induction w) auto

lemma words_simps [simp]: "words [] = []" "words (CHR '' '' # s) = words s"
  by (simp_all add: words_def)

lemma words_spaces: "words (replicate n (CHR '' '') @ s) = words s"
  by (induction n) auto

lemma words_word:
  assumes "CHR '' '' \<notin> set w" "w \<noteq> []"
  shows "words w = [w]" "words (w @ CHR '' '' # s) = w # words s"
  using split_word [OF assms(1), of "[]"] split_word [OF assms(1), of "CHR '' '' # s"] assms(2) by (simp_all add: words_def)

text \<open>A string starts with spaces, then is empty or has a word that ends with it or at a space.\<close>

lemma line_cases:
  obtains (blank) n where "s = replicate n (CHR '' '')"
    | (last) n w where "s = replicate n (CHR '' '') @ w" "w \<noteq> []" "CHR '' '' \<notin> set w"
    | (more) n w u where "s = replicate n (CHR '' '') @ w @ CHR '' '' # u" "w \<noteq> []" "CHR '' '' \<notin> set w"
proof -
  let ?sp = "takeWhile (\<lambda>c. c = CHR '' '') s" and ?t = "dropWhile (\<lambda>c. c = CHR '' '') s"
  let ?w = "takeWhile (\<lambda>c. c \<noteq> CHR '' '') ?t" and ?u = "dropWhile (\<lambda>c. c \<noteq> CHR '' '') ?t"
  have sp: "?sp = replicate (length ?sp) (CHR '' '')"
    by (rule replicate_eqI) (auto dest: set_takeWhileD)
  have s: "s = ?sp @ ?w @ ?u" by simp
  have w: "CHR '' '' \<notin> set ?w" by (auto dest: set_takeWhileD)
  have w0: "?w \<noteq> []" if "?t \<noteq> []" using that hd_dropWhile [OF that] by (cases ?t) auto
  show ?thesis
  proof (cases "?t = []")
    case True
    then have "s = ?sp" by (metis append_Nil2 takeWhile_dropWhile_id)
    then show ?thesis using sp blank by metis
  next
    case False
    show ?thesis
    proof (cases ?u)
      case Nil
      then show ?thesis using last [of "length ?sp" ?w] w w0 [OF False] s sp by (metis append_Nil2)
    next
      case (Cons c u)
      then have "c = CHR '' ''" using hd_dropWhile [of "\<lambda>c. c \<noteq> CHR '' ''" ?t] by auto
      then show ?thesis using more [of "length ?sp" ?w u] w w0 [OF False] s sp Cons by metis
    qed
  qed
qed

lemma scan_while_list:
  "\<forall>x\<in>set xs. P x \<Longrightarrow> \<not> P y \<Longrightarrow> scan_while P (pre @ xs @ y # ys) (length pre) = Inr (length pre + length xs)"
  by (simp add: scan_while_def takeWhile_append2)

lemma scan_spaces:
  "c \<noteq> CHR '' '' \<Longrightarrow> scan_while (\<lambda>c. c = CHR '' '') (pre @ replicate n (CHR '' '') @ c # ys) (length pre) = Inr (length pre + n)"
  using scan_while_list [of "replicate n (CHR '' '')" "\<lambda>c. c = CHR '' ''" c pre ys] by simp

lemma space_not_NUL: "CHR '' '' \<noteq> NUL"
  by (simp add: NUL_def)

lemma parse_blank: "parse_from (pre @ replicate n (CHR '' '') @ NUL # rest) (length pre) argv = Inr (pre @ replicate n (CHR '' '') @ NUL # rest, argv)"
proof (cases n)
  case 0
  then show ?thesis by (simp add: parse_from.simps)
next
  case (Suc m)
  have "scan_while (\<lambda>c. c = CHR '' '') (pre @ replicate n (CHR '' '') @ NUL # rest) (length pre) = Inr (length pre + n)"
    by (rule scan_spaces) (simp add: NUL_def)
  then show ?thesis using space_not_NUL by (simp add: parse_from.simps nth_append Suc)
qed

text \<open>One round of the loop of \<^verbatim>\<open>parse_command\<close> that finds a word.\<close>

lemma parse_word:
  fixes pre rest :: "char list" and n :: nat
  assumes w: "w \<noteq> []" "CHR '' '' \<notin> set w" "nul_free w" and e: "e = NUL \<or> e = CHR '' ''"
  defines "buf \<equiv> pre @ replicate n (CHR '' '') @ w @ e # rest" and "k \<equiv> length pre + n" and "j \<equiv> length pre + n + length w"
  shows "parse_from buf (length pre) argv =
    (if 16 \<le> length argv then Inl OutOfBounds
     else if e = NUL then parse_from buf j (argv @ [k])
     else parse_from (pre @ replicate n (CHR '' '') @ w @ NUL # rest) (j + 1) (argv @ [k]))"
proof -
  obtain c w' where c: "w = c # w'" "c \<noteq> NUL" "c \<noteq> CHR '' ''" using w by (cases w) auto
  have 1: "scan_while (\<lambda>c. c = CHR '' '') buf (length pre) = Inr k"
    using scan_spaces [OF c(3), of pre n "w' @ e # rest"] by (simp add: buf_def k_def c(1))
  have 2: "scan_while (\<lambda>c. c \<noteq> NUL \<and> c \<noteq> CHR '' '') buf k = Inr j"
    using scan_while_list [of w "\<lambda>c. c \<noteq> NUL \<and> c \<noteq> CHR '' ''" e "pre @ replicate n (CHR '' '')" rest] w e
    by (auto simp: buf_def k_def j_def nul_free_def)
  have "buf ! length pre \<noteq> NUL" using c(2) space_not_NUL by (cases n) (simp_all add: buf_def nth_append c(1))
  moreover have "buf ! k = c" by (simp add: buf_def k_def nth_append c(1))
  moreover have "buf ! j = e" by (simp add: buf_def j_def nth_append)
  moreover have "buf[j := NUL] = pre @ replicate n (CHR '' '') @ w @ NUL # rest" by (simp add: buf_def j_def list_update_append)
  moreover have "length pre < length buf" by (simp add: buf_def)
  ultimately show ?thesis using 1 2 c(2) by (subst parse_from.simps) (simp add: not_le)
qed

lemma parse_words:
  "nul_free s \<Longrightarrow> length argv \<le> 16 \<Longrightarrow>
   (if length argv + length (words s) \<le> 16
    then \<exists>tail offs. parse_from (pre @ s @ NUL # rest) (length pre) argv = Inr (pre @ tail, argv @ offs) \<and>
      map (\<lambda>i. cstr (drop i (pre @ tail))) offs = words s
    else parse_from (pre @ s @ NUL # rest) (length pre) argv = Inl OutOfBounds)"
proof (induction "length s" arbitrary: s pre argv rule: less_induct)
  case less
  show ?case
  proof (cases s rule: line_cases)
    case (blank n)
    then show ?thesis using less.prems words_spaces [of n "[]"] parse_blank [of pre n rest argv] by simp
  next
    case (last n w)
    have w: "nul_free w" using less.prems(1) last(1) by simp
    have ws: "words s = [w]" using words_spaces [of n w] words_word(1) [OF last(3,2)] last(1) by simp
    note p = parse_word [OF last(2,3) w, of NUL pre n rest argv]
    have "parse_from (pre @ s @ NUL # rest) (length pre + n + length w) (argv @ [length pre + n]) = Inr (pre @ s @ NUL # rest, argv @ [length pre + n])"
      by (subst parse_from.simps) (simp add: last(1) nth_append)
    moreover have "cstr (drop (length pre + n) (pre @ s @ NUL # rest)) = w" using w by (simp add: last(1) cstr_append_NUL)
    ultimately show ?thesis unfolding ws using p less.prems(2) by (auto simp: last(1))
  next
    case (more n w u)
    have w: "nul_free w" and u: "nul_free u" using less.prems(1) more(1) by simp_all
    have ws: "words s = w # words u" using words_spaces [of n] words_word(2) [OF more(3,2)] more(1) by simp
    let ?pre = "pre @ replicate n (CHR '' '') @ w @ [NUL]"
    note p = parse_word [OF more(2,3) w, of "CHR '' ''" pre n "u @ NUL # rest" argv]
    show ?thesis
    proof (cases "length argv < 16")
      case False
      then show ?thesis unfolding ws using p less.prems(2) by (simp add: more(1))
    next
      case True
      have step: "parse_from (pre @ s @ NUL # rest) (length pre) argv = parse_from (?pre @ u @ NUL # rest) (length ?pre) (argv @ [length pre + n])"
        using p True space_not_NUL by (simp add: more(1) add.assoc)
      have wd: "cstr (drop (length pre + n) (?pre @ tail)) = w" for tail using w by (simp add: cstr_append_NUL)
      have "length u < length s" by (simp add: more(1))
      from less.hyps [OF this u, of "argv @ [length pre + n]" ?pre] True show ?thesis
        unfolding step ws using wd by (auto split: if_splits)
    qed
  qed
qed

section \<open>Selecting the command\<close>

lemma schar_NUL: "schar c = 0 \<longleftrightarrow> c = NUL"
  using schar_inj [of c NUL] by (auto simp: schar_def NUL_def)

lemma strcmp_cmd_iff: "nul_free a \<Longrightarrow> nul_free b \<Longrightarrow> strcmp_cmd a b = 0 \<longleftrightarrow> a = b"
  by (induction a b rule: strcmp_cmd.induct) (auto simp: schar_NUL dest: schar_inj)

definition command_of :: "string \<Rightarrow> ('d, 'a) cmd option" where
  "command_of name = map_of (map (\<lambda>(n, f, h). (n, f)) commands) name"

definition run_words :: "('d, 'a) cmd" where
  "run_words env argv st = (case command_of (arg argv 0) of
     Some f \<Rightarrow> f env argv st | None \<Rightarrow> Inr (emit (''Unknown command: '' @ arg argv 0 @ [NL]) st))"

lemma dispatch_map_of:
  "\<forall>(n, f, h)\<in>set cs. nul_free n \<Longrightarrow> dispatch cs env argv st =
     (case map_of (map (\<lambda>(n, f, h). (n, f)) cs) (arg argv 0) of
        Some f \<Rightarrow> f env argv st | None \<Rightarrow> Inr (emit (''Unknown command: '' @ arg argv 0 @ [NL]) st))"
  by (induction cs) (auto simp: strcmp_cmd_iff)

lemma command_names: "\<forall>(n, f, h)\<in>set commands. nul_free n"
proof -
  have "list_all (\<lambda>(n, h). nul_free n) help_table" by (simp add: help_table_def NUL_def)
  then show ?thesis by (auto simp: commands_def list_all_iff dest!: set_zip_leftD)
qed

lemma dispatch_commands: "dispatch commands env argv st = run_words env argv st"
  unfolding run_words_def command_of_def by (rule dispatch_map_of [OF command_names])

lemma execute_words:
  assumes line: "nul_free line" "length line \<le> 255" and stack: "length (e_stack env 256) = 256"
  shows "words line = [] \<Longrightarrow> execute_command env line st = Inr st"
    and "16 < length (words line) \<Longrightarrow> execute_command env line st = Inl OutOfBounds"
    and "words line \<noteq> [] \<Longrightarrow> length (words line) \<le> 16 \<Longrightarrow>
      \<exists>argv. map cstr argv = words line \<and> execute_command env line st = run_words env argv st"
proof -
  obtain rest where b: "blit (chars_of (e_stack env 256)) 0 (take 255 line @ [NUL]) = [] @ line @ NUL # rest"
    using line(2) stack by (simp add: blit_0 chars_of_def)
  note p = parse_words [OF line(1), of "[]" "[]" rest]
  show "execute_command env line st = Inr st" if "words line = []"
    using p that by (auto simp: execute_command_def parse_command_def b)
  show "execute_command env line st = Inl OutOfBounds" if "16 < length (words line)"
    using p that by (auto simp: execute_command_def parse_command_def b)
  assume w: "words line \<noteq> []" "length (words line) \<le> 16"
  then obtain tail offs where t: "parse_from (line @ NUL # rest) 0 [] = Inr (tail, offs)" "map (\<lambda>i. cstr (drop i tail)) offs = words line"
    using p by auto
  have "line \<noteq> []" "offs \<noteq> []" using w(1) t(2) by auto
  then have "execute_command env line st = run_words env (map (\<lambda>i. drop i tail) offs) st"
    by (simp add: execute_command_def parse_command_def b t(1) dispatch_commands)
  moreover have "map cstr (map (\<lambda>i. drop i tail) offs) = words line" using t(2) by (simp add: comp_def)
  ultimately show "\<exists>argv. map cstr argv = words line \<and> execute_command env line st = run_words env argv st" by blast
qed

lemma split_length: "sum_list (map (\<lambda>w. Suc (length w)) (split_spaces s)) = length s + 1"
proof (induction s)
  case (Cons c s)
  then show ?case by (cases "split_spaces s") auto
qed simp

lemma sum_list_filter_le: "sum_list (map f (filter P xs)) \<le> sum_list (map f xs)" for f :: "'b \<Rightarrow> nat"
  by (induction xs) auto

lemma words_length: "sum_list (map (\<lambda>w. Suc (length w)) (words s)) \<le> length s + 1"
  unfolding words_def split_length [symmetric] by (rule sum_list_filter_le)

lemma split_chars: "w \<in> set (split_spaces s) \<Longrightarrow> set w \<subseteq> set s"
proof (induction s arbitrary: w)
  case (Cons c s)
  have "set (hd (split_spaces s)) \<subseteq> set s" by (rule Cons.IH) simp
  moreover have "\<forall>w\<in>set (tl (split_spaces s)). set w \<subseteq> set s"
    using Cons.IH by (auto dest: list.set_sel(2) [OF split_spaces_nonempty])
  ultimately show ?case using Cons.prems Cons.IH [of w] by (auto split: if_splits)
qed simp

lemma words_nonempty: "w \<in> set (words s) \<Longrightarrow> w \<noteq> []"
  by (simp add: words_def)

lemma words_nul_free: "nul_free s \<Longrightarrow> w \<in> set (words s) \<Longrightarrow> nul_free w"
  using split_chars [of w s] by (auto simp: words_def nul_free_def)

lemma length_join_args: "length (join_args ws) \<le> sum_list (map (\<lambda>w. Suc (length w)) ws)"
  by (induction ws rule: join_args.induct) auto

lemma nul_free_join_args: "\<forall>w\<in>set ws. nul_free w \<Longrightarrow> nul_free (join_args ws)"
  by (induction ws rule: join_args.induct) (auto simp: space_not_NUL)

lemma join_args_nonempty: "\<forall>w\<in>set ws. w \<noteq> [] \<Longrightarrow> ws \<noteq> [] \<Longrightarrow> join_args ws \<noteq> []"
  by (induction ws rule: join_args.induct) auto

lemma command_of_simps:
  "command_of ''write'' = Some cmd_write" "command_of ''cat'' = Some cmd_cat" "command_of ''arpset'' = Some cmd_arpset"
  by (simp_all add: command_of_def commands_def help_table_def)

lemma arg_map: "map cstr argv = ws \<Longrightarrow> i < length ws \<Longrightarrow> arg argv i = ws ! i" "map cstr argv = ws \<Longrightarrow> length argv = length ws"
  by auto

section \<open>Properties\<close>

text \<open>
  C28. Interpreting a line of at most 255 characters: with no words nothing happens; with more than
  16 words the pointers leave the array \<^verbatim>\<open>argv[16]\<close>; otherwise the command of the table that the first word
  names runs with exactly the words between the spaces as its arguments, and a name that is not in the
  table is reported as unknown.
\<close>

theorem execute_command_runs:
  assumes "nul_free line" and "length line \<le> 255" and "length (e_stack env 256) = 256"
  shows "(if words line = [] then execute_command env line st = Inr st
    else if 16 < length (words line) then execute_command env line st = Inl OutOfBounds
    else \<exists>argv. map cstr argv = words line \<and> execute_command env line st =
      (case map_of (map (\<lambda>(n, f, h). (n, f)) commands) (hd (words line)) of
         Some f \<Rightarrow> f env argv st
       | None \<Rightarrow> Inr (emit (''Unknown command: '' @ hd (words line) @ [NL]) st)))"
proof (cases "words line = [] \<or> 16 < length (words line)")
  case True
  then show ?thesis using execute_words(1,2) [OF assms, of st] by auto
next
  case False
  then obtain argv where a: "map cstr argv = words line" "execute_command env line st = run_words env argv st"
    using execute_words(3) [OF assms, of st] by auto
  have name: "arg argv 0 = hd (words line)" using False arg_map(1) [OF a(1), of 0] by (cases "words line") auto
  show ?thesis using False a(1) by (auto simp: a(2) run_words_def command_of_def name intro!: exI [of _ argv] cong: option.case_cong)
qed

text \<open>A system with an empty file \<open>a\<close>, no network card and an empty heap.\<close>

definition boot_system :: "unit system" where
  "boot_system = editor.extend ed_boot \<lparr>sys_mem = (\<lambda>_. 0), sys_heap_start = 0, sys_heap_ready = 0, keys_ahead = [], irqs_ahead = [],
     halted = False, netif_ptr = 0, nif = zero_netif, lwip_ready = 0\<rparr>"

definition boot_env :: "(unit, unit) env" where
  "boot_env = \<lparr>e_nic = \<lparr>io = idle_bus, io_inl = (\<lambda>_ d. (0, d)), io_outl = (\<lambda>_ _ d. d), rx_memory = (\<lambda>_. []), rx_fill = (\<lambda>_ d. d),
     tx_memory = (\<lambda>_ d. d), rx_address = 0, tx_address = 0\<rparr>, e_stack = (\<lambda>n. replicate n 0), run_gui = Inr, run_fbgui = Inr,
     run_doom = Inr, run_snake = Inr, e_lwip = plain_lib\<rparr>"

lemma boot_stack: "length (e_stack boot_env n) = n"
  by (simp add: boot_env_def)

lemma words_repeated: "words (concat (replicate n ''a '')) = replicate n ''a''"
proof (induction n)
  case (Suc n)
  then show ?case using words_word(2) [of "''a''" "concat (replicate n ''a '')"] by simp
qed simp

theorem execute_command_runs_witness:
  "execute_command boot_env (''  nosuch  x '') boot_system = Inr (emit (''Unknown command: '' @ ''nosuch'' @ [NL]) boot_system) \<and>
   execute_command boot_env (concat (replicate 17 ''a '')) boot_system = Inl OutOfBounds"
proof
  have w: "words (''  nosuch  x '') = [''nosuch'', ''x'']" "nul_free (''  nosuch  x '')" by (simp_all add: words_def NUL_def)
  have n: "map_of (map (\<lambda>(n, f, h). (n, f)) commands) ''nosuch'' = (None :: (unit, unit) cmd option)"
    by (simp add: commands_def help_table_def)
  show "execute_command boot_env (''  nosuch  x '') boot_system = Inr (emit (''Unknown command: '' @ ''nosuch'' @ [NL]) boot_system)"
    using execute_command_runs [OF w(2), of boot_env boot_system] boot_stack [of 256] unfolding w(1) by (simp add: n)
  have l: "nul_free (concat (replicate 17 ''a ''))" by (simp add: nul_free_def NUL_def)
  show "execute_command boot_env (concat (replicate 17 ''a '')) boot_system = Inl OutOfBounds"
    using execute_command_runs [OF l, of boot_env boot_system] boot_stack [of 256] unfolding words_repeated
    by (simp add: length_concat sum_list_replicate)
qed

text \<open>
  C30. Storing and showing a text with two command lines: after \<^verbatim>\<open>write name text...\<close>, which stores the
  words of the text with single spaces between them, the line \<^verbatim>\<open>cat name\<close> prints exactly this text and
  ends the output with a newline; both succeed whenever the file exists or there is room for it.
\<close>

theorem write_then_cat:
  assumes "fs_inv st" and "nul_free l1" and "length l1 \<le> 255" and "words l1 = ''write'' # name # ts" and "ts \<noteq> []" and "length ts \<le> 14"
    and "lookup name st \<noteq> None \<or> room name st"
    and "nul_free l2" and "length l2 \<le> 255" and "words l2 = [''cat'', name]"
    and "\<forall>n. length (e_stack env n) = n"
  shows "\<exists>st1 st2. execute_command env l1 st = Inr st1 \<and> execute_command env l2 st1 = Inr st2 \<and>
    out st2 = out st1 @ join_args ts @ (if last (join_args ts) = NL then [] else [NL]) \<and> fs_inv st2"
proof -
  let ?t = "join_args ts"
  have free: "nul_free name" "\<forall>w\<in>set ts. nul_free w" using words_nul_free [OF assms(2)] assms(4) by auto
  have t: "nul_free ?t" "length ?t \<le> 255" "?t \<noteq> []"
  proof -
    show "nul_free ?t" using free(2) by (rule nul_free_join_args)
    have "sum_list (map (\<lambda>w. Suc (length w)) ts) \<le> 256 - 6" using words_length [of l1] assms(3,4) by simp
    then show "length ?t \<le> 255" using length_join_args [of ts] by simp
    have "\<forall>w\<in>set ts. w \<noteq> []" using words_nonempty [of _ l1] assms(4) by simp
    then show "?t \<noteq> []" using assms(5) by (rule join_args_nonempty)
  qed
  have stack: "length (e_stack env 256) = 256" using assms(11) by blast
  have n1: "words l1 \<noteq> []" "length (words l1) \<le> 16" and n2: "words l2 \<noteq> []" "length (words l2) \<le> 16"
    using assms(4,6,10) by simp_all
  obtain a1 where a1: "map cstr a1 = words l1" "execute_command env l1 st = run_words env a1 st"
    using execute_words(3) [OF assms(2,3) stack n1] by blast
  obtain x y zs where a: "a1 = x # y # zs" "cstr x = ''write''" "cstr y = name" "map cstr zs = ts"
    using a1(1) assms(4) by (auto simp: map_eq_Cons_conv)
  have arg1: "arg a1 0 = ''write''" "arg a1 1 = name" "map cstr (drop 2 a1) = ts" "\<not> length a1 < 3"
    using a assms(5) by (cases zs; simp)+
  have t8: "length ?t \<le> 8192" using t(2) by simp
  obtain d st1 where w: "diskfs_write (e_bus env) name ?t (int (length ?t)) st = Inr (0, st1)" "lookup name st1 = Some (d, ?t)"
      "fsize (files st1 ! nat (find_file name (current_dir st1) st1)) = int (length ?t)" "fs_inv st1"
    using write_known [OF assms(1) free(1) t8 assms(7)] by blast
  have e1: "execute_command env l1 st = Inr st1"
    using arg1 t(2) w(1) by (simp add: a1(2) run_words_def command_of_simps cmd_write_def fs_write_def)
  obtain a2 where a2: "map cstr a2 = words l2" "execute_command env l2 st1 = run_words env a2 st1"
    using execute_words(3) [OF assms(8,9) stack n2] by blast
  have arg2: "arg a2 0 = ''cat''" "arg a2 1 = name" "length a2 = 2" using a2(1) assms(10) by (auto simp: arg_map)
  let ?buf = "chars_of (e_stack env 4096)"
  have len: "length ?buf = 4096" using assms(11) by (simp add: chars_of_def)
  have rd: "fs_read name ?buf (4096 - 1) st1 = Inr (int (length ?t), ?t @ drop (length ?t) ?buf, st1)"
    unfolding fs_read_def by (rule read_known [OF w(4,2,3)]) (use t(2) len in simp_all)
  obtain x xs where x: "drop (length ?t) ?buf = x # xs" using t(2) len by (cases "drop (length ?t) ?buf") auto
  have p: "put (?t @ drop (length ?t) ?buf) (int (length ?t)) NUL = Inr (?t @ NUL # xs)" by (simp add: x put_def list_update_append)
  have l: "(?t @ NUL # xs) ! nat (int (length ?t) - 1) = last ?t" proof -
    have "nat (int (length ?t) - 1) = length ?t - 1" by simp
    moreover have "length ?t - 1 < length ?t" using t(3) by simp
    ultimately show ?thesis by (simp only: nth_append last_conv_nth [OF t(3)] if_True)
  qed
  have "execute_command env l2 st1 = Inr (if last ?t \<noteq> NL then emit [NL] (emit ?t st1) else emit ?t st1)"
    using arg2 t p l rd by (simp add: a2(2) run_words_def command_of_simps cmd_cat_def cstr_append_NUL)
  moreover have "fs_inv (emit s st1)" for s using w(4) fs_inv_cong [of "emit s st1" st1] by simp
  ultimately show ?thesis using e1 by auto
qed

lemma boot_files: "files boot_system = files ed_boot" "current_dir boot_system = current_dir ed_boot"
    "arp_cache boot_system = arp_cache ed_boot" "arp_cache_count boot_system = arp_cache_count ed_boot"
  by (simp_all add: boot_system_def editor.extend_def)

lemma boot_fs: "fs_inv boot_system" "lookup ''a'' boot_system \<noteq> None"
proof -
  have n: "cstr (filename ed_boot) = ''a''" by (simp add: ed_boot_def cstr_def NUL_def)
  show "fs_inv boot_system" "lookup ''a'' boot_system \<noteq> None"
    using ed_boot_session fs_inv_cong [OF boot_files(1,2)] lookup_cong [OF boot_files(1,2), of "''a''"] by (auto simp: session_ok_def n)
qed

theorem write_then_cat_witness:
  "\<exists>st1 st2. execute_command boot_env ''write a hi  there'' boot_system = Inr st1 \<and>
    execute_command boot_env ''cat a'' st1 = Inr st2 \<and> out st2 = out st1 @ ''hi there'' @ [NL]"
proof -
  have "\<exists>st1 st2. execute_command boot_env ''write a hi  there'' boot_system = Inr st1 \<and> execute_command boot_env ''cat a'' st1 = Inr st2 \<and>
      out st2 = out st1 @ join_args [''hi'', ''there''] @ (if last (join_args [''hi'', ''there'']) = NL then [] else [NL]) \<and> fs_inv st2"
    by (rule write_then_cat [where name = "''a''"]) (simp_all add: boot_fs boot_stack words_def NUL_def)
  then show ?thesis by (auto simp: NL_def)
qed

text \<open>The text of a hardware address: six pairs of hexadecimal digits with colons between them.\<close>

definition hex_char :: "nat \<Rightarrow> char" where
  "hex_char n = char_of (if n < 10 then 48 + n else 87 + n)"

fun mac_text :: "u8 list \<Rightarrow> string" where
  "mac_text [] = []"
| "mac_text [b] = [hex_char (unat b div 16), hex_char (unat b mod 16)]"
| "mac_text (b # bs) = [hex_char (unat b div 16), hex_char (unat b mod 16), CHR '':''] @ mac_text bs"

lemma hex_digit_hex_char: "n < 16 \<Longrightarrow> hex_digit (hex_char n) = int n"
proof -
  have "list_all (\<lambda>n. hex_digit (hex_char n) = int n) [0..<16]" by code_simp
  then show "n < 16 \<Longrightarrow> ?thesis" by (simp add: list_all_iff)
qed

lemma hex_char_plain: "n < 16 \<Longrightarrow> hex_char n \<noteq> NUL \<and> hex_char n \<noteq> CHR '' ''"
proof -
  have "list_all (\<lambda>n. hex_char n \<noteq> NUL \<and> hex_char n \<noteq> CHR '' '') [0..<16]" by code_simp
  then show "n < 16 \<Longrightarrow> ?thesis" by (simp add: list_all_iff)
qed

lemma nibble: "unat (b :: u8) div 16 < 16"
proof -
  have "unat b < 2 ^ LENGTH(8)" by (rule unsigned_less)
  then show ?thesis by (simp add: less_mult_imp_div_less)
qed

lemma hex_pair: "of_int (hex_digit (hex_char (unat b div 16)) * 16 + hex_digit (hex_char (unat b mod 16))) = (b :: u8)"
proof -
  have m: "unat b mod 16 < 16" by simp
  have "int (unat b div 16) * 16 + int (unat b mod 16) = int (unat b div 16 * 16 + unat b mod 16)"
    by (simp only: of_nat_add of_nat_mult of_nat_numeral)
  also have "\<dots> = int (unat b)" by (simp only: div_mult_mod_eq)
  finally show ?thesis unfolding hex_digit_hex_char [OF nibble] hex_digit_hex_char [OF m] by simp
qed

lemma list6: "length xs = 6 \<Longrightarrow> \<exists>a b c d e f. xs = [a, b, c, d, e, f]"
  by (auto simp: numeral_eq_Suc length_Suc_conv)

lemma parse_mac_text:
  assumes "length mac = 6"
  shows "parse_mac (mac_text mac @ rest) [0..<6] = Inr mac"
proof -
  obtain a b c d e f where m: "mac = [a, b, c, d, e, f]" using list6 [OF assms] by blast
  have u: "[0..<6] = [0, 1, 2, 3, 4, 5 :: nat]" by (simp add: upt_rec)
  show ?thesis unfolding m u using hex_pair [of a] hex_pair [of b] hex_pair [of c] hex_pair [of d] hex_pair [of e] hex_pair [of f]
    by (simp add: at_def)
qed

lemma mac_text_plain: "nul_free (mac_text bs) \<and> CHR '' '' \<notin> set (mac_text bs)"
proof (induction bs rule: mac_text.induct)
  case (2 b)
  then show ?case using hex_char_plain [OF nibble [of b]] hex_char_plain [of "unat b mod 16"] by auto
next
  case (3 b c bs)
  then show ?case using hex_char_plain [OF nibble [of b]] hex_char_plain [of "unat b mod 16"] by (auto simp: NUL_def)
qed simp

text \<open>
  Setting an address by hand: the line \<^verbatim>\<open>arpset ip mac\<close>, with the hardware address written as six pairs
  of hexadecimal digits, leaves that address in the ARP cache under the given IP address, provided the
  cache has an entry for it or a free one; every other IP address is found as before.
\<close>

theorem arpset_stores:
  assumes "nul_free line" and "length line \<le> 255" and "words line = [''arpset'', ipt, mac_text mac]"
    and "ip_str_to_addr ipt = Inr ip" and "length mac = 6" and "arp_ok st" and "arp_room ip st"
    and "length (e_stack env 256) = 256"
  shows "\<exists>st'. execute_command env line st = Inr st' \<and> arp_ok st' \<and> arp_lookup ip st' = Some mac \<and>
    (\<forall>other. other \<noteq> ip \<longrightarrow> arp_lookup other st' = arp_lookup other st)"
proof -
  obtain argv where a: "map cstr argv = words line" "execute_command env line st = run_words env argv st"
    using execute_words(3) [OF assms(1,2,8)] assms(3) by fastforce
  then have arg: "arg argv 0 = ''arpset''" "arg argv 1 = ipt" "arg argv 2 = mac_text mac" "length argv = 3"
    using assms(3) by (auto simp: arg_map numeral_2_eq_2)
  obtain rest where "argv ! 2 = mac_text mac @ rest"
    using arg(3) takeWhile_dropWhile_id [of "\<lambda>c. c \<noteq> NUL" "argv ! 2"] by (metis cstr_def)
  then have mac: "parse_mac (argv ! 2) [0..<6] = Inr mac" using parse_mac_text [OF assms(5)] by simp
  have "execute_command env line st = cmd_arpset env argv st" using arg(1) by (simp add: a(2) run_words_def command_of_simps)
  also have "\<exists>t. cmd_arpset env argv st = Inr (emit t (arp_add_static ip mac st))"
    using arg(2,4) assms(4,5,7) mac by (auto simp: cmd_arpset_def arp_add_static_def arp_room_def Let_def split: option.splits)
  finally obtain t where e: "execute_command env line st = Inr (emit t (arp_add_static ip mac st))" by blast
  let ?st = "arp_add_static ip mac st"
  have emit: "arp_ok (emit t ?st) = arp_ok ?st" "arp_lookup k (emit t ?st) = arp_lookup k ?st" for k
    by (simp_all add: arp_ok_def arp_lookup_def arp_index_def emit_def)
  show ?thesis using e arp.add_inv [OF assms(6,5)] arp.look_add [OF assms(6,5,7)] arp.look_other [OF assms(6,5)] by (auto simp: emit)
qed

theorem arpset_stores_witness:
  "\<exists>st'. execute_command boot_env (''arpset 10.0.2.2 '' @ mac_text [0x52, 0x54, 0, 0x12, 0x34, 0xAB]) boot_system = Inr st' \<and>
    arp_lookup 0x0A000202 st' = Some [0x52, 0x54, 0, 0x12, 0x34, 0xAB]"
proof -
  let ?mac = "[0x52, 0x54, 0, 0x12, 0x34, 0xAB] :: u8 list"
  have ip: "ip_str_to_addr ''10.0.2.2'' = Inr 0x0A000202" by code_simp
  have len: "length (mac_text ?mac) = 17" by simp
  have w: "words (''arpset 10.0.2.2 '' @ mac_text ?mac) = [''arpset'', ''10.0.2.2'', mac_text ?mac]"
    using words_word(2) [of "''arpset''" "''10.0.2.2 '' @ mac_text ?mac"] words_word(2) [of "''10.0.2.2''" "mac_text ?mac"]
      words_word(1) [of "mac_text ?mac"] mac_text_plain [of ?mac] len by (simp del: mac_text.simps) (metis list.size(3) zero_neq_numeral)
  have ok: "arp_ok boot_system" "arp_room 0x0A000202 boot_system"
    by (simp_all add: arp_ok_def arp_room_def boot_files) (simp_all add: ed_boot_def)
  have "nul_free (''arpset 10.0.2.2 '' @ mac_text ?mac)" "length (''arpset 10.0.2.2 '' @ mac_text ?mac) \<le> 255"
    using mac_text_plain [of ?mac] len by (simp_all add: NUL_def del: mac_text.simps)
  from arpset_stores [OF this w ip _ ok boot_stack] show ?thesis by auto
qed

end
