(* ===== verification/Command_Effects.thy ===== *)
theory Command_Effects
  imports Command_Lines
begin

text \<open>
  No command breaks the file system: the commands that do not concern files leave the file table and
  the current directory alone, those that do keep its invariant. The rules for \<open>keeps\<close> follow the
  shape of the definitions, so that each function takes one line.
\<close>

section \<open>Leaving the files alone\<close>

definition tree :: "('d, 'a) fsys_scheme \<Rightarrow> dfile list \<times> int" where
  "tree st = (files st, current_dir st)"

definition keeps :: "('r \<Rightarrow> ('d, 'a) fsys_scheme) \<Rightarrow> ('d, 'a) fsys_scheme \<Rightarrow> 'r result \<Rightarrow> bool" where
  "keeps g st r \<longleftrightarrow> (\<forall>x. r = Inr x \<longrightarrow> tree (g x) = tree st)"

named_theorems keeps_rules "the files survive"

lemma keepsD: "keeps g st r \<Longrightarrow> r = Inr x \<Longrightarrow> tree (g x) = tree st"
  by (simp add: keeps_def)

lemma keeps_basic [keeps_rules]:
  "keeps g st (Inl e)"
  "tree (g x) = tree st \<Longrightarrow> keeps g st (Inr x)"
  by (simp_all add: keeps_def)

lemma keeps_bind [keeps_rules]:
  "keeps h st r \<Longrightarrow> (\<And>x. tree (h x) = tree st \<Longrightarrow> keeps g st (f x)) \<Longrightarrow> keeps g st (bind_result r f)"
  by (auto simp: keeps_def bind_result_Inr_iff)

lemma keeps_if [keeps_rules]:
  "(c \<Longrightarrow> keeps g st a) \<Longrightarrow> (\<not> c \<Longrightarrow> keeps g st b) \<Longrightarrow> keeps g st (if c then a else b)"
  by simp

lemma keeps_option [keeps_rules]:
  "(x = None \<Longrightarrow> keeps g st a) \<Longrightarrow> (\<And>y. x = Some y \<Longrightarrow> keeps g st (b y)) \<Longrightarrow> keeps g st (case x of None \<Rightarrow> a | Some y \<Rightarrow> b y)"
  by (cases x) simp_all

text \<open>A pure computation in front.\<close>

lemma keeps_plain:
  "(\<And>x. keeps g st (f x)) \<Longrightarrow> keeps g st (bind_result r f)"
  by (auto simp: keeps_def bind_result_Inr_iff)

lemma tree_upd [simp]:
  "tree (emit s st) = tree st" "tree (st\<lparr>dev := d\<rparr>) = tree st"
  by (simp_all add: tree_def)

lemma tree_nic [simp]:
  "tree (nst\<lparr>ticks := a\<rparr>) = tree nst" "tree (mst\<lparr>rtl_io_base := b\<rparr>) = tree mst" "tree (mst\<lparr>rtl_mac := c\<rparr>) = tree mst"
  "tree (mst\<lparr>rtl_initialized := e\<rparr>) = tree mst" "tree (mst\<lparr>rx_offset := h\<rparr>) = tree mst"
  by (simp_all add: tree_def)

lemma tree_net [simp]:
  "tree (st\<lparr>arp_cache := a\<rparr>) = tree st" "tree (st\<lparr>arp_cache_count := b\<rparr>) = tree st" "tree (st\<lparr>our_ip := c\<rparr>) = tree st"
  "tree (st\<lparr>gateway_ip := c\<rparr>) = tree st" "tree (st\<lparr>subnet_mask := c\<rparr>) = tree st" "tree (st\<lparr>dhcp_configured := e\<rparr>) = tree st"
  "tree (st\<lparr>http_response := h\<rparr>) = tree st" "tree (st\<lparr>http_response_len := e\<rparr>) = tree st" "tree (st\<lparr>http_response_ready := e\<rparr>) = tree st"
  "tree (set_entry i c m st) = tree st" "tree (arp_add_static c m st) = tree st"
  by (simp_all add: tree_def set_entry_def arp_add_static_def Let_def split: option.splits)

lemma tree_editor [simp]:
  "tree (st\<lparr>grid := a\<rparr>) = tree st" "tree (st\<lparr>lines := b\<rparr>) = tree st" "tree (st\<lparr>line_count := c\<rparr>) = tree st"
  "tree (st\<lparr>cursor_row := c\<rparr>) = tree st" "tree (st\<lparr>cursor_col := c\<rparr>) = tree st" "tree (st\<lparr>top_line := c\<rparr>) = tree st"
  "tree (st\<lparr>dirty := c\<rparr>) = tree st" "tree (st\<lparr>filename := f\<rparr>) = tree st" "tree (console_clear st) = tree st"
  "tree (clear_editor_state st) = tree st" "tree (draw_string_at r k s st) = tree st" "tree (clear_screen_line r st) = tree st"
  "tree (draw_message s st) = tree st" "tree (ensure_cursor_visible st) = tree st"
  by (simp_all add: tree_def console_clear_def clear_editor_state_def draw_string_grid clear_line_grid draw_message_def
      ensure_cursor_visible_def Let_def)

lemma tree_system [simp]:
  "tree (st\<lparr>keys_ahead := k\<rparr>) = tree st" "tree (st\<lparr>irqs_ahead := i\<rparr>) = tree st" "tree (st\<lparr>halted := h\<rparr>) = tree st" "tree (set_heap hp st) = tree st"
  "tree (st\<lparr>netif_ptr := p\<rparr>) = tree st" "tree (st\<lparr>nif := n\<rparr>) = tree st" "tree (st\<lparr>lwip_ready := r\<rparr>) = tree st"
  by (simp_all add: tree_def set_heap_def)

lemma tree_ports [simp]:
  "tree (outb b p v st) = tree st" "tree (outw b p w st) = tree st" "tree (outl nb p l st) = tree st"
  "tree (snd (inb b p st)) = tree st" "tree (snd (inw b p st)) = tree st" "tree (snd (inl nb p st)) = tree st"
  "tree (snd (pci_read_config nb i j k m st)) = tree st" "tree (pci_write_config nb i j k m l st) = tree st" "tree (update_cursor b x y st) = tree st"
  by (simp_all add: outb_def outw_def outl_def inb_def inw_def inl_def pci_read_config_def pci_write_config_def update_cursor_def
      Let_def case_prod_beta)

text \<open>Functions of the console return the state with text added.\<close>

lemma print_int_emit: "print_int n st = Inr st' \<Longrightarrow> \<exists>t. st' = emit t st"
  by (auto simp: print_int_def bind_result_Inr_iff Let_def split: if_splits)

lemma keeps_print_int [keeps_rules]: "tree st0 = tree st \<Longrightarrow> keeps (\<lambda>x. x) st (print_int n st0)"
  by (auto simp: keeps_def dest!: print_int_emit)

lemma keeps_print_int_static [keeps_rules]: "tree st0 = tree st \<Longrightarrow> keeps (\<lambda>x. x) st (print_int_static n st0)"
  by (auto simp: keeps_def dest!: print_int_static_only)

lemma keeps_print_ip [keeps_rules]: "tree st0 = tree st \<Longrightarrow> keeps (\<lambda>x. x) st (print_ip ip st0)"
  by (auto simp: keeps_def print_ip_def bind_result_Inr_iff)

lemma keeps_print_mac [keeps_rules]: "tree st0 = tree st \<Longrightarrow> keeps (\<lambda>x. x) st (print_mac bs st0)"
proof (induction bs arbitrary: st0)
  case (Cons b bs)
  then show ?case by (auto intro!: keeps_rules)
qed (simp add: keeps_rules)

lemma keeps_debug_reg [keeps_rules]: "tree st0 = tree st \<Longrightarrow> keeps (\<lambda>x. x) st (debug_reg l n st0)"
  unfolding debug_reg_def by (auto intro!: keeps_rules)

section \<open>The network\<close>

lemmas flow = Let_def case_prod_beta

lemma keeps_probe_slot [keeps_rules]: "tree st0 = tree st \<Longrightarrow> keeps snd st (probe_slot bus b s st0)"
  unfolding probe_slot_def flow by (auto intro!: keeps_rules)

lemma keeps_scan_slots [keeps_rules]: "tree st0 = tree st \<Longrightarrow> keeps snd st (scan_slots bus bs st0)"
proof (induction bs arbitrary: st0)
  case (Cons b bs)
  then show ?case by (cases b) (auto simp: flow intro!: keeps_rules)
qed (simp add: keeps_rules)

lemma tree_wait_reset [simp]: "tree (wait_reset bus n st) = tree st"
  by (induction n arbitrary: st) (simp_all add: flow)

lemma tree_wait_transmit [simp]: "tree (wait_transmit bus n st) = tree st"
  by (induction n arbitrary: st) (simp_all add: flow)

lemma tree_read_mac [simp]: "tree (read_mac bus is st) = tree st"
  by (induction "is" arbitrary: st) (simp_all add: flow)

lemma keeps_rtl8139_init [keeps_rules]: "tree st0 = tree st \<Longrightarrow> keeps (\<lambda>x. x) st (rtl8139_init bus st0)"
  unfolding rtl8139_init_def rtl8139_find_device_def flow by (auto intro!: keeps_rules)

lemma keeps_send_packet [keeps_rules]: "tree st0 = tree st \<Longrightarrow> keeps snd st (rtl8139_send_packet bus p n st0)"
  unfolding rtl8139_send_packet_def flow by (auto intro!: keeps_rules)

lemma keeps_receive_packet [keeps_rules]: "tree st0 = tree st \<Longrightarrow> keeps (\<lambda>x. snd (snd x)) st (rtl8139_receive_packet bus p n st0)"
  unfolding rtl8139_receive_packet_def flow by (auto intro!: keeps_rules)

lemma tree_packet_available [simp]: "tree (snd (rtl8139_packet_available bus st)) = tree st"
  unfolding rtl8139_packet_available_def flow by simp

lemma keeps_rtl8139_debug [keeps_rules]: "tree st0 = tree st \<Longrightarrow> keeps (\<lambda>x. x) st (rtl8139_debug bus st0)"
  unfolding rtl8139_debug_def flow by (auto intro!: keeps_rules)

lemma keeps_net_send [keeps_rules]: "tree st0 = tree st \<Longrightarrow> keeps (\<lambda>x. x) st (net_send_packet bus p n st0)"
  unfolding net_send_packet_def flow by (auto intro!: keeps_rules)

lemma keeps_arp_send [keeps_rules]: "tree st0 = tree st \<Longrightarrow> keeps (\<lambda>x. x) st (arp_send_request bus j ip st0)"
  unfolding arp_send_request_def flow by (auto intro!: keeps_rules)

lemma keeps_icmp_reply [keeps_rules]: "tree st0 = tree st \<Longrightarrow> keeps (\<lambda>x. x) st (icmp_send_reply bus j k ip p n st0)"
  unfolding icmp_send_reply_def flow by (auto intro!: keeps_rules(1,2,4-) keeps_plain)

lemma keeps_icmp_handle [keeps_rules]: "tree st0 = tree st \<Longrightarrow> keeps (\<lambda>x. x) st (icmp_handle_packet bus j k p n st0)"
  unfolding icmp_handle_packet_def flow by (auto intro!: keeps_rules)

lemma keeps_ip_handle [keeps_rules]: "tree st0 = tree st \<Longrightarrow> keeps (\<lambda>x. x) st (ip_handle_packet bus j k p n st0)"
  unfolding ip_handle_packet_def flow by (auto intro!: keeps_rules)

lemma sleep_loop_tree: "sleep_loop target irqs st = Some (irqs', st') \<Longrightarrow> tree st' = tree st"
proof (induction irqs arbitrary: st)
  case (Cons a irqs)
  then show ?case by (subst (asm) (2) sleep_loop.simps) (auto simp: irq0_c_def split: if_splits)
qed (auto simp: sleep_loop.simps split: if_splits)

lemma timer_sleep_tree: "timer_sleep ms irqs st = Some y \<Longrightarrow> tree (snd y) = tree st"
  by (cases y) (auto simp: timer_sleep_def Let_def dest: sleep_loop_tree)

lemma keeps_ping_send:
  "tree st0 = tree st \<Longrightarrow> keeps snd st (bind_result (echo_request j m m' a b) (\<lambda>p.
     bind_result (net_send_packet bus p n st0) (\<lambda>st. Inr (irqs, st))))"
  by (rule keeps_plain) (auto intro!: keeps_rules)

lemma keeps_ping [keeps_rules]: "tree st0 = tree st \<Longrightarrow> keeps snd st (ping bus j k irqs ip st0)"
  unfolding ping_def flow
  by (rule keeps_bind [OF keeps_print_ip]) (auto intro!: keeps_option keeps_ping_send keeps_basic keeps_bind [OF keeps_arp_send] dest: timer_sleep_tree)

lemma keeps_loopback [keeps_rules]: "tree st0 = tree st \<Longrightarrow> keeps (\<lambda>x. x) st (net_test_loopback bus j k l st0)"
  unfolding net_test_loopback_def flow
  by (rule keeps_option) (auto intro!: keeps_basic keeps_plain [where r = "echo_request x y z u v" for x y z u v] keeps_bind [OF keeps_ip_handle])

lemma keeps_set_ip [keeps_rules]: "tree st0 = tree st \<Longrightarrow> keeps (\<lambda>x. x) st (net_set_static_ip a b c st0)"
  unfolding net_set_static_ip_def flow
  by (intro keeps_plain [where r = "ip_str_to_addr x" for x]) (auto intro!: keeps_rules)

lemma keeps_dns_poll: "tree st0 = tree st \<Longrightarrow> keeps (\<lambda>x. snd (snd x)) st (dns_poll bus n rb irqs st0)"
proof (induction n arbitrary: rb irqs st0)
  case 0
  then show ?case by (simp add: keeps_rules)
next
  case (Suc n)
  let ?rx = "\<lambda>st1. if tt (fst (rtl8139_packet_available bus st0))
    then bind_result (rtl8139_receive_packet bus rb 1024 st1) (\<lambda>x. if fst x > 42
      then bind_result (parse_dns_response (drop 42 (fst (snd x))) (nat (fst x) - 42)) (\<lambda>ip. Inr (ip, fst (snd x), snd (snd x)))
      else Inr (0, fst (snd x), snd (snd x))) else Inr (0, rb, st1)"
  have rx: "keeps (\<lambda>x. snd (snd x)) st (?rx (snd (rtl8139_packet_available bus st0)))"
    using Suc.prems by (auto intro!: keeps_if keeps_basic keeps_bind [OF keeps_receive_packet] keeps_plain [where r = "parse_dns_response x y" for x y])
  show ?case unfolding dns_poll.simps flow
    by (rule keeps_bind [OF rx]) (auto intro!: keeps_if keeps_option keeps_basic Suc.IH dest: timer_sleep_tree)
qed

lemma keeps_dns_resolve [keeps_rules]: "tree st0 = tree st \<Longrightarrow> keeps (\<lambda>x. snd (snd x)) st (dns_resolve_simple bus rb irqs h st0)"
  unfolding dns_resolve_simple_def flow
  by (rule keeps_plain) (auto intro!: keeps_bind [OF keeps_send_packet] keeps_dns_poll)

lemma keeps_http_get [keeps_rules]: "tree st0 = tree st \<Longrightarrow> keeps snd st (http_get bus rb irqs h p st0)"
  unfolding http_get_def flow by (auto intro!: keeps_rules)

lemma keeps_browse [keeps_rules]: "tree st0 = tree st \<Longrightarrow> keeps snd st (browse bus rb irqs u st0)"
  unfolding browse_def flow by (rule keeps_plain) (rule keeps_http_get)

lemma tree_display [simp]: "tree (display_http_response st) = tree st"
  by (simp add: display_http_response_def flow)

lemma keeps_for_each [keeps_rules]:
  assumes "\<And>i st0. tree st0 = tree st \<Longrightarrow> keeps (\<lambda>x. x) st (f i st0)"
  shows "tree st0 = tree st \<Longrightarrow> keeps (\<lambda>x. x) st (for_each f is st0)"
proof (induction "is" arbitrary: st0)
  case (Cons i "is")
  then show ?case by (auto intro!: keeps_bind [OF assms])
qed (simp add: keeps_rules)

section \<open>Files and the editor\<close>

lemma keeps_list_size:
  "tree st0 = tree st \<Longrightarrow> keeps (\<lambda>x. x) st (if \<not> tt (fis_dir f)
     then bind_result (print_int_static (fsize f) (emit '' ('' st0)) (\<lambda>st. Inr (emit '' bytes)'' st)) else Inr st0)"
  by (auto intro!: keeps_rules)

lemma keeps_list_from: "tree st0 = tree st \<Longrightarrow> keeps snd st (list_from cur fs n st0)"
proof (induction fs arbitrary: n st0)
  case (Cons f fs)
  have "keeps snd st (bind_result (if \<not> tt (fis_dir f)
     then bind_result (print_int_static (fsize f) (emit '' ('' st1)) (\<lambda>st. Inr (emit '' bytes)'' st)) else Inr st1)
     (\<lambda>st. list_from cur fs 1 (emit [NL] st)))" if "tree st1 = tree st" for st1
    by (rule keeps_bind [OF keeps_list_size [OF that]]) (simp add: Cons.IH)
  with Cons show ?case unfolding list_from.simps flow by (auto intro!: keeps_if keeps_basic(1))
qed (simp add: keeps_rules)

lemma keeps_fs_list [keeps_rules]: "tree st0 = tree st \<Longrightarrow> keeps (\<lambda>x. x) st (fs_list p st0)"
  unfolding fs_list_def diskfs_list_def flow by (rule keeps_bind [OF keeps_list_from]) (auto intro!: keeps_rules)

lemma keeps_fs_read [keeps_rules]: "tree st0 = tree st \<Longrightarrow> keeps (\<lambda>x. snd (snd x)) st (fs_read n b k st0)"
  unfolding fs_read_def diskfs_read_def flow by (auto intro!: keeps_rules)

lemma keeps_debug_from: "tree st0 = tree st \<Longrightarrow> keeps (\<lambda>x. x) st (debug_from i fs st0)"
proof (induction fs arbitrary: i st0)
  case (Cons f fs)
  then show ?case by (auto simp: flow intro!: keeps_rules)
qed (simp add: keeps_rules)

lemma keeps_fs_debug [keeps_rules]: "tree st0 = tree st \<Longrightarrow> keeps (\<lambda>x. x) st (fs_debug st0)"
  unfolding fs_debug_def diskfs_debug_def flow by (auto intro!: keeps_rules keeps_debug_from)

lemma tree_pwd [simp]: "tree (fs_pwd st) = tree st"
  by (simp add: fs_pwd_def diskfs_pwd_def flow)

lemma tree_poll [simp]: "tree (snd (ata_poll_bsy bus st)) = tree st" "tree (snd (ata_poll_drq bus st)) = tree st" "tree (ata_setup bus l c st) = tree st"
    "tree (outw_loop bus ws st) = tree st"
  using poll_bsy_dev [of bus 1000000 st] poll_drq_dev [of bus 1000000 st] ata_setup_dev [of bus l c st] outw_loop_dev [of bus ws st]
  by (auto simp: ata_poll_bsy_def ata_poll_drq_def)

lemma tree_inw_loop [simp]: "tree (snd (inw_loop bus n st)) = tree st"
  by (induction n arbitrary: st) (simp_all add: flow)

lemma tree_ata [simp]: "tree (snd (ata_write_sector bus l b st)) = tree st" "tree (snd (snd (ata_read_sector bus l c st))) = tree st"
  by (simp_all add: ata_write_sector_def ata_read_sector_def flow)

lemma keeps_line_len: "keeps g st (bind_result (line_len r st0) f)" if "\<And>n. keeps g st (f n)"
  using that by (rule keeps_plain)

lemma keeps_on_row [keeps_rules]: "tree st0 = tree st \<Longrightarrow> keeps (\<lambda>x. x) st (on_row r f st0)"
  unfolding on_row_def by (intro keeps_plain) (simp add: keeps_rules)

lemma keeps_draw_number [keeps_rules]: "tree st0 = tree st \<Longrightarrow> keeps (\<lambda>x. x) st (draw_number_at r c v st0)"
  unfolding draw_number_at_def by (rule keeps_plain) (simp add: keeps_rules)

lemma keeps_draw_status [keeps_rules]: "tree st0 = tree st \<Longrightarrow> keeps (\<lambda>x. x) st (draw_status st0)"
  unfolding draw_status_def flow
  by (rule keeps_bind [OF keeps_draw_number], simp del: draw_string_at.simps, rule keeps_bind [OF keeps_draw_number])
    (simp_all del: draw_string_at.simps add: keeps_basic)

lemma keeps_draw_row [keeps_rules]: "tree st0 = tree st \<Longrightarrow> keeps (\<lambda>x. x) st (draw_row r st0)"
  unfolding draw_row_def flow by (auto intro!: keeps_if keeps_plain keeps_basic)

lemma keeps_draw_editor [keeps_rules]: "tree st0 = tree st \<Longrightarrow> keeps (\<lambda>x. x) st (draw_editor bus st0)"
  unfolding draw_editor_def by (auto intro!: keeps_rules)

lemma keeps_load_chars: "tree st0 = tree st \<Longrightarrow> keeps (\<lambda>x. x) st (load_chars cs col st0)"
proof (induction cs arbitrary: col st0)
  case Nil
  then show ?case by (simp add: load_chars.simps keeps_rules)
next
  case (Cons c cs)
  then show ?case unfolding load_chars.simps(2) by (auto intro!: keeps_if keeps_basic keeps_bind [OF keeps_on_row])
qed

lemma keeps_load_file [keeps_rules]: "tree st0 = tree st \<Longrightarrow> keeps (\<lambda>x. x) st (load_file j n st0)"
  unfolding load_file_def flow
  by (rule keeps_bind [OF keeps_fs_read]) (auto intro!: keeps_if keeps_basic keeps_plain [where r = "put x y z" for x y z] keeps_bind [OF keeps_load_chars])

lemma keeps_edit_keys [keeps_rules]: "tree st0 = tree st \<Longrightarrow> keeps (\<lambda>x. x) st (insert_char c st0)"
    "tree st0 = tree st \<Longrightarrow> keeps (\<lambda>x. x) st (insert_newline st0)" "tree st0 = tree st \<Longrightarrow> keeps (\<lambda>x. x) st (backspace_char st0)"
    "tree st0 = tree st \<Longrightarrow> keeps (\<lambda>x. x) st (move_cursor dr dc st0)"
  unfolding insert_char_def insert_newline_def backspace_char_def move_cursor_def flow
  by (auto intro!: keeps_if keeps_basic keeps_bind [OF keeps_on_row] keeps_line_len
      keeps_plain [where r = "at x y" for x y] keeps_plain [where r = "for_each x y z" for x y z])

lemma keeps_delete_char [keeps_rules]: "tree st0 = tree st \<Longrightarrow> keeps (\<lambda>x. x) st (delete_char st0)"
  unfolding delete_char_def flow by (auto intro!: keeps_if keeps_basic keeps_bind [OF keeps_on_row] keeps_line_len keeps_edit_keys)

section \<open>Every command keeps the invariant\<close>

definition fs_safe :: "('d, 'a) env \<Rightarrow> ('d, 'a) cmd \<Rightarrow> bool" where
  "fs_safe env f \<longleftrightarrow> (\<forall>argv st st'. fs_inv st \<longrightarrow> f env argv st = Inr st' \<longrightarrow> fs_inv st')"

lemma fs_inv_tree: "tree st' = tree st \<Longrightarrow> fs_inv st' = fs_inv st"
  by (rule fs_inv_cong) (simp_all add: tree_def)

lemma tree_inv: "tree st' = tree st \<Longrightarrow> fs_inv st \<Longrightarrow> fs_inv st'"
  by (simp add: fs_inv_tree [of st' st])

lemma keeps_safe: "(\<And>argv st. keeps (\<lambda>x. x) st (f env argv st)) \<Longrightarrow> fs_safe env f"
  by (auto simp: fs_safe_def dest!: keepsD fs_inv_tree)

lemma fs_safeI: "(\<And>argv st st'. fs_inv st \<Longrightarrow> f env argv st = Inr st' \<Longrightarrow> fs_inv st') \<Longrightarrow> fs_safe env f"
  by (auto simp: fs_safe_def)

lemma tree_fold: "(\<And>x st. tree (f x st) = tree st) \<Longrightarrow> tree (fold f xs st) = tree st"
  by (induction xs arbitrary: st) auto

lemma keeps_rx_round: "tree st0 = tree st \<Longrightarrow> keeps (\<lambda>x. x) st (rx_round env i st0)"
  unfolding rx_round_def flow by (auto intro!: keeps_rules)

lemma keeps_show_entry: "tree st0 = tree st \<Longrightarrow> keeps (\<lambda>x. x) st (show_entry e st0)"
  unfolding show_entry_def by (auto intro!: keeps_rules)

subsection \<open>The lwIP library\<close>

text \<open>
  What the kernel relies on: the library keeps to its own data and to the network, so no call of it touches the
  file table, takes a key or stops the processor, as long as the initialisation callback does not either.
\<close>

definition spared :: "('d, 'a) system_scheme \<Rightarrow> ('d, 'a) system_scheme \<Rightarrow> bool" where
  "spared s t \<longleftrightarrow> tree t = tree s \<and> keys_ahead t = keys_ahead s \<and> halted t = halted s"

definition lib_apart :: "('d, 'a) lwip_lib \<Rightarrow> bool" where
  "lib_apart lib \<longleftrightarrow>
     (\<forall>s. spared s (lwip_init lib s) \<and> spared s (netif_set_default lib s) \<and> spared s (netif_set_up lib s) \<and> spared s (sys_check_timeouts lib s)) \<and>
     (\<forall>a b c f inp s. (\<forall>t. spared t (snd (f t))) \<longrightarrow> spared s (netif_add lib a b c f inp s)) \<and> (\<forall>i a s. spared s (dns_setserver lib i a s)) \<and>
     (\<forall>n s. spared s (snd (pbuf_alloc lib n s))) \<and> (\<forall>p bs n s. spared s (pbuf_take lib p bs n s)) \<and> (\<forall>p s. spared s (pbuf_free lib p s)) \<and>
     (\<forall>p s. spared s (snd (library_input lib p s)))"

lemma spared_trans: "spared s t \<Longrightarrow> spared t u \<Longrightarrow> spared s u"
  by (simp add: spared_def)

lemma lib_apartD:
  assumes "lib_apart lib"
  shows "spared s (lwip_init lib s)" "spared s (netif_set_default lib s)" "spared s (netif_set_up lib s)" "spared s (sys_check_timeouts lib s)"
    "spared s (dns_setserver lib i a s)" "(\<And>t. spared t (snd (f t))) \<Longrightarrow> spared s (netif_add lib a b c f inp s)"
    "spared s (snd (pbuf_alloc lib n s))" "spared s (pbuf_take lib p bs n s)" "spared s (pbuf_free lib p s)" "spared s (snd (library_input lib p s))"
  using assms by (simp_all add: lib_apart_def)

lemma lib_pairs:
  assumes "lib_apart lib"
  shows "library_input lib p s = (e, t) \<Longrightarrow> spared s t" "pbuf_alloc lib n s = (p, t) \<Longrightarrow> spared s t"
  using lib_apartD(7,10) [OF assms] by (metis snd_conv)+

lemma spared_refl [simp]: "spared s s"
  by (simp add: spared_def)

lemma input_spared:
  assumes lib: "lib_apart lib" and r: "lwip_input_fn lib p st = Some (e, st')"
  shows "spared st st'"
proof -
  have "lib_apart lib \<longrightarrow> spared st (snd y)" if "lwip_input_fn lib p st = Some y" for y
    using that
    by (rule lwip_input_fn.raw_induct [where P = "\<lambda>lib p st y. lib_apart lib \<longrightarrow> spared st (snd y)", rotated])
      (auto intro: lib_pairs split: if_splits input_fn.splits)
  from this [OF r] lib show ?thesis by simp
qed

lemma receive_spared: "rtl8139_receive_packet bus b n st = Inr (len, buf, st') \<Longrightarrow> spared st st'" for st :: "('d, 'a) system_scheme"
proof -
  assume r: "rtl8139_receive_packet bus b n st = Inr (len, buf, st')"
  have "tree st' = tree st" using keepsD [OF keeps_receive_packet [OF refl] r] by simp
  moreover have "keys_ahead st' = keys_ahead st \<and> halted st' = halted st"
    using r by (auto simp: rtl8139_receive_packet_def inw_def outw_def Let_def split: if_splits prod.splits)
  ultimately show ?thesis by (simp add: spared_def)
qed

lemma low_input_spared:
  assumes lib: "lib_apart lib" and r: "low_level_input lib bus junk st = Inr (p, st')"
  shows "spared st st'"
proof (cases "lwip_ready st = 0")
  case False
  then obtain len buf s where s: "rtl8139_receive_packet bus junk 2048 st = Inr (len, buf, s)"
    using r by (cases "rtl8139_receive_packet bus junk 2048 st") (auto simp: low_level_input_def)
  obtain q t where q: "pbuf_alloc lib len s = (q, t)" by (cases "pbuf_alloc lib len s")
  have "spared s t" by (rule lib_pairs(2) [OF lib q])
  moreover have "st' \<in> {s, t, pbuf_take lib q buf len t}" using r False s q by (auto simp: low_level_input_def split: if_splits)
  ultimately have "spared s st'" using spared_trans [OF _ lib_apartD(8) [OF lib]] by auto
  then show ?thesis using spared_trans [OF receive_spared [OF s]] by blast
qed (use r in \<open>simp add: low_level_input_def\<close>)

lemma poll_spared:
  assumes lib: "lib_apart lib" and r: "lwip_poll lib bus junk st = Some (Inr st')"
  shows "spared st st'"
proof (cases "lwip_ready st = 0")
  case False
  let ?s = "sys_check_timeouts lib st"
  have n: "netif_poll lib bus junk ?s = Some (Inr st')" using r False by (simp add: lwip_poll_def)
  then obtain p s where s: "low_level_input lib bus junk ?s = Inr (p, s)" by (auto simp: netif_poll_def split: sum.splits)
  have "spared s st'"
  proof (cases "p = 0")
    case p: False
    then obtain e t where t: "lwip_input_fn lib p s = Some (e, t)" "st' = (if e \<noteq> ERR_OK then pbuf_free lib p t else t)"
      using n s by (auto simp: netif_poll_def)
    then show ?thesis using input_spared [OF lib t(1)] spared_trans [OF _ lib_apartD(9) [OF lib]] by auto
  qed (use n s in \<open>simp add: netif_poll_def spared_def\<close>)
  then show ?thesis using spared_trans lib_apartD(4) [OF lib] low_input_spared [OF lib s] by blast
qed (use r in \<open>simp add: lwip_poll_def spared_def\<close>)

lemma init_port_tree:
  assumes lib: "lib_apart lib" and r: "lwip_init_port lib bus st = Inr st'"
  shows "tree st' = tree st"
proof -
  have cb: "spared t (snd (netif_init_cb t))" for t :: "('a, 'b) system_scheme" by (simp add: netif_init_cb_def spared_def)
  have lt: "tree (lwip_init lib s) = tree s" "tree (netif_set_default lib s) = tree s" "tree (netif_set_up lib s) = tree s"
    "tree (dns_setserver lib i a s) = tree s" "tree (netif_add lib a b c netif_init_cb inp s) = tree s" for s i a b c inp
    using lib_apartD [OF lib] lib_apartD(6) [OF lib, of netif_init_cb, OF cb] by (simp_all add: spared_def)
  obtain x where x: "rtl8139_init bus st = Inr x" "bind_result (ended (malloc (sizeof_netif lib) (sys_heap x))) (\<lambda>(p, h).
       let st = (set_heap h x)\<lparr>netif_ptr := p\<rparr> in
       if p = 0 then Inr st
       else let st = lwip_init lib st;
                st = netif_add lib (ip4_addr 10 0 2 15) (ip4_addr 255 255 255 0) (ip4_addr 10 0 2 2) netif_init_cb Lwip_Input_Fn st;
                st = netif_set_up lib (netif_set_default lib st);
                st = dns_setserver lib 0 (ip4_addr 8 8 8 8) st
            in Inr (st\<lparr>lwip_ready := 1\<rparr>)) = Inr st'"
    using r unfolding lwip_init_port_def bind_result_Inr_iff [of "rtl8139_init bus st"] by blast
  have "tree x = tree st" using keepsD [OF keeps_rtl8139_init [OF refl] x(1)] by simp
  moreover have "tree st' = tree x"
    using x(2) by (auto simp: bind_result_Inr_iff Let_def lt split: if_splits prod.splits)
  ultimately show ?thesis by simp
qed

lemma safe_lwip: "lib_apart (e_lwip env) \<Longrightarrow> fs_safe env cmd_lwip" "fs_safe env cmd_lwiptest"
  by (rule fs_safeI, use init_port_tree tree_inv in \<open>fastforce simp: cmd_lwip_def\<close>)
    (rule keeps_safe, simp add: cmd_lwiptest_def lwip_ping_test_def keeps_basic)

subsection \<open>All commands\<close>

lemma safe_text:
  "fs_safe env cmd_help" "fs_safe env cmd_info" "fs_safe env cmd_about" "fs_safe env cmd_clear" "fs_safe env cmd_bugs"
  "fs_safe env cmd_pwd" "fs_safe env cmd_reboot" "fs_safe env cmd_gamemode" "fs_safe env cmd_showhttp"
  by (rule keeps_safe, simp add: cmd_help_def cmd_info_def cmd_about_def cmd_clear_def cmd_bugs_def cmd_pwd_def cmd_reboot_def
      cmd_gamemode_def cmd_showhttp_def case_prod_beta Let_def tree_fold keeps_basic)+

lemma safe_files_read:
  "fs_safe env cmd_ls" "fs_safe env cmd_debug" "fs_safe env cmd_cat" "fs_safe env cmd_checkfs"
  by (rule keeps_safe, auto simp: cmd_ls_def cmd_debug_def cmd_cat_def cmd_checkfs_def flow
      intro!: keeps_if keeps_basic keeps_fs_list keeps_fs_debug keeps_bind [OF keeps_fs_read] keeps_plain [where r = "put x y z" for x y z])+

lemma safe_machine: "fs_safe env cmd_rawtest" "fs_safe env cmd_heap" "fs_safe env cmd_uptime"
  by (rule keeps_safe, auto simp: cmd_rawtest_def cmd_heap_def cmd_uptime_def flow
      intro!: keeps_if keeps_option keeps_basic keeps_bind [OF keeps_print_int] keeps_plain [where r = "heap_test h" for h]
        keeps_plain [where r = "vsnprintf a b c d" for a b c d])+

lemma safe_net: "fs_safe env cmd_net" "fs_safe env cmd_loopback" "fs_safe env cmd_netdebug" "fs_safe env cmd_broadcast"
  by (rule keeps_safe, auto simp: cmd_net_def cmd_loopback_def cmd_netdebug_def cmd_broadcast_def intro!: keeps_rules)+

lemma safe_address: "fs_safe env cmd_ping" "fs_safe env cmd_addarp" "fs_safe env cmd_setip" "fs_safe env cmd_arpset"
  by (rule keeps_safe, auto simp: cmd_ping_def cmd_addarp_def cmd_setip_def cmd_arpset_def flow
      intro!: keeps_if keeps_option keeps_basic keeps_plain [where r = "ip_str_to_addr a" for a] keeps_plain [where r = "parse_mac a b" for a b]
        keeps_bind [OF keeps_ping] keeps_arp_send keeps_set_ip)+

lemma safe_web: "fs_safe env cmd_browse" "fs_safe env cmd_httpget"
  by (rule keeps_safe, auto simp: cmd_browse_def cmd_httpget_def flow
      intro!: keeps_if keeps_basic keeps_bind [OF keeps_browse] keeps_bind [OF keeps_http_get])+

lemma safe_listings: "fs_safe env cmd_rxcheck" "fs_safe env cmd_arpcache"
  by (rule keeps_safe, auto simp: cmd_rxcheck_def cmd_arpcache_def intro!: keeps_basic keeps_bind [OF keeps_for_each] keeps_rx_round keeps_show_entry)+

lemma safe_small: "fs_safe env cmd_touch" "fs_safe env cmd_rm" "fs_safe env cmd_mkdir" "fs_safe env cmd_rmdir"
  by (rule fs_safeI, auto simp: cmd_touch_def cmd_rm_def cmd_mkdir_def cmd_rmdir_def fs_defs
      intro: inv_create inv_delete inv_mkdir split: if_splits)+

lemma safe_write: "fs_safe env cmd_write" "fs_safe env cmd_testfs"
  by (rule fs_safeI, auto simp: cmd_write_def cmd_testfs_def fs_defs flow bind_result_Inr_iff is_int32_def
      elim!: inv_write [rotated 2] split: if_splits)+

lemma safe_cd: "fs_safe env cmd_cd"
proof (rule fs_safeI)
  fix argv st st'
  assume inv: "fs_inv st" and r: "cmd_cd env argv st = Inr st'"
  show "fs_inv st'"
    using cd_ok [OF inv, of "if length argv < 2 then ''/'' else arg argv 1"] r
    by (auto simp: cmd_cd_def fs_cd_def)
qed

lemma safe_sync: "fs_safe env cmd_sync"
  by (rule keeps_safe)
    (auto simp: cmd_sync_def flow tree_def intro!: keeps_bind [OF keeps_fs_list] keeps_basic)

text \<open>The editor writes to the file system with Ctrl-S only.\<close>

lemma length_save_row: "length buf \<le> 16383 \<Longrightarrow> length (save_row s buf) \<le> 16383"
  by (induction s buf rule: save_row.induct) auto

lemma length_save_rows: "length buf \<le> 16383 \<Longrightarrow> length (save_rows ss buf) \<le> 16383"
proof (induction ss arbitrary: buf)
  case (Cons s ss)
  then show ?case using length_save_row [of buf s] by (auto simp: Let_def)
qed simp

lemma save_file_safe:
  assumes "fs_inv st" and r: "save_file bus st = Inr (k, st')"
  shows "fs_inv st'"
proof -
  from r obtain rows j s where w: "diskfs_write bus (cstr (filename st)) (save_rows rows []) (int (length (save_rows rows []))) st = Inr (j, s)"
    and s: "tree st' = tree s"
    by (auto simp: save_file_def bind_result_Inr_iff fs_write_def Let_def split: if_splits)
  have "is_int32 (int (length (save_rows rows [])))" using length_save_rows [of "[]" rows] by (simp add: is_int32_def)
  from tree_inv [OF s inv_write [OF assms(1) this w]] show ?thesis .
qed

lemma keeps_editor_key: "c \<noteq> CHR 0x13 \<Longrightarrow> keeps (\<lambda>x. x) st (editor_key bus c st)"
  by (auto simp: editor_key_def intro!: keeps_if keeps_edit_keys keeps_delete_char keeps_basic)

lemma editor_key_safe:
  assumes "fs_inv st" and r: "editor_key bus c st = Inr st'"
  shows "fs_inv st'"
proof (cases "c = CHR 0x13")
  case True
  then show ?thesis using r save_file_safe [OF assms(1)] by (auto simp: editor_key_def bind_result_Inr_iff)
next
  case False
  from tree_inv [OF keepsD [OF keeps_editor_key [OF this] r] assms(1)] show ?thesis .
qed

lemma draw_editor_safe: "fs_inv st \<Longrightarrow> draw_editor bus st = Inr st' \<Longrightarrow> fs_inv st'"
  by (rule tree_inv [OF keepsD [OF keeps_draw_editor [OF refl]]])

lemma editor_loop_safe: "fs_inv st \<Longrightarrow> editor_loop bus keys st = Inr (ks, st') \<Longrightarrow> fs_inv st'"
proof (induction keys arbitrary: st)
  case (Cons c keys)
  show ?case
  proof (cases "c = CHR 0x11")
    case True
    then show ?thesis using Cons.prems by (auto simp: bind_result_Inr_iff dest: draw_editor_safe)
  next
    case False
    then obtain s1 s2 where "editor_key bus c st = Inr s1" "draw_editor bus s1 = Inr s2" "editor_loop bus keys s2 = Inr (ks, st')"
      using Cons.prems(2) by (auto simp: bind_result_Inr_iff)
    then show ?thesis using Cons.IH [OF draw_editor_safe [OF editor_key_safe [OF Cons.prems(1)]]] by blast
  qed
qed simp

lemma editor_open_safe:
  assumes inv: "fs_inv st" and r: "editor_open bus junk keys name st = Inr (ks, st')"
  shows "fs_inv st'"
proof -
  from r obtain fname s1 s2 s3 where l: "load_file junk (cstr fname) (st\<lparr>filename := fname\<rparr>) = Inr s1"
    and d: "draw_editor bus (draw_message ''Editing. Ctrl+S saves, Ctrl+Q quits.'' (console_clear s1)) = Inr s2"
    and e: "editor_loop bus keys s2 = Inr (ks, s3)" and t: "tree st' = tree s3"
    unfolding editor_open_def by (fastforce simp: bind_result_Inr_iff Let_def split: if_splits)
  have "tree s1 = tree st" by (rule keepsD [OF keeps_load_file l]) simp
  then have "tree s2 = tree st" by (intro keepsD [OF keeps_draw_editor d]) simp
  then have "fs_inv s2" using inv by (rule tree_inv)
  from tree_inv [OF t editor_loop_safe [OF this e]] show ?thesis .
qed

lemma safe_edit: "fs_safe env cmd_edit"
proof (rule fs_safeI)
  fix argv st st'
  assume inv: "fs_inv st" and r: "cmd_edit env argv st = Inr st'"
  show "fs_inv st'"
  proof (cases "length argv < 2")
    case True
    then have "tree st' = tree st" using r by (auto simp: cmd_edit_def)
    then show ?thesis using inv by (rule tree_inv)
  next
    case False
    then obtain ks s where e: "editor_open (e_bus env) (chars_of (e_stack env 16384)) (keys_ahead st) (arg argv 1) st = Inr (ks, s)"
      and s: "tree st' = tree s"
      using r by (auto simp: cmd_edit_def bind_result_Inr_iff)
    show ?thesis by (rule tree_inv [OF s editor_open_safe [OF inv e]])
  qed
qed

lemmas safe_all = safe_text safe_files_read safe_machine safe_net safe_address safe_web safe_listings safe_small safe_write
  safe_cd safe_sync safe_edit safe_lwip(2)

text \<open>The commands that start a program of their own or the lwIP library.\<close>

definition programs :: "string list" where
  "programs = [''gui'', ''fbgui'', ''doom'', ''snake'', ''lwip'']"

lemma commands_safe: "list_all (\<lambda>(name, f, help). name \<in> set programs \<or> fs_safe env f) commands"
  unfolding commands_def help_table_def programs_def by (simp add: safe_all)

lemma execute_command_safe:
  assumes inv: "fs_inv st" and line: "nul_free line" "length line \<le> 255" and stack: "length (e_stack env 256) = 256"
    and own: "\<And>f h. words line \<noteq> [] \<Longrightarrow> (hd (words line), f, h) \<in> set commands \<Longrightarrow> fs_safe env f" and r: "execute_command env line st = Inr st'"
  shows "fs_inv st'"
proof -
  consider "words line = []" | "16 < length (words line)" | "words line \<noteq> []" "length (words line) \<le> 16" by linarith
  then show ?thesis
  proof cases
    case 3
    then obtain argv where a: "map cstr argv = words line" "run_words env argv st = Inr st'"
      using execute_words(3) [OF line stack 3, of st] r by auto
    have name: "arg argv 0 = hd (words line)" using 3 arg_map(1) [OF a(1), of 0] by (cases "words line") auto
    show ?thesis
    proof (cases "command_of (arg argv 0) :: ('a, 'b) cmd option")
      case None
      then have "tree st' = tree st" using a(2) by (auto simp: run_words_def)
      then show ?thesis using inv by (rule tree_inv)
    next
      case (Some f)
      then obtain h where "(arg argv 0, f, h) \<in> set commands" by (auto simp: command_of_def dest!: map_of_SomeD)
      then have "fs_safe env f" using own 3(1) by (simp add: name)
      then show ?thesis using Some a(2) inv by (auto simp: fs_safe_def run_words_def)
    qed
  qed (use execute_words(1,2) [OF line stack, of st] r inv in simp_all)
qed

text \<open>
  C29. No sequence of command lines breaks the file system: whatever lines are executed one after the
  other, with whatever arguments, keys typed into the editor and packets and sectors delivered by the
  devices, the table and the current directory stay well formed in every run of the lines that ends
  without a fault. Left out are only the lines that start a program of their own (the two desktops and
  the games) and the one that starts the lwIP library.
\<close>

theorem commands_keep_files:
  assumes "fs_inv st" and "length (e_stack env 256) = 256"
    and "\<forall>l\<in>set ls. nul_free l \<and> length l \<le> 255 \<and> (words l = [] \<or> hd (words l) \<notin> set programs)"
    and "for_each (execute_command env) ls st = Inr st'"
  shows "fs_inv st'"
  using assms(1,3,4)
proof (induction ls arbitrary: st)
  case (Cons l ls)
  then obtain s where s: "execute_command env l st = Inr s" "for_each (execute_command env) ls s = Inr st'"
    by (auto simp: bind_result_Inr_iff)
  have "fs_safe env f" if "words l \<noteq> []" "(hd (words l), f, h) \<in> set commands" for f h
    using commands_safe [of env] that Cons.prems(2) by (auto simp: list_all_iff)
  then have "fs_inv s" using execute_command_safe [OF Cons.prems(1) _ _ assms(2) _ s(1)] Cons.prems(2) by simp
  then show ?case using Cons.IH [of s] Cons.prems(2) s(2) by simp
qed simp

lemma boot_runs:
  assumes "nul_free line" and "length line \<le> 255" and "words line = w # ws" and "length ws \<le> 15" and "command_of w = Some f"
    and "\<And>argv st. \<exists>st'. f boot_env argv st = Inr st'"
  shows "\<exists>st'. execute_command boot_env line st = Inr st'"
proof -
  have "words line \<noteq> []" "length (words line) \<le> 16" using assms(3,4) by simp_all
  from execute_words(3) [OF assms(1,2) boot_stack this, of st]
  obtain argv where "map cstr argv = words line" "execute_command boot_env line st = run_words boot_env argv st" by blast
  moreover from this have "arg argv 0 = w" using arg_map(1) [of argv "words line" 0] assms(3) by simp
  ultimately show ?thesis using assms(5,6) by (simp add: run_words_def)
qed

theorem commands_keep_files_witness:
  "\<exists>st'. for_each (execute_command boot_env) [''mkdir d'', ''touch  b c''] boot_system = Inr st' \<and> fs_inv st'"
proof -
  have w: "words ''mkdir d'' = [''mkdir'', ''d'']" "words ''touch  b c'' = [''touch'', ''b'', ''c'']" by (simp_all add: words_def)
  have c: "command_of ''mkdir'' = (Some cmd_mkdir :: (unit, unit) cmd option)" "command_of ''touch'' = (Some cmd_touch :: (unit, unit) cmd option)"
    by (simp_all add: command_of_def commands_def help_table_def)
  have n: "nul_free ''mkdir d''" "nul_free ''touch  b c''" by (simp_all add: nul_free_def NUL_def)
  have "\<exists>st'. execute_command boot_env ''mkdir d'' boot_system = Inr st'"
    by (rule boot_runs [OF n(1) _ w(1) _ c(1)]) (simp_all add: cmd_mkdir_def)
  moreover have "\<exists>st'. execute_command boot_env ''touch  b c'' st = Inr st'" for st
    by (rule boot_runs [OF n(2) _ w(2) _ c(2)]) (simp_all add: cmd_touch_def)
  ultimately obtain s st' where s: "execute_command boot_env ''mkdir d'' boot_system = Inr s" "execute_command boot_env ''touch  b c'' s = Inr st'"
    by blast
  then have r: "for_each (execute_command boot_env) [''mkdir d'', ''touch  b c''] boot_system = Inr st'" by simp
  have "fs_inv st'" by (rule commands_keep_files [OF boot_fs(1) boot_stack _ r]) (simp add: w programs_def NUL_def)
  with r show ?thesis by blast
qed

end
