(* ===== verification/Shell.thy ===== *)
theory Shell
  imports Command_Effects
begin

text \<open>
  The line-based shell of \<^verbatim>\<open>src/shell.c\<close>: reading a line with backspace and history keys, the history
  array, and handing the line to \<^verbatim>\<open>execute_command\<close>. Shown here: the line that reaches the interpreter
  is the line that was edited, no key sequence leaves the arrays, and recalling a line from the
  history leaves the end of whatever the line buffer held before behind it.
\<close>

section \<open>The code\<close>

record 'd shell =
  sys :: "'d system"
  history :: "char list list"
  history_count :: int
  history_pos :: int
  cmdline :: "char list"
  cmdlen :: int

definition say :: "string \<Rightarrow> 'd shell \<Rightarrow> 'd shell" where
  "say t st = st\<lparr>sys := emit t (sys st)\<rparr>"

text \<open>The top of the outer loop.\<close>

definition shell_prompt :: "'d shell \<Rightarrow> 'd shell result" where
  "shell_prompt st = bind_result (put (cmdline st) 0 NUL) (\<lambda>buf.
     Inr (say ''> '' (st\<lparr>cmdline := buf, cmdlen := 0, history_pos := - 1\<rparr>)))"

text \<open>The inner loop of the history shift: copying stops at the end of the string, without its NUL.\<close>

definition shift_row :: "char list \<Rightarrow> char list \<Rightarrow> char list" where
  "shift_row src dst = blit dst 0 (takeWhile (\<lambda>c. c \<noteq> NUL) (take 256 src))"

definition shift_history :: "char list list \<Rightarrow> char list list result" where
  "shift_history h =
     for_each (\<lambda>i h. bind_result (at h (i - 1)) (\<lambda>src. bind_result (at h i) (\<lambda>dst. put h i (shift_row src dst)))) (rev [1..9]) h"

definition remember :: "'d shell \<Rightarrow> 'd shell result" where
  "remember st =
     bind_result (shift_history (history st)) (\<lambda>h.
     bind_result (at h 0) (\<lambda>row.
       if int (length (cmdline st)) \<le> cmdlen st \<or> int (length row) \<le> cmdlen st then Inl OutOfBounds
       else bind_result (put h 0 (blit row 0 (take (nat (cmdlen st) + 1) (cmdline st)))) (\<lambda>h.
         Inr (st\<lparr>history := h, history_count := (if history_count st < 10 then history_count st + 1 else history_count st)\<rparr>))))"

definition wipe_line :: "'d shell \<Rightarrow> 'd shell" where
  "wipe_line st = (let n = nat (cmdlen st) in say (replicate n BS @ replicate n (CHR '' '') @ replicate n BS) st)"

text \<open>Showing the entry \<^verbatim>\<open>history_pos\<close> and copying it, again without its NUL, over the line.\<close>

definition recall :: "'d shell \<Rightarrow> 'd shell result" where
  "recall st =
     bind_result (at (history st) (history_pos st)) (\<lambda>row.
     bind_result (row_text row) (\<lambda>s.
       if length (cmdline st) < length s then Inl OutOfBounds
       else let buf = blit (cmdline st) 0 s in
         bind_result (strlen buf) (\<lambda>n. bind_result (put buf (int n) NUL) (\<lambda>buf.
           Inr (say s (st\<lparr>cmdline := buf, cmdlen := int n\<rparr>))))))"

definition shell_key :: "('d, unit) env \<Rightarrow> char \<Rightarrow> 'd shell \<Rightarrow> 'd shell result" where
  "shell_key env c st =
     (if c = NL then
        let st = say [NL] st in
        if cmdlen st > 0
        then bind_result (remember st) (\<lambda>st.
          bind_result (execute_command env (cstr (cmdline st)) (sys st)) (\<lambda>s.
            if halted s then Inr (st\<lparr>sys := s\<rparr>) else shell_prompt (st\<lparr>sys := s\<rparr>)))
        else shell_prompt st
      else if c = BS then
        if cmdlen st > 0
        then let st = say [BS, CHR '' '', BS] (st\<lparr>cmdlen := cmdlen st - 1\<rparr>) in
          bind_result (put (cmdline st) (cmdlen st) NUL) (\<lambda>buf. Inr (st\<lparr>cmdline := buf\<rparr>))
        else Inr st
      else if c = KEY_UP then
        if history_pos st < history_count st - 1
        then recall (wipe_line (st\<lparr>history_pos := history_pos st + 1\<rparr>))
        else Inr st
      else if c = KEY_DOWN then
        if history_pos st \<ge> 0
        then let st = wipe_line (st\<lparr>history_pos := history_pos st - 1\<rparr>) in
          if history_pos st \<ge> 0 then recall st
          else bind_result (put (cmdline st) 0 NUL) (\<lambda>buf. Inr (st\<lparr>cmdline := buf, cmdlen := 0\<rparr>))
        else Inr st
      else if c = KEY_LEFT then Inr (if cmdlen st > 0 then say [BS] st else st)
      else if c = KEY_RIGHT then Inr st
      else if 32 \<le> schar c \<and> schar c \<le> 126 then
        if cmdlen st < 255
        then bind_result (put (cmdline st) (cmdlen st) c) (\<lambda>buf.
          bind_result (put buf (cmdlen st + 1) NUL) (\<lambda>buf.
            Inr (say [c] (st\<lparr>cmdline := buf, cmdlen := cmdlen st + 1\<rparr>))))
        else Inr st
      else Inr st)"

text \<open>
  \<^verbatim>\<open>shell_start\<close> never returns; \<open>shell_run\<close> reads up to \<open>n\<close> keys. It ends with \<open>NoEvent\<close> when the
  keyboard has no more keys, and stops where \<^verbatim>\<open>reboot\<close> stops the processor.
\<close>

definition shell_step :: "('d, unit) env \<Rightarrow> 'd shell \<Rightarrow> 'd shell result" where
  "shell_step env st = (case keys_ahead (sys st) of
     [] \<Rightarrow> Inl NoEvent
   | c # ks \<Rightarrow> shell_key env c (st\<lparr>sys := (sys st)\<lparr>keys_ahead := ks\<rparr>\<rparr>))"

fun shell_run :: "('d, unit) env \<Rightarrow> nat \<Rightarrow> 'd shell \<Rightarrow> 'd shell result" where
  "shell_run env 0 st = Inr st"
| "shell_run env (Suc n) st = (if halted (sys st) then Inr st else bind_result (shell_step env st) (shell_run env n))"

definition shell_start :: "('d, unit) env \<Rightarrow> nat \<Rightarrow> 'd shell \<Rightarrow> 'd shell result" where
  "shell_start env n st = bind_result (shell_prompt (st\<lparr>sys := enable_cursor (e_bus env) (sys st)\<rparr>)) (shell_run env n)"

section \<open>Terminated buffers\<close>

definition buf_ok :: "char list \<Rightarrow> bool" where
  "buf_ok b \<longleftrightarrow> length b = 256 \<and> b ! 255 = NUL"

lemma buf_split:
  assumes "buf_ok b"
  obtains rest where "b = cstr b @ NUL # rest" "length (cstr b) + length rest = 255" "nul_free (cstr b)"
proof -
  have "NUL \<in> set b" using assms nth_mem [of 255 b] by (auto simp: buf_ok_def)
  then have d: "dropWhile (\<lambda>c. c \<noteq> NUL) b \<noteq> []" by simp
  then obtain rest where "dropWhile (\<lambda>c. c \<noteq> NUL) b = NUL # rest"
    using hd_dropWhile [OF d] by (cases "dropWhile (\<lambda>c. c \<noteq> NUL) b") auto
  then have b: "b = cstr b @ NUL # rest" unfolding cstr_def by (metis takeWhile_dropWhile_id)
  moreover have "length (cstr b) + length rest = 255"
    using assms arg_cong [OF b, of length] by (simp add: buf_ok_def)
  ultimately show thesis using that by simp
qed

lemma buf_facts:
  assumes "buf_ok b"
  shows "strlen b = Inr (length (cstr b))" "row_text b = Inr (cstr b)" "length (cstr b) \<le> 255"
    "take (length (cstr b)) b = cstr b" "b ! length (cstr b) = NUL"
proof -
  obtain rest where b: "b = cstr b @ NUL # rest" "length (cstr b) + length rest = 255" "nul_free (cstr b)"
    using assms by (rule buf_split)
  show s: "strlen b = Inr (length (cstr b))" using b(3) by (subst b(1)) simp
  show t: "take (length (cstr b)) b = cstr b" by (subst (2) b(1)) simp
  show "row_text b = Inr (cstr b)" by (simp add: row_text_def s t)
  show "length (cstr b) \<le> 255" using b(2) by simp
  show "b ! length (cstr b) = NUL" by (subst b(1)) simp
qed

lemma buf_put:
  assumes "buf_ok b" and "i \<le> length (cstr b)"
  shows "put b (int i) NUL = Inr (b[i := NUL])" "buf_ok (b[i := NUL])" "cstr (b[i := NUL]) = take i (cstr b)"
proof -
  obtain rest where b: "b = cstr b @ NUL # rest" "length (cstr b) + length rest = 255" "nul_free (cstr b)"
    using assms(1) by (rule buf_split)
  have i: "i < length b" using assms by (auto simp: buf_ok_def dest!: buf_facts(3) [OF assms(1), THEN order_trans [rotated]])
  then show "put b (int i) NUL = Inr (b[i := NUL])" by simp
  show "buf_ok (b[i := NUL])" using assms(1) by (cases "i = 255") (auto simp: buf_ok_def nth_list_update)
  have "b[i := NUL] = take i b @ NUL # drop (Suc i) b" using i by (simp add: upd_conv_take_nth_drop)
  moreover have "take i b = take i (cstr b)" by (subst b(1)) (simp add: assms(2))
  moreover have "nul_free (take i (cstr b))" using b(3) by (rule nul_free_parts(1))
  ultimately show "cstr (b[i := NUL]) = take i (cstr b)" by (simp add: cstr_append_NUL)
qed

lemma buf_blit:
  assumes "buf_ok b" and "nul_free s" and "length s \<le> 255"
  shows "buf_ok (blit b 0 s)" "cstr (blit b 0 s) = s @ cstr (drop (length s) b)"
proof -
  have l: "length b = 256" using assms(1) by (simp add: buf_ok_def)
  show "buf_ok (blit b 0 s)" using assms by (auto simp: buf_ok_def nth_blit)
  show "cstr (blit b 0 s) = s @ cstr (drop (length s) b)"
    using assms(2,3) l by (simp add: blit_0 cstr_def nul_free_def) (subst takeWhile_append2; auto)
qed

section \<open>No key leaves the arrays\<close>

definition shell_ok :: "'d shell \<Rightarrow> bool" where
  "shell_ok st \<longleftrightarrow> length (history st) = 10 \<and> list_all buf_ok (history st) \<and> buf_ok (cmdline st) \<and>
     cmdlen st = int (length (cstr (cmdline st))) \<and> - 1 \<le> history_pos st \<and> history_pos st < history_count st \<and> history_count st \<le> 10"

lemma shell_okD:
  assumes "shell_ok st"
  shows "length (history st) = 10" "list_all buf_ok (history st)" "buf_ok (cmdline st)" "cmdlen st = int (length (cstr (cmdline st)))"
    "length (cmdline st) = 256"
  using assms by (simp_all add: shell_ok_def buf_ok_def)

lemma shell_ok_say [simp]: "shell_ok (say t st) = shell_ok st" "shell_ok (st\<lparr>sys := s\<rparr>) = shell_ok st" "shell_ok (wipe_line st) = shell_ok st"
  by (simp_all add: shell_ok_def say_def wipe_line_def Let_def)

lemma say_fields [simp]:
  "history (say t st) = history st" "history_count (say t st) = history_count st" "history_pos (say t st) = history_pos st"
  "cmdline (say t st) = cmdline st" "cmdlen (say t st) = cmdlen st" "sys (say t st) = emit t (sys st)"
  by (simp_all add: say_def)

lemma wipe_fields [simp]:
  "history (wipe_line st) = history st" "history_count (wipe_line st) = history_count st" "history_pos (wipe_line st) = history_pos st"
  "cmdline (wipe_line st) = cmdline st" "cmdlen (wipe_line st) = cmdlen st"
  by (simp_all add: wipe_line_def Let_def)

lemma for_each_inv:
  "P s \<Longrightarrow> (\<And>i s. i \<in> set is \<Longrightarrow> P s \<Longrightarrow> \<exists>s'. f i s = Inr s' \<and> P s') \<Longrightarrow> \<exists>s'. for_each f is s = Inr s' \<and> P s'"
proof (induction "is" arbitrary: s)
  case (Cons i "is")
  from Cons.prems(2) [of i s] Cons.prems(1) obtain s1 where s1: "f i s = Inr s1" "P s1" by auto
  from Cons.IH [OF s1(2)] Cons.prems(2) s1(1) show ?case by auto
qed simp

lemma shift_row_ok: "buf_ok src \<Longrightarrow> buf_ok dst \<Longrightarrow> buf_ok (shift_row src dst)"
  using buf_blit(1) [of dst "cstr src"] buf_facts(3) [of src] by (simp add: shift_row_def buf_ok_def cstr_def [symmetric])

lemma shift_history_ok:
  assumes "length h = 10" and "list_all buf_ok h"
  shows "\<exists>h'. shift_history h = Inr h' \<and> length h' = 10 \<and> list_all buf_ok h'"
  unfolding shift_history_def
proof (rule for_each_inv)
  fix i :: int and s :: "char list list"
  assume i: "i \<in> set (rev [1..9])" and s: "length s = 10 \<and> list_all buf_ok s"
  define a b where "a = nat (i - 1)" and "b = nat i"
  have ab: "i - 1 = int a" "i = int b" "a < 10" "b < 10" using i by (auto simp: a_def b_def)
  have "buf_ok (shift_row (s ! a) (s ! b))" using s ab by (intro shift_row_ok) (simp_all add: list_all_length)
  then show "\<exists>s'. bind_result (at s (i - 1)) (\<lambda>src. bind_result (at s i) (\<lambda>dst. put s i (shift_row src dst))) = Inr s' \<and>
      length s' = 10 \<and> list_all buf_ok s'"
    using s ab unfolding ab(1) unfolding ab(2) by (simp add: list_all_length nth_list_update)
qed (use assms in simp)

lemma remember_ok:
  assumes ok: "shell_ok st"
  shows "\<exists>st'. remember st = Inr st' \<and> shell_ok st' \<and> sys st' = sys st \<and> cmdline st' = cmdline st \<and> cmdlen st' = cmdlen st \<and>
    cstr (history st' ! 0) = cstr (cmdline st)"
proof -
  note d = shell_okD [OF ok]
  obtain h where h: "shift_history (history st) = Inr h" "length h = 10" "list_all buf_ok h"
    using shift_history_ok [OF d(1,2)] by blast
  obtain rest where c: "cmdline st = cstr (cmdline st) @ NUL # rest" "length (cstr (cmdline st)) + length rest = 255" "nul_free (cstr (cmdline st))"
    using d(3) by (rule buf_split)
  have t: "take (nat (cmdlen st) + 1) (cmdline st) = cstr (cmdline st) @ [NUL]"
  proof -
    have "take (length (cstr (cmdline st)) + 1) (cstr (cmdline st) @ NUL # rest) = cstr (cmdline st) @ [NUL]" by simp
    then show ?thesis unfolding c(1) [symmetric] by (simp add: d(4))
  qed
  have r0: "buf_ok (h ! 0)" using h by (simp add: list_all_length)
  let ?row = "blit (h ! 0) 0 (cstr (cmdline st) @ [NUL])"
  have l: "length (cstr (cmdline st)) \<le> 255" by (rule buf_facts(3) [OF d(3)])
  have row: "?row = cstr (cmdline st) @ NUL # drop (length (cstr (cmdline st)) + 1) (h ! 0)"
    using r0 l by (simp add: blit_0 buf_ok_def)
  have ok_row: "buf_ok ?row" "cstr ?row = cstr (cmdline st)"
  proof -
    show "buf_ok ?row" using r0 l by (auto simp: buf_ok_def nth_blit nth_append)
    show "cstr ?row = cstr (cmdline st)" unfolding row by (rule cstr_append_NUL [OF c(3)])
  qed
  have p0: "at h 0 = Inr (h ! 0)" "put h 0 ?row = Inr (h[0 := ?row])" using h(2) by (simp_all add: at_def put_def)
  have g: "\<not> (int (length (cmdline st)) \<le> cmdlen st \<or> int (length (h ! 0)) \<le> cmdlen st)"
    using l d(4,5) r0 by (simp add: buf_ok_def)
  let ?st = "st\<lparr>history := h[0 := ?row], history_count := (if history_count st < 10 then history_count st + 1 else history_count st)\<rparr>"
  have "remember st = Inr ?st" by (simp only: remember_def h(1) bind_result_simps p0 t g if_False)
  moreover have "shell_ok ?st" using ok h ok_row(1) by (auto simp: shell_ok_def list_all_length nth_list_update)
  ultimately show ?thesis using h(2) ok_row(2) by simp
qed

lemma recall_ok:
  assumes ok: "shell_ok st" and pos: "0 \<le> history_pos st"
  defines "e \<equiv> cstr (history st ! nat (history_pos st))"
  shows "\<exists>buf. recall st = Inr (say e (st\<lparr>cmdline := buf, cmdlen := int (length (cstr buf))\<rparr>)) \<and> buf_ok buf \<and>
    cstr buf = e @ cstr (drop (length e) (cmdline st))"
proof -
  note d = shell_okD [OF ok]
  have i: "nat (history_pos st) < 10" "int (nat (history_pos st)) = history_pos st" using ok pos by (auto simp: shell_ok_def)
  have row: "buf_ok (history st ! nat (history_pos st))" using i d(1,2) by (simp add: list_all_length)
  have a: "at (history st) (history_pos st) = Inr (history st ! nat (history_pos st))" using i(1) pos d(1) by (simp add: at_def)
  have e: "nul_free e" "length e \<le> 255" "row_text (history st ! nat (history_pos st)) = Inr e"
    using buf_facts(2,3) [OF row] by (simp_all add: e_def)
  let ?buf = "blit (cmdline st) 0 e"
  have b: "buf_ok ?buf" "cstr ?buf = e @ cstr (drop (length e) (cmdline st))" using buf_blit [OF d(3) e(1,2)] by auto
  have "?buf[length (cstr ?buf) := NUL] = ?buf" using buf_facts(5) [OF b(1)] by (metis list_update_id)
  then have p: "put ?buf (int (length (cstr ?buf))) NUL = Inr ?buf" using buf_put(1) [OF b(1) order_refl] by simp
  have "recall st = Inr (say e (st\<lparr>cmdline := ?buf, cmdlen := int (length (cstr ?buf))\<rparr>))"
    using e(2) d(5) by (simp add: recall_def a e(3) buf_facts(1) [OF b(1)] p Let_def)
  with b show ?thesis by blast
qed

text \<open>Typing a character at the end of the line.\<close>

lemma buf_type:
  assumes "buf_ok b" and "length (cstr b) < 255" and "c \<noteq> NUL"
  defines "n \<equiv> length (cstr b)"
  shows "put b (int n) c = Inr (b[n := c])" "put (b[n := c]) (int n + 1) NUL = Inr (b[n := c, Suc n := NUL])"
    "buf_ok (b[n := c, Suc n := NUL])" "cstr (b[n := c, Suc n := NUL]) = cstr b @ [c]"
proof -
  obtain rest where b: "b = cstr b @ NUL # rest" "length (cstr b) + length rest = 255" "nul_free (cstr b)"
    using assms(1) by (rule buf_split)
  have l: "length b = 256" "n < 255" using assms(1,2) by (simp_all add: buf_ok_def n_def)
  show "put b (int n) c = Inr (b[n := c])" using l by simp
  show "put (b[n := c]) (int n + 1) NUL = Inr (b[n := c, Suc n := NUL])" using put_nth [of "Suc n" "b[n := c]" NUL] l by (simp add: ac_simps)
  show "buf_ok (b[n := c, Suc n := NUL])" using assms(1) l by (auto simp: buf_ok_def nth_list_update)
  obtain x rest' where r: "rest = x # rest'" using b(2) assms(2) by (cases rest) auto
  have "(cstr b @ NUL # x # rest')[n := c, Suc n := NUL] = (cstr b @ [c]) @ NUL # rest'"
    by (simp add: n_def list_update_append)
  then have "b[n := c, Suc n := NUL] = (cstr b @ [c]) @ NUL # rest'" using b(1) unfolding r by simp
  then show "cstr (b[n := c, Suc n := NUL]) = cstr b @ [c]"
    using b(3) assms(3) cstr_append_NUL [of "cstr b @ [c]" rest'] by simp
qed

section \<open>Editing a line\<close>

definition printable :: "char \<Rightarrow> bool" where
  "printable c \<longleftrightarrow> 32 \<le> schar c \<and> schar c \<le> 126"

definition a_edit :: "char \<Rightarrow> string \<Rightarrow> string" where
  "a_edit c line = (if c = BS then butlast line else if printable c \<and> length line < 255 then line @ [c] else line)"

lemma printable_not:
  assumes "printable c" shows "c \<noteq> NUL" "c \<noteq> NL" "c \<noteq> BS" "c \<noteq> KEY_UP" "c \<noteq> KEY_DOWN" "c \<noteq> KEY_LEFT" "c \<noteq> KEY_RIGHT"
  using assms by (auto simp: printable_def schar_def NUL_def NL_def BS_def key_codes)

lemma key_distinct: "BS \<noteq> NL" "BS \<noteq> KEY_UP" "BS \<noteq> KEY_DOWN" "BS \<noteq> KEY_LEFT" "BS \<noteq> KEY_RIGHT" "KEY_UP \<noteq> NL" "KEY_DOWN \<noteq> NL" "KEY_UP \<noteq> KEY_DOWN"
  "KEY_UP \<noteq> BS" "KEY_DOWN \<noteq> BS" "KEY_DOWN \<noteq> KEY_UP"
  by (auto simp: NL_def BS_def key_codes)

lemma edit_key:
  assumes ok: "shell_ok st" and c: "c \<noteq> NL" "c \<noteq> KEY_UP" "c \<noteq> KEY_DOWN"
  shows "\<exists>st' t. shell_key env c st = Inr st' \<and> shell_ok st' \<and> cstr (cmdline st') = a_edit c (cstr (cmdline st)) \<and> sys st' = emit t (sys st) \<and>
    history st' = history st"
proof -
  note d = shell_okD [OF ok]
  let ?l = "cstr (cmdline st)"
  consider "c = BS" "?l \<noteq> []" | "printable c" "length ?l < 255" | "c = BS \<and> ?l = [] \<or> c \<noteq> BS \<and> (printable c \<longrightarrow> \<not> length ?l < 255)"
    by blast
  then show ?thesis
  proof cases
    case 1
    then have i: "length ?l - 1 \<le> length ?l" "cmdlen st - 1 = int (length ?l - 1)" "cmdlen st > 0" using d(4) by (auto simp: Suc_leI)
    note p = buf_put [OF d(3) i(1)]
    have "shell_key env c st = Inr (say [BS, CHR '' '', BS] (st\<lparr>cmdline := (cmdline st)[length ?l - 1 := NUL], cmdlen := int (length ?l - 1)\<rparr>))"
      using i(3) p(1) by (simp add: shell_key_def 1(1) key_distinct i(2) Let_def say_def)
    moreover have "shell_ok (st\<lparr>cmdline := (cmdline st)[length ?l - 1 := NUL], cmdlen := int (length ?l - 1)\<rparr>)"
      using ok p(2,3) by (simp add: shell_ok_def)
    ultimately show ?thesis using p(3) 1(1) by (auto simp: a_edit_def butlast_conv_take)
  next
    case 2
    note n = printable_not [OF 2(1)]
    note p = buf_type [OF d(3) 2(2) n(1)]
    let ?st = "st\<lparr>cmdline := (cmdline st)[length ?l := c, Suc (length ?l) := NUL], cmdlen := int (length ?l) + 1\<rparr>"
    have "shell_key env c st = Inr (say [c] ?st)"
      using 2 p(1,2) n by (simp add: shell_key_def printable_def [symmetric] d(4))
    moreover have "shell_ok ?st" using ok p(3,4) by (simp add: shell_ok_def)
    ultimately show ?thesis using p(4) 2 n by (auto simp: a_edit_def)
  next
    case 3
    then have e: "a_edit c ?l = ?l" by (auto simp: a_edit_def)
    have "shell_key env c st = Inr st \<or> shell_key env c st = Inr (say [BS] st)"
      using 3 c d(4) by (auto simp: shell_key_def printable_def)
    then show ?thesis
    proof
      assume "shell_key env c st = Inr st"
      moreover have "sys st = emit [] (sys st)" by simp
      ultimately show ?thesis using ok e by metis
    next
      assume "shell_key env c st = Inr (say [BS] st)"
      then show ?thesis using ok e by auto
    qed
  qed
qed

text \<open>All keys of a line up to the one that ends it.\<close>

lemma shell_run_edits:
  assumes "shell_ok st" and "\<not> halted (sys st)" and "keys_ahead (sys st) = ks @ rest" and "\<forall>c\<in>set ks. c \<noteq> NL \<and> c \<noteq> KEY_UP \<and> c \<noteq> KEY_DOWN"
  shows "\<exists>st' t. shell_run env (length ks + n) st = shell_run env n st' \<and> shell_ok st' \<and>
    cstr (cmdline st') = fold a_edit ks (cstr (cmdline st)) \<and> sys st' = emit t ((sys st)\<lparr>keys_ahead := rest\<rparr>)"
  using assms
proof (induction ks arbitrary: st)
  case Nil
  have "sys st = emit [] ((sys st)\<lparr>keys_ahead := rest\<rparr>)" using Nil.prems(3) by (cases "sys st") simp
  then show ?case using Nil.prems(1) by (metis add_0 fold_simps(1) list.size(3))
next
  case (Cons c ks)
  let ?st = "st\<lparr>sys := (sys st)\<lparr>keys_ahead := ks @ rest\<rparr>\<rparr>"
  have "shell_ok ?st" using Cons.prems(1) by simp
  then obtain s1 t1 where s1: "shell_key env c ?st = Inr s1" "shell_ok s1" "cstr (cmdline s1) = a_edit c (cstr (cmdline st))"
      "sys s1 = emit t1 ((sys st)\<lparr>keys_ahead := ks @ rest\<rparr>)"
    using edit_key [of ?st c env] Cons.prems(4) by auto
  have p: "\<not> halted (sys s1)" "keys_ahead (sys s1) = ks @ rest" "\<forall>c\<in>set ks. c \<noteq> NL \<and> c \<noteq> KEY_UP \<and> c \<noteq> KEY_DOWN"
    using Cons.prems(2,4) s1(4) by (simp_all add: emit_def)
  from Cons.IH [OF s1(2) p] obtain s2 t2 where s2: "shell_run env (length ks + n) s1 = shell_run env n s2" "shell_ok s2"
      "cstr (cmdline s2) = fold a_edit ks (cstr (cmdline s1))" "sys s2 = emit t2 ((sys s1)\<lparr>keys_ahead := rest\<rparr>)" by blast
  have "sys s2 = emit (t1 @ t2) ((sys st)\<lparr>keys_ahead := rest\<rparr>)" using s2(4) s1(4) by (simp add: emit_def)
  moreover have "shell_run env (length (c # ks) + n) st = shell_run env n s2"
    using Cons.prems(2,3) s1(1) s2(1) by (simp add: shell_step_def)
  ultimately show ?case using s2(2,3) s1(3) by auto
qed

lemma prompt_ok:
  assumes "shell_ok st"
  shows "\<exists>st'. shell_prompt st = Inr st' \<and> shell_ok st' \<and> sys st' = emit ''> '' (sys st) \<and> cstr (cmdline st') = []"
proof -
  note d = shell_okD [OF assms]
  note p = buf_put [OF d(3), of 0]
  have "shell_prompt st = Inr (say ''> '' (st\<lparr>cmdline := (cmdline st)[0 := NUL], cmdlen := 0, history_pos := - 1\<rparr>))"
    using p(1) by (simp add: shell_prompt_def)
  moreover have "shell_ok (st\<lparr>cmdline := (cmdline st)[0 := NUL], cmdlen := 0, history_pos := - 1\<rparr>)"
    using assms p(2,3) by (simp add: shell_ok_def)
  ultimately show ?thesis using p(3) by simp
qed

lemma enter_key:
  assumes ok: "shell_ok st"
  defines "line \<equiv> cstr (cmdline st)"
  shows "line = [] \<Longrightarrow> shell_key env NL st = shell_prompt (say [NL] st)"
    and "line \<noteq> [] \<Longrightarrow> \<exists>st'. shell_ok st' \<and> sys st' = emit [NL] (sys st) \<and> cstr (history st' ! 0) = line \<and>
      shell_key env NL st = bind_result (execute_command env line (sys st')) (\<lambda>s.
        if halted s then Inr (st'\<lparr>sys := s\<rparr>) else shell_prompt (st'\<lparr>sys := s\<rparr>))"
proof -
  note d = shell_okD [OF ok]
  show "shell_key env NL st = shell_prompt (say [NL] st)" if "line = []"
    using that d(4) by (simp add: shell_key_def line_def Let_def)
  assume l: "line \<noteq> []"
  have "shell_ok (say [NL] st)" using ok by simp
  from remember_ok [OF this] obtain st' where r: "remember (say [NL] st) = Inr st'" "shell_ok st'" "sys st' = emit [NL] (sys st)"
      "cmdline st' = cmdline st" "cstr (history st' ! 0) = line" by (auto simp: line_def)
  have "shell_key env NL st = bind_result (execute_command env line (sys st')) (\<lambda>s.
      if halted s then Inr (st'\<lparr>sys := s\<rparr>) else shell_prompt (st'\<lparr>sys := s\<rparr>))"
    using l d(4) r(1,4) by (simp add: shell_key_def line_def Let_def)
  with r show "\<exists>st'. shell_ok st' \<and> sys st' = emit [NL] (sys st) \<and> cstr (history st' ! 0) = line \<and>
      shell_key env NL st = bind_result (execute_command env line (sys st')) (\<lambda>s.
        if halted s then Inr (st'\<lparr>sys := s\<rparr>) else shell_prompt (st'\<lparr>sys := s\<rparr>))" by blast
qed

text \<open>
  C31. The line that is typed is the line that is executed: from a fresh prompt, any sequence of
  characters, backspaces and cursor keys followed by Enter runs \<^verbatim>\<open>execute_command\<close> on exactly the line
  that results from the edits (a backspace removes the last character, a character is appended while
  the line is shorter than 255), on the system as it was apart from the echoed output; the line is
  the newest history entry. An empty line runs nothing and gives a new prompt.
\<close>

theorem shell_executes_line:
  assumes "shell_ok st" and "\<not> halted (sys st)" and "cmdlen st = 0" and "keys_ahead (sys st) = ks @ NL # rest"
    and "\<forall>c\<in>set ks. c \<noteq> NL \<and> c \<noteq> KEY_UP \<and> c \<noteq> KEY_DOWN" and "line = fold a_edit ks []"
  shows "\<exists>st' t. shell_ok st' \<and> sys st' = emit t ((sys st)\<lparr>keys_ahead := rest\<rparr>) \<and>
    shell_run env (length ks + 1) st =
      (if line = [] then shell_prompt st'
       else bind_result (execute_command env line (sys st')) (\<lambda>s.
         if halted s then Inr (st'\<lparr>sys := s\<rparr>) else shell_prompt (st'\<lparr>sys := s\<rparr>))) \<and>
    (line \<noteq> [] \<longrightarrow> cstr (history st' ! 0) = line)"
proof -
  have "cstr (cmdline st) = []" using shell_okD(4) [OF assms(1)] assms(3) by simp
  with shell_run_edits [OF assms(1,2,4,5), of env 1] obtain s1 t1 where s1: "shell_run env (length ks + 1) st = shell_run env 1 s1"
      "shell_ok s1" "cstr (cmdline s1) = line" "sys s1 = emit t1 ((sys st)\<lparr>keys_ahead := NL # rest\<rparr>)"
    using assms(6) by auto
  let ?s = "s1\<lparr>sys := emit t1 ((sys st)\<lparr>keys_ahead := rest\<rparr>)\<rparr>"
  have run: "shell_run env (length ks + 1) st = shell_key env NL ?s"
  proof -
    have e: "(emit t1 ((sys st)\<lparr>keys_ahead := NL # rest\<rparr>))\<lparr>keys_ahead := rest\<rparr> = emit t1 ((sys st)\<lparr>keys_ahead := rest\<rparr>)"
      by (simp add: emit_def)
    have "keys_ahead (sys s1) = NL # rest" "\<not> halted (sys s1)" using assms(2) s1(4) by (simp_all add: emit_def)
    then have "shell_run env 1 s1 = bind_result (shell_key env NL ?s) (shell_run env 0)"
      unfolding One_nat_def by (simp add: shell_step_def s1(4) e)
    then show ?thesis unfolding s1(1) by (cases "shell_key env NL ?s") simp_all
  qed
  have ok: "shell_ok ?s" "cstr (cmdline ?s) = line" using s1(2,3) by simp_all
  show ?thesis
  proof (cases "line = []")
    case True
    then have "shell_run env (length ks + 1) st = shell_prompt (say [NL] ?s)" using enter_key(1) [OF ok(1)] ok(2) run by simp
    moreover have "sys (say [NL] ?s) = emit (t1 @ [NL]) ((sys st)\<lparr>keys_ahead := rest\<rparr>)" by simp
    ultimately show ?thesis using True ok(1) shell_ok_say(1) by metis
  next
    case False
    from enter_key(2) [OF ok(1), of env, unfolded ok(2), OF this] obtain s2 where s2: "shell_ok s2" "sys s2 = emit [NL] (sys ?s)" "cstr (history s2 ! 0) = line"
        "shell_key env NL ?s = bind_result (execute_command env line (sys s2)) (\<lambda>s.
          if halted s then Inr (s2\<lparr>sys := s\<rparr>) else shell_prompt (s2\<lparr>sys := s\<rparr>))"
      by blast
    have "sys s2 = emit (t1 @ [NL]) ((sys st)\<lparr>keys_ahead := rest\<rparr>)" using s2(2) by simp
    then show ?thesis using False s2(1,3,4) run by auto
  qed
qed

definition boot_shell :: "string \<Rightarrow> unit shell" where
  "boot_shell ks = \<lparr>sys = boot_system\<lparr>keys_ahead := ks\<rparr>, history = replicate 10 (replicate 256 NUL), history_count = 0, history_pos = - 1,
     cmdline = replicate 256 NUL, cmdlen = 0\<rparr>"

lemma boot_shell_ok: "shell_ok (boot_shell ks)" "\<not> halted (sys (boot_shell ks))" "cmdlen (boot_shell ks) = 0" "keys_ahead (sys (boot_shell ks)) = ks"
proof -
  have "cstr (replicate 256 NUL) = []" by (simp add: cstr_def)
  then show "shell_ok (boot_shell ks)" by (simp add: shell_ok_def boot_shell_def buf_ok_def list_all_iff)
qed (simp_all add: boot_shell_def boot_system_def editor.extend_def)

theorem shell_executes_line_witness:
  "\<exists>st' t. sys st' = emit t (boot_system\<lparr>keys_ahead := []\<rparr>) \<and>
    shell_run boot_env 5 (boot_shell (''lt'' @ [BS] @ ''s'' @ [NL])) = bind_result (execute_command boot_env ''ls'' (sys st')) (\<lambda>s.
      if halted s then Inr (st'\<lparr>sys := s\<rparr>) else shell_prompt (st'\<lparr>sys := s\<rparr>))"
proof -
  define K L where "K = ''lt'' @ [BS] @ ''s''" and "L = ''ls''"
  have l: "L = fold a_edit K []" by (simp add: K_def L_def a_edit_def printable_def schar_def BS_def)
  have k: "\<forall>c\<in>set K. c \<noteq> NL \<and> c \<noteq> KEY_UP \<and> c \<noteq> KEY_DOWN" by (simp add: K_def NL_def BS_def key_codes)
  have n: "L \<noteq> []" "length K + 1 = 5" "''lt'' @ [BS] @ ''s'' @ [NL] = K @ [NL]" by (simp_all add: L_def K_def)
  have s: "(sys (boot_shell (K @ [NL])))\<lparr>keys_ahead := []\<rparr> = boot_system\<lparr>keys_ahead := []\<rparr>" by (simp add: boot_shell_def)
  have "\<exists>st' t. shell_ok st' \<and> sys st' = emit t (boot_system\<lparr>keys_ahead := []\<rparr>) \<and>
      shell_run boot_env 5 (boot_shell (K @ [NL])) = (if L = [] then shell_prompt st' else bind_result (execute_command boot_env L (sys st')) (\<lambda>s.
        if halted s then Inr (st'\<lparr>sys := s\<rparr>) else shell_prompt (st'\<lparr>sys := s\<rparr>))) \<and> (L \<noteq> [] \<longrightarrow> cstr (history st' ! 0) = L)"
    using shell_executes_line [OF boot_shell_ok [of "K @ NL # []"] k l, of boot_env] unfolding s n(2) .
  then show ?thesis unfolding n(3) if_not_P [OF n(1)] L_def [symmetric] by blast
qed

text \<open>Every key keeps the invariant; a fault can only come from the command that is executed.\<close>

lemma shell_key_safe:
  assumes ok: "shell_ok st"
  shows "(\<exists>st'. shell_key env c st = Inr st' \<and> shell_ok st') \<or>
    (c = NL \<and> cstr (cmdline st) \<noteq> [] \<and>
      (\<exists>e. shell_key env c st = Inl e \<and> execute_command env (cstr (cmdline st)) (emit [NL] (sys st)) = Inl e))"
proof -
  note d = shell_okD [OF ok]
  consider "c = NL" | "c = KEY_UP" | "c = KEY_DOWN" | "c \<noteq> NL" "c \<noteq> KEY_UP" "c \<noteq> KEY_DOWN" by blast
  then show ?thesis
  proof cases
    case 1
    show ?thesis
    proof (cases "cstr (cmdline st) = []")
      case True
      then show ?thesis using enter_key(1) [OF ok True, of env] prompt_ok [of "say [NL] st"] ok 1 by auto
    next
      case False
      from enter_key(2) [OF ok False, of env] obtain s1 where s1: "shell_ok s1" "sys s1 = emit [NL] (sys st)"
          "shell_key env NL st = bind_result (execute_command env (cstr (cmdline st)) (sys s1)) (\<lambda>s.
            if halted s then Inr (s1\<lparr>sys := s\<rparr>) else shell_prompt (s1\<lparr>sys := s\<rparr>))" by blast
      show ?thesis
      proof (cases "execute_command env (cstr (cmdline st)) (sys s1)")
        case (Inl e)
        then have "shell_key env c st = Inl e" using s1(3) 1 by simp
        then show ?thesis using Inl False s1(2) 1 by auto
      next
        case (Inr s)
        then show ?thesis using s1 1 prompt_ok [of "s1\<lparr>sys := s\<rparr>"] by auto
      qed
    qed
  next
    case 2
    show ?thesis
    proof (cases "history_pos st < history_count st - 1")
      case True
      let ?s = "wipe_line (st\<lparr>history_pos := history_pos st + 1\<rparr>)"
      have "shell_ok ?s" "0 \<le> history_pos ?s" using ok True by (auto simp: shell_ok_def)
      from recall_ok [OF this] obtain e buf where "recall ?s = Inr (say e (?s\<lparr>cmdline := buf, cmdlen := int (length (cstr buf))\<rparr>))" "buf_ok buf"
        by blast
      moreover from this(2) \<open>shell_ok ?s\<close> have "shell_ok (?s\<lparr>cmdline := buf, cmdlen := int (length (cstr buf))\<rparr>)" by (simp add: shell_ok_def)
      ultimately show ?thesis using True 2 by (simp add: shell_key_def key_distinct)
    qed (use ok 2 in \<open>simp add: shell_key_def key_distinct\<close>)
  next
    case 3
    let ?s = "wipe_line (st\<lparr>history_pos := history_pos st - 1\<rparr>)"
    consider "history_pos st < 0" | "history_pos st = 0" | "history_pos st > 0" by linarith
    then show ?thesis
    proof cases
      case a: 2
      have "put (cmdline st) 0 NUL = Inr ((cmdline st)[0 := NUL])" using buf_put(1) [OF d(3), of 0] by simp
      then have "shell_key env c st = Inr (?s\<lparr>cmdline := (cmdline st)[0 := NUL], cmdlen := 0\<rparr>)"
        using a by (simp add: 3 shell_key_def key_distinct Let_def)
      moreover have "shell_ok (?s\<lparr>cmdline := (cmdline st)[0 := NUL], cmdlen := 0\<rparr>)"
        using ok a buf_put(2,3) [OF d(3), of 0] by (simp add: shell_ok_def)
      ultimately show ?thesis by blast
    next
      case a: 3
      have "shell_ok ?s" "0 \<le> history_pos ?s" using ok a by (auto simp: shell_ok_def)
      from recall_ok [OF this] obtain e buf where "recall ?s = Inr (say e (?s\<lparr>cmdline := buf, cmdlen := int (length (cstr buf))\<rparr>))" "buf_ok buf"
        by blast
      moreover from this(2) \<open>shell_ok ?s\<close> have "shell_ok (?s\<lparr>cmdline := buf, cmdlen := int (length (cstr buf))\<rparr>)" by (simp add: shell_ok_def)
      ultimately show ?thesis using a 3 by (simp add: shell_key_def key_distinct Let_def)
    qed (use ok 3 in \<open>simp add: shell_key_def key_distinct\<close>)
  next
    case 4
    then show ?thesis using edit_key [OF ok, of c env] by blast
  qed
qed

text \<open>
  The end of a run that does not return: after \<open>m\<close> keys the shell is in the state \<open>st1\<close>, in bounds and
  running, and either there are no more keys, or the next key is Enter, the line is not empty and its
  execution fails.
\<close>

definition shell_stops :: "('d, unit) env \<Rightarrow> 'd shell \<Rightarrow> nat \<Rightarrow> 'd shell \<Rightarrow> fault \<Rightarrow> bool" where
  "shell_stops env st m st1 e \<longleftrightarrow> shell_run env m st = Inr st1 \<and> shell_ok st1 \<and> \<not> halted (sys st1) \<and>
     (case keys_ahead (sys st1) of [] \<Rightarrow> e = NoEvent
      | c # ks \<Rightarrow> c = NL \<and> cstr (cmdline st1) \<noteq> [] \<and>
          execute_command env (cstr (cmdline st1)) (emit [NL] ((sys st1)\<lparr>keys_ahead := ks\<rparr>)) = Inl e)"

text \<open>
  C32. The shell never leaves its arrays: whatever keys are typed, history keys included, and for any
  number of them, every state reached has the line and all ten history entries terminated inside
  their 256 bytes; and if the run stops before its last key it is, after some of its keys, in such a
  state with no more keys to read, or in such a state with Enter as the next key, and it is the
  execution of the line it holds, in the system it has, that fails. No key by itself faults.
\<close>

theorem shell_stays_in_bounds:
  assumes "shell_ok st"
  shows "case shell_run env n st of
      Inr st' \<Rightarrow> shell_ok st'
    | Inl e \<Rightarrow> (\<exists>m<n. \<exists>st1. shell_stops env st m st1 e)"
  using assms
proof (induction n arbitrary: st)
  case (Suc n)
  show ?case
  proof (cases "halted (sys st) \<or> keys_ahead (sys st) = []")
    case True
    then show ?thesis using Suc.prems by (auto simp: shell_step_def shell_stops_def intro!: exI [of _ 0])
  next
    case False
    then obtain c ks where k: "keys_ahead (sys st) = c # ks" by (cases "keys_ahead (sys st)") auto
    let ?st = "st\<lparr>sys := (sys st)\<lparr>keys_ahead := ks\<rparr>\<rparr>"
    have step: "shell_step env st = shell_key env c ?st" using k by (simp add: shell_step_def)
    have "shell_ok ?st" using Suc.prems by simp
    from shell_key_safe [OF this, of env c] show ?thesis
    proof
      assume "\<exists>st'. shell_key env c ?st = Inr st' \<and> shell_ok st'"
      then obtain st' where st': "shell_key env c ?st = Inr st'" "shell_ok st'" by blast
      have later: "shell_stops env st (Suc m) st1 e" if "shell_stops env st' m st1 e" for m st1 e
        using that False st'(1) step by (simp add: shell_stops_def)
      have run: "shell_run env (Suc n) st = shell_run env n st'" using False step st'(1) by simp
      show ?thesis using Suc.IH [OF st'(2)] later unfolding run
        by (cases "shell_run env n st'") (auto, metis Suc_mono)
    next
      assume "c = NL \<and> cstr (cmdline ?st) \<noteq> [] \<and>
        (\<exists>e. shell_key env c ?st = Inl e \<and> execute_command env (cstr (cmdline ?st)) (emit [NL] (sys ?st)) = Inl e)"
      then show ?thesis using False step k Suc.prems by (auto simp: shell_stops_def intro!: exI [of _ 0])
    qed
  qed
qed simp

theorem shell_stays_in_bounds_witness:
  "case shell_run boot_env 3 (boot_shell [KEY_DOWN, KEY_UP]) of
      Inr st' \<Rightarrow> shell_ok st'
    | Inl e \<Rightarrow> (\<exists>m<3. \<exists>st1. shell_stops boot_env (boot_shell [KEY_DOWN, KEY_UP]) m st1 e)"
  by (rule shell_stays_in_bounds [OF boot_shell_ok(1)])

text \<open>
  What the history keys bring back: the recalled entry is copied over the line without its
  terminator, so the line becomes the entry followed by whatever string the line buffer holds behind
  that position. It is the entry itself exactly when the buffer holds a NUL there.
\<close>

theorem shell_recall_overlays:
  assumes "shell_ok st" and "history_pos st < history_count st - 1" and "entry = cstr (history st ! nat (history_pos st + 1))"
  shows "\<exists>st'. shell_key env KEY_UP st = Inr st' \<and>
    cstr (cmdline st') = entry @ cstr (drop (length entry) (cmdline st)) \<and>
    (cstr (cmdline st') = entry \<longleftrightarrow> cmdline st ! length entry = NUL)"
proof -
  let ?s = "wipe_line (st\<lparr>history_pos := history_pos st + 1\<rparr>)"
  have ok: "shell_ok ?s" "0 \<le> history_pos ?s" using assms(1,2) by (auto simp: shell_ok_def)
  from recall_ok [OF ok] obtain buf where b: "recall ?s = Inr (say entry (?s\<lparr>cmdline := buf, cmdlen := int (length (cstr buf))\<rparr>))"
      "cstr buf = entry @ cstr (drop (length entry) (cmdline st))"
    using assms(3) by auto
  have "nat (history_pos st + 1) < 10" using assms(1,2) by (auto simp: shell_ok_def)
  then have "length entry \<le> 255" using assms(1,3) buf_facts(3) by (auto simp: shell_ok_def list_all_length)
  then have "drop (length entry) (cmdline st) = cmdline st ! length entry # drop (Suc (length entry)) (cmdline st)"
    using shell_okD(5) [OF assms(1)] by (simp add: Cons_nth_drop_Suc)
  then have "cstr (drop (length entry) (cmdline st)) = [] \<longleftrightarrow> cmdline st ! length entry = NUL" by (simp add: cstr_def)
  then show ?thesis using b assms(2) by (simp add: shell_key_def key_distinct)
qed

text \<open>After \<^verbatim>\<open>ls\<close> and \<^verbatim>\<open>clear\<close>: the older entry comes back as \<^verbatim>\<open>lsear\<close>.\<close>

definition two_lines :: "unit shell" where
  "two_lines = (boot_shell [])\<lparr>history := (replicate 10 (replicate 256 NUL))[0 := ''clear'' @ replicate 251 NUL, 1 := ''ls'' @ replicate 254 NUL],
     history_count := 2, history_pos := 0, cmdline := ''clear'' @ replicate 251 NUL, cmdlen := 5\<rparr>"

lemma cstr_padded: "nul_free s \<Longrightarrow> cstr (s @ replicate (Suc n) NUL) = s"
  using cstr_append_NUL [of s "replicate n NUL"] by simp

theorem shell_recall_overlays_witness:
  "\<exists>st'. shell_key boot_env KEY_UP two_lines = Inr st' \<and> cstr (cmdline st') = ''lsear''"
proof -
  have c: "cstr (''clear'' @ replicate 251 NUL) = ''clear''" "cstr (''ls'' @ replicate 254 NUL) = ''ls''" "cstr (''ear'' @ replicate 251 NUL) = ''ear''"
    by (simp_all add: cstr_def NUL_def)
  have n: "(''clear'' @ replicate 251 NUL) ! 255 = NUL" "(''ls'' @ replicate 254 NUL) ! 255 = NUL" by (simp_all add: nth_append)
  have "shell_ok two_lines"
    using c n by (simp add: shell_ok_def two_lines_def boot_shell_def buf_ok_def list_all_length nth_list_update)
  moreover have "history_pos two_lines < history_count two_lines - 1" by (simp add: two_lines_def)
  moreover have "''ls'' = cstr (history two_lines ! nat (history_pos two_lines + 1))" using c(2) by (simp add: two_lines_def)
  ultimately obtain st' where "shell_key boot_env KEY_UP two_lines = Inr st'" "cstr (cmdline st') = ''ls'' @ cstr (drop (length ''ls'') (cmdline two_lines))"
    using shell_recall_overlays [of two_lines "''ls''" boot_env] by blast
  moreover have "drop (length ''ls'') (cmdline two_lines) = ''ear'' @ replicate 251 NUL" by (simp add: two_lines_def)
  ultimately show ?thesis using c(3) by (simp del: append_Cons)
qed

end
