(* ===== verification/Gamemode.thy ===== *)
theory Gamemode
  imports Heap_Contract Graphics
begin

unbundle bit_operations_syntax

text \<open>
  The wrapper of \<^verbatim>\<open>src/gamemode.c\<close> around a full-screen game: it saves the picture in a heap block,
  runs the game's three functions and copies the picture back. The framebuffer lies outside the
  heap, so copying between them is a copy between the two arrays. Shown here: a game that leaves the
  heap alone gets the old picture back when it ends, and no heap block is lost.
\<close>

section \<open>The code\<close>

text \<open>The globals of \<^verbatim>\<open>gamemode.c\<close> with the heap and the framebuffer; 0 is the null pointer.\<close>

record gm = heap +
  gm_gfx :: gfx
  game_active :: int
  current_game :: "string option"
  saved_framebuffer :: nat
  saved_width :: nat
  saved_height :: nat
  saved_pitch :: nat

record 's game =
  g_name :: string
  g_init :: "('s \<Rightarrow> 's result) option"
  g_run :: "('s \<Rightarrow> 's result) option"
  g_cleanup :: "('s \<Rightarrow> 's result) option"

text \<open>Byte \<open>k\<close> of a pixel in memory, and the pixel stored at an address.\<close>

definition byte_at :: "nat \<Rightarrow> u32 \<Rightarrow> u8" where
  "byte_at k w = ucast (drop_bit (8 * k) w)"

definition pixel_at :: "mem \<Rightarrow> nat \<Rightarrow> u32" where
  "pixel_at m a = ucast (m a) OR push_bit 8 (ucast (m (a + 1))) OR push_bit 16 (ucast (m (a + 2))) OR push_bit 24 (ucast (m (a + 3)))"

text \<open>\<^verbatim>\<open>memcpy\<close> of \<open>n\<close> bytes from the framebuffer to address \<open>p\<close>, and back.\<close>

definition copy_out :: "nat \<Rightarrow> nat \<Rightarrow> (nat \<Rightarrow> u32) \<Rightarrow> mem \<Rightarrow> mem" where
  "copy_out p n px m = (\<lambda>a. if p \<le> a \<and> a < p + n then byte_at ((a - p) mod 4) (px ((a - p) div 4)) else m a)"

definition copy_in :: "nat \<Rightarrow> nat \<Rightarrow> mem \<Rightarrow> (nat \<Rightarrow> u32) \<Rightarrow> (nat \<Rightarrow> u32)" where
  "copy_in p n m px = (\<lambda>i. if i < n div 4 then pixel_at m (p + 4 * i) else px i)"

definition save_video_state :: "'a gm_scheme \<Rightarrow> 'a gm_scheme result" where
  "save_video_state st =
     (let st = st\<lparr>saved_width := fb_width (gm_gfx st)\<rparr>;
          st = st\<lparr>saved_height := fb_height (gm_gfx st)\<rparr>;
          st = st\<lparr>saved_pitch := saved_width st * 4 mod 2 ^ 32\<rparr>;
          n = saved_width st * saved_height st * 4 mod 2 ^ 32
      in case malloc n st of
           None \<Rightarrow> Inl NoEvent
         | Some (p, st) \<Rightarrow>
             let st = st\<lparr>saved_framebuffer := p\<rparr>
             in Inr (if p \<noteq> 0 then st\<lparr>hmem := copy_out p n (fb (gm_gfx st)) (hmem st)\<rparr> else st))"

definition restore_video_state :: "'a gm_scheme \<Rightarrow> 'a gm_scheme result" where
  "restore_video_state st =
     (if saved_framebuffer st \<noteq> 0
      then let n = saved_width st * saved_height st * 4 mod 2 ^ 32;
               st = st\<lparr>gm_gfx := (gm_gfx st)\<lparr>fb := copy_in (saved_framebuffer st) n (hmem st) (fb (gm_gfx st))\<rparr>\<rparr>
           in case free_ptr (saved_framebuffer st) st of
                None \<Rightarrow> Inl NoEvent
              | Some st \<Rightarrow> Inr (st\<lparr>saved_framebuffer := 0\<rparr>)
      else Inr st)"

text \<open>A function pointer of the game is called unless it is null.\<close>

definition call_if :: "('s \<Rightarrow> 's result) option \<Rightarrow> 's \<Rightarrow> 's result" where
  "call_if f st = (case f of None \<Rightarrow> Inr st | Some f \<Rightarrow> f st)"

definition gamemode_enter :: "'a gm_scheme game option \<Rightarrow> 'a gm_scheme \<Rightarrow> 'a gm_scheme result" where
  "gamemode_enter game st =
     (case game of
        None \<Rightarrow> Inr st
      | Some g \<Rightarrow>
          let st = st\<lparr>game_active := 1, current_game := Some (g_name g)\<rparr>;
              st = emit (''Entering game mode: '' @ g_name g @ [NL] @ ''Press ESC to exit'' @ [NL]) st
          in bind_result (save_video_state st) (\<lambda>st.
             bind_result (call_if (g_init g) st) (\<lambda>st.
             bind_result (call_if (g_run g) st) (\<lambda>st.
             bind_result (call_if (g_cleanup g) st) (\<lambda>st.
             bind_result (restore_video_state st) (\<lambda>st.
               Inr (emit (''Exiting game mode'' @ [NL]) (st\<lparr>game_active := 0, current_game := None\<rparr>))))))))"

definition gamemode_exit :: "'a gm_scheme \<Rightarrow> 'a gm_scheme" where
  "gamemode_exit st = st\<lparr>game_active := 0\<rparr>"

definition gamemode_active :: "'a gm_scheme \<Rightarrow> int" where
  "gamemode_active st = game_active st"

section \<open>The picture survives\<close>

lemma pixel_bytes:
  assumes "\<And>k. k < 4 \<Longrightarrow> m (a + k) = byte_at k w"
  shows "pixel_at m a = w"
proof (rule bit_word_eqI)
  have b: "m a = byte_at 0 w" "m (a + 1) = byte_at 1 w" "m (a + 2) = byte_at 2 w" "m (a + 3) = byte_at 3 w"
    using assms [of 0] assms [of 1] assms [of 2] assms [of 3] by simp_all
  note px = pixel_at_def [of m a, unfolded b]
  fix n assume "n < LENGTH(32)"
  then consider "n < 8" | "8 \<le> n" "n < 16" | "16 \<le> n" "n < 24" | "24 \<le> n" "n < 32" by fastforce
  then show "bit (pixel_at m a) n = bit w n"
    by cases (auto simp: px byte_at_def bit_simps)
qed

lemma copy_in_out:
  assumes "\<And>a. in_region p n a \<Longrightarrow> m' a = copy_out p n px m a"
  shows "copy_in p n m' px' i = (if i < n div 4 then px i else px' i)"
proof -
  have "pixel_at m' (p + 4 * i) = px i" if "i < n div 4"
  proof (rule pixel_bytes)
    fix k :: nat assume k: "k < 4"
    then have "in_region p n (p + 4 * i + k)" using that by (auto simp: in_region_def)
    moreover from this have "copy_out p n px m (p + 4 * i + k) = byte_at k (px i)" using k by (simp add: copy_out_def in_region_def)
    ultimately show "m' (p + 4 * i + k) = byte_at k (px i)" using assms by simp
  qed
  then show ?thesis by (simp add: copy_in_def)
qed

text \<open>The heap functions see and change the heap's own fields only.\<close>

definition heap_same :: "'a heap_scheme \<Rightarrow> 'b heap_scheme \<Rightarrow> bool" where
  "heap_same h h' \<longleftrightarrow> hmem h' = hmem h \<and> heap_start_ptr h' = heap_start_ptr h \<and> heap_ready h' = heap_ready h"

lemma heap_same_inv:
  assumes "heap_same h h'"
  shows "heap_inv h' = heap_inv h" "heap_live h' = heap_live h"
proof -
  have "heap_rep h' = heap_rep h" using assms by (intro ext) (simp add: heap_same_def heap_rep_def)
  then show "heap_inv h' = heap_inv h" "heap_live h' = heap_live h" by (simp_all add: heap_inv_def heap_live_def)
qed

lemma malloc_only: "malloc n h = Some (p, h') \<Longrightarrow> h' = h\<lparr>hmem := hmem h'\<rparr>"
  by (auto simp: malloc_def split: if_splits)

lemma free_only: "free_ptr p h = Some h' \<Longrightarrow> h' = h\<lparr>hmem := hmem h'\<rparr>"
  by (auto simp: free_ptr_def merge_free_def Let_def split: if_splits)

text \<open>A buffer that is allocated and filled, used by somebody who leaves the heap alone, and released.\<close>

lemma heap_fill:
  assumes inv: "heap_inv h" and live: "(p, s) \<in> heap_live h" and out: "\<And>x. \<not> in_region p s x \<Longrightarrow> m x = hmem h x"
  shows "heap_inv (h\<lparr>hmem := m\<rparr>)" "heap_live (h\<lparr>hmem := m\<rparr>) = heap_live h"
proof -
  obtain bs where bs: "heap_rep h bs" using inv by (auto simp: heap_inv_def)
  then have "(p, s) \<in> live HEAP_START bs" using live by (simp add: heap_live_eq)
  from heap_rep_store [OF bs this out] have "heap_rep (h\<lparr>hmem := m\<rparr>) bs" .
  then show "heap_inv (h\<lparr>hmem := m\<rparr>)" "heap_live (h\<lparr>hmem := m\<rparr>) = heap_live h"
    using bs by (auto simp: heap_inv_def heap_live_eq)
qed

definition play :: "'s game \<Rightarrow> 's \<Rightarrow> 's result" where
  "play g st = bind_result (call_if (g_init g) st) (\<lambda>st. bind_result (call_if (g_run g) st) (call_if (g_cleanup g)))"

definition kept :: "'a gm_scheme \<Rightarrow> mem \<times> nat \<times> int \<times> nat \<times> nat \<times> nat" where
  "kept st = (hmem st, heap_start_ptr st, heap_ready st, saved_framebuffer st, saved_width st, saved_height st)"

text \<open>What the wrapper relies on: the game leaves the heap and the saved picture alone.\<close>

definition entered :: "'a gm_scheme game \<Rightarrow> 'a gm_scheme \<Rightarrow> 'a gm_scheme" where
  "entered g st = emit (''Entering game mode: '' @ g_name g @ [NL] @ ''Press ESC to exit'' @ [NL])
     (st\<lparr>game_active := 1, current_game := Some (g_name g)\<rparr>)"

lemma entered_fields [simp]:
  "gm_gfx (entered g st) = gm_gfx st" "game_active (entered g st) = 1" "heap_same st (entered g st)" "gm.more (entered g st) = gm.more st"
  by (simp_all add: entered_def emit_def heap_same_def)

definition screen_bytes :: "'a gm_scheme \<Rightarrow> nat" where
  "screen_bytes st = fb_width (gm_gfx st) * fb_height (gm_gfx st) * 4"

lemma save_picture:
  assumes inv: "heap_inv st" and dims: "screen_bytes st + 8 \<le> 2 ^ 32"
  obtains st1 p where "save_video_state st = Inr st1" "heap_inv st1" "saved_framebuffer st1 = p" "gm_gfx st1 = gm_gfx st"
    "game_active st1 = game_active st" "gm.more st1 = gm.more st" "saved_width st1 * saved_height st1 * 4 = screen_bytes st"
    "\<And>q t x. (q, t) \<in> heap_live st \<Longrightarrow> in_region q t x \<Longrightarrow> hmem st1 x = hmem st x"
    "p = 0 \<Longrightarrow> heap_live st1 = heap_live st" "p \<noteq> 0 \<Longrightarrow> \<exists>s. (p, s) \<notin> heap_live st \<and> heap_live st1 = insert (p, s) (heap_live st)"
    "p \<noteq> 0 \<Longrightarrow> \<exists>m. hmem st1 = copy_out p (screen_bytes st) (fb (gm_gfx st)) m"
proof -
  let ?n = "screen_bytes st"
  let ?s = "st\<lparr>saved_width := fb_width (gm_gfx st), saved_height := fb_height (gm_gfx st), saved_pitch := fb_width (gm_gfx st) * 4 mod 2 ^ 32\<rparr>"
  have n: "?n mod 2 ^ 32 = ?n" using dims by simp
  have same: "heap_same st ?s" by (simp add: heap_same_def)
  have inv_s: "heap_inv ?s" "heap_live ?s = heap_live st" using inv heap_same_inv [OF same] by simp_all
  obtain p h where m: "malloc ?n ?s = Some (p, h)" "heap_inv h" using kheap.alloc_returns [OF inv_s(1)] by blast
  have h: "h = ?s\<lparr>hmem := hmem h\<rparr>" by (rule malloc_only [OF m(1)])
  have f: "gm_gfx h = gm_gfx st" "game_active h = game_active st" "gm.more h = gm.more st" "saved_width h = fb_width (gm_gfx st)"
      "saved_height h = fb_height (gm_gfx st)"
    by (subst h; simp)+
  have frame: "hmem h x = hmem st x" if "(q, t) \<in> heap_live st" "in_region q t x" for q t x
    using kheap.alloc_frame [OF inv_s(1) m(1)] that inv_s(2) by simp
  define st1 where "st1 = (if p \<noteq> 0 then (h\<lparr>saved_framebuffer := p\<rparr>)\<lparr>hmem := copy_out p ?n (fb (gm_gfx h)) (hmem h)\<rparr> else h\<lparr>saved_framebuffer := p\<rparr>)"
  have save: "save_video_state st = Inr st1"
    using n m(1) by (simp add: save_video_state_def Let_def st1_def screen_bytes_def)
  have g: "saved_framebuffer st1 = p" "gm_gfx st1 = gm_gfx st" "game_active st1 = game_active st" "gm.more st1 = gm.more st"
      "saved_width st1 * saved_height st1 * 4 = screen_bytes st"
    using f by (simp_all add: st1_def screen_bytes_def)
  show thesis
  proof (cases "p = 0")
    case True
    then have "heap_same h st1" by (simp add: st1_def heap_same_def)
    moreover have "heap_same st h" using same unfolding kheap.alloc_null [OF inv_s(1) m(1) [unfolded True]] .
    ultimately show thesis
      by (intro that [OF save _ g(1-5)]) (use inv heap_same_inv [of st h] heap_same_inv [of h st1] True in \<open>auto simp: heap_same_def\<close>)
  next
    case False
    from kheap.alloc_block [OF inv_s(1) dims m(1) False] obtain s where s: "?n \<le> s" "(p, s) \<notin> heap_live st" "heap_live h = insert (p, s) (heap_live st)"
      using inv_s(2) by auto
    have live: "(p, s) \<in> heap_live h" using s(3) by simp
    let ?m = "copy_out p ?n (fb (gm_gfx h)) (hmem h)"
    have out: "\<not> in_region p s x \<Longrightarrow> ?m x = hmem h x" for x using s(1) by (auto simp: copy_out_def in_region_def)
    have same1: "heap_same (h\<lparr>hmem := ?m\<rparr>) st1" using False by (simp add: st1_def heap_same_def)
    note fill = heap_fill [OF m(2) live out]
    have apart: "\<not> in_region p s x" if q: "(q, t) \<in> heap_live st" "in_region q t x" for q t x
    proof -
      have "(p, s) \<noteq> (q, t)" "(q, t) \<in> heap_live h" using q(1) s(2,3) by auto
      from kheap.blocks_apart [OF m(2) live this(2,1)] q(2) show ?thesis by (auto simp: in_region_def)
    qed
    show thesis
    proof (rule that [OF save _ g(1-5)])
      show "heap_inv st1" using fill(1) heap_same_inv(1) [OF same1] by simp
      show "hmem st1 x = hmem st x" if "(q, t) \<in> heap_live st" "in_region q t x" for q t x
        using frame [OF that] out [OF apart [OF that]] False by (simp add: st1_def)
      show "\<exists>s. (p, s) \<notin> heap_live st \<and> heap_live st1 = insert (p, s) (heap_live st)"
        using s(2,3) fill(2) heap_same_inv(2) [OF same1] by auto
      show "\<exists>m. hmem st1 = copy_out p ?n (fb (gm_gfx st)) m" using False f(1) by (auto simp: st1_def)
    qed (use False in simp)
  qed
qed

lemma restore_picture:
  assumes inv: "heap_inv st" and p: "saved_framebuffer st = p"
    and live: "p = 0 \<or> (p, s) \<in> heap_live st" and n: "saved_width st * saved_height st * 4 = n" "n < 2 ^ 32"
  shows "\<exists>st'. restore_video_state st = Inr st' \<and> heap_inv st' \<and> heap_live st' = (if p = 0 then heap_live st else heap_live st - {(p, s)}) \<and>
    (\<forall>q t x. (q, t) \<in> heap_live st \<longrightarrow> (p \<noteq> 0 \<longrightarrow> (q, t) \<noteq> (p, s)) \<longrightarrow> in_region q t x \<longrightarrow> hmem st' x = hmem st x) \<and>
    fb (gm_gfx st') = (if p = 0 then fb (gm_gfx st) else copy_in p n (hmem st) (fb (gm_gfx st)))"
proof (cases "p = 0")
  case True
  then show ?thesis using inv p by (auto simp: restore_video_state_def)
next
  case False
  let ?s = "st\<lparr>gm_gfx := (gm_gfx st)\<lparr>fb := copy_in p n (hmem st) (fb (gm_gfx st))\<rparr>\<rparr>"
  have same: "heap_same st ?s" by (simp add: heap_same_def)
  have s: "heap_inv ?s" "heap_live ?s = heap_live st" using inv heap_same_inv [OF same] by simp_all
  have ls: "(p, s) \<in> heap_live ?s" using live False s(2) by simp
  obtain h where h: "free_ptr p ?s = Some h" "heap_inv h" "heap_live h = heap_live st - {(p, s)}"
    using kheap.release_block [OF s(1) ls] s(2) by auto
  have hs: "heap_same h (h\<lparr>saved_framebuffer := 0\<rparr>)" by (simp add: heap_same_def)
  have gf: "gm_gfx h = gm_gfx ?s" by (subst free_only [OF h(1)]) simp
  have frame: "hmem h x = hmem st x" if "(q, t) \<in> heap_live st" "(q, t) \<noteq> (p, s)" "in_region q t x" for q t x
    using kheap.release_frame [OF s(1) ls h(1)] that s(2) by simp
  have "restore_video_state st = Inr (h\<lparr>saved_framebuffer := 0\<rparr>)"
    using False p n h(1) by (simp add: restore_video_state_def Let_def)
  then show ?thesis using h(2,3) heap_same_inv [OF hs] frame False gf by auto
qed

text \<open>What the wrapper relies on: the game leaves the heap and the saved picture alone.\<close>

locale guest =
  fixes prog :: "'a gm_scheme game"
  assumes keeps: "play prog st = Inr st' \<Longrightarrow> kept st' = kept st"
begin

lemma enter_play:
  "gamemode_enter (Some prog) st = bind_result (save_video_state (entered prog st)) (\<lambda>st.
     bind_result (play prog st) (\<lambda>st. bind_result (restore_video_state st) (\<lambda>st.
       Inr (emit (''Exiting game mode'' @ [NL]) (st\<lparr>game_active := 0, current_game := None\<rparr>)))))"
  by (simp add: gamemode_enter_def entered_def play_def Let_def bind_result_def split: sum.splits)

lemma picture_kept:
  assumes inv: "heap_inv st" and dims: "screen_bytes st + 8 \<le> 2 ^ 32"
  shows "\<exists>st1. save_video_state (entered prog st) = Inr st1 \<and> gm_gfx st1 = gm_gfx st \<and> game_active st1 = 1 \<and> gm.more st1 = gm.more st \<and> (\<forall>st2. play prog st1 = Inr st2 \<longrightarrow>
    (\<exists>st'. gamemode_enter (Some prog) st = Inr st' \<and> heap_inv st' \<and> heap_live st' = heap_live st \<and>
      (\<forall>q t x. (q, t) \<in> heap_live st \<longrightarrow> in_region q t x \<longrightarrow> hmem st' x = hmem st x) \<and> game_active st' = 0 \<and>
      fb (gm_gfx st') = (\<lambda>i. if saved_framebuffer st1 \<noteq> 0 \<and> i < screen_bytes st div 4 then fb (gm_gfx st) i else fb (gm_gfx st2) i)))"
proof -
  let ?s = "entered prog st"
  have e: "heap_inv ?s" "heap_live ?s = heap_live st" "hmem ?s = hmem st" "screen_bytes ?s = screen_bytes st"
    using inv heap_same_inv [OF entered_fields(3) [of st prog]] entered_fields(3) [of st prog] by (simp_all add: screen_bytes_def heap_same_def)
  have dims': "screen_bytes ?s + 8 \<le> 2 ^ 32" using dims e(4) by simp
  obtain st1 p where s1: "save_video_state ?s = Inr st1" "heap_inv st1" "saved_framebuffer st1 = p" "gm_gfx st1 = gm_gfx ?s"
    "game_active st1 = game_active ?s" "gm.more st1 = gm.more ?s" "saved_width st1 * saved_height st1 * 4 = screen_bytes ?s"
    "\<And>q t x. (q, t) \<in> heap_live ?s \<Longrightarrow> in_region q t x \<Longrightarrow> hmem st1 x = hmem ?s x"
    "p = 0 \<Longrightarrow> heap_live st1 = heap_live ?s" "p \<noteq> 0 \<Longrightarrow> \<exists>s. (p, s) \<notin> heap_live ?s \<and> heap_live st1 = insert (p, s) (heap_live ?s)"
    "p \<noteq> 0 \<Longrightarrow> \<exists>m. hmem st1 = copy_out p (screen_bytes ?s) (fb (gm_gfx ?s)) m"
    using save_picture [OF e(1) dims'] by metis
  obtain s where s: "p \<noteq> 0 \<Longrightarrow> (p, s) \<notin> heap_live st \<and> heap_live st1 = insert (p, s) (heap_live st)"
    using s1(10) e(2) by metis
  have finish: "\<exists>st'. gamemode_enter (Some prog) st = Inr st' \<and> heap_inv st' \<and> heap_live st' = heap_live st \<and>
      (\<forall>q t x. (q, t) \<in> heap_live st \<longrightarrow> in_region q t x \<longrightarrow> hmem st' x = hmem st x) \<and> game_active st' = 0 \<and>
      fb (gm_gfx st') = (\<lambda>i. if saved_framebuffer st1 \<noteq> 0 \<and> i < screen_bytes st div 4 then fb (gm_gfx st) i else fb (gm_gfx st2) i)"
    if play: "play prog st1 = Inr st2" for st2
  proof -
    have k: "heap_same st1 st2" "saved_framebuffer st2 = p" "saved_width st2 * saved_height st2 * 4 = screen_bytes st"
      using keeps [OF play] s1(3,7) e(4) by (simp_all add: kept_def heap_same_def)
    have i2: "heap_inv st2" "heap_live st2 = heap_live st1" using s1(2) heap_same_inv [OF k(1)] by simp_all
    have l2: "p = 0 \<or> (p, s) \<in> heap_live st2" using s i2(2) by auto
    have nn: "screen_bytes st < 2 ^ 32" using dims by simp
    obtain st3 where s3: "restore_video_state st2 = Inr st3" "heap_inv st3"
        "heap_live st3 = (if p = 0 then heap_live st2 else heap_live st2 - {(p, s)})"
        "\<forall>q t x. (q, t) \<in> heap_live st2 \<longrightarrow> (p \<noteq> 0 \<longrightarrow> (q, t) \<noteq> (p, s)) \<longrightarrow> in_region q t x \<longrightarrow> hmem st3 x = hmem st2 x"
        "fb (gm_gfx st3) = (if p = 0 then fb (gm_gfx st2) else copy_in p (screen_bytes st) (hmem st2) (fb (gm_gfx st2)))"
      using restore_picture [OF i2(1) k(2) l2 k(3) nn] by blast
    define st' where "st' = emit (''Exiting game mode'' @ [NL]) (st3\<lparr>game_active := 0, current_game := None\<rparr>)"
    have same: "heap_same st3 st'" "gm_gfx st' = gm_gfx st3" "game_active st' = 0" by (simp_all add: st'_def heap_same_def emit_def)
    have "gamemode_enter (Some prog) st = Inr st'" by (simp add: enter_play s1(1) play s3(1) st'_def)
    moreover have "heap_inv st'" "heap_live st' = heap_live st"
      using heap_same_inv [OF same(1)] s3(2,3) i2(2) s s1(9) e(2) by (auto split: if_splits)
    moreover have "hmem st' x = hmem st x" if q: "(q, t) \<in> heap_live st" "in_region q t x" for q t x
    proof -
      have "(q, t) \<in> heap_live st2" "p \<noteq> 0 \<longrightarrow> (q, t) \<noteq> (p, s)" using q(1) i2(2) s s1(9) e(2) by (cases "p = 0"; auto)+
      then have "hmem st3 x = hmem st1 x" using s3(4) q(2) k(1) by (simp add: heap_same_def)
      then show ?thesis using s1(8) q e(2,3) same(1) by (simp add: heap_same_def)
    qed
    moreover have "fb (gm_gfx st') i = (if saved_framebuffer st1 \<noteq> 0 \<and> i < screen_bytes st div 4 then fb (gm_gfx st) i else fb (gm_gfx st2) i)" for i
    proof (cases "p = 0")
      case False
      then obtain m where "hmem st1 = copy_out p (screen_bytes st) (fb (gm_gfx st)) m" using s1(11) e(4) by auto
      then have "hmem st2 = copy_out p (screen_bytes st) (fb (gm_gfx st)) m" using k(1) by (simp add: heap_same_def)
      then show ?thesis using False s3(5) same(2) s1(3) copy_in_out [of p "screen_bytes st" "hmem st2" "fb (gm_gfx st)" m] by simp
    qed (use s3(5) same(2) s1(3) in simp)
    ultimately show ?thesis using same(3) by blast
  qed
  show ?thesis using s1(1,4,5,6) finish by (auto simp: entered_fields)
qed

end

end
