(* ===== verification/Snake.thy ===== *)
theory Snake
  imports Gamemode Editor_Text "HOL-Library.Signed_Division"
begin

text \<open>
  The game of \<^verbatim>\<open>src/snake.c\<close>: the random food, the moving snake in the array \<^verbatim>\<open>snake[100]\<close>, the keys and
  the drawing, run by the wrapper of \<^verbatim>\<open>src/gamemode.c\<close>. The body of the snake as a list is the
  specification that the array code refines.
\<close>

section \<open>The code\<close>

record sgame = gm +
  rng_state :: u32
  width :: int
  height :: int
  cell_size :: int
  grid_w :: int
  grid_h :: int
  snake :: "(int \<times> int) list"
  snake_len :: int
  dir_x :: int
  dir_y :: int
  food_x :: int
  food_y :: int
  score :: int
  game_over :: int

definition my_rand :: "'a sgame_scheme \<Rightarrow> int \<times> 'a sgame_scheme" where
  "my_rand st = (let r = rng_state st * 1103515245 + 12345 in (uint r div 65536 mod 32768, st\<lparr>rng_state := r\<rparr>))"

definition on_gfx :: "(gfx \<Rightarrow> gfx) \<Rightarrow> 'a sgame_scheme \<Rightarrow> 'a sgame_scheme" where
  "on_gfx f st = st\<lparr>gm_gfx := f (gm_gfx st)\<rparr>"

definition draw_rect :: "int \<Rightarrow> int \<Rightarrow> int \<Rightarrow> int \<Rightarrow> u32 \<Rightarrow> 'a sgame_scheme \<Rightarrow> 'a sgame_scheme" where
  "draw_rect x y w h color st = on_gfx (fill_rect x y w h color) st"

definition draw_snake_cell :: "int \<Rightarrow> int \<Rightarrow> u32 \<Rightarrow> 'a sgame_scheme \<Rightarrow> 'a sgame_scheme" where
  "draw_snake_cell x y color st =
     draw_rect (swrap (x * cell_size st)) (swrap (y * cell_size st)) (cell_size st - 1) (cell_size st - 1) color st"

text \<open>A character is drawn as a block of 6 by 8 pixels, here and in the message at the end.\<close>

definition draw_blocks :: "int \<Rightarrow> int \<Rightarrow> string \<Rightarrow> u32 \<Rightarrow> 'a sgame_scheme \<Rightarrow> 'a sgame_scheme" where
  "draw_blocks x y str color st =
     on_gfx (for_int 0 (int (length str)) (\<lambda>i. for_int 0 8 (\<lambda>py. for_int 0 6 (\<lambda>px.
       put_pixel (swrap (x + i * 8 + px)) (swrap (y + py)) color)))) st"

definition draw_number :: "int \<Rightarrow> int \<Rightarrow> int \<Rightarrow> 'a sgame_scheme \<Rightarrow> 'a sgame_scheme result" where
  "draw_number x y num st =
     bind_result (itoa num (replicate 16 NUL) 10) (\<lambda>str. Inr (draw_blocks x y (cstr str) 0xFFFFFF st))"

text \<open>The collision loop: the first \<open>n\<close> elements of the array from the given one on.\<close>

fun scan_body :: "(int \<times> int) list \<Rightarrow> nat \<Rightarrow> int \<times> int \<Rightarrow> bool result" where
  "scan_body ps 0 q = Inr False"
| "scan_body [] (Suc n) q = Inl OutOfBounds"
| "scan_body (p # ps) (Suc n) q = (if p = q then Inr True else scan_body ps n q)"

text \<open>The random tries, at most \<open>k\<close> of them, and the search of the whole grid.\<close>

fun random_food :: "nat \<Rightarrow> 'a sgame_scheme \<Rightarrow> (bool \<times> 'a sgame_scheme) result" where
  "random_food 0 st = Inr (False, st)"
| "random_food (Suc k) st =
     (if grid_w st = 0 \<or> grid_h st = 0 then Inl DivideByZero
      else let (a, st) = my_rand st; (b, st) = my_rand st; fx = a mod grid_w st; fy = b mod grid_h st in
        bind_result (scan_body (snake st) (nat (snake_len st)) (fx, fy)) (\<lambda>collision.
          if \<not> collision then Inr (True, st\<lparr>food_x := fx, food_y := fy\<rparr>) else random_food k st))"

fun scan_grid :: "(int \<times> int) list \<Rightarrow> 'a sgame_scheme \<Rightarrow> 'a sgame_scheme result" where
  "scan_grid [] st = Inr st"
| "scan_grid ((x, y) # cs) st =
     bind_result (scan_body (snake st) (nat (snake_len st)) (x, y)) (\<lambda>collision.
       if \<not> collision then Inr (st\<lparr>food_x := x, food_y := y\<rparr>) else scan_grid cs st)"

definition grid_cells :: "int \<Rightarrow> int \<Rightarrow> (int \<times> int) list" where
  "grid_cells w h = concat (map (\<lambda>y. map (\<lambda>x. (x, y)) [0..w - 1]) [0..h - 1])"

definition generate_food :: "'a sgame_scheme \<Rightarrow> 'a sgame_scheme result" where
  "generate_food st =
     bind_result (random_food 1000 st) (\<lambda>(found, st).
       if found then Inr st else scan_grid (grid_cells (grid_w st) (grid_h st)) st)"

text \<open>\<open>now\<close> is the value of \<^verbatim>\<open>timer_ticks()\<close>.\<close>

definition init_game :: "u32 \<Rightarrow> 'a sgame_scheme \<Rightarrow> 'a sgame_scheme result" where
  "init_game now st =
     (let st = st\<lparr>width := swrap (int (fb_width (gm_gfx st))), height := swrap (int (fb_height (gm_gfx st)))\<rparr>;
          st = st\<lparr>cell_size := (if width st < height st then width st sdiv 40 else height st sdiv 30)\<rparr>;
          st = (if cell_size st < 8 then st\<lparr>cell_size := 8\<rparr> else st);
          st = (if cell_size st > 20 then st\<lparr>cell_size := 20\<rparr> else st);
          st = st\<lparr>grid_w := width st sdiv cell_size st, grid_h := height st sdiv cell_size st, rng_state := now\<rparr>;
          center_x = grid_w st sdiv 2;
          center_y = grid_h st sdiv 2
      in if length (snake st) < 3 then Inl OutOfBounds
         else let st = st\<lparr>snake := (snake st)[0 := (center_x, center_y), 1 := (center_x - 1, center_y), 2 := (center_x - 2, center_y)],
                snake_len := 3, dir_x := 1, dir_y := 0, score := 0, game_over := 0\<rparr>
           in bind_result (generate_food st) (\<lambda>st. Inr (on_gfx (fill_screen 0x000000) st)))"

text \<open>\<^verbatim>\<open>snake[i]\<close> for \<^verbatim>\<open>i < snake_len\<close>, one cell after the other.\<close>

fun draw_body :: "(int \<times> int) list \<Rightarrow> nat \<Rightarrow> 'a sgame_scheme \<Rightarrow> 'a sgame_scheme result" where
  "draw_body ps 0 st = Inr st"
| "draw_body [] (Suc n) st = Inl OutOfBounds"
| "draw_body ((x, y) # ps) (Suc n) st = draw_body ps n (draw_snake_cell x y 0x00FF00 st)"

definition draw_game :: "'a sgame_scheme \<Rightarrow> 'a sgame_scheme result" where
  "draw_game st =
     bind_result (draw_body (snake st) (nat (snake_len st)) st) (\<lambda>st.
     bind_result (if game_over st = 0 \<and> snake_len st > 0
                  then bind_result (at (snake st) 0) (\<lambda>(x, y). Inr (draw_snake_cell x y 0xFFFF00 st)) else Inr st) (\<lambda>st.
     bind_result (draw_number 10 (height st - 30) (score st) (draw_snake_cell (food_x st) (food_y st) 0xFF0000 st)) (\<lambda>st.
       Inr (if game_over st \<noteq> 0
            then let msg = ''GAME OVER! Press ESC'' in
              draw_blocks ((width st - int (length msg) * 8) sdiv 2) (height st sdiv 2) msg 0xFF0000 st
            else st))))"

text \<open>The loop that moves every segment to the place of the one before it.\<close>

definition shift_body :: "int \<Rightarrow> (int \<times> int) list \<Rightarrow> (int \<times> int) list result" where
  "shift_body n ps = for_each (\<lambda>i. move_elem (i - 1) i) (rev [1..n - 1]) ps"

definition move_snake :: "'a sgame_scheme \<Rightarrow> 'a sgame_scheme result" where
  "move_snake st =
     (if game_over st \<noteq> 0 then Inr st
      else bind_result (at (snake st) 0) (\<lambda>(x, y).
        let new_x = swrap (x + dir_x st); new_y = swrap (y + dir_y st) in
        if new_x < 0 \<or> new_x \<ge> grid_w st \<or> new_y < 0 \<or> new_y \<ge> grid_h st then Inr (st\<lparr>game_over := 1\<rparr>)
        else let ate_food = (new_x = food_x st \<and> new_y = food_y st) in
          bind_result
            (if ate_food
             then let st = st\<lparr>snake_len := snake_len st + 1, score := score st + 1\<rparr> in
               bind_result (shift_body (snake_len st) (snake st)) (\<lambda>ps.
               bind_result (put ps 0 (new_x, new_y)) (\<lambda>ps. generate_food (st\<lparr>snake := ps\<rparr>)))
             else bind_result (shift_body (snake_len st) (snake st)) (\<lambda>ps.
               bind_result (put ps 0 (new_x, new_y)) (\<lambda>ps. Inr (st\<lparr>snake := ps\<rparr>)))) (\<lambda>st.
          bind_result (at (snake st) 0) (\<lambda>p.
          bind_result (scan_body (tl (snake st)) (nat (snake_len st - 1)) p) (\<lambda>collision.
            Inr (if collision then st\<lparr>game_over := 1\<rparr> else st))))))"

text \<open>\<open>k\<close> is what \<^verbatim>\<open>keyboard_has_char\<close> and \<^verbatim>\<open>keyboard_getchar\<close> deliver, a character if there is one.\<close>

definition handle_input :: "char option \<Rightarrow> 'a sgame_scheme \<Rightarrow> 'a sgame_scheme" where
  "handle_input k st =
     (case k of
        None \<Rightarrow> st
      | Some c \<Rightarrow>
          if schar c = 0x01 then gamemode_exit st
          else if schar c = 0x48 then (if dir_y st = 0 then st\<lparr>dir_x := 0, dir_y := - 1\<rparr> else st)
          else if schar c = 0x50 then (if dir_y st = 0 then st\<lparr>dir_x := 0, dir_y := 1\<rparr> else st)
          else if schar c = 0x4B then (if dir_x st = 0 then st\<lparr>dir_x := - 1, dir_y := 0\<rparr> else st)
          else if schar c = 0x4D then (if dir_x st = 0 then st\<lparr>dir_x := 1, dir_y := 0\<rparr> else st)
          else st)"

definition snake_init :: "u32 \<Rightarrow> 'a sgame_scheme \<Rightarrow> 'a sgame_scheme result" where
  "snake_init now st = bind_result (init_game now st) draw_game"

text \<open>The loop of \<^verbatim>\<open>snake_run\<close>; each round takes one element of \<open>ks\<close>, what the keyboard has to offer then.\<close>

fun snake_run :: "char option list \<Rightarrow> int \<Rightarrow> 'a sgame_scheme \<Rightarrow> 'a sgame_scheme result" where
  "snake_run ks frame_delay st =
     (if gamemode_active st = 0 then Inr st
      else case ks of
        [] \<Rightarrow> Inl NoEvent
      | k # ks \<Rightarrow>
          let st = handle_input k st; frame_delay = frame_delay + 1 in
          if frame_delay < 8 then snake_run ks frame_delay st
          else bind_result (move_snake st) (\<lambda>st. bind_result (draw_game st) (snake_run ks 0)))"

declare snake_run.simps [simp del]

definition snake_cleanup :: "'a sgame_scheme \<Rightarrow> 'a sgame_scheme result" where
  "snake_cleanup st = Inr (on_gfx (fill_screen 0x00003366) st)"

definition snake_game :: "u32 \<Rightarrow> char option list \<Rightarrow> 'a sgame_scheme game" where
  "snake_game now ks = \<lparr>g_name = ''Snake'', g_init = Some (snake_init now), g_run = Some (snake_run ks 0), g_cleanup = Some snake_cleanup\<rparr>"

definition snake_start :: "u32 \<Rightarrow> char option list \<Rightarrow> 'a sgame_scheme \<Rightarrow> 'a sgame_scheme result" where
  "snake_start now ks st = gamemode_enter (Some (snake_game now ks)) st"

section \<open>The game leaves the heap alone\<close>

lemma kept_upd [simp]:
  "kept (on_gfx f st) = kept st" "kept (st\<lparr>rng_state := a\<rparr>) = kept st" "kept (st\<lparr>width := b\<rparr>) = kept st" "kept (st\<lparr>height := b\<rparr>) = kept st"
  "kept (st\<lparr>cell_size := b\<rparr>) = kept st" "kept (st\<lparr>grid_w := b\<rparr>) = kept st" "kept (st\<lparr>grid_h := b\<rparr>) = kept st" "kept (st\<lparr>snake := c\<rparr>) = kept st"
  "kept (st\<lparr>snake_len := b\<rparr>) = kept st" "kept (st\<lparr>dir_x := b\<rparr>) = kept st" "kept (st\<lparr>dir_y := b\<rparr>) = kept st" "kept (st\<lparr>food_x := b\<rparr>) = kept st"
  "kept (st\<lparr>food_y := b\<rparr>) = kept st" "kept (st\<lparr>score := b\<rparr>) = kept st" "kept (st\<lparr>game_over := b\<rparr>) = kept st" "kept (gamemode_exit st) = kept st"
  by (simp_all add: kept_def on_gfx_def gamemode_exit_def)

text \<open>Everything but the state of the game's own variables.\<close>

lemma kept_draw [simp]:
  "kept (draw_rect x y w h c st) = kept st" "kept (draw_snake_cell x y c st) = kept st" "kept (draw_blocks x y t c st) = kept st"
  "kept (snd (my_rand st)) = kept st" "kept (handle_input k st) = kept st"
  by (simp_all add: draw_rect_def draw_snake_cell_def draw_blocks_def my_rand_def Let_def handle_input_def split: option.splits)

definition spares :: "('r \<Rightarrow> 'a sgame_scheme) \<Rightarrow> 'a sgame_scheme \<Rightarrow> 'r result \<Rightarrow> bool" where
  "spares g st r \<longleftrightarrow> (\<forall>x. r = Inr x \<longrightarrow> kept (g x) = kept st)"

abbreviation spares_heap :: "'a sgame_scheme \<Rightarrow> 'a sgame_scheme result \<Rightarrow> bool" where
  "spares_heap \<equiv> spares (\<lambda>x. x)"

lemma spares_rules:
  "spares g st (Inl e)" "kept (g x) = kept st \<Longrightarrow> spares g st (Inr x)"
  "(c \<Longrightarrow> spares g st a) \<Longrightarrow> (\<not> c \<Longrightarrow> spares g st b) \<Longrightarrow> spares g st (if c then a else b)"
  by (simp_all add: spares_def)

lemma spares_bind:
  "spares h st r \<Longrightarrow> (\<And>x. kept (h x) = kept st \<Longrightarrow> spares g st (f x)) \<Longrightarrow> spares g st (bind_result r f)"
  by (auto simp: spares_def bind_result_Inr_iff)

lemma spares_plain: "(\<And>x. spares g st (f x)) \<Longrightarrow> spares g st (bind_result r f)"
  by (auto simp: spares_def bind_result_Inr_iff)

lemma spares_number: "kept st0 = kept st \<Longrightarrow> spares_heap st (draw_number x y n st0)"
  unfolding draw_number_def by (rule spares_plain) (simp add: spares_rules)

lemma spares_body: "kept st0 = kept st \<Longrightarrow> spares_heap st (draw_body ps n st0)"
  by (induction ps n st0 rule: draw_body.induct) (simp_all add: spares_rules)

lemma spares_draw: "kept st0 = kept st \<Longrightarrow> spares_heap st (draw_game st0)"
  unfolding draw_game_def Let_def case_prod_beta
  by (rule spares_bind [OF spares_body], assumption, rule spares_bind [where h = "\<lambda>x. x"])
    (auto intro!: spares_rules spares_plain [where r = "at a b" for a b] spares_bind [OF spares_number])

lemma spares_random: "kept st0 = kept st \<Longrightarrow> spares snd st (random_food k st0)"
proof (induction k arbitrary: st0)
  case (Suc k)
  show ?case unfolding random_food.simps Let_def case_prod_beta
    by (intro spares_rules spares_plain) (use Suc in \<open>auto intro!: spares_rules(2)\<close>)
qed (simp add: spares_rules)

lemma spares_grid: "kept st0 = kept st \<Longrightarrow> spares_heap st (scan_grid cs st0)"
proof (induction cs st0 rule: scan_grid.induct)
  case (2 x y cs st0)
  then show ?case unfolding scan_grid.simps by (intro spares_plain spares_rules) (auto intro: spares_rules)
qed (simp add: spares_rules)

lemma spares_food: "kept st0 = kept st \<Longrightarrow> spares_heap st (generate_food st0)"
  unfolding generate_food_def case_prod_beta
  by (rule spares_bind [OF spares_random]) (auto intro!: spares_rules spares_grid)

lemma spares_init: "kept st0 = kept st \<Longrightarrow> spares_heap st (init_game now st0)"
  unfolding init_game_def Let_def by (auto intro!: spares_rules spares_bind [OF spares_food])

lemma spares_move: "kept st0 = kept st \<Longrightarrow> spares_heap st (move_snake st0)"
  unfolding move_snake_def Let_def case_prod_beta
  by (intro spares_rules(3) spares_plain [where r = "at a b" for a b] spares_bind [where h = "\<lambda>x. x"])
    (auto intro!: spares_rules spares_food spares_plain [where r = "shift_body a b" for a b] spares_plain [where r = "put a b c" for a b c]
      spares_plain [where r = "at a b" for a b] spares_plain [where r = "scan_body a b c" for a b c])

lemma spares_run: "kept st0 = kept st \<Longrightarrow> spares_heap st (snake_run ks fd st0)"
proof (induction ks arbitrary: fd st0)
  case Nil
  then show ?case by (simp add: snake_run.simps spares_rules)
next
  case (Cons k ks)
  show ?case
    by (subst snake_run.simps)
      (auto simp: Let_def Cons.prems intro!: spares_rules spares_bind [OF spares_move] spares_bind [OF spares_draw] Cons.IH)
qed

interpretation snake_guest: guest "snake_game now ks :: 'a sgame_scheme game" for now ks
proof
  fix st st' :: "'a sgame_scheme"
  assume "play (snake_game now ks) st = Inr st'"
  moreover have "spares_heap st (play (snake_game now ks) st)"
    unfolding play_def call_if_def snake_game_def snake_init_def snake_cleanup_def
    by (auto intro!: spares_rules spares_bind [OF spares_bind [OF spares_init spares_draw]] spares_bind [OF spares_run])
  ultimately show "kept st' = kept st" by (simp add: spares_def)
qed

section \<open>The snake as a list\<close>

definition body :: "'a sgame_scheme \<Rightarrow> (int \<times> int) list" where
  "body st = take (nat (snake_len st)) (snake st)"

definition in_grid :: "'a sgame_scheme \<Rightarrow> int \<times> int \<Rightarrow> bool" where
  "in_grid st p \<longleftrightarrow> 0 \<le> fst p \<and> fst p < grid_w st \<and> 0 \<le> snd p \<and> snd p < grid_h st"

definition snake_ok :: "'a sgame_scheme \<Rightarrow> bool" where
  "snake_ok st \<longleftrightarrow> length (snake st) = 100 \<and> 1 \<le> snake_len st \<and> snake_len st \<le> 100 \<and>
     0 < grid_w st \<and> grid_w st < 2 ^ 31 \<and> 0 < grid_h st \<and> grid_h st < 2 ^ 31 \<and> list_all (in_grid st) (body st) \<and>
     \<bar>dir_x st\<bar> + \<bar>dir_y st\<bar> = 1 \<and> (game_over st = 0 \<longrightarrow> distinct (body st))"

lemma scan_body_set: "n \<le> length ps \<Longrightarrow> scan_body ps n q = Inr (q \<in> set (take n ps))"
  by (induction ps n q rule: scan_body.induct) auto

lemma shift_body_list:
  assumes "1 \<le> n" and "n \<le> int (length ps)"
  shows "shift_body n ps = Inr (ps ! 0 # take (nat n - 1) ps @ drop (nat n) ps)"
proof -
  define d where "d = nat n - 1"
  have d: "n = int d + 1" "d < length ps" "nat n = Suc d" using assms by (auto simp: d_def)
  have "[1..n - 1] = map (\<lambda>i. i + 1) [0..int d - 1]" using upto_shift [of 0 "int d - 1"] by (simp add: d(1))
  then have "shift_body n ps = for_each (\<lambda>i. move_elem i (i + 1)) (rev [0..int d - 1]) ps"
    unfolding shift_body_def by (simp add: rev_map for_each_map)
  also have "\<dots> = Inr (ps ! 0 # take d ps @ drop (d + 1) ps)" using shift_up [of 0 d ps] d(2) by simp
  finally show ?thesis using d by simp
qed

lemma grid_cells_set: "set (grid_cells (grid_w st) (grid_h st)) = {p. in_grid st p}"
  by (auto simp: grid_cells_def in_grid_def)

lemma random_food_ok:
  assumes "nat (snake_len st) \<le> length (snake st)" and "0 < grid_w st" and "0 < grid_h st"
  shows "\<exists>f r x y. random_food k st = Inr (f, st\<lparr>rng_state := r, food_x := x, food_y := y\<rparr>) \<and>
    (f \<longrightarrow> in_grid st (x, y) \<and> (x, y) \<notin> set (body st)) \<and> (\<not> f \<longrightarrow> x = food_x st \<and> y = food_y st)"
proof -
  have "\<exists>f r' x y. random_food k (st\<lparr>rng_state := r\<rparr>) = Inr (f, st\<lparr>rng_state := r', food_x := x, food_y := y\<rparr>) \<and>
    (f \<longrightarrow> in_grid st (x, y) \<and> (x, y) \<notin> set (body st)) \<and> (\<not> f \<longrightarrow> x = food_x st \<and> y = food_y st)" for r
  proof (induction k arbitrary: r)
    case 0
    have "st\<lparr>rng_state := r\<rparr> = st\<lparr>rng_state := r, food_x := food_x st, food_y := food_y st\<rparr>" by simp
    then show ?case unfolding random_food.simps(1) by metis
  next
    case (Suc k)
    define r1 where "r1 = r * 1103515245 + 12345"
    define r2 where "r2 = r1 * 1103515245 + 12345"
    define fx where "fx = uint r1 div 65536 mod 32768 mod grid_w st"
    define fy where "fy = uint r2 div 65536 mod 32768 mod grid_h st"
    have g: "in_grid st (fx, fy)" using assms(2,3) by (simp add: in_grid_def fx_def fy_def)
    have step: "random_food (Suc k) (st\<lparr>rng_state := r\<rparr>) =
        (if (fx, fy) \<in> set (body st) then random_food k (st\<lparr>rng_state := r2\<rparr>)
         else Inr (True, st\<lparr>rng_state := r2, food_x := fx, food_y := fy\<rparr>))"
      using assms scan_body_set [OF assms(1), of "(fx, fy)"]
      by (simp add: my_rand_def Let_def r1_def [symmetric] r2_def [symmetric] fx_def [symmetric] fy_def [symmetric] body_def)
    show ?case
    proof (cases "(fx, fy) \<in> set (body st)")
      case True
      then show ?thesis using Suc.IH [of r2] step by simp
    next
      case False
      then have "random_food (Suc k) (st\<lparr>rng_state := r\<rparr>) = Inr (True, st\<lparr>rng_state := r2, food_x := fx, food_y := fy\<rparr>)" using step by simp
      with g False show ?thesis by blast
    qed
  qed
  from this [of "rng_state st"] show ?thesis by simp
qed

lemma scan_grid_ok:
  assumes "nat (snake_len st) \<le> length (snake st)"
  shows "\<exists>x y. scan_grid cs st = Inr (st\<lparr>food_x := x, food_y := y\<rparr>) \<and> (set cs \<subseteq> set (body st) \<or> (x, y) \<in> set cs - set (body st))"
proof (induction cs)
  case Nil
  have "st = st\<lparr>food_x := food_x st, food_y := food_y st\<rparr>" by simp
  then show ?case unfolding scan_grid.simps by (metis empty_subsetI list.set(1))
next
  case (Cons c cs)
  obtain x y where c: "c = (x, y)" by (cases c)
  have step: "scan_grid (c # cs) st = (if (x, y) \<in> set (body st) then scan_grid cs st else Inr (st\<lparr>food_x := x, food_y := y\<rparr>))"
    using scan_body_set [OF assms, of "(x, y)"] by (simp add: c body_def)
  show ?case
  proof (cases "(x, y) \<in> set (body st)")
    case True
    then show ?thesis using Cons.IH step c by auto
  next
    case False
    then have "scan_grid (c # cs) st = Inr (st\<lparr>food_x := x, food_y := y\<rparr>)" using step by simp
    with False c show ?thesis by (intro exI [of _ x] exI [of _ y]) simp
  qed
qed

lemma generate_food_ok:
  assumes "nat (snake_len st) \<le> length (snake st)" and "0 < grid_w st" and "0 < grid_h st"
  shows "\<exists>r x y. generate_food st = Inr (st\<lparr>rng_state := r, food_x := x, food_y := y\<rparr>) \<and>
    ((\<exists>p. in_grid st p \<and> p \<notin> set (body st)) \<longrightarrow> in_grid st (x, y) \<and> (x, y) \<notin> set (body st))"
proof -
  obtain f r x y where f: "random_food 1000 st = Inr (f, st\<lparr>rng_state := r, food_x := x, food_y := y\<rparr>)"
      "f \<longrightarrow> in_grid st (x, y) \<and> (x, y) \<notin> set (body st)" "\<not> f \<longrightarrow> x = food_x st \<and> y = food_y st"
    using random_food_ok [OF assms, of 1000] by blast
  show ?thesis
  proof (cases f)
    case True
    then have "generate_food st = Inr (st\<lparr>rng_state := r, food_x := x, food_y := y\<rparr>)" using f(1) by (simp add: generate_food_def)
    with True f(2) show ?thesis by blast
  next
    case False
    let ?s = "st\<lparr>rng_state := r, food_x := x, food_y := y\<rparr>"
    have b: "nat (snake_len ?s) \<le> length (snake ?s)" "body ?s = body st" "in_grid ?s = in_grid st"
      using assms(1) by (auto simp: body_def in_grid_def)
    obtain x' y' where g: "scan_grid (grid_cells (grid_w ?s) (grid_h ?s)) ?s = Inr (?s\<lparr>food_x := x', food_y := y'\<rparr>)"
        "{p. in_grid st p} \<subseteq> set (body st) \<or> (x', y') \<in> {p. in_grid st p} - set (body st)"
      using scan_grid_ok [OF b(1), of "grid_cells (grid_w ?s) (grid_h ?s)"] unfolding grid_cells_set b(2,3) by blast
    have "generate_food st = Inr (?s\<lparr>food_x := x', food_y := y'\<rparr>)" using f(1) False g(1) by (simp add: generate_food_def)
    moreover have "?s\<lparr>food_x := x', food_y := y'\<rparr> = st\<lparr>rng_state := r, food_x := x', food_y := y'\<rparr>" by simp
    ultimately show ?thesis using g(2) by (metis (no_types, lifting) DiffE mem_Collect_eq subsetD)
  qed
qed

section \<open>Moves\<close>

text \<open>A move on the list: the head goes one cell further, the tail follows unless the food is eaten.\<close>

definition next_cell :: "'a sgame_scheme \<Rightarrow> int \<times> int" where
  "next_cell st = (fst (hd (body st)) + dir_x st, snd (hd (body st)) + dir_y st)"

definition next_body :: "'a sgame_scheme \<Rightarrow> (int \<times> int) list" where
  "next_body st = next_cell st # (if next_cell st = (food_x st, food_y st) then body st else butlast (body st))"

lemma in_grid_upd [simp]:
  "in_grid (st\<lparr>game_over := a\<rparr>) = in_grid st" "in_grid (st\<lparr>snake := b\<rparr>) = in_grid st" "in_grid (st\<lparr>snake_len := a\<rparr>) = in_grid st"
  "in_grid (st\<lparr>score := a\<rparr>) = in_grid st" "in_grid (st\<lparr>food_x := a\<rparr>) = in_grid st" "in_grid (st\<lparr>food_y := a\<rparr>) = in_grid st"
  "in_grid (st\<lparr>rng_state := c\<rparr>) = in_grid st" "in_grid (st\<lparr>gm_gfx := d\<rparr>) = in_grid st" "in_grid (st\<lparr>game_active := a\<rparr>) = in_grid st"
  "in_grid (st\<lparr>dir_x := a\<rparr>) = in_grid st" "in_grid (st\<lparr>dir_y := a\<rparr>) = in_grid st"
  by (auto simp: in_grid_def)

lemma snake_okD:
  assumes "snake_ok st"
  shows "length (snake st) = 100" "1 \<le> snake_len st" "snake_len st \<le> 100" "length (body st) = nat (snake_len st)" "body st \<noteq> []"
    "hd (body st) = snake st ! 0" "0 < grid_w st" "0 < grid_h st" "in_grid st (hd (body st))"
proof -
  show s: "length (snake st) = 100" "1 \<le> snake_len st" "snake_len st \<le> 100" "0 < grid_w st" "0 < grid_h st"
    using assms by (auto simp: snake_ok_def)
  then show l: "length (body st) = nat (snake_len st)" by (simp add: body_def)
  then show ne: "body st \<noteq> []" using s by auto
  have "snake st \<noteq> []" using s(1) by auto
  then show "hd (body st) = snake st ! 0" using s by (simp add: body_def hd_conv_nth)
  show "in_grid st (hd (body st))" using assms ne by (auto simp: snake_ok_def list_all_iff)
qed

lemma next_cell_small:
  assumes "snake_ok st"
  shows "swrap (fst (snake st ! 0) + dir_x st) = fst (next_cell st)" "swrap (snd (snake st ! 0) + dir_y st) = snd (next_cell st)"
  using assms snake_okD(6,9) [OF assms] by (auto intro!: swrap_id simp: next_cell_def snake_ok_def in_grid_def is_int32_def)

lemma move_form:
  assumes ok: "snake_ok st" and over: "game_over st = 0"
  defines "ate \<equiv> next_cell st = (food_x st, food_y st)"
  defines "n \<equiv> snake_len st + (if ate then 1 else 0)"
  shows "move_snake st = (if \<not> in_grid st (next_cell st) then Inr (st\<lparr>game_over := 1\<rparr>)
    else bind_result (shift_body n (snake st)) (\<lambda>ps. bind_result (put ps 0 (next_cell st)) (\<lambda>ps.
      bind_result (if ate then generate_food (st\<lparr>snake_len := snake_len st + 1, score := score st + 1, snake := ps\<rparr>) else Inr (st\<lparr>snake := ps\<rparr>)) (\<lambda>st.
      bind_result (at (snake st) 0) (\<lambda>p. bind_result (scan_body (tl (snake st)) (nat (snake_len st - 1)) p) (\<lambda>collision.
        Inr (if collision then st\<lparr>game_over := 1\<rparr> else st)))))))"
proof -
  have a: "at (snake st) 0 = Inr (snake st ! 0)" using snake_okD(1) [OF ok] by (simp add: at_def)
  note small = next_cell_small [OF ok]
  have g: "(fst (next_cell st) < 0 \<or> fst (next_cell st) \<ge> grid_w st \<or> snd (next_cell st) < 0 \<or> snd (next_cell st) \<ge> grid_h st) =
      (\<not> in_grid st (next_cell st))" by (auto simp: in_grid_def)
  have e: "(fst (next_cell st) = food_x st \<and> snd (next_cell st) = food_y st) = ate" by (auto simp: ate_def prod_eq_iff)
  have na: "ate \<Longrightarrow> (food_x st, food_y st) = next_cell st" by (simp add: ate_def)
  have assoc: "bind_result (bind_result r f) h = bind_result r (\<lambda>x. bind_result (f x) h)" for r :: "'b result" and f :: "'b \<Rightarrow> 'c result" and h :: "'c \<Rightarrow> 'd result"
    by (cases r) simp_all
  show ?thesis
    by (simp add: move_snake_def over a Let_def case_prod_beta small g e n_def assoc na cong: if_cong)
qed

lemma moved_body:
  assumes ok: "snake_ok st" and n: "snake_len st \<le> n" "n \<le> 100" "n \<le> snake_len st + 1"
  defines "ps \<equiv> next_cell st # take (nat n - 1) (snake st) @ drop (nat n) (snake st)"
  shows "bind_result (shift_body n (snake st)) (\<lambda>ps. put ps 0 (next_cell st)) = Inr ps" "length ps = 100"
    "take (nat n) ps = next_cell st # (if n = snake_len st + 1 then body st else butlast (body st))"
proof -
  note d = snake_okD [OF ok]
  have n': "1 \<le> n" "n \<le> int (length (snake st))" using n d by auto
  show "bind_result (shift_body n (snake st)) (\<lambda>ps. put ps 0 (next_cell st)) = Inr ps"
    by (simp add: shift_body_list [OF n'] ps_def put_def)
  show "length ps = 100" using n' d(1) by (simp add: ps_def)
  have l: "length (take (nat n - 1) (snake st)) = nat n - 1" using n' by simp
  have "take (nat n) ps = next_cell st # take (nat n - 1) (snake st)"
    using n' l by (cases "nat n") (simp_all add: ps_def)
  moreover have "take (nat n - 1) (snake st) = (if n = snake_len st + 1 then body st else butlast (body st))"
  proof (cases "n = snake_len st + 1")
    case True
    then have "nat n - 1 = nat (snake_len st)" using d(2) by simp
    then show ?thesis using True by (simp add: body_def)
  next
    case False
    then have "n = snake_len st" using n by simp
    then show ?thesis using d(1-3) by (simp add: body_def butlast_take)
  qed
  ultimately show "take (nat n) ps = next_cell st # (if n = snake_len st + 1 then body st else butlast (body st))" by simp
qed

lemma next_body_grid:
  assumes "snake_ok st" and "in_grid st (next_cell st)"
  shows "list_all (in_grid st) (next_body st)" "game_over st = 0 \<Longrightarrow> distinct (tl (next_body st))"
proof -
  have "list_all (in_grid st) (body st)" "game_over st = 0 \<Longrightarrow> distinct (body st)" using assms(1) by (auto simp: snake_ok_def)
  then show "list_all (in_grid st) (next_body st)" "game_over st = 0 \<Longrightarrow> distinct (tl (next_body st))"
    using assms(2) by (auto simp: next_body_def list_all_iff distinct_butlast dest: in_set_butlastD)
qed

text \<open>The state after the segments have moved and the food has been replaced.\<close>

lemma moved_state:
  assumes ok: "snake_ok st" and r: "n \<le> 100"
  defines "ate \<equiv> next_cell st = (food_x st, food_y st)"
  assumes n: "n = snake_len st + (if ate then 1 else 0)"
  shows "\<exists>s2. bind_result (shift_body n (snake st)) (\<lambda>ps. bind_result (put ps 0 (next_cell st)) (\<lambda>ps.
      if ate then generate_food (st\<lparr>snake_len := snake_len st + 1, score := score st + 1, snake := ps\<rparr>) else Inr (st\<lparr>snake := ps\<rparr>))) = Inr s2 \<and>
    snake_len s2 = n \<and> length (snake s2) = 100 \<and> body s2 = next_body st \<and> in_grid s2 = in_grid st \<and> grid_w s2 = grid_w st \<and> grid_h s2 = grid_h st \<and>
    dir_x s2 = dir_x st \<and> dir_y s2 = dir_y st \<and> game_over s2 = game_over st \<and>
    (if ate then score s2 = score st + 1 \<and>
       ((\<exists>p. in_grid st p \<and> p \<notin> set (next_body st)) \<longrightarrow> in_grid st (food_x s2, food_y s2) \<and> (food_x s2, food_y s2) \<notin> set (next_body st))
     else score s2 = score st \<and> food_x s2 = food_x st \<and> food_y s2 = food_y st)"
proof -
  note d = snake_okD [OF ok]
  have b: "snake_len st \<le> n" "n \<le> 100" "n \<le> snake_len st + 1" "n = snake_len st + 1 \<longleftrightarrow> ate" using n r by auto
  define ps where "ps = next_cell st # take (nat n - 1) (snake st) @ drop (nat n) (snake st)"
  note m = moved_body [OF ok b(1-3), folded ps_def]
  have nb: "take (nat n) ps = next_body st" using m(3) b(4) by (simp add: next_body_def ate_def)
  obtain qs where qs: "shift_body n (snake st) = Inr qs" "put qs 0 (next_cell st) = Inr ps"
    using m(1) by (auto simp: bind_result_Inr_iff)
  show ?thesis
  proof (cases ate)
    case True
    let ?s = "st\<lparr>snake_len := snake_len st + 1, score := score st + 1, snake := ps\<rparr>"
    have l: "nat (snake_len ?s) \<le> length (snake ?s)" "body ?s = next_body st" "0 < grid_w ?s" "0 < grid_h ?s" "in_grid ?s = in_grid st"
      using n True b(2) m(2) nb d(7,8) by (simp_all add: body_def)
    obtain r x y where f: "generate_food ?s = Inr (?s\<lparr>rng_state := r, food_x := x, food_y := y\<rparr>)"
        "(\<exists>p. in_grid st p \<and> p \<notin> set (next_body st)) \<longrightarrow> in_grid st (x, y) \<and> (x, y) \<notin> set (next_body st)"
      using generate_food_ok [OF l(1,3,4)] unfolding l(2,5) by blast
    then show ?thesis using True qs n m(2) l(2) by (simp add: body_def)
  next
    case False
    then show ?thesis using qs n m(2) nb by (simp add: body_def)
  qed
qed

lemma moved_ok:
  assumes ok: "snake_ok st" and over: "game_over st = 0" and g: "in_grid st (next_cell st)"
    and s2: "length (snake s2) = 100" "snake_len s2 = n" "body s2 = next_body st" "in_grid s2 = in_grid st" "grid_w s2 = grid_w st"
      "grid_h s2 = grid_h st" "dir_x s2 = dir_x st" "dir_y s2 = dir_y st" "1 \<le> n" "n \<le> 100" "game_over s2 = 0"
  defines "c \<equiv> next_cell st \<in> set (tl (next_body st))"
  shows "bind_result (at (snake s2) 0) (\<lambda>p. bind_result (scan_body (tl (snake s2)) (nat (snake_len s2 - 1)) p) (\<lambda>collision.
        Inr (if collision then s2\<lparr>game_over := 1\<rparr> else s2))) = Inr (if c then s2\<lparr>game_over := 1\<rparr> else s2)"
    and "snake_ok (if c then s2\<lparr>game_over := 1\<rparr> else s2)"
proof -
  have b: "take (nat n) (snake s2) = next_body st" using s2(2,3) by (simp add: body_def)
  have h: "snake s2 ! 0 = next_cell st" using b s2(9) nth_take [of 0 "nat n" "snake s2"] by (simp add: next_body_def)
  have t: "take (nat (n - 1)) (tl (snake s2)) = tl (next_body st)"
    using b s2(9) by (cases "snake s2"; cases "nat n") (auto simp: next_body_def nat_diff_distrib)
  have "scan_body (tl (snake s2)) (nat (snake_len s2 - 1)) (next_cell st) = Inr c"
    using scan_body_set [of "nat (n - 1)" "tl (snake s2)" "next_cell st"] s2(1,2,10) t by (simp add: c_def)
  moreover have "at (snake s2) 0 = Inr (next_cell st)" using s2(1) h by (simp add: at_def)
  ultimately show "bind_result (at (snake s2) 0) (\<lambda>p. bind_result (scan_body (tl (snake s2)) (nat (snake_len s2 - 1)) p) (\<lambda>collision.
        Inr (if collision then s2\<lparr>game_over := 1\<rparr> else s2))) = Inr (if c then s2\<lparr>game_over := 1\<rparr> else s2)"
    by simp
  note nb = next_body_grid [OF ok g]
  have "distinct (next_body st)" if "\<not> c" using that nb(2) over by (simp add: c_def next_body_def)
  then show "snake_ok (if c then s2\<lparr>game_over := 1\<rparr> else s2)"
    using ok s2 nb(1) by (simp add: snake_ok_def body_def)
qed

lemma move_list:
  assumes "snake_ok st" and "game_over st = 0"
  shows "if \<not> in_grid st (next_cell st) then move_snake st = Inr (st\<lparr>game_over := 1\<rparr>) \<and> snake_ok (st\<lparr>game_over := 1\<rparr>)
    else if next_cell st = (food_x st, food_y st) \<and> snake_len st = 100 then move_snake st = Inl OutOfBounds
    else \<exists>st'. move_snake st = Inr st' \<and> snake_ok st' \<and> body st' = next_body st \<and>
      (game_over st' \<noteq> 0 \<longleftrightarrow> next_cell st \<in> set (tl (next_body st))) \<and>
      (if next_cell st = (food_x st, food_y st)
       then score st' = score st + 1 \<and>
         ((\<exists>p. in_grid st p \<and> p \<notin> set (next_body st)) \<longrightarrow> in_grid st (food_x st', food_y st') \<and> (food_x st', food_y st') \<notin> set (next_body st))
       else score st' = score st \<and> food_x st' = food_x st \<and> food_y st' = food_y st)"
proof -
  note d = snake_okD [OF assms(1)]
  note form = move_form [OF assms]
  define ate where "ate \<longleftrightarrow> next_cell st = (food_x st, food_y st)"
  define n where "n = snake_len st + (if ate then 1 else 0)"
  have over: "snake_ok (st\<lparr>game_over := 1\<rparr>)" using assms(1) by (simp add: snake_ok_def body_def in_grid_def)
  have full: "move_snake st = Inl OutOfBounds" if "in_grid st (next_cell st)" "ate" "snake_len st = 100"
  proof -
    have "[1..100 :: int] = [1..99] @ [100]" by (simp add: upto_rec2)
    then have "shift_body 101 (snake st) = Inl OutOfBounds" using d(1) by (simp add: shift_body_def move_elem_def at_def put_def)
    then show ?thesis using that form by (simp add: ate_def [symmetric])
  qed
  have move: "\<exists>st'. move_snake st = Inr st' \<and> snake_ok st' \<and> body st' = next_body st \<and>
      (game_over st' \<noteq> 0 \<longleftrightarrow> next_cell st \<in> set (tl (next_body st))) \<and>
      (if ate
       then score st' = score st + 1 \<and>
         ((\<exists>p. in_grid st p \<and> p \<notin> set (next_body st)) \<longrightarrow> in_grid st (food_x st', food_y st') \<and> (food_x st', food_y st') \<notin> set (next_body st))
       else score st' = score st \<and> food_x st' = food_x st \<and> food_y st' = food_y st)"
    if g: "in_grid st (next_cell st)" and r: "\<not> (ate \<and> snake_len st = 100)"
  proof -
    have n: "1 \<le> n" "n \<le> 100" using r d(2,3) by (auto simp: n_def)
    from moved_state [OF assms(1) n(2), folded ate_def, OF n_def] obtain s2 where
      s2: "bind_result (shift_body n (snake st)) (\<lambda>ps. bind_result (put ps 0 (next_cell st)) (\<lambda>ps.
        if ate then generate_food (st\<lparr>snake_len := snake_len st + 1, score := score st + 1, snake := ps\<rparr>) else Inr (st\<lparr>snake := ps\<rparr>))) = Inr s2"
        "snake_len s2 = n" "length (snake s2) = 100" "body s2 = next_body st" "in_grid s2 = in_grid st" "grid_w s2 = grid_w st" "grid_h s2 = grid_h st"
        "dir_x s2 = dir_x st" "dir_y s2 = dir_y st" "game_over s2 = 0"
      and e: "if ate then score s2 = score st + 1 \<and>
         ((\<exists>p. in_grid st p \<and> p \<notin> set (next_body st)) \<longrightarrow> in_grid st (food_x s2, food_y s2) \<and> (food_x s2, food_y s2) \<notin> set (next_body st))
       else score s2 = score st \<and> food_x s2 = food_x st \<and> food_y s2 = food_y st"
      using assms(2) by auto
    note m = moved_ok [OF assms g s2(3,2,4-9) n s2(10)]
    let ?s = "if next_cell st \<in> set (tl (next_body st)) then s2\<lparr>game_over := 1\<rparr> else s2"
    from s2(1) obtain qs ps where q: "shift_body n (snake st) = Inr qs" "put qs 0 (next_cell st) = Inr ps"
        "(if ate then generate_food (st\<lparr>snake_len := snake_len st + 1, score := score st + 1, snake := ps\<rparr>) else Inr (st\<lparr>snake := ps\<rparr>)) = Inr s2"
      unfolding bind_result_Inr_iff by blast
    have "move_snake st = Inr ?s"
      unfolding form [folded ate_def, folded n_def] by (simp only: g q bind_result_simps m(1) simp_thms if_False)
    moreover have "body ?s = next_body st" using s2(4) by (simp add: body_def)
    ultimately show ?thesis using m(2) e s2(10) by (intro exI [of _ ?s]) simp
  qed
  show ?thesis using form over full move by (simp add: ate_def [symmetric])
qed

section \<open>Whole games\<close>

definition game_ok :: "'a sgame_scheme \<Rightarrow> bool" where
  "game_ok st \<longleftrightarrow> snake_ok st \<and> 0 \<le> score st \<and> score st + 3 = snake_len st"

lemma game_ok_upd [simp]:
  "game_ok (st\<lparr>gm_gfx := g\<rparr>) = game_ok st" "game_ok (st\<lparr>game_active := a\<rparr>) = game_ok st"
  by (simp_all add: game_ok_def snake_ok_def body_def)

lemma game_ok_dir: "\<bar>dx\<bar> + \<bar>dy\<bar> = 1 \<Longrightarrow> game_ok st \<Longrightarrow> game_ok (st\<lparr>dir_x := dx, dir_y := dy\<rparr>)"
  by (simp add: game_ok_def snake_ok_def body_def)

lemma game_ok_input: "game_ok st \<Longrightarrow> game_ok (handle_input k st)"
  by (cases k) (simp_all add: handle_input_def gamemode_exit_def game_ok_dir)

lemma game_ok_move:
  assumes ok: "game_ok st"
  shows "(\<exists>st'. move_snake st = Inr st' \<and> game_ok st') \<or> (move_snake st = Inl OutOfBounds \<and> snake_len st = 100 \<and> next_cell st = (food_x st, food_y st))"
proof (cases "game_over st = 0")
  case False
  then show ?thesis using ok by (simp add: move_snake_def)
next
  case True
  have sok: "snake_ok st" using ok by (simp add: game_ok_def)
  have len: "snake_len st' = int (length (body st'))" if "snake_ok st'" for st' :: "'a sgame_scheme"
    using snake_okD(2,4) [OF that] by simp
  consider "\<not> in_grid st (next_cell st)" | "in_grid st (next_cell st)" "next_cell st = (food_x st, food_y st) \<and> snake_len st = 100"
    | "in_grid st (next_cell st)" "\<not> (next_cell st = (food_x st, food_y st) \<and> snake_len st = 100)" by blast
  then show ?thesis
  proof cases
    case 1
    then show ?thesis using move_list [OF sok True] ok by (simp add: game_ok_def)
  next
    case 2
    then show ?thesis using move_list [OF sok True] by simp
  next
    case 3
    then obtain st' where m: "move_snake st = Inr st'" "snake_ok st'" "body st' = next_body st"
        "score st' = score st + (if next_cell st = (food_x st, food_y st) then 1 else 0)"
      using move_list [OF sok True] by (auto split: if_splits)
    have "int (length (next_body st)) = snake_len st + (if next_cell st = (food_x st, food_y st) then 1 else 0)"
      using len [OF sok] snake_okD(5) [OF sok] by (cases "body st" rule: rev_cases) (simp_all add: next_body_def)
    then have "game_ok st'" using m len [OF m(2)] ok by (simp add: game_ok_def)
    with m(1) show ?thesis by blast
  qed
qed

lemma draw_body_gfx: "n \<le> length ps \<Longrightarrow> \<exists>g. draw_body ps n st = Inr (st\<lparr>gm_gfx := g\<rparr>)"
proof (induction ps n st rule: draw_body.induct)
  case (1 ps st)
  have "st = st\<lparr>gm_gfx := gm_gfx st\<rparr>" by simp
  then show ?case unfolding draw_body.simps by blast
next
  case (3 x y ps n st)
  then obtain g where "draw_body ps n (draw_snake_cell x y 0x00FF00 st) = Inr ((draw_snake_cell x y 0x00FF00 st)\<lparr>gm_gfx := g\<rparr>)" by auto
  then show ?case by (auto simp: draw_snake_cell_def draw_rect_def on_gfx_def)
qed simp

lemma draw_number_gfx: "0 \<le> n \<Longrightarrow> n \<le> 100 \<Longrightarrow> \<exists>g. draw_number x y n st = Inr (st\<lparr>gm_gfx := g\<rparr>)"
proof -
  assume n: "0 \<le> n" "n \<le> 100"
  have "length (dec_int n) < 16" using n length_dec_int32 [of n] by simp
  then have "itoa n (replicate 16 NUL) 10 = Inr (blit (replicate 16 NUL) 0 (dec_int n @ [NUL]))"
    using n by (intro itoa_text) simp_all
  then show ?thesis by (auto simp: draw_number_def draw_blocks_def on_gfx_def)
qed

lemma draw_game_gfx:
  assumes "game_ok st"
  shows "\<exists>g. draw_game st = Inr (st\<lparr>gm_gfx := g\<rparr>)"
proof -
  have ok: "length (snake st) = 100" "0 < snake_len st" "snake_len st \<le> 100" "0 \<le> score st" "score st \<le> 100"
    using assms by (auto simp: game_ok_def snake_ok_def)
  obtain g1 where g1: "draw_body (snake st) (nat (snake_len st)) st = Inr (st\<lparr>gm_gfx := g1\<rparr>)"
    using draw_body_gfx [of "nat (snake_len st)" "snake st" st] ok(1) nat_mono [OF ok(3)] by auto
  have a: "at (snake st) 0 = Inr (snake st ! 0)" using ok(1) by (simp add: at_def)
  obtain g2 where g2: "(if game_over (st\<lparr>gm_gfx := g1\<rparr>) = 0 \<and> snake_len (st\<lparr>gm_gfx := g1\<rparr>) > 0
      then bind_result (at (snake (st\<lparr>gm_gfx := g1\<rparr>)) 0) (\<lambda>(x, y). Inr (draw_snake_cell x y 0xFFFF00 (st\<lparr>gm_gfx := g1\<rparr>))) else Inr (st\<lparr>gm_gfx := g1\<rparr>)) =
      Inr (st\<lparr>gm_gfx := g2\<rparr>)"
    using a ok(2) by (cases "game_over st = 0") (auto simp: case_prod_beta draw_snake_cell_def draw_rect_def on_gfx_def)
  let ?s = "draw_snake_cell (food_x (st\<lparr>gm_gfx := g2\<rparr>)) (food_y (st\<lparr>gm_gfx := g2\<rparr>)) 0xFF0000 (st\<lparr>gm_gfx := g2\<rparr>)"
  obtain g3 where g3: "draw_number 10 (height (st\<lparr>gm_gfx := g2\<rparr>) - 30) (score (st\<lparr>gm_gfx := g2\<rparr>)) ?s = Inr (?s\<lparr>gm_gfx := g3\<rparr>)"
    using draw_number_gfx [of "score st"] ok(4,5) by fastforce
  have s: "?s\<lparr>gm_gfx := g3\<rparr> = st\<lparr>gm_gfx := g3\<rparr>" by (simp add: draw_snake_cell_def draw_rect_def on_gfx_def)
  show ?thesis unfolding draw_game_def g1 bind_result_simps g2 g3 s
    by (auto simp: draw_blocks_def on_gfx_def Let_def)
qed

text \<open>
  The loop as a step relation on what is left of the keys, the frame counter and the game: a round in
  which only the key is taken, and one in which the snake moves and the picture is drawn.
\<close>

inductive snake_round :: "char option list \<times> int \<times> 'a sgame_scheme \<Rightarrow> char option list \<times> int \<times> 'a sgame_scheme \<Rightarrow> bool" where
  wait: "gamemode_active st \<noteq> 0 \<Longrightarrow> fd + 1 < 8 \<Longrightarrow> snake_round (k # ks, fd, st) (ks, fd + 1, handle_input k st)"
| move: "gamemode_active st \<noteq> 0 \<Longrightarrow> 8 \<le> fd + 1 \<Longrightarrow> move_snake (handle_input k st) = Inr st' \<Longrightarrow> draw_game st' = Inr st'' \<Longrightarrow>
    snake_round (k # ks, fd, st) (ks, 0, st'')"

text \<open>The run is cut off: the keys run out in a game that is going on.\<close>

definition keys_run_out :: "char option list \<Rightarrow> int \<Rightarrow> 'a sgame_scheme \<Rightarrow> bool" where
  "keys_run_out ks fd st \<longleftrightarrow> (\<exists>fd' s. snake_round\<^sup>*\<^sup>* (ks, fd, st) ([], fd', s) \<and> gamemode_active s \<noteq> 0)"

text \<open>The run reaches a game whose snake has 100 segments and is about to eat.\<close>

definition full_snake_eats :: "char option list \<Rightarrow> int \<Rightarrow> 'a sgame_scheme \<Rightarrow> bool" where
  "full_snake_eats ks fd st \<longleftrightarrow> (\<exists>k ks' fd' s. snake_round\<^sup>*\<^sup>* (ks, fd, st) (k # ks', fd', s) \<and> gamemode_active s \<noteq> 0 \<and> 8 \<le> fd' + 1 \<and>
     snake_len s = 100 \<and> next_cell (handle_input k s) = (food_x s, food_y s) \<and> move_snake (handle_input k s) = Inl OutOfBounds)"

lemma runs_on:
  assumes "snake_round (ks, fd, st) (ks', fd', st')"
  shows "keys_run_out ks' fd' st' \<Longrightarrow> keys_run_out ks fd st" "full_snake_eats ks' fd' st' \<Longrightarrow> full_snake_eats ks fd st"
  unfolding keys_run_out_def full_snake_eats_def using converse_rtranclp_into_rtranclp [of snake_round, OF assms] by blast+

lemma handle_input_fields [simp]:
  "snake_len (handle_input k st) = snake_len st" "food_x (handle_input k st) = food_x st" "food_y (handle_input k st) = food_y st"
  by (simp_all add: handle_input_def gamemode_exit_def split: option.splits)

text \<open>A run ends well, is cut off for lack of keys, or overruns the array with 100 segments.\<close>

lemma run_safe:
  fixes st :: "'a sgame_scheme"
  shows "game_ok st \<Longrightarrow> (\<exists>st'. snake_run ks fd st = Inr st' \<and> game_ok st' \<and> game_active st' = 0) \<or>
    (snake_run ks fd st = Inl NoEvent \<and> keys_run_out ks fd st) \<or> (snake_run ks fd st = Inl OutOfBounds \<and> full_snake_eats ks fd st)"
proof (induction ks arbitrary: fd st)
  case Nil
  then show ?case by (auto simp: snake_run.simps [of "[]"] gamemode_active_def keys_run_out_def)
next
  case (Cons k ks)
  let ?s = "handle_input k st"
  have ok: "game_ok ?s" by (rule game_ok_input [OF Cons.prems])
  consider "gamemode_active st = 0" | "gamemode_active st \<noteq> 0" "fd + 1 < 8" | "gamemode_active st \<noteq> 0" "8 \<le> fd + 1" by linarith
  then show ?case
  proof cases
    case 1
    then show ?thesis using Cons.prems by (simp add: snake_run.simps [of "k # ks"] gamemode_active_def)
  next
    case 2
    then have "snake_run (k # ks) fd st = snake_run ks (fd + 1) ?s" by (simp add: snake_run.simps [of "k # ks"] Let_def)
    then show ?thesis using Cons.IH [OF ok, of "fd + 1"] runs_on [OF snake_round.wait [OF 2]] by auto
  next
    case 3
    then have step: "snake_run (k # ks) fd st = bind_result (move_snake ?s) (\<lambda>st. bind_result (draw_game st) (snake_run ks 0))"
      by (simp add: snake_run.simps [of "k # ks"] Let_def)
    from game_ok_move [OF ok] show ?thesis
    proof
      assume "\<exists>st'. move_snake ?s = Inr st' \<and> game_ok st'"
      then obtain s1 where s1: "move_snake ?s = Inr s1" "game_ok s1" by blast
      obtain g where g: "draw_game s1 = Inr (s1\<lparr>gm_gfx := g\<rparr>)" using draw_game_gfx [OF s1(2)] by blast
      have "snake_run (k # ks) fd st = snake_run ks 0 (s1\<lparr>gm_gfx := g\<rparr>)" using step s1(1) g by simp
      then show ?thesis using Cons.IH [of "s1\<lparr>gm_gfx := g\<rparr>" 0] s1(2) runs_on [OF snake_round.move [OF 3 s1(1) g]] by auto
    next
      assume m: "move_snake ?s = Inl OutOfBounds \<and> snake_len ?s = 100 \<and> next_cell ?s = (food_x ?s, food_y ?s)"
      then have "full_snake_eats (k # ks) fd st" unfolding full_snake_eats_def using 3 by fastforce
      with m show ?thesis using step by simp
    qed
  qed
qed

lemma sdiv_pos: "0 \<le> a \<Longrightarrow> 0 < b \<Longrightarrow> a sdiv b = a div b" for a b :: int
  by (cases "a = 0") (simp_all add: signed_divide_int_def)

lemma init_safe:
  assumes w: "80 \<le> fb_width (gm_gfx st)" "fb_width (gm_gfx st) < 2 ^ 31" and h: "20 \<le> fb_height (gm_gfx st)" "fb_height (gm_gfx st) < 2 ^ 31"
    and len: "length (snake st) = 100"
  shows "\<exists>st'. snake_init now st = Inr st' \<and> game_ok st' \<and> game_active st' = game_active st"
proof -
  define W H where "W = int (fb_width (gm_gfx st))" and "H = int (fb_height (gm_gfx st))"
  define c0 where "c0 = (if W < H then W div 40 else H div 30)"
  define c where "c = (if c0 < 8 then 8 else if c0 > 20 then 20 else c0)"
  have c: "8 \<le> c" "c \<le> 20" by (auto simp: c_def)
  have WH: "80 \<le> W" "20 \<le> H" "swrap W = W" "swrap H = H" "W < 2 ^ 31" "H < 2 ^ 31" using w h by (auto intro!: swrap_id simp: W_def H_def is_int32_def)
  define gw gh where "gw = W div c" and "gh = H div c"
  have "80 div 20 \<le> W div c" "20 div 20 \<le> H div c" using c WH by (intro order_trans [OF zdiv_mono1 zdiv_mono2]; simp)+
  moreover have "W div c \<le> W div 1" "H div c \<le> H div 1" using c WH by (intro zdiv_mono2; simp)+
  ultimately have g: "4 \<le> gw" "1 \<le> gh" "gw < 2 ^ 31" "gh < 2 ^ 31" using WH by (auto simp: gw_def gh_def)
  let ?cells = "(snake st)[0 := (gw div 2, gh div 2), 1 := (gw div 2 - 1, gh div 2), 2 := (gw div 2 - 2, gh div 2)]"
  let ?s = "st\<lparr>width := W, height := H, cell_size := c, grid_w := gw, grid_h := gh, rng_state := now, snake := ?cells, snake_len := 3,
    dir_x := 1, dir_y := 0, score := 0, game_over := 0\<rparr>"
  have t: "take 3 ?cells = [(gw div 2, gh div 2), (gw div 2 - 1, gh div 2), (gw div 2 - 2, gh div 2)]"
    using len by (simp add: numeral_3_eq_3 take_Suc_conv_app_nth nth_list_update)
  have sg: "game_ok ?s" using g len t by (auto simp: game_ok_def snake_ok_def body_def in_grid_def)
  have i: "init_game now st = bind_result (generate_food ?s) (\<lambda>st. Inr (on_gfx (fill_screen 0x000000) st))"
  proof -
    have q: "W < H \<Longrightarrow> W sdiv 40 = c0" "\<not> W < H \<Longrightarrow> H sdiv 30 = c0" "W sdiv c = gw" "H sdiv c = gh" "gw sdiv 2 = gw div 2" "gh sdiv 2 = gh div 2"
      using WH c g by (simp_all add: c0_def gw_def gh_def sdiv_pos)
    consider "c0 < 8" "c = 8" | "\<not> c0 < 8" "\<not> 20 < c0" "c = c0" | "20 < c0" "c = 20" by (auto simp: c_def)
    then show ?thesis
      by cases (use q(3-6) len in \<open>cases "W < H"; simp add: init_game_def Let_def W_def [symmetric] H_def [symmetric] WH(3,4) q(1,2)\<close>)+
  qed
  obtain r x y where f: "generate_food ?s = Inr (?s\<lparr>rng_state := r, food_x := x, food_y := y\<rparr>)"
    using generate_food_ok [of ?s] len g by auto
  have ok: "game_ok (?s\<lparr>rng_state := r, food_x := x, food_y := y\<rparr>)" using sg by (simp add: game_ok_def snake_ok_def body_def)
  let ?t = "on_gfx (fill_screen 0x000000) (?s\<lparr>rng_state := r, food_x := x, food_y := y\<rparr>)"
  have "game_ok ?t" unfolding on_gfx_def using ok by (simp only: game_ok_upd)
  then obtain u where u: "draw_game ?t = Inr (?t\<lparr>gm_gfx := u\<rparr>)" using draw_game_gfx by blast
  have "snake_init now st = Inr (?t\<lparr>gm_gfx := u\<rparr>)" by (simp only: snake_init_def i f bind_result_simps u)
  moreover have "game_ok (?t\<lparr>gm_gfx := u\<rparr>)" using \<open>game_ok ?t\<close> by (simp only: game_ok_upd)
  moreover have "game_active (?t\<lparr>gm_gfx := u\<rparr>) = game_active st" by (simp add: on_gfx_def)
  ultimately show ?thesis by blast
qed

section \<open>Properties\<close>

text \<open>
  C33. A move of the snake is a move on the list of its cells: the head goes one cell in the current
  direction, the tail follows unless the food is eaten, which also adds a point and puts the food on
  a free cell of the grid whenever there is one. The game is over exactly when the head leaves the grid, which
  leaves the snake where it was, or bites the body. The snake stays inside the grid and the array.
  The one exception is eating with 100 segments, which writes behind the array.
\<close>

theorem snake_moves_as_list:
  assumes "snake_ok st" and "game_over st = 0"
  shows "if \<not> in_grid st (next_cell st) then move_snake st = Inr (st\<lparr>game_over := 1\<rparr>) \<and> snake_ok (st\<lparr>game_over := 1\<rparr>)
    else if next_cell st = (food_x st, food_y st) \<and> snake_len st = 100 then move_snake st = Inl OutOfBounds
    else \<exists>st'. move_snake st = Inr st' \<and> snake_ok st' \<and> body st' = next_body st \<and>
      (game_over st' \<noteq> 0 \<longleftrightarrow> next_cell st \<in> set (tl (next_body st))) \<and>
      (if next_cell st = (food_x st, food_y st)
       then score st' = score st + 1 \<and>
         ((\<exists>p. in_grid st p \<and> p \<notin> set (next_body st)) \<longrightarrow> in_grid st (food_x st', food_y st') \<and> (food_x st', food_y st') \<notin> set (next_body st))
       else score st' = score st \<and> food_x st' = food_x st \<and> food_y st' = food_y st)"
  by (rule move_list [OF assms])

definition boot_snake :: sgame where
  "boot_snake = \<lparr>out = [], hmem = hmem (heap_init blank_heap), heap_start_ptr = HEAP_START, heap_ready = 1, gm_gfx = boot_gfx, game_active = 0,
     current_game = None, saved_framebuffer = 0, saved_width = 0, saved_height = 0, saved_pitch = 0, rng_state = 1, width = 0, height = 0,
     cell_size = 16, grid_w = 4, grid_h = 4, snake = [(2, 1), (1, 1), (0, 1)] @ replicate 97 (0, 0), snake_len = 3, dir_x = 1, dir_y = 0,
     food_x = 0, food_y = 0, score = 0, game_over = 0\<rparr>"

theorem snake_moves_as_list_witness:
  "\<exists>st'. move_snake boot_snake = Inr st' \<and> body st' = [(3, 1), (2, 1), (1, 1)] \<and> game_over st' = 0 \<and> score st' = 0"
proof -
  have b: "body boot_snake = [(2, 1), (1, 1), (0, 1)]" by (simp add: body_def boot_snake_def)
  have ok: "snake_ok boot_snake" unfolding snake_ok_def b by (simp add: in_grid_def boot_snake_def)
  have n: "next_cell boot_snake = (3, 1)" "next_body boot_snake = [(3, 1), (2, 1), (1, 1)]"
    by (simp_all add: next_cell_def next_body_def b) (simp_all add: boot_snake_def)
  have g: "in_grid boot_snake (3, 1)" by (simp add: in_grid_def boot_snake_def)
  have o: "game_over boot_snake = 0" "food_x boot_snake = 0" "score boot_snake = 0" by (simp_all add: boot_snake_def)
  from snake_moves_as_list [OF ok o(1)] show ?thesis by (auto simp: n g o split: if_splits)
qed

text \<open>
  C34. A whole game of snake leaves the system as it found it: whatever keys come in, a game that ends
  has given its heap block back and touched no other block, and every cell of the saved picture is
  restored when there was room to save it. Otherwise the game that was set up at the start of this run
  is still going on when its keys have run out, or it reaches, by rounds of this run, a state in which
  a snake of 100 segments is about to eat, and that move leaves the array.
\<close>

theorem snake_leaves_no_trace:
  fixes st :: "'a sgame_scheme"
  assumes "heap_inv st" and "screen_bytes st + 8 \<le> 2 ^ 32" and "80 \<le> fb_width (gm_gfx st)" and "20 \<le> fb_height (gm_gfx st)"
    and "fb_width (gm_gfx st) < 2 ^ 31" and "fb_height (gm_gfx st) < 2 ^ 31" and "length (snake st) = 100"
  shows "\<exists>st1 st2. save_video_state (entered (snake_game now ks) st) = Inr st1 \<and> snake_init now st1 = Inr st2 \<and>
    (case snake_start now ks st of
       Inr st' \<Rightarrow> heap_inv st' \<and> heap_live st' = heap_live st \<and> game_active st' = 0 \<and>
         (\<forall>q t x. (q, t) \<in> heap_live st \<longrightarrow> in_region q t x \<longrightarrow> hmem st' x = hmem st x) \<and>
         (saved_framebuffer st1 \<noteq> 0 \<longrightarrow> (\<forall>i < fb_width (gm_gfx st) * fb_height (gm_gfx st). fb (gm_gfx st') i = fb (gm_gfx st) i))
     | Inl e \<Rightarrow> (e = NoEvent \<and> keys_run_out ks 0 st2) \<or> (e = OutOfBounds \<and> full_snake_eats ks 0 st2))"
proof -
  from snake_guest.picture_kept [OF assms(1,2), of now ks] obtain st1 where s1: "save_video_state (entered (snake_game now ks) st) = Inr st1"
      "gm_gfx st1 = gm_gfx st" "game_active st1 = 1" "gm.more st1 = gm.more st"
    and fin: "\<forall>st2. play (snake_game now ks) st1 = Inr st2 \<longrightarrow> (\<exists>st'. gamemode_enter (Some (snake_game now ks)) st = Inr st' \<and> heap_inv st' \<and>
      heap_live st' = heap_live st \<and> (\<forall>q t x. (q, t) \<in> heap_live st \<longrightarrow> in_region q t x \<longrightarrow> hmem st' x = hmem st x) \<and> game_active st' = 0 \<and>
      fb (gm_gfx st') = (\<lambda>i. if saved_framebuffer st1 \<noteq> 0 \<and> i < screen_bytes st div 4 then fb (gm_gfx st) i else fb (gm_gfx st2) i))"
    by blast
  have "snake st1 = snake st" using s1(4) by (cases st1; cases st) simp
  then have len: "length (snake st1) = 100" using assms(7) by simp
  obtain s2 where s2: "snake_init now st1 = Inr s2" "game_ok s2" using init_safe [of st1 now] assms(3-6) s1(2) len by auto
  have e: "snake_start now ks st = bind_result (bind_result (snake_run ks 0 s2) snake_cleanup) (\<lambda>st. bind_result (restore_video_state st) (\<lambda>st.
      Inr (emit (''Exiting game mode'' @ [NL]) (st\<lparr>game_active := 0, current_game := None\<rparr>))))"
  proof -
    have p: "play (snake_game now ks) st1 = bind_result (snake_run ks 0 s2) snake_cleanup"
      by (simp add: play_def call_if_def snake_game_def s2(1) bind_result_def split: sum.splits)
    show ?thesis unfolding snake_start_def snake_guest.enter_play s1(1) bind_result_simps p ..
  qed
  have d: "screen_bytes st div 4 = fb_width (gm_gfx st) * fb_height (gm_gfx st)" by (simp add: screen_bytes_def)
  from run_safe [OF s2(2), of ks 0] show ?thesis
  proof (elim disjE exE conjE)
    fix s3 assume "snake_run ks 0 s2 = Inr s3"
    then have "play (snake_game now ks) st1 = Inr (on_gfx (fill_screen 0x00003366) s3)"
      by (simp add: play_def call_if_def snake_game_def s2(1) snake_cleanup_def)
    with fin obtain st' where "snake_start now ks st = Inr st'" "heap_inv st'" "heap_live st' = heap_live st" "game_active st' = 0"
        "\<forall>q t x. (q, t) \<in> heap_live st \<longrightarrow> in_region q t x \<longrightarrow> hmem st' x = hmem st x"
        "fb (gm_gfx st') = (\<lambda>i. if saved_framebuffer st1 \<noteq> 0 \<and> i < screen_bytes st div 4 then fb (gm_gfx st) i
          else fb (gm_gfx (on_gfx (fill_screen 0x00003366) s3)) i)"
      unfolding snake_start_def by blast
    then show ?thesis using s1(1) s2(1) d by (intro exI [of _ st1] exI [of _ s2]) simp
  qed (use s1(1) s2(1) e in \<open>intro exI [of _ st1] exI [of _ s2], simp\<close>)+
qed

theorem snake_leaves_no_trace_witness:
  "\<exists>st1 st2. save_video_state (entered (snake_game 7 [Some (CHR 0x01)]) boot_snake) = Inr st1 \<and> snake_init 7 st1 = Inr st2 \<and>
    (case snake_start 7 [Some (CHR 0x01)] boot_snake of
       Inr st' \<Rightarrow> heap_inv st' \<and> heap_live st' = heap_live boot_snake \<and> game_active st' = 0 \<and>
         (\<forall>q t x. (q, t) \<in> heap_live boot_snake \<longrightarrow> in_region q t x \<longrightarrow> hmem st' x = hmem boot_snake x) \<and>
         (saved_framebuffer st1 \<noteq> 0 \<longrightarrow> (\<forall>i < fb_width (gm_gfx boot_snake) * fb_height (gm_gfx boot_snake). fb (gm_gfx st') i = fb (gm_gfx boot_snake) i))
     | Inl e \<Rightarrow> (e = NoEvent \<and> keys_run_out [Some (CHR 0x01)] 0 st2) \<or> (e = OutOfBounds \<and> full_snake_eats [Some (CHR 0x01)] 0 st2))"
proof (rule snake_leaves_no_trace)
  have "heap_same (heap_init blank_heap) boot_snake" by (simp add: heap_same_def boot_snake_def heap_init_def Let_def)
  then show "heap_inv boot_snake" using heap_inv_init heap_same_inv(1) by blast
qed (simp_all add: boot_snake_def screen_bytes_def boot_gfx_def graphics_init_def)

text \<open>
  The keys of the game: the codes it compares with are scancodes, but the keyboard driver delivers
  characters. Of the keys with a meaning of their own only the cursor key up has an effect, and it ends the game; escape does nothing;
  the letters \<^verbatim>\<open>H\<close>, \<^verbatim>\<open>P\<close>, \<^verbatim>\<open>K\<close> and \<^verbatim>\<open>M\<close> steer.
\<close>

lemma snake_keys:
  "game_active (handle_input (Some KEY_UP) st) = 0"
  "handle_input (Some KEY_DOWN) st = st" "handle_input (Some KEY_LEFT) st = st" "handle_input (Some KEY_RIGHT) st = st"
  "handle_input (Some (CHR 0x1B)) st = st"
  "dir_y st = 0 \<Longrightarrow> dir_y (handle_input (Some (CHR ''H'')) st) = - 1 \<and> dir_x (handle_input (Some (CHR ''H'')) st) = 0"
  by (simp_all add: handle_input_def key_codes schar_def gamemode_exit_def)

end
