(* ===== verification/Windows.thy ===== *)
theory Windows
  imports Screen Editor_Text
begin

text \<open>
  The window table of \<^verbatim>\<open>src/brickwm.c\<close>: eight slots with position, title, focus and the functions of
  the program behind the window. Function pointers are values of \<open>app\<close>, the programs that open
  windows. Shown here: a new window takes the lowest free slot and the focus, at most eight exist and
  their number is counted correctly, a click finds the topmost window under it, and after a window
  is closed another one has the focus.
\<close>

section \<open>The table\<close>

datatype app = App_Progman | App_Term | App_Fileman

record window =
  win_px :: int
  win_py :: int
  win_pw :: int
  win_ph :: int
  title :: "char list"
  active :: int
  win_draw :: "app option"
  win_key :: "app option"
  use_count :: int

record wm =
  windows :: "window list"
  window_count :: int
  dragging :: int
  drag_win :: int
  drag_off_x :: int
  drag_off_y :: int
  running :: int

text \<open>The loops over the table that return the first index at which a condition holds.\<close>

fun pick :: "(window \<Rightarrow> bool) \<Rightarrow> nat list \<Rightarrow> window list \<Rightarrow> int" where
  "pick P [] ws = - 1"
| "pick P (i # is) ws = (if P (ws ! i) then int i else pick P is ws)"

definition brickwm_init :: "wm \<Rightarrow> wm" where
  "brickwm_init m = m\<lparr>running := 1, windows := map (\<lambda>w. w\<lparr>use_count := 0, win_draw := None, win_key := None\<rparr>) (windows m), window_count := 0\<rparr>"

text \<open>The title loop copies up to 31 characters and sets the last byte, but no NUL after a short title.\<close>

definition set_title :: "string \<Rightarrow> char list \<Rightarrow> char list" where
  "set_title t old = (blit old 0 (take 31 t))[31 := NUL]"

definition brickwm_create_window :: "string \<Rightarrow> int \<Rightarrow> int \<Rightarrow> int \<Rightarrow> int \<Rightarrow> app option \<Rightarrow> app option \<Rightarrow> wm \<Rightarrow> int \<times> wm" where
  "brickwm_create_window t x y w h draw keypress m =
     (let i = pick (\<lambda>w. use_count w = 0) [0..<8] (windows m) in
      if i = - 1 then (- 1, m)
      else let win = windows m ! nat i;
               win = win\<lparr>win_px := x, win_py := y, win_pw := w, win_ph := h, active := 1, win_draw := draw, win_key := keypress, use_count := 1,
                 title := set_title t (title win)\<rparr>;
               ws = (windows m)[nat i := win];
               ws = map (\<lambda>j. if j \<noteq> nat i then (ws ! j)\<lparr>active := 0\<rparr> else ws ! j) [0..<length ws]
        in (i, m\<lparr>windows := ws, window_count := window_count m + 1\<rparr>))"

fun title_equals :: "string \<Rightarrow> string \<Rightarrow> bool" where
  "title_equals (a # as) (b # bs) = (if a = b then title_equals as bs else False)"
| "title_equals [] [] = True"
| "title_equals _ _ = False"

definition focused_window :: "wm \<Rightarrow> int" where
  "focused_window m =
     (let i = pick (\<lambda>w. use_count w \<noteq> 0 \<and> active w \<noteq> 0 \<and> win_key w \<noteq> None) (rev [0..<8]) (windows m) in
      if i \<noteq> - 1 then i else pick (\<lambda>w. use_count w \<noteq> 0 \<and> win_key w \<noteq> None) (rev [0..<8]) (windows m))"

definition inside :: "int \<Rightarrow> int \<Rightarrow> window \<Rightarrow> bool" where
  "inside x y w \<longleftrightarrow> x \<ge> win_px w \<and> x < swrap (win_px w + win_pw w) \<and> y \<ge> win_py w \<and> y < swrap (win_py w + win_ph w + 20)"

definition find_window_at :: "int \<Rightarrow> int \<Rightarrow> wm \<Rightarrow> int" where
  "find_window_at x y m = pick (\<lambda>w. use_count w \<noteq> 0 \<and> inside x y w) (rev [0..<8]) (windows m)"

definition check_close_click :: "int \<Rightarrow> int \<Rightarrow> window \<Rightarrow> bool" where
  "check_close_click x y w \<longleftrightarrow>
     (let cx = swrap (win_px w + win_pw w - 18); cy = swrap (win_py w + 2)
      in x \<ge> cx \<and> x < swrap (cx + 14) \<and> y \<ge> cy \<and> y < swrap (cy + 14))"

definition check_titlebar_click :: "int \<Rightarrow> int \<Rightarrow> window \<Rightarrow> bool" where
  "check_titlebar_click x y w \<longleftrightarrow> x \<ge> win_px w \<and> x < swrap (win_px w + win_pw w - 18) \<and> y \<ge> win_py w \<and> y < swrap (win_py w + 20)"

definition check_client_click :: "int \<Rightarrow> int \<Rightarrow> window \<Rightarrow> bool" where
  "check_client_click x y w \<longleftrightarrow> x \<ge> win_px w \<and> x < swrap (win_px w + win_pw w) \<and> y \<ge> swrap (win_py w + 20) \<and> y < swrap (win_py w + win_ph w + 20)"

text \<open>\<^verbatim>\<open>brickwm_close_window\<close> up to its redraw; \<open>True\<close> when it gets there.\<close>

definition close_slot :: "int \<Rightarrow> wm \<Rightarrow> bool \<times> wm" where
  "close_slot handle m =
     (if handle < 0 \<or> handle \<ge> 8 then (False, m)
      else if use_count (windows m ! nat handle) = 0 then (False, m)
      else let ws = (windows m)[nat handle := (windows m ! nat handle)\<lparr>use_count := 0, win_draw := None, win_key := None\<rparr>];
               i = pick (\<lambda>w. use_count w \<noteq> 0) (rev [0..<8]) ws;
               ws = (if i = - 1 then ws else ws[nat i := (ws ! nat i)\<lparr>active := 1\<rparr>])
        in (True, m\<lparr>windows := ws, window_count := window_count m - 1\<rparr>))"

definition brickwm_window_count :: "wm \<Rightarrow> int" where
  "brickwm_window_count m = window_count m"

section \<open>The invariant\<close>

definition used :: "window list \<Rightarrow> nat" where
  "used ws = length (filter (\<lambda>w. use_count w \<noteq> 0) ws)"

definition window_ok :: "window \<Rightarrow> bool" where
  "window_ok w \<longleftrightarrow> length (title w) = 32 \<and> title w ! 31 = NUL \<and> (use_count w = 0 \<longrightarrow> win_draw w = None \<and> win_key w = None)"

definition wm_ok :: "wm \<Rightarrow> bool" where
  "wm_ok m \<longleftrightarrow> length (windows m) = 8 \<and> list_all window_ok (windows m) \<and> window_count m = int (used (windows m)) \<and>
     - 1 \<le> drag_win m \<and> drag_win m < 8"

text \<open>The two directions in which the table is searched.\<close>

lemma pick_up:
  "(pick P [k..<n] ws = - 1 \<and> (\<forall>i. k \<le> i \<and> i < n \<longrightarrow> \<not> P (ws ! i))) \<or>
   (\<exists>i. k \<le> i \<and> i < n \<and> pick P [k..<n] ws = int i \<and> P (ws ! i) \<and> (\<forall>j. k \<le> j \<and> j < i \<longrightarrow> \<not> P (ws ! j)))"
proof (induction "n - k" arbitrary: k)
  case (Suc d)
  have k: "k < n" "d = n - Suc k" using Suc.hyps(2) by auto
  show ?case
  proof (cases "P (ws ! k)")
    case True
    then show ?thesis using k(1) by (intro disjI2 exI [of _ k]) (auto simp: upt_conv_Cons)
  next
    case False
    then have e: "pick P [k..<n] ws = pick P [Suc k..<n] ws" using k(1) by (simp add: upt_conv_Cons)
    have "k \<le> i \<longleftrightarrow> i = k \<or> Suc k \<le> i" for i by auto
    then show ?thesis using Suc.hyps(1) [OF k(2)] False unfolding e by (metis Suc_leD)
  qed
qed auto

lemma pick_down:
  "(pick P (rev [0..<n]) ws = - 1 \<and> (\<forall>i<n. \<not> P (ws ! i))) \<or>
   (\<exists>i<n. pick P (rev [0..<n]) ws = int i \<and> P (ws ! i) \<and> (\<forall>j<n. i < j \<longrightarrow> \<not> P (ws ! j)))"
proof (induction n)
  case (Suc n)
  show ?case
  proof (cases "P (ws ! n)")
    case True
    then show ?thesis by (intro disjI2 exI [of _ n]) simp
  next
    case False
    then have e: "pick P (rev [0..<Suc n]) ws = pick P (rev [0..<n]) ws" by simp
    show ?thesis using Suc.IH False unfolding e by (metis less_Suc_eq)
  qed
qed simp

lemma used_update:
  "i < length ws \<Longrightarrow> used (ws[i := w]) + (if use_count (ws ! i) \<noteq> 0 then 1 else 0) = used ws + (if use_count w \<noteq> 0 then 1 else 0)"
proof (induction ws arbitrary: i)
  case (Cons v ws)
  then show ?case by (cases i) (auto simp: used_def)
qed simp

lemma used_cong: "length ws' = length ws \<Longrightarrow> (\<And>i. i < length ws \<Longrightarrow> use_count (ws' ! i) = use_count (ws ! i)) \<Longrightarrow> used ws' = used ws"
  unfolding used_def length_filter_conv_card by (intro arg_cong [where f = card]) auto

lemma set_title_ok:
  assumes "length old = 32"
  shows "length (set_title t old) = 32" "set_title t old ! 31 = NUL"
  using assms by (simp_all add: set_title_def)

lemma set_title_text:
  assumes "length old = 32" and "old ! 31 = NUL" and "nul_free t" and "length t \<le> 31"
  shows "cstr (set_title t old) = t @ cstr (drop (length t) old)"
proof -
  have "blit old 0 t = t @ drop (length t) old" using assms by (simp add: blit_0)
  moreover have "(t @ drop (length t) old)[31 := NUL] = t @ drop (length t) old"
  proof -
    have "(t @ drop (length t) old) ! 31 = NUL" using assms by (simp add: nth_append)
    then show ?thesis by (metis list_update_id)
  qed
  ultimately have "set_title t old = t @ drop (length t) old" using assms(4) by (simp add: set_title_def)
  then show ?thesis using assms(3) by (simp add: cstr_def nul_free_def) (subst takeWhile_append2; auto)
qed

lemma title_equals_iff: "title_equals a b \<longleftrightarrow> a = b"
  by (induction a b rule: title_equals.induct) auto

section \<open>Opening and closing\<close>

definition new_window :: "string \<Rightarrow> int \<Rightarrow> int \<Rightarrow> int \<Rightarrow> int \<Rightarrow> app option \<Rightarrow> app option \<Rightarrow> window \<Rightarrow> window" where
  "new_window t x y w h draw keypress old = old\<lparr>win_px := x, win_py := y, win_pw := w, win_ph := h, active := 1, win_draw := draw,
     win_key := keypress, use_count := 1, title := set_title t (title old)\<rparr>"

lemma create_spec:
  assumes ok: "wm_ok m" and c: "brickwm_create_window t x y w h draw keypress m = (i, m')"
  shows "wm_ok m' \<and> (if used (windows m) = 8 then i = - 1 \<and> m' = m
    else \<exists>k<8. i = int k \<and> use_count (windows m ! k) = 0 \<and> (\<forall>j<k. use_count (windows m ! j) \<noteq> 0) \<and>
      windows m' ! k = new_window t x y w h draw keypress (windows m ! k) \<and>
      (\<forall>j<8. j \<noteq> k \<longrightarrow> windows m' ! j = (windows m ! j)\<lparr>active := 0\<rparr>) \<and> window_count m' = window_count m + 1 \<and>
      m' = m\<lparr>windows := windows m', window_count := window_count m'\<rparr>)"
proof -
  have len: "length (windows m) = 8" and wok: "\<And>j. j < 8 \<Longrightarrow> window_ok (windows m ! j)" using ok by (auto simp: wm_ok_def list_all_length)
  consider "pick (\<lambda>w. use_count w = 0) [0..<8] (windows m) = - 1" "\<forall>j<8. use_count (windows m ! j) \<noteq> 0"
    | k where "k < 8" "pick (\<lambda>w. use_count w = 0) [0..<8] (windows m) = int k" "use_count (windows m ! k) = 0" "\<forall>j<k. use_count (windows m ! j) \<noteq> 0"
    using pick_up [of "\<lambda>w. use_count w = 0" 0 8 "windows m"] by auto
  then show ?thesis
  proof cases
    case 1
    have "used (windows m) = 8" using 1(2) len by (simp add: used_def length_filter_conv_card) (subst Collect_cong [where Q = "\<lambda>i. i < 8"]; auto)
    then show ?thesis using c ok 1(1) by (simp add: brickwm_create_window_def)
  next
    case 2
    define ws where "ws = (windows m)[k := new_window t x y w h draw keypress (windows m ! k)]"
    define ws' where "ws' = map (\<lambda>j. if j \<noteq> k then (ws ! j)\<lparr>active := 0\<rparr> else ws ! j) [0..<8]"
    have m': "i = int k" "m' = m\<lparr>windows := ws', window_count := window_count m + 1\<rparr>"
      using c 2(2) len unfolding ws'_def ws_def new_window_def by (auto simp: brickwm_create_window_def Let_def)
    have n: "ws' ! j = (if j = k then new_window t x y w h draw keypress (windows m ! k) else (windows m ! j)\<lparr>active := 0\<rparr>)" if "j < 8" for j
      using that len by (simp add: ws'_def ws_def)
    have "used ws' = used ws" by (rule used_cong) (use len n in \<open>auto simp: ws_def ws'_def nth_list_update\<close>)
    moreover have u: "used ws = used (windows m) + 1" using used_update [of k "windows m"] 2(1,3) len by (simp add: ws_def new_window_def)
    ultimately have cnt: "used ws' = used (windows m) + 1" by simp
    have "used (windows m) < 8"
      using length_filter_less [of "windows m ! k" "windows m" "\<lambda>w. use_count w \<noteq> 0"] 2(1,3) len by (simp add: used_def)
    moreover have "window_ok (ws' ! j)" if "j < 8" for j
      using wok [OF that] wok [OF 2(1)] n [OF that] by (auto simp: window_ok_def new_window_def set_title_ok)
    then have "wm_ok m'" using ok cnt by (simp add: wm_ok_def m'(2) list_all_length) (simp add: ws'_def)
    ultimately show ?thesis using 2 n m' by auto
  qed
qed

lemma close_spec:
  assumes ok: "wm_ok m" and c: "close_slot handle m = (closed, m')"
  shows "wm_ok m' \<and> (closed \<longleftrightarrow> 0 \<le> handle \<and> handle < 8 \<and> use_count (windows m ! nat handle) \<noteq> 0) \<and> (\<not> closed \<longrightarrow> m' = m) \<and>
    (closed \<longrightarrow> use_count (windows m' ! nat handle) = 0 \<and> window_count m' = window_count m - 1 \<and>
      (\<forall>j<8. j \<noteq> nat handle \<longrightarrow> use_count (windows m' ! j) = use_count (windows m ! j) \<and> win_key (windows m' ! j) = win_key (windows m ! j)) \<and>
      (0 < used (windows m') \<longrightarrow> (\<exists>j<8. use_count (windows m' ! j) \<noteq> 0 \<and> active (windows m' ! j) = 1)))"
proof (cases "0 \<le> handle \<and> handle < 8 \<and> use_count (windows m ! nat handle) \<noteq> 0")
  case False
  then show ?thesis using c ok by (auto simp: close_slot_def split: if_splits)
next
  case True
  have len: "length (windows m) = 8" and wok: "\<And>j. j < 8 \<Longrightarrow> window_ok (windows m ! j)" using ok by (auto simp: wm_ok_def list_all_length)
  define k where "k = nat handle"
  have k: "k < 8" "use_count (windows m ! k) \<noteq> 0" using True by (auto simp: k_def)
  define ws where "ws = (windows m)[k := (windows m ! k)\<lparr>use_count := 0, win_draw := None, win_key := None\<rparr>]"
  define i where "i = pick (\<lambda>w. use_count w \<noteq> 0) (rev [0..<8]) ws"
  define ws' where "ws' = (if i = - 1 then ws else ws[nat i := (ws ! nat i)\<lparr>active := 1\<rparr>])"
  have m': "closed" "m' = m\<lparr>windows := ws', window_count := window_count m - 1\<rparr>"
    using c True unfolding ws'_def i_def ws_def k_def by (auto simp: close_slot_def Let_def)
  have l: "length ws = 8" "length ws' = 8" using len by (simp_all add: ws_def ws'_def)
  have f: "use_count (ws' ! j) = use_count (ws ! j) \<and> win_key (ws' ! j) = win_key (ws ! j) \<and> win_draw (ws' ! j) = win_draw (ws ! j) \<and> title (ws' ! j) = title (ws ! j)"
    if "j < 8" for j using that l by (cases "j = nat i") (simp_all add: ws'_def)
  have wn: "ws ! j = (if j = k then (windows m ! k)\<lparr>use_count := 0, win_draw := None, win_key := None\<rparr> else windows m ! j)" if "j < 8" for j
    using that len by (simp add: ws_def)
  have "used ws' = used ws" by (rule used_cong) (use f l in auto)
  moreover have "used ws + 1 = used (windows m)" using used_update [of k "windows m"] k len by (simp add: ws_def)
  ultimately have cnt: "used ws' + 1 = used (windows m)" by simp
  have focus: "\<exists>j<8. use_count (ws' ! j) \<noteq> 0 \<and> active (ws' ! j) = 1" if pos: "0 < used ws'"
  proof -
    have "used ws > 0" using pos \<open>used ws' = used ws\<close> by simp
    then have "\<exists>j<8. use_count (ws ! j) \<noteq> 0" using l(1) unfolding used_def length_greater_0_conv filter_empty_conv by (metis in_set_conv_nth)
    then obtain j where "j < 8" "i = int j" "use_count (ws ! j) \<noteq> 0"
      using pick_down [of "\<lambda>w. use_count w \<noteq> 0" 8 ws] by (auto simp: i_def)
    then show ?thesis using f [of j] l by (intro exI [of _ j]) (simp add: ws'_def)
  qed
  have "window_ok (ws' ! j)" if "j < 8" for j using wok [OF that] f [OF that] wn [OF that] by (auto simp: window_ok_def)
  then have "wm_ok m'" using ok l cnt by (auto simp: wm_ok_def m'(2) list_all_length)
  moreover have "use_count (ws' ! k) = 0" using f [OF k(1)] wn [OF k(1)] by simp
  ultimately show ?thesis using True m' f wn focus by (auto simp: k_def)
qed

lemma create_focus:
  assumes ok: "wm_ok m" and c: "brickwm_create_window t x y w h draw keypress m = (i, m')" and i: "i \<noteq> - 1" and key: "keypress \<noteq> None"
  shows "focused_window m' = i"
proof -
  obtain k where k: "k < 8" "i = int k" "windows m' ! k = new_window t x y w h draw keypress (windows m ! k)"
      "\<forall>j<8. j \<noteq> k \<longrightarrow> windows m' ! j = (windows m ! j)\<lparr>active := 0\<rparr>"
    using create_spec [OF ok c] i by (auto split: if_splits)
  let ?P = "\<lambda>w. use_count w \<noteq> 0 \<and> active w \<noteq> 0 \<and> win_key w \<noteq> None"
  have "?P (windows m' ! j) \<longleftrightarrow> j = k" if "j < 8" for j using k key that by (cases "j = k") (auto simp: new_window_def)
  then have "pick ?P (rev [0..<8]) (windows m') = int k" using pick_down [of ?P 8 "windows m'"] k(1) by auto
  then show ?thesis using k(2) by (simp add: focused_window_def Let_def)
qed

text \<open>
  Opening a window: unless all eight slots are taken, the lowest free one becomes the window, the
  number of windows goes up by one, every other window keeps its place and loses the focus, and a
  program that takes keys gets them from now on. The title is the given one followed by what the
  slot's previous title had behind it, since no terminator is written.
\<close>

theorem window_opens:
  assumes "wm_ok m" and "brickwm_create_window t x y w h draw keypress m = (i, m')" and "nul_free t" and "length t \<le> 31"
  shows "wm_ok m' \<and> (if used (windows m) = 8 then i = - 1 \<and> m' = m
    else \<exists>k<8. i = int k \<and> use_count (windows m ! k) = 0 \<and> (\<forall>j<k. use_count (windows m ! j) \<noteq> 0) \<and>
      windows m' ! k = new_window t x y w h draw keypress (windows m ! k) \<and>
      cstr (title (windows m' ! k)) = t @ cstr (drop (length t) (title (windows m ! k))) \<and>
      (\<forall>j<8. j \<noteq> k \<longrightarrow> windows m' ! j = (windows m ! j)\<lparr>active := 0\<rparr>) \<and> window_count m' = window_count m + 1 \<and>
      (keypress \<noteq> None \<longrightarrow> focused_window m' = i))"
proof (cases "used (windows m) = 8")
  case True
  then show ?thesis using create_spec [OF assms(1,2)] assms(1) by auto
next
  case False
  with create_spec [OF assms(1,2)] obtain k where k: "wm_ok m'" "k < 8" "i = int k" "use_count (windows m ! k) = 0"
      "\<forall>j<k. use_count (windows m ! j) \<noteq> 0" "windows m' ! k = new_window t x y w h draw keypress (windows m ! k)"
      "\<forall>j<8. j \<noteq> k \<longrightarrow> windows m' ! j = (windows m ! j)\<lparr>active := 0\<rparr>" "window_count m' = window_count m + 1"
    by auto
  have "window_ok (windows m ! k)" using assms(1) k(2) by (simp add: wm_ok_def list_all_length)
  then have "cstr (title (windows m' ! k)) = t @ cstr (drop (length t) (title (windows m ! k)))"
    using set_title_text assms(3,4) by (simp add: k(6) new_window_def window_ok_def)
  then show ?thesis using False k create_focus [OF assms(1,2)] by auto
qed

definition boot_wm :: wm where
  "boot_wm = \<lparr>windows = replicate 8 \<lparr>win_px = 0, win_py = 0, win_pw = 0, win_ph = 0, title = replicate 32 NUL, active = 0, win_draw = None,
     win_key = None, use_count = 0\<rparr>, window_count = 0, dragging = 0, drag_win = - 1, drag_off_x = 0, drag_off_y = 0, running = 1\<rparr>"

lemma boot_wm_ok: "wm_ok boot_wm"
  by (simp add: wm_ok_def boot_wm_def window_ok_def used_def list_all_iff)

theorem window_opens_witness:
  "\<exists>m'. brickwm_create_window ''Terminal'' 150 100 500 350 (Some App_Term) (Some App_Term) boot_wm = (0, m') \<and> wm_ok m' \<and>
     focused_window m' = 0 \<and> window_count m' = 1"
proof -
  obtain i m' where c: "brickwm_create_window ''Terminal'' 150 100 500 350 (Some App_Term) (Some App_Term) boot_wm = (i, m')"
    by (cases "brickwm_create_window ''Terminal'' 150 100 500 350 (Some App_Term) (Some App_Term) boot_wm")
  have "i = 0" using c by (simp add: brickwm_create_window_def boot_wm_def upt_rec Let_def)
  have n: "nul_free ''Terminal''" "length ''Terminal'' \<le> 31" by (simp_all add: NUL_def)
  have u: "used (windows boot_wm) \<noteq> 8" "window_count boot_wm = 0" by (simp_all add: used_def boot_wm_def)
  from window_opens [OF boot_wm_ok c n] have "wm_ok m'" "focused_window m' = i" "window_count m' = 1" using u by auto
  with c \<open>i = 0\<close> show ?thesis by auto
qed

text \<open>
  A second window in the slot of a longer title: after \<^verbatim>\<open>Program Manager\<close>, \<^verbatim>\<open>Terminal\<close> is shown as
  \<^verbatim>\<open>TerminalManager\<close>.
\<close>

lemma stale_title: "cstr (set_title ''Terminal'' (''Program Manager'' @ replicate 17 NUL)) = ''TerminalManager''"
proof -
  have "cstr (set_title ''Terminal'' (''Program Manager'' @ replicate 17 NUL)) =
      ''Terminal'' @ cstr (drop (length ''Terminal'') (''Program Manager'' @ replicate 17 NUL))"
    by (rule set_title_text) (simp_all add: nth_append NUL_def)
  then show ?thesis by (simp add: cstr_def NUL_def)
qed

section \<open>Pictures\<close>

text \<open>
  What the programs behind the windows draw: \<open>drawn g0 g\<close> says that \<open>g\<close> came from \<open>g0\<close> by clipped drawing,
  \<open>paints g0 r\<close> that a computation ends without a fault in such a picture.
\<close>

definition drawn :: "gfx \<Rightarrow> gfx \<Rightarrow> bool" where
  "drawn g0 g \<longleftrightarrow> gfx_ok g \<and> clipped g0 g"

definition paints :: "gfx \<Rightarrow> gfx result \<Rightarrow> bool" where
  "paints g0 r \<longleftrightarrow> (\<exists>g. r = Inr g \<and> drawn g0 g)"

named_theorems drawn_rules "clipped drawing"

lemma drawn_step: "painter paint \<Longrightarrow> drawn g0 g \<Longrightarrow> drawn g0 (paint a g)"
  using painter.paint_clipped [of paint g a] by (auto simp: drawn_def intro: clipped_trans gfx_ok_clipped)

lemma drawn_refl [drawn_rules]: "gfx_ok g \<Longrightarrow> drawn g g"
  by (simp add: drawn_def)

lemma drawn_prims [drawn_rules]:
  assumes "drawn g0 g"
  shows "drawn g0 (fill_rect x y w h c g)" "drawn g0 (draw_rect_outline x y w h c g)" "drawn g0 (font_draw_string fn x y s fg bg g)"
    "drawn g0 (font_draw_char fn x y ch fg bg g)" "drawn g0 (fill_screen c g)"
  using drawn_step [OF rect.painter_axioms assms, of "(x, y, w, h, c)"] drawn_step [OF outline.painter_axioms assms, of "(x, y, w, h, c)"]
    drawn_step [OF str.painter_axioms assms, of "(fn, x, y, s, fg, bg)"] drawn_step [OF glyph.painter_axioms assms, of "(fn, x, y, ch, fg, bg)"]
    drawn_step [OF rect.painter_axioms assms, of "(0, 0, swrap (int (fb_width g)), swrap (int (fb_height g)), c)"]
  by (simp_all add: fill_screen_def)

lemma drawn_fold: "(\<And>a g. drawn g0 g \<Longrightarrow> drawn g0 (f a g)) \<Longrightarrow> drawn g0 g \<Longrightarrow> drawn g0 (fold f xs g)"
  by (induction xs arbitrary: g) auto

lemma paints_rules [drawn_rules]:
  "drawn g0 g \<Longrightarrow> paints g0 (Inr g)"
  "paints g0 r \<Longrightarrow> (\<And>g. drawn g0 g \<Longrightarrow> paints g0 (f g)) \<Longrightarrow> paints g0 (bind_result r f)"
  "(c \<Longrightarrow> paints g0 a) \<Longrightarrow> (\<not> c \<Longrightarrow> paints g0 b) \<Longrightarrow> paints g0 (if c then a else b)"
  by (auto simp: paints_def)

lemma paints_each:
  "(\<And>a g. a \<in> set xs \<Longrightarrow> drawn g0 g \<Longrightarrow> paints g0 (f a g)) \<Longrightarrow> drawn g0 g \<Longrightarrow> paints g0 (for_each f xs g)"
proof (induction xs arbitrary: g)
  case (Cons a xs)
  have "paints g0 (f a g)" by (rule Cons.prems(1) [OF _ Cons.prems(2)]) simp
  then obtain g1 where "f a g = Inr g1" "drawn g0 g1" by (auto simp: paints_def)
  then show ?case using Cons.IH [of g1] Cons.prems(1) by simp
qed (simp add: paints_def)

end
