(* ===== verification/Fileman.thy ===== *)
theory Fileman
  imports Windows Diskfs_Dir "HOL-Library.Signed_Division"
begin

text \<open>
  The file manager of \<^verbatim>\<open>src/fileman.c\<close>: a list of the current directory with a selection, keys that
  open, create, delete and rename entries, and its drawing. Shown here: the list is the directory
  after every key, the selection and the scroll position stay inside it, renaming moves the contents
  to the new name, a rename to a shorter name can write outside the file table, and drawing never
  leaves its local arrays or the framebuffer.
\<close>

section \<open>State\<close>

record fm =
  fm_entries :: "fentry list"
  entry_count :: int
  selected :: int
  scroll_off :: int
  fm_x :: int
  fm_y :: int
  fm_w :: int
  fm_h :: int
  fm_handle :: int
  input_mode :: int
  input_buf :: "char list"
  input_len :: int

definition refresh_entries :: "fm \<Rightarrow> ('d, 'a) fsys_scheme \<Rightarrow> fm result" where
  "refresh_entries fm st =
     bind_result (diskfs_get_entries (fm_entries fm) 128 st) (\<lambda>(n, es).
       Inr (fm\<lparr>fm_entries := es, entry_count := int n, selected := 0, scroll_off := 0\<rparr>))"

section \<open>Drawing\<close>

definition toolbar_buttons :: "(string \<times> int) list" where
  "toolbar_buttons = [(''[New File]'', 4), (''[New Dir]'', 84), (''[Delete]'', 164), (''[Rename]'', 234)]"

definition draw_toolbar :: "font \<Rightarrow> int \<Rightarrow> int \<Rightarrow> int \<Rightarrow> gfx \<Rightarrow> gfx" where
  "draw_toolbar fn x y w g =
     fold (\<lambda>(label, bx) g. font_draw_string fn (swrap (x + bx)) (swrap (y + 6)) label 0x00AACCFF 0x00111122 g)
       toolbar_buttons (fill_rect x y w 24 0x00111122 g)"

text \<open>The status line is assembled in a local \<^verbatim>\<open>char status[128]\<close>, the number in \<^verbatim>\<open>char numbuf[16]\<close>.\<close>

definition status_text :: "fm \<Rightarrow> string result" where
  "status_text fm =
     bind_result (itoa (entry_count fm) (replicate 16 NUL) 10) (\<lambda>numbuf.
     bind_result (row_text numbuf) (\<lambda>num.
     bind_result (if entry_count fm > 0 then bind_result (at (fm_entries fm) (selected fm)) (\<lambda>e. row_text (ename e)) else Inr ''(none)'') (\<lambda>selname.
       let status = ''  '' @ num @ '' items   Selected: '' @ selname in
       if 128 \<le> length status then Inl OutOfBounds else Inr status)))"

definition draw_fm_status :: "font \<Rightarrow> int \<Rightarrow> int \<Rightarrow> int \<Rightarrow> int \<Rightarrow> fm \<Rightarrow> gfx \<Rightarrow> gfx result" where
  "draw_fm_status fn x y w h fm g =
     bind_result (status_text fm) (\<lambda>status.
       Inr (font_draw_string fn (swrap (x + 4)) (swrap (y + h - 14)) status 0x00778899 0x00111122
         (fill_rect x (swrap (y + h - 18)) w 18 0x00111122 g)))"

definition row_colour :: "int \<Rightarrow> fm \<Rightarrow> u32" where
  "row_colour i fm = (if i + scroll_off fm = selected fm then 0x000F3460 else if i mod 2 = 0 then 0x001A1A2E else 0x00151528)"

text \<open>The size of a file, in a local \<^verbatim>\<open>char sizebuf[16]\<close>.\<close>

definition size_text :: "int \<Rightarrow> string result" where
  "size_text sz =
     bind_result (itoa sz (replicate 16 NUL) 10) (\<lambda>buf.
     bind_result (strlen buf) (\<lambda>sl.
     bind_result (put buf (int sl) (CHR '' '')) (\<lambda>buf.
     bind_result (put buf (int sl + 1) (CHR ''B'')) (\<lambda>buf.
     bind_result (put buf (int sl + 2) NUL) row_text))))"

definition draw_entry :: "font \<Rightarrow> int \<Rightarrow> int \<Rightarrow> int \<Rightarrow> fm \<Rightarrow> int \<Rightarrow> gfx \<Rightarrow> gfx result" where
  "draw_entry fn x list_y w fm i g =
     (let ey = swrap (list_y + i * 18);
          bg = row_colour i fm;
          g = fill_rect (swrap (x + 1)) ey (swrap (w - 2)) 18 bg g
      in bind_result (at (fm_entries fm) (i + scroll_off fm)) (\<lambda>e.
         bind_result (row_text (ename e)) (\<lambda>name.
           let col = (if tt (eis_dir e) then 0x004488FF else 0x00CCCCCC);
               icon = (if tt (eis_dir e) then ''[D] '' else ''[F] '');
               g = font_draw_string fn (swrap (x + 8)) (swrap (ey + 3)) icon col bg g;
               g = font_draw_string fn (swrap (x + 40)) (swrap (ey + 3)) name col bg g
           in if tt (eis_dir e) then Inr g
              else bind_result (size_text (esize e)) (\<lambda>s.
                Inr (font_draw_string fn (swrap (x + w - 70)) (swrap (ey + 3)) s 0x00556677 bg g)))))"

definition draw_prompt :: "font \<Rightarrow> int \<Rightarrow> int \<Rightarrow> int \<Rightarrow> fm \<Rightarrow> gfx \<Rightarrow> gfx result" where
  "draw_prompt fn x py w fm g =
     (let prompt = (if input_mode fm = 1 then ''New file name: '' else if input_mode fm = 2 then ''New dir name:  '' else ''Rename to:     '');
          g = fill_rect x py w 20 0x00223344 g;
          g = font_draw_string fn (swrap (x + 4)) (swrap (py + 4)) prompt 0x00FFCC00 0x00223344 g
      in bind_result (row_text (input_buf fm)) (\<lambda>s.
           Inr (font_draw_string fn (swrap (x + 130 + int (length s) * 8)) (swrap (py + 4)) ''_'' 0x00FFCC00 0x00223344
             (font_draw_string fn (swrap (x + 130)) (swrap (py + 4)) s 0x00FFFFFF 0x00223344 g))))"

definition fileman_draw :: "font \<Rightarrow> int \<Rightarrow> int \<Rightarrow> int \<Rightarrow> int \<Rightarrow> fm \<Rightarrow> gfx \<Rightarrow> (fm \<times> gfx) result" where
  "fileman_draw fn x y w h fm g =
     (let fm = fm\<lparr>fm_x := x, fm_y := y, fm_w := w, fm_h := h\<rparr>;
          g = draw_toolbar fn x y w (fill_rect x y w h 0x001A1A2E g);
          list_y = swrap (y + 26);
          list_h = swrap (h - 44);
          vis = list_h sdiv 18;
          g = draw_rect_outline x list_y w list_h 0x00334466 g
      in bind_result (for_each (draw_entry fn x list_y w fm) [0..min vis (entry_count fm - scroll_off fm) - 1] g) (\<lambda>g.
         bind_result (if tt (input_mode fm) then draw_prompt fn x (swrap (list_y + list_h - 20)) w fm g else Inr g) (\<lambda>g.
         bind_result (draw_fm_status fn x y w h fm g) (\<lambda>g. Inr (fm, g)))))"

section \<open>Keys\<close>

text \<open>The rename branch; \<open>junk\<close> is what the uninitialised \<^verbatim>\<open>char buf[8192]\<close> holds.\<close>

definition rename_entry :: "'d bus \<Rightarrow> char list \<Rightarrow> fentry \<Rightarrow> string \<Rightarrow> ('d, 'a) fsys_scheme \<Rightarrow> ('d, 'a) fsys_scheme result" where
  "rename_entry bus junk e new st =
     (if tt (eis_dir e) then Inr st
      else bind_result (fs_read (cstr (ename e)) junk 8192 st) (\<lambda>(bytes, buf, st).
        let st = snd (fs_delete bus (cstr (ename e)) st) in
        if bytes > 0 then bind_result (fs_write bus new buf bytes st) (\<lambda>(r, st). Inr st)
        else Inr (snd (fs_create bus new st))))"

definition submit_op :: "'d bus \<Rightarrow> char list \<Rightarrow> fm \<Rightarrow> string \<Rightarrow> ('d, 'a) fsys_scheme \<Rightarrow> ('d, 'a) fsys_scheme result" where
  "submit_op bus junk fm new st =
     (if input_len fm > 0 then
        if input_mode fm = 1 then Inr (snd (fs_create bus new st))
        else if input_mode fm = 2 then Inr (snd (fs_mkdir bus new st))
        else if input_mode fm = 3 then bind_result (at (fm_entries fm) (selected fm)) (\<lambda>e. rename_entry bus junk e new st)
        else Inr st
      else Inr st)"

definition submit_input :: "'d bus \<Rightarrow> char list \<Rightarrow> fm \<Rightarrow> ('d, 'a) fsys_scheme \<Rightarrow> (fm \<times> ('d, 'a) fsys_scheme) result" where
  "submit_input bus junk fm st =
     bind_result (put (input_buf fm) (input_len fm) NUL) (\<lambda>ib.
     bind_result (row_text ib) (\<lambda>new.
     bind_result (submit_op bus junk fm new st) (\<lambda>st.
     bind_result (put ib 0 NUL) (\<lambda>ib.
     bind_result (refresh_entries (fm\<lparr>input_mode := 0, input_len := 0, input_buf := ib\<rparr>) st) (\<lambda>fm. Inr (fm, st))))))"

definition input_key :: "'d bus \<Rightarrow> char list \<Rightarrow> char \<Rightarrow> fm \<Rightarrow> ('d, 'a) fsys_scheme \<Rightarrow> (fm \<times> ('d, 'a) fsys_scheme) result" where
  "input_key bus junk c fm st =
     (if c = NL then submit_input bus junk fm st
      else if c = BS then
        if input_len fm > 0
        then bind_result (put (input_buf fm) (input_len fm - 1) NUL) (\<lambda>ib. Inr (fm\<lparr>input_buf := ib, input_len := input_len fm - 1\<rparr>, st))
        else Inr (fm, st)
      else if 32 \<le> schar c \<and> schar c \<le> 126 \<and> input_len fm < 31
      then bind_result (put (input_buf fm) (input_len fm) c) (\<lambda>ib.
           bind_result (put ib (input_len fm + 1) NUL) (\<lambda>ib. Inr (fm\<lparr>input_buf := ib, input_len := input_len fm + 1\<rparr>, st)))
      else Inr (fm, st))"

definition ask_name :: "int \<Rightarrow> fm \<Rightarrow> fm result" where
  "ask_name mode fm = bind_result (put (input_buf fm) 0 NUL) (\<lambda>ib. Inr (fm\<lparr>input_mode := mode, input_len := 0, input_buf := ib\<rparr>))"

text \<open>The copy loop of the \<^verbatim>\<open>r\<close> key stops at 31 characters.\<close>

definition ask_rename :: "fm \<Rightarrow> fm result" where
  "ask_rename fm =
     bind_result (at (fm_entries fm) (selected fm)) (\<lambda>e.
       let s = take 31 (cstr (ename e)) in
       bind_result (put (blit (input_buf fm) 0 s) (int (length s)) NUL) (\<lambda>ib.
         Inr (fm\<lparr>input_mode := 3, input_len := int (length s), input_buf := ib\<rparr>)))"

definition fm_visible :: "fm \<Rightarrow> int" where
  "fm_visible fm = swrap (fm_h fm - 44) sdiv 18"

definition fileman_keypress :: "'d bus \<Rightarrow> char list \<Rightarrow> char \<Rightarrow> fm \<Rightarrow> ('d, 'a) fsys_scheme \<Rightarrow> (fm \<times> ('d, 'a) fsys_scheme) result" where
  "fileman_keypress bus junk c fm st =
     (let vis = fm_visible fm in
      if tt (input_mode fm) then input_key bus junk c fm st
      else if c = KEY_UP then
        if selected fm > 0
        then let fm = fm\<lparr>selected := selected fm - 1\<rparr> in
          Inr (if selected fm < scroll_off fm then fm\<lparr>scroll_off := scroll_off fm - 1\<rparr> else fm, st)
        else Inr (fm, st)
      else if c = KEY_DOWN then
        if selected fm < entry_count fm - 1
        then let fm = fm\<lparr>selected := selected fm + 1\<rparr> in
          Inr (if selected fm \<ge> scroll_off fm + vis then fm\<lparr>scroll_off := scroll_off fm + 1\<rparr> else fm, st)
        else Inr (fm, st)
      else if c = NL then
        if entry_count fm > 0
        then bind_result (at (fm_entries fm) (selected fm)) (\<lambda>e.
          if tt (eis_dir e)
          then bind_result (fs_cd (cstr (ename e)) st) (\<lambda>(r, st). bind_result (refresh_entries fm st) (\<lambda>fm. Inr (fm, st)))
          else Inr (fm, st))
        else Inr (fm, st)
      else if c = CHR ''u'' then bind_result (fs_cd ''..'' st) (\<lambda>(r, st). bind_result (refresh_entries fm st) (\<lambda>fm. Inr (fm, st)))
      else if c = CHR ''n'' then bind_result (ask_name 1 fm) (\<lambda>fm. Inr (fm, st))
      else if c = CHR ''d'' then bind_result (ask_name 2 fm) (\<lambda>fm. Inr (fm, st))
      else if c = CHR ''r'' then
        if entry_count fm > 0 then bind_result (ask_rename fm) (\<lambda>fm. Inr (fm, st)) else Inr (fm, st)
      else if c = KEY_DELETE then
        if entry_count fm > 0
        then bind_result (at (fm_entries fm) (selected fm)) (\<lambda>e.
          let st = snd (fs_delete bus (cstr (ename e)) st) in
          bind_result (refresh_entries fm st) (\<lambda>fm. Inr (fm, st)))
        else Inr (fm, st)
      else Inr (fm, st))"

definition fileman_run :: "int \<Rightarrow> int \<Rightarrow> int \<Rightarrow> int \<Rightarrow> fm \<Rightarrow> wm \<Rightarrow> ('d, 'a) fsys_scheme \<Rightarrow> (fm \<times> wm) result" where
  "fileman_run x y w h fm m st =
     bind_result (refresh_entries fm st) (\<lambda>fm.
       let (handle, m) = brickwm_create_window ''File Manager'' x y w h (Some App_Fileman) (Some App_Fileman) m
       in Inr (fm\<lparr>fm_handle := handle\<rparr>, m))"

text \<open>A sequence of keys; each rename finds its buffer as the stack left it.\<close>

fun fileman_keys :: "'d bus \<Rightarrow> (char \<times> char list) list \<Rightarrow> fm \<Rightarrow> ('d, 'a) fsys_scheme \<Rightarrow> (fm \<times> ('d, 'a) fsys_scheme) result" where
  "fileman_keys bus [] fm st = Inr (fm, st)"
| "fileman_keys bus ((c, junk) # ks) fm st = bind_result (fileman_keypress bus junk c fm st) (\<lambda>(fm, st). fileman_keys bus ks fm st)"

section \<open>Terminated arrays\<close>

lemma terminated_split: "NUL \<in> set b \<Longrightarrow> \<exists>rest. b = cstr b @ NUL # rest"
  unfolding cstr_def by (induction b) auto

lemma terminated_text:
  assumes "NUL \<in> set b"
  shows "row_text b = Inr (cstr b)" "strlen b = Inr (length (cstr b))" "length (cstr b) < length b" "b ! length (cstr b) = NUL"
proof -
  obtain rest where b: "b = cstr b @ NUL # rest" using terminated_split [OF assms] by blast
  have "strlen (cstr b @ NUL # rest) = Inr (length (cstr b))" by simp
  then show s: "strlen b = Inr (length (cstr b))" using b by simp
  show "row_text b = Inr (cstr b)" using s arg_cong [OF b, of "take (length (cstr b))"] by (simp add: row_text_def)
  show "length (cstr b) < length b" using arg_cong [OF b, of length] by simp
  show "b ! length (cstr b) = NUL" using arg_cong [OF b, of "\<lambda>b. b ! length (cstr b)"] b by (metis nth_append_length)
qed

lemma name_ok_terminated: "name_ok nm \<Longrightarrow> NUL \<in> set nm"
  unfolding name_ok_def using nth_mem [of 31 nm] by auto

lemma cstr_typed:
  assumes "NUL \<in> set b" and "Suc (length (cstr b)) < length b" and "c \<noteq> NUL"
  shows "cstr (b[length (cstr b) := c, Suc (length (cstr b)) := NUL]) = cstr b @ [c]"
    "NUL \<in> set (b[length (cstr b) := c, Suc (length (cstr b)) := NUL])"
proof -
  obtain rest where b: "b = cstr b @ NUL # rest" using terminated_split [OF assms(1)] by blast
  obtain d rest' where r: "rest = d # rest'" using assms(2) arg_cong [OF b, of length] by (cases rest) auto
  have e: "b[length (cstr b) := c, Suc (length (cstr b)) := NUL] = (cstr b @ [c]) @ NUL # rest'"
    by (subst (1) b) (simp add: r list_update_append)
  show "cstr (b[length (cstr b) := c, Suc (length (cstr b)) := NUL]) = cstr b @ [c]"
    unfolding e by (rule cstr_append_NUL) (use assms(3) cstr_nul_free [of b] in \<open>simp add: nul_free_def del: cstr_nul_free\<close>)
  show "NUL \<in> set (b[length (cstr b) := c, Suc (length (cstr b)) := NUL])" unfolding e by simp
qed

lemma cstr_cut:
  assumes "n \<le> length (cstr b)" and "NUL \<in> set b"
  shows "cstr (b[n := NUL]) = take n (cstr b)" "NUL \<in> set (b[n := NUL])"
proof -
  have n: "n < length b" using terminated_text(3) [OF assms(2)] assms(1) by simp
  have "take n b = take n (cstr b)" using terminated_split [OF assms(2)] assms(1) by (metis take_append diff_is_0_eq take0 append_Nil2)
  then have e: "b[n := NUL] = take n (cstr b) @ NUL # drop (Suc n) b" using n by (simp add: upd_conv_take_nth_drop)
  show "cstr (b[n := NUL]) = take n (cstr b)"
    unfolding e by (rule cstr_append_NUL) (use cstr_nul_free [of b] in \<open>auto simp: nul_free_def dest: in_set_takeD simp del: cstr_nul_free\<close>)
  show "NUL \<in> set (b[n := NUL])" unfolding e by simp
qed

section \<open>The list is the directory\<close>

definition entry_of :: "dfile \<Rightarrow> fentry" where
  "entry_of f = \<lparr>ename = fname f, eis_dir = fis_dir f, esize = fsize f\<rparr>"

definition listing :: "('d, 'a) fsys_scheme \<Rightarrow> fentry list" where
  "listing st = map entry_of (filter (\<lambda>f. tt (fused f) \<and> fparent f = current_dir st) (files st))"

definition lists :: "fm \<Rightarrow> ('d, 'a) fsys_scheme \<Rightarrow> bool" where
  "lists fm st \<longleftrightarrow> length (fm_entries fm) = 128 \<and> entry_count fm = int (length (listing st)) \<and> take (length (listing st)) (fm_entries fm) = listing st"

definition selection_ok :: "fm \<Rightarrow> bool" where
  "selection_ok fm \<longleftrightarrow> 0 \<le> scroll_off fm \<and> scroll_off fm \<le> selected fm \<and> (selected fm < entry_count fm \<or> entry_count fm = 0 \<and> selected fm = 0)"

text \<open>The selection is among the rows that are drawn.\<close>

definition in_view :: "fm \<Rightarrow> bool" where
  "in_view fm \<longleftrightarrow> 1 \<le> fm_visible fm \<longrightarrow> selected fm < scroll_off fm + fm_visible fm"

definition input_ok :: "fm \<Rightarrow> bool" where
  "input_ok fm \<longleftrightarrow> length (input_buf fm) = 32 \<and> NUL \<in> set (input_buf fm) \<and> input_len fm = int (length (cstr (input_buf fm)))"

definition browsing :: "fm \<Rightarrow> ('d, 'a) fsys_scheme \<Rightarrow> bool" where
  "browsing fm st \<longleftrightarrow> lists fm st \<and> selection_ok fm \<and> input_ok fm"

lemma entries_from_lists:
  assumes "length ents = 128" and "count + length fs \<le> 128"
  shows "\<exists>es. entries_from cur fs 128 count ents =
      Inr (count + length (filter (\<lambda>f. tt (fused f) \<and> fparent f = cur) fs), es) \<and> length es = 128 \<and>
    take (count + length (filter (\<lambda>f. tt (fused f) \<and> fparent f = cur) fs)) es =
      take count ents @ map entry_of (filter (\<lambda>f. tt (fused f) \<and> fparent f = cur) fs)"
  using assms
proof (induction fs arbitrary: count ents)
  case (Cons f fs)
  then have c: "count < 128" by simp
  show ?case
  proof (cases "tt (fused f) \<and> fparent f = cur")
    case True
    let ?e = "ents[count := entry_of f]"
    have t: "take (Suc count) ?e = take count ents @ [entry_of f]" using c Cons.prems by (simp add: take_Suc_conv_app_nth)
    from Cons.IH [of ?e "Suc count"] Cons.prems True c t show ?thesis by (simp add: entry_of_def)
  next
    case False
    from Cons.IH [of ents count] Cons.prems False c show ?thesis by auto
  qed
qed simp

lemma length_listing: "fs_inv st \<Longrightarrow> length (listing st) \<le> 64"
  using inv_table [of st] length_filter_le [of "\<lambda>f. tt (fused f) \<and> fparent f = current_dir st" "files st"] by (simp add: listing_def)

lemma refresh_lists:
  assumes inv: "fs_inv st" and len: "length (fm_entries fm) = 128"
  shows "\<exists>es. refresh_entries fm st = Inr (fm\<lparr>fm_entries := es, entry_count := int (length (listing st)), selected := 0, scroll_off := 0\<rparr>) \<and>
    length es = 128 \<and> take (length (listing st)) es = listing st"
  using entries_from_lists [OF len, of 0 "files st" "current_dir st"] inv_table [OF inv]
  by (auto simp: refresh_entries_def diskfs_get_entries_def listing_def)

lemma listing_entry:
  assumes "fs_inv st" and "e \<in> set (listing st)"
  shows "name_ok (ename e)" "is_int32 (esize e)" "esize e \<le> 8192"
  using assms by (auto simp: listing_def entry_of_def fs_inv_def table_ok_def list_all_iff slot_ok_def)

lemma listed_entry:
  assumes "lists fm st" and "0 \<le> i" and "i < entry_count fm"
  shows "at (fm_entries fm) i = Inr (fm_entries fm ! nat i)" "fm_entries fm ! nat i = listing st ! nat i" "nat i < length (listing st)"
proof -
  have i: "nat i < length (listing st)" using assms by (simp add: lists_def)
  have t: "take (length (listing st)) (fm_entries fm) = listing st" using assms(1) by (simp add: lists_def)
  then have l: "length (listing st) \<le> length (fm_entries fm)" by (metis length_take min.cobounded1)
  show "nat i < length (listing st)" by (rule i)
  show "fm_entries fm ! nat i = listing st ! nat i" using i by (subst t [symmetric]) simp
  show "at (fm_entries fm) i = Inr (fm_entries fm ! nat i)" using i l assms(2) at_nth [of "nat i" "fm_entries fm"] by simp
qed

section \<open>What a key can do\<close>

lemma read_total:
  assumes inv: "fs_inv st" and len: "length junk = 8192"
  shows "\<exists>n buf st'. fs_read name junk 8192 st = Inr (n, buf, st') \<and> n \<le> 8192 \<and> is_int32 n \<and> length buf = 8192 \<and> fs_inv st' \<and>
    (n > 0 \<longrightarrow> st' = st)"
proof (cases rule: find_file_cases [of name "current_dir st" st])
  case none
  then show ?thesis using inv len by (simp add: fs_read_def diskfs_read_def is_int32_def)
next
  case (some k)
  have "k < 64" using some(1) inv_table [OF inv] by simp
  from inv_slot [OF inv this] some(2) inv len show ?thesis
    by (auto simp: fs_read_def diskfs_read_def slot_ok_def Let_def)
qed

lemma write_take:
  assumes "0 \<le> n" and "n \<le> int (length data)"
  shows "fs_write bus name data n st = fs_write bus name (take (nat n) data) (int (length (take (nat n) data))) st"
proof -
  have n: "int (length (take (nat n) data)) = n" using assms by simp
  then have "write_slot bus i (take (nat n) data) n st = write_slot bus i data n st" for i and st :: "('a, 'b) fsys_scheme"
    using assms by (simp add: write_slot_def)
  then show ?thesis unfolding n fs_write_def diskfs_write_def by (simp cong: if_cong)
qed

lemma write_or_lost:
  assumes inv: "fs_inv st" and name: "nul_free name" and n: "0 < n" "n \<le> 8192" and data: "length data = 8192"
  shows "(\<exists>r st'. fs_write bus name data n st = Inr (r, st') \<and> fs_inv st') \<or>
    fs_write bus name data n st = Inl OutOfBounds \<and> lookup name st = None \<and> \<not> room name st"
proof (cases "lookup name st \<noteq> None \<or> room name st")
  case True
  have "length (take (nat n) data) \<le> 8192" using data by simp
  from write_known [OF inv name this True, of bus] show ?thesis
    using write_take [of n data bus name st] n data by (metis fs_write_def less_imp_le of_nat_numeral)
next
  case False
  then have new: "lookup name st = None" by blast
  show ?thesis
  proof (cases rule: find_free_cases [of st])
    case none
    have "find_file name (current_dir st) st = - 1" using new by (simp add: lookup_find_file Let_def split: if_splits)
    then show ?thesis using none inv by (simp add: fs_write_def diskfs_write_def diskfs_create_def)
  next
    case (some k)
    have k: "k < 64" using some inv_table [OF inv] by simp
    have "name_ok (fname (files st ! k))" using inv_slot [OF inv k] by simp
    then have "32 \<le> length name \<or> length name < 31 \<and> fname (files st ! k) ! length name \<noteq> NUL"
      using False some by (cases "length name = 31") (auto simp: room_def name_ok_def)
    from fs_write_lost_name [OF inv name new _ this n(2)] False some new show ?thesis by simp
  qed
qed

text \<open>The fault of a rename: the new name is free, but the slot it would go to holds a longer name.\<close>

definition rename_lost :: "'d bus \<Rightarrow> fentry \<Rightarrow> string \<Rightarrow> ('d, 'a) fsys_scheme \<Rightarrow> bool" where
  "rename_lost bus e new st \<longleftrightarrow> \<not> tt (eis_dir e) \<and>
     (let st1 = snd (fs_delete bus (cstr (ename e)) st) in lookup new st1 = None \<and> \<not> room new st1)"

lemma inv_fs_delete: "fs_inv st \<Longrightarrow> fs_inv (snd (fs_delete bus name st))"
  by (simp add: fs_delete_def inv_delete)

lemma rename_safe:
  assumes inv: "fs_inv st" and new: "nul_free new" and junk: "length junk = 8192"
  shows "(\<exists>st'. rename_entry bus junk e new st = Inr st' \<and> fs_inv st') \<or>
    rename_entry bus junk e new st = Inl OutOfBounds \<and> rename_lost bus e new st"
proof (cases "tt (eis_dir e)")
  case True
  then show ?thesis using inv by (simp add: rename_entry_def)
next
  case False
  obtain n buf st1 where r: "fs_read (cstr (ename e)) junk 8192 st = Inr (n, buf, st1)" "n \<le> 8192" "length buf = 8192" "fs_inv st1"
      "n > 0 \<longrightarrow> st1 = st" using read_total [OF inv junk] by blast
  define st2 where "st2 = snd (fs_delete bus (cstr (ename e)) st1)"
  have inv2: "fs_inv st2" using r(4) by (simp add: st2_def inv_fs_delete)
  show ?thesis
  proof (cases "n > 0")
    case True
    then have "st2 = snd (fs_delete bus (cstr (ename e)) st)" using r(5) by (simp add: st2_def)
    with write_or_lost [OF inv2 new True r(2,3), of bus] show ?thesis
      using True False r(1) by (auto simp: rename_entry_def rename_lost_def st2_def [symmetric])
  next
    case no: False
    have "fs_inv (snd (fs_create bus new st2))" using inv2 by (simp add: fs_create_def inv_create)
    then show ?thesis using False no r(1) by (simp add: rename_entry_def flip: st2_def)
  qed
qed

lemma refresh_browsing:
  assumes "fs_inv st" and "length (fm_entries fm) = 128" and "input_ok fm"
  shows "\<exists>fm'. refresh_entries fm st = Inr fm' \<and> browsing fm' st \<and> input_mode fm' = input_mode fm"
  using refresh_lists [OF assms(1,2)] assms(3)
  by (auto simp: browsing_def lists_def selection_ok_def input_ok_def fm_visible_def)

lemma selected_entry:
  assumes "browsing fm st" and "entry_count fm > 0"
  shows "at (fm_entries fm) (selected fm) = Inr (listing st ! nat (selected fm))" "nat (selected fm) < length (listing st)"
  using listed_entry [of fm st "selected fm"] assms by (auto simp: browsing_def selection_ok_def)

lemma selected_at: "browsing fm st \<Longrightarrow> at (fm_entries fm) (selected fm) = Inr (fm_entries fm ! nat (selected fm))"
proof (cases "entry_count fm > 0")
  case True
  assume "browsing fm st"
  with True listed_entry(1) [of fm st "selected fm"] show ?thesis by (auto simp: browsing_def selection_ok_def)
next
  case False
  assume "browsing fm st"
  then have "selected fm = int 0" "0 < length (fm_entries fm)" using False by (auto simp: browsing_def selection_ok_def lists_def)
  then show ?thesis using at_nth [of 0 "fm_entries fm"] by simp
qed

lemma submit_text:
  assumes b: "browsing fm st"
  shows "put (input_buf fm) (input_len fm) NUL = Inr (input_buf fm)" "row_text (input_buf fm) = Inr (cstr (input_buf fm))"
proof -
  have i: "NUL \<in> set (input_buf fm)" "input_len fm = int (length (cstr (input_buf fm)))"
    using b by (auto simp: browsing_def input_ok_def)
  note t = terminated_text [OF i(1)]
  show "put (input_buf fm) (input_len fm) NUL = Inr (input_buf fm)"
    using t(3,4) i(2) put_nth [of "length (cstr (input_buf fm))" "input_buf fm" NUL] by (metis list_update_id)
  show "row_text (input_buf fm) = Inr (cstr (input_buf fm))" by (rule t(1))
qed

lemma submit_refreshes:
  assumes b: "browsing fm st0" and op: "submit_op bus junk fm (cstr (input_buf fm)) st = Inr st'" and inv: "fs_inv st'"
  shows "\<exists>fm'. submit_input bus junk fm st = Inr (fm', st') \<and> browsing fm' st'"
proof -
  have i: "length (input_buf fm) = 32" "NUL \<in> set (input_buf fm)" using b by (auto simp: browsing_def input_ok_def)
  define fm1 where "fm1 = fm\<lparr>input_mode := 0, input_len := 0, input_buf := (input_buf fm)[0 := NUL]\<rparr>"
  have "input_ok fm1" "length (fm_entries fm1) = 128"
    using cstr_cut [of 0 "input_buf fm"] i b by (auto simp: fm1_def input_ok_def browsing_def lists_def)
  from refresh_browsing [OF inv this(2,1)] obtain fm' where fm': "refresh_entries fm1 st' = Inr fm'" "browsing fm' st'" by blast
  have "put (input_buf fm) 0 NUL = Inr ((input_buf fm)[0 := NUL])" using i put_nth [of 0 "input_buf fm" NUL] by simp
  then have "submit_input bus junk fm st = Inr (fm', st')" using fm'(1) by (simp add: submit_input_def submit_text [OF b] op fm1_def)
  with fm'(2) show ?thesis by blast
qed

lemma submit_safe:
  assumes inv: "fs_inv st" and b: "browsing fm st0" and junk: "length junk = 8192"
  shows "(\<exists>fm' st'. submit_input bus junk fm st = Inr (fm', st') \<and> fs_inv st' \<and> browsing fm' st') \<or>
    submit_input bus junk fm st = Inl OutOfBounds \<and> input_mode fm = 3 \<and>
      rename_lost bus (fm_entries fm ! nat (selected fm)) (cstr (input_buf fm)) st"
proof -
  have "(\<exists>st'. submit_op bus junk fm (cstr (input_buf fm)) st = Inr st' \<and> fs_inv st') \<or>
      submit_op bus junk fm (cstr (input_buf fm)) st = Inl OutOfBounds \<and> input_mode fm = 3 \<and>
      rename_lost bus (fm_entries fm ! nat (selected fm)) (cstr (input_buf fm)) st"
    unfolding submit_op_def using inv inv_create [OF inv, of bus "cstr (input_buf fm)"] inv_mkdir [OF inv, of bus "cstr (input_buf fm)"]
      rename_safe [OF inv _ junk, of "cstr (input_buf fm)" bus "fm_entries fm ! nat (selected fm)"] selected_at [OF b]
    by (simp add: fs_create_def fs_mkdir_def browsing_def input_ok_def)
  then show ?thesis
  proof (elim disjE exE conjE)
    fix st' assume "submit_op bus junk fm (cstr (input_buf fm)) st = Inr st'" "fs_inv st'"
    then show ?thesis using submit_refreshes [OF b] by blast
  next
    assume "submit_op bus junk fm (cstr (input_buf fm)) st = Inl OutOfBounds" "input_mode fm = 3"
      "rename_lost bus (fm_entries fm ! nat (selected fm)) (cstr (input_buf fm)) st"
    then show ?thesis using submit_text [OF b] by (simp add: submit_input_def)
  qed
qed

lemma input_safe:
  assumes inv: "fs_inv st" and b: "browsing fm st0" and junk: "length junk = 8192"
  shows "(\<exists>fm' st'. input_key bus junk c fm st = Inr (fm', st') \<and> fs_inv st' \<and> (browsing fm' st' \<or> st' = st \<and> browsing fm' st0)) \<or>
    input_key bus junk c fm st = Inl OutOfBounds \<and> c = NL \<and> input_mode fm = 3 \<and>
      rename_lost bus (fm_entries fm ! nat (selected fm)) (cstr (input_buf fm)) st"
proof -
  have i: "length (input_buf fm) = 32" "NUL \<in> set (input_buf fm)" "input_len fm = int (length (cstr (input_buf fm)))"
    using b by (auto simp: browsing_def input_ok_def)
  let ?n = "length (cstr (input_buf fm))"
  have keep: "browsing (fm\<lparr>input_buf := ib, input_len := l\<rparr>) st0" if "length ib = 32" "NUL \<in> set ib" "l = int (length (cstr ib))" for ib l
    using b that by (auto simp: browsing_def input_ok_def lists_def selection_ok_def fm_visible_def)
  consider "c = NL" | "c \<noteq> NL" "c = BS" | "c \<noteq> NL" "c \<noteq> BS" by blast
  then show ?thesis
  proof cases
    case 1
    then show ?thesis using submit_safe [OF assms, of bus] by (auto simp: input_key_def)
  next
    case 2
    show ?thesis
    proof (cases "?n = 0")
      case True
      then show ?thesis using 2 inv b i by (simp add: input_key_def)
    next
      case False
      then have l: "input_len fm - 1 = int (?n - 1)" "input_len fm > 0" using i(3) not0_implies_Suc [OF False] by auto
      have "put (input_buf fm) (int (?n - 1)) NUL = Inr ((input_buf fm)[?n - 1 := NUL])"
        using terminated_text(3) [OF i(2)] by (intro put_nth) simp
      then have "input_key bus junk c fm st = Inr (fm\<lparr>input_buf := (input_buf fm)[?n - 1 := NUL], input_len := int (?n - 1)\<rparr>, st)"
        using 2 l by (simp add: input_key_def)
      moreover have "browsing (fm\<lparr>input_buf := (input_buf fm)[?n - 1 := NUL], input_len := int (?n - 1)\<rparr>) st0"
        using cstr_cut [of "?n - 1" "input_buf fm"] i by (intro keep) simp_all
      ultimately show ?thesis using inv by simp
    qed
  next
    case 3
    show ?thesis
    proof (cases "32 \<le> schar c \<and> schar c \<le> 126 \<and> input_len fm < 31")
      case False
      then show ?thesis using 3 inv b by (auto simp: input_key_def)
    next
      case True
      let ?b = "(input_buf fm)[?n := c, Suc ?n := NUL]"
      have c: "c \<noteq> NUL" using True by (auto simp: schar_def NUL_def)
      have n: "Suc ?n < length (input_buf fm)" using True i by simp
      have l: "input_len fm + 1 = int (Suc ?n)" using i(3) by simp
      have "put (input_buf fm) (int ?n) c = Inr ((input_buf fm)[?n := c])" using n by (intro put_nth) simp
      moreover have "put ((input_buf fm)[?n := c]) (int (Suc ?n)) NUL = Inr ?b" using n by (intro put_nth) simp
      ultimately have "input_key bus junk c fm st = Inr (fm\<lparr>input_buf := ?b, input_len := int (Suc ?n)\<rparr>, st)"
        using 3 True unfolding input_key_def l unfolding i(3) by (simp del: of_nat_Suc)
      moreover have "browsing (fm\<lparr>input_buf := ?b, input_len := int (Suc ?n)\<rparr>) st0"
        using cstr_typed [OF i(2) n c] i(1) by (intro keep) simp_all
      ultimately show ?thesis using inv by simp
    qed
  qed
qed

lemma cd_browsing:
  assumes "fs_inv st" and "browsing fm st0" and "input_mode fm = 0"
  shows "\<exists>r st' fm'. fs_cd path st = Inr (r, st') \<and> fs_inv st' \<and> refresh_entries fm st' = Inr fm' \<and> browsing fm' st'"
proof -
  obtain r st' where c: "fs_cd path st = Inr (r, st')" "fs_inv st'" using cd_ok [OF assms(1), of path] by (auto simp: fs_cd_def)
  obtain fm' where "refresh_entries fm st' = Inr fm'" "browsing fm' st'"
    using refresh_browsing [OF c(2), of fm] assms(2,3) by (auto simp: browsing_def lists_def)
  with c show ?thesis by blast
qed

lemma ask_safe:
  assumes "browsing fm st"
  shows "mode \<noteq> 3 \<Longrightarrow> \<exists>fm'. ask_name mode fm = Inr fm' \<and> browsing fm' st"
    and "entry_count fm > 0 \<Longrightarrow> \<exists>fm'. ask_rename fm = Inr fm' \<and> browsing fm' st"
proof -
  have i: "length (input_buf fm) = 32" "NUL \<in> set (input_buf fm)" using assms by (auto simp: browsing_def input_ok_def)
  have keep: "browsing (fm\<lparr>input_mode := m, input_len := l, input_buf := ib\<rparr>) st"
    if "length ib = 32" "NUL \<in> set ib" "l = int (length (cstr ib))" "m = 3 \<longrightarrow> entry_count fm > 0" for ib l m
    using assms that by (auto simp: browsing_def input_ok_def lists_def selection_ok_def fm_visible_def)
  show "\<exists>fm'. ask_name mode fm = Inr fm' \<and> browsing fm' st" if "mode \<noteq> 3"
    using put_nth [of 0 "input_buf fm" NUL] i cstr_cut [of 0 "input_buf fm"] that by (auto simp: ask_name_def intro!: keep)
  show "\<exists>fm'. ask_rename fm = Inr fm' \<and> browsing fm' st" if pos: "entry_count fm > 0"
  proof -
    let ?s = "take 31 (cstr (ename (listing st ! nat (selected fm))))"
    have n: "length ?s \<le> 31" by simp
    have f: "nul_free ?s" using cstr_nul_free [of "ename (listing st ! nat (selected fm))"] by (auto simp: nul_free_def dest: in_set_takeD simp del: cstr_nul_free)
    let ?b = "(blit (input_buf fm) 0 ?s)[length ?s := NUL]"
    have b: "?b = ?s @ NUL # drop (Suc (length ?s)) (input_buf fm)"
      using n i(1) by (subst blit_0) (auto simp: list_update_append simp flip: Cons_nth_drop_Suc)
    have "put (blit (input_buf fm) 0 ?s) (int (length ?s)) NUL = Inr ?b" using n i(1) by (intro put_nth) simp
    then have "ask_rename fm = Inr (fm\<lparr>input_mode := 3, input_len := int (length ?s), input_buf := ?b\<rparr>)"
      by (simp add: ask_rename_def selected_entry(1) [OF assms pos] Let_def)
    moreover have "cstr ?b = ?s" unfolding b by (rule cstr_append_NUL [OF f])
    moreover have "NUL \<in> set ?b" unfolding b by simp
    ultimately show ?thesis using pos i(1) by (auto intro!: keep)
  qed
qed

text \<open>
  The list may be older than the file system when other programs have changed it since: \<open>st0\<close> is the state the list was
  made from. A key leaves the list as it is, with the file system unchanged, or makes a new one.
\<close>

lemma fileman_key_safe:
  assumes inv: "fs_inv st" and b: "browsing fm st0" and junk: "length junk = 8192"
  shows "(\<exists>fm' st'. fileman_keypress bus junk c fm st = Inr (fm', st') \<and> fs_inv st' \<and> (browsing fm' st' \<or> st' = st \<and> browsing fm' st0)) \<or>
    fileman_keypress bus junk c fm st = Inl OutOfBounds \<and> c = NL \<and> input_mode fm = 3 \<and>
      rename_lost bus (fm_entries fm ! nat (selected fm)) (cstr (input_buf fm)) st"
proof (cases "tt (input_mode fm)")
  case True
  then show ?thesis using input_safe [OF assms, of bus c] by (simp add: fileman_keypress_def)
next
  case False
  then have m: "input_mode fm = 0" by simp
  note cd = cd_browsing [OF inv b m]
  have up: "browsing (if selected fm - 1 < scroll_off fm then fm\<lparr>selected := selected fm - 1, scroll_off := scroll_off fm - 1\<rparr>
      else fm\<lparr>selected := selected fm - 1\<rparr>) st0" if "selected fm > 0"
    using b that by (auto simp: browsing_def lists_def input_ok_def selection_ok_def fm_visible_def)
  have down: "browsing (if scroll_off fm + fm_visible fm \<le> selected fm + 1 then fm\<lparr>selected := selected fm + 1, scroll_off := scroll_off fm + 1\<rparr>
      else fm\<lparr>selected := selected fm + 1\<rparr>) st0" if "selected fm < entry_count fm - 1"
    using b that by (auto simp: browsing_def lists_def input_ok_def selection_ok_def fm_visible_def)
  have del: "\<exists>fm'. refresh_entries fm (snd (fs_delete bus n st)) = Inr fm' \<and> browsing fm' (snd (fs_delete bus n st))" for n
    using refresh_browsing [OF inv_fs_delete [OF inv], of fm bus n] b m by (auto simp: browsing_def lists_def)
  consider "c = KEY_UP" | "c = KEY_DOWN" | "c = NL" | "c = CHR ''u''" | "c = CHR ''n''" | "c = CHR ''d''" | "c = CHR ''r''" | "c = KEY_DELETE"
    | "c \<notin> {KEY_UP, KEY_DOWN, NL, CHR ''u'', CHR ''n'', CHR ''d'', CHR ''r'', KEY_DELETE}" by blast
  then show ?thesis
  proof cases
    case 1
    then show ?thesis using up inv b m by (auto simp: fileman_keypress_def Let_def)
  next
    case 2
    then show ?thesis using down inv b m by (auto simp: fileman_keypress_def Let_def key_codes)
  next
    case 3
    then show ?thesis using inv b m selected_at [OF b] cd [of "cstr (ename (fm_entries fm ! nat (selected fm)))"]
      by (auto simp: fileman_keypress_def Let_def key_codes NL_def)
  next
    case 4
    then show ?thesis using inv b m cd [of "''..''"] by (auto simp: fileman_keypress_def Let_def key_codes NL_def)
  next
    case 5
    then show ?thesis using inv m ask_safe(1) [OF b, of 1] by (auto simp: fileman_keypress_def Let_def key_codes NL_def)
  next
    case 6
    then show ?thesis using inv m ask_safe(1) [OF b, of 2] by (auto simp: fileman_keypress_def Let_def key_codes NL_def)
  next
    case 7
    then show ?thesis using inv b m ask_safe(2) [OF b] by (auto simp: fileman_keypress_def Let_def key_codes NL_def)
  next
    case 8
    then show ?thesis using inv b m selected_at [OF b] del [of "cstr (ename (fm_entries fm ! nat (selected fm)))"] inv_fs_delete [OF inv]
      by (auto simp: fileman_keypress_def Let_def key_codes NL_def)
  next
    case 9
    then show ?thesis using inv b m by (simp add: fileman_keypress_def Let_def)
  qed
qed

lemma refresh_view: "refresh_entries fm st = Inr fm' \<Longrightarrow> in_view fm'"
  by (auto simp: refresh_entries_def bind_result_Inr_iff in_view_def fm_visible_def)

lemma input_view: "in_view fm \<Longrightarrow> input_key bus junk c fm st = Inr (fm', st') \<Longrightarrow> in_view fm'"
  by (auto simp: input_key_def submit_input_def bind_result_Inr_iff dest: refresh_view split: if_splits) (auto simp: in_view_def fm_visible_def)

lemma ask_view: "in_view fm \<Longrightarrow> ask_name m fm = Inr fm' \<Longrightarrow> in_view fm'" "in_view fm \<Longrightarrow> ask_rename fm = Inr fm' \<Longrightarrow> in_view fm'"
  by (auto simp: ask_name_def ask_rename_def bind_result_Inr_iff Let_def) (auto simp: in_view_def fm_visible_def)

lemma fileman_key_view:
  assumes v: "in_view fm" and s: "scroll_off fm \<le> selected fm" and k: "fileman_keypress bus junk c fm st = Inr (fm', st')"
  shows "in_view fm'"
proof (cases "tt (input_mode fm)")
  case True
  then show ?thesis using input_view [OF v] k by (simp add: fileman_keypress_def)
next
  case False
  have "in_view (fm\<lparr>selected := selected fm - 1\<rparr>)" "in_view (fm\<lparr>selected := selected fm - 1, scroll_off := scroll_off fm - 1\<rparr>)"
    "selected fm + 1 < scroll_off fm + fm_visible fm \<Longrightarrow> in_view (fm\<lparr>selected := selected fm + 1\<rparr>)"
    "in_view (fm\<lparr>selected := selected fm + 1, scroll_off := scroll_off fm + 1\<rparr>)"
    using v by (auto simp: in_view_def fm_visible_def)
  then show ?thesis using k False v
    by (auto simp: fileman_keypress_def bind_result_Inr_iff Let_def not_le dest: refresh_view ask_view split: if_splits)
qed

text \<open>
  The file manager over any sequence of keys: the list it shows is the current directory, entry by
  entry and in the order of the file table, the selection is one of its entries and lies in the rows
  that are drawn, the name being typed fits its buffer, and the file system stays consistent. The only
  fault is the return key in a rename whose new name is free but would go to a slot that holds a longer
  one (see \<open>fs_write_lost_name\<close>).
\<close>

theorem fileman_lists_directory:
  assumes "fs_inv st" and "browsing fm st" and "in_view fm" and "\<forall>(c, junk)\<in>set ks. length junk = 8192"
  shows "case fileman_keys bus ks fm st of
      Inr (fm', st') \<Rightarrow> fs_inv st' \<and> browsing fm' st' \<and> in_view fm'
    | Inl e \<Rightarrow> e = OutOfBounds \<and> (\<exists>ks1 junk ks2 fm1 st1. ks = ks1 @ (NL, junk) # ks2 \<and> fileman_keys bus ks1 fm st = Inr (fm1, st1) \<and>
        input_mode fm1 = 3 \<and> rename_lost bus (fm_entries fm1 ! nat (selected fm1)) (cstr (input_buf fm1)) st1)"
  using assms
proof (induction ks arbitrary: fm st)
  case (Cons k ks)
  obtain c junk where k: "k = (c, junk)" by (cases k)
  have j: "length junk = 8192" using Cons.prems(4) k by simp
  have "scroll_off fm \<le> selected fm" using Cons.prems(2) by (simp add: browsing_def selection_ok_def)
  note view = fileman_key_view [OF Cons.prems(3) this]
  have "(\<exists>fm1 st1. fileman_keypress bus junk c fm st = Inr (fm1, st1) \<and> fs_inv st1 \<and> browsing fm1 st1) \<or>
      fileman_keypress bus junk c fm st = Inl OutOfBounds \<and> c = NL \<and> input_mode fm = 3 \<and>
      rename_lost bus (fm_entries fm ! nat (selected fm)) (cstr (input_buf fm)) st"
    using fileman_key_safe [OF Cons.prems(1,2) j, of bus c] by auto
  then show ?case
  proof (elim disjE exE conjE)
    fix fm1 st1 assume s: "fileman_keypress bus junk c fm st = Inr (fm1, st1)" "fs_inv st1" "browsing fm1 st1"
    have ks: "\<forall>(c, junk)\<in>set ks. length junk = 8192" using Cons.prems(4) by simp
    note s = s(1-3) view [OF s(1)]
    have e: "fileman_keys bus (k # ks') fm st = fileman_keys bus ks' fm1 st1" for ks' by (simp add: k s(1))
    show ?case
    proof (cases "fileman_keys bus ks fm1 st1")
      case (Inl f)
      then obtain ks1 j ks2 fm2 st2 where f: "f = OutOfBounds" "ks = ks1 @ (NL, j) # ks2" "fileman_keys bus ks1 fm1 st1 = Inr (fm2, st2)"
          "input_mode fm2 = 3 \<and> rename_lost bus (fm_entries fm2 ! nat (selected fm2)) (cstr (input_buf fm2)) st2"
        using Cons.IH [OF s(2-4) ks] by auto
      have "k # ks = (k # ks1) @ (NL, j) # ks2 \<and> fileman_keys bus (k # ks1) fm st = Inr (fm2, st2)" using f(2,3) e by simp
      then have "\<exists>l1 j l2 fm2 st2. k # ks = l1 @ (NL, j) # l2 \<and> fileman_keys bus l1 fm st = Inr (fm2, st2) \<and> input_mode fm2 = 3 \<and>
          rename_lost bus (fm_entries fm2 ! nat (selected fm2)) (cstr (input_buf fm2)) st2"
        using f(4) by (intro exI [of _ "k # ks1"] exI [of _ j] exI [of _ ks2] exI [of _ fm2] exI [of _ st2]) simp
      moreover have "fileman_keys bus (k # ks) fm st = Inl OutOfBounds" unfolding e Inl f(1) ..
      ultimately show ?thesis by (simp only: sum.case simp_thms)
    next
      case (Inr x)
      then show ?thesis using Cons.IH [OF s(2-4) ks] unfolding e by simp
    qed
  next
    assume "fileman_keypress bus junk c fm st = Inl OutOfBounds" "c = NL" "input_mode fm = 3"
      "rename_lost bus (fm_entries fm ! nat (selected fm)) (cstr (input_buf fm)) st"
    then show ?case using k by (simp add: exI [of _ "[]"])
  qed
qed simp

definition boot_fm :: fm where
  "boot_fm = \<lparr>fm_entries = replicate 128 \<lparr>ename = replicate 32 NUL, eis_dir = 0, esize = 0\<rparr>, entry_count = 0, selected = 0, scroll_off = 0,
     fm_x = 0, fm_y = 0, fm_w = 0, fm_h = 380, fm_handle = - 1, input_mode = 0, input_buf = replicate 32 NUL, input_len = 0\<rparr>"

lemma boot_browsing: "\<exists>fm. refresh_entries boot_fm fresh_fs = Inr fm \<and> browsing fm fresh_fs \<and> in_view fm"
proof -
  have "cstr (replicate 32 NUL) = []" by (simp add: cstr_def numeral_eq_Suc)
  then show ?thesis using refresh_browsing [OF hello_fresh(1), of boot_fm] refresh_view [of boot_fm fresh_fs] by (auto simp: boot_fm_def input_ok_def)
qed

theorem fileman_lists_directory_witness:
  "\<exists>fm. refresh_entries boot_fm fresh_fs = Inr fm \<and>
     (case fileman_keys pio_bus [(CHR ''n'', replicate 8192 NUL), (CHR ''a'', replicate 8192 NUL)] fm fresh_fs of
        Inr (fm', st') \<Rightarrow> fs_inv st' \<and> browsing fm' st' \<and> in_view fm' | Inl e \<Rightarrow> e = OutOfBounds)"
proof -
  obtain fm where fm: "refresh_entries boot_fm fresh_fs = Inr fm" "browsing fm fresh_fs" "in_view fm" using boot_browsing by blast
  have j: "\<forall>(c, junk)\<in>set [(CHR ''n'', replicate 8192 NUL), (CHR ''a'', replicate 8192 NUL)]. length junk = 8192" by simp
  show ?thesis using fileman_lists_directory [OF hello_fresh(1) fm(2,3) j, of pio_bus] fm(1) by (auto split: sum.splits)
qed

section \<open>Renaming\<close>

lemma listed_slot:
  assumes inv: "dir_inv st" and e: "e \<in> set (listing st)"
  shows "\<exists>k<64. find_file (cstr (ename e)) (current_dir st) st = int k \<and> e = entry_of (files st ! k) \<and> hit (cstr (ename e)) (current_dir st) (files st ! k)"
proof -
  have fs: "fs_inv st" and un: "unique_names st" using inv by (auto simp: dir_inv_def)
  have len: "length (files st) = 64" by (rule inv_table [OF fs])
  from e obtain k where k: "k < 64" "tt (fused (files st ! k))" "fparent (files st ! k) = current_dir st" "e = entry_of (files st ! k)"
    using len by (auto simp: listing_def in_set_conv_nth [of _ "files st"])
  have h: "hit (cstr (ename e)) (current_dir st) (files st ! k)" using k by (simp add: hit_name [OF fs k(1)] entry_of_def)
  show ?thesis
  proof (cases rule: find_file_cases [of "cstr (ename e)" "current_dir st" st])
    case none
    then show ?thesis using h k(1) len nth_mem [of k "files st"] by auto
  next
    case (some j)
    have j: "j < 64" using some(1) len by simp
    have "j = k"
      using un [unfolded unique_names_def, rule_format, OF j k(1)] some(3) h
      unfolding hit_name [OF fs j cstr_nul_free] hit_name [OF fs k(1) cstr_nul_free] by auto
    then show ?thesis using some k h by auto
  qed
qed

lemma read_listed:
  assumes inv: "fs_inv st" and k: "k < 64" "find_file old (current_dir st) st = int k" and junk: "length junk = 8192"
  shows "\<exists>n buf. fs_read old junk 8192 st = Inr (n, buf, st) \<and> n = fsize (files st ! k) \<and> n \<le> 8192 \<and> length buf = 8192 \<and>
    take (nat n) buf = take (nat n) (fdata (files st ! k))"
  using inv_slot [OF inv k(1)] k(2) junk by (auto simp: fs_read_def diskfs_read_def slot_ok_def Let_def blit_0)

text \<open>
  C38. Renaming a file: with the cursor on it and a new name typed that no entry has, for which the slot
  that will be used has room, return moves the contents to the new name. The old name is gone, every
  other name reads as before, and the list shows the directory as it is now.
\<close>

theorem fileman_renames:
  assumes inv: "dir_inv st" and b: "browsing fm st" and mode: "input_mode fm = 3" and junk: "length junk = 8192" and some: "listing st \<noteq> []"
    and new: "new = cstr (input_buf fm)" "new \<noteq> []" "lookup new st = None"
    and old: "old = cstr (ename (listing st ! nat (selected fm)))" "lookup old st = Some (False, x)"
    and room: "room new (snd (fs_delete bus old st))"
  shows "\<exists>fm' st'. fileman_keypress bus junk NL fm st = Inr (fm', st') \<and> lookup old st' = None \<and> lookup new st' = Some (False, x) \<and>
    (\<forall>m. nul_free m \<longrightarrow> m \<noteq> old \<longrightarrow> m \<noteq> new \<longrightarrow> lookup m st' = lookup m st) \<and> fs_inv st' \<and> browsing fm' st'"
proof -
  have fs: "fs_inv st" using inv by (simp add: dir_inv_def)
  have cnt: "entry_count fm > 0" and il: "input_len fm > 0" using b some new(1,2) by (auto simp: browsing_def input_ok_def lists_def)
  let ?e = "listing st ! nat (selected fm)"
  have e: "?e \<in> set (listing st)" using selected_entry(2) [OF b cnt] by simp
  obtain k where k: "k < 64" "find_file old (current_dir st) st = int k" "?e = entry_of (files st ! k)"
    using listed_slot [OF inv e] old(1) by auto
  have c: "\<not> tt (fis_dir (files st ! k))" "x = take (nat (fsize (files st ! k))) (fdata (files st ! k))"
    using old(2) k(2) by (auto simp: lookup_find_file content_def)
  obtain n buf where r: "fs_read old junk 8192 st = Inr (n, buf, st)" "n \<le> 8192" "length buf = 8192" "take (nat n) buf = x" "n = fsize (files st ! k)"
    using read_listed [OF fs k(1,2) junk] c(2) by auto
  obtain st1 where d: "fs_delete bus old st = (0, st1)" "dir_inv st1" "lookup old st1 = None"
      "\<forall>m. nul_free m \<longrightarrow> m \<noteq> old \<longrightarrow> lookup m st1 = lookup m st"
    using delete_existing [OF inv, of old bus] old by (auto simp: fs_delete_def)
  have nf: "nul_free new" "nul_free old" and ne: "new \<noteq> old" using new old by auto
  have l1: "lookup new st1 = None" using d(4) nf ne new(3) by simp
  have rm: "room new st1" using room d(1) by simp
  have inv1: "fs_inv st1" using d(2) by (simp add: dir_inv_def)
  have "\<exists>st2. rename_entry bus junk ?e new st = Inr st2 \<and> lookup new st2 = Some (False, x) \<and> (\<forall>m. nul_free m \<longrightarrow> m \<noteq> new \<longrightarrow> lookup m st2 = lookup m st1)"
  proof (cases "n > 0")
    case True
    have x8: "length x \<le> 8192" using r(2,4) by auto
    have "fs_write bus new buf n st1 = fs_write bus new x (int (length x)) st1"
      using write_take [of n buf bus new st1] True r(2-4) by simp
    then show ?thesis using write_new [OF inv1 nf(1) x8 l1 rm, of bus] True r(1) c(1) d(1) k(3)
      by (auto simp: rename_entry_def fs_write_def entry_of_def old(1))
  next
    case False
    then have "x = []" using r(4) by simp
    then show ?thesis using create_new [OF inv1 nf(1) l1 rm, of bus] False r(1) c(1) d(1) k(3)
      by (auto simp: rename_entry_def fs_create_def entry_of_def old(1))
  qed
  then obtain st2 where st2: "rename_entry bus junk ?e new st = Inr st2" "lookup new st2 = Some (False, x)"
      "\<forall>m. nul_free m \<longrightarrow> m \<noteq> new \<longrightarrow> lookup m st2 = lookup m st1" by blast
  have "fileman_keypress bus junk NL fm st = submit_input bus junk fm st" using mode by (simp add: fileman_keypress_def input_key_def)
  moreover have "submit_op bus junk fm (cstr (input_buf fm)) st = Inr st2"
    using st2(1) selected_entry(1) [OF b cnt] il mode new(1) by (simp add: submit_op_def)
  moreover have inv2: "fs_inv st2" using rename_safe [OF fs nf(1) junk, of bus ?e] st2(1) by simp
  ultimately obtain fm' where "fileman_keypress bus junk NL fm st = Inr (fm', st2)" "browsing fm' st2" using submit_refreshes [OF b] by metis
  then show ?thesis using st2 d(3,4) ne nf inv2 by auto
qed

text \<open>A file system with one file, as an example.\<close>

definition one_file :: "string \<Rightarrow> nat \<Rightarrow> pio fsys" where
  "one_file name sz = fresh_fs\<lparr>files := (files fresh_fs)[1 := \<lparr>fname = name @ replicate (32 - length name) NUL, fdata = replicate 8192 (CHR ''x''),
     fsize = int sz, fused = 1, fis_dir = 0, fparent = 0\<rparr>]\<rparr>"

lemma one_file_facts:
  assumes "nul_free name" and "length name < 32" and "sz \<le> 8192"
  shows "dir_inv (one_file name sz)" "find_file name 0 (one_file name sz) = 1" "lookup name (one_file name sz) = Some (False, replicate sz (CHR ''x''))"
    "other \<noteq> name \<Longrightarrow> nul_free other \<Longrightarrow> lookup other (one_file name sz) = None"
    "length (listing (one_file name sz)) = 1" "cstr (ename (listing (one_file name sz) ! 0)) = name"
proof -
  let ?f = "\<lparr>fname = name @ replicate (32 - length name) NUL, fdata = replicate 8192 (CHR ''x''), fsize = int sz, fused = 1, fis_dir = 0, fparent = 0\<rparr>"
  let ?st = "one_file name sz"
  have len: "length (files fresh_fs) = 64" by (rule inv_table [OF hello_fresh(1)])
  have nm: "cstr (fname ?f) = name"
  proof -
    have "replicate (32 - length name) NUL = NUL # replicate (31 - length name) NUL" using assms(2) by (simp flip: replicate_Suc add: Suc_diff_le)
    then show ?thesis using cstr_append_NUL [OF assms(1)] by simp
  qed
  have nok: "name_ok (fname ?f)" using assms(2) by (simp add: name_ok_def nth_append)
  have sok: "slot_ok ?f" using assms(2,3) by (simp add: slot_ok_def is_int32_def)
  have path: "\<exists>n. up ((files fresh_fs)[1 := ?f]) n (nat (current_dir fresh_fs))"
    using free_slot_off_path(2) [OF hello_fresh(1), of 1] fresh_unused [of 1] len by simp
  have inv: "fs_inv ?st" unfolding one_file_def
    by (rule fs_inv_update [OF hello_fresh(1)]) (use sok nok path assms(3) in simp_all)
  have fl: "files ?st = (files fresh_fs)[1 := ?f]" by (simp add: one_file_def)
  have cur: "current_dir ?st = 0" using fresh_files by (simp add: one_file_def)
  have "unique_names ?st" by (rule unique_update [OF _ len fl]) (use fresh_dir_inv fresh_unused fresh_files in \<open>auto simp: dir_inv_def nth_list_update\<close>)
  with inv show di: "dir_inv ?st" by (simp add: dir_inv_def)
  have h: "hit n 0 (files ?st ! k) \<longleftrightarrow> k = 1 \<and> n = name" if "k < 64" "nul_free n" for n k
  proof -
    have "files ?st ! k = (if k = 1 then ?f else files fresh_fs ! k)" using that len by (simp add: fl)
    then show ?thesis
      using hit_name [OF inv that(1,2), of 0] nm fresh_unused [OF that(1)] fresh_files by (cases "k = 0") auto
  qed
  show ff: "find_file name 0 ?st = 1"
  proof (cases rule: find_file_cases [of name 0 ?st])
    case none
    then show ?thesis using h [of 1 name] assms(1) nth_mem [of 1 "files ?st"] len by (auto simp: fl)
  next
    case (some k)
    then show ?thesis using h [of k name] assms(1) len by (auto simp: fl)
  qed
  show "lookup name ?st = Some (False, replicate sz (CHR ''x''))" using ff assms(3) len by (simp add: lookup_find_file cur fl content_def)
  show "lookup other ?st = None" if "other \<noteq> name" "nul_free other"
  proof (cases rule: find_file_cases [of other 0 ?st])
    case (some k)
    then show ?thesis using h [of k other] that len by (auto simp: fl)
  qed (simp add: lookup_find_file cur)
  have "replicate 64 x = x # x # replicate 62 x" for x :: dfile by (simp add: numeral_eq_Suc)
  then have "listing ?st = [entry_of ?f]" using fresh_files by (simp add: listing_def cur fl fresh_slot_def)
  then show "length (listing ?st) = 1" "cstr (ename (listing ?st ! 0)) = name" using nm by (simp_all add: entry_of_def)
qed

text \<open>The \<^verbatim>\<open>r\<close> key on that file and a new name typed over the old one.\<close>

lemma one_file_rename:
  assumes "nul_free name" and "length name < 32" and "sz \<le> 8192" and "nul_free new" and "length new < 32"
  shows "\<exists>fm. browsing fm (one_file name sz) \<and> input_mode fm = 3 \<and> cstr (input_buf fm) = new \<and> selected fm = 0"
proof -
  note f = one_file_facts [OF assms(1-3)]
  have "cstr (replicate 32 NUL) = []" by (simp add: cstr_def numeral_eq_Suc)
  then obtain fm where fm: "browsing fm (one_file name sz)" "refresh_entries boot_fm (one_file name sz) = Inr fm"
    using refresh_browsing [of "one_file name sz" boot_fm] f(1) by (auto simp: boot_fm_def input_ok_def dir_inv_def)
  have s: "selected fm = 0" using fm(2) by (auto simp: refresh_entries_def bind_result_Inr_iff)
  have c: "entry_count fm = 1" using fm(1) f(5) by (simp add: browsing_def lists_def)
  let ?b = "new @ replicate (32 - length new) NUL"
  have b: "?b = new @ NUL # replicate (31 - length new) NUL" using assms(5) by (simp flip: replicate_Suc add: Suc_diff_le)
  have "cstr ?b = new" unfolding b by (rule cstr_append_NUL [OF assms(4)])
  moreover have "length ?b = 32" "NUL \<in> set ?b" using assms(5) by auto
  ultimately have "browsing (fm\<lparr>input_mode := 3, input_buf := ?b, input_len := int (length new)\<rparr>) (one_file name sz)"
    using fm(1) c by (auto simp: browsing_def lists_def selection_ok_def input_ok_def fm_visible_def)
  then show ?thesis using s \<open>cstr ?b = new\<close> by (intro exI [of _ "fm\<lparr>input_mode := 3, input_buf := ?b, input_len := int (length new)\<rparr>"]) simp
qed

lemma one_file_deleted:
  assumes "nul_free name" and "length name < 32" and "sz \<le> 8192"
  defines "st1 \<equiv> snd (fs_delete pio_bus name (one_file name sz))"
  shows "find_free st1 = 1" "fname (files st1 ! 1) = name @ replicate (32 - length name) NUL"
proof -
  note f = one_file_facts [OF assms(1-3)]
  have cur: "current_dir (one_file name sz) = 0" using fresh_files by (simp add: one_file_def)
  have len: "length (files fresh_fs) = 64" by (rule inv_table [OF hello_fresh(1)])
  have fl: "files st1 = (files (one_file name sz))[1 := (files (one_file name sz) ! 1)\<lparr>fused := 0\<rparr>]"
    using f(2) by (simp add: st1_def fs_delete_def diskfs_delete_def cur)
  have r: "replicate 64 x = x # x # replicate 62 x" for x :: dfile by (simp add: numeral_eq_Suc)
  show "find_free st1 = 1" unfolding find_free_def fl by (simp add: one_file_def fresh_files r)
  show "fname (files st1 ! 1) = name @ replicate (32 - length name) NUL" using len unfolding fl by (simp add: one_file_def)
qed

theorem fileman_renames_witness:
  "\<exists>fm fm' st'. browsing fm (one_file ''a'' 3) \<and> fileman_keypress pio_bus (replicate 8192 NUL) NL fm (one_file ''a'' 3) = Inr (fm', st') \<and>
     lookup ''a'' st' = None \<and> lookup ''b'' st' = Some (False, ''xxx'')"
proof -
  have n: "nul_free ''a''" "nul_free ''b''" by (simp_all add: nul_free_def NUL_def)
  obtain fm where fm: "browsing fm (one_file ''a'' 3)" "input_mode fm = 3" "cstr (input_buf fm) = ''b''" "selected fm = 0"
    using one_file_rename [OF n(1) _ _ n(2), of 3] by auto
  have f: "dir_inv (one_file ''a'' 3)" "lookup ''a'' (one_file ''a'' 3) = Some (False, ''xxx'')" "lookup ''b'' (one_file ''a'' 3) = None"
      "cstr (ename (listing (one_file ''a'' 3) ! 0)) = ''a''"
    using one_file_facts [OF n(1), of 3] n(2) by (simp_all add: numeral_eq_Suc)
  have "room ''b'' (snd (fs_delete pio_bus ''a'' (one_file ''a'' 3)))"
    using one_file_deleted [OF n(1), of 3] by (simp add: room_def numeral_eq_Suc)
  moreover have "listing (one_file ''a'' 3) \<noteq> []" using one_file_facts(5) [OF n(1), of 3] by auto
  ultimately show ?thesis
    using fileman_renames [OF f(1) fm(1,2) _ _ fm(3) [symmetric] _ f(3) _ f(2), of "replicate 8192 NUL" pio_bus] fm f(4) by auto
qed

lemma free_first: "k < length fs \<Longrightarrow> fused (fs ! k) = 0 \<Longrightarrow> \<forall>j<k. tt (fused (fs ! j)) \<Longrightarrow> free_from i fs = i + int k"
proof (induction fs arbitrary: i k)
  case (Cons f fs)
  show ?case
  proof (cases k)
    case 0
    then show ?thesis using Cons.prems by simp
  next
    case (Suc k')
    then have "tt (fused f)" "\<forall>j<k'. tt (fused (fs ! j))" using Cons.prems(3) by (auto dest: spec [of _ 0] spec [of _ "Suc _"])
    then show ?thesis using Cons.IH [of k' "i + 1"] Cons.prems Suc by simp
  qed
qed simp

text \<open>
  C39. Renaming to a shorter name: when no slot below the file's own is free, the new entry goes to the
  slot that was just given up, whose old name goes on behind the new one. The file manager then writes
  the contents through index -1 of the file table, after the old entry has been deleted.
\<close>

theorem fileman_rename_shorter_faults:
  assumes inv: "dir_inv st" and b: "browsing fm st" and mode: "input_mode fm = 3" and junk: "length junk = 8192" and some: "listing st \<noteq> []"
    and e: "e = listing st ! nat (selected fm)" "\<not> tt (eis_dir e)" "esize e > 0"
    and new: "new = cstr (input_buf fm)" "new \<noteq> []" "lookup new st = None" "length new < length (cstr (ename e))"
    and low: "find_file (cstr (ename e)) (current_dir st) st = int k" "\<forall>j<k. tt (fused (files st ! j))"
  shows "fileman_keypress bus junk NL fm st = Inl OutOfBounds"
proof -
  have fs: "fs_inv st" using inv by (simp add: dir_inv_def)
  have cnt: "entry_count fm > 0" and il: "input_len fm > 0" using b some new(1,2) by (auto simp: browsing_def input_ok_def lists_def)
  have "e \<in> set (listing st)" using selected_entry(2) [OF b cnt] e(1) by simp
  from listed_slot [OF inv this] low(1) have k: "k < 64" "e = entry_of (files st ! k)" by auto
  define old where "old = cstr (ename e)"
  have old: "nul_free old" "find_file old (current_dir st) st = int k" "lookup old st \<noteq> None"
    using low(1) by (simp_all add: old_def lookup_find_file)
  obtain n buf where r: "fs_read old junk 8192 st = Inr (n, buf, st)" "n \<le> 8192" "n > 0"
    using read_listed [OF fs k(1) old(2) junk] e(3) k(2) by (auto simp: entry_of_def)
  define st1 where "st1 = snd (fs_delete bus old st)"
  have fl: "files st1 = (files st)[k := (files st ! k)\<lparr>fused := 0\<rparr>]" using old(2) by (simp add: st1_def fs_delete_def diskfs_delete_def)
  have len: "length (files st) = 64" by (rule inv_table [OF fs])
  have nf: "nul_free new" and ne: "new \<noteq> old" using new old(3) by auto
  have inv1: "fs_inv st1" using inv_fs_delete [OF fs] by (simp add: st1_def)
  have l1: "lookup new st1 = None"
    using delete_existing [OF inv old(1,3), of bus] nf ne new(3) by (auto simp: st1_def fs_delete_def)
  have "find_free st1 = int k" using free_first [of k "files st1" 0] k(1) len low(2) by (simp add: find_free_def fl)
  moreover have "length new < 31 \<and> fname (files st1 ! k) ! length new \<noteq> NUL"
  proof -
    have "name_ok (fname (files st ! k))" using inv_slot [OF fs k(1)] by simp
    then have "length (cstr (fname (files st ! k))) < 32" using terminated_text(3) name_ok_terminated name_ok_def by metis
    moreover have "cstr (fname (files st ! k)) ! length new = fname (files st ! k) ! length new"
      using new(4) k(2) by (simp add: cstr_def takeWhile_nth entry_of_def)
    moreover have "cstr (fname (files st ! k)) ! length new \<noteq> NUL"
      using new(4) k(2) cstr_nul_free [of "fname (files st ! k)"] nth_mem [of "length new" "cstr (fname (files st ! k))"]
      unfolding nul_free_def by (metis entry_of_def fentry.select_convs(1))
    ultimately show ?thesis using new(4) k(2) k(1) len by (simp add: fl entry_of_def)
  qed
  ultimately have "fs_write bus new buf n st1 = Inl OutOfBounds" using fs_write_lost_name [OF inv1 nf l1] r(2) by blast
  then have "rename_entry bus junk e new st = Inl OutOfBounds" using r e(2) by (simp add: rename_entry_def old_def [symmetric] st1_def [symmetric])
  then have "submit_op bus junk fm (cstr (input_buf fm)) st = Inl OutOfBounds"
    using selected_entry(1) [OF b cnt] il mode new(1) e(1) by (simp add: submit_op_def)
  then show ?thesis using mode submit_text [OF b] by (simp add: fileman_keypress_def input_key_def submit_input_def)
qed

theorem fileman_rename_shorter_faults_witness:
  "\<exists>fm. browsing fm (one_file ''notes'' 3) \<and> fileman_keypress pio_bus (replicate 8192 NUL) NL fm (one_file ''notes'' 3) = Inl OutOfBounds"
proof -
  have n: "nul_free ''notes''" "nul_free ''b''" by (simp_all add: nul_free_def NUL_def)
  let ?st = "one_file ''notes'' 3"
  obtain fm where fm: "browsing fm ?st" "input_mode fm = 3" "cstr (input_buf fm) = ''b''" "selected fm = 0"
    using one_file_rename [OF n(1) _ _ n(2), of 3] by auto
  note f = one_file_facts [OF n(1), of 3]
  have cur: "current_dir ?st = 0" and z: "tt (fused (files ?st ! 0))" using fresh_files by (simp_all add: one_file_def)
  have l: "lookup ''b'' ?st = None" using f(4) [of "''b''"] n(2) by simp
  obtain k where k: "k < 64" "find_file ''notes'' 0 ?st = int k" "listing ?st ! 0 = entry_of (files ?st ! k)"
    using listed_slot [OF f(1), of "listing ?st ! 0"] f(5,6) cur by auto
  then have "k = 1" using f(2) by simp
  then have e: "\<not> tt (eis_dir (listing ?st ! nat (selected fm)))" "esize (listing ?st ! nat (selected fm)) > 0"
    using k(3) fm(4) inv_table [OF hello_fresh(1)] by (simp_all add: entry_of_def one_file_def)
  have "\<forall>j<1. tt (fused (files ?st ! j))" using z by simp
  moreover have "listing ?st \<noteq> []" using f(5) by auto
  ultimately show ?thesis
    using fileman_rename_shorter_faults [OF f(1) fm(1,2) _ _ refl e fm(3) [symmetric] _ l, of "replicate 8192 NUL" 1 pio_bus] fm f(2,6) cur by auto
qed

section \<open>Drawing\<close>

lemma itoa_short:
  assumes "is_int32 v"
  shows "\<exists>b. itoa v (replicate 16 NUL) 10 = Inr b \<and> length b = 16 \<and> NUL \<in> set b \<and> length (cstr b) \<le> 11"
proof (cases "v = - (2 ^ 31)")
  case True
  have "itoa_loop 32 (- 2147483648) 10 [] = Inr []" by (simp add: itoa_loop.simps)
  then show ?thesis unfolding True by (simp add: itoa_def swrap_def numeral_eq_Suc cstr_def)
next
  case False
  then have v: "- (2 ^ 31) < v" "v < 2 ^ 31" using assms by (auto simp: is_int32_def)
  have l: "length (dec_int v) \<le> 11" using v by (rule length_dec_int32)
  have "NUL \<notin> set (dec n)" for n using dec_digits [of n] by (auto simp: list_all_iff is_digit_def NUL_def)
  then have nf: "nul_free (dec_int v)" by (simp add: nul_free_def dec_int_def NUL_def)
  have "blit (replicate 16 NUL) 0 (dec_int v @ [NUL]) = dec_int v @ NUL # drop (length (dec_int v) + 1) (replicate 16 NUL)"
    using l by (subst blit_0) auto
  then have "itoa v (replicate 16 NUL) 10 = Inr (dec_int v @ NUL # drop (length (dec_int v) + 1) (replicate 16 NUL))"
    using itoa_text [OF v, of "replicate 16 NUL"] l by simp
  then show ?thesis using l cstr_append_NUL [OF nf] by simp
qed

lemma size_text_ok:
  assumes "is_int32 sz"
  shows "\<exists>s. size_text sz = Inr s"
proof -
  obtain b where b: "itoa sz (replicate 16 NUL) 10 = Inr b" "length b = 16" "NUL \<in> set b" "length (cstr b) \<le> 11"
    using itoa_short [OF assms] by blast
  let ?n = "length (cstr b)"
  let ?b = "b[?n := CHR '' '', ?n + 1 := CHR ''B'', ?n + 2 := NUL]"
  have "put b (int ?n) (CHR '' '') = Inr (b[?n := CHR '' ''])" using b by (intro put_nth) simp
  moreover have "put (b[?n := CHR '' '']) (int (?n + 1)) (CHR ''B'') = Inr (b[?n := CHR '' '', ?n + 1 := CHR ''B''])" using b by (intro put_nth) simp
  moreover have "put (b[?n := CHR '' '', ?n + 1 := CHR ''B'']) (int (?n + 2)) NUL = Inr ?b" using b by (intro put_nth) simp
  ultimately have "size_text sz = row_text ?b" using b(1) terminated_text(2) [OF b(3)] by (simp add: size_text_def add.commute)
  moreover have "NUL \<in> set ?b" using b by (intro set_update_memI) simp
  ultimately show ?thesis using terminated_text(1) by simp
qed

lemma status_text_ok:
  assumes "fs_inv st" and "browsing fm st"
  shows "\<exists>s. status_text fm = Inr s"
proof -
  have n: "0 \<le> entry_count fm" "entry_count fm \<le> 64" using length_listing [OF assms(1)] assms(2) by (auto simp: browsing_def lists_def)
  then have "is_int32 (entry_count fm)" by (simp add: is_int32_def)
  then obtain b where b: "itoa (entry_count fm) (replicate 16 NUL) 10 = Inr b" "NUL \<in> set b" "length (cstr b) \<le> 11" using itoa_short by blast
  show ?thesis
  proof (cases "entry_count fm > 0")
    case True
    let ?e = "listing st ! nat (selected fm)"
    have "name_ok (ename ?e)" using listing_entry(1) [OF assms(1)] selected_entry(2) [OF assms(2) True] by simp
    then have "NUL \<in> set (ename ?e)" "length (ename ?e) = 32" by (simp_all add: name_ok_terminated) (simp add: name_ok_def)
    then show ?thesis using b True selected_entry(1) [OF assms(2) True] terminated_text(1) [OF b(2)] terminated_text(1,3) [of "ename ?e"]
      by (simp add: status_text_def)
  next
    case False
    then show ?thesis using b terminated_text(1) [OF b(2)] by (simp add: status_text_def)
  qed
qed

lemma draw_entry_paints:
  assumes "fs_inv st" and "lists fm st" and "0 \<le> i + scroll_off fm" and "i + scroll_off fm < entry_count fm" and "drawn g0 g"
  shows "paints g0 (draw_entry fn x ly w fm i g)"
proof -
  let ?e = "fm_entries fm ! nat (i + scroll_off fm)"
  have e: "at (fm_entries fm) (i + scroll_off fm) = Inr ?e" "?e \<in> set (listing st)"
    using listed_entry [OF assms(2,3,4)] by simp_all
  have "row_text (ename ?e) = Inr (cstr (ename ?e))"
    by (rule terminated_text(1) [OF name_ok_terminated [OF listing_entry(1) [OF assms(1) e(2)]]])
  moreover obtain s where "size_text (esize ?e) = Inr s" using size_text_ok [OF listing_entry(2) [OF assms(1) e(2)]] by blast
  ultimately show ?thesis using e(1) assms(5) by (simp add: draw_entry_def Let_def drawn_rules)
qed

text \<open>
  Drawing the file manager: with the list in step with the directory, it ends without leaving any of
  its local arrays (the status line and the two number buffers) and changes visible pixels only, whatever
  the position and size of the window.
\<close>

theorem fileman_draws_clipped:
  assumes inv: "fs_inv st" and b: "browsing fm st" and g: "gfx_ok g"
  shows "\<exists>g'. fileman_draw fn x y w h fm g = Inr (fm\<lparr>fm_x := x, fm_y := y, fm_w := w, fm_h := h\<rparr>, g') \<and> clipped g g'"
proof -
  define fm' where "fm' = fm\<lparr>fm_x := x, fm_y := y, fm_w := w, fm_h := h\<rparr>"
  define g1 where "g1 = draw_rect_outline x (swrap (y + 26)) w (swrap (h - 44)) 0x00334466 (draw_toolbar fn x y w (fill_rect x y w h 0x001A1A2E g))"
  define rows where "rows = [0..min (swrap (h - 44) sdiv 18) (entry_count fm - scroll_off fm) - 1]"
  have fm': "lists fm' st" "entry_count fm' = entry_count fm" "scroll_off fm' = scroll_off fm" "status_text fm' = status_text fm"
      "input_mode fm' = input_mode fm" "input_buf fm' = input_buf fm"
    using b by (simp_all add: fm'_def browsing_def lists_def status_text_def)
  have "drawn g g1" unfolding g1_def draw_toolbar_def
    by (intro drawn_rules drawn_fold) (use g in \<open>auto intro: drawn_rules\<close>)
  moreover have "paints g (draw_entry fn x (swrap (y + 26)) w fm' i g2)" if "i \<in> set rows" "drawn g g2" for i g2
    by (rule draw_entry_paints [OF inv fm'(1) _ _ that(2)]) (use that(1) b fm' in \<open>auto simp: rows_def browsing_def selection_ok_def\<close>)
  ultimately have listed: "paints g (for_each (draw_entry fn x (swrap (y + 26)) w fm') rows g1)" by (intro paints_each)
  obtain s where s: "status_text fm = Inr s" using status_text_ok [OF inv b] by blast
  have "row_text (input_buf fm) = Inr (cstr (input_buf fm))" by (rule submit_text(2) [OF b])
  then have prompt: "paints g (if tt (input_mode fm') then draw_prompt fn x py w fm' g2 else Inr g2)" if "drawn g g2" for py g2
    using that by (simp add: draw_prompt_def fm' Let_def drawn_rules)
  have status: "paints g (draw_fm_status fn x y w h fm' g2)" if "drawn g g2" for g2
    using that by (simp add: draw_fm_status_def fm' s drawn_rules)
  obtain g2 where g2: "for_each (draw_entry fn x (swrap (y + 26)) w fm') rows g1 = Inr g2" "drawn g g2" using listed by (auto simp: paints_def)
  obtain g3 where g3: "(if tt (input_mode fm') then draw_prompt fn x (swrap (swrap (y + 26) + swrap (h - 44) - 20)) w fm' g2 else Inr g2) = Inr g3" "drawn g g3"
    using prompt [OF g2(2)] unfolding paints_def by blast
  obtain g4 where g4: "draw_fm_status fn x y w h fm' g3 = Inr g4" "drawn g g4" using status [OF g3(2)] by (auto simp: paints_def)
  have "fileman_draw fn x y w h fm g = Inr (fm', g4)"
    unfolding fileman_draw_def Let_def fm'_def [symmetric] g1_def [symmetric] using g2(1) g3(1) g4(1) fm'(2,3) by (simp add: rows_def)
  then show ?thesis using g4(2) by (simp add: fm'_def drawn_def)
qed

theorem fileman_draws_clipped_witness:
  "\<exists>fm g'. browsing fm fresh_fs \<and> fileman_draw boot_font 200 120 500 380 fm (scr_gfx boot_screen) = Inr (fm\<lparr>fm_x := 200, fm_y := 120, fm_w := 500, fm_h := 380\<rparr>, g') \<and>
     clipped (scr_gfx boot_screen) g'"
proof -
  obtain fm where fm: "browsing fm fresh_fs" using boot_browsing by blast
  have "gfx_ok (scr_gfx boot_screen)" by (simp add: boot_screen_def boot_gfx_def graphics_init_def gfx_ok_def)
  from fileman_draws_clipped [OF hello_fresh(1) fm this] fm show ?thesis by blast
qed

end
