(* ===== verification/Desktop.thy ===== *)
theory Desktop
  imports Fileman Shell
begin

text \<open>
  The graphical desktop: the drawing and the main loop of the window manager (\<^verbatim>\<open>src/brickwm.c\<close>), the
  terminal window (\<^verbatim>\<open>src/term.c\<close>) and the program manager (\<^verbatim>\<open>src/progman.c\<close>), on top of the window table,
  the terminal buffer, the file manager, the command interpreter and the screen. Function pointers are
  the values of \<open>app\<close>. What one turn of the loop reads (mouse, whether a key has arrived) is an argument;
  the keys themselves are those of the system state, from which the editor takes them too.
\<close>

section \<open>State\<close>

record 'd desk =
  dsys :: "'d system"
  dscr :: "'d screen"
  dcur :: cursor_gfx
  dwm :: wm
  dfm :: fm
  icon_at :: "(int \<times> int) list"
  term_cmd :: "char list"
  term_len :: int
  term_on :: int
  term_handle :: int

text \<open>
  \<open>d_paint\<close> is what a program that draws on the whole screen (\<^verbatim>\<open>clear\<close>, the editor, the
  games) leaves in the framebuffer, given the states before and after.
\<close>

record 'd desk_env =
  d_env :: "('d, unit) env"
  d_paint :: "'d system \<Rightarrow> 'd system \<Rightarrow> gfx \<Rightarrow> gfx"

abbreviation d_bus :: "'d desk_env \<Rightarrow> 'd bus" where "d_bus env \<equiv> e_bus (d_env env)"

definition on_gfx :: "(gfx \<Rightarrow> gfx) \<Rightarrow> 'd desk \<Rightarrow> 'd desk" where
  "on_gfx f d = d\<lparr>dscr := (dscr d)\<lparr>scr_gfx := f (scr_gfx (dscr d))\<rparr>\<rparr>"

definition pointer_erase :: "'d desk \<Rightarrow> 'd desk" where
  "pointer_erase d = (let (c, g) = cursor_gfx_erase (dcur d, scr_gfx (dscr d)) in d\<lparr>dcur := c, dscr := (dscr d)\<lparr>scr_gfx := g\<rparr>\<rparr>)"

definition pointer_draw :: "int \<times> int \<Rightarrow> 'd desk \<Rightarrow> 'd desk" where
  "pointer_draw p d = (let (c, g) = cursor_gfx_draw (fst p) (snd p) (dcur d, scr_gfx (dscr d)) in d\<lparr>dcur := c, dscr := (dscr d)\<lparr>scr_gfx := g\<rparr>\<rparr>)"

text \<open>A new system state whose additional text is shown on the screen, in the mode the screen is in.\<close>

definition show_sys :: "'d desk_env \<Rightarrow> 'd system \<Rightarrow> 'd desk \<Rightarrow> 'd desk result" where
  "show_sys env s d =
     bind_result (print (d_bus env) (drop (length (out (dsys d))) (out s)) (dscr d)) (\<lambda>scr. Inr (d\<lparr>dsys := s, dscr := scr\<rparr>))"

definition show_program :: "'d desk_env \<Rightarrow> 'd system \<Rightarrow> 'd desk \<Rightarrow> 'd desk result" where
  "show_program env s d = bind_result (show_sys env s d) (\<lambda>d'. Inr (on_gfx (d_paint env (dsys d) s) d'))"

section \<open>progman.c: drawing\<close>

definition draw_terminal_icon :: "font \<Rightarrow> int \<Rightarrow> int \<Rightarrow> gfx \<Rightarrow> gfx" where
  "draw_terminal_icon fn x y g =
     (let g = fill_rect (swrap (x + 17)) (swrap (y + 12)) 46 34 0x050505 g;
          g = draw_rect_outline (swrap (x + 17)) (swrap (y + 12)) 46 34 0x66DD88 g
      in font_draw_string fn (swrap (x + 24)) (swrap (y + 22)) ''>_'' 0x66DD88 0x050505 g)"

definition draw_files_icon :: "int \<Rightarrow> int \<Rightarrow> gfx \<Rightarrow> gfx" where
  "draw_files_icon x y g =
     (let g = fill_rect (swrap (x + 16)) (swrap (y + 18)) 48 32 0xD6A84A g;
          g = fill_rect (swrap (x + 16)) (swrap (y + 12)) 24 10 0xF0C46B g
      in draw_rect_outline (swrap (x + 16)) (swrap (y + 18)) 48 32 0x7A5420 g)"

definition draw_editor_icon :: "int \<Rightarrow> int \<Rightarrow> gfx \<Rightarrow> gfx" where
  "draw_editor_icon x y g =
     (let g = fill_rect (swrap (x + 21)) (swrap (y + 10)) 34 44 0xEEEEEE g;
          g = draw_rect_outline (swrap (x + 21)) (swrap (y + 10)) 34 44 0x333333 g;
          g = fill_rect (swrap (x + 27)) (swrap (y + 20)) 22 2 0x333333 g;
          g = fill_rect (swrap (x + 27)) (swrap (y + 28)) 22 2 0x333333 g;
          g = fill_rect (swrap (x + 27)) (swrap (y + 36)) 16 2 0x333333 g;
          g = fill_rect (swrap (x + 51)) (swrap (y + 38)) 14 5 0xF0C000 g
      in fill_rect (swrap (x + 62)) (swrap (y + 36)) 4 9 0x333333 g)"

definition draw_doom_icon :: "int \<Rightarrow> int \<Rightarrow> gfx \<Rightarrow> gfx" where
  "draw_doom_icon x y g =
     (let g = fill_rect (swrap (x + 16)) (swrap (y + 14)) 48 34 0x601010 g;
          g = draw_rect_outline (swrap (x + 16)) (swrap (y + 14)) 48 34 0xD05030 g;
          g = fill_rect (swrap (x + 25)) (swrap (y + 24)) 30 12 0x202020 g;
          g = fill_rect (swrap (x + 36)) (swrap (y + 18)) 8 24 0xC0C0C0 g
      in fill_rect (swrap (x + 31)) (swrap (y + 37)) 18 8 0x505050 g)"

definition draw_icon_graphic :: "font \<Rightarrow> nat \<Rightarrow> int \<Rightarrow> int \<Rightarrow> gfx \<Rightarrow> gfx" where
  "draw_icon_graphic fn idx x y g =
     (if idx = 0 then draw_terminal_icon fn x y g
      else if idx = 1 then draw_files_icon x y g
      else if idx = 2 then draw_editor_icon x y g
      else if idx = 3 then draw_doom_icon x y g
      else g)"

definition icon_names :: "string list" where
  "icon_names = [''Terminal'', ''Files'', ''Editor'', ''DOOM'']"

definition icon_pos :: "int \<Rightarrow> int \<Rightarrow> nat \<Rightarrow> int \<times> int" where
  "icon_pos x y i = (swrap (x + 20 + int (i mod 5) * 80 + 10), swrap (y + 20 + int (i div 5) * 80 + 10))"

definition draw_icon :: "font \<Rightarrow> int \<Rightarrow> int \<Rightarrow> nat \<Rightarrow> gfx \<Rightarrow> gfx" where
  "draw_icon fn x y i g =
     (let (ix, iy) = icon_pos x y i;
          name = icon_names ! i;
          g = fill_rect ix iy 80 80 0x1B2A31 g;
          g = draw_rect_outline ix iy 80 80 0x8DB9C7 g;
          g = draw_icon_graphic fn i ix iy g;
          label_x = swrap (ix + (80 - int (length name) * font_char_width) sdiv 2);
          label_x = (if label_x < swrap (ix + 2) then swrap (ix + 2) else label_x)
      in font_draw_string fn label_x (swrap (iy + 60)) name 0xFFFFFF 0x1B2A31 g)"

definition draw_progman :: "font \<Rightarrow> int \<Rightarrow> int \<Rightarrow> int \<Rightarrow> int \<Rightarrow> gfx \<Rightarrow> (int \<times> int) list \<times> gfx" where
  "draw_progman fn x y w h g =
     (map (icon_pos x y) [0..<4], fold (draw_icon fn x y) [0..<4] (fill_rect x y w h 0x114455 g))"

definition in_icon :: "int \<Rightarrow> int \<Rightarrow> int \<times> int \<Rightarrow> bool" where
  "in_icon px py p \<longleftrightarrow> px \<ge> fst p \<and> px < swrap (fst p + 80) \<and> py \<ge> snd p \<and> py < swrap (snd p + 80)"

fun find_icon_from :: "nat \<Rightarrow> int \<Rightarrow> int \<Rightarrow> (int \<times> int) list \<Rightarrow> int" where
  "find_icon_from i px py [] = - 1"
| "find_icon_from i px py (p # ps) = (if in_icon px py p then int i else find_icon_from (Suc i) px py ps)"

definition find_icon_click :: "int \<Rightarrow> int \<Rightarrow> 'd desk \<Rightarrow> int" where
  "find_icon_click px py d = find_icon_from 0 px py (icon_at d)"

section \<open>brickwm.c: drawing\<close>

text \<open>The draw functions the window table points to; \<^verbatim>\<open>term_draw\<close> renders the terminal buffer.\<close>

definition run_draw :: "app \<Rightarrow> int \<Rightarrow> int \<Rightarrow> int \<Rightarrow> int \<Rightarrow> 'd desk \<Rightarrow> 'd desk result" where
  "run_draw a x y w h d =
     (let fn = scr_font (dscr d) in
      case a of
        App_Progman \<Rightarrow> Inr (let (pos, g) = draw_progman fn x y w h (scr_gfx (dscr d)) in d\<lparr>icon_at := pos, dscr := (dscr d)\<lparr>scr_gfx := g\<rparr>\<rparr>)
      | App_Term \<Rightarrow> Inr (on_gfx (term_io_render fn x y (scr_term (dscr d))) d)
      | App_Fileman \<Rightarrow> bind_result (fileman_draw fn x y w h (dfm d) (scr_gfx (dscr d))) (\<lambda>(fm, g).
          Inr (d\<lparr>dfm := fm, dscr := (dscr d)\<lparr>scr_gfx := g\<rparr>\<rparr>)))"

definition frame_window :: "font \<Rightarrow> window \<Rightarrow> gfx \<Rightarrow> gfx result" where
  "frame_window fn w g =
     (let x = win_px w; y = win_py w; pw = win_pw w; ph = win_ph w;
          g = fill_rect (swrap (x + 3)) (swrap (y + 3)) pw (swrap (ph + 20)) 0x000000 g;
          g = draw_rect_outline (swrap (x - 2)) (swrap (y - 2)) (swrap (pw + 4)) (swrap (ph + 20 + 4)) 0x888888 g;
          tbcol = (if tt (active w) then 0x0D2E5A else 0x224466);
          g = fill_rect x y pw 20 tbcol g
      in bind_result (row_text (title w)) (\<lambda>t.
           let g = font_draw_string fn (swrap (x + 4)) (swrap (y + 4)) t 0xFFFFFF tbcol g;
               g = fill_rect (swrap (x + pw - 18)) (swrap (y + 2)) 14 14 0xCC2200 g;
               g = font_draw_string fn (swrap (x + pw - 14)) (swrap (y + 4)) ''X'' 0xFFFFFF 0xCC2200 g
           in Inr (fill_rect x (swrap (y + 20)) pw ph 0x000000 g)))"

definition draw_window :: "nat \<Rightarrow> 'd desk \<Rightarrow> 'd desk result" where
  "draw_window idx d =
     (let w = windows (dwm d) ! idx in
      if use_count w = 0 then Inr d
      else bind_result (frame_window (scr_font (dscr d)) w (scr_gfx (dscr d))) (\<lambda>g.
        let d = d\<lparr>dscr := (dscr d)\<lparr>scr_gfx := g\<rparr>\<rparr> in
        case win_draw w of
          None \<Rightarrow> Inr d
        | Some a \<Rightarrow> run_draw a (win_px w) (swrap (win_py w + 20)) (win_pw w) (win_ph w) d))"

definition draw_all :: "'d desk \<Rightarrow> 'd desk result" where
  "draw_all d = for_each draw_window [0..<8] (on_gfx (fill_screen 0x003366) (pointer_erase d))"

definition redraw_all_with_cursor :: "int \<times> int \<Rightarrow> 'd desk \<Rightarrow> 'd desk result" where
  "redraw_all_with_cursor p d = bind_result (draw_all d) (\<lambda>d. Inr (pointer_draw p d))"

definition brickwm_close_window :: "int \<Rightarrow> 'd desk \<Rightarrow> 'd desk result" where
  "brickwm_close_window handle d =
     (let (closed, m) = close_slot handle (dwm d) in if closed then draw_all (d\<lparr>dwm := m\<rparr>) else Inr d)"

section \<open>term.c\<close>

fun strcmp_term :: "string \<Rightarrow> string \<Rightarrow> int" where
  "strcmp_term (a # as) (b # bs) = (if a = b then strcmp_term as bs else schar a - schar b)"
| "strcmp_term (a # as) [] = schar a"
| "strcmp_term [] (b # bs) = - schar b"
| "strcmp_term [] [] = 0"

definition set_term :: "(termbuf \<Rightarrow> termbuf result) \<Rightarrow> 'd desk \<Rightarrow> 'd desk result" where
  "set_term f d = bind_result (f (scr_term (dscr d))) (\<lambda>t. Inr (d\<lparr>dscr := (dscr d)\<lparr>scr_term := t\<rparr>\<rparr>))"

text \<open>A command runs with the output of \<^verbatim>\<open>print\<close> going to the terminal buffer.\<close>

definition run_command :: "'d desk_env \<Rightarrow> string \<Rightarrow> 'd desk \<Rightarrow> 'd desk result" where
  "run_command env line d =
     (let d = d\<lparr>dscr := screen_set_terminal_output 1 (dscr d)\<rparr> in
      bind_result (execute_command (d_env env) line (dsys d)) (\<lambda>s.
      bind_result (show_program env s d) (\<lambda>d. Inr (d\<lparr>dscr := screen_set_terminal_output 0 (dscr d)\<rparr>))))"

definition term_prompt :: "'d desk \<Rightarrow> 'd desk result" where
  "term_prompt d = bind_result (put (term_cmd d) 0 NUL) (\<lambda>b. set_term (term_io_print ''> '') (d\<lparr>term_cmd := b, term_len := 0\<rparr>))"

definition term_handle_key :: "'d desk_env \<Rightarrow> char \<Rightarrow> 'd desk \<Rightarrow> 'd desk result" where
  "term_handle_key env c d =
     (if term_on d = 0 then Inr d
      else if c = NL then
        bind_result (set_term (term_io_putchar NL) d) (\<lambda>d.
        bind_result (put (term_cmd d) (term_len d) NUL) (\<lambda>b.
          let d = d\<lparr>term_cmd := b\<rparr> in
          if term_len d > 0 then
            bind_result (row_text b) (\<lambda>line.
              if strcmp_term line ''exit'' = 0
              then let d = d\<lparr>term_on := 0\<rparr> in if term_handle d \<ge> 0 then brickwm_close_window (term_handle d) d else Inr d
              else bind_result (run_command env line d) (\<lambda>d. if halted (dsys d) then Inr d else term_prompt d))
          else term_prompt d))
      else if c = BS then
        if term_len d > 0
        then bind_result (put (term_cmd d) (term_len d - 1) NUL) (\<lambda>b.
          set_term (term_io_putchar BS) (d\<lparr>term_cmd := b, term_len := term_len d - 1\<rparr>))
        else Inr d
      else if 32 \<le> schar c \<and> schar c \<le> 126 then
        if term_len d < 255
        then bind_result (put (term_cmd d) (term_len d) c) (\<lambda>b.
          bind_result (put b (term_len d + 1) NUL) (\<lambda>b.
            set_term (term_io_putchar c) (d\<lparr>term_cmd := b, term_len := term_len d + 1\<rparr>)))
        else Inr d
      else Inr d)"

definition term_set_window_handle :: "int \<Rightarrow> 'd desk \<Rightarrow> 'd desk" where
  "term_set_window_handle handle d = d\<lparr>term_handle := handle\<rparr>"

definition terminal_run :: "'d desk \<Rightarrow> 'd desk result" where
  "terminal_run d =
     bind_result (set_term (\<lambda>t. Inr (term_io_init t)) d) (\<lambda>d.
     bind_result (put (term_cmd d) 0 NUL) (\<lambda>b.
     bind_result (set_term (term_io_print (''FalastinOS Terminal'' @ [NL])) (d\<lparr>term_on := 1, term_len := 0, term_cmd := b, term_handle := - 1\<rparr>)) (\<lambda>d.
     bind_result (set_term (term_io_print (''Type '' @ [CHR 0x27] @ ''exit'' @ [CHR 0x27] @ '' to close'' @ [NL, NL] @ ''> '')) d) (\<lambda>d.
       let (handle, m) = brickwm_create_window ''Terminal'' 150 100 500 350 (Some App_Term) (Some App_Term) (dwm d)
       in Inr (term_set_window_handle handle (d\<lparr>dwm := m, term_handle := handle\<rparr>))))))"

section \<open>progman.c: starting programs\<close>

definition launch_terminal :: "'d desk \<Rightarrow> 'd desk result" where
  "launch_terminal d = terminal_run d"

definition launch_fileman :: "'d desk \<Rightarrow> 'd desk result" where
  "launch_fileman d = bind_result (fileman_run 200 100 500 380 (dfm d) (dwm d) (dsys d)) (\<lambda>(fm, m). Inr (d\<lparr>dfm := fm, dwm := m\<rparr>))"

definition launch_editor :: "'d desk_env \<Rightarrow> 'd desk \<Rightarrow> 'd desk result" where
  "launch_editor env d =
     bind_result (editor_open (d_bus env) (chars_of (e_stack (d_env env) 16384)) (keys_ahead (dsys d)) ''notes.txt'' (dsys d)) (\<lambda>(keys, s).
       show_program env (s\<lparr>keys_ahead := keys\<rparr>) d)"

definition launch_doom :: "'d desk_env \<Rightarrow> 'd desk \<Rightarrow> 'd desk result" where
  "launch_doom env d = bind_result (run_doom (d_env env) (dsys d)) (\<lambda>s. show_program env s d)"

definition launch :: "'d desk_env \<Rightarrow> nat \<Rightarrow> 'd desk \<Rightarrow> 'd desk result" where
  "launch env i d =
     (if i = 0 then launch_terminal d else if i = 1 then launch_fileman d else if i = 2 then launch_editor env d else launch_doom env d)"

definition progman_handle_click :: "'d desk_env \<Rightarrow> int \<Rightarrow> int \<Rightarrow> 'd desk \<Rightarrow> 'd desk result" where
  "progman_handle_click env px py d =
     (let clicked = find_icon_click px py d in if clicked \<ge> 0 \<and> clicked < 4 then launch env (nat clicked) d else Inr d)"

section \<open>brickwm.c: the main loop\<close>

text \<open>
  What one turn of the loop reads: the mouse, whether a key is there, and the pointer positions that the
  redraws of the drag, the click and the key branch read anew.
\<close>

record round =
  r_x :: int
  r_y :: int
  r_b :: int
  r_ready :: bool
  r_drag :: "int \<times> int"
  r_click :: "int \<times> int"
  r_key :: "int \<times> int"

definition set_window :: "int \<Rightarrow> (window \<Rightarrow> window) \<Rightarrow> 'd desk \<Rightarrow> 'd desk result" where
  "set_window i f d = bind_result (at (windows (dwm d)) i) (\<lambda>w. bind_result (put (windows (dwm d)) i (f w)) (\<lambda>ws. Inr (d\<lparr>dwm := (dwm d)\<lparr>windows := ws\<rparr>\<rparr>)))"

definition wm_drag :: "round \<Rightarrow> bool \<Rightarrow> 'd desk \<Rightarrow> 'd desk result" where
  "wm_drag r moved d =
     (let m = dwm d in
      if tt (dragging m) \<and> odd (r_b r) \<and> moved \<and> drag_win m \<ge> 0
      then bind_result (set_window (drag_win m) (\<lambda>w. w\<lparr>win_px := swrap (r_x r - drag_off_x m), win_py := swrap (r_y r - drag_off_y m)\<rparr>) d)
        (redraw_all_with_cursor (r_drag r))
      else Inr d)"

definition wm_release :: "round \<Rightarrow> int \<Rightarrow> 'd desk \<Rightarrow> 'd desk" where
  "wm_release r lb d =
     (if even (r_b r) \<and> odd lb \<and> tt (dragging (dwm d)) then d\<lparr>dwm := (dwm d)\<lparr>dragging := 0, drag_win := - 1\<rparr>\<rparr> else d)"

definition activate :: "nat \<Rightarrow> wm \<Rightarrow> wm" where
  "activate k m = m\<lparr>windows := map (\<lambda>i. (windows m ! i)\<lparr>active := yn (i = k)\<rparr>) [0..<length (windows m)]\<rparr>"

definition wm_click :: "'d desk_env \<Rightarrow> round \<Rightarrow> 'd desk \<Rightarrow> 'd desk result" where
  "wm_click env r d =
     (let px = r_x r; py = r_y r; clicked = find_window_at px py (dwm d) in
      if clicked < 0 then Inr d
      else let k = nat clicked; d = d\<lparr>dwm := activate k (dwm d)\<rparr>; w = windows (dwm d) ! k in
        if check_close_click px py w then brickwm_close_window clicked d
        else if check_titlebar_click px py w
        then redraw_all_with_cursor (r_click r)
          (d\<lparr>dwm := (dwm d)\<lparr>dragging := 1, drag_win := clicked, drag_off_x := swrap (px - win_px w), drag_off_y := swrap (py - win_py w)\<rparr>\<rparr>)
        else if check_client_click px py w
        then bind_result (row_text (title w)) (\<lambda>t.
             bind_result (if title_equals t ''Program Manager'' then progman_handle_click env px py d else Inr d) (redraw_all_with_cursor (r_click r)))
        else Inr d)"

definition run_key :: "'d desk_env \<Rightarrow> app \<Rightarrow> char \<Rightarrow> 'd desk \<Rightarrow> 'd desk result" where
  "run_key env a c d =
     (case a of
        App_Term \<Rightarrow> term_handle_key env c d
      | App_Fileman \<Rightarrow> bind_result (fileman_keypress (d_bus env) (chars_of (e_stack (d_env env) 8192)) c (dfm d) (dsys d)) (\<lambda>(fm, s).
          show_sys env s (d\<lparr>dfm := fm\<rparr>))
      | App_Progman \<Rightarrow> Inl BadArgument)"

definition wm_key :: "'d desk_env \<Rightarrow> round \<Rightarrow> 'd desk \<Rightarrow> 'd desk result" where
  "wm_key env r d =
     (case keys_ahead (dsys d) of
        [] \<Rightarrow> Inr d
      | c # ks \<Rightarrow>
          if \<not> r_ready r then Inr d
          else let d = d\<lparr>dsys := (dsys d)\<lparr>keys_ahead := ks\<rparr>\<rparr>; fw = focused_window (dwm d) in
            if fw < 0 then Inr d
            else case win_key (windows (dwm d) ! nat fw) of
                None \<Rightarrow> Inl BadArgument
              | Some a \<Rightarrow> bind_result (run_key env a c (pointer_erase d)) (\<lambda>d.
                  if halted (dsys d) then Inr d
                  else bind_result (draw_window (nat fw) d) (\<lambda>d. Inr (pointer_draw (r_key r) d))))"

text \<open>The call of \<^verbatim>\<open>lwip_poll\<close>; when it does not return, neither does the turn, which is \<open>NoEvent\<close>.\<close>

definition desk_poll :: "'d desk_env \<Rightarrow> 'd desk \<Rightarrow> 'd desk result" where
  "desk_poll env d =
     bind_result (ended (lwip_poll (e_lwip (d_env env)) (e_nic (d_env env)) (e_stack (d_env env) 2048) (dsys d))) (\<lambda>r.
     bind_result r (\<lambda>s. show_sys env s d))"

definition wm_round :: "'d desk_env \<Rightarrow> round \<Rightarrow> int \<times> int \<times> int \<Rightarrow> 'd desk \<Rightarrow> 'd desk result" where
  "wm_round env r l d =
     (let (lx, ly, lb) = l;
          left_down = (odd (r_b r) \<and> even lb);
          moved = (r_x r \<noteq> lx \<or> r_y r \<noteq> ly)
      in bind_result (desk_poll env d) (\<lambda>d.
         bind_result (wm_drag r moved d) (\<lambda>d.
           let d = wm_release r lb d in
           bind_result (if left_down then wm_click env r d else Inr d) (\<lambda>d.
             if halted (dsys d) then Inr d
             else bind_result (wm_key env r d) (\<lambda>d.
               if halted (dsys d) then Inr d
               else Inr (if moved then pointer_draw (r_x r, r_y r) (pointer_erase d) else d))))))"

text \<open>\<open>True\<close> when the loop has ended, \<open>False\<close> when it goes on after the given turns or the processor was stopped.\<close>

fun wm_loop :: "'d desk_env \<Rightarrow> round list \<Rightarrow> int \<times> int \<times> int \<Rightarrow> 'd desk \<Rightarrow> (bool \<times> 'd desk) result" where
  "wm_loop env rs l d =
     (if halted (dsys d) then Inr (False, d)
      else if \<not> (tt (running (dwm d)) \<and> window_count (dwm d) > 0) then Inr (True, on_gfx (fill_screen 0x003366) d)
      else case rs of
          [] \<Rightarrow> Inr (False, d)
        | r # rs' \<Rightarrow> bind_result (wm_round env r l d) (wm_loop env rs' (r_x r, r_y r, r_b r)))"

declare wm_loop.simps [simp del]

definition brickwm_run :: "'d desk_env \<Rightarrow> int \<times> int \<Rightarrow> round list \<Rightarrow> 'd desk \<Rightarrow> (bool \<times> 'd desk) result" where
  "brickwm_run env p rs d = bind_result (redraw_all_with_cursor p d) (wm_loop env rs (0, 0, 0))"

definition progman_run :: "'d desk_env \<Rightarrow> int \<times> int \<Rightarrow> round list \<Rightarrow> 'd desk \<Rightarrow> (bool \<times> 'd desk) result" where
  "progman_run env p rs d =
     (let (i, m) = brickwm_create_window ''Program Manager'' 100 50 500 400 (Some App_Progman) None (brickwm_init (dwm d))
      in brickwm_run env p rs (d\<lparr>dwm := m\<rparr>))"

section \<open>Pictures\<close>

lemma for_int_fb: "(\<And>i g. \<exists>p. f i g = g\<lparr>fb := p\<rparr>) \<Longrightarrow> \<exists>p. for_int a b f g = g\<lparr>fb := p\<rparr>"
proof -
  assume f: "\<And>i g. \<exists>p. f i g = g\<lparr>fb := p\<rparr>"
  have "\<exists>p. fold f xs g = g\<lparr>fb := p\<rparr>" for xs
  proof (induction xs arbitrary: g)
    case Nil
    show ?case by (auto intro!: exI [of _ "fb g"])
  next
    case (Cons x xs)
    obtain p where "f x g = g\<lparr>fb := p\<rparr>" using f by blast
    with Cons [of "g\<lparr>fb := p\<rparr>"] show ?case by auto
  qed
  then show ?thesis by (simp add: for_int_def)
qed

lemma fb_id: "\<exists>p. g = g\<lparr>fb := p\<rparr>"
  by (rule exI [of _ "fb g"]) simp

lemma put_pixel_fb: "\<exists>p. put_pixel x y c g = g\<lparr>fb := p\<rparr>"
  by (auto simp: put_pixel_def intro: fb_id)

lemma drawn_fb: "drawn g g' \<Longrightarrow> \<exists>p. g' = g\<lparr>fb := p\<rparr>"
  by (auto simp: drawn_def clipped_def)

lemma pointer_erase_fb: "\<exists>c p. pointer_erase d = d\<lparr>dcur := c, dscr := (dscr d)\<lparr>scr_gfx := (scr_gfx (dscr d))\<lparr>fb := p\<rparr>\<rparr>\<rparr> \<and> saved c = saved (dcur d)"
proof -
  have "\<exists>c p. cursor_gfx_erase (dcur d, scr_gfx (dscr d)) = (c, (scr_gfx (dscr d))\<lparr>fb := p\<rparr>) \<and> saved c = saved (dcur d)"
  proof (cases "saved_x (dcur d) < 0")
    case True
    then show ?thesis by (auto simp: cursor_gfx_erase_def intro!: exI [of _ "dcur d"] exI [of _ "fb (scr_gfx (dscr d))"])
  next
    case False
    have "\<exists>p. for_int 0 16 (\<lambda>y g. for_int 0 16 (\<lambda>x g.
            let px = swrap (saved_x (dcur d) + x); py = swrap (saved_y (dcur d) + y) in
            if on_screen px py g then g\<lparr>fb := (fb g)(cur_index px py g := saved (dcur d) ! nat (y * 16 + x))\<rparr> else g) g) (scr_gfx (dscr d)) =
        (scr_gfx (dscr d))\<lparr>fb := p\<rparr>"
      by (intro for_int_fb) (auto simp: Let_def intro: fb_id)
    then show ?thesis using False by (auto simp: cursor_gfx_erase_def)
  qed
  then obtain c p where "cursor_gfx_erase (dcur d, scr_gfx (dscr d)) = (c, (scr_gfx (dscr d))\<lparr>fb := p\<rparr>)" "saved c = saved (dcur d)" by blast
  then show ?thesis by (intro exI [of _ c] exI [of _ p]) (simp add: pointer_erase_def)
qed

lemma pointer_draw_fb:
  "\<exists>c p. pointer_draw q d = d\<lparr>dcur := c, dscr := (dscr d)\<lparr>scr_gfx := (scr_gfx (dscr d))\<lparr>fb := p\<rparr>\<rparr>\<rparr> \<and> length (saved c) = 256"
proof -
  define c where "c = (dcur d)\<lparr>saved_x := fst q, saved_y := snd q, saved := save_background (fst q) (snd q) (scr_gfx (dscr d))\<rparr>"
  have "\<exists>p. for_int 0 16 (\<lambda>cy g. for_int 0 16 (\<lambda>cx g.
           let px = swrap (fst q + cx); py = swrap (snd q + cy) in
           if \<not> on_screen px py g then g
           else let p = cursor_shape ! nat cy ! nat cx in
             if p = 1 then put_pixel px py 0x000000 g else if p = 2 then put_pixel px py 0xFFFFFF g else g) g) (scr_gfx (dscr d)) =
      (scr_gfx (dscr d))\<lparr>fb := p\<rparr>"
    by (intro for_int_fb) (auto simp: Let_def intro: fb_id put_pixel_fb)
  then obtain p where "cursor_gfx_draw (fst q) (snd q) (dcur d, scr_gfx (dscr d)) = (c, (scr_gfx (dscr d))\<lparr>fb := p\<rparr>)"
    by (auto simp: cursor_gfx_draw_def c_def)
  moreover have "length (saved c) = 256" by (simp add: c_def save_background_def)
  ultimately show ?thesis by (intro exI [of _ c] exI [of _ p]) (simp add: pointer_draw_def)
qed

section \<open>The invariant\<close>

definition line_ok :: "char list \<Rightarrow> int \<Rightarrow> bool" where
  "line_ok b n \<longleftrightarrow> length b = 256 \<and> NUL \<in> set b \<and> n = int (length (cstr b))"

definition keys_ok :: "wm \<Rightarrow> bool" where
  "keys_ok m \<longleftrightarrow> (\<forall>w\<in>set (windows m). win_key w \<noteq> Some App_Progman)"

text \<open>
  The file manager's list is that of some consistent file system, not always of the present one: a command in the
  terminal can change the files without the list being made anew.
\<close>

definition fm_ok :: "'d system itself \<Rightarrow> fm \<Rightarrow> bool" where
  "fm_ok t fm \<longleftrightarrow> (\<exists>st0 :: 'd system. fs_inv st0 \<and> browsing fm st0)"

definition desk_ok :: "'d desk \<Rightarrow> bool" where
  "desk_ok d \<longleftrightarrow> wm_ok (dwm d) \<and> keys_ok (dwm d) \<and> screen_ok (dscr d) \<and> fs_inv (dsys d) \<and> fm_ok TYPE('d system) (dfm d) \<and>
     line_ok (term_cmd d) (term_len d) \<and> length (icon_at d) = 4 \<and> length (saved (dcur d)) = 256"

definition runs :: "'d desk result \<Rightarrow> bool" where
  "runs r \<longleftrightarrow> (\<exists>d. r = Inr d \<and> desk_ok d)"

definition stays :: "'d desk result \<Rightarrow> bool" where
  "stays r \<longleftrightarrow> (\<forall>d. r = Inr d \<longrightarrow> desk_ok d)"

lemma runs_stays: "runs r \<Longrightarrow> stays r"
  by (auto simp: runs_def stays_def)

lemma runs_Inr [simp]: "runs (Inr d) = desk_ok d" and stays_Inr [simp]: "stays (Inr d) = desk_ok d" and stays_Inl [simp]: "stays (Inl e)"
  by (simp_all add: runs_def stays_def)

lemma runs_bind: "runs r \<Longrightarrow> (\<And>d. desk_ok d \<Longrightarrow> runs (f d)) \<Longrightarrow> runs (bind_result r f)"
  by (auto simp: runs_def)

lemma stays_bind: "stays r \<Longrightarrow> (\<And>d. desk_ok d \<Longrightarrow> stays (f d)) \<Longrightarrow> stays (bind_result r f)"
  by (auto simp: stays_def bind_result_Inr_iff)

lemma screen_ok_mode: "screen_ok (s\<lparr>terminal_output_mode := m\<rparr>) = screen_ok s"
  by (simp add: screen_ok_def)

lemma desk_ok_fb: "desk_ok d \<Longrightarrow> desk_ok (d\<lparr>dscr := (dscr d)\<lparr>scr_gfx := (scr_gfx (dscr d))\<lparr>fb := p\<rparr>\<rparr>\<rparr>)"
  by (simp add: desk_ok_def screen_ok_fb)

lemma desk_ok_drawn: "desk_ok d \<Longrightarrow> drawn (scr_gfx (dscr d)) g \<Longrightarrow> desk_ok (d\<lparr>dscr := (dscr d)\<lparr>scr_gfx := g\<rparr>\<rparr>)"
  by (auto dest!: drawn_fb simp: desk_ok_fb)

lemma desk_gfx: "desk_ok d \<Longrightarrow> gfx_ok (scr_gfx (dscr d))"
  by (simp add: desk_ok_def screen_ok_def)

lemma desk_on_gfx: "desk_ok d \<Longrightarrow> (\<And>g. \<exists>p. f g = g\<lparr>fb := p\<rparr>) \<Longrightarrow> desk_ok (on_gfx f d)"
proof -
  assume d: "desk_ok d" and f: "\<And>g. \<exists>p. f g = g\<lparr>fb := p\<rparr>"
  obtain p where "f (scr_gfx (dscr d)) = (scr_gfx (dscr d))\<lparr>fb := p\<rparr>" using f by blast
  then show "desk_ok (on_gfx f d)" using d by (simp add: on_gfx_def desk_ok_fb)
qed

lemma desk_erase: "desk_ok d \<Longrightarrow> desk_ok (pointer_erase d)"
  using pointer_erase_fb [of d] by (auto simp: desk_ok_def screen_ok_fb)

lemma desk_draw: "desk_ok d \<Longrightarrow> desk_ok (pointer_draw q d)"
  using pointer_draw_fb [of q d] by (auto simp: desk_ok_def screen_ok_fb)

section \<open>Drawing windows\<close>

lemma drawn_icons [drawn_rules]:
  assumes "drawn g0 g"
  shows "drawn g0 (draw_icon_graphic fn i x y g)"
  unfolding draw_icon_graphic_def draw_terminal_icon_def draw_files_icon_def draw_editor_icon_def draw_doom_icon_def Let_def
  using assms by (simp add: drawn_rules)

lemma draw_progman_drawn: "gfx_ok g \<Longrightarrow> drawn g (snd (draw_progman fn x y w h g))"
proof -
  assume g: "gfx_ok g"
  have "drawn g (draw_icon fn x y i g1)" if "drawn g g1" for i g1
    using that by (simp add: draw_icon_def Let_def case_prod_beta drawn_rules)
  then show ?thesis using g by (simp only: draw_progman_def snd_conv) (intro drawn_fold drawn_rules)
qed

lemma term_render_drawn: "gfx_ok g \<Longrightarrow> drawn g (term_io_render fn x y t g)"
proof -
  assume g: "gfx_ok g"
  have row: "drawn g (for_int 0 75 (\<lambda>col g. let c = term_output t ! nat row ! nat col in
      if c \<noteq> NUL then font_draw_char fn (swrap (x + col * 8)) (swrap (y + row * 16)) c 0x00FF00 0x000000 g else g) g1)" if "drawn g g1" for row g1
    unfolding for_int_def by (rule drawn_fold [OF _ that]) (simp add: Let_def drawn_rules)
  show ?thesis unfolding term_io_render_def Let_def
    by (intro drawn_rules) (unfold for_int_def [of 0 30], intro drawn_fold row [unfolded Let_def] drawn_rules g)
qed

lemma frame_paints:
  assumes "window_ok w" and "gfx_ok g"
  shows "paints g (frame_window fn w g)"
proof -
  have "NUL \<in> set (title w)" using assms(1) nth_mem [of 31 "title w"] by (auto simp: window_ok_def)
  then show ?thesis using assms(2) by (simp add: frame_window_def Let_def terminated_text(1) drawn_rules)
qed

lemma fm_ok_place: "fm_ok t (fm\<lparr>fm_x := x, fm_y := y, fm_w := w, fm_h := h\<rparr>) = fm_ok t fm"
  by (simp add: fm_ok_def browsing_def lists_def selection_ok_def input_ok_def)

lemma run_draw_runs:
  assumes "desk_ok d"
  shows "runs (run_draw a x y w h d)"
proof (cases a)
  case App_Progman
  have "drawn (scr_gfx (dscr d)) (snd (draw_progman (scr_font (dscr d)) x y w h (scr_gfx (dscr d))))"
    by (rule draw_progman_drawn [OF desk_gfx [OF assms]])
  from desk_ok_drawn [OF assms this] show ?thesis
    by (simp add: run_draw_def App_Progman case_prod_beta) (simp add: desk_ok_def draw_progman_def)
next
  case App_Term
  show ?thesis using desk_ok_drawn [OF assms term_render_drawn [OF desk_gfx [OF assms]]] by (simp add: run_draw_def App_Term on_gfx_def)
next
  case App_Fileman
  obtain st0 :: "'a system" where st0: "fs_inv st0" "browsing (dfm d) st0" using assms by (auto simp: desk_ok_def fm_ok_def)
  obtain g where g: "fileman_draw (scr_font (dscr d)) x y w h (dfm d) (scr_gfx (dscr d)) =
      Inr ((dfm d)\<lparr>fm_x := x, fm_y := y, fm_w := w, fm_h := h\<rparr>, g)" "clipped (scr_gfx (dscr d)) g"
    using fileman_draws_clipped [OF st0 desk_gfx [OF assms]] by blast
  have "drawn (scr_gfx (dscr d)) g" using g(2) gfx_ok_clipped [OF desk_gfx [OF assms]] by (simp add: drawn_def)
  from desk_ok_drawn [OF assms this] show ?thesis using g(1) by (simp add: run_draw_def App_Fileman desk_ok_def fm_ok_place)
qed

lemma draw_window_runs:
  assumes d: "desk_ok d" and i: "idx < 8"
  shows "runs (draw_window idx d)"
proof -
  let ?w = "windows (dwm d) ! idx"
  have "window_ok ?w" using d i by (simp add: desk_ok_def wm_ok_def list_all_length)
  from frame_paints [OF this desk_gfx [OF d]] obtain g where
    g: "frame_window (scr_font (dscr d)) ?w (scr_gfx (dscr d)) = Inr g" "drawn (scr_gfx (dscr d)) g" by (auto simp: paints_def)
  note d1 = desk_ok_drawn [OF d g(2)]
  show ?thesis
    using d d1 run_draw_runs [OF d1] g(1) by (auto simp: draw_window_def Let_def split: option.split)
qed

lemma draw_all_runs: "desk_ok d \<Longrightarrow> runs (draw_all d)"
proof -
  assume d: "desk_ok d"
  have "\<exists>p. fill_screen c g = g\<lparr>fb := p\<rparr>" for c g
    unfolding fill_screen_def fill_rect_def by (intro for_int_fb put_pixel_fb)
  then have d1: "desk_ok (on_gfx (fill_screen 0x003366) (pointer_erase d))" by (intro desk_on_gfx desk_erase d)
  have "\<exists>s'. draw_window i s = Inr s' \<and> desk_ok s'" if "i \<in> set [0..<8]" "desk_ok s" for i and s :: "'a desk"
    using draw_window_runs [OF that(2), of i] that(1) by (simp add: runs_def)
  from for_each_inv [of desk_ok _ "[0..<8]" draw_window, OF d1 this] show ?thesis by (simp add: draw_all_def runs_def)
qed

lemma redraw_runs: "desk_ok d \<Longrightarrow> runs (redraw_all_with_cursor q d)"
  unfolding redraw_all_with_cursor_def by (rule runs_bind [OF draw_all_runs]) (simp_all add: desk_draw)


text \<open>What drawing leaves alone.\<close>

definition core :: "'d desk \<Rightarrow> 'd system \<times> wm \<times> char list \<times> int \<times> int \<times> int \<times> termbuf \<times> int" where
  "core d = (dsys d, dwm d, term_cmd d, term_len d, term_on d, term_handle d, scr_term (dscr d), terminal_output_mode (dscr d))"

lemma core_pointer [simp]: "core (pointer_erase d) = core d" "core (pointer_draw q d) = core d" "core (on_gfx f d) = core d"
  by (auto simp: core_def pointer_erase_def pointer_draw_def on_gfx_def split: prod.splits)

lemma run_draw_core: "run_draw a x y w h d = Inr d' \<Longrightarrow> core d' = core d"
  by (cases a) (auto simp: run_draw_def bind_result_Inr_iff case_prod_beta Let_def core_def on_gfx_def)

lemma draw_window_core: "draw_window i d = Inr d' \<Longrightarrow> core d' = core d"
proof (cases "use_count (windows (dwm d) ! i) = 0")
  case False
  let ?w = "windows (dwm d) ! i"
  assume "draw_window i d = Inr d'"
  then obtain g where g: "(case win_draw ?w of None \<Rightarrow> Inr (d\<lparr>dscr := (dscr d)\<lparr>scr_gfx := g\<rparr>\<rparr>)
      | Some a \<Rightarrow> run_draw a (win_px ?w) (swrap (win_py ?w + 20)) (win_pw ?w) (win_ph ?w) (d\<lparr>dscr := (dscr d)\<lparr>scr_gfx := g\<rparr>\<rparr>)) = Inr d'"
    using False unfolding draw_window_def Let_def by (simp add: bind_result_Inr_iff) blast
  have "core (d\<lparr>dscr := (dscr d)\<lparr>scr_gfx := g\<rparr>\<rparr>) = core d" by (simp add: core_def)
  then show ?thesis using g run_draw_core by (cases "win_draw ?w") fastforce+
qed (simp add: draw_window_def)

lemma draw_all_core: "draw_all d = Inr d' \<Longrightarrow> core d' = core d"
proof -
  assume d: "draw_all d = Inr d'"
  have each: "for_each draw_window xs d1 = Inr d' \<Longrightarrow> core d' = core d1" for xs d1
    by (induction xs arbitrary: d1) (auto simp: bind_result_Inr_iff dest: draw_window_core)
  show "core d' = core d" using each [OF d [unfolded draw_all_def]] by simp
qed

lemma redraw_core: "redraw_all_with_cursor q d = Inr d' \<Longrightarrow> core d' = core d"
  by (auto simp: redraw_all_with_cursor_def bind_result_Inr_iff dest: draw_all_core)

lemma core_sys: "core d' = core d \<Longrightarrow> dsys d' = dsys d" and core_wm: "core d' = core d \<Longrightarrow> dwm d' = dwm d"
  by (simp_all add: core_def)

section \<open>The window table\<close>

lemma wm_ok_same:
  assumes ok: "wm_ok m" and len: "length ws = 8"
    and same: "\<And>i. i < 8 \<Longrightarrow> title (ws ! i) = title (windows m ! i) \<and> use_count (ws ! i) = use_count (windows m ! i) \<and>
      win_draw (ws ! i) = win_draw (windows m ! i) \<and> win_key (ws ! i) = win_key (windows m ! i)"
  shows "wm_ok (m\<lparr>windows := ws\<rparr>)" "keys_ok (m\<lparr>windows := ws\<rparr>) = keys_ok m"
proof -
  have l: "length (windows m) = 8" using ok by (simp add: wm_ok_def)
  have "used ws = used (windows m)" by (rule used_cong) (use len l same in auto)
  moreover have "window_ok (ws ! i)" if "i < 8" for i using same [OF that] ok that by (auto simp: wm_ok_def window_ok_def list_all_length)
  ultimately show "wm_ok (m\<lparr>windows := ws\<rparr>)" using ok len by (simp add: wm_ok_def list_all_length)
  show "keys_ok (m\<lparr>windows := ws\<rparr>) = keys_ok m" using same len l by (simp add: keys_ok_def all_set_conv_all_nth)
qed

lemma activate_ok: "wm_ok m \<Longrightarrow> wm_ok (activate k m) \<and> keys_ok (activate k m) = keys_ok m"
  using wm_ok_same [of m "map (\<lambda>i. (windows m ! i)\<lparr>active := yn (i = k)\<rparr>) [0..<length (windows m)]"]
  by (simp add: activate_def wm_ok_def)

lemma close_keys:
  assumes "wm_ok m" and "keys_ok m" and "close_slot handle m = (closed, m')"
  shows "wm_ok m' \<and> keys_ok m'"
proof (cases closed)
  case False
  then show ?thesis using close_spec [OF assms(1,3)] assms(2) by auto
next
  case True
  note s = close_spec [OF assms(1,3)]
  have ok: "wm_ok m'" and c: "use_count (windows m' ! nat handle) = 0"
    and w: "\<And>j. j < 8 \<Longrightarrow> j \<noteq> nat handle \<Longrightarrow> win_key (windows m' ! j) = win_key (windows m ! j)" using s True by auto
  have "win_key (windows m' ! j) \<noteq> Some App_Progman" if "j < 8" for j
  proof (cases "j = nat handle")
    case True
    then show ?thesis using ok c that by (auto simp: wm_ok_def window_ok_def list_all_length)
  next
    case False
    then show ?thesis using w [OF that] assms(1,2) that by (simp add: keys_ok_def all_set_conv_all_nth wm_ok_def)
  qed
  then show ?thesis using ok by (simp add: keys_ok_def all_set_conv_all_nth wm_ok_def)
qed

lemma create_keys:
  assumes "wm_ok m" and "keys_ok m" and "key \<noteq> Some App_Progman" and c: "brickwm_create_window t x y w h draw key m = (i, m')"
  shows "wm_ok m' \<and> keys_ok m'"
proof -
  note s = create_spec [OF assms(1) c]
  show ?thesis
  proof (cases "used (windows m) = 8")
    case True
    then show ?thesis using s assms(2) by auto
  next
    case False
    then obtain k where ok: "wm_ok m'" and k: "k < 8" "windows m' ! k = new_window t x y w h draw key (windows m ! k)"
        "\<And>j. j < 8 \<Longrightarrow> j \<noteq> k \<Longrightarrow> windows m' ! j = (windows m ! j)\<lparr>active := 0\<rparr>" using s by auto
    have "win_key (windows m' ! j) \<noteq> Some App_Progman" if "j < 8" for j
      using k that assms(1-3) by (cases "j = k") (auto simp: new_window_def keys_ok_def all_set_conv_all_nth wm_ok_def)
    then show ?thesis using ok by (simp add: keys_ok_def all_set_conv_all_nth wm_ok_def)
  qed
qed

lemma desk_wm: "desk_ok d \<Longrightarrow> wm_ok m \<Longrightarrow> keys_ok m \<Longrightarrow> desk_ok (d\<lparr>dwm := m\<rparr>)"
  by (simp add: desk_ok_def)

lemma close_runs: "desk_ok d \<Longrightarrow> runs (brickwm_close_window handle d)"
proof -
  assume d: "desk_ok d"
  obtain closed m where c: "close_slot handle (dwm d) = (closed, m)" by (cases "close_slot handle (dwm d)")
  have "wm_ok m \<and> keys_ok m" using close_keys [OF _ _ c] d by (simp add: desk_ok_def)
  then have "desk_ok (d\<lparr>dwm := m\<rparr>)" using desk_wm [OF d] by blast
  then show ?thesis using c d by (simp add: brickwm_close_window_def draw_all_runs)
qed

section \<open>The command line\<close>

lemma line_end: "line_ok b n \<Longrightarrow> put b n NUL = Inr b \<and> row_text b = Inr (cstr b) \<and> n \<le> 255"
  using terminated_text [of b] put_nth [of "length (cstr b)" b NUL] list_update_id [of b "length (cstr b)"] by (auto simp: line_ok_def)

lemma line_clear: "line_ok b n \<Longrightarrow> \<exists>b'. put b 0 NUL = Inr b' \<and> line_ok b' 0 \<and> cstr b' = []"
  using put_nth [of 0 b NUL] cstr_cut [of 0 b] by (auto simp: line_ok_def)

lemma line_erase:
  assumes "line_ok b n" and "n > 0"
  shows "\<exists>b'. put b (n - 1) NUL = Inr b' \<and> line_ok b' (n - 1) \<and> cstr b' = butlast (cstr b)"
proof -
  obtain k where k: "length (cstr b) = Suc k" "n - 1 = int k" using assms by (cases "length (cstr b)") (auto simp: line_ok_def)
  have b: "NUL \<in> set b" "length b = 256" using assms(1) by (auto simp: line_ok_def)
  have "put b (int k) NUL = Inr (b[k := NUL])" using terminated_text(3) [OF b(1)] k(1) by (intro put_nth) simp
  then show ?thesis using cstr_cut [of k b] b k by (auto simp: line_ok_def butlast_conv_take)
qed

lemma line_type:
  assumes "line_ok b n" and "n < 255" and "c \<noteq> NUL"
  shows "\<exists>b1 b2. put b n c = Inr b1 \<and> put b1 (n + 1) NUL = Inr b2 \<and> line_ok b2 (n + 1) \<and> cstr b2 = cstr b @ [c]"
proof -
  let ?k = "length (cstr b)"
  have n: "n = int ?k" "Suc ?k < length b" and b: "NUL \<in> set b" "length b = 256" using assms by (auto simp: line_ok_def)
  have "put b n c = Inr (b[?k := c])" using n b put_nth [of ?k b c] by simp
  moreover have "put (b[?k := c]) (n + 1) NUL = Inr (b[?k := c, Suc ?k := NUL])"
    using n put_nth [of "Suc ?k" "b[?k := c]" NUL] by (simp add: add.commute)
  moreover have "line_ok (b[?k := c, Suc ?k := NUL]) (n + 1)" using cstr_typed [OF b(1) n(2) assms(3)] n b by (simp add: line_ok_def)
  ultimately show ?thesis using cstr_typed(1) [OF b(1) n(2) assms(3)] by blast
qed

section \<open>The terminal window\<close>

interpretation any_term: char_sink "\<lambda>t. term_active t = 0 \<or> term_good t" term_io_putchar term_put_all
  by unfold_locales (use term_putchar_ok in auto)

lemma set_term_runs:
  assumes d: "desk_ok d" and f: "\<And>t. term_active t = 0 \<or> term_good t \<Longrightarrow> \<exists>t'. f t = Inr t' \<and> (term_active t' = 0 \<or> term_good t')"
  shows "runs (set_term f d)"
proof -
  have "term_active (scr_term (dscr d)) = 0 \<or> term_good (scr_term (dscr d))" using d by (simp add: desk_ok_def screen_ok_def)
  from f [OF this] obtain t' where t': "f (scr_term (dscr d)) = Inr t'" "term_active t' = 0 \<or> term_good t'" by blast
  have "screen_ok ((dscr d)\<lparr>scr_term := t'\<rparr>)" using d t'(2) by (simp add: desk_ok_def screen_ok_def)
  then show ?thesis using d t'(1) by (simp add: set_term_def desk_ok_def)
qed

lemma term_print_ok:
  assumes "term_active t = 0 \<or> term_good t"
  shows "\<exists>t'. term_io_print s t = Inr t' \<and> (term_active t' = 0 \<or> term_good t')"
proof -
  obtain t1 where "term_put_all s t = Inr t1" "term_active t1 = 0 \<or> term_good t1" using any_term.puts_ok [OF assms, of s] by blast
  then show ?thesis by (auto simp: term_io_print_def term_io_force_redraw_def term_good_def shows_term_def)
qed

lemma put_runs: "desk_ok d \<Longrightarrow> runs (set_term (term_io_putchar c) d)" and print_runs: "desk_ok d \<Longrightarrow> runs (set_term (term_io_print s) d)"
  by (rule set_term_runs; simp add: any_term.putc_ok term_print_ok)+

lemma desk_line: "desk_ok d \<Longrightarrow> line_ok b n \<Longrightarrow> desk_ok (d\<lparr>term_cmd := b, term_len := n\<rparr>)"
  by (simp add: desk_ok_def)

lemma prompt_runs: "desk_ok d \<Longrightarrow> runs (term_prompt d)"
proof -
  assume d: "desk_ok d"
  then obtain b where b: "put (term_cmd d) 0 NUL = Inr b" "line_ok b 0" using line_clear by (auto simp: desk_ok_def)
  then show ?thesis using print_runs [OF desk_line [OF d b(2)]] by (simp add: term_prompt_def)
qed

definition programs_keep :: "('d, unit) env \<Rightarrow> bool" where
  "programs_keep e \<longleftrightarrow> (\<forall>f\<in>{run_gui e, run_fbgui e, run_doom e, run_snake e}. \<forall>s s'. fs_inv s \<longrightarrow> f s = Inr s' \<longrightarrow> fs_inv s') \<and> lib_apart (e_lwip e)"

definition env_ok :: "'d desk_env \<Rightarrow> bool" where
  "env_ok env \<longleftrightarrow> length (e_stack (d_env env) 256) = 256 \<and> length (e_stack (d_env env) 8192) = 8192 \<and>
     (\<forall>s s' g. \<exists>p. d_paint env s s' g = g\<lparr>fb := p\<rparr>) \<and> programs_keep (d_env env)"

lemma safe_programs:
  assumes "programs_keep e"
  shows "fs_safe e cmd_gui" "fs_safe e cmd_fbgui" "fs_safe e cmd_doom" "fs_safe e cmd_snake" "fs_safe e cmd_lwip"
proof -
  have c: "fs_inv (console_clear s) = fs_inv s" for s :: "'a system" by (rule fs_inv_tree) simp
  show "fs_safe e cmd_gui"
  proof (rule fs_safeI)
    fix argv and st st' :: "'a system"
    assume inv: "fs_inv st" and r: "cmd_gui e argv st = Inr st'"
    then obtain s0 s where s: "run_gui e s0 = Inr s" "fs_inv s0" "st' = emit (''Returned to shell mode.'' @ [NL]) (console_clear s)"
      by (auto simp: cmd_gui_def bind_result_Inr_iff Let_def c)
    have "fs_inv s" using assms s(1,2) unfolding programs_keep_def by blast
    then show "fs_inv st'" unfolding s(3) by (simp only: c fs_inv_keeps)
  qed
  have keep: "fs_safe e cmd" if "\<And>argv st. cmd e argv st = f st" "f \<in> {run_gui e, run_fbgui e, run_doom e, run_snake e}" for cmd f
  proof (rule fs_safeI)
    fix argv and st st' :: "'a system"
    assume "fs_inv st" "cmd e argv st = Inr st'"
    then have "f st = Inr st'" using that(1) by simp
    with assms that(2) \<open>fs_inv st\<close> show "fs_inv st'" unfolding programs_keep_def by blast
  qed
  show "fs_safe e cmd_fbgui" "fs_safe e cmd_doom" "fs_safe e cmd_snake"
    by (rule keep [of _ "run_fbgui e"], simp_all add: cmd_fbgui_def) (rule keep [of _ "run_doom e"], simp_all add: cmd_doom_def,
      rule keep [of _ "run_snake e"], simp_all add: cmd_snake_def)
  show "fs_safe e cmd_lwip" by (rule safe_lwip(1)) (use assms in \<open>simp add: programs_keep_def\<close>)
qed

lemma all_commands_safe: "programs_keep e \<Longrightarrow> (n, f, h) \<in> set commands \<Longrightarrow> fs_safe e f"
proof -
  assume e: "programs_keep e" and f: "(n, f, h) \<in> set commands"
  have "list_all (\<lambda>(name, f, help). fs_safe e f) commands"
    unfolding commands_def help_table_def by (simp add: safe_all safe_programs [OF e])
  with f show ?thesis by (auto simp: list_all_iff)
qed

lemma show_sys_runs:
  assumes "desk_ok d" and "fs_inv s"
  shows "runs (show_sys env s d)"
proof -
  obtain scr where "print (d_bus env) (drop (length (out (dsys d))) (out s)) (dscr d) = Inr scr" "screen_ok scr"
    using screen_sink.puts_ok [of "dscr d"] assms(1) unfolding print_put_all by (auto simp: desk_ok_def)
  then show ?thesis using assms by (simp add: show_sys_def desk_ok_def)
qed

lemma show_program_runs: "env_ok env \<Longrightarrow> desk_ok d \<Longrightarrow> fs_inv s \<Longrightarrow> runs (show_program env s d)"
  unfolding show_program_def by (rule runs_bind [OF show_sys_runs]) (simp_all add: desk_on_gfx env_ok_def)

lemma desk_mode: "desk_ok (d\<lparr>dscr := screen_set_terminal_output m (dscr d)\<rparr>) = desk_ok d"
  by (simp add: desk_ok_def screen_set_terminal_output_def screen_ok_mode)

lemma run_command_stays:
  assumes env: "env_ok env" and d: "desk_ok d" and line: "nul_free line" "length line \<le> 255"
  shows "stays (run_command env line d)"
proof -
  let ?d = "d\<lparr>dscr := screen_set_terminal_output 1 (dscr d)\<rparr>"
  have "stays (bind_result (show_program env s ?d) (\<lambda>d. Inr (d\<lparr>dscr := screen_set_terminal_output 0 (dscr d)\<rparr>)))"
    if "execute_command (d_env env) line (dsys ?d) = Inr s" for s
  proof -
    have "fs_inv s" by (rule execute_command_safe [OF _ line _ _ that]) (use d env in \<open>auto simp: desk_ok_def env_ok_def intro: all_commands_safe\<close>)
    then show ?thesis by (intro stays_bind runs_stays [OF show_program_runs [OF env]]) (simp_all add: d desk_mode)
  qed
  then show ?thesis by (cases "execute_command (d_env env) line (dsys ?d)") (simp_all add: run_command_def)
qed

lemma strcmp_term_eq: "nul_free a \<Longrightarrow> nul_free b \<Longrightarrow> strcmp_term a b = 0 \<longleftrightarrow> a = b"
  by (induction a b rule: strcmp_term.induct) (auto simp: schar_NUL dest: schar_inj)

text \<open>The key that makes the terminal run a command.\<close>

definition runs_line :: "char \<Rightarrow> 'd desk \<Rightarrow> bool" where
  "runs_line c d \<longleftrightarrow> c = NL \<and> term_on d \<noteq> 0 \<and> term_len d > 0 \<and> cstr (term_cmd d) \<noteq> ''exit''"

lemma term_edit_runs:
  assumes d: "desk_ok d" and c: "c \<noteq> NL"
  shows "runs (term_handle_key env c d)"
proof -
  have l: "line_ok (term_cmd d) (term_len d)" using d by (simp add: desk_ok_def)
  consider "term_on d = 0" | "c = BS" "term_len d > 0" "term_on d \<noteq> 0" | "c \<noteq> BS" "32 \<le> schar c" "schar c \<le> 126" "term_len d < 255" "term_on d \<noteq> 0"
    | "\<not> (c = BS \<and> term_len d > 0)" "\<not> (c \<noteq> BS \<and> 32 \<le> schar c \<and> schar c \<le> 126 \<and> term_len d < 255)" by blast
  then show ?thesis
  proof cases
    case 2
    obtain b where b: "put (term_cmd d) (term_len d - 1) NUL = Inr b" "line_ok b (term_len d - 1)" using line_erase [OF l 2(2)] by blast
    then show ?thesis using 2 c put_runs [OF desk_line [OF d b(2)]] by (simp add: term_handle_key_def)
  next
    case 3
    have "c \<noteq> NUL" using 3(2) by (auto simp: schar_def NUL_def)
    then obtain b1 b where b: "put (term_cmd d) (term_len d) c = Inr b1" "put b1 (term_len d + 1) NUL = Inr b" "line_ok b (term_len d + 1)"
      using line_type [OF l 3(4)] by blast
    then show ?thesis using 3 c put_runs [OF desk_line [OF d b(3)]] by (simp add: term_handle_key_def)
  qed (use d c in \<open>auto simp: term_handle_key_def\<close>)
qed

lemma term_return:
  assumes d: "desk_ok d" and on: "term_on d \<noteq> 0"
  obtains d1 where "desk_ok d1" "term_handle_key env NL d = (if term_len d > 0 then
      if cstr (term_cmd d) = ''exit'' then (if term_handle d \<ge> 0 then brickwm_close_window (term_handle d) (d1\<lparr>term_on := 0\<rparr>) else Inr (d1\<lparr>term_on := 0\<rparr>))
      else bind_result (run_command env (cstr (term_cmd d)) d1) (\<lambda>d. if halted (dsys d) then Inr d else term_prompt d)
      else term_prompt d1)" "set_term (term_io_putchar NL) d = Inr d1"
proof -
  obtain d1 where d1: "set_term (term_io_putchar NL) d = Inr d1" "desk_ok d1" using put_runs [OF d] by (auto simp: runs_def)
  have e: "term_cmd d1 = term_cmd d" "term_len d1 = term_len d" "term_handle d1 = term_handle d" "term_on d1 = term_on d"
    using d1(1) by (auto simp: set_term_def bind_result_Inr_iff)
  have "line_ok (term_cmd d1) (term_len d1)" using d1(2) by (simp add: desk_ok_def)
  note l = line_end [OF this]
  have u: "d1\<lparr>term_cmd := term_cmd d1\<rparr> = d1" by simp
  have "nul_free ''exit''" by (simp add: nul_free_def NUL_def)
  then show ?thesis using that [OF d1(2)] d1(1) on l u strcmp_term_eq [of "cstr (term_cmd d)" "''exit''"]
    by (simp add: term_handle_key_def Let_def e [symmetric])
qed

lemma term_key_runs:
  assumes d: "desk_ok d" and n: "\<not> runs_line c d"
  shows "runs (term_handle_key env c d)"
proof (cases "c = NL \<and> term_on d \<noteq> 0")
  case True
  obtain d1 where d1: "desk_ok d1" "term_handle_key env NL d = (if term_len d > 0 then
      if cstr (term_cmd d) = ''exit'' then (if term_handle d \<ge> 0 then brickwm_close_window (term_handle d) (d1\<lparr>term_on := 0\<rparr>) else Inr (d1\<lparr>term_on := 0\<rparr>))
      else bind_result (run_command env (cstr (term_cmd d)) d1) (\<lambda>d. if halted (dsys d) then Inr d else term_prompt d)
      else term_prompt d1)" using term_return [OF d, of env] True by blast
  have "desk_ok (d1\<lparr>term_on := 0\<rparr>)" using d1(1) by (simp add: desk_ok_def)
  then show ?thesis using d1 n True close_runs prompt_runs by (auto simp: runs_line_def)
next
  case False
  then show ?thesis using term_edit_runs [OF d] d by (cases "c = NL") (auto simp: term_handle_key_def)
qed

lemma term_key_stays:
  assumes env: "env_ok env" and d: "desk_ok d"
  shows "stays (term_handle_key env c d)"
proof (cases "runs_line c d")
  case False
  then show ?thesis using runs_stays [OF term_key_runs [OF d]] by blast
next
  case True
  then obtain d1 where d1: "desk_ok d1" "term_handle_key env NL d =
      bind_result (run_command env (cstr (term_cmd d)) d1) (\<lambda>d. if halted (dsys d) then Inr d else term_prompt d)"
    using term_return [OF d, of env] by (auto simp: runs_line_def)
  have "length (cstr (term_cmd d)) \<le> 255" using line_end [of "term_cmd d" "term_len d"] d by (auto simp: desk_ok_def line_ok_def)
  then have "stays (run_command env (cstr (term_cmd d)) d1)" by (intro run_command_stays [OF env d1(1)]) simp_all
  then have "stays (term_handle_key env NL d)" unfolding d1(2) by (rule stays_bind) (simp add: runs_stays [OF prompt_runs])
  then show ?thesis using True by (simp add: runs_line_def)
qed

section \<open>Starting programs\<close>

lemma terminal_runs: "desk_ok d \<Longrightarrow> runs (terminal_run d)"
proof -
  assume d: "desk_ok d"
  obtain b where b: "put (term_cmd d) 0 NUL = Inr b" "line_ok b 0" using line_clear d by (auto simp: desk_ok_def)
  obtain d1 where d1: "set_term (\<lambda>t. Inr (term_io_init t)) d = Inr d1" "desk_ok d1"
    using set_term_runs [OF d, of "\<lambda>t. Inr (term_io_init t)"] init_shows by (auto simp: runs_def term_good_def)
  have e: "term_cmd d1 = term_cmd d" using d1(1) by (auto simp: set_term_def)
  let ?d = "d1\<lparr>term_on := 1, term_len := 0, term_cmd := b, term_handle := - 1\<rparr>"
  have ok: "desk_ok ?d" using d1(2) b(2) by (simp add: desk_ok_def)
  have last: "desk_ok (let (handle, m) = brickwm_create_window ''Terminal'' 150 100 500 350 (Some App_Term) (Some App_Term) (dwm d3)
      in term_set_window_handle handle (d3\<lparr>dwm := m, term_handle := handle\<rparr>))" if "desk_ok d3" for d3 :: "'a desk"
  proof -
    obtain i m where c: "brickwm_create_window ''Terminal'' 150 100 500 350 (Some App_Term) (Some App_Term) (dwm d3) = (i, m)" by fastforce
    have "wm_ok m \<and> keys_ok m" using create_keys [OF _ _ _ c] that by (simp add: desk_ok_def)
    then show ?thesis using that by (simp add: c term_set_window_handle_def desk_ok_def)
  qed
  have "runs (bind_result (set_term (term_io_print (''FalastinOS Terminal'' @ [NL])) ?d) (\<lambda>d.
     bind_result (set_term (term_io_print (''Type '' @ [CHR 0x27] @ ''exit'' @ [CHR 0x27] @ '' to close'' @ [NL, NL] @ ''> '')) d) (\<lambda>d.
       let (handle, m) = brickwm_create_window ''Terminal'' 150 100 500 350 (Some App_Term) (Some App_Term) (dwm d)
       in Inr (term_set_window_handle handle (d\<lparr>dwm := m, term_handle := handle\<rparr>)))))"
    by (intro runs_bind print_runs ok) (use last in \<open>auto simp: case_prod_beta Let_def\<close>)
  then show ?thesis by (simp add: terminal_run_def d1(1) e b(1))
qed

lemma fileman_launch_runs: "desk_ok d \<Longrightarrow> runs (launch_fileman d)"
proof -
  assume d: "desk_ok d"
  obtain st0 :: "'a system" where st0: "browsing (dfm d) st0" using d by (auto simp: desk_ok_def fm_ok_def)
  have inv: "fs_inv (dsys d)" using d by (simp add: desk_ok_def)
  obtain fm where fm: "refresh_entries (dfm d) (dsys d) = Inr fm" "browsing fm (dsys d)"
    using refresh_browsing [OF inv, of "dfm d"] st0 by (auto simp: browsing_def lists_def)
  obtain i m where c: "brickwm_create_window ''File Manager'' 200 100 500 380 (Some App_Fileman) (Some App_Fileman) (dwm d) = (i, m)" by fastforce
  have m: "wm_ok m \<and> keys_ok m" using create_keys [OF _ _ _ c] d by (simp add: desk_ok_def)
  have "browsing (fm\<lparr>fm_handle := i\<rparr>) (dsys d)" using fm(2) by (auto simp: browsing_def lists_def selection_ok_def input_ok_def)
  then have "fm_ok TYPE('a system) (fm\<lparr>fm_handle := i\<rparr>)" using inv by (auto simp: fm_ok_def)
  then show ?thesis using d m by (simp add: launch_fileman_def fileman_run_def fm(1) c desk_ok_def)
qed

lemma launch_runs: "desk_ok d \<Longrightarrow> i < 2 \<Longrightarrow> runs (launch env i d)"
  using terminal_runs fileman_launch_runs by (auto simp: launch_def launch_terminal_def less_2_cases_iff)

lemma launch_stays:
  assumes env: "env_ok env" and d: "desk_ok d"
  shows "stays (launch env i d)"
proof -
  have inv: "fs_inv (dsys d)" using d by (simp add: desk_ok_def)
  have "stays (launch_editor env d)"
  proof -
    have "fs_inv (s\<lparr>keys_ahead := ks\<rparr>)"
      if "editor_open (d_bus env) (chars_of (e_stack (d_env env) 16384)) (keys_ahead (dsys d)) ''notes.txt'' (dsys d) = Inr (ks, s)" for ks s
      using editor_open_safe [OF inv that] fs_inv_tree [of "s\<lparr>keys_ahead := ks\<rparr>" s] by simp
    then show ?thesis using runs_stays [OF show_program_runs [OF env d]]
      by (cases "editor_open (d_bus env) (chars_of (e_stack (d_env env) 16384)) (keys_ahead (dsys d)) ''notes.txt'' (dsys d)")
        (auto simp: launch_editor_def)
  qed
  moreover have "stays (launch_doom env d)"
  proof (cases "run_doom (d_env env) (dsys d)")
    case (Inr s)
    have "programs_keep (d_env env)" using env by (simp add: env_ok_def)
    then have "fs_inv s" using inv Inr unfolding programs_keep_def by blast
    then show ?thesis using runs_stays [OF show_program_runs [OF env d]] Inr by (simp add: launch_doom_def)
  qed (simp add: launch_doom_def)
  ultimately show ?thesis using runs_stays [OF launch_runs [OF d, of i env]] by (auto simp: launch_def)
qed

lemma progman_click_stays: "env_ok env \<Longrightarrow> desk_ok d \<Longrightarrow> stays (progman_handle_click env px py d)"
  by (simp add: progman_handle_click_def Let_def launch_stays)

lemma progman_click_runs:
  "desk_ok d \<Longrightarrow> find_icon_click px py d < 2 \<Longrightarrow> runs (progman_handle_click env px py d)"
  by (simp add: progman_handle_click_def Let_def launch_runs nat_less_iff)

section \<open>The main loop\<close>

lemma drag_runs:
  assumes d: "desk_ok d"
  shows "runs (wm_drag r moved d)"
proof (cases "tt (dragging (dwm d)) \<and> odd (r_b r) \<and> moved \<and> drag_win (dwm d) \<ge> 0")
  case False
  then show ?thesis using d by (auto simp: wm_drag_def Let_def)
next
  case True
  define k where "k = nat (drag_win (dwm d))"
  have ok: "wm_ok (dwm d)" "keys_ok (dwm d)" using d by (auto simp: desk_ok_def)
  then have k: "drag_win (dwm d) = int k" "k < 8" "length (windows (dwm d)) = 8" using True by (auto simp: k_def wm_ok_def)
  let ?w = "(windows (dwm d) ! k)\<lparr>win_px := swrap (r_x r - drag_off_x (dwm d)), win_py := swrap (r_y r - drag_off_y (dwm d))\<rparr>"
  let ?ws = "(windows (dwm d))[k := ?w]"
  have "wm_ok ((dwm d)\<lparr>windows := ?ws\<rparr>) \<and> keys_ok ((dwm d)\<lparr>windows := ?ws\<rparr>)"
  proof -
    have "title (?ws ! i) = title (windows (dwm d) ! i) \<and> use_count (?ws ! i) = use_count (windows (dwm d) ! i) \<and>
        win_draw (?ws ! i) = win_draw (windows (dwm d) ! i) \<and> win_key (?ws ! i) = win_key (windows (dwm d) ! i)" if "i < 8" for i
      using that k(3) by (cases "i = k") simp_all
    from wm_ok_same [OF ok(1) _ this] show ?thesis using ok(2) k(3) by simp
  qed
  then have "desk_ok (d\<lparr>dwm := (dwm d)\<lparr>windows := ?ws\<rparr>\<rparr>)" using desk_wm [OF d] by blast
  from redraw_runs [OF this, of "r_drag r"] show ?thesis
    using True k by (simp add: wm_drag_def set_window_def Let_def)
qed

lemma release_ok: "desk_ok d \<Longrightarrow> desk_ok (wm_release r lb d)"
  by (auto simp: wm_release_def desk_ok_def wm_ok_def keys_ok_def)

lemma find_window_bound: "find_window_at x y m < 0 \<or> (\<exists>k<8. find_window_at x y m = int k \<and> use_count (windows m ! k) \<noteq> 0)"
  using pick_down [of "\<lambda>w. use_count w \<noteq> 0 \<and> inside x y w" 8 "windows m"] by (auto simp: find_window_at_def)

text \<open>A click goes to the window that is on top, and is handled by one of five cases.\<close>

lemma click_cases:
  assumes d: "desk_ok d"
  obtains (none) "wm_click env r d = Inr d"
  | (inner) d1 where "desk_ok d1" "icon_at d1 = icon_at d" "wm_click env r d = bind_result (progman_handle_click env (r_x r) (r_y r) d1) (redraw_all_with_cursor (r_click r))"
  | (other) "runs (wm_click env r d)"
proof (cases "find_window_at (r_x r) (r_y r) (dwm d) < 0")
  case True
  then show ?thesis using none by (simp add: wm_click_def)
next
  case False
  then obtain k where k: "find_window_at (r_x r) (r_y r) (dwm d) = int k" "k < 8" using find_window_bound [of "r_x r" "r_y r" "dwm d"] by auto
  define d1 where "d1 = d\<lparr>dwm := activate k (dwm d)\<rparr>"
  have ok: "wm_ok (dwm d)" "keys_ok (dwm d)" using d by (auto simp: desk_ok_def)
  have d1: "desk_ok d1" unfolding d1_def using activate_ok [OF ok(1), of k] ok(2) by (intro desk_wm [OF d]) auto
  let ?w = "windows (dwm d1) ! k"
  have "window_ok ?w" using d1 k(2) by (simp add: desk_ok_def wm_ok_def list_all_length)
  then have "NUL \<in> set (title ?w)" using nth_mem [of 31 "title ?w"] by (auto simp: window_ok_def)
  note t = terminated_text(1) [OF this]
  have drag: "desk_ok (d1\<lparr>dwm := (dwm d1)\<lparr>dragging := 1, drag_win := int k, drag_off_x := a, drag_off_y := b\<rparr>\<rparr>)" for a b
    using d1 k(2) by (auto simp: desk_ok_def wm_ok_def keys_ok_def)
  have click: "wm_click env r d = (if check_close_click (r_x r) (r_y r) ?w then brickwm_close_window (int k) d1
      else if check_titlebar_click (r_x r) (r_y r) ?w then redraw_all_with_cursor (r_click r)
        (d1\<lparr>dwm := (dwm d1)\<lparr>dragging := 1, drag_win := int k, drag_off_x := swrap (r_x r - win_px ?w), drag_off_y := swrap (r_y r - win_py ?w)\<rparr>\<rparr>)
      else if check_client_click (r_x r) (r_y r) ?w
        then bind_result (if title_equals (cstr (title ?w)) ''Program Manager'' then progman_handle_click env (r_x r) (r_y r) d1 else Inr d1)
          (redraw_all_with_cursor (r_click r))
      else Inr d1)"
    using k(1) t by (simp add: wm_click_def Let_def d1_def)
  show ?thesis
  proof (cases "\<not> check_close_click (r_x r) (r_y r) ?w \<and> \<not> check_titlebar_click (r_x r) (r_y r) ?w \<and>
      check_client_click (r_x r) (r_y r) ?w \<and> title_equals (cstr (title ?w)) ''Program Manager''")
    case True
    then show ?thesis using inner [OF d1] click by (simp add: d1_def)
  next
    case False
    then have "runs (wm_click env r d)" unfolding click
      using close_runs [OF d1] redraw_runs [OF drag] redraw_runs [OF d1] d1 by auto
    then show ?thesis by (rule other)
  qed
qed

lemma click_stays: "env_ok env \<Longrightarrow> desk_ok d \<Longrightarrow> stays (wm_click env r d)"
proof -
  assume env: "env_ok env" and d: "desk_ok d"
  show ?thesis using d
  proof (cases rule: click_cases [of d env r])
    case (inner d1)
    show ?thesis unfolding inner(3) by (intro stays_bind progman_click_stays env inner(1) runs_stays redraw_runs)
  qed (use d runs_stays in auto)
qed

lemma click_runs: "desk_ok d \<Longrightarrow> find_icon_click (r_x r) (r_y r) d < 2 \<Longrightarrow> runs (wm_click env r d)"
proof -
  assume d: "desk_ok d" and i: "find_icon_click (r_x r) (r_y r) d < 2"
  show ?thesis using d
  proof (cases rule: click_cases [of d env r])
    case (inner d1)
    then have "find_icon_click (r_x r) (r_y r) d1 < 2" using i by (simp add: find_icon_click_def)
    then show ?thesis unfolding inner(3) by (intro runs_bind progman_click_runs inner(1) redraw_runs)
  qed (use d in auto)
qed

text \<open>Opening windows and dragging leave the system alone.\<close>

lemma close_sys: "brickwm_close_window h d = Inr d' \<Longrightarrow> dsys d' = dsys d"
  by (auto simp: brickwm_close_window_def split: prod.splits if_splits dest!: draw_all_core core_sys)

lemma launch_sys: "launch env i d = Inr d' \<Longrightarrow> i < 2 \<Longrightarrow> dsys d' = dsys d"
  by (auto simp: launch_def launch_terminal_def terminal_run_def set_term_def launch_fileman_def bind_result_Inr_iff less_2_cases_iff
      term_set_window_handle_def Let_def case_prod_beta)

lemma drag_sys: "wm_drag r moved d = Inr d' \<Longrightarrow> dsys d' = dsys d"
  by (auto simp: wm_drag_def set_window_def bind_result_Inr_iff Let_def split: if_splits dest!: redraw_core core_sys)

lemma release_keeps [simp]: "dsys (wm_release r lb d) = dsys d" "icon_at (wm_release r lb d) = icon_at d"
  by (simp_all add: wm_release_def)

lemma click_sys: "wm_click env r d = Inr d' \<Longrightarrow> find_icon_click (r_x r) (r_y r) d < 2 \<Longrightarrow> dsys d' = dsys d"
  by (auto simp: wm_click_def progman_handle_click_def find_icon_click_def bind_result_Inr_iff Let_def nat_less_iff split: if_splits
      dest!: redraw_core core_sys close_sys launch_sys)

lemma focus_bound:
  "focused_window m < 0 \<or> (\<exists>k<8. focused_window m = int k \<and> use_count (windows m ! k) \<noteq> 0 \<and> win_key (windows m ! k) \<noteq> None)"
  using pick_down [of "\<lambda>w. use_count w \<noteq> 0 \<and> active w \<noteq> 0 \<and> win_key w \<noteq> None" 8 "windows m"]
    pick_down [of "\<lambda>w. use_count w \<noteq> 0 \<and> win_key w \<noteq> None" 8 "windows m"] by (auto simp: focused_window_def Let_def)

lemma run_key_ok:
  assumes env: "env_ok env" and d: "desk_ok d" and a: "a \<noteq> App_Progman"
  shows "stays (run_key env a c d)" and "c \<noteq> NL \<Longrightarrow> runs (run_key env a c d)"
proof -
  let ?junk = "chars_of (e_stack (d_env env) 8192)"
  obtain st0 :: "'a system" where st0: "fs_inv st0" "browsing (dfm d) st0" using d by (auto simp: desk_ok_def fm_ok_def)
  have inv: "fs_inv (dsys d)" using d by (simp add: desk_ok_def)
  have junk: "length ?junk = 8192" using env by (simp add: env_ok_def chars_of_def)
  note k = fileman_key_safe [OF inv st0(2) junk, of "d_bus env" c]
  have ok: "runs (show_sys env s (d\<lparr>dfm := fm\<rparr>))" if "fs_inv s" "browsing fm s \<or> s = dsys d \<and> browsing fm st0" for fm s
  proof -
    have "fm_ok TYPE('a system) fm" using that st0(1) by (auto simp: fm_ok_def)
    then show ?thesis using show_sys_runs [of "d\<lparr>dfm := fm\<rparr>" s env] d that(1) by (simp add: desk_ok_def)
  qed
  have fm: "stays (run_key env App_Fileman c d) \<and> (c \<noteq> NL \<longrightarrow> runs (run_key env App_Fileman c d))"
    using k
  proof (elim disjE exE conjE)
    fix fm s assume "fileman_keypress (d_bus env) ?junk c (dfm d) (dsys d) = Inr (fm, s)" "fs_inv s" "browsing fm s"
    then show ?thesis using ok [of s fm] runs_stays [OF ok [of s fm]] by (simp add: run_key_def)
  next
    fix fm s assume "fileman_keypress (d_bus env) ?junk c (dfm d) (dsys d) = Inr (fm, s)" "fs_inv s" "s = dsys d" "browsing fm st0"
    then show ?thesis using ok [of s fm] runs_stays [OF ok [of s fm]] by (simp add: run_key_def)
  qed (simp add: run_key_def)
  show "stays (run_key env a c d)" using fm a term_key_stays [OF env d] by (cases a) (simp_all add: run_key_def)
  show "runs (run_key env a c d)" if "c \<noteq> NL" using fm a that term_edit_runs [OF d that] by (cases a) (simp_all add: run_key_def)
qed

lemma key_ok:
  assumes env: "env_ok env" and d: "desk_ok d"
  shows "stays (wm_key env r d)" and "\<not> (r_ready r \<and> (\<exists>ks. keys_ahead (dsys d) = NL # ks)) \<Longrightarrow> runs (wm_key env r d)"
proof -
  define after where "after = (\<lambda>k d :: 'a desk. if halted (dsys d) then Inr d else bind_result (draw_window k d) (\<lambda>d. Inr (pointer_draw (r_key r) d)))"
  have after: "runs (after k d)" if "desk_ok d" "k < 8" for k and d :: "'a desk"
    using that draw_window_runs [OF that] by (auto simp: after_def desk_draw intro: runs_bind)
  have "stays (wm_key env r d) \<and> (\<not> (r_ready r \<and> (\<exists>ks. keys_ahead (dsys d) = NL # ks)) \<longrightarrow> runs (wm_key env r d))"
  proof (cases "r_ready r \<and> keys_ahead (dsys d) \<noteq> []")
    case False
    then show ?thesis using d by (auto simp: wm_key_def split: list.split)
  next
    case True
    then obtain c ks where ks: "keys_ahead (dsys d) = c # ks" by (cases "keys_ahead (dsys d)") auto
    let ?d = "d\<lparr>dsys := (dsys d)\<lparr>keys_ahead := ks\<rparr>\<rparr>"
    have "fs_inv ((dsys d)\<lparr>keys_ahead := ks\<rparr>)" using d fs_inv_tree [of "(dsys d)\<lparr>keys_ahead := ks\<rparr>" "dsys d"] by (simp add: desk_ok_def)
    then have d1: "desk_ok ?d" using d by (simp add: desk_ok_def)
    show ?thesis
    proof (cases "focused_window (dwm d) < 0")
      case True
      then show ?thesis using ks d1 d by (simp add: wm_key_def)
    next
      case False
      then obtain k a where k: "k < 8" "focused_window (dwm d) = int k" "win_key (windows (dwm d) ! k) = Some a" using focus_bound [of "dwm d"] by auto
      have a: "a \<noteq> App_Progman" using d k(1,3) by (auto simp: desk_ok_def keys_ok_def wm_ok_def all_set_conv_all_nth)
      note rk = run_key_ok [OF env desk_erase [OF d1] a, of c]
      have w: "wm_key env r d = bind_result (run_key env a c (pointer_erase ?d)) (after k)"
        using True ks k by (simp add: wm_key_def after_def Let_def cong: if_cong)
      have "stays (wm_key env r d)" unfolding w by (rule stays_bind [OF rk(1)]) (rule runs_stays [OF after [OF _ k(1)]])
      moreover have "runs (wm_key env r d)" if "c \<noteq> NL" unfolding w by (rule runs_bind [OF rk(2) [OF that]]) (rule after [OF _ k(1)])
      ultimately show ?thesis using ks True by auto
    qed
  qed
  then show "stays (wm_key env r d)" "\<not> (r_ready r \<and> (\<exists>ks. keys_ahead (dsys d) = NL # ks)) \<Longrightarrow> runs (wm_key env r d)" by blast+
qed

text \<open>
  The turns that can end in a fault of another program: a return key that is read, and a click on the icons of the
  editor and the game (or a click while a window is dragged, which moves the icons first).
\<close>

definition starts :: "round \<Rightarrow> int \<times> int \<times> int \<Rightarrow> 'd desk \<Rightarrow> bool" where
  "starts r l d \<longleftrightarrow> r_ready r \<and> (\<exists>ks. keys_ahead (dsys d) = NL # ks) \<or>
     odd (r_b r) \<and> even (snd (snd l)) \<and> (tt (dragging (dwm d)) \<or> find_icon_click (r_x r) (r_y r) d \<ge> 2)"

text \<open>The other way a turn can fail: the poll of the lwIP port faults or does not return. It needs a library that has been started.\<close>

definition poll_fails :: "'d desk_env \<Rightarrow> 'd system \<Rightarrow> bool" where
  "poll_fails env s \<longleftrightarrow> lwip_ready s \<noteq> 0 \<and>
     (\<forall>s'. lwip_poll (e_lwip (d_env env)) (e_nic (d_env env)) (e_stack (d_env env) 2048) s \<noteq> Some (Inr s'))"

lemma show_same: "show_sys env (dsys d) d = Inr d"
  by (simp add: show_sys_def print_def)

lemma poll_idle: "lwip_ready (dsys d) = 0 \<Longrightarrow> desk_poll env d = Inr d"
  by (simp add: desk_poll_def lwip_poll_def ended_def show_same)

lemma poll_kept:
  assumes "env_ok env" and "desk_ok d" and "desk_poll env d = Inr d1"
  shows "desk_ok d1" "\<exists>s scr. d1 = d\<lparr>dsys := s, dscr := scr\<rparr> \<and> keys_ahead s = keys_ahead (dsys d) \<and> halted s = halted (dsys d)"
proof -
  let ?p = "lwip_poll (e_lwip (d_env env)) (e_nic (d_env env)) (e_stack (d_env env) 2048) (dsys d)"
  obtain s where s: "?p = Some (Inr s)" "show_sys env s d = Inr d1"
    using assms(3) by (auto simp: desk_poll_def ended_def bind_result_Inr_iff split: option.splits)
  have "lib_apart (e_lwip (d_env env))" using assms(1) by (simp add: env_ok_def programs_keep_def)
  then have sp: "tree s = tree (dsys d)" "keys_ahead s = keys_ahead (dsys d)" "halted s = halted (dsys d)"
    using poll_spared [OF _ s(1)] by (simp_all add: spared_def)
  have "fs_inv s" using fs_inv_tree [OF sp(1)] assms(2) by (simp add: desk_ok_def)
  then show "desk_ok d1" using show_sys_runs [OF assms(2), of s env] s(2) by (simp add: runs_def)
  show "\<exists>s scr. d1 = d\<lparr>dsys := s, dscr := scr\<rparr> \<and> keys_ahead s = keys_ahead (dsys d) \<and> halted s = halted (dsys d)"
    using s(2) sp by (auto simp: show_sys_def bind_result_Inr_iff)
qed

lemma poll_returns:
  assumes "desk_ok d" and "\<not> poll_fails env (dsys d)"
    and "env_ok env"
  shows "\<exists>d1. desk_poll env d = Inr d1"
proof (cases "lwip_ready (dsys d) = 0")
  case False
  then obtain s where s: "lwip_poll (e_lwip (d_env env)) (e_nic (d_env env)) (e_stack (d_env env) 2048) (dsys d) = Some (Inr s)"
    using assms(2) by (auto simp: poll_fails_def)
  have "lib_apart (e_lwip (d_env env))" using assms(3) by (simp add: env_ok_def programs_keep_def)
  then have "tree s = tree (dsys d)" using poll_spared [OF _ s] by (simp add: spared_def)
  then have "fs_inv s" using fs_inv_tree assms(1) by (auto simp: desk_ok_def)
  then show ?thesis using show_sys_runs [OF assms(1), of s env] s by (auto simp: desk_poll_def ended_def runs_def)
qed (simp add: poll_idle)

text \<open>A turn behind the poll.\<close>

definition after_poll :: "'d desk_env \<Rightarrow> round \<Rightarrow> int \<times> int \<times> int \<Rightarrow> 'd desk \<Rightarrow> 'd desk result" where
  "after_poll env r l d =
     (let (lx, ly, lb) = l; moved = (r_x r \<noteq> lx \<or> r_y r \<noteq> ly) in
      bind_result (wm_drag r moved d) (\<lambda>d.
        bind_result (if odd (r_b r) \<and> even lb then wm_click env r (wm_release r lb d) else Inr (wm_release r lb d)) (\<lambda>d.
          if halted (dsys d) then Inr d
          else bind_result (wm_key env r d) (\<lambda>d.
            if halted (dsys d) then Inr d
            else Inr (if moved then pointer_draw (r_x r, r_y r) (pointer_erase d) else d)))))"

lemma wm_round_poll: "wm_round env r l d = bind_result (desk_poll env d) (after_poll env r l)"
  by (cases l) (simp add: wm_round_def after_poll_def [abs_def] Let_def)

lemma after_poll_ok:
  assumes env: "env_ok env" and d: "desk_ok d"
  shows "stays (after_poll env r l d)" and "\<not> starts r l d \<Longrightarrow> runs (after_poll env r l d)"
proof -
  obtain lx ly lb where l: "l = (lx, ly, lb)" by (cases l)
  define moved where "moved = (r_x r \<noteq> lx \<or> r_y r \<noteq> ly)"
  define click where "click = (\<lambda>d. if odd (r_b r) \<and> even lb then wm_click env r d else Inr d)"
  define finish where "finish = (\<lambda>d :: 'a desk. if halted (dsys d) then Inr d
    else Inr (if moved then pointer_draw (r_x r, r_y r) (pointer_erase d) else d) :: 'a desk result)"
  define keys where "keys = (\<lambda>d. if halted (dsys d) then Inr d else bind_result (wm_key env r d) finish)"
  have w: "after_poll env r l d = bind_result (wm_drag r moved d) (\<lambda>d. bind_result (click (wm_release r lb d)) keys)"
    by (simp add: after_poll_def l moved_def click_def keys_def finish_def Let_def cong: if_cong)
  have fin: "runs (finish d)" if "desk_ok d" for d using that by (simp add: finish_def desk_draw desk_erase)
  have "stays (keys d)" if "desk_ok d" for d
    using that by (auto simp: keys_def intro!: stays_bind [OF key_ok(1) [OF env that]] runs_stays [OF fin])
  moreover have "stays (click d)" if "desk_ok d" for d using that click_stays [OF env that] by (simp add: click_def)
  ultimately show "stays (after_poll env r l d)" unfolding w
    by (intro stays_bind [OF runs_stays [OF drag_runs [OF d]]] stays_bind) (auto simp: release_ok)
  assume n: "\<not> starts r l d"
  obtain d1 where d1: "wm_drag r moved d = Inr d1" "desk_ok d1" using drag_runs [OF d, of r moved] by (auto simp: runs_def)
  let ?d2 = "wm_release r lb d1"
  have k: "keys_ahead (dsys ?d2) = keys_ahead (dsys d)" using drag_sys [OF d1(1)] by simp
  obtain d3 where d3: "click ?d2 = Inr d3" "desk_ok d3" "dsys d3 = dsys ?d2"
  proof (cases "odd (r_b r) \<and> even lb")
    case False
    then have "click ?d2 = Inr ?d2" by (simp only: click_def if_False)
    then show ?thesis using that [of ?d2] release_ok [OF d1(2)] by simp
  next
    case True
    then have "\<not> tt (dragging (dwm d))" "find_icon_click (r_x r) (r_y r) d < 2" using n by (auto simp: starts_def l)
    then have "d1 = d" using d1(1) by (simp add: wm_drag_def)
    then have i: "find_icon_click (r_x r) (r_y r) ?d2 < 2" using \<open>find_icon_click (r_x r) (r_y r) d < 2\<close> by (simp add: find_icon_click_def)
    obtain d3 where "wm_click env r ?d2 = Inr d3" "desk_ok d3" using click_runs [OF release_ok [OF d1(2)] i, of env] by (auto simp: runs_def)
    then show ?thesis using that [of d3] click_sys [OF _ i] True by (simp add: click_def)
  qed
  have "runs (wm_key env r d3)" by (rule key_ok(2) [OF env d3(2)]) (use n d3(3) k in \<open>auto simp: starts_def\<close>)
  then have "runs (keys d3)" using d3(2) by (auto simp: keys_def intro: runs_bind fin)
  then show "runs (after_poll env r l d)" unfolding w d1(1) by (simp add: d3(1))
qed

lemma wm_round_ok:
  assumes env: "env_ok env" and d: "desk_ok d"
  shows "stays (wm_round env r l d)" and "\<not> starts r l d \<Longrightarrow> \<not> poll_fails env (dsys d) \<Longrightarrow> runs (wm_round env r l d)"
proof -
  show "stays (wm_round env r l d)"
  proof (cases "desk_poll env d")
    case (Inr d1)
    then show ?thesis using after_poll_ok(1) [OF env poll_kept(1) [OF env d Inr], of r l] by (simp add: wm_round_poll)
  qed (simp add: wm_round_poll stays_def)
  assume n: "\<not> starts r l d" "\<not> poll_fails env (dsys d)"
  obtain d1 where d1: "desk_poll env d = Inr d1" using poll_returns [OF d n(2) env] by blast
  note k = poll_kept [OF env d d1]
  have "starts r l d1 = starts r l d" using k(2) by (auto simp: starts_def find_icon_click_def)
  then show "runs (wm_round env r l d)" using after_poll_ok(2) [OF env k(1)] n(1) d1 by (simp add: wm_round_poll)
qed

definition seen :: "int \<times> int \<times> int \<Rightarrow> round list \<Rightarrow> int \<times> int \<times> int" where
  "seen l rs = (if rs = [] then l else (r_x (last rs), r_y (last rs), r_b (last rs)))"

lemma seen_Cons: "seen l (r # rs) = seen (r_x r, r_y r, r_b r) rs"
  by (simp add: seen_def)

lemma loop_ok:
  assumes env: "env_ok env" and d: "desk_ok d"
  shows "case wm_loop env rs l d of Inr (over, d') \<Rightarrow> desk_ok d'
    | Inl e \<Rightarrow> \<exists>rs1 r rs2 d1. rs = rs1 @ r # rs2 \<and> wm_loop env rs1 l d = Inr (False, d1) \<and> desk_ok d1 \<and>
        (starts r (seen l rs1) d1 \<or> poll_fails env (dsys d1))"
  using d
proof (induction rs arbitrary: l d)
  case Nil
  have "\<exists>p. fill_screen c g = g\<lparr>fb := p\<rparr>" for c g unfolding fill_screen_def fill_rect_def by (intro for_int_fb put_pixel_fb)
  then show ?case using Nil by (subst wm_loop.simps) (simp add: desk_on_gfx)
next
  case (Cons r rs)
  have fs: "\<exists>p. fill_screen c g = g\<lparr>fb := p\<rparr>" for c g unfolding fill_screen_def fill_rect_def by (intro for_int_fb put_pixel_fb)
  show ?case
  proof (cases "\<not> halted (dsys d) \<and> tt (running (dwm d)) \<and> window_count (dwm d) > 0")
    case False
    then show ?thesis using Cons.prems fs by (subst wm_loop.simps) (auto simp: desk_on_gfx)
  next
    case True
    then have go: "wm_loop env (r # q) l d = bind_result (wm_round env r l d) (wm_loop env q (r_x r, r_y r, r_b r))" for q
      by (subst wm_loop.simps) simp
    have stop: "wm_loop env [] l d = Inr (False, d)" using True by (subst wm_loop.simps) simp
    show ?thesis
    proof (cases "wm_round env r l d")
      case (Inl e)
      have "\<not> runs (wm_round env r l d)" by (simp add: Inl runs_def)
      then have "starts r l d \<or> poll_fails env (dsys d)" using wm_round_ok(2) [OF env Cons.prems] by blast
      then have "r # rs = [] @ r # rs \<and> wm_loop env [] l d = Inr (False, d) \<and> desk_ok d \<and> (starts r (seen l []) d \<or> poll_fails env (dsys d))"
        using stop Cons.prems by (simp add: seen_def)
      then show ?thesis unfolding go Inl bind_result_simps sum.case by - (rule exI [of _ "[]"], rule exI [of _ r], rule exI [of _ rs], rule exI [of _ d], simp)
    next
      case (Inr d0)
      have d0: "desk_ok d0" using wm_round_ok(1) [OF env Cons.prems, of r l] Inr by simp
      note ih = Cons.IH [OF d0, of "(r_x r, r_y r, r_b r)"]
      show ?thesis
      proof (cases "wm_loop env rs (r_x r, r_y r, r_b r) d0")
        case e: (Inl e)
        then obtain rs1 q rs2 d1 where i: "rs = rs1 @ q # rs2" "wm_loop env rs1 (r_x r, r_y r, r_b r) d0 = Inr (False, d1)" "desk_ok d1"
            "starts q (seen (r_x r, r_y r, r_b r) rs1) d1 \<or> poll_fails env (dsys d1)" using ih by auto
        have "r # rs = (r # rs1) @ q # rs2 \<and> wm_loop env (r # rs1) l d = Inr (False, d1) \<and> desk_ok d1 \<and>
            (starts q (seen l (r # rs1)) d1 \<or> poll_fails env (dsys d1))"
          using i go [of rs1] Inr by (simp add: seen_Cons)
        then show ?thesis unfolding go Inr bind_result_simps e sum.case by - (rule exI [of _ "r # rs1"], rule exI [of _ q], rule exI [of _ rs2], rule exI [of _ d1], simp add: go Inr)
      next
        case x: (Inr x)
        then show ?thesis using ih unfolding go Inr bind_result_simps by simp
      qed
    qed
  qed
qed

end
