(* ===== verification/Desktop_Session.thy ===== *)
theory Desktop_Session
  imports Desktop
begin

text \<open>
  Whole sessions of the desktop: every run of the program manager keeps the desktop's invariant, the desktop
  can be left with the mouse while its close boxes are on the screen, and a line typed in the terminal window is run by the command interpreter.
\<close>

section \<open>Sessions\<close>

lemma init_ok: "wm_ok m \<Longrightarrow> wm_ok (brickwm_init m) \<and> keys_ok (brickwm_init m)"
  by (auto simp: brickwm_init_def wm_ok_def keys_ok_def used_def list_all_iff window_ok_def)

text \<open>
  A session of the program manager, from its start through any sequence of mouse movements, clicks and
  keys: the window table, the screen and its text cursor, the file system, the file manager's list and input
  line, the terminal's command line and the pointer's background all stay well-formed. A fault can come only
  from a turn that hands control to a program (a return key that is read, a click on the icon of the editor
  or of the game, or a click in a turn that also moves a window), or from a turn in which the poll of the
  lwIP port, once the library has been started, faults or does not return.
\<close>

lemma desktop_session:
  assumes "env_ok env" and "desk_ok d"
  shows "case progman_run env p rs d of Inr (over, d') \<Rightarrow> desk_ok d'
    | Inl e \<Rightarrow> \<exists>rs1 r rs2 d1. rs = rs1 @ r # rs2 \<and> progman_run env p rs1 d = Inr (False, d1) \<and> desk_ok d1 \<and>
        (starts r (seen (0, 0, 0) rs1) d1 \<or> poll_fails env (dsys d1))"
proof -
  obtain i m where c: "brickwm_create_window ''Program Manager'' 100 50 500 400 (Some App_Progman) None (brickwm_init (dwm d)) = (i, m)"
    by (cases "brickwm_create_window ''Program Manager'' 100 50 500 400 (Some App_Progman) None (brickwm_init (dwm d))")
  have "wm_ok (dwm d)" using assms(2) by (simp add: desk_ok_def)
  then have "wm_ok m \<and> keys_ok m" using create_keys [OF _ _ _ c] init_ok by blast
  then have "desk_ok (d\<lparr>dwm := m\<rparr>)" using desk_wm [OF assms(2)] by blast
  then obtain d0 where d0: "redraw_all_with_cursor p (d\<lparr>dwm := m\<rparr>) = Inr d0" "desk_ok d0" using redraw_runs [of _ p] by (auto simp only: runs_def)
  have run: "progman_run env p q d = wm_loop env q (0, 0, 0) d0" for q by (simp add: progman_run_def c brickwm_run_def d0(1))
  show ?thesis unfolding run by (rule loop_ok [OF assms(1) d0(2)])
qed

text \<open>A desktop before its first window, on a system with one file.\<close>

definition boot_denv :: "unit desk_env" where
  "boot_denv = \<lparr>d_env = boot_env, d_paint = (\<lambda>_ _ g. g)\<rparr>"

definition boot_desk :: "fm \<Rightarrow> unit desk" where
  "boot_desk fm = \<lparr>dsys = boot_system, dscr = boot_screen\<lparr>scr_term := term_io_init (scr_term boot_screen)\<rparr>,
     dcur = \<lparr>saved = replicate 256 0, saved_x = - 1, saved_y = 0\<rparr>, dwm = boot_wm, dfm = fm, icon_at = replicate 4 (0, 0),
     term_cmd = replicate 256 NUL, term_len = 0, term_on = 1, term_handle = - 1\<rparr>"

lemma plain_apart: "lib_apart plain_lib"
  by (simp add: lib_apart_def plain_lib_def) (auto simp: spared_def tree_def)

lemma boot_denv_ok: "env_ok boot_denv"
  by (auto simp: env_ok_def boot_denv_def programs_keep_def boot_env_def plain_apart intro: fb_id)

lemma boot_keys: "keys_ahead boot_system = []" "halted boot_system = False" "lwip_ready boot_system = 0"
  by (simp_all add: boot_system_def editor.extend_def)

lemma boot_desk_ok: "\<exists>fm. refresh_entries boot_fm boot_system = Inr fm \<and> desk_ok (boot_desk fm)"
proof -
  have z: "cstr (replicate n NUL) = []" for n by (cases n) (simp_all add: cstr_def)
  obtain fm where fm: "refresh_entries boot_fm boot_system = Inr fm" "browsing fm boot_system"
    using refresh_browsing [OF boot_fs(1), of boot_fm] by (auto simp: boot_fm_def input_ok_def z)
  have "term_good (term_io_init (scr_term boot_screen))" using init_shows by (auto simp: term_good_def)
  then have "screen_ok (dscr (boot_desk fm))" by (simp add: boot_desk_def boot_screen_def boot_font_def screen_ok_def boot_gfx_ok)
  moreover have "keys_ok boot_wm" by (simp add: keys_ok_def boot_wm_def)
  moreover have "fm_ok TYPE(unit system) fm" using fm(2) boot_fs(1) by (auto simp: fm_ok_def)
  ultimately show ?thesis using fm(1) boot_wm_ok boot_fs(1) by (auto simp: desk_ok_def line_ok_def z boot_desk_def)
qed

section \<open>Leaving the desktop\<close>

text \<open>
  A window whose close box is inside it and on the screen of \<open>sw\<close> by \<open>sh\<close> pixels, to which the mouse driver keeps the
  pointer, and the turns that click there.
\<close>

definition placed :: "int \<Rightarrow> int \<Rightarrow> window \<Rightarrow> bool" where
  "placed sw sh w \<longleftrightarrow> 18 \<le> win_pw w \<and> 0 \<le> win_ph w \<and> - (2 ^ 31) \<le> win_px w \<and> win_px w + win_pw w < 2 ^ 31 \<and>
     - (2 ^ 31) \<le> win_py w \<and> win_py w + win_ph w + 20 < 2 ^ 31 \<and>
     0 \<le> win_px w + win_pw w - 18 \<and> win_px w + win_pw w - 18 < sw \<and> 0 \<le> win_py w + 2 \<and> win_py w + 2 < sh"

definition pointer_on :: "int \<Rightarrow> int \<Rightarrow> round \<Rightarrow> bool" where
  "pointer_on sw sh r \<longleftrightarrow> 0 \<le> r_x r \<and> r_x r < sw \<and> 0 \<le> r_y r \<and> r_y r < sh"

definition mouse_at :: "int \<Rightarrow> int \<Rightarrow> int \<Rightarrow> round" where
  "mouse_at x y b = \<lparr>r_x = x, r_y = y, r_b = b, r_ready = False, r_drag = (x, y), r_click = (x, y), r_key = (x, y)\<rparr>"

definition on_close_box :: "wm \<Rightarrow> round \<Rightarrow> bool" where
  "on_close_box m r \<longleftrightarrow> (\<exists>k<8. \<exists>b\<in>{0, 1}. r = mouse_at (win_px (windows m ! k) + win_pw (windows m ! k) - 18) (win_py (windows m ! k) + 2) b)"

lemma placed_close:
  assumes "placed sw sh w"
  shows "inside (win_px w + win_pw w - 18) (win_py w + 2) w" "check_close_click (win_px w + win_pw w - 18) (win_py w + 2) w"
proof -
  have "swrap (win_px w + win_pw w) = win_px w + win_pw w" "swrap (win_py w + win_ph w + 20) = win_py w + win_ph w + 20"
    "swrap (win_px w + win_pw w - 18) = win_px w + win_pw w - 18" "swrap (win_py w + 2) = win_py w + 2"
    "swrap (win_px w + win_pw w - 18 + 14) = win_px w + win_pw w - 18 + 14" "swrap (win_py w + 2 + 14) = win_py w + 2 + 14"
    using assms by (auto intro!: swrap_id simp: placed_def is_int32_def)
  then show "inside (win_px w + win_pw w - 18) (win_py w + 2) w" "check_close_click (win_px w + win_pw w - 18) (win_py w + 2) w"
    using assms by (simp_all add: inside_def check_close_click_def Let_def placed_def)
qed

definition same_place :: "wm \<Rightarrow> wm \<Rightarrow> bool" where
  "same_place m m' \<longleftrightarrow> dragging m' = dragging m \<and> running m' = running m \<and> (\<forall>j<8. win_px (windows m' ! j) = win_px (windows m ! j) \<and>
     win_py (windows m' ! j) = win_py (windows m ! j) \<and> win_pw (windows m' ! j) = win_pw (windows m ! j) \<and> win_ph (windows m' ! j) = win_ph (windows m ! j))"

lemma close_place: "length (windows m) = 8 \<Longrightarrow> close_slot h m = (closed, m') \<Longrightarrow> same_place m m'"
proof -
  assume l: "length (windows m) = 8" and c: "close_slot h m = (closed, m')"
  have upd: "win_px (ws[i := (ws ! i)\<lparr>active := 1\<rparr>] ! j) = win_px (ws ! j) \<and> win_py (ws[i := (ws ! i)\<lparr>active := 1\<rparr>] ! j) = win_py (ws ! j) \<and>
      win_pw (ws[i := (ws ! i)\<lparr>active := 1\<rparr>] ! j) = win_pw (ws ! j) \<and> win_ph (ws[i := (ws ! i)\<lparr>active := 1\<rparr>] ! j) = win_ph (ws ! j)"
    if "j < length ws" for ws :: "window list" and i j using that by (cases "i = j") simp_all
  have cl: "win_px (ws[i := (ws ! i)\<lparr>use_count := 0, win_draw := None, win_key := None\<rparr>] ! j) = win_px (ws ! j) \<and>
      win_py (ws[i := (ws ! i)\<lparr>use_count := 0, win_draw := None, win_key := None\<rparr>] ! j) = win_py (ws ! j) \<and>
      win_pw (ws[i := (ws ! i)\<lparr>use_count := 0, win_draw := None, win_key := None\<rparr>] ! j) = win_pw (ws ! j) \<and>
      win_ph (ws[i := (ws ! i)\<lparr>use_count := 0, win_draw := None, win_key := None\<rparr>] ! j) = win_ph (ws ! j)"
    if "j < length ws" for ws :: "window list" and i j using that by (cases "i = j") simp_all
  show ?thesis using c l by (auto simp: close_slot_def Let_def same_place_def upd cl split: if_splits)
qed

lemma mouse_quiet: "wm_key env (mouse_at x y b) d = Inr d"
  by (simp add: wm_key_def mouse_at_def split: list.split)

text \<open>A press on the close box of the window that lies on top closes it.\<close>

lemma press_closes:
  assumes env: "env_ok env" and d: "desk_ok d" and live: "\<not> halted (dsys d)" "dragging (dwm d) = 0" and idle: "lwip_ready (dsys d) = 0" and lb: "even (snd (snd l))"
    and k: "k < 8" "use_count (windows (dwm d) ! k) \<noteq> 0" "\<forall>j<8. k < j \<longrightarrow> use_count (windows (dwm d) ! j) = 0" "placed sw sh (windows (dwm d) ! k)"
  shows "\<exists>d'. wm_round env (mouse_at (win_px (windows (dwm d) ! k) + win_pw (windows (dwm d) ! k) - 18) (win_py (windows (dwm d) ! k) + 2) 1) l d = Inr d' \<and>
    desk_ok d' \<and> dsys d' = dsys d \<and> same_place (dwm d) (dwm d') \<and> window_count (dwm d') = window_count (dwm d) - 1 \<and>
    (\<forall>j<8. use_count (windows (dwm d') ! j) \<noteq> 0 \<longrightarrow> use_count (windows (dwm d) ! j) \<noteq> 0)"
proof -
  let ?w = "windows (dwm d) ! k"
  define x y where "x = win_px ?w + win_pw ?w - 18" and "y = win_py ?w + 2"
  let ?d1 = "d\<lparr>dwm := activate k (dwm d)\<rparr>"
  have hit: "inside x y ?w" "check_close_click x y ?w" using placed_close [OF k(4)] by (simp_all add: x_def y_def)
  have top: "use_count (windows (dwm d) ! j) \<noteq> 0 \<Longrightarrow> j < 8 \<Longrightarrow> j \<le> k" for j using k(3) by (meson not_le)
  have f: "find_window_at x y (dwm d) = int k"
    using pick_down [of "\<lambda>w. use_count w \<noteq> 0 \<and> inside x y w" 8 "windows (dwm d)"] k(1,2) hit(1) top by (auto simp: find_window_at_def le_less)
  have wm: "wm_ok (dwm d)" "keys_ok (dwm d)" "length (windows (dwm d)) = 8" using d by (auto simp: desk_ok_def wm_ok_def)
  have a: "wm_ok (activate k (dwm d))" "keys_ok (activate k (dwm d))" using activate_ok [OF wm(1)] wm(2) by auto
  have d1: "desk_ok ?d1" using desk_wm [OF d a] by simp
  have n: "windows (activate k (dwm d)) ! j = (windows (dwm d) ! j)\<lparr>active := yn (j = k)\<rparr>" if "j < 8" for j using that wm(3) by (simp add: activate_def)
  obtain closed m where c: "close_slot (int k) (activate k (dwm d)) = (closed, m)" by (cases "close_slot (int k) (activate k (dwm d))")
  note s = close_spec [OF a(1) c]
  have closed: closed "wm_ok m" "window_count m = window_count (dwm d) - 1" "use_count (windows m ! k) = 0"
      "\<And>j. j < 8 \<Longrightarrow> j \<noteq> k \<Longrightarrow> use_count (windows m ! j) = use_count (windows (dwm d) ! j)"
    using s k(1,2) n by (auto simp: activate_def)
  obtain d2 where d2: "brickwm_close_window (int k) ?d1 = Inr d2" "desk_ok d2" using close_runs [OF d1] by (auto simp: runs_def)
  have "draw_all (?d1\<lparr>dwm := m\<rparr>) = Inr d2" using d2(1) c closed(1) by (simp add: brickwm_close_window_def)
  note co = draw_all_core [OF this]
  have m2: "dwm d2 = m" "dsys d2 = dsys d" using core_wm [OF co] core_sys [OF co] by simp_all
  have h2: "\<not> halted (dsys d2)" using m2(2) live(1) by simp
  have act: "same_place (dwm d) (activate k (dwm d))" using n by (simp add: same_place_def activate_def)
  have "same_place (activate k (dwm d)) m" using close_place [OF _ c] wm(3) by (simp add: activate_def)
  then have sp: "same_place (dwm d) m" using act by (simp add: same_place_def)
  have chk: "check_close_click x y (windows (activate k (dwm d)) ! k)" using hit(2) n [OF k(1)] by (simp add: check_close_click_def)
  obtain lx ly b where l: "l = (lx, ly, b)" by (cases l)
  have cl: "wm_click env (mouse_at x y 1) d = Inr d2" using f chk d2(1) by (simp add: wm_click_def mouse_at_def Let_def)
  define moved where "moved = (x \<noteq> lx \<or> y \<noteq> ly)"
  define d3 where "d3 = (if moved then pointer_draw (x, y) (pointer_erase d2) else d2)"
  have "wm_round env (mouse_at x y 1) l d = Inr d3"
    using lb l cl h2 live(2) unfolding wm_round_def wm_drag_def wm_release_def Let_def poll_idle [OF idle]
    by (simp add: mouse_quiet) (simp add: mouse_at_def moved_def d3_def)
  moreover have "core d3 = core d2" by (simp add: d3_def)
  then have "dwm d3 = m" "dsys d3 = dsys d2" using core_wm core_sys m2(1) by metis+
  moreover have "desk_ok d3" using d2(2) by (simp add: d3_def desk_draw desk_erase)
  moreover have "\<forall>j<8. use_count (windows m ! j) \<noteq> 0 \<longrightarrow> use_count (windows (dwm d) ! j) \<noteq> 0" using closed(4,5) by metis
  ultimately show ?thesis using m2(2) sp closed(3) unfolding x_def y_def by (intro exI [of _ d3]) simp
qed

lemma release_turn:
  assumes d: "desk_ok d" and live: "\<not> halted (dsys d)" "dragging (dwm d) = 0" and idle: "lwip_ready (dsys d) = 0"
  shows "\<exists>d'. wm_round env (mouse_at x y 0) l d = Inr d' \<and> desk_ok d' \<and> dsys d' = dsys d \<and> dwm d' = dwm d"
proof -
  obtain lx ly b where l: "l = (lx, ly, b)" by (cases l)
  define moved where "moved = (x \<noteq> lx \<or> y \<noteq> ly)"
  define d3 where "d3 = (if moved then pointer_draw (x, y) (pointer_erase d) else d)"
  have "wm_round env (mouse_at x y 0) l d = Inr d3"
    using l live unfolding wm_round_def wm_drag_def wm_release_def Let_def poll_idle [OF idle]
    by (simp add: mouse_quiet) (simp add: mouse_at_def moved_def d3_def)
  moreover have "core d3 = core d" by (simp add: d3_def)
  then have "dwm d3 = dwm d" "dsys d3 = dsys d" using core_wm core_sys by metis+
  moreover have "desk_ok d3" using d by (simp add: d3_def desk_draw desk_erase)
  ultimately show ?thesis by (intro exI [of _ d3]) simp
qed

lemma same_box: "same_place m m' \<Longrightarrow> on_close_box m' r = on_close_box m r"
  by (auto simp: on_close_box_def same_place_def)

lemma loop_over: "\<not> halted (dsys d) \<Longrightarrow> window_count (dwm d) \<le> 0 \<Longrightarrow> \<exists>d'. wm_loop env rs l d = Inr (True, d')"
  by (subst wm_loop.simps) simp

lemma loop_goes: "\<not> halted (dsys d) \<Longrightarrow> running (dwm d) \<noteq> 0 \<Longrightarrow> window_count (dwm d) > 0 \<Longrightarrow> wm_round env r l d = Inr d1 \<Longrightarrow>
    wm_loop env (r # rs) l d = wm_loop env rs (r_x r, r_y r, r_b r) d1"
  by (subst wm_loop.simps) simp

lemma close_all:
  assumes env: "env_ok env"
  shows "desk_ok d \<Longrightarrow> \<not> halted (dsys d) \<Longrightarrow> lwip_ready (dsys d) = 0 \<Longrightarrow> dragging (dwm d) = 0 \<Longrightarrow> running (dwm d) \<noteq> 0 \<Longrightarrow> even (snd (snd l)) \<Longrightarrow>
    (\<forall>j<8. use_count (windows (dwm d) ! j) \<noteq> 0 \<longrightarrow> placed sw sh (windows (dwm d) ! j)) \<Longrightarrow> window_count (dwm d) = int n \<Longrightarrow>
    \<exists>rs d'. length rs = 2 * n \<and> list_all (on_close_box (dwm d)) rs \<and> list_all (pointer_on sw sh) rs \<and> wm_loop env rs l d = Inr (True, d')"
proof (induction n arbitrary: d l)
  case 0
  then show ?case using loop_over [of d env "[]" l] by auto
next
  case (Suc n)
  have wm: "length (windows (dwm d)) = 8" "used (windows (dwm d)) = Suc n" using Suc.prems(1,8) by (auto simp: desk_ok_def wm_ok_def)
  then have "filter (\<lambda>w. use_count w \<noteq> 0) (windows (dwm d)) \<noteq> []" by (auto simp: used_def)
  then have "\<exists>j<8. use_count (windows (dwm d) ! j) \<noteq> 0" using wm(1) by (auto simp: filter_empty_conv in_set_conv_nth)
  then obtain k where k: "k < 8" "use_count (windows (dwm d) ! k) \<noteq> 0" "\<forall>j<8. k < j \<longrightarrow> use_count (windows (dwm d) ! j) = 0"
    using pick_down [of "\<lambda>w. use_count w \<noteq> 0" 8 "windows (dwm d)"] by auto
  let ?w = "windows (dwm d) ! k"
  let ?at = "mouse_at (win_px ?w + win_pw ?w - 18) (win_py ?w + 2)"
  have p: "placed sw sh ?w" using Suc.prems(7) k by blast
  obtain d1 where d1: "wm_round env (?at 1) l d = Inr d1" "desk_ok d1" "dsys d1 = dsys d" "same_place (dwm d) (dwm d1)"
      "window_count (dwm d1) = int n" "\<forall>j<8. use_count (windows (dwm d1) ! j) \<noteq> 0 \<longrightarrow> use_count (windows (dwm d) ! j) \<noteq> 0"
    using press_closes [OF env Suc.prems(1,2,4,3,6) k p] Suc.prems(8) by auto
  have live: "dragging (dwm d1) = 0" "running (dwm d1) \<noteq> 0" "\<not> halted (dsys d1)" "lwip_ready (dsys d1) = 0"
    using d1(3,4) Suc.prems(2-5) by (auto simp: same_place_def)
  have on: "pointer_on sw sh (?at b)" for b using p by (simp add: pointer_on_def placed_def mouse_at_def)
  have pl: "\<forall>j<8. use_count (windows (dwm d1) ! j) \<noteq> 0 \<longrightarrow> placed sw sh (windows (dwm d1) ! j)"
    using Suc.prems(7) d1(4,6) by (simp add: same_place_def placed_def)
  let ?l = "(r_x (?at 1), r_y (?at 1), r_b (?at 1))"
  have one: "wm_loop env (?at 1 # rs) l d = wm_loop env rs ?l d1" for rs
    by (rule loop_goes) (use Suc.prems d1(1) in simp_all)
  have box: "on_close_box (dwm d) (?at 1)" "on_close_box (dwm d) (?at 0)" using k(1) by (auto simp: on_close_box_def)
  have e: "even (snd (snd (r_x (?at 0), r_y (?at 0), r_b (?at 0))))" by (simp add: mouse_at_def)
  have "\<exists>rs d'. length rs = 2 * n \<and> list_all (on_close_box (dwm d1)) rs \<and> list_all (pointer_on sw sh) rs \<and> wm_loop env (?at 0 # rs) ?l d1 = Inr (True, d')"
  proof (cases "n = 0")
    case True
    then show ?thesis using loop_over [OF live(3), of env "[?at 0]" ?l] d1(5) by (intro exI [of _ "[]"]) simp
  next
    case False
    obtain d2 where d2: "wm_round env (?at 0) ?l d1 = Inr d2" "desk_ok d2" "dsys d2 = dsys d1" "dwm d2 = dwm d1"
      using release_turn [OF d1(2) live(3,1,4)] by blast
    have two: "wm_loop env (?at 0 # rs) ?l d1 = wm_loop env rs (r_x (?at 0), r_y (?at 0), r_b (?at 0)) d2" for rs
      by (rule loop_goes) (use d1(5) d2(1) live False in simp_all)
    show ?thesis using Suc.IH [OF d2(2) _ _ _ _ e, unfolded d2(3,4), OF live(3,4,1,2) pl d1(5)] unfolding two by blast
  qed
  then obtain rs d' where "length rs = 2 * n" "list_all (on_close_box (dwm d)) rs" "list_all (pointer_on sw sh) rs" "wm_loop env (?at 0 # rs) ?l d1 = Inr (True, d')"
    using same_box [OF d1(4)] by (auto simp: list_all_iff)
  then show ?case using one box on by (intro exI [of _ "?at 1 # ?at 0 # rs"] exI [of _ d']) simp
qed

text \<open>
  C36. The desktop can be left with the mouse: from every well-formed desktop on which no window is being dragged,
  the buttons are up, the close box of every open window is on the screen and the lwIP library has not been started,
  clicking the close boxes in turn, the one of the window on top first, closes all windows, and the loop then ends (two
  turns of the loop per window); the pointer stays on the screen. A window dragged so far that its close box leaves the screen cannot be clicked
  there, and once the library is started a turn in which a frame arrives does not end.
\<close>

theorem desktop_can_be_left:
  assumes "env_ok env" and "desk_ok d" and "\<not> halted (dsys d)" and "running (dwm d) \<noteq> 0" and "dragging (dwm d) = 0" and "even (snd (snd l))"
    and "lwip_ready (dsys d) = 0" and "sw = int (fb_width (scr_gfx (dscr d)))" and "sh = int (fb_height (scr_gfx (dscr d)))"
    and "\<forall>j<8. use_count (windows (dwm d) ! j) \<noteq> 0 \<longrightarrow> placed sw sh (windows (dwm d) ! j)"
  shows "\<exists>rs d'. length rs = 2 * used (windows (dwm d)) \<and> list_all (on_close_box (dwm d)) rs \<and> list_all (pointer_on sw sh) rs \<and>
    wm_loop env rs l d = Inr (True, d')"
  by (rule close_all [OF assms(1,2,3,7,5,4,6,10)]) (use assms(2) in \<open>simp add: desk_ok_def wm_ok_def\<close>)

theorem desktop_can_be_left_witness:
  "\<exists>fm i m. refresh_entries boot_fm boot_system = Inr fm \<and>
     brickwm_create_window ''Terminal'' 150 100 500 350 (Some App_Term) (Some App_Term) boot_wm = (i, m) \<and>
     (\<exists>rs d'. length rs = 2 \<and> list_all (on_close_box m) rs \<and> list_all (pointer_on 1024 768) rs \<and> wm_loop boot_denv rs (0, 0, 0) ((boot_desk fm)\<lparr>dwm := m\<rparr>) = Inr (True, d'))"
proof -
  obtain fm where fm: "refresh_entries boot_fm boot_system = Inr fm" "desk_ok (boot_desk fm)" using boot_desk_ok by blast
  obtain i m where c: "brickwm_create_window ''Terminal'' 150 100 500 350 (Some App_Term) (Some App_Term) boot_wm = (i, m)"
    by (cases "brickwm_create_window ''Terminal'' 150 100 500 350 (Some App_Term) (Some App_Term) boot_wm")
  have k: "wm_ok m" "keys_ok m" using create_keys [OF boot_wm_ok _ _ c] by (auto simp: keys_ok_def boot_wm_def)
  have u: "used (windows boot_wm) = 0" by (simp add: used_def boot_wm_def)
  obtain k where s: "k < 8" "windows m ! k = new_window ''Terminal'' 150 100 500 350 (Some App_Term) (Some App_Term) (windows boot_wm ! k)"
      "\<forall>j<8. j \<noteq> k \<longrightarrow> windows m ! j = (windows boot_wm ! j)\<lparr>active := 0\<rparr>" "window_count m = window_count boot_wm + 1"
      "m = boot_wm\<lparr>windows := windows m, window_count := window_count m\<rparr>"
    using create_spec [OF boot_wm_ok c] u by auto
  have n: "used (windows m) = 1" using k(1) s(4) by (simp add: wm_ok_def boot_wm_def)
  have m: "running m \<noteq> 0" "dragging m = 0" by (subst s(5), simp add: boot_wm_def)+
  have p: "\<forall>j<8. use_count (windows m ! j) \<noteq> 0 \<longrightarrow> placed 1024 768 (windows m ! j)"
  proof (intro allI impI)
    fix j :: nat assume j: "j < 8" and "use_count (windows m ! j) \<noteq> 0"
    then have "j = k" using s(3) by (cases "j = k") (auto simp: boot_wm_def)
    then show "placed 1024 768 (windows m ! j)" using s(2) by (simp add: placed_def new_window_def)
  qed
  have d: "desk_ok ((boot_desk fm)\<lparr>dwm := m\<rparr>)" using desk_wm [OF fm(2) k] .
  have g: "fb_width (scr_gfx (dscr (boot_desk fm))) = 1024" "fb_height (scr_gfx (dscr (boot_desk fm))) = 768"
    by (simp_all add: boot_desk_def boot_screen_def boot_gfx_ok)
  show ?thesis using desktop_can_be_left [OF boot_denv_ok d, of "(0, 0, 0)" 1024 768] m p n fm(1) c g by (simp add: boot_keys) (simp add: boot_desk_def boot_keys)
qed

section \<open>Typing a command\<close>

lemma set_term_put:
  assumes "shows_term a (scr_term (dscr d))"
  shows "\<exists>t. set_term (term_io_putchar c) d = Inr (d\<lparr>dscr := (dscr d)\<lparr>scr_term := t\<rparr>\<rparr>) \<and> shows_term (a_putchar c a) t"
  using putchar_refines [OF assms, of c] by (auto simp: set_term_def)

lemma set_term_print:
  assumes "shows_term a (scr_term (dscr d))"
  shows "\<exists>t. set_term (term_io_print str) d = Inr (d\<lparr>dscr := (dscr d)\<lparr>scr_term := t\<rparr>\<rparr>) \<and> shows_term (fold a_putchar str a) t"
  using put_all_refines [OF assms, of str] by (auto simp: set_term_def term_io_print_def term_io_force_redraw_def shows_term_def)

definition typed :: "'d desk \<Rightarrow> string \<Rightarrow> a_term \<Rightarrow> bool" where
  "typed d line a \<longleftrightarrow> desk_ok d \<and> term_on d \<noteq> 0 \<and> cstr (term_cmd d) = line \<and> shows_term a (scr_term (dscr d))"

lemma type_char:
  assumes t: "typed d line a" and c: "printable c" and len: "length line < 255"
  shows "\<exists>d'. term_handle_key env c d = Inr d' \<and> typed d' (line @ [c]) (a_putchar c a) \<and> dsys d' = dsys d"
proof -
  note p = printable_not [OF c]
  have l: "line_ok (term_cmd d) (term_len d)" and n: "term_len d < 255" using t len by (auto simp: typed_def desk_ok_def line_ok_def)
  obtain b1 b where b: "put (term_cmd d) (term_len d) c = Inr b1" "put b1 (term_len d + 1) NUL = Inr b" "cstr b = line @ [c]"
    using line_type [OF l n p(1)] t by (auto simp: typed_def)
  let ?d = "d\<lparr>term_cmd := b, term_len := term_len d + 1\<rparr>"
  have "shows_term a (scr_term (dscr ?d))" using t by (simp add: typed_def)
  from set_term_put [OF this, of c] obtain u where u: "set_term (term_io_putchar c) ?d = Inr (?d\<lparr>dscr := (dscr d)\<lparr>scr_term := u\<rparr>\<rparr>)" "shows_term (a_putchar c a) u"
    by auto
  have e: "term_handle_key env c d = Inr (?d\<lparr>dscr := (dscr d)\<lparr>scr_term := u\<rparr>\<rparr>)"
    using t c p n b u(1) by (simp add: term_handle_key_def typed_def printable_def)
  have "desk_ok d" using t by (simp add: typed_def)
  from term_edit_runs [OF this, of c env] have "desk_ok (?d\<lparr>dscr := (dscr d)\<lparr>scr_term := u\<rparr>\<rparr>)" using p e by simp
  then show ?thesis using e t b(3) u(2) by (simp add: typed_def)
qed

lemma type_chars:
  "typed d line a \<Longrightarrow> list_all printable cs \<Longrightarrow> length line + length cs \<le> 255 \<Longrightarrow>
    \<exists>d'. for_each (term_handle_key env) cs d = Inr d' \<and> typed d' (line @ cs) (fold a_putchar cs a) \<and> dsys d' = dsys d"
proof (induction cs arbitrary: d line a)
  case (Cons c cs)
  obtain d1 where d1: "term_handle_key env c d = Inr d1" "typed d1 (line @ [c]) (a_putchar c a)" "dsys d1 = dsys d"
    using type_char [OF Cons.prems(1), of c env] Cons.prems(2,3) by auto
  show ?case using Cons.IH [OF d1(2)] Cons.prems(2,3) d1(1,3) by simp
qed simp

lemma run_command_shows:
  assumes a: "shows_term a (scr_term (dscr d))" and run: "execute_command (d_env env) line (dsys d) = Inr s"
  shows "\<exists>d'. run_command env line d = Inr d' \<and> dsys d' = s \<and> term_cmd d' = term_cmd d \<and> term_len d' = term_len d \<and> term_on d' = term_on d \<and>
    shows_term (fold a_putchar (drop (length (out (dsys d))) (out s)) a) (scr_term (dscr d'))"
proof -
  obtain t where "term_put_all (drop (length (out (dsys d))) (out s)) (scr_term (dscr d)) = Inr t"
      "shows_term (fold a_putchar (drop (length (out (dsys d))) (out s)) a) t" using put_all_refines [OF a] by blast
  then show ?thesis using run
    by (simp add: run_command_def show_program_def show_sys_def screen_set_terminal_output_def print_def on_gfx_def Let_def)
qed

text \<open>
  C37. A line typed in the terminal window, character by character and ended by return, is run by the command
  interpreter exactly as typed, and the window then shows the line, everything the command printed, and a new
  prompt, wrapped and scrolled as the terminal buffer does it; the next line starts empty.
\<close>

theorem terminal_runs_line:
  assumes env: "env_ok env" and d: "desk_ok d" and on: "term_on d \<noteq> 0" "term_len d = 0" and a: "shows_term a (scr_term (dscr d))"
    and line: "list_all printable line" "line \<noteq> []" "line \<noteq> ''exit''" "length line \<le> 255"
    and run: "execute_command (d_env env) line (dsys d) = Inr s" "\<not> halted s"
  shows "\<exists>d'. for_each (term_handle_key env) (line @ [NL]) d = Inr d' \<and> dsys d' = s \<and> desk_ok d' \<and> term_on d' \<noteq> 0 \<and> term_len d' = 0 \<and>
    shows_term (fold a_putchar (line @ [NL] @ drop (length (out (dsys d))) (out s) @ ''> '') a) (scr_term (dscr d'))"
proof -
  have "typed d [] a" using d on a by (auto simp: typed_def desk_ok_def line_ok_def)
  from type_chars [OF this line(1), of env] line(4) obtain d1 where
    d1: "for_each (term_handle_key env) line d = Inr d1" "typed d1 line (fold a_putchar line a)" "dsys d1 = dsys d" by auto
  have ok1: "desk_ok d1" "term_on d1 \<noteq> 0" "cstr (term_cmd d1) = line" "shows_term (fold a_putchar line a) (scr_term (dscr d1))" using d1(2) by (auto simp: typed_def)
  have len: "term_len d1 > 0" using ok1(1,3) line(2) by (auto simp: desk_ok_def line_ok_def)
  obtain d2 where d2: "set_term (term_io_putchar NL) d1 = Inr d2" "desk_ok d2"
      "term_handle_key env NL d1 = bind_result (run_command env line d2) (\<lambda>d. if halted (dsys d) then Inr d else term_prompt d)"
    by (rule term_return [OF ok1(1,2), of env]) (rule that, use len ok1(3) line(3) in simp_all)
  obtain t where t: "d2 = d1\<lparr>dscr := (dscr d1)\<lparr>scr_term := t\<rparr>\<rparr>" "shows_term (fold a_putchar (line @ [NL]) a) t"
    using set_term_put [OF ok1(4), of NL] d2(1) by auto
  then have "shows_term (fold a_putchar (line @ [NL]) a) (scr_term (dscr d2))" "dsys d2 = dsys d" using d1(3) by simp_all
  then obtain d3 where d3: "run_command env line d2 = Inr d3" "dsys d3 = s" "term_on d3 = term_on d2"
      "shows_term (fold a_putchar (line @ [NL] @ drop (length (out (dsys d))) (out s)) a) (scr_term (dscr d3))"
    using run_command_shows [of "fold a_putchar (line @ [NL]) a" d2 env line s] run(1) by auto
  have "nul_free line" using line(1) printable_not(1) by (auto simp: nul_free_def list_all_iff)
  then have ok3: "desk_ok d3" using run_command_stays [OF env d2(2) _ line(4)] d3(1) by simp
  obtain b where b: "put (term_cmd d3) 0 NUL = Inr b" "line_ok b 0" using line_clear ok3 by (auto simp: desk_ok_def)
  let ?d = "d3\<lparr>term_cmd := b, term_len := 0\<rparr>"
  have "shows_term (fold a_putchar (line @ [NL] @ drop (length (out (dsys d))) (out s)) a) (scr_term (dscr ?d))" using d3(4) by simp
  from set_term_print [OF this, of "''> ''"] obtain u where u: "set_term (term_io_print ''> '') ?d = Inr (?d\<lparr>dscr := (dscr d3)\<lparr>scr_term := u\<rparr>\<rparr>)"
      "shows_term (fold a_putchar (line @ [NL] @ drop (length (out (dsys d))) (out s) @ ''> '') a) u" by auto
  have e: "term_prompt d3 = Inr (?d\<lparr>dscr := (dscr d3)\<lparr>scr_term := u\<rparr>\<rparr>)" using b(1) u(1) by (simp add: term_prompt_def)
  then have "desk_ok (?d\<lparr>dscr := (dscr d3)\<lparr>scr_term := u\<rparr>\<rparr>)" using prompt_runs [OF ok3] by simp
  moreover have "for_each (term_handle_key env) (line @ [NL]) d = Inr (?d\<lparr>dscr := (dscr d3)\<lparr>scr_term := u\<rparr>\<rparr>)"
    using d1(1) d2(3) d3(1,2) run(2) e by (simp add: for_each_append)
  ultimately show ?thesis using u(2) d3(2,3) t(1) ok1(2) by (intro exI [of _ "?d\<lparr>dscr := (dscr d3)\<lparr>scr_term := u\<rparr>\<rparr>"]) simp
qed

theorem terminal_runs_line_witness:
  "\<exists>fm d'. refresh_entries boot_fm boot_system = Inr fm \<and> for_each (term_handle_key boot_denv) (''zz'' @ [NL]) (boot_desk fm) = Inr d' \<and>
     shows_term \<lparr>a_lines = [''zz'', ''Unknown command: zz''], a_cur = ''> ''\<rparr> (scr_term (dscr d'))"
proof -
  obtain fm where fm: "refresh_entries boot_fm boot_system = Inr fm" "desk_ok (boot_desk fm)" using boot_desk_ok by blast
  let ?s = "emit (''Unknown command: '' @ ''zz'' @ [NL]) boot_system"
  have w: "words ''zz'' = [''zz'']" "nul_free ''zz''" by (simp_all add: words_def NUL_def)
  obtain argv where a: "map cstr argv = words ''zz''" "execute_command boot_env ''zz'' boot_system = run_words boot_env argv boot_system"
    using execute_words(3) [OF w(2) _ boot_stack, of boot_system] w(1) by (simp only: list.size) force
  have "arg argv 0 = ''zz''" using arg_map(1) [OF a(1), of 0] w(1) by simp
  moreover have "command_of ''zz'' = (None :: (unit, unit) cmd option)" by (simp add: command_of_def commands_def help_table_def)
  ultimately have e: "execute_command (d_env boot_denv) ''zz'' (dsys (boot_desk fm)) = Inr ?s"
    using a(2) by (simp add: run_words_def boot_denv_def boot_desk_def)
  have t: "shows_term \<lparr>a_lines = [], a_cur = []\<rparr> (scr_term (dscr (boot_desk fm)))" using init_shows by (simp add: boot_desk_def)
  have "halted (emit x boot_system) = False" for x :: string using boot_keys(2) by (simp add: emit_def)
  then have h: "term_on (boot_desk fm) \<noteq> 0" "term_len (boot_desk fm) = 0" "''zz'' \<noteq> []" "''zz'' \<noteq> ''exit''" "length ''zz'' \<le> 255" "\<not> halted ?s"
    by (simp_all add: boot_desk_def)
  have p: "list_all printable ''zz''" by (simp add: printable_def schar_def)
  have o: "drop (length (out (dsys (boot_desk fm)))) (out ?s) = ''Unknown command: '' @ ''zz'' @ [NL]" by (simp add: boot_desk_def)
  obtain d' where "for_each (term_handle_key boot_denv) (''zz'' @ [NL]) (boot_desk fm) = Inr d'"
      "shows_term (fold a_putchar (''zz'' @ [NL] @ (''Unknown command: '' @ ''zz'' @ [NL]) @ ''> '') \<lparr>a_lines = [], a_cur = []\<rparr>) (scr_term (dscr d'))"
    using terminal_runs_line [OF boot_denv_ok fm(2) h(1,2) t p h(3-5) e h(6)] unfolding o by blast
  moreover have "fold a_putchar (''zz'' @ [NL] @ (''Unknown command: '' @ ''zz'' @ [NL]) @ ''> '') \<lparr>a_lines = [], a_cur = []\<rparr> =
      \<lparr>a_lines = [''zz'', ''Unknown command: zz''], a_cur = ''> ''\<rparr>"
    by (simp add: a_putchar_def schar_def NL_def BS_def)
  ultimately show ?thesis using fm(1) by auto
qed

end
