(* ===== verification/Boot.thy ===== *)
theory Boot
  imports Desktop_Session
begin

text \<open>
  The start of the system, \<^verbatim>\<open>kmain\<close> of \<^verbatim>\<open>src/kernel.c\<close>: heap, framebuffer and font, descriptor table, mouse, timer, disk,
  network card and file system are set up in turn and the program manager is started. Shown here: from the zeroed
  memory of a fresh start this ends without a fault in a desktop whose invariant holds, so that everything shown of
  desktop sessions holds of the running system. Each component has the device behind its own ports.
\<close>

unbundle bit_operations_syntax

section \<open>kernel.c\<close>

record multiboot =
  mb_flags :: u32
  framebuffer_addr :: "64 word"
  framebuffer_pitch :: u32
  framebuffer_width :: u32
  framebuffer_height :: u32
  framebuffer_bpp :: u8

record 'd kern =
  k_desk :: "'d desk"
  k_cpu :: "'d cpu"
  k_mouse :: "'d mouse"

definition say :: "'d desk_env \<Rightarrow> string \<Rightarrow> 'd desk \<Rightarrow> 'd desk result" where
  "say env s d = bind_result (print (d_bus env) s (dscr d)) (\<lambda>scr. Inr (d\<lparr>dscr := scr\<rparr>))"

text \<open>The framebuffer the boot loader provides, if bit 12 of the flags says so, and the linked font \<open>psf\<close>.\<close>

definition boot_video :: "(nat \<Rightarrow> u8) \<Rightarrow> multiboot \<Rightarrow> 'd desk \<Rightarrow> 'd desk" where
  "boot_video psf mb d =
     (if mb_flags mb AND push_bit 12 1 \<noteq> 0
      then let g = graphics_init (ucast (framebuffer_addr mb)) (unat (framebuffer_pitch mb)) (unat (framebuffer_width mb))
                     (unat (framebuffer_height mb)) (framebuffer_bpp mb) (scr_gfx (dscr d))
        in d\<lparr>dscr := (dscr d)\<lparr>scr_font := font_init psf, scr_gfx := fill_screen 0x00001133 g\<rparr>\<rparr>
      else d)"

text \<open>Up to the start of the file system, and from there to the program manager.\<close>

definition kmain_drivers :: "'d desk_env \<Rightarrow> linkage \<Rightarrow> (nat \<Rightarrow> u8) \<Rightarrow> multiboot \<Rightarrow> 'd kern \<Rightarrow> 'd kern result" where
  "kmain_drivers env lk psf mb k =
     (let bus = d_bus env; d = k_desk k;
          d = d\<lparr>dsys := set_heap (heap_init (sys_heap (dsys d))) (dsys d)\<rparr>;
          d = boot_video psf mb d
      in bind_result (init_idt lk bus (k_cpu k)) (\<lambda>cpu.
         let mouse = mouse_init bus (k_mouse k) in
         bind_result (say env (drop (length (out (k_mouse k))) (out mouse)) d) (\<lambda>d.
         bind_result (timer_init bus 100 (dsys d)) (\<lambda>s.
         let cpu = pic_unmask_irq bus 12 (pic_unmask_irq bus 2 (pic_unmask_irq bus 1 (pic_unmask_irq bus 0 cpu))) in
         bind_result (say env (''=== KERNEL BOOT ==='' @ [NL]) (d\<lparr>dsys := s\<rparr>)) (\<lambda>d.
         bind_result (say env (''Testing print: If you see this, output works!'' @ [NL]) d) (\<lambda>d.
         let d = pointer_draw (512, 384) d; d = d\<lparr>dscr := enable_cursor bus (dscr d)\<rparr> in
         bind_result (show_sys env (ata_init bus (dsys d)) d) (\<lambda>d.
         bind_result (net_init (e_nic (d_env env)) (dsys d)) (\<lambda>s.
         bind_result (show_sys env s d) (\<lambda>d. Inr \<lparr>k_desk = d, k_cpu = cpu, k_mouse = mouse\<rparr>)))))))))"

definition kmain_init :: "'d desk_env \<Rightarrow> linkage \<Rightarrow> (nat \<Rightarrow> u8) \<Rightarrow> multiboot \<Rightarrow> 'd kern \<Rightarrow> 'd kern result" where
  "kmain_init env lk psf mb k =
     bind_result (kmain_drivers env lk psf mb k) (\<lambda>k.
     let d = k_desk k in
     bind_result (show_sys env (fs_init (d_bus env) (dsys d)) d) (\<lambda>d.
     let d = d\<lparr>dscr := clear_screen (dscr d)\<rparr> in
     bind_result (say env (''FalastinOS V0.2'' @ [NL]) d) (\<lambda>d.
     bind_result (say env (''(c) 2026 therandomstickman. All rights reserved.'' @ [NL]) d) (\<lambda>d.
     bind_result (say env [NL] d) (\<lambda>d. Inr (k\<lparr>k_desk := d\<rparr>))))))"

definition kmain :: "'d desk_env \<Rightarrow> linkage \<Rightarrow> (nat \<Rightarrow> u8) \<Rightarrow> multiboot \<Rightarrow> int \<times> int \<Rightarrow> round list \<Rightarrow> 'd kern \<Rightarrow> (bool \<times> 'd desk) result" where
  "kmain env lk psf mb p rs k = bind_result (kmain_init env lk psf mb k) (\<lambda>k. progman_run env p rs (k_desk k))"

section \<open>A fresh start\<close>

text \<open>The memory as the loader leaves it: every global variable zero, apart from those with an initial value.\<close>

definition fresh_fm :: fm where
  "fresh_fm = \<lparr>fm_entries = replicate 128 \<lparr>ename = replicate 32 NUL, eis_dir = 0, esize = 0\<rparr>, entry_count = 0, selected = 0, scroll_off = 0,
     fm_x = 0, fm_y = 0, fm_w = 0, fm_h = 0, fm_handle = - 1, input_mode = 0, input_buf = replicate 32 NUL, input_len = 0\<rparr>"

definition fresh_desk :: "'d desk \<Rightarrow> bool" where
  "fresh_desk d \<longleftrightarrow> files (dsys d) = replicate 64 blank_file \<and> current_dir (dsys d) = 0 \<and> ata_present (dsys d) = 0 \<and>
     cur_col (dscr d) = 0 \<and> cur_row (dscr d) = 0 \<and> term_active (scr_term (dscr d)) = 0 \<and> dwm d = boot_wm \<and> dfm d = fresh_fm \<and>
     term_cmd d = replicate 256 NUL \<and> term_len d = 0 \<and> length (icon_at d) = 4"

definition fresh_kern :: "'d kern \<Rightarrow> bool" where
  "fresh_kern k \<longleftrightarrow> fresh_desk (k_desk k) \<and> length (idt (k_cpu k)) = 256"

text \<open>A picture mode the kernel can use: 32 bits per pixel, rows that do not overlap, room for a character.\<close>

definition mode_ok :: "(nat \<Rightarrow> u8) \<Rightarrow> multiboot \<Rightarrow> bool" where
  "mode_ok psf mb \<longleftrightarrow> mb_flags mb AND push_bit 12 1 \<noteq> 0 \<and> 8 \<le> unat (framebuffer_width mb) \<and>
     unat (framebuffer_width mb) \<le> unat (framebuffer_pitch mb) div 4 \<and> unat (framebuffer_height mb) * (unat (framebuffer_pitch mb) div 4) < 2 ^ 31 \<and>
     0 < unat (psf 3) \<and> unat (psf 3) \<le> unat (framebuffer_height mb)"

section \<open>Screen and pointer\<close>

lemma say_runs: "screen_ok (dscr d) \<Longrightarrow> \<exists>scr. say env s d = Inr (d\<lparr>dscr := scr\<rparr>) \<and> screen_ok scr"
  using screen_sink.puts_ok [of "dscr d" "d_bus env" s] by (auto simp: say_def print_put_all)

lemma show_runs: "screen_ok (dscr d) \<Longrightarrow> \<exists>scr. show_sys env s d = Inr (d\<lparr>dsys := s, dscr := scr\<rparr>) \<and> screen_ok scr"
  using screen_sink.puts_ok [of "dscr d" "d_bus env" "drop (length (out (dsys d))) (out s)"] by (auto simp: show_sys_def print_put_all)

lemma video_screen:
  assumes "mode_ok psf mb" and "cur_col (dscr d) = 0" and "cur_row (dscr d) = 0" and "term_active (scr_term (dscr d)) = 0"
  shows "\<exists>scr. boot_video psf mb d = d\<lparr>dscr := scr\<rparr> \<and> screen_ok scr"
proof -
  let ?g = "graphics_init (ucast (framebuffer_addr mb)) (unat (framebuffer_pitch mb)) (unat (framebuffer_width mb)) (unat (framebuffer_height mb))
    (framebuffer_bpp mb) (scr_gfx (dscr d))"
  have g: "gfx_ok ?g" using assms(1) by (simp add: mode_ok_def graphics_init_def gfx_ok_def)
  have e: "fill_screen 0x00001133 ?g = fill_rect 0 0 (swrap (int (fb_width ?g))) (swrap (int (fb_height ?g))) 0x00001133 ?g" by (simp add: fill_screen_def)
  note dims = fill_rect_dims [OF g, of 0 0 "swrap (int (fb_width ?g))" "swrap (int (fb_height ?g))" "0x00001133"]
  have "int 0 < int (unat (framebuffer_width mb))" using assms(1) unfolding mode_ok_def of_nat_less_iff by linarith
  moreover have "int 0 < int (unat (psf 3))" "int (unat (psf 3)) \<le> int (unat (framebuffer_height mb))"
    using assms(1) unfolding mode_ok_def of_nat_less_iff of_nat_le_iff by blast+
  ultimately have "screen_ok ((dscr d)\<lparr>scr_font := font_init psf, scr_gfx := fill_screen 0x00001133 ?g\<rparr>)"
    using assms dims unfolding e by (simp add: screen_ok_def font_init_def mode_ok_def graphics_init_def)
  then show ?thesis using assms(1) by (auto simp: boot_video_def Let_def mode_ok_def)
qed

lemma cursor_screen: "screen_ok (enable_cursor bus scr) = screen_ok scr"
proof -
  obtain d where "enable_cursor bus scr = scr\<lparr>dev := d\<rparr>" by (auto simp: enable_cursor_def outb_def inb_def Let_def case_prod_beta)
  then show ?thesis by (simp add: screen_ok_dev)
qed

section \<open>Tables and devices\<close>

lemma clear_gates_runs: "length (idt st) = 256 \<Longrightarrow> \<forall>i\<in>set is. i < 256 \<Longrightarrow> \<exists>st'. clear_gates is st = Inr st' \<and> length (idt st') = 256"
proof (induction "is" arbitrary: st)
  case (Cons i "is")
  then obtain st1 where "set_gate i 0 0 0 st = Inr st1" "length (idt st1) = 256" by (simp add: set_gate_def)
  then show ?case using Cons.IH [of st1] Cons.prems(2) by simp
qed simp

lemma pic_idt: "idt (pic_mask_all bus (pic_remap bus st)) = idt st"
  by (simp add: pic_mask_all_def pic_remap_def outb_def inb_def io_wait_def Let_def case_prod_beta)

lemma init_idt_runs: "length (idt st) = 256 \<Longrightarrow> \<exists>st'. init_idt lk bus st = Inr st'"
proof -
  assume l: "length (idt st) = 256"
  obtain st1 where st1: "clear_gates [0..<256] st = Inr st1" "length (idt st1) = 256" using clear_gates_runs [OF l, of "[0..<256]"] by auto
  then show ?thesis using pic_idt [of bus st1] by (simp add: init_idt_def set_gate_def Let_def)
qed

text \<open>Text and numbers always come out.\<close>

lemma print_word [simp]: "print_int (uint (w :: u16)) st = Inr (emit (dec_int (uint w)) st)"
proof (rule print_int_text)
  show "- (2 ^ 31) < uint w" by (rule less_le_trans [OF _ uint_ge_0]) simp
  show "uint w < 2 ^ 31" using uint_lt2p [of w] by simp
qed

lemma print_byte [simp]: "print_int (uint (b :: u8)) st = Inr (emit (dec_int (uint b)) st)"
proof (rule print_int_text)
  show "- (2 ^ 31) < uint b" by (rule less_le_trans [OF _ uint_ge_0]) simp
  show "uint b < 2 ^ 31" using uint_lt2p [of b] by simp
qed

lemma print_mac_runs: "\<exists>st'. print_mac bs st = Inr st'"
  by (induction bs arbitrary: st) auto

lemma probe_runs: "\<exists>f st'. probe_slot bus b s st = Inr (f, st')"
  by (auto simp: probe_slot_def flow)

lemma scan_runs: "\<exists>f st'. scan_slots bus ps st = Inr (f, st')"
proof (induction ps arbitrary: st)
  case (Cons p ps)
  obtain b s where p: "p = (b, s)" by (cases p)
  obtain f st1 where "probe_slot bus b s st = Inr (f, st1)" using probe_runs [of bus b s st] by auto
  then show ?case using Cons.IH [of st1] by (auto simp: p)
qed simp

lemma bind_runs: "\<exists>x. r = Inr x \<Longrightarrow> (\<And>x. r = Inr x \<Longrightarrow> \<exists>y. f x = Inr y) \<Longrightarrow> \<exists>y. bind_result r f = Inr y"
  by auto

lemma rtl_init_runs: "\<exists>st'. rtl8139_init bus st = Inr st'"
proof (cases "rtl_initialized st = 0")
  case True
  have f: "\<exists>x. rtl8139_find_device bus s = Inr x" for s :: "('a, 'b) nic_scheme" unfolding rtl8139_find_device_def using scan_runs by blast
  show ?thesis unfolding rtl8139_init_def Let_def if_not_P [of "tt (rtl_initialized st)", OF notI]
    using True by (auto intro!: bind_runs f print_mac_runs split: prod.splits)
qed (simp add: rtl8139_init_def)

lemma print_ip_runs: "\<exists>st'. print_ip ip st = Inr st'"
  using ip_addr_to_str_text [of "replicate 16 NUL" ip] by (auto simp: print_ip_def)

lemma addresses: "\<exists>a. ip_str_to_addr ''10.0.2.15'' = Inr a" "\<exists>a. ip_str_to_addr ''10.0.2.2'' = Inr a"
    "\<exists>a. ip_str_to_addr ''255.255.255.0'' = Inr a" "\<exists>a. ip_str_to_addr ''8.8.8.8'' = Inr a"
  by (simp_all add: ip_str_to_addr_def schar_def)

lemma net_init_runs: "\<exists>st'. net_init bus st = Inr st'"
  unfolding net_init_def Let_def by (intro bind_runs rtl_init_runs addresses print_ip_runs print_mac_runs) simp

text \<open>Up to the file system's start, the drivers leave the file table as it is.\<close>

lemma keeps_net_init: "tree st0 = tree st \<Longrightarrow> keeps (\<lambda>x. x) st (net_init bus st0)"
proof -
  assume t: "tree st0 = tree st"
  have m: "tree (s\<lparr>our_mac := a\<rparr>) = tree s" "tree (s\<lparr>dns_server := b\<rparr>) = tree s" for s :: "('a, 'b) net_scheme" and a b by (simp_all add: tree_def)
  show ?thesis unfolding net_init_def Let_def
    by (rule keeps_bind [OF keeps_rtl8139_init [OF t]], rule keeps_plain, rule keeps_plain, rule keeps_plain, rule keeps_plain) (auto simp: m intro!: keeps_rules)
qed

lemma net_init_tree: "\<exists>st'. net_init bus st = Inr st' \<and> tree st' = tree st"
  using net_init_runs [of bus st] keepsD [OF keeps_net_init [OF refl], of bus st] by blast

lemma timer_init_tree: "\<exists>st'. timer_init bus 100 st = Inr st' \<and> tree st' = tree st"
  by (simp add: timer_init_def Let_def) (simp add: tree_def)

lemma ata_init_tree: "tree (ata_init bus st) = tree st"
proof -
  have p: "tree (s\<lparr>ata_present := a\<rparr>) = tree s" for s :: "('a, 'b) fsys_scheme" and a by (simp add: tree_def)
  have w: "tree (io_wait bus s) = tree s" for s :: "('a, 'b) fsys_scheme" by (simp add: io_wait_def flow)
  show ?thesis by (simp add: ata_init_def ata_identify_def flow p w)
qed

section \<open>The first table\<close>

lemma fresh_fm_ok: "fm_ok TYPE('d system) fresh_fm"
proof -
  obtain s :: "'d system" where s: "files s = replicate 64 blank_file" "ata_present s = 0" "current_dir s = 0"
    by (rule that [of "undefined\<lparr>files := replicate 64 blank_file, ata_present := 0, current_dir := 0\<rparr>"]) simp_all
  let ?s = "diskfs_init undefined s"
  have f: "fused f = 0 \<or> fparent f = - 1" if "f \<in> set (files ?s)" for f
  proof -
    let ?r = "(fresh_slot blank_file)\<lparr>fused := 1, fis_dir := 1, fparent := - 1, fname := (fname (fresh_slot blank_file))[0 := CHR ''/'', 1 := NUL]\<rparr>"
    have "files ?s = (replicate 64 (fresh_slot blank_file))[0 := ?r]" using s by (simp add: diskfs_init_def ata_drive_present_def)
    then have "f \<in> {?r, fresh_slot blank_file}" using that set_update_subset_insert [of "replicate 64 (fresh_slot blank_file)" 0 ?r] by auto
    then show ?thesis by (auto simp: fresh_slot_def)
  qed
  have "current_dir ?s = 0" using s by (simp add: diskfs_init_def ata_drive_present_def Let_def)
  then have "listing ?s = []" using f by (force simp: listing_def filter_empty_conv)
  moreover have "cstr (replicate 32 NUL) = []" by (simp add: cstr_def numeral_eq_Suc)
  ultimately have "browsing fresh_fm ?s" by (simp add: browsing_def lists_def selection_ok_def input_ok_def fresh_fm_def)
  then show ?thesis using fresh_inv [OF s(1,2)] by (auto simp: fm_ok_def)
qed

section \<open>From the loader to the desktop\<close>

text \<open>The state between two steps of the start: a screen that can show text, and the rest still untouched.\<close>

definition starting :: "'d desk \<Rightarrow> bool" where
  "starting d \<longleftrightarrow> screen_ok (dscr d) \<and> tree (dsys d) = (replicate 64 blank_file, 0) \<and> dwm d = boot_wm \<and> dfm d = fresh_fm \<and>
     term_cmd d = replicate 256 NUL \<and> term_len d = 0 \<and> length (icon_at d) = 4"

lemma starting_say: "starting d \<Longrightarrow> \<exists>d'. say env s d = Inr d' \<and> starting d' \<and> dcur d' = dcur d \<and> dsys d' = dsys d"
  using say_runs [of d env s] by (auto simp: starting_def)

lemma starting_sys: "starting d \<Longrightarrow> tree s = tree (dsys d) \<Longrightarrow> starting (d\<lparr>dsys := s\<rparr>)"
  by (simp add: starting_def)

lemma starting_show: "starting d \<Longrightarrow> tree s = tree (dsys d) \<Longrightarrow> \<exists>d'. show_sys env s d = Inr d' \<and> starting d' \<and> dcur d' = dcur d \<and> dsys d' = s"
  using show_runs [of d env s] by (auto simp: starting_def)

lemma starting_pointer: "starting d \<Longrightarrow> starting (pointer_draw q d) \<and> length (saved (dcur (pointer_draw q d))) = 256"
  using pointer_draw_fb [of q d] by (auto simp: starting_def screen_ok_fb)

lemma starting_cursor: "starting d \<Longrightarrow> starting (d\<lparr>dscr := enable_cursor bus (dscr d)\<rparr>)"
  by (simp add: starting_def cursor_screen)

lemma starting_desk:
  assumes "starting d" and "length (saved (dcur d)) = 256" and "fs_inv s"
  shows "\<exists>d'. show_sys env s d = Inr d' \<and> desk_ok d'"
proof -
  have "line_ok (replicate 256 NUL) 0" by (simp add: line_ok_def cstr_def numeral_eq_Suc)
  moreover have "keys_ok boot_wm" by (simp add: keys_ok_def boot_wm_def)
  ultimately show ?thesis using assms show_runs [of d env s] boot_wm_ok fresh_fm_ok [where 'd = 'a] by (auto simp: starting_def desk_ok_def)
qed

lemma desk_say: "desk_ok d \<Longrightarrow> \<exists>d'. say env s d = Inr d' \<and> desk_ok d'"
  using say_runs [of d env s] by (auto simp: desk_ok_def)

lemma desk_clear: "desk_ok d \<Longrightarrow> desk_ok (d\<lparr>dscr := clear_screen (dscr d)\<rparr>)"
  by (simp add: desk_ok_def clear_screen_ok)

lemma fresh_starting: "fresh_desk d \<Longrightarrow> mode_ok psf mb \<Longrightarrow> starting (boot_video psf mb (d\<lparr>dsys := set_heap h (dsys d)\<rparr>))"
  using video_screen [of psf mb "d\<lparr>dsys := set_heap h (dsys d)\<rparr>"] by (auto simp: fresh_desk_def starting_def tree_def set_heap_def)

lemma video_sys: "dsys (boot_video psf mb d) = dsys d"
  by (simp add: boot_video_def Let_def)

lemma pointer_sys: "dsys (pointer_draw q d) = dsys d"
  by (simp add: pointer_draw_def case_prod_beta)

text \<open>The drivers come up, and what they leave of the system state is that of the timer, the disk and the network card.\<close>

lemma kmain_drivers_run:
  assumes k: "fresh_kern k" and mode: "mode_ok psf mb"
  shows "\<exists>k' s2. kmain_drivers env lk psf mb (k :: 'd kern) = Inr k' \<and> starting (k_desk k') \<and> length (saved (dcur (k_desk k'))) = 256 \<and>
    timer_init (d_bus env) 100 (set_heap (heap_init (sys_heap (dsys (k_desk k)))) (dsys (k_desk k))) = Inr s2 \<and>
    net_init (e_nic (d_env env)) (ata_init (d_bus env) s2) = Inr (dsys (k_desk k'))"
proof -
  let ?bus = "d_bus env" and ?s0 = "set_heap (heap_init (sys_heap (dsys (k_desk k)))) (dsys (k_desk k))"
  obtain cpu where cpu: "init_idt lk ?bus (k_cpu k) = Inr cpu" using init_idt_runs [of "k_cpu k"] k by (auto simp: fresh_kern_def)
  define d0 where "d0 = boot_video psf mb ((k_desk k)\<lparr>dsys := ?s0\<rparr>)"
  have st0: "starting d0" unfolding d0_def by (rule fresh_starting) (use k mode in \<open>simp_all add: fresh_kern_def\<close>)
  have sys0: "dsys d0 = ?s0" by (simp add: d0_def video_sys)
  from starting_say [OF st0] obtain d1
    where d1: "say env (drop (length (out (k_mouse k))) (out (mouse_init ?bus (k_mouse k)))) d0 = Inr d1" "starting d1" "dsys d1 = ?s0"
    unfolding sys0 by blast
  obtain s2 where s2: "timer_init ?bus 100 (dsys d1) = Inr s2" "tree s2 = tree (dsys d1)" using timer_init_tree by blast
  from starting_say [OF starting_sys [OF d1(2) s2(2)]] obtain d3
    where d3: "say env (''=== KERNEL BOOT ==='' @ [NL]) (d1\<lparr>dsys := s2\<rparr>) = Inr d3" "starting d3" "dsys d3 = s2" by auto
  from starting_say [OF this(2)] obtain d4
    where d4: "say env (''Testing print: If you see this, output works!'' @ [NL]) d3 = Inr d4" "starting d4" "dsys d4 = s2" unfolding d3(3) by blast
  define d5 where "d5 = (pointer_draw (512, 384) d4)\<lparr>dscr := enable_cursor ?bus (dscr (pointer_draw (512, 384) d4))\<rparr>"
  have d5: "starting d5" "length (saved (dcur d5)) = 256" "dsys d5 = s2"
    using d4(3) by (simp_all add: d5_def starting_cursor starting_pointer [OF d4(2)] pointer_sys)
  from starting_show [OF d5(1) ata_init_tree] obtain d6
    where d6: "show_sys env (ata_init ?bus (dsys d5)) d5 = Inr d6" "starting d6" "dcur d6 = dcur d5" "dsys d6 = ata_init ?bus s2" unfolding d5(3) by blast
  obtain s7 where s7: "net_init (e_nic (d_env env)) (dsys d6) = Inr s7" "tree s7 = tree (dsys d6)" using net_init_tree by blast
  from starting_show [OF d6(2) this(2)] obtain d8 where d8: "show_sys env s7 d6 = Inr d8" "starting d8" "dcur d8 = dcur d6" "dsys d8 = s7" by blast
  show ?thesis unfolding kmain_drivers_def Let_def
    unfolding d0_def [symmetric] cpu d1(1) s2(1) d3(1) d4(1) bind_result_simps d5_def [symmetric] d6(1) s7(1) d8(1)
    using d8(2-4) d6(3,4) d5(2) s7(1) s2(1) d1(3) by simp
qed

lemma kmain_init_runs:
  assumes k: "fresh_kern k" and mode: "mode_ok psf mb"
    and disk: "\<And>k1. kmain_drivers env lk psf mb k = Inr k1 \<Longrightarrow> disk_fine (d_bus env) (dsys (k_desk k1))"
  shows "\<exists>k'. kmain_init env lk psf mb (k :: 'd kern) = Inr k' \<and> desk_ok (k_desk k')"
proof -
  obtain k1 where k1: "kmain_drivers env lk psf mb k = Inr k1" "starting (k_desk k1)" "length (saved (dcur (k_desk k1))) = 256"
    using kmain_drivers_run [OF k mode, of env lk] by blast
  let ?d8 = "k_desk k1"
  have "fs_inv (fs_init (d_bus env) (dsys ?d8))" unfolding fs_init_def
    by (rule init_inv) (use k1(2) disk [OF k1(1)] in \<open>auto simp: starting_def tree_def\<close>)
  from starting_desk [OF k1(2,3) this] obtain d9 where d9: "show_sys env (fs_init (d_bus env) (dsys ?d8)) ?d8 = Inr d9" "desk_ok d9" by auto
  from desk_say [OF desk_clear [OF d9(2)]] obtain d10
    where d10: "say env (''FalastinOS V0.2'' @ [NL]) (d9\<lparr>dscr := clear_screen (dscr d9)\<rparr>) = Inr d10" "desk_ok d10" by blast
  from desk_say [OF d10(2)] obtain d11
    where d11: "say env (''(c) 2026 therandomstickman. All rights reserved.'' @ [NL]) d10 = Inr d11" "desk_ok d11" by blast
  from desk_say [OF d11(2)] obtain d12 where d12: "say env [NL] d11 = Inr d12" "desk_ok d12" by blast
  show ?thesis unfolding kmain_init_def Let_def k1(1) bind_result_simps d9(1) d10(1) d11(1) d12(1)
    using d12(2) by simp
qed

text \<open>
  C6. The system from power-on to any point of a session: from zeroed memory, with a 32-bit picture mode from
  the loader and, at the moment the file system is started, a disk that holds a consistent file system or none,
  \<^verbatim>\<open>kmain\<close> sets up every component without a fault and enters the program manager, and through every sequence of
  mouse movements, clicks and keys the window table, the screen, the file system, the file manager and the terminal
  stay well-formed. A turn of the loop can fault or fail to end only if it hands control to a program, or if the
  lwIP library has been started and \<^verbatim>\<open>lwip_poll\<close>, which every turn calls, itself faults or does not return there.
  The programs and the library keep to their own data.
\<close>

theorem kernel_session:
  fixes k :: "'d kern"
  assumes "env_ok env" and "fresh_kern k" and "mode_ok psf mb"
    and "\<forall>k1. kmain_drivers env lk psf mb k = Inr k1 \<longrightarrow> disk_fine (d_bus env) (dsys (k_desk k1))"
  shows "case kmain env lk psf mb p rs k of Inr (over, d') \<Rightarrow> desk_ok d'
    | Inl e \<Rightarrow> \<exists>rs1 r rs2 d1. rs = rs1 @ r # rs2 \<and> kmain env lk psf mb p rs1 k = Inr (False, d1) \<and> desk_ok d1 \<and>
        (starts r (seen (0, 0, 0) rs1) d1 \<or> poll_fails env (dsys d1))"
proof -
  obtain k' where k': "kmain_init env lk psf mb k = Inr k'" "desk_ok (k_desk k')" using kmain_init_runs [OF assms(2,3), of env lk] assms(4) by blast
  have "kmain env lk psf mb p q k = progman_run env p q (k_desk k')" for q by (simp add: kmain_def k'(1))
  then show ?thesis using desktop_session [OF assms(1) k'(2), where p = p and rs = rs] by (simp only:)
qed

text \<open>A start in 1024 by 768 pixels, with a font of 16 rows, on a machine with a blank drive and no network card.\<close>

definition boot_mode :: multiboot where
  "boot_mode = \<lparr>mb_flags = 0x1000, framebuffer_addr = 0xFD000000, framebuffer_pitch = 4096, framebuffer_width = 1024, framebuffer_height = 768,
     framebuffer_bpp = 32\<rparr>"

definition boot_psf :: "nat \<Rightarrow> u8" where
  "boot_psf i = (if i = 3 then 16 else 0)"

definition zero_system :: "pio system" where
  "zero_system = \<lparr>out = [], dev = blank_drive, ata_present = 0, files = replicate 64 blank_file, current_dir = 0,
     ticks = 0, tick_rate = 0, rtl_io_base = 0, rtl_mac = replicate 6 0, rtl_initialized = 0, rx_offset = 0,
     arp_cache = replicate 16 \<lparr>ae_ip = 0, ae_mac = replicate 6 0, ae_valid = 0\<rparr>, arp_cache_count = 0, our_mac = replicate 6 0, our_ip = 0,
     gateway_ip = 0, subnet_mask = 0, dns_server = 0, dhcp_configured = 0,
     http_response = replicate 8192 NUL, http_response_len = 0, http_response_ready = 0, http_open = 0, http_connecting = 0,
     grid = (\<lambda>_ _. NUL), clears = [], lines = replicate 128 (replicate 121 NUL), line_count = 0, cursor_row = 0, cursor_col = 0,
     top_line = 0, dirty = 0, filename = replicate 64 NUL, sys_mem = (\<lambda>_. 0), sys_heap_start = 0, sys_heap_ready = 0,
     keys_ahead = [], irqs_ahead = [], halted = False, netif_ptr = 0, nif = zero_netif, lwip_ready = 0\<rparr>"

definition boot_kern :: "pio kern" where
  "boot_kern = \<lparr>k_desk = \<lparr>dsys = zero_system,
       dscr = \<lparr>out = [], dev = blank_drive, scr_gfx = boot_gfx, scr_font = boot_font,
         scr_term = \<lparr>term_output = [], term_cursor_row = 0, term_cursor_col = 0, term_active = 0, needs_redraw = 0\<rparr>,
         cur_col = 0, cur_row = 0, terminal_output_mode = 0\<rparr>,
       dcur = \<lparr>saved = replicate 256 0, saved_x = - 1, saved_y = 0\<rparr>, dwm = boot_wm, dfm = fresh_fm, icon_at = replicate 4 (0, 0),
       term_cmd = replicate 256 NUL, term_len = 0, term_on = 0, term_handle = - 1\<rparr>,
     k_cpu = \<lparr>out = [], dev = blank_drive, idt = replicate 256 \<lparr>base_low = 0, selector = 0, zero = 0, flags = 0, base_high = 0\<rparr>,
       idtp = \<lparr>limit = 0, base = 0\<rparr>, loaded_idt = None\<rparr>,
     k_mouse = \<lparr>out = [], dev = blank_drive, mx = 512, my = 384, mbuttons = 0, mouse_byte = [0, 0, 0], mouse_byte_idx = 0\<rparr>\<rparr>"

text \<open>No card answers on the PCI bus.\<close>

definition drive_nic :: "pio nicbus" where
  "drive_nic = \<lparr>io = pio_bus, io_inl = (\<lambda>_ d. (0xFFFFFFFF, d)), io_outl = (\<lambda>_ _ d. d), rx_memory = (\<lambda>_. []), rx_fill = (\<lambda>_ d. d),
     tx_memory = (\<lambda>_ d. d), rx_address = 0, tx_address = 0\<rparr>"

definition drive_denv :: "pio desk_env" where
  "drive_denv = \<lparr>d_env = \<lparr>e_nic = drive_nic, e_stack = (\<lambda>n. replicate n 0), run_gui = Inr, run_fbgui = Inr, run_doom = Inr, run_snake = Inr,
     e_lwip = plain_lib\<rparr>, d_paint = (\<lambda>_ _ g. g)\<rparr>"

definition boot_link :: linkage where
  "boot_link = \<lparr>irq0_handler = 0x101000, irq1_handler = 0x101100, irq12_handler = 0x101200, idt_address = 0x200000\<rparr>"

lemma drive_denv_ok: "env_ok drive_denv"
  by (auto simp: env_ok_def drive_denv_def programs_keep_def plain_apart intro: fb_id)

lemma no_card: "probe_slot drive_nic b s st = Inr (False, st)" "scan_slots drive_nic ps st = Inr (0, st)"
proof -
  show p: "probe_slot drive_nic b s st = Inr (False, st)" for b s st
    by (simp add: probe_slot_def pci_read_config_def outl_def inl_def drive_nic_def flow)
  show "scan_slots drive_nic ps st = Inr (0, st)"
  proof (induction ps)
    case (Cons q ps)
    then show ?case by (cases q) (simp add: p)
  qed simp
qed

fun mac_text :: "u8 list \<Rightarrow> string" where
  "mac_text [] = []"
| "mac_text (b # bs) = dec_int (uint b) @ (if bs \<noteq> [] then '':'' else []) @ mac_text bs"

lemma print_mac_text: "print_mac bs st = Inr (emit (mac_text bs) st)"
  by (induction bs arbitrary: st) auto

lemma no_card_init: "rtl_initialized st = 0 \<Longrightarrow> \<exists>st'. net_init drive_nic st = Inr st' \<and> dev st' = dev st \<and> ata_present st' = ata_present st"
proof -
  assume "rtl_initialized st = 0"
  then have r: "\<exists>t. rtl8139_init drive_nic st = Inr (emit t st)" by (auto simp: rtl8139_init_def rtl8139_find_device_def no_card)
  obtain a g m s where a: "ip_str_to_addr ''10.0.2.15'' = Inr a" "ip_str_to_addr ''10.0.2.2'' = Inr g"
    "ip_str_to_addr ''255.255.255.0'' = Inr m" "ip_str_to_addr ''8.8.8.8'' = Inr s" using addresses by blast
  show ?thesis unfolding net_init_def a bind_result_simps
    using r by (auto simp: flow print_ip_text print_mac_text set_entry_def)
qed

lemma drive_boot:
  assumes "kmain_drivers drive_denv lk boot_psf boot_mode boot_kern = Inr k1"
  shows "disk_fine (d_bus drive_denv) (dsys (k_desk k1))"
proof -
  let ?s0 = "set_heap (heap_init (sys_heap zero_system)) zero_system"
  have k: "fresh_kern boot_kern" "mode_ok boot_psf boot_mode"
    by (simp_all add: fresh_kern_def fresh_desk_def boot_kern_def zero_system_def mode_ok_def boot_psf_def boot_mode_def)
  have b: "d_bus drive_denv = pio_bus" "e_nic (d_env drive_denv) = drive_nic" "dsys (k_desk boot_kern) = zero_system" "io drive_nic = pio_bus"
    by (simp_all add: drive_denv_def drive_nic_def boot_kern_def)
  obtain s2 where s2: "timer_init pio_bus 100 ?s0 = Inr s2" "net_init drive_nic (ata_init pio_bus s2) = Inr (dsys (k_desk k1))" and st: "starting (k_desk k1)"
    using kmain_drivers_run [OF k, of drive_denv lk] assms unfolding b by auto
  have t: "dev s2 = blank_drive" "rtl_initialized s2 = 0"
    using s2(1) by (auto simp: timer_init_def outb_def pio_bus_def pio_outb_def set_heap_def zero_system_def)
  obtain d where i: "ata_init pio_bus s2 = emit (''Initializing ATA...'' @ [NL] @ ''ATA drive detected and initialized.'' @ [NL]) (s2\<lparr>dev := d, ata_present := 1\<rparr>)"
      "drive_ready (\<lambda>d. d) (ata_init pio_bus s2)" "drive_sectors (\<lambda>d. d) (ata_init pio_bus s2) = drive_sectors (\<lambda>d. d) s2"
    using sim_drive.ata_init_ok [of s2] t(1) by (auto simp: blank_drive_def)
  have "rtl_initialized (ata_init pio_bus s2) = 0" using t(2) unfolding i(1) by (simp add: emit_def)
  then have n: "dev (dsys (k_desk k1)) = dev (ata_init pio_bus s2)" "ata_present (dsys (k_desk k1)) = ata_present (ata_init pio_bus s2)"
    using no_card_init s2(2) by fastforce+
  have tab: "table_ok (files (dsys (k_desk k1)))" using st blank_fs_table by (simp add: starting_def tree_def blank_fs_def)
  have "drive_sectors (\<lambda>d. d) (dsys (k_desk k1)) FS_START_LBA = replicate 512 0"
    using drive_views_cong(1) [OF n(1)] i(3) t(1) by (simp add: drive_sectors_def blank_drive_def zero_words)
  then have "rd_le32 (take 4 (drive_sectors (\<lambda>d. d) (dsys (k_desk k1)) FS_START_LBA)) \<noteq> FS_MAGIC" by (simp add: rd_le32_def fs_consts swrap_def)
  then show ?thesis using sim_drive.drive_fine [OF _ tab] drive_views_cong(2) [OF n] i(2) unfolding b by simp
qed

theorem kernel_session_witness:
  "\<exists>over d'. kmain drive_denv boot_link boot_psf boot_mode (512, 384) [] boot_kern = Inr (over, d') \<and> desk_ok d'"
proof -
  have k: "fresh_kern boot_kern" "mode_ok boot_psf boot_mode"
    by (simp_all add: fresh_kern_def fresh_desk_def boot_kern_def zero_system_def mode_ok_def boot_psf_def boot_mode_def)
  have "\<forall>k1. kmain_drivers drive_denv boot_link boot_psf boot_mode boot_kern = Inr k1 \<longrightarrow> disk_fine (d_bus drive_denv) (dsys (k_desk k1))"
    using drive_boot by blast
  from kernel_session [OF drive_denv_ok k this, where p = "(512, 384)" and rs = "[]"] show ?thesis
    by (cases "kmain drive_denv boot_link boot_psf boot_mode (512, 384) [] boot_kern") auto
qed

end
