(* ===== verification/Doom.thy ===== *)
theory Doom
  imports Screen Input Editor_Text Diskfs_Dir "HOL-Library.Signed_Division"
begin

text \<open>
  The game of \<^verbatim>\<open>src/doom_wrapper.c\<close>, a ray caster in fixed-point arithmetic, and the layer of \<^verbatim>\<open>src/doom_compat.c\<close> below
  it. The game draws into a buffer of its own when the screen is small enough and into the framebuffer otherwise; a
  store outside either is a fault. Keys come from the keyboard handler, fed by the scancodes of the interrupts between
  two turns of the main loop. Shown here: the fixed-point sine, drawing without a fault, the player stays in the
  part of the maze where the game began, and the game cannot be left, since no key sends the character it waits for.
\<close>

unbundle bit_operations_syntax

section \<open>doom\_wrapper.c: state\<close>

definition MAP_W :: int where "MAP_W = 16"
definition MAP_H :: int where "MAP_H = 16"
definition MAX_FB_W :: int where "MAX_FB_W = 800"
definition MAX_FB_H :: int where "MAX_FB_H = 600"

definition doom_map :: "string list" where
  "doom_map =
    [''1111111111111111'',
     ''1000000000000001'',
     ''1011110111110101'',
     ''1010000100010101'',
     ''1010111101010101'',
     ''1000100001010001'',
     ''1110101111011101'',
     ''1000101000010001'',
     ''1011101011110101'',
     ''1000001000000101'',
     ''1011111110111101'',
     ''1010000000100001'',
     ''1010111111101101'',
     ''1000100000000001'',
     ''1000000111000001'',
     ''1111111111111111'']"

text \<open>Where \<^verbatim>\<open>draw_buffer\<close> points.\<close>

datatype draw_target = Null_Buffer | Frame_Buffer | Screen_Buffer

record 'd doom = "'d screen" +
  doom_palette :: "u32 list"
  frame_buffer :: "nat \<Rightarrow> u32"
  draw_buffer :: draw_target
  draw_w :: int
  draw_h :: int
  draw_uses_backbuffer :: bool
  player_x :: int
  player_y :: int
  player_angle :: int
  compat_fb :: u32
  compat_w :: int
  compat_h :: int
  doom_running :: int

section \<open>Fixed-point arithmetic\<close>

definition abs_int :: "int \<Rightarrow> int" where
  "abs_int v = (if v < 0 then swrap (- v) else v)"

definition clamp_int :: "int \<Rightarrow> int \<Rightarrow> int \<Rightarrow> int" where
  "clamp_int v lo hi = (if v < lo then lo else if v > hi then hi else v)"

function angle_up :: "int \<Rightarrow> int" where
  "angle_up angle = (if angle < 0 then angle_up (angle + 360) else angle)"
  by pat_completeness auto
termination by (relation "measure (\<lambda>a. nat (- a))") auto

function angle_down :: "int \<Rightarrow> int" where
  "angle_down angle = (if angle \<ge> 360 then angle_down (angle - 360) else angle)"
  by pat_completeness auto
termination by (relation "measure nat") auto

declare angle_up.simps [simp del] angle_down.simps [simp del]

definition wrap_angle :: "int \<Rightarrow> int" where
  "wrap_angle angle = angle_down (angle_up angle)"

definition sin_fixed :: "int \<Rightarrow> int" where
  "sin_fixed angle =
     (let angle = wrap_angle angle;
          (angle, sign) = (if angle \<ge> 180 then (angle - 180, - 1) else (angle, 1));
          angle = (if angle > 90 then 180 - angle else angle);
          numerator = 4 * angle * (180 - angle) * 256;
          denominator = 40500 - angle * (180 - angle);
          y = (if denominator \<noteq> 0 then numerator sdiv denominator else 0)
      in sign * y)"

definition cos_fixed :: "int \<Rightarrow> int" where
  "cos_fixed angle = sin_fixed (swrap (angle + 90))"

text \<open>\<^verbatim>\<open>x >> FP_SHIFT\<close> of a signed \<^verbatim>\<open>int\<close>: gcc shifts arithmetically.\<close>

definition cell :: "int \<Rightarrow> int" where
  "cell x = x div 256"

definition map_wall_at :: "int \<Rightarrow> int \<Rightarrow> int" where
  "map_wall_at x y =
     (let mx = cell x; my = cell y in
      if mx < 0 \<or> mx \<ge> MAP_W \<or> my < 0 \<or> my \<ge> MAP_H then 1
      else yn (doom_map ! nat my ! nat mx = CHR ''1''))"

definition shade_color :: "u32 \<Rightarrow> int \<Rightarrow> u32" where
  "shade_color color dist =
     (let shade = clamp_int (255 - dist sdiv 3) 48 255;
          r = (drop_bit 16 color AND 0xFF) * word_of_int shade div 255;
          g = (drop_bit 8 color AND 0xFF) * word_of_int shade div 255;
          b = (color AND 0xFF) * word_of_int shade div 255
      in push_bit 16 r OR push_bit 8 g OR b)"

section \<open>Drawing\<close>

definition draw_text :: "int \<Rightarrow> int \<Rightarrow> string \<Rightarrow> u32 \<Rightarrow> ('d, 'a) doom_scheme \<Rightarrow> ('d, 'a) doom_scheme" where
  "draw_text x y txt fg st = st\<lparr>scr_gfx := font_draw_string (scr_font st) x y txt fg 0x000000 (scr_gfx st)\<rparr>"

definition frame_begin :: "int \<Rightarrow> int \<Rightarrow> ('d, 'a) doom_scheme \<Rightarrow> ('d, 'a) doom_scheme" where
  "frame_begin fb_w fb_h st =
     (let small = (fb_w \<le> MAX_FB_W \<and> fb_h \<le> MAX_FB_H) in
      st\<lparr>draw_w := fb_w, draw_h := fb_h, draw_uses_backbuffer := small, draw_buffer := (if small then Frame_Buffer else Screen_Buffer)\<rparr>)"

text \<open>\<^verbatim>\<open>draw_buffer[i] = color\<close>; the arrays hold 800 * 600 pixels and the framebuffer's rows.\<close>

definition buf_store :: "int \<Rightarrow> u32 \<Rightarrow> ('d, 'a) doom_scheme \<Rightarrow> ('d, 'a) doom_scheme result" where
  "buf_store i color st =
     (case draw_buffer st of
        Null_Buffer \<Rightarrow> Inl OutOfBounds
      | Frame_Buffer \<Rightarrow>
          if 0 \<le> i \<and> i < MAX_FB_W * MAX_FB_H then Inr (st\<lparr>frame_buffer := (frame_buffer st)(nat i := color)\<rparr>) else Inl OutOfBounds
      | Screen_Buffer \<Rightarrow>
          if 0 \<le> i \<and> i < int (fb_height (scr_gfx st) * fb_pitch_px (scr_gfx st))
          then Inr (st\<lparr>scr_gfx := (scr_gfx st)\<lparr>fb := (fb (scr_gfx st))(nat i := color)\<rparr>\<rparr>) else Inl OutOfBounds)"

text \<open>\<^verbatim>\<open>memcpy(fb, draw_buffer, draw_w * draw_h * sizeof(uint32_t))\<close>: the rows go to the screen without a gap.\<close>

definition frame_present :: "('d, 'a) doom_scheme \<Rightarrow> ('d, 'a) doom_scheme result" where
  "frame_present st =
     (if \<not> draw_uses_backbuffer st then Inr st
      else let n = u32_of_int (swrap (draw_w st * draw_h st) * 4) div 4 in
        if draw_buffer st \<noteq> Frame_Buffer \<or> int n > MAX_FB_W * MAX_FB_H \<or> n > fb_height (scr_gfx st) * fb_pitch_px (scr_gfx st)
        then Inl OutOfBounds
        else Inr (st\<lparr>scr_gfx := (scr_gfx st)\<lparr>fb := (\<lambda>i. if i < n then frame_buffer st i else fb (scr_gfx st) i)\<rparr>\<rparr>))"

definition buf_put_pixel :: "int \<Rightarrow> int \<Rightarrow> u32 \<Rightarrow> ('d, 'a) doom_scheme \<Rightarrow> ('d, 'a) doom_scheme result" where
  "buf_put_pixel x y color st =
     (if x \<ge> 0 \<and> x < draw_w st \<and> y \<ge> 0 \<and> y < draw_h st then buf_store (swrap (y * draw_w st + x)) color st else Inr st)"

definition buf_fill_rect :: "int \<Rightarrow> int \<Rightarrow> int \<Rightarrow> int \<Rightarrow> u32 \<Rightarrow> ('d, 'a) doom_scheme \<Rightarrow> ('d, 'a) doom_scheme result" where
  "buf_fill_rect x y w h color st =
     (let x0 = clamp_int x 0 (draw_w st);
          y0 = clamp_int y 0 (draw_h st);
          x1 = clamp_int (swrap (x + w)) 0 (draw_w st);
          y1 = clamp_int (swrap (y + h)) 0 (draw_h st)
      in for_each (\<lambda>py. for_each (\<lambda>px st. buf_store (swrap (py * draw_w st) + px) color st) [x0..x1 - 1]) [y0..y1 - 1] st)"

definition palette_entry :: "nat \<Rightarrow> u32" where
  "palette_entry i = push_bit 16 (of_nat (i * 2 mod 256)) OR push_bit 8 (of_nat (i * 3 mod 256)) OR of_nat (i * 4 mod 256)"

definition doom_init_palette :: "('d, 'a) doom_scheme \<Rightarrow> ('d, 'a) doom_scheme" where
  "doom_init_palette st = st\<lparr>doom_palette := map palette_entry [0..<256]\<rparr>"

text \<open>One row of \<^verbatim>\<open>doom_draw_8bit_buffer\<close>'s loops; the row length of the screen is taken to be its width.\<close>

definition blit_pixel :: "u8 list \<Rightarrow> int \<Rightarrow> int \<Rightarrow> int \<Rightarrow> ('d, 'a) doom_scheme \<Rightarrow> ('d, 'a) doom_scheme result" where
  "blit_pixel buffer w y x st =
     bind_result (at buffer (swrap (y * w + x))) (\<lambda>pal_idx.
     bind_result (at (doom_palette st) (uint pal_idx)) (\<lambda>c.
       let i = swrap (y * swrap (int (fb_width (scr_gfx st))) + x) in
       if 0 \<le> i \<and> i < int (fb_height (scr_gfx st) * fb_pitch_px (scr_gfx st))
       then Inr (st\<lparr>scr_gfx := (scr_gfx st)\<lparr>fb := (fb (scr_gfx st))(nat i := c)\<rparr>\<rparr>) else Inl OutOfBounds))"

definition doom_draw_8bit_buffer :: "u8 list \<Rightarrow> int \<Rightarrow> int \<Rightarrow> ('d, 'a) doom_scheme \<Rightarrow> ('d, 'a) doom_scheme result" where
  "doom_draw_8bit_buffer buffer w h st =
     (let fb_w = swrap (int (fb_width (scr_gfx st))); fb_h = swrap (int (fb_height (scr_gfx st))) in
      if fb_addr (scr_gfx st) = 0 then Inr st
      else for_each (\<lambda>y. for_each (blit_pixel buffer w y) [0..min w fb_w - 1]) [0..min h fb_h - 1] st)"

definition draw_weapon :: "int \<Rightarrow> int \<Rightarrow> ('d, 'a) doom_scheme \<Rightarrow> ('d, 'a) doom_scheme result" where
  "draw_weapon fb_w fb_h st =
     (let base_y = swrap (fb_h - 92); cx = fb_w sdiv 2 in
      bind_result (buf_fill_rect (cx - 36) (swrap (base_y + 28)) 72 64 0x2d2d2d st) (\<lambda>st.
      bind_result (buf_fill_rect (cx - 22) (swrap (base_y + 4)) 44 52 0x555555 st) (\<lambda>st.
      bind_result (buf_fill_rect (cx - 12) base_y 24 62 0x888888 st) (\<lambda>st.
      bind_result (buf_fill_rect (cx - 5) (swrap (base_y - 10)) 10 40 0xb8b8b8 st) (\<lambda>st.
        buf_fill_rect (cx - 34) (swrap (base_y + 34)) 68 8 0x111111 st)))))"

definition draw_status_bar :: "int \<Rightarrow> int \<Rightarrow> ('d, 'a) doom_scheme \<Rightarrow> ('d, 'a) doom_scheme result" where
  "draw_status_bar fb_w fb_h st =
     (let y = swrap (fb_h - 34) in
      bind_result (buf_fill_rect 0 y fb_w 34 0x3c3c3c st) (buf_fill_rect 0 y fb_w 2 0xb30000))"

definition map_cell :: "int \<Rightarrow> int \<Rightarrow> int \<Rightarrow> int \<Rightarrow> ('d, 'a) doom_scheme \<Rightarrow> ('d, 'a) doom_scheme result" where
  "map_cell ox oy y x st =
     buf_fill_rect (swrap (ox + x * 4)) (swrap (oy + y * 4)) 3 3 (if doom_map ! nat y ! nat x = CHR ''1'' then 0x777777 else 0x161616) st"

definition draw_minimap :: "int \<Rightarrow> int \<Rightarrow> ('d, 'a) doom_scheme \<Rightarrow> ('d, 'a) doom_scheme result" where
  "draw_minimap ox oy st =
     bind_result (for_each (\<lambda>y. for_each (map_cell ox oy y) [0..MAP_W - 1]) [0..MAP_H - 1] st) (\<lambda>st.
       buf_fill_rect (swrap (ox + cell (player_x st) * 4 - 1)) (swrap (oy + cell (player_y st) * 4 - 1)) 3 3 0xff2020 st)"

section \<open>The scene\<close>

text \<open>The loop along a ray, at most \<open>n\<close> more steps: the distance and the side that was hit.\<close>

fun cast_ray :: "nat \<Rightarrow> int \<Rightarrow> int \<Rightarrow> int \<Rightarrow> int \<Rightarrow> int \<Rightarrow> int \<times> int" where
  "cast_ray 0 dx dy ray_x ray_y dist = (dist, 0)"
| "cast_ray (Suc n) dx dy ray_x ray_y dist =
     (let old_mx = cell ray_x; old_my = cell ray_y;
          ray_x = swrap (ray_x + dx sdiv 8);
          ray_y = swrap (ray_y + dy sdiv 8);
          dist = dist + 4
      in if tt (map_wall_at ray_x ray_y)
         then (dist, if cell ray_x \<noteq> old_mx then 1 else if cell ray_y \<noteq> old_my then 2 else 0)
         else cast_ray n dx dy ray_x ray_y dist)"

definition ray_angle :: "int \<Rightarrow> int \<Rightarrow> int \<Rightarrow> int" where
  "ray_angle angle fb_w col = wrap_angle (swrap (angle - 30 + (col * 60) sdiv fb_w))"

text \<open>One column of the picture; \<^verbatim>\<open>game_h\<close> is the height above the status bar.\<close>

definition render_column :: "int \<Rightarrow> int \<Rightarrow> int \<Rightarrow> ('d, 'a) doom_scheme \<Rightarrow> ('d, 'a) doom_scheme result" where
  "render_column fb_w game_h col st =
     (if fb_w = 0 then Inl DivideByZero
      else let ra = ray_angle (player_angle st) fb_w col;
               (dist, hit_side) = cast_ray 220 (cos_fixed ra) (sin_fixed ra) (player_x st) (player_y st) 1;
               corrected = (dist * cos_fixed (swrap (ra - player_angle st))) div 256;
               corrected = (if corrected < 1 then 1 else corrected);
               wall_h = swrap (game_h * 72) sdiv corrected;
               wall_h = (if wall_h > game_h then game_h else wall_h);
               top = swrap (game_h - wall_h) sdiv 2;
               bottom = swrap (top + wall_h);
               wall = shade_color (if hit_side = 1 then 0x9a1616 else 0x751010) corrected
        in bind_result (buf_fill_rect col top 2 wall_h wall st) (\<lambda>st.
           bind_result (if top > 0 then buf_fill_rect col top 2 1 (shade_color 0x303850 (abs_int (game_h sdiv 2 - top))) st else Inr st) (\<lambda>st.
             if bottom < game_h then buf_fill_rect col bottom 2 1 (shade_color 0x3a2f23 (abs_int (bottom - game_h sdiv 2))) st else Inr st)))"

text \<open>\<^verbatim>\<open>for (int col = 0; col < fb_w; col += RENDER_STEP)\<close>\<close>

definition columns :: "int \<Rightarrow> int list" where
  "columns fb_w = map (\<lambda>i. 2 * i) [0..(fb_w - 1) div 2]"

definition render_scene :: "('d, 'a) doom_scheme \<Rightarrow> ('d, 'a) doom_scheme result" where
  "render_scene st =
     (let fb_w = swrap (int (fb_width (scr_gfx st))); fb_h = swrap (int (fb_height (scr_gfx st))) in
      if fb_addr (scr_gfx st) = 0 then Inr st
      else let game_h = swrap (fb_h - 34); st = frame_begin fb_w fb_h st in
        bind_result (buf_fill_rect 0 0 fb_w (game_h sdiv 2) 0x303850 st) (\<lambda>st.
        bind_result (buf_fill_rect 0 (game_h sdiv 2) fb_w (game_h sdiv 2) 0x2b241d st) (\<lambda>st.
        bind_result (for_each (render_column fb_w game_h) (columns fb_w) st) (\<lambda>st.
        bind_result (draw_weapon fb_w fb_h st) (\<lambda>st.
        bind_result (draw_status_bar fb_w fb_h st) (\<lambda>st.
        bind_result (draw_minimap 8 24 st) (\<lambda>st.
        bind_result (frame_present st) (\<lambda>st.
          let st = draw_text 10 (swrap (fb_h - 25)) ''DOOM'' 0xff3030 st;
              st = draw_text 82 (swrap (fb_h - 25)) ''HEALTH 100'' 0xffffff st;
              st = draw_text 210 (swrap (fb_h - 25)) ''AMMO 50'' 0xffffff st;
              st = draw_text (swrap (fb_w - 150)) (swrap (fb_h - 25)) ''ESC exits'' 0xd0d0d0 st
          in Inr (draw_text 8 8 ''WASD / arrows move'' 0xffffff st)))))))))"

section \<open>Playing\<close>

definition try_move :: "int \<Rightarrow> int \<Rightarrow> ('d, 'a) doom_scheme \<Rightarrow> ('d, 'a) doom_scheme" where
  "try_move forward strafe st =
     (let (move_angle, amount) =
            (if strafe \<noteq> 0 then (wrap_angle (swrap (player_angle st + (if strafe > 0 then 90 else - 90))), abs_int strafe)
             else (player_angle st, forward));
          nx = swrap (player_x st + (cos_fixed move_angle * amount) div 256);
          ny = swrap (player_y st + (sin_fixed move_angle * amount) div 256);
          st = (if map_wall_at nx (player_y st) = 0 then st\<lparr>player_x := nx\<rparr> else st)
      in if map_wall_at (player_x st) ny = 0 then st\<lparr>player_y := ny\<rparr> else st)"

text \<open>\<open>0\<close> when the game is to end.\<close>

definition handle_key :: "int \<Rightarrow> ('d, 'a) doom_scheme \<Rightarrow> int \<times> ('d, 'a) doom_scheme" where
  "handle_key key st =
     (if key = 27 then (0, st)
      else if key = schar KEY_LEFT \<or> key = schar (CHR ''a'') \<or> key = schar (CHR ''A'')
        then (1, st\<lparr>player_angle := wrap_angle (swrap (player_angle st - 5))\<rparr>)
      else if key = schar KEY_RIGHT \<or> key = schar (CHR ''d'') \<or> key = schar (CHR ''D'')
        then (1, st\<lparr>player_angle := wrap_angle (swrap (player_angle st + 5))\<rparr>)
      else if key = schar KEY_UP \<or> key = schar (CHR ''w'') \<or> key = schar (CHR ''W'') then (1, try_move 56 0 st)
      else if key = schar KEY_DOWN \<or> key = schar (CHR ''s'') \<or> key = schar (CHR ''S'') then (1, try_move (- 56) 0 st)
      else if key = schar (CHR ''q'') \<or> key = schar (CHR ''Q'') then (1, try_move 0 (- 56) st)
      else if key = schar (CHR ''e'') \<or> key = schar (CHR ''E'') then (1, try_move 0 56 st)
      else (1, st))"

section \<open>doom\_compat.c: video and keys\<close>

definition doom_video_init :: "('d, 'a) doom_scheme \<Rightarrow> ('d, 'a) doom_scheme" where
  "doom_video_init st =
     (let g = scr_gfx st in
      st\<lparr>compat_fb := fb_addr g, compat_w := swrap (int (fb_width g)), compat_h := swrap (int (fb_height g)), scr_gfx := fill_screen 0x000000 g\<rparr>)"

definition doom_draw_pixel :: "int \<Rightarrow> int \<Rightarrow> u32 \<Rightarrow> ('d, 'a) doom_scheme \<Rightarrow> ('d, 'a) doom_scheme result" where
  "doom_draw_pixel x y color st =
     (if compat_fb st \<noteq> 0 \<and> x \<ge> 0 \<and> x < compat_w st \<and> y \<ge> 0 \<and> y < compat_h st
      then let i = swrap (y * compat_w st + x) in
        if 0 \<le> i \<and> i < int (fb_height (scr_gfx st) * fb_pitch_px (scr_gfx st))
        then Inr (st\<lparr>scr_gfx := (scr_gfx st)\<lparr>fb := (fb (scr_gfx st))(nat i := color)\<rparr>\<rparr>) else Inl OutOfBounds
      else Inr st)"

definition doom_draw_rect :: "int \<Rightarrow> int \<Rightarrow> int \<Rightarrow> int \<Rightarrow> u32 \<Rightarrow> ('d, 'a) doom_scheme \<Rightarrow> ('d, 'a) doom_scheme" where
  "doom_draw_rect x y w h color st = st\<lparr>scr_gfx := fill_rect x y w h color (scr_gfx st)\<rparr>"

definition doom_flush :: "('d, 'a) doom_scheme \<Rightarrow> ('d, 'a) doom_scheme" where
  "doom_flush st = st"

text \<open>The keyboard is a state of its own; \<^verbatim>\<open>keyboard_getchar\<close> returns at once when a character is there.\<close>

definition doom_get_key :: "('e, 'b) keyboard_scheme \<Rightarrow> int \<times> ('e, 'b) keyboard_scheme" where
  "doom_get_key k =
     (if tt (keyboard_has_char k)
      then case keyboard_getchar [] k of Some (c, _, k) \<Rightarrow> (schar c, k) | None \<Rightarrow> (0, k)
      else (0, k))"

section \<open>The main loop\<close>

text \<open>
  Each turn of the loop takes one element of \<open>evs\<close>: the scancodes that have arrived since the last turn. A turn without a
  key sleeps, which changes nothing here. \<open>True\<close> when the loop has ended, \<open>False\<close> when it goes on after these turns.
\<close>

fun doom_loop :: "u8 list list \<Rightarrow> ('e, 'b) keyboard_scheme \<Rightarrow> ('d, 'a) doom_scheme \<Rightarrow>
    (bool \<times> ('e, 'b) keyboard_scheme \<times> ('d, 'a) doom_scheme) result" where
  "doom_loop [] k st = Inr (False, k, st)"
| "doom_loop (scs # evs) k st =
     (let k = fold key_event scs k in
      if tt (keyboard_has_char k)
      then let (key, k) = doom_get_key k; (on, st) = handle_key key st in
        if on = 0 then Inr (True, k, st)
        else bind_result (render_scene st) (\<lambda>st. doom_loop evs k st)
      else doom_loop evs k st)"

definition doom_main :: "'d bus \<Rightarrow> u8 list list \<Rightarrow> ('e, 'b) keyboard_scheme \<Rightarrow> ('d, 'a) doom_scheme \<Rightarrow>
    (bool \<times> ('e, 'b) keyboard_scheme \<times> ('d, 'a) doom_scheme) result" where
  "doom_main bus evs k st =
     bind_result (print bus (''Starting FalastinOS Doom port...'' @ [NL]) st) (\<lambda>st.
     bind_result (render_scene (doom_video_init (doom_init_palette st))) (\<lambda>st.
     bind_result (doom_loop evs k st) (\<lambda>(over, k, st).
       if \<not> over then Inr (False, k, st)
       else bind_result (print bus (''DOOM exited.'' @ [NL]) (st\<lparr>scr_gfx := fill_screen 0x000000 (scr_gfx st)\<rparr>)) (\<lambda>st.
         Inr (True, k, st)))))"

definition doom_run :: "'d bus \<Rightarrow> u8 list list \<Rightarrow> ('e, 'b) keyboard_scheme \<Rightarrow> ('d, 'a) doom_scheme \<Rightarrow>
    (bool \<times> ('e, 'b) keyboard_scheme \<times> ('d, 'a) doom_scheme) result" where
  "doom_run bus evs k st =
     bind_result (print bus (''=== DOOM for FalastinOS ==='' @ [NL]) (st\<lparr>doom_running := 1\<rparr>)) (\<lambda>st.
     bind_result (print bus (''Loading DOOM...'' @ [NL]) st) (\<lambda>st.
     bind_result (print bus (''Starting built-in Doom renderer...'' @ [NL]) (doom_video_init st)) (\<lambda>st.
     bind_result (print bus (''Controls: arrows/WASD move, Q/E strafe, ESC exits.'' @ [NL]) st) (\<lambda>st.
     bind_result (doom_main bus evs k st) (\<lambda>(over, k, st).
       if \<not> over then Inr (False, k, st)
       else bind_result (print bus (''DOOM exited.'' @ [NL]) st) (\<lambda>st. Inr (True, k, st)))))))"

section \<open>Angles\<close>

lemma angle_up_spec: "angle_up a mod 360 = a mod 360 \<and> 0 \<le> angle_up a \<and> (a < 360 \<longrightarrow> angle_up a < 360)"
proof (induction a rule: angle_up.induct)
  case (1 a)
  show ?case
  proof (cases "a < 0")
    case True
    then show ?thesis using 1 [OF True] by (subst (1 2 3) angle_up.simps) simp
  qed (subst (1 2 3) angle_up.simps, simp)
qed

lemma angle_down_spec: "0 \<le> a \<Longrightarrow> angle_down a = a mod 360"
proof (induction a rule: angle_down.induct)
  case (1 a)
  show ?case
  proof (cases "a \<ge> 360")
    case True
    have "(a - 360) mod 360 = a mod 360" by (simp add: mod_diff_right_eq [symmetric])
    then show ?thesis using 1(1) [OF True] True by (subst angle_down.simps) simp
  next
    case False
    then show ?thesis using 1(2) by (subst angle_down.simps) simp
  qed
qed

lemma wrap_angle_mod: "wrap_angle a = a mod 360"
  using angle_up_spec [of a] angle_down_spec [of "angle_up a"] by (simp add: wrap_angle_def)

text \<open>The sine of a quarter turn: between 0 and 256.\<close>

lemma quarter_bounds:
  fixes a :: int
  assumes "0 \<le> a" and "a \<le> 90"
  shows "0 \<le> 4 * a * (180 - a) * 256 sdiv (40500 - a * (180 - a))" "4 * a * (180 - a) * 256 sdiv (40500 - a * (180 - a)) \<le> 256"
proof -
  define m where "m = a * (180 - a)"
  have "0 \<le> (a - 90) * (a - 90)" by simp
  then have "m \<le> 8100" unfolding m_def by (simp add: algebra_simps)
  moreover have "0 \<le> m" using assms by (simp add: m_def)
  ultimately have m: "0 \<le> m" "m \<le> 8100" by simp_all
  have e: "4 * a * (180 - a) * 256 = 1024 * m" by (simp add: m_def)
  have d: "1024 * m sdiv (40500 - m) = 1024 * m div (40500 - m)" using m by (cases "m = 0") (simp_all add: signed_divide_int_def)
  have "1024 * m \<le> 256 * (40500 - m)" using m by simp
  then have "1024 * m div (40500 - m) \<le> 256 * (40500 - m) div (40500 - m)" by (rule zdiv_mono1) (use m in simp)
  also have "\<dots> = 256" using m by (intro nonzero_mult_div_cancel_right) simp
  finally have "1024 * m div (40500 - m) \<le> 256" .
  then show "4 * a * (180 - a) * 256 sdiv (40500 - a * (180 - a)) \<le> 256" using m unfolding e m_def [symmetric] d by simp
  show "0 \<le> 4 * a * (180 - a) * 256 sdiv (40500 - a * (180 - a))" using m unfolding e m_def [symmetric] d by (simp add: pos_imp_zdiv_nonneg_iff)
qed

lemma sin_bounds: "- 256 \<le> sin_fixed a \<and> sin_fixed a \<le> 256"
proof -
  define b where "b = a mod 360"
  have b: "0 \<le> b" "b < 360" by (simp_all add: b_def)
  define c where "c = (if b \<ge> 180 then b - 180 else b)"
  define d where "d = (if c > 90 then 180 - c else c)"
  have d: "0 \<le> d" "d \<le> 90" using b by (auto simp: d_def c_def)
  note q = quarter_bounds [OF d]
  have "sin_fixed a = (if b \<ge> 180 then - 1 else 1) * (if 40500 - d * (180 - d) \<noteq> 0 then 4 * d * (180 - d) * 256 sdiv (40500 - d * (180 - d)) else 0)"
    by (simp add: sin_fixed_def wrap_angle_mod b_def [symmetric] c_def d_def Let_def)
  then show ?thesis using q by auto
qed

lemma cos_bounds: "- 256 \<le> cos_fixed a \<and> cos_fixed a \<le> 256"
  using sin_bounds by (simp add: cos_fixed_def)

section \<open>Drawing stays in the buffer\<close>

definition painted :: "('d, 'a) doom_scheme \<Rightarrow> ('d, 'a) doom_scheme \<Rightarrow> bool" where
  "painted st0 st \<longleftrightarrow> (\<exists>p q. st = st0\<lparr>frame_buffer := p, scr_gfx := (scr_gfx st0)\<lparr>fb := q\<rparr>\<rparr>)"

definition draws :: "('d, 'a) doom_scheme \<Rightarrow> ('d, 'a) doom_scheme result \<Rightarrow> bool" where
  "draws st0 r \<longleftrightarrow> (\<exists>st. r = Inr st \<and> painted st0 st)"

text \<open>A frame has begun: the buffer is one that holds the whole picture.\<close>

definition frame_ok :: "('d, 'a) doom_scheme \<Rightarrow> bool" where
  "frame_ok st \<longleftrightarrow> screen_ok st \<and> draw_w st = int (fb_width (scr_gfx st)) \<and> draw_h st = int (fb_height (scr_gfx st)) \<and>
     draw_uses_backbuffer st = (draw_w st \<le> 800 \<and> draw_h st \<le> 600) \<and>
     draw_buffer st = (if draw_uses_backbuffer st then Frame_Buffer else Screen_Buffer)"

lemma screen_ok_own [simp]: "screen_ok (st\<lparr>frame_buffer := p\<rparr>) = screen_ok st"
  by (simp add: screen_ok_def)

lemma painted_upd: "painted st (st\<lparr>frame_buffer := p, scr_gfx := (scr_gfx st)\<lparr>fb := q\<rparr>\<rparr>)"
  unfolding painted_def by (rule exI [of _ p], rule exI [of _ q], rule refl)

lemma painted_refl [simp]: "painted st st"
  using painted_upd [of st "fb (scr_gfx st)" "frame_buffer st"] by simp

lemma painted_trans: "painted a b \<Longrightarrow> painted b c \<Longrightarrow> painted a c"
  unfolding painted_def [of a b] painted_def [of b c] by (elim exE) (simp add: painted_upd)

lemma painted_one: "painted st (st\<lparr>frame_buffer := p\<rparr>)" "painted st (st\<lparr>scr_gfx := (scr_gfx st)\<lparr>fb := q\<rparr>\<rparr>)"
  using painted_upd [of st "fb (scr_gfx st)" p] painted_upd [of st q "frame_buffer st"] by simp_all

lemma painted_frame: "painted a b \<Longrightarrow> frame_ok a \<Longrightarrow> frame_ok b"
proof -
  assume "painted a b" and f: "frame_ok a"
  then obtain p q where b: "b = a\<lparr>frame_buffer := p, scr_gfx := (scr_gfx a)\<lparr>fb := q\<rparr>\<rparr>" by (auto simp: painted_def)
  have "screen_ok b" using f screen_ok_fb [of "a\<lparr>frame_buffer := p\<rparr>" q] by (simp add: b frame_ok_def)
  then show "frame_ok b" using f by (simp add: b frame_ok_def)
qed

lemma draws_Inr [simp]: "draws st0 (Inr st) = painted st0 st"
  by (simp add: draws_def)

lemma draws_bind: "draws st0 r \<Longrightarrow> (\<And>st. painted st0 st \<Longrightarrow> draws st0 (f st)) \<Longrightarrow> draws st0 (bind_result r f)"
  by (auto simp: draws_def)

lemma draws_each:
  "(\<And>x st. x \<in> set xs \<Longrightarrow> painted st0 st \<Longrightarrow> draws st0 (f x st)) \<Longrightarrow> painted st0 st \<Longrightarrow> draws st0 (for_each f xs st)"
proof (induction xs arbitrary: st)
  case (Cons x xs)
  obtain st1 where "f x st = Inr st1" "painted st0 st1" using Cons.prems(1) [of x st] Cons.prems(2) by (auto simp: draws_def)
  then show ?case using Cons.IH [of st1] Cons.prems(1) by simp
qed (simp add: draws_def)

lemma frame_sizes:
  assumes "frame_ok st"
  shows "draw_h st * draw_w st < 2 ^ 31" "draw_h st * draw_w st \<le> int (fb_height (scr_gfx st) * fb_pitch_px (scr_gfx st))"
    "8 \<le> draw_w st" "0 < draw_h st" "draw_w st < 2 ^ 31" "draw_h st < 2 ^ 31"
proof -
  let ?g = "scr_gfx st"
  have s: "gfx_ok ?g" "8 \<le> fb_width ?g" "0 < fb_height ?g" and d: "draw_w st = int (fb_width ?g)" "draw_h st = int (fb_height ?g)"
    using assms by (auto simp: frame_ok_def screen_ok_def)
  have le: "fb_height ?g * fb_width ?g \<le> fb_height ?g * fb_pitch_px ?g" using s(1) by (simp add: gfx_ok_def)
  then show "draw_h st * draw_w st \<le> int (fb_height ?g * fb_pitch_px ?g)" using d by (simp flip: of_nat_mult)
  moreover have "int (fb_height ?g * fb_pitch_px ?g) < 2 ^ 31" using s(1) by (simp add: gfx_ok_def flip: of_nat_mult)
  ultimately show "draw_h st * draw_w st < 2 ^ 31" by linarith
  show "8 \<le> draw_w st" "0 < draw_h st" using s d by simp_all
  show "draw_w st < 2 ^ 31" "draw_h st < 2 ^ 31" using dims_int32(3,4) [OF s(1)] s d by simp_all
qed

lemma cell_index:
  fixes x y w h :: int
  assumes "0 \<le> x" "x < w" "0 \<le> y" "y < h"
  shows "0 \<le> y * w" "y * w + x < h * w"
proof -
  have "(y + 1) * w \<le> h * w" using assms by (intro mult_right_mono) auto
  then show "y * w + x < h * w" using assms by (simp add: algebra_simps)
  show "0 \<le> y * w" using assms by simp
qed

lemma store_draws:
  assumes ok: "frame_ok st0" and p: "painted st0 st" and c: "0 \<le> x" "x < draw_w st" "0 \<le> y" "y < draw_h st"
  shows "draws st0 (buf_store (swrap (y * draw_w st) + x) color st)" "draws st0 (buf_store (swrap (y * draw_w st + x)) color st)"
proof -
  have f: "frame_ok st" by (rule painted_frame [OF p ok])
  note s = frame_sizes [OF f]
  note i = cell_index [OF c]
  have w: "swrap (y * draw_w st) = y * draw_w st" "swrap (y * draw_w st + x) = y * draw_w st + x"
    by (intro swrap_id; use i c(1) s(1) in \<open>simp only: is_int32_def; linarith\<close>)+
  have b: "draw_h st * draw_w st \<le> 480000" if "draw_uses_backbuffer st"
  proof -
    have "draw_h st * draw_w st \<le> 600 * 800" using f that s by (intro mult_mono) (auto simp: frame_ok_def)
    then show ?thesis by simp
  qed
  have "draws st0 (buf_store (y * draw_w st + x) color st)"
  proof (cases "draw_uses_backbuffer st")
    case True
    then have t: "draw_buffer st = Frame_Buffer" using f by (simp add: frame_ok_def)
    have "0 \<le> y * draw_w st + x" "y * draw_w st + x < 480000" using i c(1) b [OF True] by linarith+
    then show ?thesis using painted_trans [OF p painted_one(1)] by (simp add: buf_store_def t MAX_FB_W_def MAX_FB_H_def)
  next
    case False
    then have t: "draw_buffer st = Screen_Buffer" using f by (simp add: frame_ok_def)
    have "0 \<le> y * draw_w st + x" "y * draw_w st + x < int (fb_height (scr_gfx st) * fb_pitch_px (scr_gfx st))" using i c s(2) by linarith+
    then show ?thesis using painted_trans [OF p painted_one(2)] by (simp add: buf_store_def t)
  qed
  then show "draws st0 (buf_store (swrap (y * draw_w st) + x) color st)" "draws st0 (buf_store (swrap (y * draw_w st + x)) color st)"
    unfolding w by simp_all
qed

lemma painted_draw [simp]:
  assumes "painted st0 st"
  shows "draw_w st = draw_w st0" "draw_h st = draw_h st0" "player_x st = player_x st0" "player_y st = player_y st0" "player_angle st = player_angle st0"
    "fb_width (scr_gfx st) = fb_width (scr_gfx st0)" "fb_height (scr_gfx st) = fb_height (scr_gfx st0)" "scr_font st = scr_font st0"
  using assms by (auto simp: painted_def)

lemma clamp_bounds: "0 \<le> n \<Longrightarrow> 0 \<le> clamp_int v 0 n \<and> clamp_int v 0 n \<le> n"
  by (simp add: clamp_int_def)

lemma fill_draws:
  assumes ok: "frame_ok st0" and p: "painted st0 st"
  shows "draws st0 (buf_fill_rect x y w h color st)"
proof -
  have n: "0 \<le> draw_w st" "0 \<le> draw_h st" using frame_sizes(3,4) [OF painted_frame [OF p ok]] by auto
  have "draws st0 (buf_store (swrap (py * draw_w s) + px) color s)"
    if "px \<in> set [clamp_int x 0 (draw_w st)..clamp_int (swrap (x + w)) 0 (draw_w st) - 1]"
      "py \<in> set [clamp_int y 0 (draw_h st)..clamp_int (swrap (y + h)) 0 (draw_h st) - 1]" "painted st0 s" for px py s
  proof (rule store_draws(1) [OF ok that(3)])
    show "0 \<le> px" "px < draw_w s" "0 \<le> py" "py < draw_h s"
      using that p clamp_bounds [OF n(1), of x] clamp_bounds [OF n(1), of "swrap (x + w)"] clamp_bounds [OF n(2), of y]
        clamp_bounds [OF n(2), of "swrap (y + h)"] by auto
  qed
  then show ?thesis unfolding buf_fill_rect_def Let_def by (intro draws_each p)
qed

lemma draws_if: "(c \<Longrightarrow> draws st0 a) \<Longrightarrow> (\<not> c \<Longrightarrow> draws st0 b) \<Longrightarrow> draws st0 (if c then a else b)"
  by simp

lemma column_draws:
  assumes ok: "frame_ok st0" and p: "painted st0 st" and w: "fb_w \<noteq> 0"
  shows "draws st0 (render_column fb_w game_h col st)"
  using p w unfolding render_column_def Let_def case_prod_beta
  by (simp only: if_False) (intro draws_bind draws_if fill_draws [OF ok]; simp)

lemma parts_draw:
  assumes ok: "frame_ok st0" and p: "painted st0 st"
  shows "draws st0 (draw_weapon fb_w fb_h st)" "draws st0 (draw_status_bar fb_w fb_h st)" "draws st0 (draw_minimap ox oy st)"
proof -
  show "draws st0 (draw_weapon fb_w fb_h st)" "draws st0 (draw_status_bar fb_w fb_h st)"
    unfolding draw_weapon_def draw_status_bar_def Let_def by (intro draws_bind fill_draws [OF ok] p; assumption)+
  show "draws st0 (draw_minimap ox oy st)" unfolding draw_minimap_def map_cell_def
    by (intro draws_bind draws_each fill_draws [OF ok] p; assumption)
qed

lemma text_painted: "gfx_ok (scr_gfx st) \<Longrightarrow> painted st (draw_text x y txt c st)"
proof -
  assume "gfx_ok (scr_gfx st)"
  from str.paint_clipped [OF this, of "(scr_font st, x, y, txt, c, 0)"] obtain q where
    "font_draw_string (scr_font st) x y txt c 0 (scr_gfx st) = (scr_gfx st)\<lparr>fb := q\<rparr>" by (auto simp: clipped_def)
  then show ?thesis using painted_one(2) [of st q] by (simp add: draw_text_def)
qed

lemma present_draws:
  assumes ok: "frame_ok st0" and p: "painted st0 st"
  shows "draws st0 (frame_present st)"
proof (cases "draw_uses_backbuffer st")
  case True
  have f: "frame_ok st" by (rule painted_frame [OF p ok])
  note s = frame_sizes [OF f]
  have t: "draw_buffer st = Frame_Buffer" "draw_w st \<le> 800" "draw_h st \<le> 600" using f True by (auto simp: frame_ok_def)
  have b: "draw_w st * draw_h st \<le> 800 * 600" "0 \<le> draw_w st * draw_h st" using t s by (intro mult_mono mult_nonneg_nonneg; simp)+
  then have w: "swrap (draw_w st * draw_h st) = draw_w st * draw_h st" by (intro swrap_id) (simp add: is_int32_def)
  define n where "n = u32_of_int (swrap (draw_w st * draw_h st) * 4) div 4"
  have "m * 4 mod 2 ^ 32 = m * 4" if "0 \<le> m" "m \<le> 800 * 600" for m :: int using that by (intro mod_pos_pos_trivial) simp_all
  from this [OF b(2,1)] have "draw_w st * draw_h st * 4 mod 2 ^ 32 = draw_w st * draw_h st * 4" .
  then have n: "int n = draw_w st * draw_h st" using b(2) unfolding n_def w u32_of_int_def by (simp add: zdiv_int)
  then have "int n \<le> int (fb_height (scr_gfx st) * fb_pitch_px (scr_gfx st))" using s(2) by (simp only: mult.commute [of "draw_h st"])
  moreover have "int n \<le> MAX_FB_W * MAX_FB_H" using n b(1) by (simp add: MAX_FB_W_def MAX_FB_H_def)
  ultimately have "int n \<le> MAX_FB_W * MAX_FB_H" "n \<le> fb_height (scr_gfx st) * fb_pitch_px (scr_gfx st)" by (simp_all only: of_nat_le_iff)
  then show ?thesis using painted_trans [OF p painted_one(2)] True t(1) by (simp add: frame_present_def n_def [symmetric] Let_def)
qed (use p in \<open>simp add: frame_present_def\<close>)

definition same_player :: "('d, 'a) doom_scheme \<Rightarrow> ('d, 'a) doom_scheme \<Rightarrow> bool" where
  "same_player st st' \<longleftrightarrow> player_x st' = player_x st \<and> player_y st' = player_y st \<and> player_angle st' = player_angle st"

lemma frame_screen: "frame_ok st \<Longrightarrow> screen_ok st" and frame_gfx: "frame_ok st \<Longrightarrow> gfx_ok (scr_gfx st)"
  by (simp_all add: frame_ok_def screen_ok_def)

lemma scene_drawn:
  assumes ok: "screen_ok st"
  shows "\<exists>st'. render_scene st = Inr st' \<and> screen_ok st' \<and> same_player st st'"
proof (cases "fb_addr (scr_gfx st) = 0")
  case True
  then show ?thesis using ok by (simp add: render_scene_def same_player_def)
next
  case False
  let ?w = "swrap (int (fb_width (scr_gfx st)))" and ?h = "swrap (int (fb_height (scr_gfx st)))"
  define st0 where "st0 = frame_begin ?w ?h st"
  have "gfx_ok (scr_gfx st)" "0 < fb_width (scr_gfx st)" "0 < fb_height (scr_gfx st)" using ok by (auto simp: screen_ok_def)
  note d = dims_int32 [OF this]
  have f0: "frame_ok st0" using ok d(1,2) by (simp add: st0_def frame_begin_def Let_def frame_ok_def MAX_FB_W_def MAX_FB_H_def screen_ok_def)
  have w: "?w \<noteq> 0" using d(1) \<open>0 < fb_width (scr_gfx st)\<close> by simp
  have lettered: "painted st0 (draw_text x y t c s)" if "painted st0 s" for x y t c s
    by (rule painted_trans [OF that text_painted]) (rule frame_gfx [OF painted_frame [OF that f0]])
  have "draws st0 (render_scene st)" using False unfolding render_scene_def Let_def st0_def [symmetric]
    by (simp only: if_False) (intro draws_bind draws_each column_draws parts_draw present_draws fill_draws f0 w painted_refl; simp add: lettered)
  then obtain st' where "render_scene st = Inr st'" "painted st0 st'" by (auto simp: draws_def)
  moreover have "same_player st st0" by (simp add: st0_def frame_begin_def same_player_def Let_def)
  ultimately show ?thesis using frame_screen [OF painted_frame [OF _ f0]] by (simp add: same_player_def)
qed

section \<open>The maze\<close>

definition open_cell :: "int \<Rightarrow> int \<Rightarrow> bool" where
  "open_cell x y \<longleftrightarrow> 0 \<le> x \<and> x < 16 \<and> 0 \<le> y \<and> y < 16 \<and> doom_map ! nat y ! nat x \<noteq> CHR ''1''"

text \<open>The cells that can be walked to from the start, going from a cell to one beside, above or below it.\<close>

inductive walkable :: "int \<Rightarrow> int \<Rightarrow> bool" where
  start: "walkable 1 1"
| step: "walkable x y \<Longrightarrow> open_cell x' y' \<Longrightarrow> \<bar>x - x'\<bar> + \<bar>y - y'\<bar> = 1 \<Longrightarrow> walkable x' y'"

lemma walkable_open: "walkable x y \<Longrightarrow> open_cell x y"
  by (induction rule: walkable.induct) (simp_all add: open_cell_def doom_map_def)

lemma wall_open: "map_wall_at x y = 0 \<longleftrightarrow> open_cell (cell x) (cell y)"
  by (auto simp: map_wall_at_def open_cell_def MAP_W_def MAP_H_def Let_def yn_def)

text \<open>A move of less than a cell, in one direction.\<close>

lemma cell_near: "- 256 < d \<Longrightarrow> d < 256 \<Longrightarrow> \<bar>cell x - cell (x + d)\<bar> \<le> 1"
  using zdiv_mono1 [of "x + d" "x + 256" 256] zdiv_mono1 [of "x - 256" "x + d" 256] by (simp add: cell_def)

lemma walk_x: "walkable (cell x) c \<Longrightarrow> - 256 < d \<Longrightarrow> d < 256 \<Longrightarrow> open_cell (cell (x + d)) c \<Longrightarrow> walkable (cell (x + d)) c"
  using cell_near [of d x] walkable.step [of "cell x" c "cell (x + d)" c] by (cases "cell x = cell (x + d)") auto

lemma walk_y: "walkable c (cell y) \<Longrightarrow> - 256 < d \<Longrightarrow> d < 256 \<Longrightarrow> open_cell c (cell (y + d)) \<Longrightarrow> walkable c (cell (y + d))"
  using cell_near [of d y] walkable.step [of c "cell y" c "cell (y + d)"] by (cases "cell y = cell (y + d)") auto

definition in_maze :: "('d, 'a) doom_scheme \<Rightarrow> bool" where
  "in_maze st \<longleftrightarrow> walkable (cell (player_x st)) (cell (player_y st)) \<and> 0 \<le> player_angle st \<and> player_angle st < 360"

lemma maze_range: "in_maze st \<Longrightarrow> 0 \<le> player_x st \<and> player_x st < 4096 \<and> 0 \<le> player_y st \<and> player_y st < 4096"
  using walkable_open [of "cell (player_x st)" "cell (player_y st)"] by (auto simp: in_maze_def open_cell_def cell_def div_less_iff_less_mult zdiv_int pos_imp_zdiv_nonneg_iff)

lemma step_small:
  fixes c m :: int
  assumes "- 256 \<le> c" "c \<le> 256" "- 56 \<le> m" "m \<le> 56"
  shows "- 256 < c * m div 256" "c * m div 256 < 256"
proof -
  have "\<bar>c * m\<bar> \<le> 256 * 56" unfolding abs_mult using assms by (intro mult_mono) auto
  then have "- 14336 \<le> c * m" "c * m \<le> 14336" by auto
  from zdiv_mono1 [OF this(1), of 256] zdiv_mono1 [OF this(2), of 256] show "- 256 < c * m div 256" "c * m div 256 < 256" by simp_all
qed

lemma move_in_maze:
  assumes m: "in_maze st" and a: "\<bar>forward\<bar> \<le> 56" "\<bar>strafe\<bar> \<le> 56"
  shows "in_maze (try_move forward strafe st)"
proof -
  define angle amount where "angle = (if strafe \<noteq> 0 then wrap_angle (swrap (player_angle st + (if strafe > 0 then 90 else - 90))) else player_angle st)"
    and "amount = (if strafe \<noteq> 0 then abs_int strafe else forward)"
  have am: "- 56 \<le> amount" "amount \<le> 56" using a by (auto simp: amount_def abs_int_def is_int32_def)
  define dx dy where "dx = cos_fixed angle * amount div 256" and "dy = sin_fixed angle * amount div 256"
  have d: "- 256 < dx" "dx < 256" "- 256 < dy" "dy < 256"
    using step_small [OF _ _ am] cos_bounds [of angle] sin_bounds [of angle] by (auto simp: dx_def dy_def)
  have r: "0 \<le> player_x st" "player_x st < 4096" "0 \<le> player_y st" "player_y st < 4096" using maze_range [OF m] by auto
  define nx ny where "nx = player_x st + dx" and "ny = player_y st + dy"
  have w: "swrap (player_x st + dx) = nx" "swrap (player_y st + dy) = ny" using d r by (auto simp: nx_def ny_def is_int32_def)
  define st1 where "st1 = (if map_wall_at nx (player_y st) = 0 then st\<lparr>player_x := nx\<rparr> else st)"
  have pair: "(if strafe \<noteq> 0 then (wrap_angle (swrap (player_angle st + (if strafe > 0 then 90 else - 90))), abs_int strafe)
      else (player_angle st, forward)) = (angle, amount)" by (simp add: angle_def amount_def)
  have t: "try_move forward strafe st = (if map_wall_at (player_x st1) ny = 0 then st1\<lparr>player_y := ny\<rparr> else st1)"
    unfolding try_move_def pair Let_def prod.case dx_def [symmetric] dy_def [symmetric] w st1_def by (rule refl)
  have w1: "walkable (cell (player_x st1)) (cell (player_y st))" "player_y st1 = player_y st" "player_angle st1 = player_angle st"
    using m walk_x [of "player_x st" "cell (player_y st)" dx] d by (auto simp: st1_def in_maze_def wall_open nx_def)
  have "walkable (cell (player_x st1)) (cell ny)" if "map_wall_at (player_x st1) ny = 0"
    using that walk_y [OF w1(1) d(3,4)] by (simp add: wall_open ny_def)
  then show ?thesis using m w1 unfolding t by (auto simp: in_maze_def)
qed

lemma try_move_keeps: "\<exists>x y. try_move f s st = st\<lparr>player_x := x, player_y := y\<rparr>"
proof -
  have "\<exists>x y. (if a then (if b then st\<lparr>player_x := nx\<rparr> else st)\<lparr>player_y := ny\<rparr> else (if b then st\<lparr>player_x := nx\<rparr> else st)) = st\<lparr>player_x := x, player_y := y\<rparr>" for a b nx ny
    by (rule exI [of _ "if b then nx else player_x st"], rule exI [of _ "if a then ny else player_y st"]) simp
  then show ?thesis unfolding try_move_def Let_def case_prod_beta .
qed

lemma screen_ok_player: "screen_ok (st\<lparr>player_x := x, player_y := y\<rparr>) = screen_ok st" "screen_ok (st\<lparr>player_angle := a\<rparr>) = screen_ok st"
  by (simp_all add: screen_ok_def)

text \<open>What a key other than escape does.\<close>

definition steps :: "('d, 'a) doom_scheme \<Rightarrow> int \<times> ('d, 'a) doom_scheme \<Rightarrow> bool" where
  "steps st r \<longleftrightarrow> fst r = 1 \<and> (snd r = st \<or> (\<exists>a. snd r = st\<lparr>player_angle := wrap_angle a\<rparr>) \<or>
     (\<exists>f s. \<bar>f\<bar> \<le> 56 \<and> \<bar>s\<bar> \<le> 56 \<and> snd r = try_move f s st))"

lemma steps_rules:
  "steps st (1, st)" "steps st (1, st\<lparr>player_angle := wrap_angle a\<rparr>)" "\<bar>f\<bar> \<le> 56 \<Longrightarrow> \<bar>s\<bar> \<le> 56 \<Longrightarrow> steps st (1, try_move f s st)"
  "steps st x \<Longrightarrow> steps st y \<Longrightarrow> steps st (if c then x else y)"
  by (auto simp: steps_def)

lemma handle_key_steps: "key \<noteq> 27 \<Longrightarrow> steps st (handle_key key st)"
  unfolding handle_key_def by (simp only: if_False) (intro steps_rules; simp)

lemma key_step_ok:
  assumes k: "key \<noteq> 27" and m: "in_maze st" and s: "screen_ok st"
  obtains st' where "handle_key key st = (1, st')" "in_maze st'" "screen_ok st'"
proof -
  have "screen_ok (try_move f g st)" for f g
  proof -
    obtain x y where "try_move f g st = st\<lparr>player_x := x, player_y := y\<rparr>" using try_move_keeps by blast
    then show ?thesis using s by (simp add: screen_ok_player)
  qed
  moreover have "in_maze (st\<lparr>player_angle := wrap_angle a\<rparr>)" for a using m by (simp add: in_maze_def wrap_angle_mod)
  moreover have "screen_ok (st\<lparr>player_angle := a\<rparr>)" for a using s by (simp add: screen_ok_player)
  ultimately have "in_maze (snd (handle_key key st)) \<and> screen_ok (snd (handle_key key st))" "fst (handle_key key st) = 1"
    using handle_key_steps [OF k, of st] m s move_in_maze [OF m] by (auto simp: steps_def)
  then show ?thesis using that [of "snd (handle_key key st)"] by (simp add: prod_eq_iff)
qed

section \<open>No key ends the game\<close>

definition ESC :: char where "ESC = CHR 0x1B"

lemma schar_ESC: "schar c = 27 \<longleftrightarrow> c = ESC"
  using schar_inj [of c ESC] by (auto simp: ESC_def schar_def)

lemma tables_no_ESC: "list_all (\<lambda>c. c \<noteq> ESC \<and> ctrl_char c \<noteq> ESC) scancode_to_ascii" "list_all (\<lambda>c. c \<noteq> ESC) scancode_to_ascii_shift"
  by code_simp+

lemma key_event_no_ESC: "last_char k \<noteq> ESC \<Longrightarrow> last_char (key_event sc k) \<noteq> ESC"
proof -
  assume k: "last_char k \<noteq> ESC"
  have "last_char (extended_key sc (k\<lparr>extended := 0\<rparr>)) \<noteq> ESC"
    using k by (simp add: extended_key_def set_char_def key_codes ESC_def)
  moreover have "last_char (normal_key sc k) \<noteq> ESC"
  proof (cases "unat sc < length scancode_to_ascii")
    case True
    then have "scancode_to_ascii ! unat sc \<noteq> ESC" "ctrl_char (scancode_to_ascii ! unat sc) \<noteq> ESC" "scancode_to_ascii_shift ! unat sc \<noteq> ESC"
      using tables_no_ESC by (auto simp: list_all_length scancode_to_ascii_def scancode_to_ascii_shift_def)
    then show ?thesis using k True by (simp add: normal_key_def set_char_def Let_def)
  qed (use k in \<open>simp add: normal_key_def\<close>)
  ultimately show ?thesis using k by (simp add: key_event_def)
qed

lemma events_no_ESC: "last_char k \<noteq> ESC \<Longrightarrow> last_char (fold key_event scs k) \<noteq> ESC"
  by (induction scs arbitrary: k) (simp_all add: key_event_no_ESC)

lemma get_key: "tt (char_ready k) \<Longrightarrow> doom_get_key k = (schar (last_char k), k\<lparr>char_ready := 0\<rparr>)"
  by (simp add: doom_get_key_def keyboard_has_char_def keyboard_getchar.simps)

lemma loop_goes_on:
  assumes "last_char k \<noteq> ESC" and "in_maze st" and "screen_ok st"
  shows "\<exists>k' st'. doom_loop evs k st = Inr (False, k', st') \<and> last_char k' \<noteq> ESC \<and> in_maze st' \<and> screen_ok st'"
  using assms
proof (induction evs arbitrary: k st)
  case (Cons scs evs)
  let ?k = "fold key_event scs k"
  have n: "last_char ?k \<noteq> ESC" by (rule events_no_ESC [OF Cons.prems(1)])
  show ?case
  proof (cases "char_ready ?k = 0")
    case True
    then show ?thesis using Cons.IH [OF n Cons.prems(2,3)] by (simp add: keyboard_has_char_def Let_def)
  next
    case False
    have "schar (last_char ?k) \<noteq> 27" using n by (simp add: schar_ESC)
    then obtain st1 where st1: "handle_key (schar (last_char ?k)) st = (1, st1)" "in_maze st1" "screen_ok st1"
      using Cons.prems(2,3) by (rule key_step_ok)
    obtain st2 where st2: "render_scene st1 = Inr st2" "screen_ok st2" "same_player st1 st2" using scene_drawn [OF st1(3)] by blast
    have m: "in_maze st2" using st1(2) st2(3) by (simp add: in_maze_def same_player_def)
    have "last_char (?k\<lparr>char_ready := 0\<rparr>) \<noteq> ESC" using n by simp
    from Cons.IH [OF this m st2(2)] show ?thesis using False get_key [OF False] st1(1) st2(1) by (simp add: keyboard_has_char_def Let_def)
  qed
qed simp

section \<open>Printing keeps the game\<close>

lemma more_player: "screen.more st' = screen.more st \<Longrightarrow> same_player st st'"
  by (cases st; cases st') (simp add: same_player_def)

text \<open>\<open>game_ok\<close>: a game that can go on; everything before, between and after the turns keeps it.\<close>

definition game_ok :: "('d, 'a) doom_scheme \<Rightarrow> bool" where
  "game_ok st \<longleftrightarrow> screen_ok st \<and> in_maze st"

lemma player_maze: "same_player st st' \<Longrightarrow> in_maze st' = in_maze st"
  by (simp add: same_player_def in_maze_def)

lemma print_game: "game_ok st \<Longrightarrow> \<exists>st'. print bus str st = Inr st' \<and> game_ok st'"
  using print_more [of st bus str] more_player player_maze unfolding game_ok_def by blast

lemma video_game: "game_ok st \<Longrightarrow> game_ok (doom_video_init st)"
proof -
  assume g: "game_ok st"
  then have "gfx_ok (scr_gfx st)" by (simp add: game_ok_def screen_ok_def)
  from rect.paint_clipped [OF this, of "(0, 0, swrap (int (fb_width (scr_gfx st))), swrap (int (fb_height (scr_gfx st))), 0)"]
  obtain p where "fill_screen 0 (scr_gfx st) = (scr_gfx st)\<lparr>fb := p\<rparr>" by (auto simp: fill_screen_def clipped_def)
  then have "doom_video_init st = (st\<lparr>scr_gfx := (scr_gfx st)\<lparr>fb := p\<rparr>\<rparr>)\<lparr>compat_fb := fb_addr (scr_gfx st),
      compat_w := swrap (int (fb_width (scr_gfx st))), compat_h := swrap (int (fb_height (scr_gfx st)))\<rparr>"
    by (simp add: doom_video_init_def Let_def)
  then show ?thesis using g screen_ok_fb [of st p] by (simp add: game_ok_def in_maze_def screen_ok_def)
qed

lemma palette_game: "game_ok st \<Longrightarrow> game_ok (doom_init_palette st)"
  by (simp add: game_ok_def doom_init_palette_def in_maze_def screen_ok_def)

lemma main_goes_on:
  assumes k: "last_char k \<noteq> ESC" and g: "game_ok st"
  shows "\<exists>k' st'. doom_main bus evs k st = Inr (False, k', st') \<and> game_ok st'"
proof -
  obtain st1 where st1: "print bus (''Starting FalastinOS Doom port...'' @ [NL]) st = Inr st1" "game_ok st1" using print_game [OF g] by blast
  then have g1: "game_ok (doom_video_init (doom_init_palette st1))" using video_game palette_game by blast
  then obtain st2 where st2: "render_scene (doom_video_init (doom_init_palette st1)) = Inr st2" "game_ok st2"
    using scene_drawn [of "doom_video_init (doom_init_palette st1)"] player_maze unfolding game_ok_def by blast
  then obtain k' st' where "doom_loop evs k st2 = Inr (False, k', st')" "game_ok st'"
    using loop_goes_on [OF k, of st2 evs] unfolding game_ok_def by blast
  then show ?thesis using st1(1) st2(1) by (simp add: doom_main_def)
qed

text \<open>
  C35. The game neither faults nor ends, whatever keys are pressed and whenever: no scancode makes the keyboard handler
  deliver the character 27 that the game waits for, so that the escape key its screen offers does nothing. Meanwhile
  every picture is drawn inside its buffer on every screen size, and the player stays in cells that are open
  and connected to the start of the maze, facing an angle between 0 and 359.
\<close>

theorem doom_never_ends:
  assumes "game_ok st" and "last_char k \<noteq> ESC"
  shows "\<exists>k' st'. doom_run bus evs k st = Inr (False, k', st') \<and> game_ok st'"
proof -
  have g0: "game_ok (st\<lparr>doom_running := 1\<rparr>)" using assms(1) by (simp add: game_ok_def in_maze_def screen_ok_def)
  then obtain st1 where st1: "print bus (''=== DOOM for FalastinOS ==='' @ [NL]) (st\<lparr>doom_running := 1\<rparr>) = Inr st1" "game_ok st1"
    using print_game by blast
  then obtain st2 where st2: "print bus (''Loading DOOM...'' @ [NL]) st1 = Inr st2" "game_ok st2" using print_game by blast
  then obtain st3 where st3: "print bus (''Starting built-in Doom renderer...'' @ [NL]) (doom_video_init st2) = Inr st3" "game_ok st3"
    using print_game video_game by blast
  then obtain st4 where st4: "print bus (''Controls: arrows/WASD move, Q/E strafe, ESC exits.'' @ [NL]) st3 = Inr st4" "game_ok st4"
    using print_game by blast
  obtain k' st' where "doom_main bus evs k st4 = Inr (False, k', st')" "game_ok st'" using main_goes_on [OF assms(2) st4(2)] by blast
  then show ?thesis using st1(1) st2(1) st3(1) st4(1) unfolding doom_run_def by (simp only: bind_result_simps prod.case simp_thms if_True) blast
qed

text \<open>The keyboard is the reason: were the character there, the game would end.\<close>

lemma doom_escape_ends: "tt (char_ready k) \<Longrightarrow> last_char k = ESC \<Longrightarrow> doom_loop ([] # evs) k st = Inr (True, k\<lparr>char_ready := 0\<rparr>, st)"
  by (simp add: keyboard_has_char_def get_key handle_key_def ESC_def schar_def)

definition boot_doom :: "unit doom" where
  "boot_doom = screen.extend boot_screen \<lparr>doom_palette = replicate 256 0, frame_buffer = (\<lambda>_. 0), draw_buffer = Null_Buffer, draw_w = 0, draw_h = 0,
     draw_uses_backbuffer = False, player_x = 384, player_y = 384, player_angle = 0, compat_fb = 0, compat_w = 0, compat_h = 0, doom_running = 1\<rparr>"

lemma boot_doom_ok: "game_ok boot_doom"
  using walkable.start
  by (simp add: game_ok_def in_maze_def boot_doom_def screen.extend_def boot_screen_def boot_font_def screen_ok_def boot_gfx_ok cell_def)

theorem doom_never_ends_witness:
  "\<exists>k' st'. doom_run idle_bus [[0x01, 0x81], [0x11], [0xE0, 0x48]]
      \<lparr>out = [], dev = (), last_char = NUL, char_ready = 0, shift_pressed = 0, ctrl_pressed = 0, extended = 0\<rparr> boot_doom = Inr (False, k', st') \<and> game_ok st'"
  by (rule doom_never_ends [OF boot_doom_ok]) (simp add: ESC_def NUL_def)

end
