(* ===== verification/Doom_Files.thy ===== *)
theory Doom_Files
  imports Fileman Input Interrupts
begin

text \<open>
  The file descriptors of \<^verbatim>\<open>src/doom_compat.c\<close>: sixteen entries that name a file of the current directory. Reading and
  writing go through the whole file each time; the position is kept but not used. Beside them the mouse and timer calls of
  the same file. Shown here: descriptors stay apart, what is written through one is what is read through it, and the
  mouse movements reported add up to the way of the pointer.
\<close>

section \<open>The code\<close>

record doom_file =
  df_name :: "char list"
  df_used :: int
  df_pos :: int
  df_size :: int

fun free_entry :: "nat \<Rightarrow> doom_file list \<Rightarrow> int" where
  "free_entry i [] = - 1"
| "free_entry i (f # fs) = (if df_used f = 0 then int i else free_entry (Suc i) fs)"

text \<open>\<open>dummy\<close> is what the stack holds in the buffer \<^verbatim>\<open>char dummy[4096]\<close>.\<close>

definition doom_open :: "'d bus \<Rightarrow> char list \<Rightarrow> string \<Rightarrow> int \<Rightarrow> doom_file list \<Rightarrow> ('d, 'a) fsys_scheme \<Rightarrow>
    (int \<times> doom_file list \<times> ('d, 'a) fsys_scheme) result" where
  "doom_open bus dummy path how fds st =
     (let i = free_entry 0 fds in
      if i = - 1 then Inr (- 1, fds, st)
      else bind_result (strcpy (df_name (fds ! nat i)) (path @ [NUL])) (\<lambda>name.
        let f = (fds ! nat i)\<lparr>df_name := name, df_used := 1, df_pos := 0\<rparr> in
        bind_result (fs_read path dummy (int (length dummy)) st) (\<lambda>(bytes, _, st).
          if bytes > 0 then Inr (i + 3, fds[nat i := f\<lparr>df_size := bytes\<rparr>], st)
          else Inr (i + 3, fds[nat i := f\<lparr>df_size := 0\<rparr>], snd (fs_create bus path st)))))"

definition bad_fd :: "int \<Rightarrow> doom_file list \<Rightarrow> bool" where
  "bad_fd fd fds \<longleftrightarrow> fd - 3 < 0 \<or> fd - 3 \<ge> 16 \<or> df_used (fds ! nat (fd - 3)) = 0"

definition doom_read :: "int \<Rightarrow> char list \<Rightarrow> int \<Rightarrow> doom_file list \<Rightarrow> ('d, 'a) fsys_scheme \<Rightarrow>
    (int \<times> char list \<times> doom_file list \<times> ('d, 'a) fsys_scheme) result" where
  "doom_read fd buf count fds st =
     (let idx = nat (fd - 3) in
      if bad_fd fd fds then Inr (- 1, buf, fds, st)
      else bind_result (row_text (df_name (fds ! idx))) (\<lambda>name.
        bind_result (fs_read name buf count st) (\<lambda>(bytes, buf, st).
          Inr (bytes, buf, if bytes > 0 then fds[idx := (fds ! idx)\<lparr>df_pos := swrap (df_pos (fds ! idx) + bytes)\<rparr>] else fds, st))))"

text \<open>The loop of \<^verbatim>\<open>doom_write\<close> on the console: up to \<open>n\<close> characters, ended by a NUL.\<close>

fun console_chars :: "nat \<Rightarrow> char list \<Rightarrow> string result" where
  "console_chars 0 buf = Inr []"
| "console_chars (Suc n) [] = Inl OutOfBounds"
| "console_chars (Suc n) (c # buf) = (if c = NUL then Inr [] else bind_result (console_chars n buf) (\<lambda>s. Inr (c # s)))"

definition doom_write :: "'d bus \<Rightarrow> int \<Rightarrow> char list \<Rightarrow> int \<Rightarrow> doom_file list \<Rightarrow> ('d, 'a) fsys_scheme \<Rightarrow>
    (int \<times> doom_file list \<times> ('d, 'a) fsys_scheme) result" where
  "doom_write bus fd buf count fds st =
     (if fd = 1 \<or> fd = 2 then bind_result (console_chars (nat count) buf) (\<lambda>s. Inr (count, fds, emit s st))
      else let idx = nat (fd - 3) in
        if bad_fd fd fds then Inr (- 1, fds, st)
        else bind_result (row_text (df_name (fds ! idx))) (\<lambda>name.
          bind_result (fs_write bus name buf count st) (\<lambda>(r, st).
            Inr (count, fds[idx := (fds ! idx)\<lparr>df_pos := swrap (df_pos (fds ! idx) + count)\<rparr>], st))))"

definition doom_close :: "int \<Rightarrow> doom_file list \<Rightarrow> int \<times> doom_file list" where
  "doom_close fd fds =
     (let idx = nat (fd - 3) in
      (0, if fd - 3 \<ge> 0 \<and> fd - 3 < 16
          then fds[idx := (fds ! idx)\<lparr>df_used := 0, df_size := 0, df_pos := 0, df_name := (df_name (fds ! idx))[0 := NUL]\<rparr>] else fds))"

definition doom_lseek :: "int \<Rightarrow> int \<Rightarrow> int \<Rightarrow> doom_file list \<Rightarrow> int \<times> doom_file list" where
  "doom_lseek fd offset whence fds =
     (let idx = nat (fd - 3); f = fds ! idx in
      if bad_fd fd fds then (- 1, fds)
      else if whence = 0 then (offset, fds[idx := f\<lparr>df_pos := offset\<rparr>])
      else if whence = 1 then (let p = swrap (df_pos f + offset) in (p, fds[idx := f\<lparr>df_pos := p\<rparr>]))
      else if whence = 2 then (let p = swrap (df_size f + offset) in (p, fds[idx := f\<lparr>df_pos := p\<rparr>]))
      else (- 1, fds))"

text \<open>The static variables \<^verbatim>\<open>old_x\<close> and \<^verbatim>\<open>old_y\<close> of \<^verbatim>\<open>doom_get_mouse\<close> are its second argument; they start as \<open>(- 1, - 1)\<close>.\<close>

definition doom_get_mouse :: "('d, 'a) mouse_scheme \<Rightarrow> int \<times> int \<Rightarrow> (int \<times> int \<times> int) \<times> (int \<times> int)" where
  "doom_get_mouse k old =
     (let x = mouse_x k; y = mouse_y k;
          (old_x, old_y) = (if fst old = - 1 then (x, y) else old)
      in ((swrap (x - old_x), swrap (y - old_y), mouse_buttons k), (x, y)))"

definition doom_get_ticks :: "('d, 'a) timer_scheme \<Rightarrow> u32" where
  "doom_get_ticks st = timer_ticks st"

definition doom_sleep :: "u32 \<Rightarrow> bool list \<Rightarrow> ('d, 'a) timer_scheme \<Rightarrow> (bool list \<times> ('d, 'a) timer_scheme) option" where
  "doom_sleep ms irqs st = timer_sleep ms irqs st"

fun mouse_moves :: "('d, 'a) mouse_scheme list \<Rightarrow> int \<times> int \<Rightarrow> (int \<times> int) list" where
  "mouse_moves [] old = []"
| "mouse_moves (k # ks) old = (let ((dx, dy, b), old) = doom_get_mouse k old in (dx, dy) # mouse_moves ks old)"

text \<open>The movements reported by calls in turn add up to the way from the first position seen to the last.\<close>

lemma mouse_moves_add_up:
  assumes "\<forall>k\<in>set (k0 # ks). 0 \<le> mx k \<and> mx k < 2 ^ 31 \<and> 0 \<le> my k \<and> my k < 2 ^ 31"
  shows "sum_list (map fst (mouse_moves (k0 # ks) (- 1, - 1))) = mx (last (k0 # ks)) - mx k0 \<and>
    sum_list (map snd (mouse_moves (k0 # ks) (- 1, - 1))) = my (last (k0 # ks)) - my k0"
proof -
  have w: "swrap (a - b) = a - b" if "0 \<le> a" "a < 2 ^ 31" "0 \<le> b" "b < 2 ^ 31" for a b using that by (intro swrap_id) (simp add: is_int32_def)
  have "sum_list (map fst (mouse_moves qs (mx k, my k))) = mx (last (k # qs)) - mx k \<and> sum_list (map snd (mouse_moves qs (mx k, my k))) = my (last (k # qs)) - my k"
    if "\<forall>q\<in>set (k # qs). 0 \<le> mx q \<and> mx q < 2 ^ 31 \<and> 0 \<le> my q \<and> my q < 2 ^ 31" for k and qs :: "('a, 'b) mouse_scheme list"
    using that
  proof (induction qs arbitrary: k)
    case (Cons q qs)
    have "doom_get_mouse q (mx k, my k) = ((mx q - mx k, my q - my k, mbuttons q), (mx q, my q))"
      using Cons.prems by (simp add: doom_get_mouse_def mouse_x_def mouse_y_def mouse_buttons_def w Let_def)
    then show ?case using Cons.IH [of q] Cons.prems by simp
  qed simp
  from this [OF assms] show ?thesis by (simp add: doom_get_mouse_def mouse_x_def mouse_y_def mouse_buttons_def w Let_def swrap_def)
qed

section \<open>Descriptors\<close>

definition fds_ok :: "doom_file list \<Rightarrow> bool" where
  "fds_ok fds \<longleftrightarrow> length fds = 16 \<and> (\<forall>f\<in>set fds. length (df_name f) = 256 \<and> (df_used f \<noteq> 0 \<longrightarrow> NUL \<in> set (df_name f)))"

lemma free_entry_spec:
  "(free_entry i fds = - 1 \<and> (\<forall>f\<in>set fds. df_used f \<noteq> 0)) \<or>
   (\<exists>k<length fds. free_entry i fds = int (i + k) \<and> df_used (fds ! k) = 0 \<and> (\<forall>j<k. df_used (fds ! j) \<noteq> 0))"
proof (induction fds arbitrary: i)
  case (Cons f fds)
  show ?case
  proof (cases "df_used f = 0")
    case False
    then show ?thesis using Cons.IH [of "Suc i"]
    proof (elim disjE exE conjE)
      fix k assume k: "k < length fds" "free_entry (Suc i) fds = int (Suc i + k)" "df_used (fds ! k) = 0" "\<forall>j<k. df_used (fds ! j) \<noteq> 0"
      have "\<forall>j<Suc k. df_used ((f # fds) ! j) \<noteq> 0" using k(4) False by (auto simp: less_Suc_eq_0_disj)
      then show ?thesis using k False by (intro disjI2 exI [of _ "Suc k"]) simp
    qed (use False in auto)
  qed auto
qed simp

lemma read_any:
  assumes inv: "fs_inv st"
  shows "\<exists>n buf st'. fs_read name dummy (int (length dummy)) st = Inr (n, buf, st') \<and> fs_inv st' \<and> files st' = files st \<and> current_dir st' = current_dir st"
proof (cases rule: find_file_cases [of name "current_dir st" st])
  case none
  then show ?thesis using inv by (simp add: fs_read_def diskfs_read_def)
next
  case (some k)
  have "k < 64" using some(1) inv_table [OF inv] by simp
  from inv_slot [OF inv this] some(2) inv show ?thesis by (auto simp: fs_read_def diskfs_read_def slot_ok_def Let_def)
qed

lemma known_same: "files st' = files st \<Longrightarrow> current_dir st' = current_dir st \<Longrightarrow> lookup name st' = lookup name st \<and> room name st' = room name st"
  by (simp add: lookup_def room_def find_free_def)

text \<open>Creating a name makes it known, if it was not.\<close>

lemma create_makes_known:
  assumes "fs_inv st" and "nul_free path" and "lookup path st \<noteq> None \<or> room path st"
  shows "lookup path (snd (fs_create bus path st)) \<noteq> None" "fs_inv (snd (fs_create bus path st))"
    "\<forall>other. nul_free other \<longrightarrow> other \<noteq> path \<longrightarrow> lookup other (snd (fs_create bus path st)) = lookup other st"
proof -
  show "fs_inv (snd (fs_create bus path st))" using inv_create [OF assms(1)] by (simp add: fs_create_def)
  have e: "lookup n (emit t st) = lookup n st" for n t using known_same [of "emit t st" st n] by simp
  have "lookup path (snd (fs_create bus path st)) \<noteq> None \<and>
      (\<forall>other. nul_free other \<longrightarrow> other \<noteq> path \<longrightarrow> lookup other (snd (fs_create bus path st)) = lookup other st)"
  proof (cases "lookup path st = None")
    case True
    then show ?thesis using create_new [OF assms(1,2) True, of bus] assms(3) by (auto simp: fs_create_def)
  next
    case False
    then have "find_file path (current_dir st) st \<noteq> - 1" by (auto simp: lookup_find_file Let_def split: if_splits)
    then show ?thesis using False by (simp add: fs_create_def diskfs_create_def e)
  qed
  then show "lookup path (snd (fs_create bus path st)) \<noteq> None"
    "\<forall>other. nul_free other \<longrightarrow> other \<noteq> path \<longrightarrow> lookup other (snd (fs_create bus path st)) = lookup other st" by blast+
qed

definition names_fd :: "int \<Rightarrow> string \<Rightarrow> doom_file list \<Rightarrow> bool" where
  "names_fd fd path fds \<longleftrightarrow> 3 \<le> fd \<and> fd < 19 \<and> df_used (fds ! nat (fd - 3)) \<noteq> 0 \<and> cstr (df_name (fds ! nat (fd - 3))) = path"

lemma open_known:
  assumes inv: "fs_inv st" and fds: "fds_ok fds" and free: "\<exists>f\<in>set fds. df_used f = 0" and path: "nul_free path" "length path \<le> 255"
    and known: "lookup path st \<noteq> None \<or> room path st"
  shows "\<exists>fd fds' st'. doom_open bus dummy path how fds st = Inr (fd, fds', st') \<and> fds_ok fds' \<and> names_fd fd path fds' \<and> fs_inv st' \<and>
    lookup path st' \<noteq> None \<and> (\<forall>other. nul_free other \<longrightarrow> other \<noteq> path \<longrightarrow> lookup other st' = lookup other st) \<and>
    (\<forall>q p. names_fd q p fds \<longrightarrow> q \<noteq> fd \<and> names_fd q p fds')"
proof -
  obtain k where k: "k < 16" "free_entry 0 fds = int k" "df_used (fds ! k) = 0" using free_entry_spec [of 0 fds] free fds by (auto simp: fds_ok_def)
  let ?f = "fds ! k"
  have l: "length (df_name ?f) = 256" using fds k(1) by (simp add: fds_ok_def)
  define b where "b = blit (df_name ?f) 0 (path @ [NUL])"
  have "strcpy (df_name ?f) (path @ [NUL]) = Inr b" using strcpy_from_terminated [OF path(1), of "df_name ?f" 0 "[]"] path(2) l by (simp add: strcpy_def b_def)
  moreover have b: "b = path @ NUL # drop (Suc (length path)) (df_name ?f)" using path(2) l by (simp add: b_def blit_0)
  ultimately have cp: "strcpy (df_name ?f) (path @ [NUL]) = Inr b" "cstr b = path" "length b = 256" "NUL \<in> set b"
    using path l by (auto simp: cstr_append_NUL)
  obtain n buf st1 where rd: "fs_read path dummy (int (length dummy)) st = Inr (n, buf, st1)" "fs_inv st1" "files st1 = files st" "current_dir st1 = current_dir st"
    using read_any [OF inv] by blast
  note same = known_same [OF rd(3,4)]
  have c: "lookup path st1 \<noteq> None \<or> room path st1" using known same by simp
  note mk = create_makes_known [OF rd(2) path(1) c, of bus]
  have fd: "names_fd (int k + 3) path (fds[k := ?f\<lparr>df_name := b, df_used := 1, df_pos := 0, df_size := z\<rparr>])"
    and ok: "fds_ok (fds[k := ?f\<lparr>df_name := b, df_used := 1, df_pos := 0, df_size := z\<rparr>])"
    and rest: "names_fd q p fds \<longrightarrow> q \<noteq> int k + 3 \<and> names_fd q p (fds[k := ?f\<lparr>df_name := b, df_used := 1, df_pos := 0, df_size := z\<rparr>])" for z q p
  proof -
    show "names_fd (int k + 3) path (fds[k := ?f\<lparr>df_name := b, df_used := 1, df_pos := 0, df_size := z\<rparr>])"
      using k(1) fds cp(2) by (simp add: names_fd_def fds_ok_def)
    show "fds_ok (fds[k := ?f\<lparr>df_name := b, df_used := 1, df_pos := 0, df_size := z\<rparr>])"
      using fds cp(3,4) k(1) by (auto simp: fds_ok_def dest!: subsetD [OF set_update_subset_insert])
    show "names_fd q p fds \<longrightarrow> q \<noteq> int k + 3 \<and> names_fd q p (fds[k := ?f\<lparr>df_name := b, df_used := 1, df_pos := 0, df_size := z\<rparr>])"
    proof
      assume q: "names_fd q p fds"
      then have "nat (q - 3) \<noteq> k" using k(3) by (auto simp: names_fd_def)
      then show "q \<noteq> int k + 3 \<and> names_fd q p (fds[k := ?f\<lparr>df_name := b, df_used := 1, df_pos := 0, df_size := z\<rparr>])" using q by (auto simp: names_fd_def)
    qed
  qed
  show ?thesis
  proof (cases "n > 0")
    case True
    then have "find_file path (current_dir st) st \<noteq> - 1" using rd(1) by (auto simp: fs_read_def diskfs_read_def Let_def split: if_splits)
    then have "lookup path st1 \<noteq> None" using same by (simp add: lookup_find_file Let_def)
    moreover have "\<forall>q p. names_fd q p fds \<longrightarrow> q \<noteq> int k + 3 \<and> names_fd q p (fds[k := ?f\<lparr>df_name := b, df_used := 1, df_pos := 0, df_size := n\<rparr>])"
      using rest by blast
    ultimately show ?thesis using True k(1,2) cp(1) rd(1,2) fd [of n] ok [of n] same by (auto simp: doom_open_def Let_def)
  next
    case False
    have "\<forall>q p. names_fd q p fds \<longrightarrow> q \<noteq> int k + 3 \<and> names_fd q p (fds[k := ?f\<lparr>df_name := b, df_used := 1, df_pos := 0, df_size := 0\<rparr>])"
      using rest by blast
    then show ?thesis using False k(1,2) cp(1) rd(1) fd [of 0] ok [of 0] mk same by (auto simp: doom_open_def Let_def)
  qed
qed

lemma fd_entry:
  assumes "names_fd fd path fds" and "fds_ok fds"
  shows "\<not> bad_fd fd fds" "row_text (df_name (fds ! nat (fd - 3))) = Inr path" "fd \<noteq> 1" "fd \<noteq> 2" "nat (fd - 3) < length fds"
proof -
  have i: "nat (fd - 3) < 16" and n: "df_used (fds ! nat (fd - 3)) \<noteq> 0" "cstr (df_name (fds ! nat (fd - 3))) = path" using assms(1) by (auto simp: names_fd_def)
  have "NUL \<in> set (df_name (fds ! nat (fd - 3)))" using assms(2) i n(1) nth_mem [of "nat (fd - 3)" fds] by (auto simp: fds_ok_def)
  then show "row_text (df_name (fds ! nat (fd - 3))) = Inr path" using terminated_text(1) n(2) by simp
  show "\<not> bad_fd fd fds" "fd \<noteq> 1" "fd \<noteq> 2" "nat (fd - 3) < length fds" using assms i by (auto simp: names_fd_def bad_fd_def fds_ok_def)
qed

lemma fd_moved:
  assumes "names_fd fd path fds" and "fds_ok fds"
  shows "names_fd fd path (fds[nat (q - 3) := (fds ! nat (q - 3))\<lparr>df_pos := p\<rparr>])" "fds_ok (fds[nat (q - 3) := (fds ! nat (q - 3))\<lparr>df_pos := p\<rparr>])"
proof -
  show "names_fd fd path (fds[nat (q - 3) := (fds ! nat (q - 3))\<lparr>df_pos := p\<rparr>])"
    using assms by (cases "nat (q - 3) = nat (fd - 3)") (auto simp: names_fd_def fds_ok_def)
  show "fds_ok (fds[nat (q - 3) := (fds ! nat (q - 3))\<lparr>df_pos := p\<rparr>])"
  proof (cases "nat (q - 3) < length fds")
    case True
    then show ?thesis using assms(2) nth_mem [OF True] by (auto simp: fds_ok_def dest!: subsetD [OF set_update_subset_insert])
  next
    case False
    then have "fds[nat (q - 3) := x] = fds" for x by (intro list_update_beyond) simp
    then show ?thesis using assms(2) by simp
  qed
qed

section \<open>Properties\<close>

text \<open>
  Files behind descriptors: after opening a name that exists or for which there is room, what is written through
  the descriptor is what is read through it, at once and again without moving the position (the position is counted but
  no read or write uses it); no other name changes and every descriptor that was open still names its file.
\<close>

theorem doom_file_roundtrip:
  assumes "fs_inv st" and "fds_ok fds" and "\<exists>f\<in>set fds. df_used f = 0" and "nul_free path" and "length path \<le> 255"
    and "lookup path st \<noteq> None \<or> room path st" and "length data \<le> 8192" and "length data \<le> length buf" and "int (length data) \<le> count"
  shows "\<exists>fd fds1 st1 fds2 st2 fds3. doom_open bus dummy path how fds st = Inr (fd, fds1, st1) \<and>
    doom_write bus fd data (int (length data)) fds1 st1 = Inr (int (length data), fds2, st2) \<and>
    doom_read fd buf count fds2 st2 = Inr (int (length data), data @ drop (length data) buf, fds3, st2) \<and>
    (\<exists>fds4. doom_read fd buf count fds3 st2 = Inr (int (length data), data @ drop (length data) buf, fds4, st2)) \<and>
    (\<forall>other. nul_free other \<longrightarrow> other \<noteq> path \<longrightarrow> lookup other st2 = lookup other st) \<and>
    (\<forall>q p. names_fd q p fds \<longrightarrow> q \<noteq> fd \<and> names_fd q p fds3)"
proof -
  obtain fd fds1 st1 where o: "doom_open bus dummy path how fds st = Inr (fd, fds1, st1)" "fds_ok fds1" "names_fd fd path fds1" "fs_inv st1"
      "lookup path st1 \<noteq> None" "\<forall>other. nul_free other \<longrightarrow> other \<noteq> path \<longrightarrow> lookup other st1 = lookup other st"
      "\<forall>q p. names_fd q p fds \<longrightarrow> q \<noteq> fd \<and> names_fd q p fds1"
    using open_known [OF assms(1-6)] by blast
  obtain d st2 where w: "diskfs_write bus path data (int (length data)) st1 = Inr (0, st2)" "lookup path st2 = Some (d, data)"
      "\<forall>other. nul_free other \<longrightarrow> other \<noteq> path \<longrightarrow> lookup other st2 = lookup other st1"
      "fsize (files st2 ! nat (find_file path (current_dir st2) st2)) = int (length data)" "fs_inv st2"
    using write_known [OF o(4) assms(4,7)] o(5) by blast
  let ?i = "nat (fd - 3)"
  define move where "move = (\<lambda>fs :: doom_file list. fs[?i := (fs ! ?i)\<lparr>df_pos := swrap (df_pos (fs ! ?i) + int (length data))\<rparr>])"
  have mv: "names_fd q p (move fs)" "fds_ok (move fs)" if "names_fd q p fs" "fds_ok fs" for q p fs
    using fd_moved [OF that, of fd] by (simp_all add: move_def)
  define third where "third = (if data \<noteq> [] then move (move fds1) else move fds1)"
  note e1 = fd_entry [OF o(3,2)] and m1 = mv [OF o(3,2)]
  note m2 = mv [OF m1]
  have m3: "names_fd fd path third" "fds_ok third" using m1 m2 by (simp_all add: third_def)
  have wr: "doom_write bus fd data (int (length data)) fds1 st1 = Inr (int (length data), move fds1, st2)"
    using e1 w(1) by (simp add: doom_write_def fs_write_def Let_def move_def)
  have rd: "doom_read fd buf count fs st2 = Inr (int (length data), data @ drop (length data) buf, if data \<noteq> [] then move fs else fs, st2)"
    if "names_fd fd path fs" "fds_ok fs" for fs
    using fd_entry [OF that] read_known [OF w(5,2,4) assms(9,8)] by (simp add: doom_read_def fs_read_def Let_def move_def)
  have keep: "names_fd q p third" if "names_fd q p fds" for q p
    using o(7) that mv(1) [OF _ o(2)] mv(1) [OF mv(1) [OF _ o(2)] m1(2)] by (simp add: third_def)
  show ?thesis
    by (rule exI [of _ fd], rule exI [of _ fds1], rule exI [of _ st1], rule exI [of _ "move fds1"], rule exI [of _ st2], rule exI [of _ third], intro conjI)
      (use o(1,6,7) w(3) wr rd [OF m1] rd [OF m3] keep in \<open>auto simp: third_def\<close>)
qed

definition boot_fds :: "doom_file list" where
  "boot_fds = replicate 16 \<lparr>df_name = replicate 256 NUL, df_used = 0, df_pos = 0, df_size = 0\<rparr>"

theorem doom_file_roundtrip_witness:
  "\<exists>fd fds1 st1 fds2 st2 fds3. doom_open pio_bus (replicate 4096 NUL) ''a.txt'' 0 boot_fds fresh_fs = Inr (fd, fds1, st1) \<and>
     doom_write pio_bus fd ''hello'' 5 fds1 st1 = Inr (5, fds2, st2) \<and> doom_read fd (replicate 8 NUL) 8 fds2 st2 = Inr (5, ''hello'' @ replicate 3 NUL, fds3, st2)"
proof -
  have "fds_ok boot_fds" "\<exists>f\<in>set boot_fds. df_used f = 0" by (simp_all add: boot_fds_def fds_ok_def)
  from doom_file_roundtrip [OF hello_fresh(1) this hello_fresh(2), of "''hello''" "replicate 8 NUL" 8 pio_bus "replicate 4096 NUL" 0] show ?thesis
    using hello_fresh(3) by auto
qed

end
