(* ===== verification/Fbgui.thy ===== *)
theory Fbgui
  imports Screen Input
begin

text \<open>
  The VGA demonstration of \<^verbatim>\<open>src/fbgui.c\<close>: it programs mode 13h through the VGA registers, paints a picture into the
  memory at 0xA0000, polls the keyboard controller for the escape key and switches back to a blank text screen. The
  polling loop runs with the interrupts of keyboard and mouse enabled, whose handlers read the same data port. Shown
  here: in which turns the loop gets to see a byte, that it ends exactly when such a byte is the escape code, and what
  the two memories hold.
\<close>

section \<open>The code\<close>

text \<open>The two windows of VGA memory the code stores into, 64000 bytes at 0xA0000 and 80 * 25 words at 0xB8000.\<close>

record 'd vga = "'d screen" +
  vga_mem :: "nat \<Rightarrow> u8"
  text_vga :: "nat \<Rightarrow> u16"

definition program_vga :: "'d bus \<Rightarrow> (u16 \<times> u8) list \<Rightarrow> ('d, 'a) machine_scheme \<Rightarrow> ('d, 'a) machine_scheme" where
  "program_vga bus ws st = fold (\<lambda>(port, v) st. outb bus port v st) ws st"

definition mode_13h :: "(u16 \<times> u8) list" where
  "mode_13h =
    [(0x3C2, 0x63), (0x3D4, 0x00), (0x3D5, 0x5F), (0x3D4, 0x01), (0x3D5, 0x4F), (0x3D4, 0x02), (0x3D5, 0x50), (0x3D4, 0x03),
     (0x3D5, 0x82), (0x3D4, 0x04), (0x3D5, 0x54), (0x3D4, 0x05), (0x3D5, 0x80), (0x3D4, 0x06), (0x3D5, 0xBF), (0x3D4, 0x07),
     (0x3D5, 0x1F), (0x3D4, 0x08), (0x3D5, 0x00), (0x3D4, 0x09), (0x3D5, 0x41), (0x3D4, 0x10), (0x3D5, 0x9C), (0x3D4, 0x11),
     (0x3D5, 0x0E), (0x3D4, 0x12), (0x3D5, 0x8F), (0x3D4, 0x13), (0x3D5, 0x28), (0x3D4, 0x14), (0x3D5, 0x1F), (0x3D4, 0x15),
     (0x3D5, 0x96), (0x3D4, 0x16), (0x3D5, 0xB9), (0x3D4, 0x17), (0x3D5, 0xA3), (0x3C4, 0x01), (0x3C5, 0x01), (0x3C4, 0x04),
     (0x3C5, 0x02), (0x3CE, 0x05), (0x3CF, 0x00), (0x3CE, 0x06), (0x3CF, 0x0E)]"

definition mode_text :: "(u16 \<times> u8) list" where
  "mode_text =
    [(0x3C2, 0x67), (0x3D4, 0x00), (0x3D5, 0x5F), (0x3D4, 0x01), (0x3D5, 0x4F), (0x3D4, 0x02), (0x3D5, 0x50), (0x3D4, 0x03),
     (0x3D5, 0x82), (0x3D4, 0x04), (0x3D5, 0x55), (0x3D4, 0x05), (0x3D5, 0x81), (0x3D4, 0x06), (0x3D5, 0xBF), (0x3D4, 0x07),
     (0x3D5, 0x1F), (0x3D4, 0x08), (0x3D5, 0x00), (0x3D4, 0x09), (0x3D5, 0x4F), (0x3D4, 0x10), (0x3D5, 0x9C), (0x3D4, 0x11),
     (0x3D5, 0x0E), (0x3D4, 0x12), (0x3D5, 0x8F), (0x3D4, 0x13), (0x3D5, 0x28), (0x3D4, 0x14), (0x3D5, 0x1F), (0x3D4, 0x15),
     (0x3D5, 0x96), (0x3D4, 0x16), (0x3D5, 0xB9), (0x3D4, 0x17), (0x3D5, 0xA3), (0x3C4, 0x01), (0x3C5, 0x01), (0x3C4, 0x03),
     (0x3C5, 0x00), (0x3C4, 0x04), (0x3C5, 0x02), (0x3CE, 0x05), (0x3CF, 0x00), (0x3CE, 0x06), (0x3CF, 0x0E)]"

definition set_vga_mode_13h :: "'d bus \<Rightarrow> ('d, 'a) machine_scheme \<Rightarrow> ('d, 'a) machine_scheme" where
  "set_vga_mode_13h bus st = program_vga bus mode_13h st"

text \<open>A loop over the columns \<open>l\<close> to \<open>u - 1\<close> of the row that starts at \<open>b\<close>.\<close>

definition pixel_span :: "'v \<Rightarrow> nat \<Rightarrow> nat \<Rightarrow> nat \<Rightarrow> (nat \<Rightarrow> 'v) \<Rightarrow> (nat \<Rightarrow> 'v)" where
  "pixel_span v b l u m = fold (\<lambda>x m. m(b + x := v)) [l..<u] m"

definition set_text_mode :: "'d bus \<Rightarrow> ('d, 'a) vga_scheme \<Rightarrow> ('d, 'a) vga_scheme" where
  "set_text_mode bus st =
     (let st = program_vga bus mode_text st
      in st\<lparr>text_vga := pixel_span 0x0720 0 0 (80 * 25) (text_vga st)\<rparr>)"

definition paint :: "(nat \<Rightarrow> u8) \<Rightarrow> (nat \<Rightarrow> u8)" where
  "paint m =
     (let m = fold (\<lambda>y. pixel_span (if y < 100 then 2 else 4) (y * 320) 0 320) [0..<200] m
      in fold (\<lambda>y. pixel_span 15 (y * 320) 100 220) [70..<130] m)"

text \<open>
  A byte that arrives in the controller from the keyboard or the mouse, and what happens in one turn of the polling
  loop. \<^verbatim>\<open>kmain\<close> has unmasked interrupts 1 and 12 and set the interrupt flag, so the handler of a byte runs, at the
  latest, right after the next port access of the loop. \<open>early\<close> are the bytes that arrive and are handled before
  the status is read, \<open>across\<close> one that is there when the status is read and handled after it, \<open>middle\<close> those that
  arrive and are handled between the two reads, \<open>late\<close> one that arrives before the data is read and is handled after
  that place of the loop.
\<close>

datatype arrival = Key u8 | Motion u8

record poll_turn =
  early :: "arrival list"
  across :: "arrival option"
  middle :: "arrival list"
  late :: "arrival option"

text \<open>The state of the loop: the demonstration's own and that of the two drivers; the device is the first one's.\<close>

type_synonym ('d, 'a) polled = "('d, 'a) vga_scheme \<times> 'd keyboard \<times> 'd mouse"

fun arrive :: "(arrival \<Rightarrow> 'd \<Rightarrow> 'd) \<Rightarrow> arrival option \<Rightarrow> ('d, 'a) polled \<Rightarrow> ('d, 'a) polled" where
  "arrive accept None s = s"
| "arrive accept (Some a) (st, k, m) = (st\<lparr>dev := accept a (dev st)\<rparr>, k, m)"

fun handle :: "'d bus \<Rightarrow> arrival option \<Rightarrow> ('d, 'a) polled \<Rightarrow> ('d, 'a) polled result" where
  "handle bus None s = Inr s"
| "handle bus (Some (Key c)) (st, k, m) = (let k = irq1_c bus (k\<lparr>dev := dev st\<rparr>) in Inr (st\<lparr>dev := dev k\<rparr>, k, m))"
| "handle bus (Some (Motion c)) (st, k, m) =
     bind_result (irq12_c (scr_gfx st) bus (m\<lparr>dev := dev st\<rparr>)) (\<lambda>m. Inr (st\<lparr>dev := dev m\<rparr>, k, m))"

fun handle_all :: "(arrival \<Rightarrow> 'd \<Rightarrow> 'd) \<Rightarrow> 'd bus \<Rightarrow> arrival list \<Rightarrow> ('d, 'a) polled \<Rightarrow> ('d, 'a) polled result" where
  "handle_all accept bus [] s = Inr s"
| "handle_all accept bus (a # as) s = bind_result (handle bus (Some a) (arrive accept (Some a) s)) (handle_all accept bus as)"

definition poll_step :: "(arrival \<Rightarrow> 'd \<Rightarrow> 'd) \<Rightarrow> 'd bus \<Rightarrow> poll_turn \<Rightarrow> ('d, 'a) polled \<Rightarrow> (bool \<times> ('d, 'a) polled) result" where
  "poll_step accept bus t s =
     bind_result (handle_all accept bus (early t) s) (\<lambda>s.
     let (st, drivers) = arrive accept (across t) s; (status, st) = inb bus 0x64 st in
     bind_result (handle bus (across t) (st, drivers)) (\<lambda>s.
     bind_result (handle_all accept bus (middle t) s) (\<lambda>s.
     let (st, drivers) = arrive accept (late t) s;
         (escape, st) = (if status AND 0x01 \<noteq> 0 then let (scancode, st) = inb bus 0x60 st in (scancode = 0x01, st) else (False, st)) in
     bind_result (handle bus (late t) (st, drivers)) (\<lambda>s. Inr (escape, s)))))"

text \<open>The turns to come are a list; \<open>False\<close> with the state means that it ended while the loop was still polling.\<close>

fun poll_escape :: "(arrival \<Rightarrow> 'd \<Rightarrow> 'd) \<Rightarrow> 'd bus \<Rightarrow> poll_turn list \<Rightarrow> ('d, 'a) polled \<Rightarrow> (bool \<times> ('d, 'a) polled) result" where
  "poll_escape accept bus [] s = Inr (False, s)"
| "poll_escape accept bus (t # ts) s =
     bind_result (poll_step accept bus t s) (\<lambda>(escape, s). if escape then Inr (True, s) else poll_escape accept bus ts s)"

definition fbgui_start :: "'d bus \<Rightarrow> ('d, 'a) vga_scheme \<Rightarrow> ('d, 'a) vga_scheme result" where
  "fbgui_start bus st =
     bind_result (print bus (''Switching to graphics mode...'' @ [NL]) st) (\<lambda>st.
     let st = set_vga_mode_13h bus st; st = st\<lparr>vga_mem := paint (vga_mem st)\<rparr> in
     bind_result (print bus (''Graphics mode active. Green top, red bottom, white box.'' @ [NL]) st) (\<lambda>st.
       print bus (''Press ESC to return.'' @ [NL]) st))"

definition fbgui_run :: "(arrival \<Rightarrow> 'd \<Rightarrow> 'd) \<Rightarrow> 'd bus \<Rightarrow> poll_turn list \<Rightarrow> ('d, 'a) polled \<Rightarrow> (bool \<times> ('d, 'a) polled) result" where
  "fbgui_run accept bus ts = (\<lambda>(st, drivers).
     bind_result (fbgui_start bus st) (\<lambda>st.
     bind_result (poll_escape accept bus ts (st, drivers)) (\<lambda>(escape, st, drivers).
     if escape
     then bind_result (print bus (''Returned to text mode.'' @ [NL]) (clear_screen (set_text_mode bus st))) (\<lambda>st. Inr (True, st, drivers))
     else Inr (False, st, drivers))))"

section \<open>The keyboard controller\<close>

text \<open>
  What is documented of the 8042: an output buffer of one byte, bit 0 of the status says that it holds a byte nobody has read,
  reading the data port returns the buffer and clears that bit; the buffer keeps its contents until the next byte
  arrives. The other ports do not touch it.
\<close>

fun arrival_byte :: "arrival \<Rightarrow> u8" where
  "arrival_byte (Key c) = c"
| "arrival_byte (Motion c) = c"

locale ps2_controller =
  fixes bus :: "'d bus" and accept :: "arrival \<Rightarrow> 'd \<Rightarrow> 'd" and buf :: "'d \<Rightarrow> u8" and full :: "'d \<Rightarrow> bool"
  assumes status_bit: "fst (bus_inb bus 0x64 d) AND 0x01 \<noteq> 0 \<longleftrightarrow> full d"
    and status_keeps: "buf (snd (bus_inb bus 0x64 d)) = buf d" "full (snd (bus_inb bus 0x64 d)) = full d"
    and data_read: "fst (bus_inb bus 0x60 d) = buf d" "buf (snd (bus_inb bus 0x60 d)) = buf d" "\<not> full (snd (bus_inb bus 0x60 d))"
    and accepted: "buf (accept a d) = arrival_byte a" "full (accept a d)"
    and other_ports: "port \<notin> {0x60, 0x64} \<Longrightarrow> full (bus_outb bus port v d) = full d"

section \<open>The polling loop\<close>

text \<open>The byte the loop reads in a turn, if any.\<close>

definition byte_seen :: "poll_turn \<Rightarrow> u8 option" where
  "byte_seen t = (case across t of None \<Rightarrow> None
     | Some a \<Rightarrow> Some (arrival_byte (last (a # middle t @ (case late t of None \<Rightarrow> [] | Some b \<Rightarrow> [b])))))"

definition packet_ready :: "('d, 'a) mouse_scheme \<Rightarrow> bool" where
  "packet_ready m \<longleftrightarrow> 0 \<le> mouse_byte_idx m \<and> mouse_byte_idx m < 3 \<and> length (mouse_byte m) = 3"

lemma key_event_dev: "dev (key_event sc k) = dev k"
  using normal_key_cases [of sc k] by (auto simp: key_event_def extended_key_def set_char_def)

lemma mouse_event_ready: "packet_ready m \<Longrightarrow> \<exists>m'. mouse_event g c m = Inr m' \<and> packet_ready m' \<and> dev m' = dev m"
  by (auto simp: mouse_event_def packet_ready_def Let_def)

text \<open>The turns leave the demonstration's own state alone, apart from the device.\<close>

definition waits :: "('d, 'a) vga_scheme \<Rightarrow> ('d, 'a) polled \<Rightarrow> bool" where
  "waits st0 s \<longleftrightarrow> (\<exists>d. fst s = st0\<lparr>dev := d\<rparr>) \<and> packet_ready (snd (snd s))"

abbreviation ctl :: "('d, 'a) polled \<Rightarrow> 'd" where
  "ctl s \<equiv> dev (fst s)"

context ps2_controller
begin

lemma arrive_option:
  assumes "waits st0 s"
  shows "waits st0 (arrive accept x s)" "full (ctl (arrive accept x s)) \<longleftrightarrow> x \<noteq> None \<or> full (ctl s)"
    "buf (ctl (arrive accept x s)) = (case x of None \<Rightarrow> buf (ctl s) | Some a \<Rightarrow> arrival_byte a)"
  using assms by (cases s; cases x; auto simp: accepted waits_def)+

lemma handle_waits:
  assumes "waits st0 s"
  shows "\<exists>s'. handle bus (Some a) s = Inr s' \<and> waits st0 s' \<and> buf (ctl s') = buf (ctl s) \<and> \<not> full (ctl s')"
proof -
  obtain st k m where s: "s = (st, k, m)" by (cases s)
  obtain c d where cd: "bus_inb bus 0x60 (dev st) = (c, d)" by (cases "bus_inb bus 0x60 (dev st)")
  have d: "buf d = buf (dev st)" "\<not> full d" using data_read [of "dev st"] cd by simp_all
  show ?thesis
  proof (cases a)
    case (Key x)
    then show ?thesis using assms d by (auto simp: s irq1_c_def inb_def cd key_event_dev waits_def)
  next
    case (Motion x)
    have "packet_ready (m\<lparr>dev := d\<rparr>)" using assms by (simp add: s packet_ready_def waits_def)
    from mouse_event_ready [OF this, of "scr_gfx st" c] show ?thesis using Motion assms d by (auto simp: s irq12_c_def inb_def cd waits_def)
  qed
qed

lemma handle_all_waits:
  "waits st0 s \<Longrightarrow> \<exists>s'. handle_all accept bus as s = Inr s' \<and> waits st0 s' \<and>
     buf (ctl s') = (if as = [] then buf (ctl s) else arrival_byte (last as)) \<and> (full (ctl s') \<longrightarrow> as = [] \<and> full (ctl s))"
proof (induction as arbitrary: s)
  case (Cons a as)
  obtain s1 where s1: "handle bus (Some a) (arrive accept (Some a) s) = Inr s1" "waits st0 s1" "buf (ctl s1) = arrival_byte a" "\<not> full (ctl s1)"
    using handle_waits [OF arrive_option(1) [OF Cons.prems], of a "Some a"] arrive_option(3) [OF Cons.prems, of "Some a"] by auto
  from Cons.IH [OF s1(2)] show ?case using s1 by (auto simp del: handle.simps arrive.simps)
qed auto

lemma port_waits:
  assumes "waits st0 s"
  shows "waits st0 ((fst s)\<lparr>dev := d\<rparr>, snd s)"
  using assms by (auto simp: waits_def)

lemma handle_option:
  assumes "waits st0 s"
  shows "\<exists>s'. handle bus x s = Inr s' \<and> waits st0 s' \<and> buf (ctl s') = buf (ctl s) \<and> (full (ctl s') \<longrightarrow> x = None \<and> full (ctl s))"
  using assms handle_waits [OF assms] by (cases x) auto

text \<open>The second half of a turn, from the data port on.\<close>

lemma data_waits:
  assumes "waits st0 s" and "\<not> full (ctl s)"
  shows "\<exists>s'. (let (st, drivers) = arrive accept x s;
         (escape, st) = (if b then let (scancode, st) = inb bus 0x60 st in (scancode = 0x01, st) else (False, st)) in
     bind_result (handle bus x (st, drivers)) (\<lambda>s. Inr (escape, s))) =
     Inr (b \<and> (case x of None \<Rightarrow> buf (ctl s) | Some a \<Rightarrow> arrival_byte a) = 1, s') \<and> waits st0 s' \<and> \<not> full (ctl s')"
proof -
  let ?s = "arrive accept x s"
  note a = arrive_option [OF assms(1), of x]
  obtain st ds where s: "?s = (st, ds)" by (cases ?s)
  obtain c d where cd: "bus_inb bus 0x60 (dev st) = (c, d)" by (cases "bus_inb bus 0x60 (dev st)")
  have c: "c = buf (ctl ?s)" "\<not> full d" using data_read [of "dev st"] cd s by simp_all
  obtain s1 where s1: "handle bus x (st\<lparr>dev := d\<rparr>, ds) = Inr s1" "waits st0 s1" "\<not> full (ctl s1)"
    using handle_option [OF port_waits [OF a(1), of d], of x] c(2) s by auto
  obtain s2 where s2: "handle bus x (st, ds) = Inr s2" "waits st0 s2" "\<not> full (ctl s2)"
    using handle_option [OF a(1), of x] a(2) assms(2) s by auto
  show ?thesis using s1 s2 c(1) a(3) by (cases b) (simp_all add: s inb_def cd Let_def)
qed

lemma step_waits:
  assumes "waits st0 s" and "\<not> full (ctl s)"
  shows "\<exists>s'. poll_step accept bus t s = Inr (byte_seen t = Some 1, s') \<and> waits st0 s' \<and> \<not> full (ctl s')"
proof -
  obtain s1 where s1: "handle_all accept bus (early t) s = Inr s1" "waits st0 s1" "\<not> full (ctl s1)"
    using handle_all_waits [OF assms(1), of "early t"] assms(2) by auto
  let ?s = "arrive accept (across t) s1"
  note a = arrive_option [OF s1(2), of "across t"]
  obtain st ds where s2: "?s = (st, ds)" by (cases ?s)
  obtain v d where vd: "bus_inb bus 0x64 (dev st) = (v, d)" by (cases "bus_inb bus 0x64 (dev st)")
  have v: "v AND 1 \<noteq> 0 \<longleftrightarrow> across t \<noteq> None" and d: "buf d = buf (ctl ?s)" "full d = full (ctl ?s)"
    using status_bit [of "dev st"] status_keeps [of "dev st"] a(2) s1(3) vd s2 by simp_all
  obtain s3 where s3: "handle bus (across t) (st\<lparr>dev := d\<rparr>, ds) = Inr s3" "waits st0 s3" "buf (ctl s3) = buf d" "\<not> full (ctl s3)"
    using handle_option [OF port_waits [OF a(1), of d], of "across t"] d(2) a(2) s1(3) s2 by auto
  obtain s4 where s4: "handle_all accept bus (middle t) s3 = Inr s4" "waits st0 s4" "\<not> full (ctl s4)"
      "buf (ctl s4) = (if middle t = [] then buf d else arrival_byte (last (middle t)))"
    using handle_all_waits [OF s3(2), of "middle t"] s3(3,4) by auto
  have seen: "byte_seen t = Some 1 \<longleftrightarrow> v AND 1 \<noteq> 0 \<and> (case late t of None \<Rightarrow> buf (ctl s4) | Some a \<Rightarrow> arrival_byte a) = 1"
    using v s4(4) d(1) a(3) by (auto simp: byte_seen_def split: option.splits)
  from data_waits [OF s4(2,3), of "late t" "v AND 1 \<noteq> 0"] show ?thesis
    unfolding seen by (simp add: poll_step_def s1(1) s2 inb_def vd s3(1) s4(1))
qed

lemma poll_escape_waits:
  "waits st0 s \<Longrightarrow> \<not> full (ctl s) \<Longrightarrow>
     \<exists>s'. poll_escape accept bus ts s = Inr (\<exists>t\<in>set ts. byte_seen t = Some 1, s') \<and> waits st0 s'"
proof (induction ts arbitrary: s)
  case (Cons t ts)
  obtain s1 where "poll_step accept bus t s = Inr (byte_seen t = Some 1, s1)" "waits st0 s1" "\<not> full (ctl s1)"
    using step_waits [OF Cons.prems, of t] by blast
  with Cons.IH [of s1] show ?case by (cases "byte_seen t = Some 1"; cases s1) auto
qed simp

text \<open>Output goes to other ports.\<close>

lemma program_full: "\<forall>(p, v)\<in>set ws. p \<notin> {0x60, 0x64} \<Longrightarrow> full (dev (program_vga bus ws st)) = full (dev st)"
  unfolding program_vga_def by (induction ws arbitrary: st) (auto simp: outb_def other_ports)

lemma put_char_full: "put_char bus c st = Inr st' \<Longrightarrow> full (dev st') = full (dev st)"
  by (auto simp: put_char_def update_cursor_def outb_def other_ports Let_def bind_result_Inr_iff split: if_splits)

lemma print_full: "print bus str st = Inr st' \<Longrightarrow> full (dev st') = full (dev st)"
  unfolding print_put_all by (induction str arbitrary: st) (auto simp: bind_result_Inr_iff dest: put_char_full)

lemma start_full: "fbgui_start bus st = Inr st' \<Longrightarrow> full (dev st') = full (dev st)"
  by (auto simp: fbgui_start_def set_vga_mode_13h_def mode_13h_def program_full Let_def bind_result_Inr_iff dest!: print_full)

end

section \<open>The pictures\<close>

lemma pixel_span_at: "pixel_span v b l u m i = (if b + l \<le> i \<and> i < b + u then v else m i)"
proof (induction u)
  case (Suc u)
  then show ?case by (cases "l \<le> u") (auto simp: pixel_span_def)
qed (auto simp: pixel_span_def)

lemma row_pixel:
  fixes b l u x y :: nat
  assumes "l \<le> u" and "u \<le> 320" and "x < 320"
  shows "b * 320 + l \<le> y * 320 + x \<and> y * 320 + x < b * 320 + u \<longleftrightarrow> y = b \<and> l \<le> x \<and> x < u"
proof (cases y b rule: linorder_cases)
  case less
  then have "(y + 1) * 320 \<le> b * 320" by (intro mult_right_mono) simp_all
  then show ?thesis using assms less by simp
next
  case greater
  then have "(b + 1) * 320 \<le> y * 320" by (intro mult_right_mono) simp_all
  then show ?thesis using assms greater by simp
qed simp

lemma rows_at:
  assumes "l \<le> u" and "u \<le> 320" and "x < 320"
  shows "fold (\<lambda>y. pixel_span (v y) (y * 320) l u) [a..<b] m (y * 320 + x) = (if a \<le> y \<and> y < b \<and> l \<le> x \<and> x < u then v y else m (y * 320 + x))"
proof (induction b)
  case (Suc b)
  then show ?case by (cases "a \<le> b") (auto simp: pixel_span_at row_pixel [OF assms])
qed simp

lemma rows_beyond:
  assumes "u \<le> 320"
  shows "b * 320 \<le> i \<Longrightarrow> fold (\<lambda>y. pixel_span (v y) (y * 320) l u) [a..<b] m i = m i"
proof (induction b)
  case (Suc b)
  then show ?case using assms by (cases "a \<le> b") (auto simp: pixel_span_at)
qed simp

definition flag_picture :: "nat \<Rightarrow> nat \<Rightarrow> u8" where
  "flag_picture x y = (if 100 \<le> x \<and> x < 220 \<and> 70 \<le> y \<and> y < 130 then 15 else if y < 100 then 2 else 4)"

lemma paint_pixel: "x < 320 \<Longrightarrow> y < 200 \<Longrightarrow> paint m (y * 320 + x) = flag_picture x y"
  using rows_at [of 0 320 x "\<lambda>y. if y < 100 then 2 else 4" 0 200 m y]
  by (simp add: paint_def Let_def rows_at [of 100 220 x "\<lambda>y. 15"] flag_picture_def del: upt_rec_numeral)

lemma paint_beyond: "64000 \<le> i \<Longrightarrow> paint m i = m i"
  by (simp add: paint_def Let_def rows_beyond [of 320 200 i "\<lambda>y. if y < 100 then 2 else 4"] rows_beyond [of 220 130 i "\<lambda>y. 15"] del: upt_rec_numeral)

lemma program_dev: "\<exists>d. program_vga bus ws st = st\<lparr>dev := d\<rparr>"
proof (induction ws arbitrary: st)
  case Nil
  show ?case by (intro exI [of _ "dev st"]) (simp add: program_vga_def)
next
  case (Cons w ws)
  obtain p v where w: "w = (p, v)" by (cases w)
  show ?case using Cons.IH [of "outb bus p v st"] by (auto simp: program_vga_def w outb_def)
qed

lemma more_vga: "screen.more st' = screen.more st \<Longrightarrow> vga_mem st' = vga_mem st \<and> text_vga st' = text_vga st"
  by (cases st; cases st') simp

lemma start_shows:
  assumes "screen_ok st"
  shows "\<exists>st'. fbgui_start bus st = Inr st' \<and> screen_ok st' \<and> vga_mem st' = paint (vga_mem st) \<and> text_vga st' = text_vga st"
proof -
  obtain st1 where st1: "print bus (''Switching to graphics mode...'' @ [NL]) st = Inr st1" "screen_ok st1" "screen.more st1 = screen.more st"
    using print_more [OF assms] by blast
  obtain d where d: "program_vga bus mode_13h st1 = st1\<lparr>dev := d\<rparr>" using program_dev [of bus mode_13h st1] by auto
  define st2 where "st2 = st1\<lparr>dev := d, vga_mem := paint (vga_mem st1)\<rparr>"
  have "screen_ok st2" using st1(2) by (simp add: st2_def screen_ok_def)
  then obtain st3 where st3: "print bus (''Graphics mode active. Green top, red bottom, white box.'' @ [NL]) st2 = Inr st3" "screen_ok st3" "screen.more st3 = screen.more st2"
    using print_more by blast
  obtain st4 where st4: "print bus (''Press ESC to return.'' @ [NL]) st3 = Inr st4" "screen_ok st4" "screen.more st4 = screen.more st3"
    using print_more [OF st3(2)] by blast
  have "fbgui_start bus st = Inr st4" unfolding fbgui_start_def set_vga_mode_13h_def st1(1) bind_result_simps Let_def d using st3(1) st4(1) by (simp only: st2_def) simp
  moreover have "vga_mem st4 = paint (vga_mem st) \<and> text_vga st4 = text_vga st"
    using more_vga [OF st1(3)] more_vga [OF st3(3)] more_vga [OF st4(3)] by (simp add: st2_def)
  ultimately show ?thesis using st4(2) by blast
qed

section \<open>Properties\<close>

text \<open>The text screen after the loop.\<close>

lemma return_shows:
  assumes "screen_ok st"
  shows "\<exists>st'. print bus (''Returned to text mode.'' @ [NL]) (clear_screen (set_text_mode bus st)) = Inr st' \<and> screen_ok st' \<and>
    vga_mem st' = vga_mem st \<and> text_vga st' = pixel_span 0x0720 0 0 2000 (text_vga st)"
proof -
  obtain d where d: "program_vga bus mode_text st = st\<lparr>dev := d\<rparr>" using program_dev [of bus mode_text st] by auto
  define st2 where "st2 = st\<lparr>dev := d, text_vga := pixel_span 0x0720 0 0 2000 (text_vga st)\<rparr>"
  have st2: "set_text_mode bus st = st2" by (simp add: set_text_mode_def d st2_def Let_def)
  have "screen_ok (clear_screen st2)" using clear_screen_ok [of st2] assms by (simp add: st2_def screen_ok_def)
  then obtain st3 where st3: "print bus (''Returned to text mode.'' @ [NL]) (clear_screen st2) = Inr st3" "screen_ok st3" "screen.more st3 = screen.more (clear_screen st2)"
    using print_more by blast
  then show ?thesis using more_vga [OF st3(3)] by (simp add: st2 clear_screen_def) (simp add: st2_def)
qed

text \<open>
  C40. The demonstration shows its picture and leaves the loop exactly if the escape code is the byte it sees in one of
  the turns. It sees a byte only in a turn in which one is in the controller, its interrupt not yet taken, at the
  moment the status is read: then that byte, or the last one that arrives before the data is read. Every other byte,
  in particular each one whose interrupt is taken before the next port access, goes to the drivers alone, so an escape
  key pressed then does not end the demonstration. In all cases there is no fault, the VGA memory holds the green and
  red halves with the white box in the middle (nothing behind the 64000 bytes is touched) and the screen can be used
  as before; after the loop the text memory is blank. The controller behaves as documented and starts empty, and
  the mouse driver is at most two bytes into a packet.
\<close>

theorem fbgui_ends:
  assumes "ps2_controller bus accept buf full" and "screen_ok st" and "\<not> full (dev st)" and "packet_ready m"
  shows "\<exists>st' k' m'. fbgui_run accept bus ts (st, k, m) = Inr (\<exists>t\<in>set ts. byte_seen t = Some 1, st', k', m') \<and> screen_ok st' \<and>
    (\<forall>x<320. \<forall>y<200. vga_mem st' (y * 320 + x) = flag_picture x y) \<and> (\<forall>i\<ge>64000. vga_mem st' i = vga_mem st i) \<and>
    (\<forall>i. text_vga st' i = (if (\<exists>t\<in>set ts. byte_seen t = Some 1) \<and> i < 2000 then 0x0720 else text_vga st i))"
proof -
  obtain st1 where st1: "fbgui_start bus st = Inr st1" "screen_ok st1" "vga_mem st1 = paint (vga_mem st)" "text_vga st1 = text_vga st"
    using start_shows [OF assms(2)] by blast
  have w: "waits st1 (st1, k, m)" using assms(4) by (auto simp: waits_def intro: exI [of _ "dev st1"])
  have "\<not> full (dev st1)" using ps2_controller.start_full [OF assms(1) st1(1)] assms(3) by simp
  then obtain d k' m' where p: "poll_escape accept bus ts (st1, k, m) = Inr (\<exists>t\<in>set ts. byte_seen t = Some 1, st1\<lparr>dev := d\<rparr>, k', m')"
    using ps2_controller.poll_escape_waits [OF assms(1) w, of ts] by (auto simp: waits_def)
  have "screen_ok (st1\<lparr>dev := d\<rparr>)" using st1(2) by (simp add: screen_ok_def)
  from return_shows [OF this, of bus] obtain st2 where st2: "print bus (''Returned to text mode.'' @ [NL]) (clear_screen (set_text_mode bus (st1\<lparr>dev := d\<rparr>))) = Inr st2"
    "screen_ok st2" "vga_mem st2 = paint (vga_mem st)" "text_vga st2 = pixel_span 0x0720 0 0 2000 (text_vga st)"
    using st1(3,4) by auto
  show ?thesis
  proof (cases "\<exists>t\<in>set ts. byte_seen t = Some 1")
    case True
    then have "fbgui_run accept bus ts (st, k, m) = Inr (True, st2, k', m')" using st2(1) p st1(1) by (simp add: fbgui_run_def)
    then show ?thesis using True st2 by (simp add: paint_pixel paint_beyond pixel_span_at)
  next
    case False
    then have "fbgui_run accept bus ts (st, k, m) = Inr (False, st1\<lparr>dev := d\<rparr>, k', m')" using p st1(1) by (simp add: fbgui_run_def)
    then show ?thesis using False \<open>screen_ok (st1\<lparr>dev := d\<rparr>)\<close> st1(3,4) by (simp add: paint_pixel paint_beyond)
  qed
qed

text \<open>A controller: the buffer and the bit of the status.\<close>

definition sim_ps2 :: "(u8 \<times> bool) bus" where
  "sim_ps2 = \<lparr>bus_inb = (\<lambda>port (c, f). if port = 0x64 then (if f then 1 else 0, (c, f)) else if port = 0x60 then (c, (c, False)) else (0, (c, f))),
     bus_outb = \<lambda>_ _ d. d, bus_inw = \<lambda>_ d. (0, d), bus_outw = \<lambda>_ _ d. d\<rparr>"

definition sim_accept :: "arrival \<Rightarrow> u8 \<times> bool \<Rightarrow> u8 \<times> bool" where
  "sim_accept a d = (arrival_byte a, True)"

interpretation sim_ctl: ps2_controller sim_ps2 sim_accept fst snd
  by unfold_locales (auto simp: sim_ps2_def sim_accept_def split: if_splits)

definition boot_vga :: "(u8 \<times> bool) vga" where
  "boot_vga = \<lparr>out = [], dev = (0, False), scr_gfx = boot_gfx, scr_font = boot_font, scr_term = scr_term boot_screen,
     cur_col = 127, cur_row = 47, terminal_output_mode = 0, vga_mem = (\<lambda>_. 0), text_vga = (\<lambda>_. 0)\<rparr>"

definition boot_kbd :: "(u8 \<times> bool) keyboard" where
  "boot_kbd = \<lparr>out = [], dev = (0, False), last_char = NUL, char_ready = 0, shift_pressed = 0, ctrl_pressed = 0, extended = 0\<rparr>"

definition boot_mouse :: "(u8 \<times> bool) mouse" where
  "boot_mouse = \<lparr>out = [], dev = (0, False), mx = 512, my = 384, mbuttons = 0, mouse_byte = [0, 0, 0], mouse_byte_idx = 0\<rparr>"

text \<open>Escape pressed and handled at once, in two turns, and escape there when the status is read.\<close>

definition prompt_turns :: "poll_turn list" where
  "prompt_turns = [\<lparr>early = [Key 0x01, Key 0x81], across = None, middle = [], late = None\<rparr>,
     \<lparr>early = [], across = None, middle = [Motion 0x08], late = Some (Key 0x01)\<rparr>]"

definition seen_turn :: poll_turn where
  "seen_turn = \<lparr>early = [], across = Some (Key 0x01), middle = [], late = None\<rparr>"

theorem fbgui_ends_witness:
  "(\<exists>st' k' m'. fbgui_run sim_accept sim_ps2 prompt_turns (boot_vga, boot_kbd, boot_mouse) = Inr (False, st', k', m') \<and> vga_mem st' (100 * 320 + 160) = 15) \<and>
   (\<exists>st' k' m'. fbgui_run sim_accept sim_ps2 (prompt_turns @ [seen_turn]) (boot_vga, boot_kbd, boot_mouse) = Inr (True, st', k', m') \<and>
     vga_mem st' (150 * 320 + 10) = 4 \<and> text_vga st' 1999 = 0x0720)"
proof -
  have ok: "screen_ok boot_vga" by (simp add: boot_vga_def boot_screen_def boot_font_def screen_ok_def boot_gfx_ok)
  have e: "\<not> snd (dev boot_vga)" "packet_ready boot_mouse" by (simp_all add: boot_vga_def boot_mouse_def packet_ready_def)
  have no: "(\<exists>t\<in>set prompt_turns. byte_seen t = Some 1) = False" and yes: "(\<exists>t\<in>set (prompt_turns @ [seen_turn]). byte_seen t = Some 1) = True"
    by (simp_all add: prompt_turns_def seen_turn_def byte_seen_def)
  note run = fbgui_ends [OF sim_ctl.ps2_controller_axioms ok e]
  have p: "flag_picture 160 100 = 15" "flag_picture 10 150 = 4" by (simp_all add: flag_picture_def)
  from run [of prompt_turns boot_kbd, unfolded no] obtain s1 k1 m1 where 1: "fbgui_run sim_accept sim_ps2 prompt_turns (boot_vga, boot_kbd, boot_mouse) = Inr (False, s1, k1, m1)"
    "\<forall>x<320. \<forall>y<200. vga_mem s1 (y * 320 + x) = flag_picture x y" by blast
  from run [of "prompt_turns @ [seen_turn]" boot_kbd, unfolded yes] obtain s2 k2 m2 where 2: "fbgui_run sim_accept sim_ps2 (prompt_turns @ [seen_turn]) (boot_vga, boot_kbd, boot_mouse) = Inr (True, s2, k2, m2)"
    "\<forall>x<320. \<forall>y<200. vga_mem s2 (y * 320 + x) = flag_picture x y" "\<forall>i. text_vga s2 i = (if True \<and> i < 2000 then 0x0720 else text_vga boot_vga i)" by blast
  show ?thesis using 1(1) 2(1,3) 1(2) [rule_format, of 160 100] 2(2) [rule_format, of 10 150] p by simp
qed

end
