(* ===== verification/Loader.thy ===== *)
theory Loader
  imports Diskfs_Dir Editor_Text
begin

text \<open>
  The program loader of \<^verbatim>\<open>src/loader.c\<close>: a file is read into a local buffer, copied to 0x8000 and called. The call is a
  parameter, a function of the memory and the system. Shown here: the code that runs is the file that was stored.
\<close>

section \<open>The code\<close>

definition PROGRAM_LOAD_ADDRESS :: nat where "PROGRAM_LOAD_ADDRESS = 0x8000"

text \<open>The memory at and behind the load address, outside the data of the kernel.\<close>

record 'd loader = "'d fsys" +
  low_mem :: "nat \<Rightarrow> char"

text \<open>The copy loop; reading behind the buffer is a fault.\<close>

definition copy_program :: "char list \<Rightarrow> int \<Rightarrow> (nat \<Rightarrow> char) \<Rightarrow> (nat \<Rightarrow> char) result" where
  "copy_program buffer sz m =
     for_each (\<lambda>i m. bind_result (at buffer i) (\<lambda>c. Inr (m(PROGRAM_LOAD_ADDRESS + nat i := c)))) [0..sz - 1] m"

text \<open>\<open>buffer\<close> is what the stack holds in \<^verbatim>\<open>uint8_t buffer[32768]\<close>, \<open>program\<close> the call of the copied code.\<close>

definition load_and_execute :: "(('d, 'a) loader_scheme \<Rightarrow> ('d, 'a) loader_scheme) \<Rightarrow> char list \<Rightarrow> string \<Rightarrow> ('d, 'a) loader_scheme \<Rightarrow>
    (int \<times> ('d, 'a) loader_scheme) result" where
  "load_and_execute program buffer file st =
     (let st = emit ([NL] @ ''=== Loading Program ==='' @ [NL] @ ''File: '' @ file @ [NL]) st in
      bind_result (fs_load_program file buffer (int (length buffer)) st) (\<lambda>(size, buffer, st).
        if size \<le> 0 then Inr (- 1, emit (''Failed to load program'' @ [NL]) st)
        else bind_result (print_int size (emit ''Loaded '' st)) (\<lambda>st.
          let st = emit ('' bytes'' @ [NL]) st in
          bind_result (copy_program buffer size (low_mem st)) (\<lambda>m.
            let st = program (emit (''Executing program...'' @ [NL, NL]) (st\<lparr>low_mem := m\<rparr>))
            in Inr (0, emit ([NL] @ ''Program finished'' @ [NL]) st)))))"

section \<open>The copy\<close>

lemma copy_exact:
  "n \<le> length buffer \<Longrightarrow> copy_program buffer (int n) m = Inr (\<lambda>a. if PROGRAM_LOAD_ADDRESS \<le> a \<and> a < PROGRAM_LOAD_ADDRESS + n then buffer ! (a - PROGRAM_LOAD_ADDRESS) else m a)"
proof (induction n)
  case 0
  then show ?case by (auto simp: copy_program_def fun_eq_iff)
next
  case (Suc n)
  have "[0..int (Suc n) - 1] = [0..int n - 1] @ [int n]" using upto_rec2 [of 0 "int n"] by simp
  moreover have "at buffer (int n) = Inr (buffer ! n)" using Suc.prems by (simp add: at_def)
  ultimately show ?case using Suc.IH Suc.prems by (auto simp: copy_program_def for_each_append fun_eq_iff)
qed

lemma loader_missing:
  "find_file name (current_dir st) st = - 1 \<Longrightarrow> \<exists>t. load_and_execute program buffer name st = Inr (- 1, emit t st)"
proof -
  assume "find_file name (current_dir st) st = - 1"
  then have "find_file name (current_dir st) (emit t st) = - 1" for t by (simp add: find_file_def)
  then show ?thesis by (auto simp: load_and_execute_def fs_load_program_def diskfs_load_program_def diskfs_read_def Let_def)
qed

text \<open>
  The loader runs what was stored: after a program of 1 to 8192 bytes has been written to a file, loading that
  file succeeds, and the code is called with exactly those bytes at 0x8000, no other memory and no file changed.
\<close>

theorem loader_runs_file:
  assumes "fs_inv st" and "nul_free name" and "code \<noteq> []" and "length code \<le> 8192" and "lookup name st \<noteq> None \<or> room name st" and "length buffer = 32768"
  shows "\<exists>st1 t. fs_write bus name code (int (length code)) st = Inr (0, st1) \<and>
    load_and_execute program buffer name st1 = Inr (0, emit ([NL] @ ''Program finished'' @ [NL]) (program (emit t (st1\<lparr>low_mem :=
      (\<lambda>a. if 0x8000 \<le> a \<and> a < 0x8000 + length code then code ! (a - 0x8000) else low_mem st1 a)\<rparr>))))"
proof -
  obtain d st1 where w: "diskfs_write bus name code (int (length code)) st = Inr (0, st1)" "lookup name st1 = Some (d, code)"
      "fsize (files st1 ! nat (find_file name (current_dir st1) st1)) = int (length code)" "fs_inv st1"
    using write_known [OF assms(1,2,4,5)] by blast
  define st2 where "st2 = emit ([NL] @ ''=== Loading Program ==='' @ [NL] @ ''File: '' @ name @ [NL]) st1"
  have t: "files st2 = files st1" "current_dir st2 = current_dir st1" by (simp_all add: st2_def)
  have f: "find_file name (current_dir st2) st2 = find_file name (current_dir st1) st1" by (simp add: t find_file_def)
  have "lookup name st2 = Some (d, code)" using w(2) f by (simp add: lookup_find_file t Let_def split: if_splits)
  moreover have "fs_inv st2" using w(4) by (simp add: t fs_inv_def)
  ultimately have r: "diskfs_read name buffer (int (length buffer)) st2 = Inr (int (length code), code @ drop (length code) buffer, st2)"
    using read_known [of st2 name d code "int (length buffer)" buffer] w(3) f assms(4,6) by (simp add: t)
  have p: "print_int (int (length code)) s = Inr (emit (dec_int (int (length code))) s)" for s :: "('a, 'b) loader_scheme"
    by (rule print_int_text) (use assms(4) in simp_all)
  have c: "copy_program (code @ drop (length code) buffer) (int (length code)) m =
      Inr (\<lambda>a. if 0x8000 \<le> a \<and> a < 0x8000 + length code then code ! (a - 0x8000) else m a)" for m
    using copy_exact [of "length code" "code @ drop (length code) buffer" m] by (auto simp: PROGRAM_LOAD_ADDRESS_def nth_append fun_eq_iff)
  have n: "0 < int (length code)" using assms(3) by simp
  have e: "(emit x s)\<lparr>low_mem := m\<rparr> = emit x (s\<lparr>low_mem := m\<rparr>)" "low_mem (emit x s) = low_mem s" for x m and s :: "('a, 'b) loader_scheme" by (simp_all add: emit_def)
  define h where "h = [NL] @ ''=== Loading Program ==='' @ [NL] @ ''File: '' @ name @ [NL]"
  define m where "m = (\<lambda>a. if 0x8000 \<le> a \<and> a < 0x8000 + length code then code ! (a - 0x8000) else low_mem st1 a)"
  define t where "t = ((((h @ ''Loaded '') @ dec_int (int (length code))) @ ('' bytes'' @ [NL])) @ (''Executing program...'' @ [NL, NL]))"
  have l: "fs_load_program name buffer (int (length buffer)) (emit h st1) = Inr (int (length code), code @ drop (length code) buffer, emit h st1)"
    using r by (simp only: fs_load_program_def diskfs_load_program_def st2_def h_def)
  have "load_and_execute program buffer name st1 = Inr (0, emit ([NL] @ ''Program finished'' @ [NL]) (program (emit t (st1\<lparr>low_mem := m\<rparr>))))"
    unfolding load_and_execute_def Let_def h_def [symmetric] l bind_result_simps prod.case if_not_P [OF iffD2 [OF not_le n]] p c t_def e m_def emit_emit by (simp only: append_assoc)
  then show ?thesis using w(1) unfolding m_def by (auto simp: fs_write_def)
qed

text \<open>A program of five bytes on a fresh file system.\<close>

definition boot_loader :: "pio loader" where
  "boot_loader = fsys.extend fresh_fs \<lparr>low_mem = (\<lambda>_. NUL)\<rparr>"

theorem loader_runs_file_witness:
  "\<exists>st1 st2. fs_write pio_bus ''a.txt'' ''hello'' 5 boot_loader = Inr (0, st1) \<and>
     load_and_execute (\<lambda>st. st\<lparr>low_mem := (low_mem st)(0 := low_mem st 0x8004)\<rparr>) (replicate 32768 NUL) ''a.txt'' st1 = Inr (0, st2) \<and> low_mem st2 0 = CHR ''o''"
proof -
  have f: "files boot_loader = files fresh_fs" "current_dir boot_loader = current_dir fresh_fs" by (simp_all add: boot_loader_def fsys.extend_def)
  have "fs_inv boot_loader" using hello_fresh(1) f by (simp add: fs_inv_def)
  moreover have "room ''a.txt'' boot_loader" using hello_fresh(3) f by (simp add: room_def find_free_def)
  ultimately obtain st1 t where t: "fs_write pio_bus ''a.txt'' ''hello'' (int (length ''hello'')) boot_loader = Inr (0, st1)"
    "load_and_execute (\<lambda>st. st\<lparr>low_mem := (low_mem st)(0 := low_mem st 0x8004)\<rparr>) (replicate 32768 NUL) ''a.txt'' st1 =
       Inr (0, emit ([NL] @ ''Program finished'' @ [NL]) ((\<lambda>st. st\<lparr>low_mem := (low_mem st)(0 := low_mem st 0x8004)\<rparr>) (emit t (st1\<lparr>low_mem :=
      (\<lambda>a. if 0x8000 \<le> a \<and> a < 0x8000 + length ''hello'' then ''hello'' ! (a - 0x8000) else low_mem st1 a)\<rparr>))))"
    using loader_runs_file [of boot_loader "''a.txt''" "''hello''" "replicate 32768 NUL" pio_bus "\<lambda>st. st\<lparr>low_mem := (low_mem st)(0 := low_mem st 0x8004)\<rparr>"] hello_fresh(2)
    by auto
  moreover have "low_mem (emit u ((\<lambda>st. st\<lparr>low_mem := (low_mem st)(0 := low_mem st 0x8004)\<rparr>) (emit t (st1\<lparr>low_mem := m\<rparr>)))) 0 = m 0x8004" for u m
    by (simp add: emit_def)
  ultimately show ?thesis by simp
qed

end
