(* ===== verification/Lwip_Port.thy ===== *)
theory Lwip_Port
  imports Command_Lines
begin

text \<open>
  Properties of the lwIP port (\<^verbatim>\<open>src/lwip_port.c\<close>, modelled in \<^verbatim>\<open>System_State\<close>): frames of the library go out through the
  RTL8139 driver, frames of the card are handed up by polling. Shown here: a chain of buffers goes out as one frame and
  leaves the heap as it was; and an incoming frame is never delivered, since the input function given to
  \<^verbatim>\<open>netif_add\<close> calls itself.
\<close>

section \<open>Sending\<close>










lemma sys_heap_set [simp]: "sys_heap (set_heap h st) = h"
  by (simp add: sys_heap_def set_heap_def)






section \<open>Receiving\<close>

text \<open>
  What the library documents of the calls used: \<^verbatim>\<open>netif_add\<close> stores the input function it is given (the
  initialisation callback leaves it alone), and no other call used here replaces it or changes \<^verbatim>\<open>lwip_ready\<close>.
\<close>

definition lwip_documented :: "('d, 'a) lwip_lib \<Rightarrow> bool" where
  "lwip_documented lib \<longleftrightarrow>
     (\<forall>a b c init inp s. (\<forall>t. nif_input (nif (snd (init t))) = nif_input (nif t)) \<longrightarrow> nif_input (nif (netif_add lib a b c init inp s)) = inp) \<and>
     (\<forall>s. nif_input (nif (netif_set_default lib s)) = nif_input (nif s) \<and> nif_input (nif (netif_set_up lib s)) = nif_input (nif s)) \<and>
     (\<forall>i a s. nif_input (nif (dns_setserver lib i a s)) = nif_input (nif s)) \<and>
     (\<forall>s. nif_input (nif (sys_check_timeouts lib s)) = nif_input (nif s) \<and> lwip_ready (sys_check_timeouts lib s) = lwip_ready s) \<and>
     (\<forall>n s. nif_input (nif (snd (pbuf_alloc lib n s))) = nif_input (nif s) \<and> lwip_ready (snd (pbuf_alloc lib n s)) = lwip_ready s) \<and>
     (\<forall>p bs n s. nif_input (nif (pbuf_take lib p bs n s)) = nif_input (nif s) \<and> lwip_ready (pbuf_take lib p bs n s) = lwip_ready s)"

lemma input_loops: "lwip_ready st \<noteq> 0 \<Longrightarrow> nif_input (nif st) = Lwip_Input_Fn \<Longrightarrow> lwip_input_fn lib p st = None"
proof (rule ccontr)
  assume st: "lwip_ready st \<noteq> 0" "nif_input (nif st) = Lwip_Input_Fn" and "lwip_input_fn lib p st \<noteq> None"
  then obtain y where "lwip_input_fn lib p st = Some y" by auto
  moreover have "lwip_ready st \<noteq> 0 \<longrightarrow> nif_input (nif st) = Lwip_Input_Fn \<longrightarrow> False" if "lwip_input_fn lib p st = Some y" for p st y
    using that
    by (rule lwip_input_fn.raw_induct [where P = "\<lambda>lib p st y. lwip_ready st \<noteq> 0 \<longrightarrow> nif_input (nif st) = Lwip_Input_Fn \<longrightarrow> False", rotated])
      (auto split: if_splits input_fn.splits)
  ultimately show False using st by blast
qed

lemma receive_keeps:
  "rtl8139_receive_packet bus b n st = Inr (len, buf, st') \<Longrightarrow> nif st' = nif st \<and> lwip_ready st' = lwip_ready st" for st :: "('d, 'a) system_scheme"
  by (auto simp: rtl8139_receive_packet_def inw_def outw_def Let_def split: if_splits prod.splits)

definition stuck :: "('d, 'a) system_scheme \<Rightarrow> bool" where
  "stuck st \<longleftrightarrow> lwip_ready st \<noteq> 0 \<and> nif_input (nif st) = Lwip_Input_Fn"

lemma poll_stuck:
  assumes doc: "lwip_documented lib" and s: "stuck s"
  shows "case rtl8139_receive_packet bus junk 2048 (sys_check_timeouts lib s) of
      Inl e \<Rightarrow> lwip_poll lib bus junk s = Some (Inl e)
    | Inr (len, buf, s2) \<Rightarrow> if 0 < len \<and> fst (pbuf_alloc lib len s2) \<noteq> 0 then lwip_poll lib bus junk s = None
        else \<exists>s3. lwip_poll lib bus junk s = Some (Inr s3) \<and> stuck s3"
proof -
  have t: "stuck (sys_check_timeouts lib s)" using doc s by (simp add: lwip_documented_def stuck_def)
  show ?thesis
  proof (cases "rtl8139_receive_packet bus junk 2048 (sys_check_timeouts lib s)")
    case (Inl e)
    then show ?thesis using s t by (simp add: lwip_poll_def netif_poll_def low_level_input_def stuck_def)
  next
    case (Inr x)
    obtain len buf s2 where x: "x = (len, buf, s2)" by (cases x)
    obtain p s3 where p: "pbuf_alloc lib len s2 = (p, s3)" by (cases "pbuf_alloc lib len s2")
    have s2: "stuck s2" using receive_keeps [OF Inr [unfolded x]] t by (simp add: stuck_def)
    have s3: "stuck s3" using doc s2 p unfolding lwip_documented_def stuck_def by (metis snd_conv)
    have "stuck (pbuf_take lib p buf len s3)" using doc s3 by (simp add: lwip_documented_def stuck_def)
    then have "lwip_input_fn lib p (pbuf_take lib p buf len s3) = None" by (simp add: input_loops stuck_def)
    then show ?thesis using Inr x p s t s2 s3 by (simp add: lwip_poll_def netif_poll_def low_level_input_def stuck_def)
  qed
qed

text \<open>
  C21. Once the library has been started, a frame that arrives stops the machine: whatever the library does apart
  from its documented handling of the input function, a poll in which the card delivers a frame and a buffer for it can
  be had does not return, because the input function given to \<^verbatim>\<open>netif_add\<close> is the one that calls
  \<^verbatim>\<open>netif->input\<close>. A poll without a frame returns, and the next one is in the same position.
\<close>

theorem lwip_poll_hangs_on_frame:
  assumes "lwip_documented lib" and "lwip_init_port lib bus st = Inr st1" and "netif_ptr st1 \<noteq> 0"
  shows "stuck st1 \<and> (\<forall>s. stuck s \<longrightarrow>
    (case rtl8139_receive_packet bus junk 2048 (sys_check_timeouts lib s) of
       Inl e \<Rightarrow> lwip_poll lib bus junk s = Some (Inl e)
     | Inr (len, buf, s2) \<Rightarrow> if 0 < len \<and> fst (pbuf_alloc lib len s2) \<noteq> 0 then lwip_poll lib bus junk s = None
         else \<exists>s3. lwip_poll lib bus junk s = Some (Inr s3) \<and> stuck s3))"
proof -
  have cb: "nif_input (nif (snd (netif_init_cb t))) = nif_input (nif t)" for t :: "('a, 'b) system_scheme" by (simp add: netif_init_cb_def)
  define add where "add = (\<lambda>s. dns_setserver lib 0 (ip4_addr 8 8 8 8) (netif_set_up lib (netif_set_default lib
    (netif_add lib (ip4_addr 10 0 2 15) (ip4_addr 255 255 255 0) (ip4_addr 10 0 2 2) netif_init_cb Lwip_Input_Fn (lwip_init lib s)))))"
  obtain x where x: "bind_result (ended (malloc (sizeof_netif lib) (sys_heap x))) (\<lambda>(p, h). if p = 0 then Inr ((set_heap h x)\<lparr>netif_ptr := p\<rparr>)
      else Inr ((add ((set_heap h x)\<lparr>netif_ptr := p\<rparr>))\<lparr>lwip_ready := 1\<rparr>)) = Inr st1"
    using assms(2) unfolding lwip_init_port_def Let_def add_def [THEN fun_cong, symmetric] bind_result_Inr_iff [of "rtl8139_init bus st"] by blast
  obtain a h where "ended (malloc (sizeof_netif lib) (sys_heap x)) = Inr (a, h)" using x by (cases "ended (malloc (sizeof_netif lib) (sys_heap x))") auto
  then have st1: "st1 = (if a = 0 then (set_heap h x)\<lparr>netif_ptr := a\<rparr> else (add ((set_heap h x)\<lparr>netif_ptr := a\<rparr>))\<lparr>lwip_ready := 1\<rparr>)"
    using x by (simp split: if_splits)
  then have "a \<noteq> 0" using assms(3) by (cases "a = 0") simp_all
  then have "stuck st1" using assms(1) cb unfolding st1 add_def lwip_documented_def stuck_def by simp
  then show ?thesis using poll_stuck [OF assms(1)] by blast
qed

section \<open>A library and a card\<close>

text \<open>A card with one frame of eight bytes in its ring.\<close>

definition frame_bus :: "unit nicbus" where
  "frame_bus = \<lparr>io = idle_bus\<lparr>bus_inw := \<lambda>_ d. (16, d)\<rparr>, io_inl = (\<lambda>_ d. (0, d)), io_outl = (\<lambda>_ _ d. d), rx_memory = (\<lambda>_. [0, 0, 12, 0] @ replicate 12 7),
     rx_fill = (\<lambda>_ d. d), tx_memory = (\<lambda>_ d. d), rx_address = 0, tx_address = 0\<rparr>"

definition boot_port :: "unit system" where
  "boot_port = (set_heap (heap_init blank_heap) boot_system)\<lparr>rtl_initialized := 1\<rparr>"

lemma boot_port_fields:
  "sys_heap boot_port = heap_init blank_heap" "rtl_initialized boot_port = 1" "rx_offset boot_port = 0"
  by (simp_all add: boot_port_def sys_heap_def set_heap_def boot_system_def editor.extend_def ed_boot_def heap_init_def Let_def blank_heap_def)

theorem lwip_poll_hangs_on_frame_witness:
  "\<exists>st1. lwip_init_port plain_lib frame_bus boot_port = Inr st1 \<and> lwip_poll plain_lib frame_bus (replicate 2048 0) st1 = None"
proof -
  obtain h where h: "malloc 64 (heap_init blank_heap) = Some (0x800010, h)" using malloc_boot [of 64] by (auto simp: align8_def)
  obtain st1 where st1: "lwip_init_port plain_lib frame_bus boot_port = Inr st1" "netif_ptr st1 = 0x800010" "rtl_initialized st1 = 1" "rx_offset st1 = 0"
    using h boot_port_fields by (auto simp: lwip_init_port_def rtl8139_init_def plain_lib_def ended_def netif_init_cb_def Let_def set_heap_def)
  have doc: "lwip_documented plain_lib" by (simp add: lwip_documented_def plain_lib_def)
  obtain buf s2 where rx: "rtl8139_receive_packet frame_bus (replicate 2048 0) 2048 st1 = Inr (8, buf, s2)"
    using st1(3,4) by (auto simp: rtl8139_receive_packet_def frame_bus_def idle_bus_def inw_def outw_def Let_def le16_at_def)
  have "netif_ptr st1 \<noteq> 0" using st1(2) by simp
  note t = lwip_poll_hangs_on_frame [OF doc st1(1) this, of "replicate 2048 0"]
  from conjunct2 [OF t, rule_format, OF conjunct1 [OF t]] rx
  have "lwip_poll plain_lib frame_bus (replicate 2048 0) st1 = None" by (simp add: plain_lib_def)
  then show ?thesis using st1(1) by blast
qed





end
