(* ===== verification/Spec2Isabelle.thy ===== *)
theory Spec2Isabelle
  imports Heap_Contract Diskfs_Dir Storage Screen Interrupts Input Web Shell Snake Windows Fileman Boot Doom Doom_Files Fbgui Loader Lwip_Port
begin

text \<open>
  A verification development for FalastinOS, a 32-bit x86 operating system in C that runs as one program: a kernel
  with drivers for the ATA disk, the interrupt controllers, the timer, keyboard, mouse and an RTL8139 network card,
  a file system with 64 files, a heap, a C library, a small network stack, and on top of them a desktop with a
  program manager, a terminal window, a file manager, an editor, a command interpreter, a shell and games.

  \<^bold>\<open>How the program is modelled.\<close> The definitions are a shallow embedding of the C functions, under the names they have
  there. Global variables of a file are the fields of a record; a component that uses another extends its record, so
  that a state holds what the linked kernel holds. An operation takes the state and returns the new one. \<^verbatim>\<open>int\<close> is
  \<open>int\<close> with \<open>swrap\<close> where a value can leave the 32-bit range, unsigned bytes and words are machine words or naturals
  with the wrap-around written out, \<^verbatim>\<open>char\<close> is signed (\<open>schar\<close>) as gcc has it on x86. What C leaves undefined, an access
  outside an array or an unterminated string, is a fault: a value \<open>Inl\<close> of the result type \<open>'a result\<close>, so that a
  theorem that a function returns \<open>Inr\<close> says that it runs without one. Text that is printed is collected in the field
  \<open>out\<close>. Ports are a \<open>bus\<close>, four functions on an arbitrary device state; what drivers rely on is stated in locales after
  the data sheets, with a simulated device as an instance. Interrupts and keys to come are lists in the state, stack
  memory that is read before it is written is an argument.

  \<^bold>\<open>The theories\<close>, with the files under src/ they model.

  \<^item> \<^verbatim>\<open>Prelude\<close>: machine integers, C strings, faults, bytes of words, the lemma collections; \<^verbatim>\<open>Printing\<close>: \<^verbatim>\<open>print_int\<close> of
    fs.c and its copies.
  \<^item> \<^verbatim>\<open>Memory\<close> (the memory routines of libc.c), \<^verbatim>\<open>Malloc\<close> (malloc.c): byte-addressed memory and the first-fit heap over
    block headers that lie in that memory. \<^verbatim>\<open>Heap_Contract\<close>: the chain of blocks is always well-formed; the locales
    \<open>allocator\<close> and \<open>writable_allocator\<close> say what callers get (live blocks never overlap, contents survive other calls,
    an allocation fails only when no free block is large enough), interpreted on \<open>malloc\<close> and \<open>free_ptr\<close>.
  \<^item> \<^verbatim>\<open>Libc\<close> (libc.c): strings, conversions and \<^verbatim>\<open>vsnprintf\<close>, on arrays with explicit bounds.
  \<^item> \<^verbatim>\<open>Ata\<close> (ata.c): the PIO driver. The locale \<open>pio_drive\<close> is the drive's protocol, \<open>sector_store\<close> what the driver makes
    of it, linked by a sublocale. \<^verbatim>\<open>Storage\<close>: storage.c, storage\_interface.c, storage\_ata.c, storage\_qemu.c, disk.c.
  \<^item> \<^verbatim>\<open>Diskfs\<close> (diskfs.c, fs.c), \<^verbatim>\<open>Diskfs_Persist\<close> (what is saved is what is loaded), \<^verbatim>\<open>Diskfs_Files\<close> (the invariant
    \<open>fs_inv\<close> and every operation), \<^verbatim>\<open>Diskfs_Dir\<close> (the locale \<open>directory\<close>: a directory as a map from names to contents,
    interpreted on the file operations; reachable states by rule induction, from a start with no drive or with one that
    holds no file system or a consistent one, \<open>disk_fine\<close>).
  \<^item> \<^verbatim>\<open>Graphics\<close> (graphics.c, font.c, cursor\_gfx.c): drawing is clipped to the framebuffer (locale \<open>painter\<close>, one
    interpretation per primitive). \<^verbatim>\<open>Terminal\<close> (term\_io.c) refines an abstract terminal; \<^verbatim>\<open>Screen\<close> (screen.c, cursor.c);
    the locale \<open>char_sink\<close> carries single characters over to strings for both.
  \<^item> \<^verbatim>\<open>Interrupts\<close> (pic.c, interrupts.c, timer.c; locale \<open>pic_pair\<close>), \<^verbatim>\<open>Input\<close> (keyboard.c, mouse.c; locale \<open>byte_device\<close>;
    the US layout \<open>us_rows\<close> is written down independently of the driver's tables).
  \<^item> \<^verbatim>\<open>Nic\<close> (pci.c, rtl8139.c; locale \<open>nic_card\<close>), \<^verbatim>\<open>Net\<close> and \<^verbatim>\<open>Net_Protocol\<close> (net.c; locale \<open>addr_cache\<close> for the ARP
    cache), \<^verbatim>\<open>Web\<close> (dns\_simple.c, the HTTP part of net.c, html.c).
  \<^item> \<^verbatim>\<open>Editor\<close>, \<^verbatim>\<open>Editor_Text\<close>, \<^verbatim>\<open>Editor_Session\<close> (editor.c): the editor on \<^verbatim>\<open>lines[128][121]\<close> refines an editor on lists of
    lines; the locale \<open>stepwise\<close> lifts the simulation of a key to sessions; saving and reloading.
  \<^item> \<^verbatim>\<open>System_State\<close> (lwip\_port.c): the state of the linked system that commands and desktop work on, and sending,
    receiving and polling for the lwIP library, whose functions are the record \<open>lwip_lib\<close>. \<^verbatim>\<open>Lwip_Port\<close>: what these do.
  \<^item> \<^verbatim>\<open>Commands\<close>, \<^verbatim>\<open>Command_Lines\<close>, \<^verbatim>\<open>Command_Effects\<close> (commands.c): all commands, the splitting of lines, and that no
    command breaks the file system. \<^verbatim>\<open>Shell\<close> (shell.c): line editing and history.
  \<^item> \<^verbatim>\<open>Gamemode\<close> (gamemode.c; locale \<open>guest\<close> for a game that leaves the saved picture alone), \<^verbatim>\<open>Snake\<close> (snake.c).
  \<^item> \<^verbatim>\<open>Windows\<close> (the window table of brickwm.c), \<^verbatim>\<open>Fileman\<close> (fileman.c), \<^verbatim>\<open>Desktop\<close> (drawing and main loop of brickwm.c,
    term.c, progman.c; every turn calls \<^verbatim>\<open>lwip_poll\<close>), \<^verbatim>\<open>Desktop_Session\<close>: sessions of the whole desktop.
  \<^item> \<^verbatim>\<open>Boot\<close> (kernel.c): \<^verbatim>\<open>kmain\<close> composes the initialisations of the components above and starts the desktop; from zeroed
    memory it reaches a state in which the desktop's invariant holds.
  \<^item> \<^verbatim>\<open>Doom\<close> (doom\_wrapper.c and the video and key calls of doom\_compat.c): the ray caster, its maze and its main loop;
    \<^verbatim>\<open>Doom_Files\<close> (the file descriptors, mouse and timer calls of doom\_compat.c).
  \<^item> \<^verbatim>\<open>Fbgui\<close> (fbgui.c): the VGA demonstration, whose polling loop runs beside the interrupt handlers of keyboard and mouse
    (locale \<open>ps2_controller\<close>); \<^verbatim>\<open>Loader\<close> (loader.c): running a program from a file.

  \<^bold>\<open>What is shown.\<close> For each component an invariant that all its operations keep (heap chain, file table, screen cursor,
  editor rows, shell buffers, window table, file manager list, the desktop as a whole) together with the absence of
  faults, or the exact inputs that cause one; its behaviour against a simpler specification (allocator, directory map,
  abstract terminal, list editor, snake as a list, word splitting, ARP cache as a map); round trips (sector, saved file
  system, file contents, numbers, addresses, typed text, saved and reloaded text, checksum); and that it ends or
  answers where a loop waits (sleeping, the turns that leave the desktop). Where the code has a defect, the theorem
  states what it does or names the condition under which it does not show: sizes above $2^{32} - 8$ wrap around in
  \<^verbatim>\<open>malloc\<close>, a frame that runs past the end of the receive ring puts driver and card out of step, ARP requests in network
  byte order are not answered, a window title keeps the end of an older one, a rename to a shorter name can write
  outside the file table, a recalled history line is drawn over a longer one, the game cannot be left since no key sends
  the character it waits for, the escape key that should end the VGA demonstration goes to the interrupt handler unless
  the poll happens to come between the byte and its interrupt, and the first frame received for lwIP makes the input function
  call itself without end.

  \<^bold>\<open>Bounds.\<close> Loops with a bounded counter in C recurse on that counter. Loops that wait for hardware recurse on the
  interrupts or keys still to come, which are finite lists: a function then returns with what is left, and the theorems
  say how many are needed. The main loop of the window manager (\<open>wm_loop\<close>) and of the shell take the list of turns they
  are to make, that of the game (\<open>doom_loop\<close>) the scancodes that arrive between its turns, that of the VGA demonstration
  (\<open>poll_escape\<close>) the bytes that arrive in each turn with the moments their interrupts are taken; \<open>True\<close> in the result of these
  loops says that the loop has ended by itself. \<open>lwip_input_fn\<close> and the walks over the heap are partial
  functions whose value \<open>None\<close> means that they do not return; where a caller gives a result, that is \<open>NoEvent\<close>. No fuel is
  used otherwise.

  \<^bold>\<open>Parameters.\<close> The font's bitmaps, the device behind the ports, the memory of the network card, what the stack holds,
  the functions of lwIP, the machine code that is loaded, and, for the command interpreter and the desktop, the programs
  behind the commands \<^verbatim>\<open>gui\<close>, \<^verbatim>\<open>doom\<close>, \<^verbatim>\<open>snake\<close> and \<^verbatim>\<open>fbgui\<close> with what they leave in the framebuffer. Theorems name what
  they assume of them (\<open>env_ok\<close>, \<open>programs_keep\<close>, \<open>lib_apart\<close>: the library keeps to its own data, \<open>lwip_documented\<close>,
  \<open>disk_fine\<close>). The calls of lwip\_port.c from commands and desktop are the code itself: a session in which \<^verbatim>\<open>lwip_poll\<close>
  faults or does not return is one that ends there (\<open>poll_fails\<close>).

  \<^bold>\<open>Not modelled.\<close> lwIP (lwip-2.1.3) is a third-party library, vendored unchanged. The assembly files set up segments and
  interrupt stubs; the stubs are parameters. idt.c, dns.c, ide.c, ahci.c, doom.c and lwip\_port/inet\_chksum.c are not built
  by the Makefile and have modelled counterparts in use; lwip\_port/sys\_arch.c holds an empty function and a call of its
  argument.
\<close>

end
